(* ===== verification/Prelude.thy ===== *)
theory Prelude
  imports Main "HOL-Library.List_Lexorder" "HOL-Library.Char_ord" "HOL-Library.Code_Target_Numeral"
begin

text \<open>
  Shared vocabulary of the development: the dynamic values that cross the program's
  boundaries (\<open>unknown\<close> in the TypeScript sources), thrown errors as values of a sum
  type, sequencing and traversal in that sum type, and the string, array, \<open>Map\<close> and
  \<open>Set\<close> operations of the JavaScript standard library that the sources use.

  Strings are lists of characters with codes 0 to 255; a JavaScript string made of
  code units in that range is represented exactly. A finite number that prints as a
  plain decimal integer is \<open>NInt\<close>; every other finite number is identified by the text
  \<open>Number::toString\<close> gives it (\<open>NText\<close>), which is injective.
\<close>

named_theorems result_simps \<open>inversion of sequencing in the error type\<close>

section \<open>Dynamic values\<close>

datatype jnum = NInt int | NText string | NNaN | NInf bool

datatype js =
    JUndef
  | JNull
  | JBool bool
  | JNum jnum
  | JStr string
  | JArr "js list"
  | JObj "(string \<times> js) list"

definition is_record :: "js \<Rightarrow> bool" where
  "is_record v = (case v of JObj _ \<Rightarrow> True | _ \<Rightarrow> False)"

fun fields :: "js \<Rightarrow> (string \<times> js) list" where
  "fields (JObj kvs) = kvs"
| "fields _ = []"

definition keys_of :: "js \<Rightarrow> string list" where
  "keys_of v = map fst (fields v)"

definition jget :: "js \<Rightarrow> string \<Rightarrow> js" where
  "jget v k = (case map_of (fields v) k of None \<Rightarrow> JUndef | Some x \<Rightarrow> x)"

definition max_safe_integer :: int where
  "max_safe_integer = 9007199254740991"

definition is_safe_integer :: "jnum \<Rightarrow> bool" where
  "is_safe_integer n = (case n of NInt i \<Rightarrow> \<bar>i\<bar> \<le> max_safe_integer | _ \<Rightarrow> False)"

section \<open>Thrown errors and sequencing\<close>

text \<open>
  The error classes of the modelled modules. The code distinguishes errors by class
  (\<open>instanceof\<close>) and, in one place, by message; messages are kept where they are
  inspected and dropped elsewhere.
\<close>

datatype critic_code = CriticUnavailable | CriticInvalidOutput | CriticFailed

datatype contract_code =
    InvalidPayload | UnsupportedVersion | UnknownField | InvalidIdentifier
  | InvalidPath | InvalidCandidateIndex | InvalidDigest

datatype intent_code =
    CorruptStore | InvalidIntent | IntentConflict | IntentMismatch | MissingIntent | ExpiredIntent

datatype session_code =
    AppendFailed | ConflictingLink | MalformedLink | MalformedSession | MissingLink | MissingTarget
  | NotReady | StaleLink | StaleWorktree

datatype promotion_code =
    AlreadyPromoted | InvalidReceipt | PublishFailed | SourceChanged | UnsafeCandidate | UnsafeEffects

datatype worktree_code =
    InvalidInput | InvalidManifest | DirtySource | InvalidCheckpoint | GitFailure | ForkConflict
  | CandidateConflict | UnsafeCleanup

datatype transaction_operation = TransactionSnapshot | TransactionRollback

datatype snapshot_code =
    CorruptSnapshot | DestinationNotEmpty | SnapshotMissing | SnapshotSourceChanged | UnsafeDestination
  | UnsafeEntry | UnsafeStore

datatype error =
    InvalidExecutionPlanError
  | InvalidWorkerOutputError
  | InvalidDiscoveryEnvelopeError
  | InvalidWorkflowError
  | InvalidInterruptDecisionError
  | InterruptDecisionMismatchError
  | NoPendingApprovalError
  | RepositoryIsolationError
  | EffectLedgerError
  | ReplayCompatibilityError
  | BridgeContractError contract_code string
  | BridgeIntentStoreError intent_code string
  | PiSessionBridgeError session_code string
  | BacktrackCoordinatorError
  | BacktrackCoordinatorStoreError
  | CandidatePromotionError promotion_code
  | CandidatePromotionRecordError
  | CandidatePromotionFileError
  | WorktreeManagerError worktree_code
  | SourceTreeTransactionError transaction_operation
  | RepositorySnapshotStoreError snapshot_code
  | CheckpointLockTimeoutError
  | ResumeCheckpointSelectionError
  | CandidateTieCriticError critic_code
  | WorkflowForkError
  | PlainError string

type_synonym 'a result = "error + 'a"

definition sbind :: "'a result \<Rightarrow> ('a \<Rightarrow> 'b result) \<Rightarrow> 'b result" where
  "sbind r f = (case r of Inl e \<Rightarrow> Inl e | Inr a \<Rightarrow> f a)"

definition check :: "bool \<Rightarrow> error \<Rightarrow> unit result" where
  "check b e = (if b then Inr () else Inl e)"

lemma sbind_simps [simp]:
  "sbind (Inl e) f = Inl e"
  "sbind (Inr a) f = f a"
  by (simp_all add: sbind_def)

lemma sbind_cong [fundef_cong]:
  "r = r' \<Longrightarrow> (\<And>a. r' = Inr a \<Longrightarrow> f a = g a) \<Longrightarrow> sbind r f = sbind r' g"
  by (simp add: sbind_def split: sum.splits)

lemma sbind_eq_Inr [result_simps]: "sbind r f = Inr b \<longleftrightarrow> (\<exists>a. r = Inr a \<and> f a = Inr b)"
  by (cases r) auto

lemma sbind_eq_Inl [result_simps]:
  "sbind r f = Inl e \<longleftrightarrow> r = Inl e \<or> (\<exists>a. r = Inr a \<and> f a = Inl e)"
  by (cases r) auto

lemma check_eq_Inr [result_simps]: "check b e = Inr u \<longleftrightarrow> b"
  by (simp add: check_def)

lemma check_eq_Inl [result_simps]: "check b e = Inl e' \<longleftrightarrow> \<not> b \<and> e' = e"
  by (auto simp: check_def)

lemma check_True [simp]: "check True e = Inr ()"
  and check_False [simp]: "check False e = Inl e"
  by (simp_all add: check_def)

text \<open>\<open>Array.prototype.map\<close> with a callback that may throw: the first throw wins.\<close>

fun traverse :: "('a \<Rightarrow> 'b result) \<Rightarrow> 'a list \<Rightarrow> 'b list result" where
  "traverse f [] = Inr []"
| "traverse f (x # xs) = sbind (f x) (\<lambda>y. sbind (traverse f xs) (\<lambda>ys. Inr (y # ys)))"

lemma traverse_eq_Inr: "traverse f xs = Inr ys \<longleftrightarrow> list_all2 (\<lambda>x y. f x = Inr y) xs ys"
  by (induction xs arbitrary: ys)
    (auto simp: result_simps list_all2_Cons1)

lemma traverse_length: "traverse f xs = Inr ys \<Longrightarrow> length ys = length xs"
  by (auto simp: traverse_eq_Inr dest: list_all2_lengthD)

lemma list_all2_set2: "list_all2 P xs ys \<Longrightarrow> y \<in> set ys \<Longrightarrow> \<exists>x \<in> set xs. P x y"
  by (induction rule: list_all2_induct) auto

lemma traverse_set:
  assumes "traverse f xs = Inr ys" and "y \<in> set ys"
  shows "\<exists>x \<in> set xs. f x = Inr y"
  using assms by (auto simp: traverse_eq_Inr dest: list_all2_set2)

lemma traverse_all_Inr:
  "(\<And>x. x \<in> set xs \<Longrightarrow> f x = Inr (g x)) \<Longrightarrow> traverse f xs = Inr (map g xs)"
  by (induction xs) auto

lemma traverse_Inl: "traverse f xs = Inl e \<Longrightarrow> \<exists>x \<in> set xs. f x = Inl e"
  by (induction xs) (auto simp: result_simps)

lemma traverse_cong [fundef_cong]:
  "xs = ys \<Longrightarrow> (\<And>x. x \<in> set ys \<Longrightarrow> f x = g x) \<Longrightarrow> traverse f xs = traverse g ys"
  by (induction ys arbitrary: xs) auto

lemmas traverse_facts = traverse_eq_Inr traverse_length traverse_set

section \<open>Characters and strings\<close>

definition code :: "char \<Rightarrow> nat" where
  "code c = of_char c"

definition is_digit_char :: "char \<Rightarrow> bool" where
  "is_digit_char c = (48 \<le> code c \<and> code c \<le> 57)"

definition is_alpha_char :: "char \<Rightarrow> bool" where
  "is_alpha_char c = (65 \<le> code c \<and> code c \<le> 90 \<or> 97 \<le> code c \<and> code c \<le> 122)"

definition is_alnum_char :: "char \<Rightarrow> bool" where
  "is_alnum_char c = (is_alpha_char c \<or> is_digit_char c)"

definition is_hex_char :: "char \<Rightarrow> bool" where
  "is_hex_char c = (is_digit_char c \<or> 97 \<le> code c \<and> code c \<le> 102)"

text \<open>White space and line terminators, the class \<open>\s\<close> and what \<open>trim\<close> removes.\<close>

definition is_space_char :: "char \<Rightarrow> bool" where
  "is_space_char c = (9 \<le> code c \<and> code c \<le> 13 \<or> code c = 32 \<or> code c = 160)"

definition trim_start :: "string \<Rightarrow> string" where
  "trim_start s = dropWhile is_space_char s"

definition trim :: "string \<Rightarrow> string" where
  "trim s = rev (trim_start (rev (trim_start s)))"

definition lower_char :: "char \<Rightarrow> char" where
  "lower_char c =
     (if 65 \<le> code c \<and> code c \<le> 90 \<or> 192 \<le> code c \<and> code c \<le> 222 \<and> code c \<noteq> 215
      then char_of (code c + 32) else c)"

text \<open>
  A regular expression of the form \<open>/^[F][R]{0,n}$/\<close>: one character of the first class,
  then at most \<open>n\<close> of the second.
\<close>

definition lexical :: "(char \<Rightarrow> bool) \<Rightarrow> (char \<Rightarrow> bool) \<Rightarrow> nat \<Rightarrow> string \<Rightarrow> bool" where
  "lexical first rest n s =
     (case s of [] \<Rightarrow> False | c # cs \<Rightarrow> first c \<and> length cs \<le> n \<and> list_all rest cs)"

text \<open>\<open>/^[a-f0-9]{n}$/\<close>\<close>

definition hex_text :: "nat \<Rightarrow> string \<Rightarrow> bool" where
  "hex_text n s = (length s = n \<and> list_all is_hex_char s)"

fun split_on :: "char \<Rightarrow> string \<Rightarrow> string list" where
  "split_on d [] = [[]]"
| "split_on d (c # cs) =
     (if c = d then [] # split_on d cs
      else (case split_on d cs of [] \<Rightarrow> [[c]] | w # ws \<Rightarrow> (c # w) # ws))"

fun join :: "string \<Rightarrow> string list \<Rightarrow> string" where
  "join sep [] = []"
| "join sep [w] = w"
| "join sep (w # v # ws) = w @ sep @ join sep (v # ws)"

text \<open>The decimal text of a number, as template literals print it.\<close>

fun nat_text :: "nat \<Rightarrow> string" where
  "nat_text n =
     (if n < 10 then [char_of (48 + n)] else nat_text (n div 10) @ [char_of (48 + n mod 10)])"

declare nat_text.simps [simp del]

definition int_text :: "int \<Rightarrow> string" where
  "int_text i = (if i < 0 then CHR ''-'' # nat_text (nat (- i)) else nat_text (nat i))"

lemma code_digit: "d < 10 \<Longrightarrow> code (char_of (48 + d :: nat)) = 48 + d"
  by (simp add: code_def)

lemma nat_text_digits: "c \<in> set (nat_text n) \<Longrightarrow> is_digit_char c"
proof (induction n rule: nat_text.induct)
  case (1 n)
  have "is_digit_char (char_of (48 + d :: nat))" if "d < 10" for d
    using that by (simp add: is_digit_char_def code_digit)
  with 1 show ?case by (subst (asm) (2) nat_text.simps) (auto split: if_splits)
qed

lemma nat_text_value: "foldl (\<lambda>a c. 10 * a + (code c - 48)) 0 (nat_text n) = n"
proof (induction n rule: nat_text.induct)
  case (1 n)
  show ?case
  proof (cases "n < 10")
    case True
    then show ?thesis by (subst nat_text.simps) (simp add: code_digit)
  next
    case False
    with 1 have IH: "foldl (\<lambda>a c. 10 * a + (code c - 48)) 0 (nat_text (n div 10)) = n div 10" by simp
    have "code (char_of (48 + n mod 10)) - 48 = n mod 10"
      using code_digit[of "n mod 10"] by simp
    with IH False show ?thesis by (subst nat_text.simps) simp
  qed
qed

lemma nat_text_inject [simp]: "nat_text m = nat_text n \<longleftrightarrow> m = n"
  by (metis nat_text_value)

lemma int_text_inject: "0 \<le> i \<Longrightarrow> 0 \<le> j \<Longrightarrow> int_text i = int_text j \<longleftrightarrow> i = j"
  by (simp add: int_text_def eq_nat_nat_iff)

lemma int_text_digits: "0 \<le> i \<Longrightarrow> c \<in> set (int_text i) \<Longrightarrow> is_digit_char c"
  by (auto simp: int_text_def dest: nat_text_digits)

text \<open>Text before the last occurrence of a separator determines both parts.\<close>

lemma last_separator:
  assumes "xs @ d # ys = us @ d # vs" and "d \<notin> set ys" and "d \<notin> set vs"
  shows "xs = us \<and> ys = vs"
proof -
  have "takeWhile (\<lambda>c. c \<noteq> d) (rev (xs @ d # ys)) = rev ys"
    using assms(2) by (simp add: takeWhile_tail) (metis append_Nil2 set_rev takeWhile_append2)
  moreover have "takeWhile (\<lambda>c. c \<noteq> d) (rev (us @ d # vs)) = rev vs"
    using assms(3) by (simp add: takeWhile_tail) (metis append_Nil2 set_rev takeWhile_append2)
  ultimately have "ys = vs" using assms(1) by simp
  with assms(1) show ?thesis by simp
qed

lemma trim_start_idem: "trim_start (trim_start s) = trim_start s"
  by (simp add: trim_start_def)

lemma length_trim: "length (trim s) \<le> length s"
  by (simp add: trim_def trim_start_def)
    (metis length_dropWhile_le le_trans length_rev)

lemma lexical_nonempty: "lexical f r n s \<Longrightarrow> s \<noteq> []"
  by (auto simp: lexical_def split: list.splits)

lemma lexical_length: "lexical f r n s \<Longrightarrow> length s \<le> Suc n"
  by (auto simp: lexical_def split: list.splits)

section \<open>Arrays, \<open>Map\<close> and \<open>Set\<close>\<close>

text \<open>\<open>[...new Set(xs)]\<close> keeps the first occurrence of each element.\<close>

definition dedup :: "'a list \<Rightarrow> 'a list" where
  "dedup xs = rev (remdups (rev xs))"

lemma set_dedup [simp]: "set (dedup xs) = set xs"
  by (simp add: dedup_def)

lemma distinct_dedup [simp]: "distinct (dedup xs)"
  by (simp add: dedup_def)

lemma length_dedup: "length (dedup xs) \<le> length xs"
  by (simp add: dedup_def) (metis length_remdups_leq length_rev)

lemma dedup_distinct: "distinct xs \<Longrightarrow> dedup xs = xs"
  by (simp add: dedup_def distinct_remdups_id)

lemma dedup_Nil [simp]: "dedup xs = [] \<longleftrightarrow> xs = []"
  by (simp add: dedup_def)

text \<open>\<open>new Map(entries).get(k)\<close>: the last entry of a key is the one kept.\<close>

definition map_last :: "('k \<times> 'v) list \<Rightarrow> 'k \<rightharpoonup> 'v" where
  "map_last kvs = map_of (rev kvs)"

lemma map_last_Nil [simp]: "map_last [] = Map.empty"
  by (simp add: map_last_def)

lemma map_last_snoc [simp]: "map_last (kvs @ [(k, v)]) = (map_last kvs)(k \<mapsto> v)"
  by (simp add: map_last_def)

lemma map_last_SomeD: "map_last kvs k = Some v \<Longrightarrow> (k, v) \<in> set kvs"
  by (auto simp: map_last_def dest: map_of_SomeD)

lemma map_last_None: "map_last kvs k = None \<longleftrightarrow> k \<notin> fst ` set kvs"
  by (simp add: map_last_def map_of_eq_None_iff)

text \<open>\<open>Array.prototype.sort\<close> with a comparator is a stable sort.\<close>

fun insert_by :: "('a \<Rightarrow> 'a \<Rightarrow> int) \<Rightarrow> 'a \<Rightarrow> 'a list \<Rightarrow> 'a list" where
  "insert_by cmp x [] = [x]"
| "insert_by cmp x (y # ys) = (if cmp x y \<le> 0 then x # y # ys else y # insert_by cmp x ys)"

definition sort_by :: "('a \<Rightarrow> 'a \<Rightarrow> int) \<Rightarrow> 'a list \<Rightarrow> 'a list" where
  "sort_by cmp xs = foldr (insert_by cmp) xs []"

lemma set_insert_by [simp]: "set (insert_by cmp x xs) = insert x (set xs)"
  by (induction xs) auto

lemma length_insert_by [simp]: "length (insert_by cmp x xs) = Suc (length xs)"
  by (induction xs) auto

lemma set_sort_by [simp]: "set (sort_by cmp xs) = set xs"
  by (induction xs) (simp_all add: sort_by_def)

lemma length_sort_by [simp]: "length (sort_by cmp xs) = length xs"
  by (induction xs) (simp_all add: sort_by_def)

lemma sort_by_Nil [simp]: "sort_by cmp [] = []"
  by (simp add: sort_by_def)

lemma sort_by_Cons: "sort_by cmp (x # xs) = insert_by cmp x (sort_by cmp xs)"
  by (simp add: sort_by_def)

text \<open>\<open>Array.prototype.find\<close> is \<open>List.find\<close>; these are the facts the clients use.\<close>

lemma find_SomeD: "List.find P xs = Some x \<Longrightarrow> x \<in> set xs \<and> P x"
  by (auto simp: find_Some_iff in_set_conv_nth)

lemma find_NoneD: "List.find P xs = None \<Longrightarrow> x \<in> set xs \<Longrightarrow> \<not> P x"
  by (auto simp: find_None_iff)


section \<open>Built-in functions that are arguments of the model\<close>

text \<open>
  \<open>JSON.parse\<close> (\<open>None\<close> is a \<open>SyntaxError\<close>), \<open>JSON.stringify\<close> of a value without
  \<open>undefined\<close> members, the hexadecimal SHA-256 of a string, and the locale-dependent
  \<open>localeCompare\<close> are arguments of the definitions that use them. What the code relies
  on is stated as hypotheses where a theorem needs it: parsing inverts printing, printing
  is injective, the digest has no collisions.
\<close>

record builtins =
  json_parse :: "string \<Rightarrow> js option"
  json_stringify :: "js \<Rightarrow> string"
  sha256_hex :: "string \<Rightarrow> string"
  locale_compare :: "string \<Rightarrow> string \<Rightarrow> int"

end
