(* ===== verification/WorkflowTypes.thy ===== *)
theory WorkflowTypes
  imports Prelude
begin

text \<open>
  The data of the coding workflow: \<open>src/src/workflow/types.ts\<close>, the artifact and host
  evidence types of \<open>src/src/evidence/types.ts\<close> and the journal's operation types of
  \<open>src/src/persistence/mutation-journal.ts\<close>. An interface is a record, a union of string
  literals a datatype, an optional field an \<open>option\<close>. Literal-typed fields that can hold
  one value only (\<open>version: 1\<close>, \<open>kind: "package_script"\<close>) carry no information and
  are not fields of the records.
\<close>

section \<open>Bounds\<close>

definition MAX_WORK_ITEMS :: nat where "MAX_WORK_ITEMS = 16"
definition MAX_REPAIR_ITERATIONS :: int where "MAX_REPAIR_ITERATIONS = 5"
definition MAX_PLAN_CHANGES :: nat where "MAX_PLAN_CHANGES = 16"
definition MAX_PLAN_DEPENDENCIES :: nat where "MAX_PLAN_DEPENDENCIES = 16"

section \<open>Enumerations\<close>

datatype workflowPattern = Delivery | Review
datatype workflowRequest = Auto | Requested workflowPattern
datatype approvalPolicy = ApprovalNone | BeforeChanges
datatype workflowStatus = Running | AwaitingApproval | Completed | NeedsAttention

datatype workflowPhase =
    Classified | Discovered | Analyzed | Implemented | Verified | Diagnosed | Repaired
  | Synthesized | Escalated

datatype planChangeStatus = PlanPending | PlanClaimed | PlanApplied | PlanFailed
datatype riskLevel = Low | Medium | High
datatype evidenceKind = EvFile | EvTest | EvRuntime | EvDocumentation | EvOther
datatype changeKind = Implementation | Repair
datatype changeExecutionStatus = CePending | CeRunning | CePassed | CeFailed | CeNeedsAttention
datatype decisionAction = Approve | Reject

section \<open>Plans\<close>

record planScope =
  files :: "string list"

record planRisk =
  level :: riskLevel
  reasons :: "string list"

record packageScriptCheck =
  script :: string

record planChange =
  changeId :: string
  title :: string
  instruction :: string
  dependsOn :: "string list"
  scope :: planScope
  risk :: planRisk
  acceptanceChecks :: "packageScriptCheck list"
  pcStatus :: planChangeStatus

record executionPlan =
  planId :: string
  revision :: int
  planChanges :: "planChange list"

section \<open>Inputs and compiled workflows\<close>

record codingWorkflowInput =
  inObjective :: string
  inWorkflow :: "workflowRequest option"
  inMaxIterations :: "int option"
  inApproval :: "approvalPolicy option"

record compiledWorkflow =
  cwObjective :: string
  cwPattern :: workflowPattern
  cwMaxIterations :: int
  cwRecursionLimit :: int

section \<open>Worker results\<close>

record workItem =
  wiId :: string
  wiTitle :: string
  wiInstruction :: string

record discoveryResult =
  drWorkItems :: "workItem list"
  drAcceptanceCriteria :: "string list"
  drExecutionPlan :: "executionPlan option"

record findingEvidence =
  feKind :: evidenceKind
  feLocation :: string
  feDetail :: string

record finding =
  fiWorkItemId :: string
  fiSummary :: string
  fiEvidence :: "findingEvidence list"
  fiRisks :: "string list"
  discoveredWorkItems :: "workItem list"

record changeSet =
  csKind :: changeKind
  csSummary :: string
  filesChanged :: "string list"
  csEvidence :: "string list"
  csUnresolvedRisks :: "string list"

record verificationCheck =
  vcName :: string
  vcPassed :: bool
  vcEvidence :: string

record verificationResult =
  vrPassed :: bool
  vrSummary :: string
  vrChecks :: "verificationCheck list"

record diagnosticResult =
  dgSummary :: string
  rootCauses :: "string list"
  repairInstructions :: "string list"

record artifactRef =
  arDigest :: string
  arByteCount :: int
  arTruncated :: bool

text \<open>
  Of \<open>HostEvidence\<close> the workflow reads the script, the exit code, both artifact
  references and the verdict.
\<close>

record hostEvidence =
  heScript :: string
  heExitCode :: "int option"
  heStdout :: artifactRef
  heStderr :: artifactRef
  hePassed :: bool

record changeResult =
  crChangeId :: string
  crStatus :: changeExecutionStatus
  crAttempt :: int
  crEvidenceRefs :: "artifactRef list"
  crChange :: "changeSet option"
  crVerification :: "verificationResult option"

section \<open>Interrupts\<close>

record interruptBinding =
  ibInterruptId :: string
  ibChangeId :: string
  ibPlanId :: string
  ibRevision :: int
  ibAttempt :: int
  ibScope :: planScope
  ibAllowedScripts :: "string list"
  ibThreadId :: "string option"
  ibCheckpointId :: "string option"

record scopedInterrupt = interruptBinding +
  siReasons :: "string list"

record interruptDecision = interruptBinding +
  idAction :: decisionAction

section \<open>Traces\<close>

datatype traceNode =
    TrClassify | TrDiscover | TrSpecialist | TrReplan | TrImplement | TrVerify | TrDiagnose
  | TrRepair | TrSynthesize | TrEscalate

datatype traceRoute = RtImplement | RtSynthesize | RtDiagnose | RtEscalate | RtVerify

record traceEvent =
  teNode :: traceNode
  teIteration :: int
  teWorkItemId :: "string option"
  teRoute :: "traceRoute option"

definition trace_event :: "traceNode \<Rightarrow> int \<Rightarrow> traceEvent" where
  "trace_event n i = \<lparr>teNode = n, teIteration = i, teWorkItemId = None, teRoute = None\<rparr>"

section \<open>Journal operations\<close>

datatype mutationKind = MImplement | MRepair

record mutationOperation =
  moKind :: mutationKind
  moIteration :: int
  moWorkspaceId :: "string option"
  moPlanId :: "string option"
  moChangeId :: "string option"
  moAttempt :: "int option"

datatype mutationClaim = ClaimExecute | ClaimReplay string | ClaimIndeterminate
datatype mutationExecution = MutationCompleted string | MutationIndeterminate
datatype mutationEntry = EntryStarted | EntryCompleted string

text \<open>\<open>SEMANTIC_CHECKPOINT_LABELS\<close>, the labels a checkpoint can carry.\<close>

datatype semanticLabel = PostDiscovery | PreMutation | LastKnownGreen | PostRepair

end
