(* ===== verification/Readers.thy ===== *)
theory Readers
  imports Prelude
begin

text \<open>
  The contracts of the field readers. Four modules of the program
  (\<open>execution-plan.ts\<close>, \<open>parsers.ts\<close>, \<open>compiler.ts\<close>, \<open>risk-policy.ts\<close>) have their own
  copies of a bounded-text reader and a bounded-array reader. The laws the parsers rely on
  are stated once, as locales; each module's theory interprets them on its own reader.
\<close>

section \<open>Trimming is idempotent\<close>

lemma trim_start_fixed: "s = [] \<or> \<not> is_space_char (hd s) \<Longrightarrow> trim_start s = s"
  by (cases s) (auto simp: trim_start_def)

lemma hd_trim_start: "trim_start s \<noteq> [] \<Longrightarrow> \<not> is_space_char (hd (trim_start s))"
  by (simp add: trim_start_def hd_dropWhile)

lemma trim_start_suffix: "\<exists>p. s = p @ trim_start s"
  by (simp add: trim_start_def) (metis takeWhile_dropWhile_id)

lemma hd_trim: "trim s \<noteq> [] \<Longrightarrow> hd (trim s) = hd (trim_start s)"
proof -
  assume ne: "trim s \<noteq> []"
  obtain p where "rev (trim_start s) = p @ trim_start (rev (trim_start s))"
    using trim_start_suffix by blast
  then have "trim_start s = trim s @ rev p"
    by (metis rev_append rev_rev_ident trim_def)
  with ne show ?thesis by (metis hd_append2)
qed

lemma trim_Nil [simp]: "trim [] = []"
  by (simp add: trim_def trim_start_def)

lemma trim_idem [simp]: "trim (trim s) = trim s"
proof (cases "trim s = []")
  case True
  then show ?thesis by simp
next
  case False
  then have "trim_start s \<noteq> []"
    by (metis trim_def trim_start_def dropWhile.simps(1) rev.simps(1))
  with False have "trim_start (trim s) = trim s"
    by (metis hd_trim hd_trim_start trim_start_fixed)
  then show ?thesis
    by (simp add: trim_def trim_start_idem)
qed

section \<open>The contract of a bounded-text reader\<close>

locale text_reader =
  fixes read :: "js \<Rightarrow> nat \<Rightarrow> string result"
  assumes read_Inr:
    "read v n = Inr s \<longleftrightarrow> (\<exists>raw. v = JStr raw \<and> s = trim raw \<and> s \<noteq> [] \<and> length s \<le> n)"
begin

lemma read_bounds: "read v n = Inr s \<Longrightarrow> s \<noteq> [] \<and> length s \<le> n"
  by (auto simp: read_Inr)

lemma read_trimmed: "read v n = Inr s \<Longrightarrow> trim s = s"
  by (auto simp: read_Inr)

lemma read_again: "read v n = Inr s \<Longrightarrow> read (JStr s) n = Inr s"
  by (auto simp: read_Inr)

lemma read_fixed: "trim s = s \<Longrightarrow> s \<noteq> [] \<Longrightarrow> length s \<le> n \<Longrightarrow> read (JStr s) n = Inr s"
  by (simp add: read_Inr)

lemma read_list_bounds:
  "traverse (\<lambda>x. read x n) vs = Inr ss \<Longrightarrow> s \<in> set ss \<Longrightarrow> s \<noteq> [] \<and> length s \<le> n \<and> trim s = s"
  by (drule (1) traverse_set) (auto dest: read_bounds read_trimmed)

lemma read_list_fixed:
  "(\<And>s. s \<in> set ss \<Longrightarrow> s \<noteq> [] \<and> length s \<le> n \<and> trim s = s) \<Longrightarrow>
   traverse (\<lambda>x. read x n) (map JStr ss) = Inr ss"
  by (induction ss) (simp_all add: read_fixed)

end

section \<open>The contract of a bounded-array reader\<close>

locale array_reader =
  fixes arr :: "js \<Rightarrow> nat \<Rightarrow> nat \<Rightarrow> js list result"
  assumes arr_Inr: "arr v lo hi = Inr xs \<longleftrightarrow> v = JArr xs \<and> lo \<le> length xs \<and> length xs \<le> hi"
begin

lemma arr_length: "arr v lo hi = Inr xs \<Longrightarrow> lo \<le> length xs \<and> length xs \<le> hi"
  by (simp add: arr_Inr)

lemma arr_fixed: "lo \<le> length xs \<Longrightarrow> length xs \<le> hi \<Longrightarrow> arr (JArr xs) lo hi = Inr xs"
  by (simp add: arr_Inr)

end

text \<open>A reader of lists of texts, the composition of the two contracts.\<close>

locale text_list_reader = text_reader read + array_reader arr
  for read :: "js \<Rightarrow> nat \<Rightarrow> string result"
  and arr :: "js \<Rightarrow> nat \<Rightarrow> nat \<Rightarrow> js list result" +
  fixes texts :: "js \<Rightarrow> nat \<Rightarrow> nat \<Rightarrow> nat \<Rightarrow> string list result"
  assumes texts_eq: "texts v lo hi n = sbind (arr v lo hi) (traverse (\<lambda>x. read x n))"
begin

lemma texts_bounds:
  assumes "texts v lo hi n = Inr ss"
  shows "lo \<le> length ss" and "length ss \<le> hi" and "\<forall>s \<in> set ss. s \<noteq> [] \<and> length s \<le> n \<and> trim s = s"
proof -
  from assms obtain xs where xs: "arr v lo hi = Inr xs" "traverse (\<lambda>x. read x n) xs = Inr ss"
    by (auto simp: texts_eq result_simps)
  from arr_length[OF xs(1)] traverse_length[OF xs(2)]
  show "lo \<le> length ss" and "length ss \<le> hi" by auto
  show "\<forall>s \<in> set ss. s \<noteq> [] \<and> length s \<le> n \<and> trim s = s"
    using read_list_bounds[OF xs(2)] by blast
qed

lemma texts_fixed:
  assumes "lo \<le> length ss" "length ss \<le> hi"
    and "\<And>s. s \<in> set ss \<Longrightarrow> s \<noteq> [] \<and> length s \<le> n \<and> trim s = s"
  shows "texts (JArr (map JStr ss)) lo hi n = Inr ss"
  using assms by (simp add: texts_eq arr_fixed read_list_fixed)

end

section \<open>Reading the fields of an object\<close>

lemma jget_JObj_Nil [simp]: "jget (JObj []) k = JUndef"
  by (simp add: jget_def)

lemma jget_JObj_Cons [simp]: "jget (JObj ((k', v) # kvs)) k = (if k = k' then v else jget (JObj kvs) k)"
  by (simp add: jget_def)

lemma is_record_JObj [simp]: "is_record (JObj kvs)"
  by (simp add: is_record_def)

lemma is_recordE: "is_record v \<Longrightarrow> (\<And>kvs. v = JObj kvs \<Longrightarrow> P) \<Longrightarrow> P"
  by (cases v) (auto simp: is_record_def)

lemma keys_of_JObj [simp]: "keys_of (JObj kvs) = map fst kvs"
  by (simp add: keys_of_def)

end
