(* ===== verification/ExecutionPlan.thy ===== *)
theory ExecutionPlan
  imports WorkflowTypes Readers
begin

text \<open>
  \<open>src/src/workflow/execution-plan.ts\<close>: parsing of execution plans, the dependency check
  (unknown, self and repeated dependencies, then a topological sort that must visit every
  change) and the append-only transition between plan revisions.

  Main results: a parsed plan is well formed (bounds, distinct change identifiers, safe
  scope paths, known dependencies) and its dependency relation is acyclic; conversely the
  dependency check accepts every plan whose changes can be ordered so that each comes after
  its dependencies; a transition never redefines or drops a change.
\<close>

definition MAX_TITLE :: nat where "MAX_TITLE = 200"
definition MAX_INSTRUCTION :: nat where "MAX_INSTRUCTION = 8000"
definition MAX_FILE :: nat where "MAX_FILE = 400"
definition MAX_FILES :: nat where "MAX_FILES = 64"
definition MAX_REASONS :: nat where "MAX_REASONS = 16"
definition MAX_CHECKS :: nat where "MAX_CHECKS = 16"
definition MAX_SCRIPT :: nat where "MAX_SCRIPT = 200"
definition MAX_PLAN_TEXT :: nat where "MAX_PLAN_TEXT = 4000"

definition plan_error :: error where "plan_error = InvalidExecutionPlanError"

definition ID :: "string \<Rightarrow> bool" where
  "ID = lexical is_alpha_char (\<lambda>c. is_alnum_char c \<or> c = CHR ''_'' \<or> c = CHR ''-'') 47"

definition PLAN_ID :: "string \<Rightarrow> bool" where
  "PLAN_ID = lexical is_alpha_char
     (\<lambda>c. is_alnum_char c \<or> c = CHR ''.'' \<or> c = CHR ''_'' \<or> c = CHR ''-'') 127"

section \<open>Field readers\<close>

definition plan_record :: "js \<Rightarrow> js result" where
  "plan_record v = (if is_record v then Inr v else Inl plan_error)"

definition plan_exactFields :: "js \<Rightarrow> string list \<Rightarrow> unit result" where
  "plan_exactFields v allowed = check (list_all (\<lambda>k. k \<in> set allowed) (keys_of v)) plan_error"

definition boundedArray :: "js \<Rightarrow> nat \<Rightarrow> nat \<Rightarrow> js list result" where
  "boundedArray v lo hi =
     (case v of
        JArr xs \<Rightarrow> if length xs < lo \<or> hi < length xs then Inl plan_error else Inr xs
      | _ \<Rightarrow> Inl plan_error)"

definition plan_text :: "js \<Rightarrow> nat \<Rightarrow> string result" where
  "plan_text v hi =
     (case v of
        JStr s \<Rightarrow>
          if trim s = [] then Inl plan_error
          else if hi < length (trim s) then Inl plan_error
          else Inr (trim s)
      | _ \<Rightarrow> Inl plan_error)"

definition plan_integer :: "js \<Rightarrow> int result" where
  "plan_integer v =
     (case v of
        JNum (NInt i) \<Rightarrow> if is_safe_integer (NInt i) then Inr i else Inl plan_error
      | _ \<Rightarrow> Inl plan_error)"

definition safeScopePath :: "string \<Rightarrow> string result" where
  "safeScopePath path =
     (if path = ''.'' then Inr path
      else if take 1 path = ''/'' \<or> take 1 path = [CHR 0x5C] \<or>
              CHR 0x5C \<in> set path \<or> CHR 0x00 \<in> set path then Inl plan_error
      else if list_ex (\<lambda>segment. segment = [] \<or> segment = ''.'' \<or> segment = ''..'')
                (split_on (CHR ''/'') path) then Inl plan_error
      else Inr path)"

definition parseCheck :: "js \<Rightarrow> packageScriptCheck result" where
  "parseCheck v =
     sbind (plan_record v) (\<lambda>r.
     sbind (plan_exactFields r [''kind'', ''script'']) (\<lambda>_.
     if jget r ''kind'' \<noteq> JStr ''package_script'' then Inl plan_error
     else sbind (plan_text (jget r ''script'') MAX_SCRIPT) (\<lambda>s. Inr \<lparr>script = s\<rparr>)))"

definition parseStatus :: "js \<Rightarrow> planChangeStatus result" where
  "parseStatus v =
     (if v = JStr ''pending'' then Inr PlanPending
      else if v = JStr ''claimed'' then Inr PlanClaimed
      else if v = JStr ''applied'' then Inr PlanApplied
      else if v = JStr ''failed'' then Inr PlanFailed
      else Inl plan_error)"

definition parseLevel :: "js \<Rightarrow> riskLevel result" where
  "parseLevel v =
     (if v = JStr ''low'' then Inr Low
      else if v = JStr ''medium'' then Inr Medium
      else if v = JStr ''high'' then Inr High
      else Inl plan_error)"

section \<open>Changes and plans\<close>

text \<open>
  \<open>parseChange\<close> in the order of the source; \<open>seen\<close> is the set of identifiers of the
  changes before it, updated by the caller (\<open>parseChanges\<close>).
\<close>

definition parseChange :: "js \<Rightarrow> string set \<Rightarrow> planChange result" where
  "parseChange v seen =
     sbind (plan_record v) (\<lambda>value.
     sbind (plan_exactFields value [''changeId'', ''title'', ''instruction'', ''dependsOn'',
       ''scope'', ''risk'', ''acceptanceChecks'', ''status'']) (\<lambda>_.
     sbind (plan_text (jget value ''changeId'') 48) (\<lambda>cid.
     if \<not> ID cid then Inl plan_error
     else if cid \<in> seen then Inl plan_error
     else
     sbind (boundedArray (jget value ''dependsOn'') 0 MAX_PLAN_DEPENDENCIES) (\<lambda>rawDeps.
     sbind (traverse (\<lambda>d. plan_text d 48) rawDeps) (\<lambda>dependencies.
     sbind (plan_record (jget value ''scope'')) (\<lambda>sc.
     sbind (plan_exactFields sc [''files'']) (\<lambda>_.
     sbind (boundedArray (jget sc ''files'') 1 MAX_FILES) (\<lambda>rawFiles.
     sbind (traverse (\<lambda>f. sbind (plan_text f MAX_FILE) safeScopePath) rawFiles) (\<lambda>fs.
     sbind (plan_record (jget value ''risk'')) (\<lambda>rk.
     sbind (plan_exactFields rk [''level'', ''reasons'']) (\<lambda>_.
     sbind (parseLevel (jget rk ''level'')) (\<lambda>lvl.
     sbind (boundedArray (jget rk ''reasons'') 0 MAX_REASONS) (\<lambda>rawReasons.
     sbind (traverse (\<lambda>x. plan_text x MAX_PLAN_TEXT) rawReasons) (\<lambda>rs.
     sbind (boundedArray (jget value ''acceptanceChecks'') 1 MAX_CHECKS) (\<lambda>rawChecks.
     sbind (traverse parseCheck rawChecks) (\<lambda>checks.
     sbind (if jget value ''status'' = JUndef then Inr PlanPending
            else parseStatus (jget value ''status'')) (\<lambda>st.
     sbind (plan_text (jget value ''title'') MAX_TITLE) (\<lambda>ti.
     sbind (plan_text (jget value ''instruction'') MAX_INSTRUCTION) (\<lambda>ins.
     Inr \<lparr>changeId = cid, title = ti, instruction = ins, dependsOn = dependencies,
          scope = \<lparr>files = fs\<rparr>, risk = \<lparr>level = lvl, reasons = rs\<rparr>,
          acceptanceChecks = checks, pcStatus = st\<rparr>)))))))))))))))))))"

fun parseChanges :: "js list \<Rightarrow> string set \<Rightarrow> planChange list result" where
  "parseChanges [] seen = Inr []"
| "parseChanges (v # vs) seen =
     sbind (parseChange v seen) (\<lambda>c.
     sbind (parseChanges vs (insert (changeId c) seen)) (\<lambda>cs. Inr (c # cs)))"

section \<open>The dependency check\<close>

definition plan_ids :: "planChange list \<Rightarrow> string set" where
  "plan_ids cs = changeId ` set cs"

fun checkDependencies :: "string set \<Rightarrow> string \<Rightarrow> string list \<Rightarrow> string set \<Rightarrow> unit result" where
  "checkDependencies known cid [] seen = Inr ()"
| "checkDependencies known cid (d # ds) seen =
     (if d \<notin> known then Inl plan_error
      else if d = cid then Inl plan_error
      else if d \<in> seen then Inl plan_error
      else checkDependencies known cid ds (insert d seen))"

text \<open>The map \<open>dependants\<close>: for each change, in plan order, who depends on it.\<close>

definition dependants :: "planChange list \<Rightarrow> string \<Rightarrow> string list" where
  "dependants cs d =
     concat (map (\<lambda>c. map (\<lambda>_. changeId c) (filter (\<lambda>x. x = d) (dependsOn c))) cs)"

text \<open>
  The inner loop over the dependants of one change: decrement the indegree and push the
  change when it reaches zero. The stack \<open>ready\<close> has its top at the head.
\<close>

fun release :: "string list \<Rightarrow> (string \<Rightarrow> int) \<times> string list \<Rightarrow> (string \<Rightarrow> int) \<times> string list" where
  "release [] (indegree, ready) = (indegree, ready)"
| "release (d # ds) (indegree, ready) =
     (let n = indegree d - 1
      in release ds (indegree(d := n), if n = 0 then d # ready else ready))"

text \<open>
  The outer \<open>while (ready.length > 0)\<close>, counting the visited changes. Each identifier is
  pushed at most once, so \<open>length cs\<close> rounds are enough (\<open>topo_fuel_enough\<close> below);
  running out of fuel with a non-empty stack is \<open>None\<close>.
\<close>

fun topo :: "(string \<Rightarrow> string list) \<Rightarrow> nat \<Rightarrow> (string \<Rightarrow> int) \<Rightarrow> string list \<Rightarrow> nat \<Rightarrow> nat option" where
  "topo deps fuel indegree [] visited = Some visited"
| "topo deps 0 indegree (d # ready) visited = None"
| "topo deps (Suc fuel) indegree (d # ready) visited =
     (case release (deps d) (indegree, ready) of
        (indegree', ready') \<Rightarrow> topo deps fuel indegree' ready' (Suc visited))"

definition indegrees :: "planChange list \<Rightarrow> string \<Rightarrow> int" where
  "indegrees cs d =
     (case List.find (\<lambda>c. changeId c = d) cs of
        None \<Rightarrow> 0 | Some c \<Rightarrow> int (length (dependsOn c)))"

definition initial_ready :: "planChange list \<Rightarrow> string list" where
  "initial_ready cs = rev (map changeId (filter (\<lambda>c. dependsOn c = []) cs))"

definition validateDependencies :: "executionPlan \<Rightarrow> unit result" where
  "validateDependencies plan =
     (let cs = planChanges plan in
      sbind (traverse (\<lambda>c. checkDependencies (plan_ids cs) (changeId c) (dependsOn c) {}) cs) (\<lambda>_.
      check (topo (dependants cs) (length cs) (indegrees cs) (initial_ready cs) 0
               = Some (length cs)) plan_error))"

definition parseExecutionPlan :: "js \<Rightarrow> executionPlan result" where
  "parseExecutionPlan input =
     sbind (plan_record input) (\<lambda>value.
     sbind (plan_exactFields value [''version'', ''planId'', ''revision'', ''changes'']) (\<lambda>_.
     if jget value ''version'' \<noteq> JNum (NInt 1) then Inl plan_error
     else
     sbind (plan_text (jget value ''planId'') 128) (\<lambda>pid.
     if \<not> PLAN_ID pid then Inl plan_error
     else
     sbind (plan_integer (jget value ''revision'')) (\<lambda>rev.
     if rev < 1 then Inl plan_error
     else
     sbind (boundedArray (jget value ''changes'') 1 MAX_PLAN_CHANGES) (\<lambda>rawChanges.
     sbind (parseChanges rawChanges {}) (\<lambda>cs.
     let plan = \<lparr>planId = pid, revision = rev, planChanges = cs\<rparr> in
     sbind (validateDependencies plan) (\<lambda>_. Inr plan)))))))"

text \<open>
  \<open>validatePlanTransition\<close>: the source compares plans and changes by their JSON text;
  parsed values have a fixed field order, so equal texts are equal values.
\<close>

fun same_prefix :: "planChange list \<Rightarrow> planChange list \<Rightarrow> unit result" where
  "same_prefix [] ns = Inr ()"
| "same_prefix (p # ps) [] = Inl plan_error"
| "same_prefix (p # ps) (n # ns) = (if p \<noteq> n then Inl plan_error else same_prefix ps ns)"

definition validatePlanTransition :: "js \<Rightarrow> js \<Rightarrow> bool \<Rightarrow> executionPlan result" where
  "validatePlanTransition previousInput nextInput allowIdenticalReplay =
     sbind (parseExecutionPlan previousInput) (\<lambda>previous.
     sbind (parseExecutionPlan nextInput) (\<lambda>nxt.
     if planId previous \<noteq> planId nxt then Inl plan_error
     else if revision nxt \<le> revision previous then
       (if allowIdenticalReplay \<and> previous = nxt then Inr nxt else Inl plan_error)
     else if length (planChanges nxt) < length (planChanges previous) then Inl plan_error
     else sbind (same_prefix (planChanges previous) (planChanges nxt)) (\<lambda>_. Inr nxt)))"

section \<open>Topological order and the counting sort\<close>

definition deps_of :: "planChange list \<Rightarrow> string \<Rightarrow> string list" where
  "deps_of cs x = (case List.find (\<lambda>c. changeId c = x) cs of None \<Rightarrow> [] | Some c \<Rightarrow> dependsOn c)"

text \<open>What the check of each change's own dependency list establishes.\<close>

definition deps_known :: "planChange list \<Rightarrow> bool" where
  "deps_known cs \<longleftrightarrow> (\<forall>c \<in> set cs. set (dependsOn c) \<subseteq> plan_ids cs \<and>
     changeId c \<notin> set (dependsOn c) \<and> distinct (dependsOn c))"

text \<open>A list of change identifiers in which each comes after everything it depends on.\<close>

definition dep_order :: "planChange list \<Rightarrow> string list \<Rightarrow> bool" where
  "dep_order cs L \<longleftrightarrow> distinct L \<and> set L \<subseteq> plan_ids cs \<and>
     (\<forall>i < length L. set (deps_of cs (L ! i)) \<subseteq> set (take i L))"

lemma checkDependencies_iff:
  "checkDependencies known cid ds seen = Inr u \<longleftrightarrow>
     set ds \<subseteq> known \<and> cid \<notin> set ds \<and> distinct ds \<and> set ds \<inter> seen = {}"
  by (induction ds arbitrary: seen) auto

lemma traverse_unit:
  "(\<exists>us. traverse f xs = Inr (us :: unit list)) \<longleftrightarrow> (\<forall>x \<in> set xs. f x = Inr ())"
  by (induction xs) (auto simp: result_simps)

lemma checkDependencies_all:
  "(\<exists>us. traverse (\<lambda>c. checkDependencies (plan_ids cs) (changeId c) (dependsOn c) {}) cs = Inr us)
     \<longleftrightarrow> deps_known cs"
  by (auto simp: traverse_unit checkDependencies_iff deps_known_def)

lemma find_by_id:
  assumes "distinct (map changeId cs)" and "c \<in> set cs"
  shows "List.find (\<lambda>c'. changeId c' = changeId c) cs = Some c"
  using assms by (induction cs) (auto simp: rev_image_eqI)

lemma deps_of_member:
  "distinct (map changeId cs) \<Longrightarrow> c \<in> set cs \<Longrightarrow> deps_of cs (changeId c) = dependsOn c"
  by (simp add: deps_of_def find_by_id)

lemma deps_known_subset:
  assumes "distinct (map changeId cs)" and "deps_known cs" and "x \<in> plan_ids cs"
  shows "set (deps_of cs x) \<subseteq> plan_ids cs"
proof -
  from assms(3) obtain c where "c \<in> set cs" "x = changeId c" by (auto simp: plan_ids_def)
  with assms show ?thesis by (simp add: deps_of_member deps_known_def)
qed

lemma indegrees_deps_of: "indegrees cs x = int (length (deps_of cs x))"
  by (simp add: indegrees_def deps_of_def split: option.splits)

lemma set_dependants: "set (dependants cs d) = {changeId c |c. c \<in> set cs \<and> d \<in> set (dependsOn c)}"
  by (auto simp: dependants_def)

lemma distinct_dependants:
  assumes "distinct (map changeId cs)" and "\<forall>c \<in> set cs. distinct (dependsOn c)"
  shows "distinct (dependants cs d)"
  using assms
proof (induction cs)
  case Nil
  then show ?case by (simp add: dependants_def)
next
  case (Cons c cs)
  have one: "filter (\<lambda>x. x = d) xs = (if d \<in> set xs then [d] else [])" if "distinct xs" for xs
    using that by (induction xs) auto
  have "dependants (c # cs) d =
    (if d \<in> set (dependsOn c) then [changeId c] else []) @ dependants cs d"
    using Cons.prems one[of "dependsOn c"] by (simp add: dependants_def)
  moreover have "changeId c \<notin> set (dependants cs d)"
    using Cons.prems by (auto simp: set_dependants)
  ultimately show ?case using Cons by simp
qed

lemma release_spec:
  "distinct ds \<Longrightarrow> release ds (f, R) =
     (\<lambda>x. if x \<in> set ds then f x - 1 else f x, rev (filter (\<lambda>x. f x = 1) ds) @ R)"
proof (induction ds arbitrary: f R)
  case Nil
  then show ?case by simp
next
  case (Cons d ds)
  have "filter (\<lambda>x. (if x = d then f d - 1 else f x) = 1) ds = filter (\<lambda>x. f x = 1) ds"
    using Cons.prems by (intro filter_cong) auto
  with Cons show ?case by (auto simp: Let_def fun_eq_iff)
qed

definition open_deps :: "planChange list \<Rightarrow> string list \<Rightarrow> string \<Rightarrow> int" where
  "open_deps cs L x = int (length (filter (\<lambda>d. d \<notin> set L) (deps_of cs x)))"

definition kahn_inv :: "planChange list \<Rightarrow> (string \<Rightarrow> int) \<Rightarrow> string list \<Rightarrow> string list \<Rightarrow> bool" where
  "kahn_inv cs f R L \<longleftrightarrow> dep_order cs L \<and> distinct (L @ R) \<and> set R \<subseteq> plan_ids cs \<and>
     (\<forall>x \<in> plan_ids cs. f x = open_deps cs L x) \<and>
     (\<forall>x \<in> plan_ids cs. x \<notin> set L \<longrightarrow> (x \<in> set R \<longleftrightarrow> f x = 0))"

lemma open_deps_zero: "open_deps cs L x = 0 \<longleftrightarrow> set (deps_of cs x) \<subseteq> set L"
  by (auto simp: open_deps_def filter_empty_conv)

lemma open_deps_snoc:
  assumes "distinct (deps_of cs x)" and "d \<notin> set L"
  shows "open_deps cs (L @ [d]) x = open_deps cs L x - (if d \<in> set (deps_of cs x) then 1 else 0)"
proof -
  have "length (filter (\<lambda>e. e \<notin> set L) xs) =
      length (filter (\<lambda>e. e \<notin> set (L @ [d])) xs) + (if d \<in> set xs then 1 else 0)"
    if "distinct xs" for xs
    using that assms(2) by (induction xs) auto
  from this[OF assms(1)] show ?thesis by (simp add: open_deps_def)
qed

lemma kahn_init:
  assumes "distinct (map changeId cs)"
  shows "kahn_inv cs (indegrees cs) (initial_ready cs) []"
proof -
  have "distinct (initial_ready cs)"
    using assms by (simp add: initial_ready_def distinct_map inj_on_def)
  moreover have "x \<in> set (initial_ready cs) \<longleftrightarrow> deps_of cs x = []" if "x \<in> plan_ids cs" for x
    using that assms deps_of_member
    by (auto simp: initial_ready_def plan_ids_def image_iff)
  ultimately show ?thesis
    by (auto simp: kahn_inv_def dep_order_def open_deps_def indegrees_deps_of initial_ready_def
        plan_ids_def)
qed


lemma kahn_step:
  assumes ids: "distinct (map changeId cs)" and known: "deps_known cs"
    and inv: "kahn_inv cs f (d # R) L"
    and rel: "release (dependants cs d) (f, R) = (f', R')"
  shows "kahn_inv cs f' R' (L @ [d])"
proof -
  have dd: "distinct (deps_of cs x)" if "x \<in> plan_ids cs" for x
    using that known ids by (auto simp: plan_ids_def deps_known_def deps_of_member)
  have mem: "x \<in> set (dependants cs d) \<longleftrightarrow> x \<in> plan_ids cs \<and> d \<in> set (deps_of cs x)" for x
    using ids by (auto simp: set_dependants plan_ids_def deps_of_member)
  have dist: "distinct (dependants cs d)"
    using ids known by (intro distinct_dependants) (auto simp: deps_known_def)
  have f': "f' = (\<lambda>x. if x \<in> set (dependants cs d) then f x - 1 else f x)"
    and R': "R' = rev (filter (\<lambda>x. f x = 1) (dependants cs d)) @ R"
    using rel release_spec[OF dist] by auto
  have d: "d \<in> plan_ids cs" "d \<notin> set L" "d \<notin> set R"
    using inv by (auto simp: kahn_inv_def)
  have fx: "f' x = open_deps cs (L @ [d]) x" if "x \<in> plan_ids cs" for x
    using that inv open_deps_snoc[OF dd[OF that] d(2)] by (auto simp: f' mem kahn_inv_def)
  have "open_deps cs L d = 0"
    using inv d by (auto simp: kahn_inv_def)
  then have ord: "dep_order cs (L @ [d])"
    using inv d by (auto simp: kahn_inv_def dep_order_def open_deps_zero nth_append less_Suc_eq)
  have new: "x \<notin> set L \<and> x \<noteq> d \<and> x \<notin> set R \<and> x \<in> plan_ids cs"
    if "x \<in> set (dependants cs d)" "f x = 1" for x
  proof -
    have x: "x \<in> plan_ids cs" "d \<in> set (deps_of cs x)" using that(1) by (auto simp: mem)
    have "x \<notin> set L"
    proof
      assume "x \<in> set L"
      then obtain i where "i < length L" "L ! i = x" by (auto simp: in_set_conv_nth)
      with inv x(2) have "d \<in> set (take i L)" by (auto simp: kahn_inv_def dep_order_def)
      with d(2) show False by (auto dest: in_set_takeD)
    qed
    moreover have "x \<noteq> d" using x known ids by (auto simp: plan_ids_def deps_known_def deps_of_member)
    moreover have "x \<notin> set R" using inv x(1) that(2) \<open>x \<notin> set L\<close> by (auto simp: kahn_inv_def)
    ultimately show ?thesis using x by simp
  qed
  have "set (filter (\<lambda>x. f x = 1) (dependants cs d)) \<inter> (set L \<union> {d} \<union> set R) = {}"
    using new by auto
  moreover have "distinct (filter (\<lambda>x. f x = 1) (dependants cs d))" using dist by simp
  moreover have "distinct (L @ R)" using inv by (simp add: kahn_inv_def)
  ultimately have "distinct ((L @ [d]) @ R')"
    unfolding R' using d by (simp add: Int_Un_distrib Int_commute) blast
  moreover have "set R' \<subseteq> plan_ids cs"
    using inv by (auto simp: R' mem kahn_inv_def)
  moreover have "x \<in> set R' \<longleftrightarrow> f' x = 0" if x: "x \<in> plan_ids cs" "x \<notin> set (L @ [d])" for x
  proof -
    have "x \<in> set R \<longleftrightarrow> f x = 0" using inv x by (auto simp: kahn_inv_def)
    moreover have "f x \<noteq> 0" if "x \<in> set (dependants cs d)"
      using that inv x d by (auto simp: kahn_inv_def mem open_deps_zero)
    ultimately show ?thesis unfolding R' f' by auto
  qed
  ultimately show ?thesis
    using ord fx by (simp add: kahn_inv_def)
qed

lemma card_ids: "distinct (map changeId cs) \<Longrightarrow> card (plan_ids cs) = length cs"
  by (metis distinct_card length_map list.set_map plan_ids_def)

lemma dep_order_length: "distinct (map changeId cs) \<Longrightarrow> dep_order cs L \<Longrightarrow> length L \<le> length cs"
  by (metis card_ids card_mono dep_order_def distinct_card finite_imageI finite_set plan_ids_def)

lemma topo_result:
  assumes ids: "distinct (map changeId cs)" and known: "deps_known cs"
  shows "kahn_inv cs f R L \<Longrightarrow> length cs \<le> length L + fuel \<Longrightarrow>
     \<exists>f' L'. topo (dependants cs) fuel f R (length L) = Some (length L') \<and> kahn_inv cs f' [] L'"
proof (induction fuel arbitrary: f R L)
  case 0
  have "R = []"
  proof (rule ccontr)
    assume "R \<noteq> []"
    have "card (set (L @ R)) \<le> card (plan_ids cs)"
      using 0 by (intro card_mono) (auto simp: kahn_inv_def dep_order_def plan_ids_def)
    moreover have "card (set (L @ R)) = length L + length R"
      using 0 by (metis distinct_card kahn_inv_def length_append)
    ultimately have "length L + length R \<le> length cs" by (simp add: card_ids[OF ids])
    with 0(2) \<open>R \<noteq> []\<close> show False by (cases R) auto
  qed
  with 0 show ?case by auto
next
  case (Suc fuel)
  show ?case
  proof (cases R)
    case Nil
    with Suc.prems show ?thesis by auto
  next
    case (Cons d R0)
    obtain f' R' where rel: "release (dependants cs d) (f, R0) = (f', R')" by fastforce
    with Suc.prems Cons have "kahn_inv cs f' R' (L @ [d])"
      by (intro kahn_step[OF ids known]) auto
    from Suc.IH[OF this] Suc.prems(2) rel Cons show ?thesis by auto
  qed
qed

lemma kahn_complete:
  assumes "kahn_inv cs f [] L" and "dep_order cs M" and M: "set M = plan_ids cs"
  shows "set L = plan_ids cs"
proof (rule ccontr)
  assume "set L \<noteq> plan_ids cs"
  moreover have "set L \<subseteq> plan_ids cs" using assms(1) by (simp add: kahn_inv_def dep_order_def)
  ultimately obtain x where "x \<in> set M" "x \<notin> set L" using M by blast
  then have ex: "\<exists>i. i < length M \<and> M ! i \<notin> set L" by (auto simp: in_set_conv_nth)
  define i where "i = (LEAST i. i < length M \<and> M ! i \<notin> set L)"
  have i: "i < length M" "M ! i \<notin> set L" using LeastI_ex[OF ex] by (auto simp: i_def)
  have least: "M ! j \<in> set L" if "j < i" for j
    using not_less_Least[of j "\<lambda>i. i < length M \<and> M ! i \<notin> set L"] that i by (auto simp: i_def)
  have "set (take i M) \<subseteq> set L"
    using least i by (auto simp: in_set_conv_nth)
  then have "open_deps cs L (M ! i) = 0"
    using assms(2) i by (auto simp: open_deps_zero dep_order_def)
  moreover have "M ! i \<in> plan_ids cs" using M i(1) nth_mem by blast
  moreover have "\<forall>x \<in> plan_ids cs. f x = open_deps cs L x"
    and "\<forall>x \<in> plan_ids cs. x \<notin> set L \<longrightarrow> (x \<in> set [] \<longleftrightarrow> f x = 0)"
    using assms(1) unfolding kahn_inv_def by blast+
  ultimately show False using i(2) by (metis empty_iff empty_set)
qed

lemma topo_iff:
  assumes ids: "distinct (map changeId cs)" and known: "deps_known cs"
  shows "topo (dependants cs) (length cs) (indegrees cs) (initial_ready cs) 0 = Some (length cs)
     \<longleftrightarrow> (\<exists>L. dep_order cs L \<and> set L = plan_ids cs)"
proof -
  from topo_result[OF ids known kahn_init[OF ids], of "length cs"]
  obtain f' L' where t: "topo (dependants cs) (length cs) (indegrees cs) (initial_ready cs) 0 = Some (length L')"
    and inv: "kahn_inv cs f' [] L'" by auto
  have L': "dep_order cs L'" "distinct L'" "set L' \<subseteq> plan_ids cs"
    using inv by (auto simp: kahn_inv_def dep_order_def)
  have "length L' = length cs \<longleftrightarrow> set L' = plan_ids cs"
    by (metis L'(2,3) card_ids card_subset_eq distinct_card finite_imageI finite_set ids plan_ids_def)
  moreover have "(\<exists>L. dep_order cs L \<and> set L = plan_ids cs) \<longleftrightarrow> set L' = plan_ids cs"
    using kahn_complete[OF inv] L'(1) by blast
  ultimately show ?thesis by (simp add: t)
qed


section \<open>The readers satisfy the shared contracts\<close>

interpretation plan_texts: text_reader plan_text
  by unfold_locales (auto simp: plan_text_def split: js.splits)

interpretation plan_arrays: array_reader boundedArray
  by unfold_locales (auto simp: boundedArray_def split: js.splits)

definition plan_texts_of :: "js \<Rightarrow> nat \<Rightarrow> nat \<Rightarrow> nat \<Rightarrow> string list result" where
  "plan_texts_of v lo hi n = sbind (boundedArray v lo hi) (traverse (\<lambda>x. plan_text x n))"

interpretation plan_lists: text_list_reader plan_text boundedArray plan_texts_of
  by unfold_locales (simp add: plan_texts_of_def)

section \<open>Well-formed plans\<close>

definition ok_text :: "nat \<Rightarrow> string \<Rightarrow> bool" where
  "ok_text n s \<longleftrightarrow> s \<noteq> [] \<and> length s \<le> n \<and> trim s = s"

definition wf_change :: "planChange \<Rightarrow> bool" where
  "wf_change c \<longleftrightarrow>
     ok_text 48 (changeId c) \<and> ID (changeId c) \<and>
     ok_text MAX_TITLE (title c) \<and> ok_text MAX_INSTRUCTION (instruction c) \<and>
     length (dependsOn c) \<le> MAX_PLAN_DEPENDENCIES \<and> list_all (ok_text 48) (dependsOn c) \<and>
     1 \<le> length (files (scope c)) \<and> length (files (scope c)) \<le> MAX_FILES \<and>
     list_all (\<lambda>f. ok_text MAX_FILE f \<and> safeScopePath f = Inr f) (files (scope c)) \<and>
     length (reasons (risk c)) \<le> MAX_REASONS \<and> list_all (ok_text MAX_PLAN_TEXT) (reasons (risk c)) \<and>
     1 \<le> length (acceptanceChecks c) \<and> length (acceptanceChecks c) \<le> MAX_CHECKS \<and>
     list_all (\<lambda>k. ok_text MAX_SCRIPT (script k)) (acceptanceChecks c)"

definition wf_plan :: "executionPlan \<Rightarrow> bool" where
  "wf_plan p \<longleftrightarrow>
     ok_text 128 (planId p) \<and> PLAN_ID (planId p) \<and>
     1 \<le> revision p \<and> revision p \<le> max_safe_integer \<and>
     1 \<le> length (planChanges p) \<and> length (planChanges p) \<le> MAX_PLAN_CHANGES \<and>
     list_all wf_change (planChanges p) \<and> distinct (map changeId (planChanges p)) \<and>
     deps_known (planChanges p) \<and>
     (\<exists>L. dep_order (planChanges p) L \<and> set L = plan_ids (planChanges p))"

lemma safeScopePath_Inr: "safeScopePath f = Inr g \<Longrightarrow> g = f"
  by (auto simp: safeScopePath_def split: if_splits)

lemma parseCheck_ok: "parseCheck v = Inr k \<Longrightarrow> ok_text MAX_SCRIPT (script k)"
  by (auto simp: parseCheck_def result_simps ok_text_def plan_texts.read_Inr split: if_splits)

lemma file_ok:
  "sbind (plan_text v MAX_FILE) safeScopePath = Inr f \<Longrightarrow> ok_text MAX_FILE f \<and> safeScopePath f = Inr f"
  by (auto simp: result_simps ok_text_def plan_texts.read_Inr dest: safeScopePath_Inr)

lemma plan_text_ok: "plan_text v n = Inr s \<Longrightarrow> ok_text n s"
  by (auto simp: ok_text_def plan_texts.read_Inr)

lemma traverse_list_all:
  "traverse f xs = Inr ys \<Longrightarrow> (\<And>x y. f x = Inr y \<Longrightarrow> P y) \<Longrightarrow> list_all P ys"
  by (auto simp: list_all_iff dest: traverse_set)

lemma parseChange_wf:
  assumes "parseChange v seen = Inr c"
  shows "wf_change c \<and> changeId c \<notin> seen"
proof -
  from assms obtain ob rawDeps deps sc rawFiles fs rk rawReasons rs rawChecks checks lvl where
    *: "plan_text (jget ob ''changeId'') 48 = Inr (changeId c)" "ID (changeId c)" "changeId c \<notin> seen"
      "boundedArray (jget ob ''dependsOn'') 0 MAX_PLAN_DEPENDENCIES = Inr rawDeps"
      "traverse (\<lambda>d. plan_text d 48) rawDeps = Inr (dependsOn c)"
      "boundedArray (jget sc ''files'') 1 MAX_FILES = Inr rawFiles"
      "traverse (\<lambda>f. sbind (plan_text f MAX_FILE) safeScopePath) rawFiles = Inr (files (scope c))"
      "boundedArray (jget rk ''reasons'') 0 MAX_REASONS = Inr rawReasons"
      "traverse (\<lambda>x. plan_text x MAX_PLAN_TEXT) rawReasons = Inr (reasons (risk c))"
      "boundedArray (jget ob ''acceptanceChecks'') 1 MAX_CHECKS = Inr rawChecks"
      "traverse parseCheck rawChecks = Inr (acceptanceChecks c)"
      "plan_text (jget ob ''title'') MAX_TITLE = Inr (title c)"
      "plan_text (jget ob ''instruction'') MAX_INSTRUCTION = Inr (instruction c)"
    by (auto simp: parseChange_def result_simps split: if_splits)
  note lengths = plan_arrays.arr_length[OF *(4)] plan_arrays.arr_length[OF *(6)]
    plan_arrays.arr_length[OF *(8)] plan_arrays.arr_length[OF *(10)]
    traverse_length[OF *(5)] traverse_length[OF *(7)] traverse_length[OF *(9)] traverse_length[OF *(11)]
  note alls = traverse_list_all[OF *(5), of "ok_text 48"]
    traverse_list_all[OF *(7), of "\<lambda>f. ok_text MAX_FILE f \<and> safeScopePath f = Inr f"]
    traverse_list_all[OF *(9), of "ok_text MAX_PLAN_TEXT"]
    traverse_list_all[OF *(11), of "\<lambda>k. ok_text MAX_SCRIPT (script k)"]
  show ?thesis
    unfolding wf_change_def using *(2,3) lengths alls
      plan_text_ok[OF *(1)] plan_text_ok[OF *(12)] plan_text_ok[OF *(13)]
    by (simp add: plan_text_ok file_ok parseCheck_ok)
qed

lemma parseChanges_wf:
  "parseChanges vs seen = Inr cs \<Longrightarrow>
     list_all wf_change cs \<and> distinct (map changeId cs) \<and> plan_ids cs \<inter> seen = {} \<and>
     length cs = length vs"
proof (induction vs arbitrary: seen cs)
  case Nil
  then show ?case by (simp add: plan_ids_def)
next
  case (Cons v vs)
  from Cons.prems obtain c cs' where c: "parseChange v seen = Inr c"
    and cs': "parseChanges vs (insert (changeId c) seen) = Inr cs'" and cs: "cs = c # cs'"
    by (auto simp: result_simps)
  from Cons.IH[OF cs'] parseChange_wf[OF c] show ?case
    by (auto simp: cs plan_ids_def)
qed

lemma validateDependencies_iff:
  assumes "distinct (map changeId (planChanges p))"
  shows "validateDependencies p = Inr () \<longleftrightarrow> deps_known (planChanges p) \<and>
    (\<exists>L. dep_order (planChanges p) L \<and> set L = plan_ids (planChanges p))"
  using topo_iff[OF assms] checkDependencies_all[of "planChanges p"]
  by (auto simp: validateDependencies_def Let_def result_simps)

lemma parseExecutionPlan_wf:
  assumes "parseExecutionPlan v = Inr p"
  shows "wf_plan p"
proof -
  from assms obtain ob raw where
    *: "plan_text (jget ob ''planId'') 128 = Inr (planId p)" "PLAN_ID (planId p)"
      "plan_integer (jget ob ''revision'') = Inr (revision p)" "1 \<le> revision p"
      "boundedArray (jget ob ''changes'') 1 MAX_PLAN_CHANGES = Inr raw"
      "parseChanges raw {} = Inr (planChanges p)" "validateDependencies p = Inr ()"
    by (auto simp: parseExecutionPlan_def result_simps Let_def split: if_splits)
  have "revision p \<le> max_safe_integer"
    using *(3) by (auto simp: plan_integer_def is_safe_integer_def split: js.splits jnum.splits if_splits)
  with * parseChanges_wf[OF *(6)] plan_text_ok[OF *(1)] plan_arrays.arr_length[OF *(5)]
    validateDependencies_iff[of p]
  show ?thesis by (simp add: wf_plan_def)
qed


section \<open>Plans as the objects the parser returns\<close>

text \<open>
  The object literals at the end of \<open>parseCheck\<close>, \<open>parseChange\<close> and
  \<open>parseExecutionPlan\<close>, field by field in their order: a parsed plan is fed back to the
  parser as such an object by \<open>validatePlanTransition\<close>.
\<close>

definition check_object :: "packageScriptCheck \<Rightarrow> js" where
  "check_object k = JObj [(''kind'', JStr ''package_script''), (''script'', JStr (script k))]"

definition level_text :: "riskLevel \<Rightarrow> string" where
  "level_text l = (case l of Low \<Rightarrow> ''low'' | Medium \<Rightarrow> ''medium'' | High \<Rightarrow> ''high'')"

definition status_text :: "planChangeStatus \<Rightarrow> string" where
  "status_text s = (case s of PlanPending \<Rightarrow> ''pending'' | PlanClaimed \<Rightarrow> ''claimed''
     | PlanApplied \<Rightarrow> ''applied'' | PlanFailed \<Rightarrow> ''failed'')"

definition change_object :: "planChange \<Rightarrow> js" where
  "change_object c = JObj [
     (''changeId'', JStr (changeId c)), (''title'', JStr (title c)),
     (''instruction'', JStr (instruction c)), (''dependsOn'', JArr (map JStr (dependsOn c))),
     (''scope'', JObj [(''files'', JArr (map JStr (files (scope c))))]),
     (''risk'', JObj [(''level'', JStr (level_text (level (risk c)))),
                      (''reasons'', JArr (map JStr (reasons (risk c))))]),
     (''acceptanceChecks'', JArr (map check_object (acceptanceChecks c))),
     (''status'', JStr (status_text (pcStatus c)))]"

definition plan_object :: "executionPlan \<Rightarrow> js" where
  "plan_object p = JObj [
     (''version'', JNum (NInt 1)), (''planId'', JStr (planId p)),
     (''revision'', JNum (NInt (revision p))),
     (''changes'', JArr (map change_object (planChanges p)))]"

lemma parseCheck_object: "ok_text MAX_SCRIPT (script k) \<Longrightarrow> parseCheck (check_object k) = Inr k"
  by (simp add: parseCheck_def check_object_def plan_record_def plan_exactFields_def ok_text_def
      plan_texts.read_fixed)

lemma traverse_map_fixed: "list_all (\<lambda>x. f (g x) = Inr x) xs \<Longrightarrow> traverse f (map g xs) = Inr xs"
  by (induction xs) auto

lemma parseLevel_text [simp]: "parseLevel (JStr (level_text l)) = Inr l"
  by (cases l) (simp_all add: parseLevel_def level_text_def)

lemma parseStatus_text [simp]: "parseStatus (JStr (status_text s)) = Inr s"
  by (cases s) (simp_all add: parseStatus_def status_text_def)

lemma ok_text_read: "ok_text n s \<Longrightarrow> plan_text (JStr s) n = Inr s"
  by (simp add: ok_text_def plan_texts.read_fixed)

lemma texts_object:
  "list_all (ok_text n) ss \<Longrightarrow> traverse (\<lambda>x. plan_text x n) (map JStr ss) = Inr ss"
  by (rule traverse_map_fixed) (auto simp: list_all_iff ok_text_read)

lemma files_object:
  "list_all (\<lambda>f. ok_text n f \<and> safeScopePath f = Inr f) fs \<Longrightarrow>
   traverse (\<lambda>f. sbind (plan_text f n) safeScopePath) (map JStr fs) = Inr fs"
  by (rule traverse_map_fixed) (auto simp: list_all_iff ok_text_read)

lemma checks_object:
  "list_all (\<lambda>k. ok_text MAX_SCRIPT (script k)) ks \<Longrightarrow>
   traverse parseCheck (map check_object ks) = Inr ks"
  by (rule traverse_map_fixed) (auto simp: list_all_iff parseCheck_object)

lemma change_object_get:
  "jget (change_object c) ''changeId'' = JStr (changeId c)"
  "jget (change_object c) ''title'' = JStr (title c)"
  "jget (change_object c) ''instruction'' = JStr (instruction c)"
  "jget (change_object c) ''dependsOn'' = JArr (map JStr (dependsOn c))"
  "jget (change_object c) ''scope'' = JObj [(''files'', JArr (map JStr (files (scope c))))]"
  "jget (change_object c) ''risk'' = JObj [(''level'', JStr (level_text (level (risk c)))),
                      (''reasons'', JArr (map JStr (reasons (risk c))))]"
  "jget (change_object c) ''acceptanceChecks'' = JArr (map check_object (acceptanceChecks c))"
  "jget (change_object c) ''status'' = JStr (status_text (pcStatus c))"
  by (simp_all add: change_object_def)

lemma parseChange_object:
  assumes "wf_change c" and "changeId c \<notin> seen"
  shows "parseChange (change_object c) seen = Inr c"
proof -
  have r: "is_record (change_object c)"
    and e: "keys_of (change_object c) = [''changeId'', ''title'', ''instruction'',
      ''dependsOn'', ''scope'', ''risk'', ''acceptanceChecks'', ''status'']"
    by (simp_all add: change_object_def)
  have "planScope.files (scope c) = fs \<Longrightarrow> scope c = \<lparr>files = fs\<rparr>" for fs by (cases "scope c") simp
  moreover have "risk c = \<lparr>level = level (risk c), reasons = reasons (risk c)\<rparr>" by simp
  ultimately show ?thesis
    using assms unfolding parseChange_def wf_change_def
    by (simp add: r e change_object_get plan_record_def plan_exactFields_def ok_text_read
        plan_arrays.arr_fixed texts_object files_object checks_object)
qed

lemma parseChanges_object:
  "list_all wf_change cs \<Longrightarrow> distinct (map changeId cs) \<Longrightarrow> plan_ids cs \<inter> seen = {} \<Longrightarrow>
   parseChanges (map change_object cs) seen = Inr cs"
  by (induction cs arbitrary: seen) (auto simp: parseChange_object plan_ids_def)

lemma parse_plan_object:
  assumes "wf_plan p"
  shows "parseExecutionPlan (plan_object p) = Inr p"
proof -
  have g: "jget (plan_object p) ''version'' = JNum (NInt 1)"
    "jget (plan_object p) ''planId'' = JStr (planId p)"
    "jget (plan_object p) ''revision'' = JNum (NInt (revision p))"
    "jget (plan_object p) ''changes'' = JArr (map change_object (planChanges p))"
    "plan_record (plan_object p) = Inr (plan_object p)"
    "plan_exactFields (plan_object p) [''version'', ''planId'', ''revision'', ''changes''] = Inr ()"
    by (simp_all add: plan_object_def plan_record_def plan_exactFields_def)
  have "parseChanges (map change_object (planChanges p)) {} = Inr (planChanges p)"
    using assms by (intro parseChanges_object) (simp_all add: wf_plan_def)
  moreover have "\<lparr>planId = planId p, revision = revision p, planChanges = planChanges p\<rparr> = p"
    by (cases p) simp
  then have "validateDependencies \<lparr>planId = planId p, revision = revision p,
      planChanges = planChanges p\<rparr> = Inr ()"
    using assms validateDependencies_iff[of p] by (simp only:) (auto simp: wf_plan_def)
  moreover have "plan_integer (JNum (NInt (revision p))) = Inr (revision p)"
    using assms by (simp add: wf_plan_def plan_integer_def is_safe_integer_def max_safe_integer_def)
  ultimately show ?thesis
    using assms unfolding parseExecutionPlan_def
    by (simp add: g wf_plan_def ok_text_read plan_arrays.arr_fixed Let_def)
qed

section \<open>The documents the parser accepts\<close>

text \<open>
  What a JSON value has to look like to stand for a plan, without the parser: its fields and no
  others at every level, texts up to the blanks around them, and a missing status as a pending
  one. The bounds and formats are those of \<open>wf_plan\<close>.
\<close>

definition only_fields :: "js \<Rightarrow> string set \<Rightarrow> bool" where
  "only_fields v ks \<longleftrightarrow> (\<exists>kvs. v = JObj kvs \<and> fst ` set kvs \<subseteq> ks)"

definition means_text :: "js \<Rightarrow> string \<Rightarrow> bool" where
  "means_text v s \<longleftrightarrow> (\<exists>raw. v = JStr raw \<and> trim raw = s)"

definition means_list :: "(js \<Rightarrow> 'a \<Rightarrow> bool) \<Rightarrow> js \<Rightarrow> 'a list \<Rightarrow> bool" where
  "means_list R v ys \<longleftrightarrow> (\<exists>xs. v = JArr xs \<and> list_all2 R xs ys)"

definition scope_path :: "string \<Rightarrow> bool" where
  "scope_path f \<longleftrightarrow> f = ''.'' \<or> CHR 0x5C \<notin> set f \<and> CHR 0x00 \<notin> set f \<and>
     (\<forall>segment \<in> set (split_on (CHR ''/'') f). segment \<noteq> [] \<and> segment \<noteq> ''.'' \<and> segment \<noteq> ''..'')"

definition means_check :: "js \<Rightarrow> packageScriptCheck \<Rightarrow> bool" where
  "means_check v k \<longleftrightarrow> only_fields v {''kind'', ''script''} \<and> jget v ''kind'' = JStr ''package_script'' \<and>
     means_text (jget v ''script'') (script k)"

definition means_change :: "js \<Rightarrow> planChange \<Rightarrow> bool" where
  "means_change v c \<longleftrightarrow>
     only_fields v {''changeId'', ''title'', ''instruction'', ''dependsOn'', ''scope'', ''risk'', ''acceptanceChecks'', ''status''} \<and>
     means_text (jget v ''changeId'') (changeId c) \<and> means_text (jget v ''title'') (title c) \<and>
     means_text (jget v ''instruction'') (instruction c) \<and>
     means_list means_text (jget v ''dependsOn'') (dependsOn c) \<and>
     only_fields (jget v ''scope'') {''files''} \<and>
     means_list means_text (jget (jget v ''scope'') ''files'') (files (scope c)) \<and>
     (\<forall>f \<in> set (files (scope c)). scope_path f) \<and>
     only_fields (jget v ''risk'') {''level'', ''reasons''} \<and>
     jget (jget v ''risk'') ''level'' = JStr (level_text (level (risk c))) \<and>
     means_list means_text (jget (jget v ''risk'') ''reasons'') (reasons (risk c)) \<and>
     means_list means_check (jget v ''acceptanceChecks'') (acceptanceChecks c) \<and>
     (jget v ''status'' = JStr (status_text (pcStatus c)) \<or> jget v ''status'' = JUndef \<and> pcStatus c = PlanPending)"

definition means_plan :: "js \<Rightarrow> executionPlan \<Rightarrow> bool" where
  "means_plan v p \<longleftrightarrow> only_fields v {''version'', ''planId'', ''revision'', ''changes''} \<and>
     jget v ''version'' = JNum (NInt 1) \<and> means_text (jget v ''planId'') (planId p) \<and>
     jget v ''revision'' = JNum (NInt (revision p)) \<and>
     means_list means_change (jget v ''changes'') (planChanges p)"

lemma read_fields:
  "sbind (plan_record v) (\<lambda>r. sbind (plan_exactFields r ks) (\<lambda>u. f r)) =
     (if only_fields v (set ks) then f v else Inl plan_error)"
  by (cases v) (auto simp: plan_record_def plan_exactFields_def only_fields_def check_def list_all_iff is_record_def sbind_def)

lemma plan_text_iff: "plan_text v n = Inr s \<longleftrightarrow> means_text v s \<and> ok_text n s"
  by (auto simp: plan_texts.read_Inr means_text_def ok_text_def)

lemma split_on_slash: "take 1 f = ''/'' \<Longrightarrow> [] \<in> set (split_on (CHR ''/'') f)"
  by (cases f) auto

lemma safeScopePath_iff: "safeScopePath f = Inr g \<longleftrightarrow> g = f \<and> scope_path f"
proof -
  have "take 1 f = [CHR 0x5C] \<Longrightarrow> CHR 0x5C \<in> set f" by (cases f) simp_all
  moreover have "list_ex (\<lambda>segment. segment = [] \<or> segment = ''.'' \<or> segment = ''..'') segments \<longleftrightarrow>
      \<not> (\<forall>segment \<in> set segments. segment \<noteq> [] \<and> segment \<noteq> ''.'' \<and> segment \<noteq> ''..'')" for segments :: "string list"
    by (auto simp: list_ex_iff)
  ultimately show ?thesis
    using split_on_slash[of f] unfolding safeScopePath_def scope_path_def by auto
qed

lemma parseLevel_iff: "parseLevel v = Inr l \<longleftrightarrow> v = JStr (level_text l)"
  by (cases l) (auto simp: parseLevel_def level_text_def split: if_splits)

lemma parseStatus_iff: "parseStatus v = Inr st \<longleftrightarrow> v = JStr (status_text st)"
  by (cases st) (auto simp: parseStatus_def status_text_def split: if_splits)

text \<open>A bounded array whose items are read one by one.\<close>

lemma read_array:
  assumes "\<And>x y. f x = Inr y \<longleftrightarrow> R x y \<and> P y"
  shows "sbind (boundedArray v lo hi) (\<lambda>xs. sbind (traverse f xs) g) = Inr z \<longleftrightarrow>
    (\<exists>ys. means_list R v ys \<and> lo \<le> length ys \<and> length ys \<le> hi \<and> list_all P ys \<and> g ys = Inr z)"
proof -
  have "list_all2 (\<lambda>x y. R x y \<and> P y) xs ys \<longleftrightarrow> list_all2 R xs ys \<and> list_all P ys" for xs ys
    by (auto simp: list_all2_conv_all_nth list_all_length)
  then have "boundedArray v lo hi = Inr xs \<and> traverse f xs = Inr ys \<longleftrightarrow>
      v = JArr xs \<and> list_all2 R xs ys \<and> lo \<le> length ys \<and> length ys \<le> hi \<and> list_all P ys" for xs ys
    by (auto simp: traverse_eq_Inr assms plan_arrays.arr_Inr dest: list_all2_lengthD)
  then show ?thesis unfolding sbind_eq_Inr means_list_def by blast
qed

lemma file_iff: "sbind (plan_text x MAX_FILE) safeScopePath = Inr f \<longleftrightarrow> means_text x f \<and> ok_text MAX_FILE f \<and> scope_path f"
  by (auto simp: result_simps plan_text_iff safeScopePath_iff)

lemma parseCheck_iff: "parseCheck v = Inr k \<longleftrightarrow> means_check v k \<and> ok_text MAX_SCRIPT (script k)"
  by (cases k) (auto simp: parseCheck_def read_fields means_check_def result_simps plan_text_iff)

lemmas read_arrays = read_array[OF plan_text_iff] read_array[OF file_iff] read_array[OF parseCheck_iff]

lemma read_steps:
  "sbind (plan_text v n) g = Inr z \<longleftrightarrow> (\<exists>s. means_text v s \<and> ok_text n s \<and> g s = Inr z)"
  "sbind (parseLevel v) h = Inr z \<longleftrightarrow> (\<exists>l. v = JStr (level_text l) \<and> h l = Inr z)"
  "sbind (if v = JUndef then Inr PlanPending else parseStatus v) k = Inr z \<longleftrightarrow>
     (\<exists>st. (v = JStr (status_text st) \<or> v = JUndef \<and> st = PlanPending) \<and> k st = Inr z)"
  by (auto simp: sbind_eq_Inr plan_text_iff parseLevel_iff parseStatus_iff)

lemma guarded_Inr:
  "(if b then Inl plan_error else r) = Inr c \<longleftrightarrow> \<not> b \<and> r = Inr c"
  "(if b then r else Inl plan_error) = Inr c \<longleftrightarrow> b \<and> r = Inr c"
  by auto

lemma parseChange_iff:
  "parseChange v seen = Inr c \<longleftrightarrow> means_change v c \<and> wf_change c \<and> changeId c \<notin> seen"
proof -
  obtain cid ti ins deps sc rk checks st where c: "c = \<lparr>changeId = cid, title = ti, instruction = ins, dependsOn = deps,
      scope = sc, risk = rk, acceptanceChecks = checks, pcStatus = st\<rparr>" by (cases c)
  obtain fs where sc: "sc = \<lparr>files = fs\<rparr>" by (cases sc)
  obtain lvl rs where rk: "rk = \<lparr>level = lvl, reasons = rs\<rparr>" by (cases rk)
  have files: "list_all (\<lambda>f. ok_text MAX_FILE f \<and> scope_path f) fs \<longleftrightarrow>
      list_all (\<lambda>f. ok_text MAX_FILE f \<and> safeScopePath f = Inr f) fs \<and> (\<forall>f \<in> set fs. scope_path f)"
    by (auto simp: list_all_iff safeScopePath_iff)
  show ?thesis
    unfolding parseChange_def read_fields guarded_Inr read_arrays read_steps
    by (auto simp: c sc rk means_change_def wf_change_def files)
qed

lemma parseChanges_iff:
  "parseChanges vs seen = Inr cs \<longleftrightarrow> list_all2 means_change vs cs \<and> list_all wf_change cs \<and>
     distinct (map changeId cs) \<and> plan_ids cs \<inter> seen = {}"
proof (induction vs arbitrary: seen cs)
  case Nil
  then show ?case by (auto simp: plan_ids_def)
next
  case (Cons v vs)
  show ?case
    by (cases cs) (auto simp: sbind_eq_Inr parseChange_iff Cons.IH plan_ids_def)
qed

lemma wf_plan_revision: "plan_integer v = Inr r \<and> 1 \<le> r \<longleftrightarrow> v = JNum (NInt r) \<and> 1 \<le> r \<and> r \<le> max_safe_integer"
  by (auto simp: plan_integer_def is_safe_integer_def max_safe_integer_def split: js.splits jnum.splits if_splits)

lemma same_prefix_iff: "same_prefix ps ns = Inr () \<longleftrightarrow> take (length ps) ns = ps \<and> length ps \<le> length ns"
  by (induction ps ns rule: same_prefix.induct) auto


section \<open>Orders and acyclic relations\<close>

definition dep_rel :: "planChange list \<Rightarrow> (string \<times> string) set" where
  "dep_rel cs = {(d, changeId c) |c d. c \<in> set cs \<and> d \<in> set (dependsOn c)}"

lemma finite_dep_rel: "finite (dep_rel cs)"
proof -
  have "dep_rel cs = (\<Union>c \<in> set cs. (\<lambda>d. (d, changeId c)) ` set (dependsOn c))"
    by (auto simp: dep_rel_def)
  then show ?thesis by simp
qed

lemma dep_rel_iff:
  "distinct (map changeId cs) \<Longrightarrow> (d, x) \<in> dep_rel cs \<longleftrightarrow> x \<in> plan_ids cs \<and> d \<in> set (deps_of cs x)"
  by (auto simp: dep_rel_def plan_ids_def deps_of_member)

lemma dep_order_acyclic:
  assumes ids: "distinct (map changeId cs)" and L: "dep_order cs L" "set L = plan_ids cs"
  shows "acyclic (dep_rel cs)"
proof -
  define ix where "ix x = (LEAST i. i < length L \<and> L ! i = x)" for x
  have ix: "ix x < length L \<and> L ! ix x = x" if "x \<in> set L" for x
    using that LeastI_ex[of "\<lambda>i. i < length L \<and> L ! i = x"] by (auto simp: ix_def in_set_conv_nth)
  have "(d, x) \<in> measure ix" if "(d, x) \<in> dep_rel cs" for d x
  proof -
    have x: "x \<in> set L" "d \<in> set (deps_of cs x)" using that L dep_rel_iff[OF ids] by auto
    have "set (deps_of cs (L ! ix x)) \<subseteq> set (take (ix x) L)"
      using L(1) ix[OF x(1)] unfolding dep_order_def by blast
    with x ix[OF x(1)] have "d \<in> set (take (ix x) L)" by auto
    then obtain j where j: "j < ix x" "j < length L" "L ! j = d" by (auto simp: in_set_conv_nth)
    then have "ix d \<le> j" unfolding ix_def by (intro Least_le) simp
    with j show ?thesis by simp
  qed
  then have "dep_rel cs \<subseteq> measure ix" by auto
  then show ?thesis by (meson acyclic_subset wf_acyclic wf_measure)
qed

lemma acyclic_dep_order:
  assumes ids: "distinct (map changeId cs)" and known: "deps_known cs" and ac: "acyclic (dep_rel cs)"
  shows "\<exists>L. dep_order cs L \<and> set L = plan_ids cs"
proof -
  from topo_result[OF ids known kahn_init[OF ids], of "length cs"]
  obtain f L where inv: "kahn_inv cs f [] L" by auto
  have pos: "\<forall>x \<in> plan_ids cs - set L. f x = open_deps cs L x \<and> f x \<noteq> 0"
    using inv unfolding kahn_inv_def by auto
  have pred: "\<exists>d \<in> plan_ids cs - set L. (d, x) \<in> dep_rel cs" if "x \<in> plan_ids cs - set L" for x
  proof -
    have "\<not> set (deps_of cs x) \<subseteq> set L"
      using that pos open_deps_zero[of cs L x] by metis
    then obtain d where d: "d \<in> set (deps_of cs x)" "d \<notin> set L" by auto
    moreover have "d \<in> plan_ids cs"
      using d(1) that deps_known_subset[OF ids known] by blast
    ultimately show ?thesis using that dep_rel_iff[OF ids] by blast
  qed
  have "wf (dep_rel cs)" using finite_acyclic_wf[OF finite_dep_rel ac] .
  then have "plan_ids cs - set L = {}"
    using pred by (metis wfE_min ex_in_conv)
  then show ?thesis using inv by (auto simp: kahn_inv_def dep_order_def)
qed


section \<open>Properties\<close>

lemma parseExecutionPlan_iff:
  "parseExecutionPlan v = Inr p \<longleftrightarrow> means_plan v p \<and> wf_plan p"
proof -
  obtain pid r cs where p: "p = \<lparr>planId = pid, revision = r, planChanges = cs\<rparr>" by (cases p)
  let ?deps = "validateDependencies p = Inr ()"
  have same_length: "length xs = length cs" if "list_all2 means_change xs cs" for xs
    using that by (rule list_all2_lengthD)
  have "parseExecutionPlan v = Inr p \<longleftrightarrow>
      only_fields v {''version'', ''planId'', ''revision'', ''changes''} \<and> jget v ''version'' = JNum (NInt 1) \<and>
      means_text (jget v ''planId'') pid \<and> ok_text 128 pid \<and> PLAN_ID pid \<and>
      (plan_integer (jget v ''revision'') = Inr r \<and> 1 \<le> r) \<and>
      (\<exists>raw. boundedArray (jget v ''changes'') 1 MAX_PLAN_CHANGES = Inr raw \<and> parseChanges raw {} = Inr cs) \<and> ?deps"
    unfolding parseExecutionPlan_def read_fields guarded_Inr read_steps Let_def
    by (auto simp: sbind_eq_Inr guarded_Inr p)
  also have "\<dots> \<longleftrightarrow> means_plan v p \<and> wf_plan p"
    unfolding wf_plan_revision plan_arrays.arr_Inr parseChanges_iff
    using validateDependencies_iff[of p]
    by (auto simp: means_plan_def means_list_def wf_plan_def p same_length)
  finally show ?thesis .
qed

text \<open>
  Claim C39 (plan parser). \<open>parseExecutionPlan\<close> accepts exactly the documents that describe a
  well-formed plan, and returns the plan they describe: version 1, at every level the known
  fields and no others, texts up to the blanks around them, a missing status as pending, package
  scripts as checks, and repository-relative scope paths; identifiers match their formats, every
  text is non-empty and bounded, 1 to 16 changes with distinct identifiers, dependencies known,
  irreflexive, unrepeated and orderable. Every well-formed plan is read back from the object
  the parser built of it, so the second parse in \<open>validatePlanTransition\<close> changes nothing.
\<close>

theorem plan_parser_exact:
  "(parseExecutionPlan v = Inr p \<longleftrightarrow> means_plan v p \<and> wf_plan p) \<and>
   (parseExecutionPlan (plan_object p) = Inr p \<longleftrightarrow> wf_plan p)"
  using parseExecutionPlan_iff parseExecutionPlan_wf parse_plan_object by blast

text \<open>
  Claim C38 (dependency check). For distinct change identifiers the counting sort of
  \<open>validateDependencies\<close>, run to the end of its \<open>ready\<close> stack, accepts a plan exactly when
  every dependency is another change of the plan, listed once, and the relation
  "is a dependency of" has no cycle.
\<close>

theorem validateDependencies_acyclic:
  assumes "distinct (map changeId (planChanges p))"
  shows "validateDependencies p = Inr () \<longleftrightarrow>
    deps_known (planChanges p) \<and> acyclic (dep_rel (planChanges p))"
  using assms validateDependencies_iff dep_order_acyclic acyclic_dep_order by blast

definition sample_change :: "string \<Rightarrow> string list \<Rightarrow> planChange" where
  "sample_change cid deps = \<lparr>changeId = cid, title = ''t'', instruction = ''i'', dependsOn = deps,
     scope = \<lparr>files = [''src'']\<rparr>, risk = \<lparr>level = Low, reasons = []\<rparr>,
     acceptanceChecks = [\<lparr>script = ''test''\<rparr>], pcStatus = PlanPending\<rparr>"

definition sample_plan :: executionPlan where
  "sample_plan = \<lparr>planId = ''p'', revision = 1,
     planChanges = [sample_change ''b'' [''a''], sample_change ''a'' []]\<rparr>"

lemma sample_plan_valid: "validateDependencies sample_plan = Inr ()"
  by code_simp

theorem validateDependencies_acyclic_witness:
  "acyclic (dep_rel (planChanges sample_plan))"
proof -
  have "distinct (map changeId (planChanges sample_plan))" by code_simp
  from validateDependencies_acyclic[OF this] sample_plan_valid show ?thesis by blast
qed

text \<open>
  Claim C40 (plan transition). \<open>validatePlanTransition\<close> returns only plans that continue the
  previous one: the same plan identifier, and either a higher revision whose first changes
  are the previous changes unaltered, or, where identical replay is allowed, the previous
  plan itself. The returned plan is well formed.
\<close>

theorem plan_transition_append_only:
  assumes "validatePlanTransition a b replay = Inr nxt"
  shows "\<exists>previous. parseExecutionPlan a = Inr previous \<and> wf_plan nxt \<and> planId nxt = planId previous \<and>
    (revision previous < revision nxt \<and>
       take (length (planChanges previous)) (planChanges nxt) = planChanges previous \<or>
     replay \<and> nxt = previous)"
proof -
  from assms obtain previous n where p: "parseExecutionPlan a = Inr previous"
    "parseExecutionPlan b = Inr n" "planId previous = planId n"
    and r: "(if revision n \<le> revision previous
       then if replay \<and> previous = n then Inr n else Inl plan_error
       else if length (planChanges n) < length (planChanges previous) then Inl plan_error
       else sbind (same_prefix (planChanges previous) (planChanges n)) (\<lambda>_. Inr n)) = Inr nxt"
    by (auto simp: validatePlanTransition_def result_simps split: if_splits)
  from r have n: "nxt = n" by (auto simp: result_simps split: if_splits)
  from r p show ?thesis
    by (auto simp: n result_simps same_prefix_iff parseExecutionPlan_wf split: if_splits)
qed

theorem plan_transition_append_only_witness:
  "\<exists>previous. parseExecutionPlan (plan_object sample_plan) = Inr previous \<and>
     planId previous = ''p''"
proof -
  let ?next = "plan_object (sample_plan\<lparr>revision := 2,
    planChanges := planChanges sample_plan @ [sample_change ''c'' []]\<rparr>)"
  have "case validatePlanTransition (plan_object sample_plan) ?next False of
    Inl e \<Rightarrow> False | Inr n \<Rightarrow> planId n = ''p''"
    by code_simp
  then obtain n where "validatePlanTransition (plan_object sample_plan) ?next False = Inr n"
    and "planId n = ''p''" by (auto split: sum.splits)
  from plan_transition_append_only[OF this(1)] this(2) show ?thesis by auto
qed

end
