(* ===== verification/Parsers.thy ===== *)
theory Parsers
  imports WorkflowTypes Readers
begin

text \<open>
  \<open>src/src/workflow/parsers.ts\<close>: extraction of one JSON object from a worker's output
  (whole text, fenced block, or an object embedded in prose found by a brace scanner that
  tracks string literals), and the typed readers of discovery results, findings, change
  sets, verifications, diagnostics and syntheses. Every failure is
  \<open>InvalidWorkerOutputError\<close>.
\<close>

definition MAX_TEXT :: nat where "MAX_TEXT = 8000"
definition MAX_SYNTHESIS_TEXT :: nat where "MAX_SYNTHESIS_TEXT = 32000"
definition MAX_LIST :: nat where "MAX_LIST = 32"
definition MAX_WORKER_OUTPUT :: nat where "MAX_WORKER_OUTPUT = 262144"

definition worker_error :: error where "worker_error = InvalidWorkerOutputError"

definition WORK_ITEM_ID :: "string \<Rightarrow> bool" where
  "WORK_ITEM_ID = lexical is_alpha_char (\<lambda>c. is_alnum_char c \<or> c = CHR ''_'' \<or> c = CHR ''-'') 47"

section \<open>Field readers\<close>

definition recordValue :: "js \<Rightarrow> js result" where
  "recordValue v = (if is_record v then Inr v else Inl worker_error)"

definition worker_exactFields :: "js \<Rightarrow> string list \<Rightarrow> unit result" where
  "worker_exactFields v allowed = check (list_all (\<lambda>k. k \<in> set allowed) (keys_of v)) worker_error"

definition array :: "js \<Rightarrow> nat \<Rightarrow> nat \<Rightarrow> js list result" where
  "array v lo hi =
     (case v of
        JArr xs \<Rightarrow> if length xs < lo \<or> hi < length xs then Inl worker_error else Inr xs
      | _ \<Rightarrow> Inl worker_error)"

definition textValue :: "js \<Rightarrow> nat \<Rightarrow> string result" where
  "textValue v maxLength =
     (case v of
        JStr s \<Rightarrow>
          if trim s = [] then Inl worker_error
          else if maxLength < length (trim s) then Inl worker_error
          else Inr (trim s)
      | _ \<Rightarrow> Inl worker_error)"

definition stringArray :: "js \<Rightarrow> nat \<Rightarrow> nat \<Rightarrow> string list result" where
  "stringArray v lo hi = sbind (array v lo hi) (traverse (\<lambda>x. textValue x 4000))"

definition booleanValue :: "js \<Rightarrow> bool result" where
  "booleanValue v = (case v of JBool b \<Rightarrow> Inr b | _ \<Rightarrow> Inl worker_error)"

section \<open>One JSON object from a worker's text\<close>

text \<open>
  The regular expression \<open>/^```(?:json)?\s*([\s\S]*?)\s*```$/i\<close> on trimmed text: after the
  opening fence and an optional \<open>json\<close> tag, the text up to the closing fence at the end,
  trimmed. The opening and the closing fence do not overlap.
\<close>

definition fence :: string where "fence = [CHR 0x60, CHR 0x60, CHR 0x60]"

definition fenced_block :: "string \<Rightarrow> string option" where
  "fenced_block t =
     (if take 3 t \<noteq> fence then None
      else
        let r = drop 3 t;
            body = trim_start (if map lower_char (take 4 r) = ''json'' then drop 4 r else r)
        in if 3 \<le> length body \<and> drop (length body - 3) body = fence
           then Some (trim (take (length body - 3) body)) else None)"

text \<open>
  The state of the scanner of \<open>embeddedObject\<close>: the text of the object being read since its
  opening brace (in reverse; \<open>None\<close> is \<open>start < 0\<close>), the brace depth, the two flags, and
  the values parsed so far.
\<close>

record scanState =
  scText :: "string option"
  scDepth :: int
  scQuoted :: bool
  scEscaped :: bool
  scParsed :: "js list"

definition scan_start :: scanState where
  "scan_start = \<lparr>scText = None, scDepth = 0, scQuoted = False, scEscaped = False, scParsed = []\<rparr>"

definition scan_close :: "builtins \<Rightarrow> scanState \<Rightarrow> scanState" where
  "scan_close B s =
     (if scDepth s \<noteq> 0 then s
      else s\<lparr>scText := None,
             scParsed := scParsed s @
               (case json_parse B (rev (the (scText s))) of Some v \<Rightarrow> [v] | None \<Rightarrow> [])\<rparr>)"

definition scan_char :: "builtins \<Rightarrow> scanState \<Rightarrow> char \<Rightarrow> scanState" where
  "scan_char B s c =
     (case scText s of
        None \<Rightarrow> if c = CHR ''{'' then s\<lparr>scText := Some [c], scDepth := 1\<rparr> else s
      | Some t \<Rightarrow>
          let s = s\<lparr>scText := Some (c # t)\<rparr> in
          if scQuoted s then
            (if scEscaped s then s\<lparr>scEscaped := False\<rparr>
             else if c = CHR 0x5C then s\<lparr>scEscaped := True\<rparr>
             else if c = CHR 0x22 then s\<lparr>scQuoted := False\<rparr>
             else s)
          else if c = CHR 0x22 then scan_close B (s\<lparr>scQuoted := True\<rparr>)
          else if c = CHR ''{'' then scan_close B (s\<lparr>scDepth := scDepth s + 1\<rparr>)
          else if c = CHR ''}'' then scan_close B (s\<lparr>scDepth := scDepth s - 1\<rparr>)
          else scan_close B s)"

definition embeddedObject :: "builtins \<Rightarrow> string \<Rightarrow> js result" where
  "embeddedObject B t =
     (case scParsed (foldl (scan_char B) scan_start t) of
        [v] \<Rightarrow> Inr v
      | _ \<Rightarrow> Inl worker_error)"

definition parseWorkerObject :: "builtins \<Rightarrow> string \<Rightarrow> js result" where
  "parseWorkerObject B t =
     (if MAX_WORKER_OUTPUT < length t then Inl worker_error
      else
        let trimmed = trim t;
            candidate = (case fenced_block trimmed of Some b \<Rightarrow> b | None \<Rightarrow> trimmed)
        in sbind (case json_parse B candidate of
                    Some v \<Rightarrow> Inr v
                  | None \<Rightarrow> embeddedObject B trimmed) recordValue)"

section \<open>Typed results\<close>

definition parseWorkItem :: "js \<Rightarrow> string set \<Rightarrow> workItem result" where
  "parseWorkItem v seen =
     sbind (recordValue v) (\<lambda>r.
     sbind (worker_exactFields r [''id'', ''title'', ''instruction'']) (\<lambda>_.
     sbind (textValue (jget r ''id'') 48) (\<lambda>i.
     if \<not> WORK_ITEM_ID i then Inl worker_error
     else if i \<in> seen then Inl worker_error
     else
     sbind (textValue (jget r ''title'') 200) (\<lambda>ti.
     sbind (textValue (jget r ''instruction'') 2000) (\<lambda>ins.
     Inr \<lparr>wiId = i, wiTitle = ti, wiInstruction = ins\<rparr>)))))"

fun parseWorkItems :: "js list \<Rightarrow> string set \<Rightarrow> workItem list result" where
  "parseWorkItems [] seen = Inr []"
| "parseWorkItems (v # vs) seen =
     sbind (parseWorkItem v seen) (\<lambda>w.
     sbind (parseWorkItems vs (insert (wiId w) seen)) (\<lambda>ws. Inr (w # ws)))"

definition parseDiscovery :: "builtins \<Rightarrow> string \<Rightarrow> discoveryResult result" where
  "parseDiscovery B t =
     sbind (parseWorkerObject B t) (\<lambda>value.
     sbind (worker_exactFields value [''workItems'', ''acceptanceCriteria'']) (\<lambda>_.
     sbind (array (jget value ''workItems'') 1 MAX_WORK_ITEMS) (\<lambda>rawItems.
     sbind (parseWorkItems rawItems {}) (\<lambda>items.
     sbind (stringArray (jget value ''acceptanceCriteria'') 1 MAX_LIST) (\<lambda>criteria.
     Inr \<lparr>drWorkItems = items, drAcceptanceCriteria = criteria, drExecutionPlan = None\<rparr>)))))"

definition parseEvidenceKind :: "js \<Rightarrow> evidenceKind result" where
  "parseEvidenceKind v =
     (if v = JStr ''file'' then Inr EvFile
      else if v = JStr ''test'' then Inr EvTest
      else if v = JStr ''runtime'' then Inr EvRuntime
      else if v = JStr ''documentation'' then Inr EvDocumentation
      else if v = JStr ''other'' then Inr EvOther
      else Inl worker_error)"

definition parseEvidence :: "js \<Rightarrow> findingEvidence result" where
  "parseEvidence v =
     sbind (recordValue v) (\<lambda>r.
     sbind (worker_exactFields r [''kind'', ''location'', ''detail'']) (\<lambda>_.
     sbind (parseEvidenceKind (jget r ''kind'')) (\<lambda>k.
     sbind (textValue (jget r ''location'') 1000) (\<lambda>l.
     sbind (textValue (jget r ''detail'') 2000) (\<lambda>d.
     Inr \<lparr>feKind = k, feLocation = l, feDetail = d\<rparr>)))))"

definition parseFinding :: "builtins \<Rightarrow> string \<Rightarrow> string \<Rightarrow> finding result" where
  "parseFinding B t itemId =
     sbind (parseWorkerObject B t) (\<lambda>value.
     sbind (worker_exactFields value [''summary'', ''evidence'', ''risks'', ''discoveredWorkItems'']) (\<lambda>_.
     sbind (array (jget value ''evidence'') 0 MAX_LIST) (\<lambda>rawEvidence.
     sbind (traverse parseEvidence rawEvidence) (\<lambda>evs.
     sbind (textValue (jget value ''summary'') MAX_TEXT) (\<lambda>sm.
     sbind (stringArray (jget value ''risks'') 0 MAX_LIST) (\<lambda>rs.
     sbind (if jget value ''discoveredWorkItems'' = JUndef \<or> jget value ''discoveredWorkItems'' = JNull
            then Inr []
            else sbind (array (jget value ''discoveredWorkItems'') 0 4)
                   (traverse (\<lambda>x. parseWorkItem x {}))) (\<lambda>items.
     Inr \<lparr>fiWorkItemId = itemId, fiSummary = sm, fiEvidence = evs, fiRisks = rs,
          discoveredWorkItems = items\<rparr>)))))))"

definition parseChangeSet :: "builtins \<Rightarrow> string \<Rightarrow> changeKind \<Rightarrow> changeSet result" where
  "parseChangeSet B t kind =
     sbind (parseWorkerObject B t) (\<lambda>value.
     sbind (worker_exactFields value [''summary'', ''filesChanged'', ''evidence'', ''unresolvedRisks'']) (\<lambda>_.
     sbind (textValue (jget value ''summary'') MAX_TEXT) (\<lambda>sm.
     sbind (stringArray (jget value ''filesChanged'') 0 MAX_LIST) (\<lambda>fs.
     sbind (stringArray (jget value ''evidence'') 0 MAX_LIST) (\<lambda>evs.
     sbind (stringArray (jget value ''unresolvedRisks'') 0 MAX_LIST) (\<lambda>rs.
     Inr \<lparr>csKind = kind, csSummary = sm, filesChanged = fs, csEvidence = evs,
          csUnresolvedRisks = rs\<rparr>))))))"

definition parseVerificationCheck :: "js \<Rightarrow> verificationCheck result" where
  "parseVerificationCheck v =
     sbind (recordValue v) (\<lambda>r.
     sbind (worker_exactFields r [''name'', ''passed'', ''evidence'']) (\<lambda>_.
     sbind (booleanValue (jget r ''passed'')) (\<lambda>p.
     sbind (textValue (jget r ''name'') 500) (\<lambda>n.
     sbind (textValue (jget r ''evidence'') 4000) (\<lambda>e.
     Inr \<lparr>vcName = n, vcPassed = p, vcEvidence = e\<rparr>)))))"

definition parseVerification :: "builtins \<Rightarrow> string \<Rightarrow> verificationResult result" where
  "parseVerification B t =
     sbind (parseWorkerObject B t) (\<lambda>value.
     sbind (worker_exactFields value [''passed'', ''summary'', ''checks'']) (\<lambda>_.
     sbind (booleanValue (jget value ''passed'')) (\<lambda>passed.
     sbind (array (jget value ''checks'') 1 MAX_LIST) (\<lambda>rawChecks.
     sbind (traverse parseVerificationCheck rawChecks) (\<lambda>checks.
     if passed \<noteq> list_all vcPassed checks then Inl worker_error
     else
     sbind (textValue (jget value ''summary'') MAX_TEXT) (\<lambda>sm.
     Inr \<lparr>vrPassed = passed, vrSummary = sm, vrChecks = checks\<rparr>))))))"

definition parseDiagnostic :: "builtins \<Rightarrow> string \<Rightarrow> diagnosticResult result" where
  "parseDiagnostic B t =
     sbind (parseWorkerObject B t) (\<lambda>value.
     sbind (worker_exactFields value [''summary'', ''rootCauses'', ''repairInstructions'']) (\<lambda>_.
     sbind (textValue (jget value ''summary'') MAX_TEXT) (\<lambda>sm.
     sbind (stringArray (jget value ''rootCauses'') 1 MAX_LIST) (\<lambda>rc.
     sbind (stringArray (jget value ''repairInstructions'') 1 MAX_LIST) (\<lambda>ri.
     Inr \<lparr>dgSummary = sm, rootCauses = rc, repairInstructions = ri\<rparr>)))))"

definition parseSynthesis :: "builtins \<Rightarrow> string \<Rightarrow> string result" where
  "parseSynthesis B t =
     sbind (parseWorkerObject B t) (\<lambda>value.
     sbind (worker_exactFields value [''summary'']) (\<lambda>_.
     textValue (jget value ''summary'') MAX_SYNTHESIS_TEXT))"

section \<open>The readers satisfy the shared contracts\<close>

interpretation worker_texts: text_reader textValue
  by unfold_locales (auto simp: textValue_def split: js.splits)

interpretation worker_arrays: array_reader array
  by unfold_locales (auto simp: array_def split: js.splits)

definition worker_texts_of :: "js \<Rightarrow> nat \<Rightarrow> nat \<Rightarrow> nat \<Rightarrow> string list result" where
  "worker_texts_of v lo hi n = sbind (array v lo hi) (traverse (\<lambda>x. textValue x n))"

interpretation worker_lists: text_list_reader textValue array worker_texts_of
  by unfold_locales (simp add: worker_texts_of_def)

lemma stringArray_eq: "stringArray v lo hi = worker_texts_of v lo hi 4000"
  by (simp add: stringArray_def worker_texts_of_def)

lemma stringArray_bounds:
  "stringArray v lo hi = Inr ss \<Longrightarrow>
     lo \<le> length ss \<and> length ss \<le> hi \<and> (\<forall>s \<in> set ss. s \<noteq> [] \<and> length s \<le> 4000 \<and> trim s = s)"
  unfolding stringArray_eq using worker_lists.texts_bounds by blast

section \<open>The brace scanner\<close>

text \<open>
  The inside of a string literal, and the inside of a pair of braces: characters other than
  quotes and braces, complete string literals, and nested pairs of braces.
\<close>

inductive literal_text :: "string \<Rightarrow> bool" where
  lit_Nil: "literal_text []"
| lit_plain: "c \<noteq> CHR 0x22 \<Longrightarrow> c \<noteq> CHR 0x5C \<Longrightarrow> literal_text cs \<Longrightarrow> literal_text (c # cs)"
| lit_escape: "literal_text cs \<Longrightarrow> literal_text (CHR 0x5C # c # cs)"

inductive braces_text :: "string \<Rightarrow> bool" where
  br_Nil: "braces_text []"
| br_plain: "c \<notin> {CHR 0x22, CHR ''{'', CHR ''}''} \<Longrightarrow> braces_text cs \<Longrightarrow> braces_text (c # cs)"
| br_literal: "literal_text ls \<Longrightarrow> braces_text cs \<Longrightarrow> braces_text (CHR 0x22 # ls @ CHR 0x22 # cs)"
| br_nested: "braces_text bs \<Longrightarrow> braces_text cs \<Longrightarrow> braces_text (CHR ''{'' # bs @ CHR ''}'' # cs)"

abbreviation scanning :: "string \<Rightarrow> int \<Rightarrow> bool \<Rightarrow> bool \<Rightarrow> js list \<Rightarrow> scanState" where
  "scanning t d q e ps \<equiv>
     \<lparr>scText = Some t, scDepth = d, scQuoted = q, scEscaped = e, scParsed = ps\<rparr>"

lemma scan_quoted:
  "scan_char B (scanning t d True True ps) c = scanning (c # t) d True False ps"
  "scan_char B (scanning t d True False ps) (CHR 0x5C) = scanning (CHR 0x5C # t) d True True ps"
  "scan_char B (scanning t d True False ps) (CHR 0x22) = scanning (CHR 0x22 # t) d False False ps"
  "c \<noteq> CHR 0x22 \<Longrightarrow> c \<noteq> CHR 0x5C \<Longrightarrow>
     scan_char B (scanning t d True False ps) c = scanning (c # t) d True False ps"
  by (simp_all add: scan_char_def Let_def)

lemma scan_open:
  "0 < d \<Longrightarrow> scan_char B (scanning t d False False ps) (CHR 0x22) = scanning (CHR 0x22 # t) d True False ps"
  "0 < d \<Longrightarrow> scan_char B (scanning t d False False ps) (CHR ''{'') = scanning (CHR ''{'' # t) (d + 1) False False ps"
  "1 < d \<Longrightarrow> scan_char B (scanning t d False False ps) (CHR ''}'') = scanning (CHR ''}'' # t) (d - 1) False False ps"
  "0 < d \<Longrightarrow> c \<notin> {CHR 0x22, CHR ''{'', CHR ''}''} \<Longrightarrow>
     scan_char B (scanning t d False False ps) c = scanning (c # t) d False False ps"
  by (simp_all add: scan_char_def scan_close_def Let_def)

lemma scan_literal:
  "literal_text ls \<Longrightarrow>
   foldl (scan_char B) (scanning t d True False ps) ls = scanning (rev ls @ t) d True False ps"
proof (induction arbitrary: t rule: literal_text.induct)
  case lit_Nil
  then show ?case by simp
qed (simp_all add: scan_quoted)

lemma scan_braces:
  "braces_text bs \<Longrightarrow> 0 < d \<Longrightarrow>
   foldl (scan_char B) (scanning t d False False ps) bs = scanning (rev bs @ t) d False False ps"
proof (induction arbitrary: t d rule: braces_text.induct)
  case br_Nil
  then show ?case by simp
next
  case (br_plain c cs)
  then show ?case by (simp add: scan_open)
next
  case (br_literal ls cs)
  then show ?case by (simp add: scan_open scan_quoted scan_literal)
next
  case (br_nested bs cs)
  then show ?case by (simp add: scan_open)
qed

lemma scan_idle:
  "CHR ''{'' \<notin> set ts \<Longrightarrow> scText s = None \<Longrightarrow> foldl (scan_char B) s ts = s"
  by (induction ts) (auto simp: scan_char_def)

text \<open>Everything the scanner parsed is a contiguous part of the text that opens with a brace.\<close>

definition parsed_part :: "builtins \<Rightarrow> string \<Rightarrow> js \<Rightarrow> bool" where
  "parsed_part B text v \<longleftrightarrow>
     (\<exists>pre obj post. text = pre @ obj @ post \<and> json_parse B obj = Some v)"

lemma parsed_part_append: "parsed_part B ts v \<Longrightarrow> parsed_part B (us @ ts @ ws) v"
  unfolding parsed_part_def by (metis append.assoc)

lemma parsed_part_snoc: "parsed_part B ts v \<Longrightarrow> parsed_part B (ts @ [c]) v"
  using parsed_part_append[of B ts v "[]" "[c]"] by simp

definition scan_inv :: "builtins \<Rightarrow> string \<Rightarrow> scanState \<Rightarrow> bool" where
  "scan_inv B past s \<longleftrightarrow>
     (\<forall>t. scText s = Some t \<longrightarrow> (\<exists>pre. past = pre @ rev t)) \<and>
     list_all (parsed_part B past) (scParsed s)"

lemma scan_inv_close:
  assumes "scan_inv B past s" and "scText s \<noteq> None"
  shows "scan_inv B past (scan_close B s)"
proof (cases "scDepth s = 0")
  case True
  from assms obtain t pre where t: "scText s = Some t" "past = pre @ rev t"
    by (auto simp: scan_inv_def)
  then have "parsed_part B past v" if "json_parse B (rev t) = Some v" for v
    using that unfolding parsed_part_def by (metis append_Nil2)
  then show ?thesis
    using assms True t by (auto simp: scan_inv_def scan_close_def split: option.splits)
next
  case False
  then show ?thesis using assms by (simp add: scan_close_def)
qed

lemma scan_inv_char:
  assumes "scan_inv B past s"
  shows "scan_inv B (past @ [c]) (scan_char B s c)"
proof -
  have ps: "list_all (parsed_part B (past @ [c])) (scParsed s)"
    using assms by (auto simp: scan_inv_def list_all_iff intro: parsed_part_snoc)
  show ?thesis
  proof (cases "scText s")
    case None
    with ps show ?thesis by (cases "c = CHR ''{''") (simp_all add: scan_inv_def scan_char_def)
  next
    case (Some t)
    with assms ps have keep: "scText s' = Some (c # t) \<Longrightarrow> scParsed s' = scParsed s \<Longrightarrow>
        scan_inv B (past @ [c]) s'" for s'
      by (auto simp: scan_inv_def)
    then show ?thesis
      using Some by (auto simp: scan_char_def Let_def intro!: keep scan_inv_close)
  qed
qed

lemma scan_inv_foldl: "scan_inv B past s \<Longrightarrow> scan_inv B (past @ ts) (foldl (scan_char B) s ts)"
proof (induction ts arbitrary: past s)
  case Nil
  then show ?case by simp
next
  case (Cons c ts)
  from Cons.IH[OF scan_inv_char[OF Cons.prems, of c]] show ?case by simp
qed

lemma scan_inv_start: "scan_inv B [] scan_start"
  by (simp add: scan_inv_def scan_start_def)

section \<open>Well-formed results\<close>

definition wf_work_item :: "workItem \<Rightarrow> bool" where
  "wf_work_item w \<longleftrightarrow> WORK_ITEM_ID (wiId w) \<and> wiTitle w \<noteq> [] \<and> length (wiTitle w) \<le> 200 \<and>
     wiInstruction w \<noteq> [] \<and> length (wiInstruction w) \<le> 2000"

lemma parseWorkItem_wf: "parseWorkItem v seen = Inr w \<Longrightarrow> wf_work_item w \<and> wiId w \<notin> seen"
  by (auto simp: parseWorkItem_def wf_work_item_def result_simps split: if_splits
      dest: worker_texts.read_bounds)

lemma parseWorkItems_wf:
  "parseWorkItems vs seen = Inr ws \<Longrightarrow> list_all wf_work_item ws \<and> distinct (map wiId ws) \<and>
     wiId ` set ws \<inter> seen = {} \<and> length ws = length vs"
proof (induction vs arbitrary: seen ws)
  case Nil
  then show ?case by simp
next
  case (Cons v vs)
  from Cons.prems obtain w ws' where w: "parseWorkItem v seen = Inr w"
    and ws': "parseWorkItems vs (insert (wiId w) seen) = Inr ws'" and ws: "ws = w # ws'"
    by (auto simp: result_simps)
  from Cons.IH[OF ws'] parseWorkItem_wf[OF w] show ?case by (auto simp: ws)
qed

lemma parseDiscovery_wf:
  assumes "parseDiscovery B t = Inr d"
  shows "1 \<le> length (drWorkItems d) \<and> length (drWorkItems d) \<le> MAX_WORK_ITEMS \<and>
    distinct (map wiId (drWorkItems d)) \<and> list_all wf_work_item (drWorkItems d) \<and>
    1 \<le> length (drAcceptanceCriteria d) \<and> length (drAcceptanceCriteria d) \<le> MAX_LIST"
proof -
  from assms obtain ob raw where r: "array (jget ob ''workItems'') 1 MAX_WORK_ITEMS = Inr raw"
    "parseWorkItems raw {} = Inr (drWorkItems d)"
    "stringArray (jget ob ''acceptanceCriteria'') 1 MAX_LIST = Inr (drAcceptanceCriteria d)"
    by (auto simp: parseDiscovery_def result_simps)
  from worker_arrays.arr_length[OF r(1)] parseWorkItems_wf[OF r(2)] stringArray_bounds[OF r(3)]
  show ?thesis by simp
qed

lemma parseFinding_wf:
  assumes "parseFinding B t i = Inr f"
  shows "fiWorkItemId f = i \<and> list_all wf_work_item (discoveredWorkItems f) \<and>
    length (discoveredWorkItems f) \<le> 4"
proof -
  from assms obtain ob where i: "fiWorkItemId f = i" and d: "(if jget ob ''discoveredWorkItems'' = JUndef \<or> jget ob ''discoveredWorkItems'' = JNull
            then Inr []
            else sbind (array (jget ob ''discoveredWorkItems'') 0 4)
                   (traverse (\<lambda>x. parseWorkItem x {}))) = Inr (discoveredWorkItems f)"
    by (auto simp: parseFinding_def result_simps)
  show ?thesis
  proof (cases "discoveredWorkItems f = []")
    case False
    with d obtain raw where raw: "array (jget ob ''discoveredWorkItems'') 0 4 = Inr raw"
      "traverse (\<lambda>x. parseWorkItem x {}) raw = Inr (discoveredWorkItems f)"
      by (auto simp: result_simps split: if_splits)
    have "list_all wf_work_item (discoveredWorkItems f)"
      using traverse_set[OF raw(2)] parseWorkItem_wf by (metis list_all_iff)
    then show ?thesis
      using i worker_arrays.arr_length[OF raw(1)] traverse_length[OF raw(2)] by simp
  qed (simp add: i)
qed

section \<open>Properties\<close>

text \<open>
A worker that wraps one JSON object in prose is understood: if
  neither side of the object contains an opening brace, the object's text is a brace pair
  whose inside is plain text, complete string literals (which may contain braces and escaped
  quotes) and nested pairs, and it parses to \<open>v\<close>, then \<open>embeddedObject\<close> returns \<open>v\<close>.
\<close>

theorem embedded_object_found:
  assumes "CHR ''{'' \<notin> set pre" and "CHR ''{'' \<notin> set post" and "braces_text inside"
    and "json_parse B (CHR ''{'' # inside @ [CHR ''}'']) = Some v"
  shows "embeddedObject B (pre @ (CHR ''{'' # inside @ [CHR ''}'']) @ post) = Inr v"
proof -
  have open1: "scan_char B scan_start (CHR ''{'') = scanning [CHR ''{''] 1 False False []"
    by (simp add: scan_start_def scan_char_def)
  have close1: "scan_char B (scanning (rev inside @ [CHR ''{'']) 1 False False []) (CHR ''}'') =
      scan_start\<lparr>scParsed := [v]\<rparr>"
    using assms(4) by (simp add: scan_char_def scan_close_def scan_start_def Let_def)
  have "foldl (scan_char B) scan_start pre = scan_start"
    using assms(1) by (intro scan_idle) (simp_all add: scan_start_def)
  then have "foldl (scan_char B) scan_start (pre @ [CHR ''{'']) = scanning [CHR ''{''] 1 False False []"
    by (simp add: open1)
  moreover have "foldl (scan_char B) (scanning [CHR ''{''] 1 False False []) (inside @ [CHR ''}'']) =
      scan_start\<lparr>scParsed := [v]\<rparr>"
    by (simp add: scan_braces[OF assms(3)] close1)
  moreover have "foldl (scan_char B) (scan_start\<lparr>scParsed := [v]\<rparr>) post = scan_start\<lparr>scParsed := [v]\<rparr>"
    using assms(2) by (intro scan_idle) (simp_all add: scan_start_def)
  ultimately have "foldl (scan_char B) scan_start ((pre @ [CHR ''{'']) @ (inside @ [CHR ''}'']) @ post) =
      scan_start\<lparr>scParsed := [v]\<rparr>"
    by (simp only: foldl_append)
  then have "foldl (scan_char B) scan_start (pre @ (CHR ''{'' # inside @ [CHR ''}'']) @ post) =
      scan_start\<lparr>scParsed := [v]\<rparr>"
    by simp
  then show ?thesis unfolding embeddedObject_def by simp
qed

lemma trim_part: "\<exists>p q. s = p @ trim s @ q"
  by (metis trim_def trim_start_suffix rev_append rev_rev_ident append.assoc)

lemma fenced_block_part:
  assumes "fenced_block t = Some b"
  shows "\<exists>pre post. t = pre @ b @ post"
proof -
  define r where "r = drop 3 t"
  define x where "x = (if map lower_char (take 4 r) = ''json'' then drop 4 r else r)"
  define body where "body = trim_start x"
  have b: "b = trim (take (length body - 3) body)"
    using assms by (simp add: fenced_block_def Let_def r_def x_def body_def split: if_splits)
  obtain p q where 1: "take (length body - 3) body = p @ b @ q" using trim_part b by blast
  have 2: "body = take (length body - 3) body @ drop (length body - 3) body" by simp
  obtain p2 where 3: "x = p2 @ body" using trim_start_suffix body_def by blast
  have "r = (if map lower_char (take 4 r) = ''json'' then take 4 r else []) @ x"
    by (simp add: x_def)
  then obtain p3 where 4: "r = p3 @ x" by blast
  have 5: "t = take 3 t @ r" by (simp add: r_def)
  have "t = (take 3 t @ p3 @ p2 @ p) @ b @ (q @ drop (length body - 3) body)"
    using 1 2 3 4 5 by (metis append.assoc)
  then show ?thesis by blast
qed

text \<open>
  Extraction is from the text. Whatever \<open>parseWorkerObject\<close> accepts is an object
  that \<open>JSON.parse\<close> read from a contiguous part of the trimmed output, and outputs longer
  than the limit are rejected.
\<close>

theorem worker_object_from_text:
  assumes "parseWorkerObject B t = Inr v"
  shows "length t \<le> MAX_WORKER_OUTPUT \<and> is_record v \<and> parsed_part B (trim t) v"
proof -
  define candidate where
    "candidate = (case fenced_block (trim t) of Some b \<Rightarrow> b | None \<Rightarrow> trim t)"
  from assms have v: "length t \<le> MAX_WORKER_OUTPUT" "is_record v"
    "(case json_parse B candidate of Some v \<Rightarrow> Inr v | None \<Rightarrow> embeddedObject B (trim t)) = Inr v"
    by (auto simp: parseWorkerObject_def Let_def result_simps recordValue_def candidate_def
        split: if_splits)
  have part: "\<exists>pre post. trim t = pre @ candidate @ post"
  proof (cases "fenced_block (trim t)")
    case None
    then show ?thesis by (metis append_Nil append_Nil2 candidate_def option.simps(4))
  next
    case (Some b)
    then show ?thesis using fenced_block_part by (simp add: candidate_def)
  qed
  have "list_all (parsed_part B (trim t)) (scParsed (foldl (scan_char B) scan_start (trim t)))"
    using scan_inv_foldl[OF scan_inv_start, of B "trim t"] by (simp add: scan_inv_def)
  with part v show ?thesis
    by (auto simp: parsed_part_def embeddedObject_def split: option.splits list.splits)
qed


text \<open>A host library for the witnesses: two texts parse, every other is a syntax error.\<close>

definition sample_builtins :: builtins where
  "sample_builtins = \<lparr>
     json_parse = (\<lambda>s. if s = [CHR ''{'', CHR 0x22, CHR ''}'', CHR 0x22, CHR '':'', CHR ''1'', CHR ''}'']
        then Some (JObj [(''}'', JNum (NInt 1))]) else if s = ''{}'' then Some (JObj []) else None),
     json_stringify = (\<lambda>_. ''{}''), sha256_hex = (\<lambda>s. s), locale_compare = (\<lambda>_ _. 0)\<rparr>"

theorem embedded_object_found_witness:
  "embeddedObject sample_builtins
     (''Result: '' @ (CHR ''{'' # [CHR 0x22, CHR ''}'', CHR 0x22, CHR '':'', CHR ''1''] @ [CHR ''}'']) @ '' ok}'')
   = Inr (JObj [(''}'', JNum (NInt 1))])"
proof (rule embedded_object_found)
  have "literal_text [CHR ''}'']" by (intro literal_text.intros) simp_all
  from br_literal[OF this, of "[CHR '':'', CHR ''1'']"]
  show "braces_text [CHR 0x22, CHR ''}'', CHR 0x22, CHR '':'', CHR ''1'']"
    by (simp add: braces_text.intros)
qed (simp_all add: sample_builtins_def)

theorem worker_object_from_text_witness:
  "parsed_part sample_builtins (trim '' found {} here '') (JObj [])"
proof -
  have "parseWorkerObject sample_builtins '' found {} here '' = Inr (JObj [])"
    by code_simp
  from worker_object_from_text[OF this] show ?thesis by simp
qed

text \<open>
  A parsed worker verification cannot contradict its own
  checks: it has between 1 and 32 checks and its verdict is their conjunction.
\<close>

theorem verification_verdict_is_conjunction:
  assumes "parseVerification B t = Inr r"
  shows "(vrPassed r \<longleftrightarrow> (\<forall>c \<in> set (vrChecks r). vcPassed c)) \<and>
    1 \<le> length (vrChecks r) \<and> length (vrChecks r) \<le> MAX_LIST"
proof -
  from assms obtain ob raw where r: "array (jget ob ''checks'') 1 MAX_LIST = Inr raw"
    "traverse parseVerificationCheck raw = Inr (vrChecks r)" "vrPassed r = list_all vcPassed (vrChecks r)"
    by (auto simp: parseVerification_def result_simps split: if_splits)
  from worker_arrays.arr_length[OF r(1)] traverse_length[OF r(2)] r(3)
  show ?thesis by (simp add: list_all_iff)
qed

definition verification_builtins :: builtins where
  "verification_builtins = sample_builtins\<lparr>json_parse := (\<lambda>_. Some (JObj [(''passed'', JBool False),
     (''summary'', JStr ''s''), (''checks'', JArr [JObj [(''name'', JStr ''n''),
       (''passed'', JBool False), (''evidence'', JStr ''e'')]])]))\<rparr>"

theorem verification_verdict_is_conjunction_witness:
  "\<exists>r. parseVerification verification_builtins ''v'' = Inr r \<and> \<not> vrPassed r \<and>
     (\<exists>c \<in> set (vrChecks r). \<not> vcPassed c)"
proof -
  let ?r = "\<lparr>vrPassed = False, vrSummary = ''s'',
    vrChecks = [\<lparr>vcName = ''n'', vcPassed = False, vcEvidence = ''e''\<rparr>]\<rparr>"
  have r: "parseVerification verification_builtins ''v'' = Inr ?r" by code_simp
  from verification_verdict_is_conjunction[OF r] r show ?thesis by auto
qed

text \<open>
  Discovery bounds. A parsed discovery result has 1 to 16 work items with distinct
  lexical identifiers and bounded non-empty texts, and 1 to 32 acceptance criteria.
\<close>

theorem discovery_is_bounded:
  assumes "parseDiscovery B t = Inr d"
  shows "1 \<le> length (drWorkItems d) \<and> length (drWorkItems d) \<le> MAX_WORK_ITEMS \<and>
    distinct (map wiId (drWorkItems d)) \<and> (\<forall>w \<in> set (drWorkItems d). wf_work_item w) \<and>
    1 \<le> length (drAcceptanceCriteria d) \<and> length (drAcceptanceCriteria d) \<le> MAX_LIST"
  using parseDiscovery_wf[OF assms] by (simp add: list_all_iff)

definition discovery_builtins :: builtins where
  "discovery_builtins = sample_builtins\<lparr>json_parse := (\<lambda>_. Some (JObj [(''workItems'',
     JArr [JObj [(''id'', JStr ''api''), (''title'', JStr ''API''), (''instruction'', JStr ''look'')]]),
     (''acceptanceCriteria'', JArr [JStr ''works''])]))\<rparr>"

theorem discovery_is_bounded_witness:
  "\<exists>d. parseDiscovery discovery_builtins ''v'' = Inr d \<and> distinct (map wiId (drWorkItems d)) \<and>
     wiId (hd (drWorkItems d)) = ''api''"
proof -
  let ?d = "\<lparr>drWorkItems = [\<lparr>wiId = ''api'', wiTitle = ''API'', wiInstruction = ''look''\<rparr>],
    drAcceptanceCriteria = [''works''], drExecutionPlan = None\<rparr>"
  have d: "parseDiscovery discovery_builtins ''v'' = Inr ?d" by code_simp
  from discovery_is_bounded[OF d] d show ?thesis by auto
qed

end
