(* ===== verification/Compiler.thy ===== *)
theory Compiler
  imports ExecutionPlan Parsers
begin

text \<open>
  \<open>src/src/workflow/compiler.ts\<close> (workflow input, pattern selection, iteration and recursion
  bounds, the discovery envelope, the aggregate plan) and \<open>src/src/workflow/discovery-worker.ts\<close>
  (one format-repair attempt around the discovery worker).
\<close>

definition MAX_OBJECTIVE_LENGTH :: nat where "MAX_OBJECTIVE_LENGTH = 12000"

definition INPUT_FIELDS :: "string list" where
  "INPUT_FIELDS = [''objective'', ''workflow'', ''maxIterations'', ''approval'']"

definition READ_ONLY_WORDS :: "string list" where
  "READ_ONLY_WORDS = [''review'', ''audit'', ''analyse'', ''analyze'', ''investigate'', ''explain'',
     ''research'', ''assess'', ''inspect'']"

definition MUTATION_WORDS :: "string list" where
  "MUTATION_WORDS = [''implement'', ''fix'', ''build'', ''create'', ''add'', ''update'', ''migrate'',
     ''refactor'', ''change'', ''write'', ''ship'']"

text \<open>\<open>/\b(w1|...|wn)\b/i.test(text)\<close>: some word of the list occurs between word boundaries.\<close>

definition is_word_char :: "char \<Rightarrow> bool" where
  "is_word_char c = (is_alnum_char c \<or> c = CHR ''_'')"

definition word_here :: "string \<Rightarrow> string \<Rightarrow> bool" where
  "word_here t w =
     (map lower_char (take (length w) t) = w \<and>
      (case drop (length w) t of [] \<Rightarrow> True | c # _ \<Rightarrow> \<not> is_word_char c))"

fun has_word :: "string list \<Rightarrow> bool \<Rightarrow> string \<Rightarrow> bool" where
  "has_word ws after_word [] = False"
| "has_word ws after_word (c # cs) =
     (\<not> after_word \<and> list_ex (word_here (c # cs)) ws \<or> has_word ws (is_word_char c) cs)"

section \<open>Workflow input\<close>

definition boundedText :: "js \<Rightarrow> nat \<Rightarrow> string result" where
  "boundedText v maxLength =
     (case v of
        JStr s \<Rightarrow>
          if trim s = [] then Inl InvalidWorkflowError
          else if maxLength < length (trim s) then Inl InvalidWorkflowError
          else Inr (trim s)
      | _ \<Rightarrow> Inl InvalidWorkflowError)"

definition parseRequest :: "js \<Rightarrow> workflowRequest option result" where
  "parseRequest v =
     (if v = JUndef then Inr None
      else if v = JStr ''auto'' then Inr (Some Auto)
      else if v = JStr ''delivery'' then Inr (Some (Requested Delivery))
      else if v = JStr ''review'' then Inr (Some (Requested Review))
      else Inl InvalidWorkflowError)"

definition parseApproval :: "js \<Rightarrow> approvalPolicy option result" where
  "parseApproval v =
     (if v = JUndef then Inr None
      else if v = JStr ''none'' then Inr (Some ApprovalNone)
      else if v = JStr ''before_changes'' then Inr (Some BeforeChanges)
      else Inl InvalidWorkflowError)"

definition parseMaxIterations :: "js \<Rightarrow> int option result" where
  "parseMaxIterations v =
     (case v of
        JUndef \<Rightarrow> Inr None
      | JNum (NInt i) \<Rightarrow>
          if i < 0 \<or> MAX_REPAIR_ITERATIONS < i then Inl InvalidWorkflowError else Inr (Some i)
      | _ \<Rightarrow> Inl InvalidWorkflowError)"

definition parseWorkflowInput :: "js \<Rightarrow> codingWorkflowInput result" where
  "parseWorkflowInput value =
     (if \<not> is_record value then Inl InvalidWorkflowError
      else if \<not> list_all (\<lambda>f. f \<in> set INPUT_FIELDS) (keys_of value) then Inl InvalidWorkflowError
      else
      sbind (boundedText (jget value ''objective'') MAX_OBJECTIVE_LENGTH) (\<lambda>obj.
      sbind (parseRequest (jget value ''workflow'')) (\<lambda>w.
      sbind (parseApproval (jget value ''approval'')) (\<lambda>a.
      sbind (parseMaxIterations (jget value ''maxIterations'')) (\<lambda>m.
      Inr \<lparr>inObjective = obj, inWorkflow = w, inMaxIterations = m, inApproval = a\<rparr>)))))"

definition selectPattern :: "string \<Rightarrow> workflowRequest \<Rightarrow> workflowPattern" where
  "selectPattern objective requested =
     (case requested of
        Requested p \<Rightarrow> p
      | Auto \<Rightarrow>
          if has_word READ_ONLY_WORDS False objective \<and> \<not> has_word MUTATION_WORDS False objective
          then Review else Delivery)"

definition workflowRecursionLimit :: "int \<Rightarrow> int" where
  "workflowRecursionLimit maxIterations = min 32 (12 + maxIterations * 4)"

definition compileWorkflow :: "js \<Rightarrow> compiledWorkflow result" where
  "compileWorkflow input =
     sbind (parseWorkflowInput input) (\<lambda>parsed.
     let pattern = selectPattern (inObjective parsed)
           (case inWorkflow parsed of None \<Rightarrow> Auto | Some w \<Rightarrow> w);
         maxIterations = (if pattern = Review then 0
           else (case inMaxIterations parsed of None \<Rightarrow> 2 | Some m \<Rightarrow> m))
     in Inr \<lparr>cwObjective = inObjective parsed, cwPattern = pattern, cwMaxIterations = maxIterations,
             cwRecursionLimit = workflowRecursionLimit maxIterations\<rparr>)"

section \<open>The aggregate plan\<close>

definition aggregateExecutionPlan :: "string \<Rightarrow> string \<Rightarrow> finding list \<Rightarrow> executionPlan" where
  "aggregateExecutionPlan threadId objective findings =
     (let fs = map feLocation (filter (\<lambda>e. feKind e = EvFile) (concat (map fiEvidence findings)));
          risks = concat (map fiRisks findings)
      in \<lparr>planId = take 128 (''plan-'' @ threadId), revision = 1,
          planChanges = [\<lparr>changeId = ''aggregate'', title = ''Aggregate implementation'',
            instruction = objective, dependsOn = [],
            scope = \<lparr>files = (if fs = [] then [''.''] else dedup fs)\<rparr>,
            risk = \<lparr>level = (if risks = [] then Low else High), reasons = dedup risks\<rparr>,
            acceptanceChecks = [\<lparr>script = ''test''\<rparr>], pcStatus = PlanPending\<rparr>]\<rparr>)"

definition isAggregatePlan :: "executionPlan \<Rightarrow> bool" where
  "isAggregatePlan plan =
     (case planChanges plan of
        [c] \<Rightarrow> changeId c = ''aggregate'' \<and> title c = ''Aggregate implementation''
      | _ \<Rightarrow> False)"

section \<open>The discovery envelope and its worker\<close>

record discoveryEnvelope =
  discoveryText :: string
  envPlan :: "executionPlan option"

text \<open>\<open>JSON.stringify\<close> omits the members of an object that are \<open>undefined\<close>.\<close>

definition defined_members :: "(string \<times> js) list \<Rightarrow> js" where
  "defined_members kvs = JObj (filter (\<lambda>(k, v). v \<noteq> JUndef) kvs)"

definition decodeDiscoveryEnvelope ::
  "builtins \<Rightarrow> string \<Rightarrow> executionPlan option \<Rightarrow> discoveryEnvelope result" where
  "decodeDiscoveryEnvelope B t previousPlan =
     sbind (parseWorkerObject B t) (\<lambda>value.
     if jget value ''executionPlan'' = JUndef
     then Inr \<lparr>discoveryText = json_stringify B value, envPlan = None\<rparr>
     else if \<not> list_all (\<lambda>f. f \<in> {''workItems'', ''acceptanceCriteria'', ''executionPlan''})
               (keys_of value) then Inl InvalidDiscoveryEnvelopeError
     else
     sbind (parseExecutionPlan (jget value ''executionPlan'')) (\<lambda>plan.
     sbind (case previousPlan of None \<Rightarrow> Inr plan
            | Some p \<Rightarrow> validatePlanTransition (plan_object p) (plan_object plan) False) (\<lambda>plan'.
     Inr \<lparr>discoveryText = json_stringify B (defined_members
            [(''workItems'', jget value ''workItems''),
             (''acceptanceCriteria'', jget value ''acceptanceCriteria'')]),
          envPlan = Some plan'\<rparr>)))"

definition parse_envelope ::
  "builtins \<Rightarrow> string \<Rightarrow> executionPlan option \<Rightarrow> (discoveryResult \<times> executionPlan option) result" where
  "parse_envelope B t previousPlan =
     sbind (decodeDiscoveryEnvelope B t previousPlan) (\<lambda>env.
     sbind (parseDiscovery B (discoveryText env)) (\<lambda>d. Inr (d, envPlan env)))"

definition isFormatError :: "error \<Rightarrow> bool" where
  "isFormatError e =
     (e = InvalidWorkerOutputError \<or> e = InvalidExecutionPlanError \<or> e = InvalidDiscoveryEnvelopeError)"

text \<open>
  \<open>executeDiscovery\<close>: the worker's two calls are its possible outcomes, the first text (or the
  error the executor threw) and, asked for only after a format error, the repaired text.
\<close>

definition executeDiscovery ::
  "builtins \<Rightarrow> string result \<Rightarrow> string result \<Rightarrow> executionPlan option \<Rightarrow>
   (discoveryResult \<times> executionPlan option) result" where
  "executeDiscovery B initial repaired previousPlan =
     sbind initial (\<lambda>t.
     case parse_envelope B t previousPlan of
       Inr r \<Rightarrow> Inr r
     | Inl e \<Rightarrow>
         if \<not> isFormatError e then Inl e
         else sbind repaired (\<lambda>t'. parse_envelope B t' previousPlan))"

interpretation workflow_texts: text_reader boundedText
  by unfold_locales (auto simp: boundedText_def split: js.splits)

section \<open>Compiled workflows\<close>

lemma parseMaxIterations_bounds:
  "parseMaxIterations v = Inr (Some m) \<Longrightarrow> 0 \<le> m \<and> m \<le> MAX_REPAIR_ITERATIONS"
  by (auto simp: parseMaxIterations_def split: js.splits jnum.splits if_splits)

lemma parseWorkflowInput_ok:
  "parseWorkflowInput v = Inr w \<Longrightarrow>
     inObjective w \<noteq> [] \<and> length (inObjective w) \<le> MAX_OBJECTIVE_LENGTH \<and>
     (case inMaxIterations w of None \<Rightarrow> True | Some m \<Rightarrow> 0 \<le> m \<and> m \<le> MAX_REPAIR_ITERATIONS)"
  by (auto simp: parseWorkflowInput_def result_simps split: if_splits option.splits
      dest: workflow_texts.read_bounds parseMaxIterations_bounds)

text \<open>
  Compiled bounds. A compiled workflow has a trimmed objective of at most 12000
  characters, between 0 and 5 repair iterations (0 for a review) and a recursion limit between
  12 and 32 fixed by the iterations alone; the caller's object can carry no other field.
\<close>

theorem compiled_workflow_bounds:
  assumes "compileWorkflow v = Inr c"
  shows "cwObjective c \<noteq> [] \<and> length (cwObjective c) \<le> MAX_OBJECTIVE_LENGTH \<and>
    0 \<le> cwMaxIterations c \<and> cwMaxIterations c \<le> 5 \<and>
    (cwPattern c = Review \<longrightarrow> cwMaxIterations c = 0) \<and>
    cwRecursionLimit c = 12 + 4 * cwMaxIterations c \<and>
    set (keys_of v) \<subseteq> {''objective'', ''workflow'', ''maxIterations'', ''approval''}"
proof -
  from assms obtain w where w: "parseWorkflowInput v = Inr w"
    and c: "cwObjective c = inObjective w" "cwMaxIterations c = (if cwPattern c = Review then 0
           else (case inMaxIterations w of None \<Rightarrow> 2 | Some m \<Rightarrow> m))"
      "cwRecursionLimit c = workflowRecursionLimit (cwMaxIterations c)"
    by (auto simp: compileWorkflow_def result_simps Let_def)
  have k: "set (keys_of v) \<subseteq> {''objective'', ''workflow'', ''maxIterations'', ''approval''}"
    using w by (auto simp: parseWorkflowInput_def INPUT_FIELDS_def list_all_iff split: if_splits)
  from parseWorkflowInput_ok[OF w] c have "0 \<le> cwMaxIterations c" "cwMaxIterations c \<le> 5"
    by (auto simp: MAX_REPAIR_ITERATIONS_def split: option.splits if_splits)
  with parseWorkflowInput_ok[OF w] c k show ?thesis
    by (simp add: workflowRecursionLimit_def)
qed

definition sample_input :: js where
  "sample_input = JObj [(''objective'', JStr '' Audit the login code ''), (''maxIterations'', JNum (NInt 4))]"

theorem compiled_workflow_bounds_witness:
  "\<exists>c. compileWorkflow sample_input = Inr c \<and> cwPattern c = Review \<and> cwMaxIterations c = 0"
proof -
  have "case compileWorkflow sample_input of Inl e \<Rightarrow> False | Inr c \<Rightarrow> cwPattern c = Review"
    by code_simp
  then obtain c where c: "compileWorkflow sample_input = Inr c" "cwPattern c = Review"
    by (auto split: sum.splits)
  from compiled_workflow_bounds[OF c(1)] c show ?thesis by simp
qed

section \<open>Words\<close>

definition word_occurs :: "string \<Rightarrow> string \<Rightarrow> bool" where
  "word_occurs w t \<longleftrightarrow>
     (\<exists>pre occ post. t = pre @ occ @ post \<and> map lower_char occ = w \<and>
        (pre = [] \<or> \<not> is_word_char (last pre)) \<and> (post = [] \<or> \<not> is_word_char (hd post)))"

lemma word_here_iff:
  "word_here t w \<longleftrightarrow>
     (\<exists>occ post. t = occ @ post \<and> map lower_char occ = w \<and> (post = [] \<or> \<not> is_word_char (hd post)))"
proof
  assume "word_here t w"
  then have "map lower_char (take (length w) t) = w \<and>
     (drop (length w) t = [] \<or> \<not> is_word_char (hd (drop (length w) t)))"
    by (auto simp: word_here_def split: list.splits)
  then show "\<exists>occ post. t = occ @ post \<and> map lower_char occ = w \<and> (post = [] \<or> \<not> is_word_char (hd post))"
    by (metis append_take_drop_id)
next
  assume "\<exists>occ post. t = occ @ post \<and> map lower_char occ = w \<and> (post = [] \<or> \<not> is_word_char (hd post))"
  then obtain occ post where t: "t = occ @ post" and w: "map lower_char occ = w"
    and p: "post = [] \<or> \<not> is_word_char (hd post)" by blast
  have "length w = length occ" using w by auto
  with t w p show "word_here t w" by (auto simp: word_here_def split: list.splits)
qed

lemma has_word_iff:
  assumes "\<forall>w \<in> set ws. w \<noteq> []"
  shows "has_word ws aft t \<longleftrightarrow>
     (\<exists>w \<in> set ws. \<exists>pre occ post. t = pre @ occ @ post \<and> map lower_char occ = w \<and>
        (if pre = [] then \<not> aft else \<not> is_word_char (last pre)) \<and>
        (post = [] \<or> \<not> is_word_char (hd post)))"
    (is "_ \<longleftrightarrow> (\<exists>w \<in> set ws. ?occ aft t w)")
proof (induction t arbitrary: aft)
  case Nil
  then show ?case using assms by auto
next
  case (Cons c cs)
  have step: "?occ aft (c # cs) w \<longleftrightarrow> \<not> aft \<and> word_here (c # cs) w \<or> ?occ (is_word_char c) cs w" (is "?l \<longleftrightarrow> ?r")
    if "w \<in> set ws" for w
  proof
    assume ?l
    then obtain pre occ post where o: "c # cs = pre @ occ @ post" "map lower_char occ = w"
      "if pre = [] then \<not> aft else \<not> is_word_char (last pre)" "post = [] \<or> \<not> is_word_char (hd post)"
      by blast
    show ?r
    proof (cases pre)
      case Nil
      with o show ?thesis unfolding word_here_iff by auto
    next
      case (Cons p ps)
      with o have "cs = ps @ occ @ post" "p = c" by auto
      moreover have "if ps = [] then \<not> is_word_char c else \<not> is_word_char (last ps)"
        using o(3) Cons \<open>p = c\<close> by (auto split: if_splits)
      ultimately show ?thesis using o(2,4) by blast
    qed
  next
    assume ?r
    then show ?l
    proof
      assume "\<not> aft \<and> word_here (c # cs) w"
      then show ?l unfolding word_here_iff by (metis append_Nil)
    next
      assume "?occ (is_word_char c) cs w"
      then obtain pre occ post where o: "cs = pre @ occ @ post" "map lower_char occ = w"
        "if pre = [] then \<not> is_word_char c else \<not> is_word_char (last pre)"
        "post = [] \<or> \<not> is_word_char (hd post)" by blast
      then have "c # cs = (c # pre) @ occ @ post" "\<not> is_word_char (last (c # pre))"
        by (auto split: if_splits)
      with o(2,4) show ?l by (metis list.distinct(1))
    qed
  qed
  have "has_word ws aft (c # cs) \<longleftrightarrow>
      \<not> aft \<and> (\<exists>w \<in> set ws. word_here (c # cs) w) \<or> (\<exists>w \<in> set ws. ?occ (is_word_char c) cs w)"
    by (simp add: list_ex_iff Cons.IH[of "is_word_char c"] del: split_paired_Ex)
  also have "\<dots> \<longleftrightarrow> (\<exists>w \<in> set ws. \<not> aft \<and> word_here (c # cs) w \<or> ?occ (is_word_char c) cs w)"
    by blast
  also have "\<dots> \<longleftrightarrow> (\<exists>w \<in> set ws. ?occ aft (c # cs) w)"
    by (rule bex_cong[OF refl]) (rule step[symmetric])
  finally show ?case .
qed

lemma has_word_occurs:
  "\<forall>w \<in> set ws. w \<noteq> [] \<Longrightarrow> has_word ws False t \<longleftrightarrow> (\<exists>w \<in> set ws. word_occurs w t)"
  unfolding has_word_iff word_occurs_def by (metis (full_types))

text \<open>
  An explicit workflow is taken as it is; otherwise a workflow is
  read-only exactly when a review word occurs in the objective as a whole word, in any case,
  and no mutation word does.
\<close>

theorem review_selected_iff:
  "selectPattern objective requested = Review \<longleftrightarrow>
     requested = Requested Review \<or>
     requested = Auto \<and> (\<exists>w \<in> set READ_ONLY_WORDS. word_occurs w objective) \<and>
       \<not> (\<exists>w \<in> set MUTATION_WORDS. word_occurs w objective)"
proof -
  have "\<forall>w \<in> set READ_ONLY_WORDS. w \<noteq> []" "\<forall>w \<in> set MUTATION_WORDS. w \<noteq> []"
    by (simp_all add: READ_ONLY_WORDS_def MUTATION_WORDS_def)
  from this[THEN has_word_occurs] show ?thesis
    by (cases requested) (auto simp: selectPattern_def)
qed

section \<open>Aggregate plans\<close>

lemma aggregate_is_aggregate: "isAggregatePlan (aggregateExecutionPlan tid objective fs)"
  by (simp add: aggregateExecutionPlan_def isAggregatePlan_def Let_def)

lemma aggregate_changes:
  "\<exists>c. planChanges (aggregateExecutionPlan tid objective fs) = [c] \<and> changeId c = ''aggregate'' \<and>
     dependsOn c = [] \<and> instruction c = objective"
  by (simp add: aggregateExecutionPlan_def Let_def)

section \<open>Discovery\<close>

lemma executeDiscovery_cases:
  assumes "executeDiscovery B initial repaired prev = Inr r"
  obtains t where "initial = Inr t" "parse_envelope B t prev = Inr r"
  | t e t' where "initial = Inr t" "parse_envelope B t prev = Inl e" "isFormatError e"
      "repaired = Inr t'" "parse_envelope B t' prev = Inr r"
proof -
  from assms obtain t where t: "initial = Inr t"
    by (auto simp: executeDiscovery_def result_simps)
  show thesis
  proof (cases "parse_envelope B t prev")
    case (Inl e)
    with assms t that(2)[OF t Inl] show thesis
      by (cases "isFormatError e"; cases repaired) (simp_all add: executeDiscovery_def sbind_def)
  next
    case (Inr r')
    with assms t that(1)[OF t] show thesis by (simp add: executeDiscovery_def sbind_def)
  qed
qed

lemma parse_envelope_bounded:
  assumes "parse_envelope B t prev = Inr (d, p)"
  shows "1 \<le> length (drWorkItems d) \<and> length (drWorkItems d) \<le> MAX_WORK_ITEMS \<and>
    distinct (map wiId (drWorkItems d)) \<and> (case p of None \<Rightarrow> True | Some plan \<Rightarrow> wf_plan plan)"
proof -
  from assms obtain env where env: "decodeDiscoveryEnvelope B t prev = Inr env"
    "parseDiscovery B (discoveryText env) = Inr d" "p = envPlan env"
    by (auto simp: parse_envelope_def result_simps)
  have transition_wf: "wf_plan n" if "validatePlanTransition a b f = Inr n" for a b f n
    using that by (auto simp: validatePlanTransition_def result_simps parseExecutionPlan_wf
        split: if_splits)
  have "wf_plan plan" if p: "envPlan env = Some plan" for plan
  proof -
    from env(1) p show ?thesis
      by (cases prev)
        (auto simp: decodeDiscoveryEnvelope_def result_simps split: if_splits
          dest: parseExecutionPlan_wf transition_wf)
  qed
  then have "case envPlan env of None \<Rightarrow> True | Some plan \<Rightarrow> wf_plan plan"
    by (simp split: option.splits)
  with parseDiscovery_wf[OF env(2)] env(3) show ?thesis by simp
qed

text \<open>
  Discovery results. Whatever the two calls of the discovery worker return or throw,
  an accepted discovery has 1 to 16 distinct work items and a supplied plan is well formed; the
  second call is consulted only when the first text had a format error.
\<close>

theorem discovery_result_bounded:
  assumes "executeDiscovery B initial repaired prev = Inr (d, p)"
  shows "1 \<le> length (drWorkItems d) \<and> length (drWorkItems d) \<le> MAX_WORK_ITEMS \<and>
    distinct (map wiId (drWorkItems d)) \<and> (case p of None \<Rightarrow> True | Some plan \<Rightarrow> wf_plan plan) \<and>
    (\<exists>t. initial = Inr t \<and>
      (parse_envelope B t prev = Inr (d, p) \<or>
       (\<exists>e. parse_envelope B t prev = Inl e \<and> isFormatError e)))"
proof -
  from assms show ?thesis
  proof (cases rule: executeDiscovery_cases)
    case (1 t)
    from parse_envelope_bounded[OF 1(2)] 1 show ?thesis by blast
  next
    case (2 t e t')
    from parse_envelope_bounded[OF 2(5)] 2 show ?thesis by blast
  qed
qed

theorem discovery_result_bounded_witness:
  "\<exists>d p. executeDiscovery discovery_builtins (Inr ''v'') (Inl InvalidWorkflowError) None = Inr (d, p) \<and>
     distinct (map wiId (drWorkItems d))"
proof -
  let ?d = "\<lparr>drWorkItems = [\<lparr>wiId = ''api'', wiTitle = ''API'', wiInstruction = ''look''\<rparr>],
    drAcceptanceCriteria = [''works''], drExecutionPlan = None\<rparr>"
  have d: "executeDiscovery discovery_builtins (Inr ''v'') (Inl InvalidWorkflowError) None = Inr (?d, None)"
    by code_simp
  from discovery_result_bounded[OF d] d show ?thesis by blast
qed

end
