(* ===== verification/RiskPolicy.thy ===== *)
theory RiskPolicy
  imports ExecutionPlan
begin

text \<open>
  \<open>src/src/workflow/risk-policy.ts\<close>: when a planned change needs an approval, the binding of
  an approval to one thread, checkpoint, plan revision, change, attempt and scope, the parsers
  of decisions and interrupts, and the check that a decision matches the pending interrupt.
  The digest and the JSON printer are the members of \<open>builtins\<close>; the current LangGraph
  configuration is the value of its \<open>configurable\<close> object.
\<close>

definition MAX_SCOPE_FILES :: nat where "MAX_SCOPE_FILES = 64"
definition MAX_ALLOWED_SCRIPTS :: nat where "MAX_ALLOWED_SCRIPTS = 16"

definition REQUIRED_BINDING_FIELDS :: "string list" where
  "REQUIRED_BINDING_FIELDS = [''interruptId'', ''changeId'', ''planId'', ''revision'', ''attempt'',
     ''scope'', ''allowedScripts'']"

definition REQUIRED_DECISION_FIELDS :: "string list" where
  "REQUIRED_DECISION_FIELDS = REQUIRED_BINDING_FIELDS @ [''action'']"

definition OPTIONAL_BINDING_FIELDS :: "string list" where
  "OPTIONAL_BINDING_FIELDS = [''threadId'', ''checkpointId'']"

definition decision_error :: error where "decision_error = InvalidInterruptDecisionError"

section \<open>Tokens and the current configuration\<close>

definition optional_text :: "string option \<Rightarrow> js" where
  "optional_text s = (case s of None \<Rightarrow> JNull | Some t \<Rightarrow> JStr t)"

definition token_payload :: "'a interruptBinding_scheme \<Rightarrow> js" where
  "token_payload b = JArr [
     JStr ''scoped-interrupt-v1'', optional_text (ibThreadId b), optional_text (ibCheckpointId b),
     JStr (ibPlanId b), JNum (NInt (ibRevision b)), JStr (ibChangeId b), JNum (NInt (ibAttempt b)),
     JArr (map JStr (files (ibScope b))), JArr (map JStr (ibAllowedScripts b))]"

definition interruptToken :: "builtins \<Rightarrow> 'a interruptBinding_scheme \<Rightarrow> string" where
  "interruptToken B b = ''approval.'' @ sha256_hex B (json_stringify B (token_payload b))"

definition js_text :: "js \<Rightarrow> string option" where
  "js_text v = (case v of JStr s \<Rightarrow> Some s | _ \<Rightarrow> None)"

definition currentInterruptConfig :: "js \<Rightarrow> string option \<times> string option" where
  "currentInterruptConfig configurable =
     (let checkpointMap = (if is_record (jget configurable ''checkpoint_map'')
            then jget configurable ''checkpoint_map'' else JUndef);
          checkpointNamespace = (case js_text (jget configurable ''checkpoint_ns'') of
            Some s \<Rightarrow> s | None \<Rightarrow> []);
          mappedCheckpointId = jget checkpointMap checkpointNamespace;
          checkpointId = (case jget configurable ''checkpoint_id'' of
            JStr s \<Rightarrow> JStr s | _ \<Rightarrow> mappedCheckpointId)
      in (js_text (jget configurable ''thread_id''), js_text checkpointId))"

section \<open>Interrupts\<close>

definition interruptForChange ::
  "builtins \<Rightarrow> js \<Rightarrow> executionPlan \<Rightarrow> planChange \<Rightarrow> int \<Rightarrow> bool \<Rightarrow> scopedInterrupt option" where
  "interruptForChange B configurable plan change attempt approvalRequired =
     (if \<not> approvalRequired \<and> level (risk change) \<noteq> High then None
      else
        let current = currentInterruptConfig configurable;
            binding = \<lparr>ibInterruptId = [], ibChangeId = changeId change, ibPlanId = planId plan,
              ibRevision = revision plan, ibAttempt = attempt,
              ibScope = \<lparr>files = files (scope change)\<rparr>,
              ibAllowedScripts = map script (acceptanceChecks change),
              ibThreadId = fst current, ibCheckpointId = snd current,
              siReasons = (if reasons (risk change) \<noteq> [] then reasons (risk change)
                else [if approvalRequired then ''workflow requires approval before changes''
                      else ''high-risk planned change''])\<rparr>
        in Some (binding\<lparr>ibInterruptId := interruptToken B binding\<rparr>))"

definition rebindInterruptToCurrentConfig ::
  "builtins \<Rightarrow> js \<Rightarrow> scopedInterrupt \<Rightarrow> scopedInterrupt result" where
  "rebindInterruptToCurrentConfig B configurable i =
     (case currentInterruptConfig configurable of
        (None, _) \<Rightarrow> Inl decision_error
      | (Some threadId, checkpointId) \<Rightarrow>
          let binding = i\<lparr>ibThreadId := Some threadId, ibCheckpointId := checkpointId\<rparr>
          in Inr (binding\<lparr>ibInterruptId := interruptToken B binding\<rparr>))"

definition decisionForInterrupt :: "scopedInterrupt \<Rightarrow> decisionAction \<Rightarrow> interruptDecision" where
  "decisionForInterrupt i action =
     \<lparr>ibInterruptId = ibInterruptId i, ibChangeId = ibChangeId i, ibPlanId = ibPlanId i,
      ibRevision = ibRevision i, ibAttempt = ibAttempt i, ibScope = \<lparr>files = files (ibScope i)\<rparr>,
      ibAllowedScripts = ibAllowedScripts i, ibThreadId = ibThreadId i,
      ibCheckpointId = ibCheckpointId i, idAction = action\<rparr>"

section \<open>Parsing\<close>

definition risk_stringArray :: "js \<Rightarrow> nat \<Rightarrow> string list result" where
  "risk_stringArray v hi =
     (case v of
        JArr xs \<Rightarrow>
          if xs = [] \<or> hi < length xs \<or>
             \<not> list_all (\<lambda>x. case x of JStr s \<Rightarrow> s \<noteq> [] | _ \<Rightarrow> False) xs
          then Inl decision_error
          else Inr (map (\<lambda>x. case x of JStr s \<Rightarrow> s | _ \<Rightarrow> []) xs)
      | _ \<Rightarrow> Inl decision_error)"

definition optionalString :: "js \<Rightarrow> string option result" where
  "optionalString v =
     (case v of
        JUndef \<Rightarrow> Inr None
      | JStr s \<Rightarrow> if s = [] then Inl decision_error else Inr (Some s)
      | _ \<Rightarrow> Inl decision_error)"

definition positiveInteger :: "js \<Rightarrow> int result" where
  "positiveInteger v =
     (case v of
        JNum (NInt i) \<Rightarrow>
          if \<not> is_safe_integer (NInt i) \<or> i < 1 then Inl decision_error else Inr i
      | _ \<Rightarrow> Inl decision_error)"

definition risk_exactFields :: "js \<Rightarrow> string list \<Rightarrow> unit result" where
  "risk_exactFields v allowed =
     (if \<not> list_all (\<lambda>k. k \<in> set allowed) (keys_of v) then Inl decision_error
      else if list_ex (\<lambda>f. f \<notin> set (keys_of v)) REQUIRED_BINDING_FIELDS then Inl decision_error
      else Inr ())"

definition parseBinding :: "js \<Rightarrow> interruptBinding result" where
  "parseBinding value =
     (case (js_text (jget value ''interruptId''), js_text (jget value ''changeId''),
            js_text (jget value ''planId'')) of
        (Some iid, Some cid, Some pid) \<Rightarrow>
          if \<not> is_record value \<or> \<not> is_record (jget value ''scope'') then Inl decision_error
          else
          sbind (positiveInteger (jget value ''revision'')) (\<lambda>rev.
          sbind (positiveInteger (jget value ''attempt'')) (\<lambda>att.
          sbind (risk_stringArray (jget (jget value ''scope'') ''files'') MAX_SCOPE_FILES) (\<lambda>fs.
          sbind (risk_stringArray (jget value ''allowedScripts'') MAX_ALLOWED_SCRIPTS) (\<lambda>ss.
          sbind (optionalString (jget value ''threadId'')) (\<lambda>tid.
          sbind (optionalString (jget value ''checkpointId'')) (\<lambda>ckpt.
          Inr \<lparr>ibInterruptId = iid, ibChangeId = cid, ibPlanId = pid, ibRevision = rev,
               ibAttempt = att, ibScope = \<lparr>files = fs\<rparr>, ibAllowedScripts = ss,
               ibThreadId = tid, ibCheckpointId = ckpt\<rparr>))))))
      | _ \<Rightarrow> Inl decision_error)"

definition parseAction :: "js \<Rightarrow> decisionAction result" where
  "parseAction v =
     (if v = JStr ''approve'' then Inr Approve
      else if v = JStr ''reject'' then Inr Reject
      else Inl decision_error)"

definition parseInterruptDecision :: "js \<Rightarrow> interruptDecision result" where
  "parseInterruptDecision value =
     sbind (parseBinding value) (\<lambda>b.
     sbind (parseAction (jget value ''action'')) (\<lambda>act.
     sbind (risk_exactFields value (REQUIRED_DECISION_FIELDS @ OPTIONAL_BINDING_FIELDS)) (\<lambda>_.
     Inr (interruptBinding.extend b \<lparr>idAction = act\<rparr>))))"

definition parseReasons :: "js \<Rightarrow> string list result" where
  "parseReasons v =
     (case v of
        JArr xs \<Rightarrow>
          if xs = [] \<or> \<not> list_all (\<lambda>x. js_text x \<noteq> None) xs then Inl decision_error
          else Inr (map (\<lambda>x. case x of JStr s \<Rightarrow> s | _ \<Rightarrow> []) xs)
      | _ \<Rightarrow> Inl decision_error)"

definition parseScopedInterrupt :: "js \<Rightarrow> scopedInterrupt result" where
  "parseScopedInterrupt value =
     sbind (parseBinding value) (\<lambda>b.
     sbind (parseReasons (jget value ''reasons'')) (\<lambda>rs.
     sbind (risk_exactFields value
       (REQUIRED_BINDING_FIELDS @ [''reasons''] @ OPTIONAL_BINDING_FIELDS)) (\<lambda>_.
     Inr (interruptBinding.extend b \<lparr>siReasons = rs\<rparr>))))"

section \<open>Matching a decision with the pending interrupt\<close>

definition sameDecision :: "interruptDecision \<Rightarrow> interruptDecision \<Rightarrow> bool" where
  "sameDecision l r =
     (ibInterruptId l = ibInterruptId r \<and> ibChangeId l = ibChangeId r \<and>
      ibPlanId l = ibPlanId r \<and> ibRevision l = ibRevision r \<and> ibAttempt l = ibAttempt r \<and>
      ibThreadId l = ibThreadId r \<and> ibCheckpointId l = ibCheckpointId r \<and>
      files (ibScope l) = files (ibScope r) \<and> ibAllowedScripts l = ibAllowedScripts r)"

definition assertDecisionScope ::
  "builtins \<Rightarrow> interruptDecision \<Rightarrow> scopedInterrupt \<Rightarrow> unit result" where
  "assertDecisionScope B decision i =
     (let expected = decisionForInterrupt i (idAction decision);
          tokenIsValid = (ibInterruptId i = interruptToken B i)
      in if \<not> tokenIsValid \<or> \<not> sameDecision decision expected
         then Inl InterruptDecisionMismatchError else Inr ())"

section \<open>Decisions and interrupts as objects\<close>

text \<open>The object a decision or an interrupt is, as it is shown to the user and echoed back.\<close>

definition optional_member :: "string \<Rightarrow> string option \<Rightarrow> (string \<times> js) list" where
  "optional_member k v = (case v of None \<Rightarrow> [] | Some s \<Rightarrow> [(k, JStr s)])"

definition binding_members :: "'a interruptBinding_scheme \<Rightarrow> (string \<times> js) list" where
  "binding_members b =
     [(''interruptId'', JStr (ibInterruptId b)), (''changeId'', JStr (ibChangeId b)),
      (''planId'', JStr (ibPlanId b)), (''revision'', JNum (NInt (ibRevision b))),
      (''attempt'', JNum (NInt (ibAttempt b))),
      (''scope'', JObj [(''files'', JArr (map JStr (files (ibScope b))))]),
      (''allowedScripts'', JArr (map JStr (ibAllowedScripts b)))] @
     optional_member ''threadId'' (ibThreadId b) @
     optional_member ''checkpointId'' (ibCheckpointId b)"

definition action_text :: "decisionAction \<Rightarrow> string" where
  "action_text a = (case a of Approve \<Rightarrow> ''approve'' | Reject \<Rightarrow> ''reject'')"

definition decision_object :: "interruptDecision \<Rightarrow> js" where
  "decision_object d = JObj (binding_members d @ [(''action'', JStr (action_text (idAction d)))])"

definition interrupt_object :: "scopedInterrupt \<Rightarrow> js" where
  "interrupt_object i = JObj (binding_members i @ [(''reasons'', JArr (map JStr (siReasons i)))])"

definition wf_binding :: "'a interruptBinding_scheme \<Rightarrow> bool" where
  "wf_binding b \<longleftrightarrow>
     1 \<le> ibRevision b \<and> ibRevision b \<le> max_safe_integer \<and>
     1 \<le> ibAttempt b \<and> ibAttempt b \<le> max_safe_integer \<and>
     files (ibScope b) \<noteq> [] \<and> length (files (ibScope b)) \<le> MAX_SCOPE_FILES \<and>
     list_all (\<lambda>s. s \<noteq> []) (files (ibScope b)) \<and>
     ibAllowedScripts b \<noteq> [] \<and> length (ibAllowedScripts b) \<le> MAX_ALLOWED_SCRIPTS \<and>
     list_all (\<lambda>s. s \<noteq> []) (ibAllowedScripts b) \<and>
     ibThreadId b \<noteq> Some [] \<and> ibCheckpointId b \<noteq> Some []"

lemma optional_member_get [simp]:
  "map_of (optional_member k v) k' = (if k' = k then map_option JStr v else None)"
  by (cases v) (auto simp: optional_member_def)

lemma binding_get:
  fixes b :: "'a interruptBinding_scheme"
  assumes "fst ` set rest \<subseteq> {''action'', ''reasons''}"
  defines "v \<equiv> JObj (binding_members b @ rest)"
  shows "jget v ''interruptId'' = JStr (ibInterruptId b)"
    "jget v ''changeId'' = JStr (ibChangeId b)" "jget v ''planId'' = JStr (ibPlanId b)"
    "jget v ''revision'' = JNum (NInt (ibRevision b))" "jget v ''attempt'' = JNum (NInt (ibAttempt b))"
    "jget v ''scope'' = JObj [(''files'', JArr (map JStr (files (ibScope b))))]"
    "jget v ''allowedScripts'' = JArr (map JStr (ibAllowedScripts b))"
    "jget v ''threadId'' = (case ibThreadId b of None \<Rightarrow> JUndef | Some s \<Rightarrow> JStr s)"
    "jget v ''checkpointId'' = (case ibCheckpointId b of None \<Rightarrow> JUndef | Some s \<Rightarrow> JStr s)"
proof -
  have none: "map_of rest ''threadId'' = None" "map_of rest ''checkpointId'' = None"
    using assms(1) by (auto simp: map_of_eq_None_iff)
  show "jget v ''interruptId'' = JStr (ibInterruptId b)"
    "jget v ''changeId'' = JStr (ibChangeId b)" "jget v ''planId'' = JStr (ibPlanId b)"
    "jget v ''revision'' = JNum (NInt (ibRevision b))" "jget v ''attempt'' = JNum (NInt (ibAttempt b))"
    "jget v ''scope'' = JObj [(''files'', JArr (map JStr (files (ibScope b))))]"
    "jget v ''allowedScripts'' = JArr (map JStr (ibAllowedScripts b))"
    by (simp_all add: v_def binding_members_def jget_def)
  show "jget v ''threadId'' = (case ibThreadId b of None \<Rightarrow> JUndef | Some s \<Rightarrow> JStr s)"
    "jget v ''checkpointId'' = (case ibCheckpointId b of None \<Rightarrow> JUndef | Some s \<Rightarrow> JStr s)"
    by (simp_all add: v_def binding_members_def jget_def none map_add_def split: option.splits)
qed

lemma risk_stringArray_texts:
  "ss \<noteq> [] \<Longrightarrow> length ss \<le> n \<Longrightarrow> list_all (\<lambda>s. s \<noteq> []) ss \<Longrightarrow>
   risk_stringArray (JArr (map JStr ss)) n = Inr ss"
  by (auto simp: risk_stringArray_def list_all_iff comp_def)

lemma parseBinding_object:
  fixes b :: "'a interruptBinding_scheme"
  assumes "wf_binding b" and "fst ` set rest \<subseteq> {''action'', ''reasons''}"
  shows "parseBinding (JObj (binding_members b @ rest)) = Inr (interruptBinding.truncate b)"
proof -
  have pos: "positiveInteger (JNum (NInt i)) = Inr i" if "1 \<le> i" "i \<le> max_safe_integer" for i
    using that by (simp add: positiveInteger_def is_safe_integer_def max_safe_integer_def)
  have opt: "optionalString (case x of None \<Rightarrow> JUndef | Some s \<Rightarrow> JStr s) = Inr x"
    if "x \<noteq> Some []" for x
    using that by (auto simp: optionalString_def split: option.splits)
  note rd = risk_stringArray_texts[of "files (ibScope b)"] risk_stringArray_texts[of "ibAllowedScripts b"]
  have scope: "\<lparr>files = files (ibScope b)\<rparr> = ibScope b" by simp
  show ?thesis
    using assms(1) unfolding parseBinding_def binding_get[OF assms(2)] wf_binding_def
    by (simp add: js_text_def pos opt rd scope interruptBinding.truncate_def)
qed

lemma binding_keys:
  "set (map fst (binding_members b)) \<subseteq> set (REQUIRED_BINDING_FIELDS @ OPTIONAL_BINDING_FIELDS)"
  "set REQUIRED_BINDING_FIELDS \<subseteq> set (map fst (binding_members b))"
  by (auto simp: binding_members_def optional_member_def REQUIRED_BINDING_FIELDS_def
      OPTIONAL_BINDING_FIELDS_def split: option.splits)

lemma risk_exactFields_object:
  assumes "set (REQUIRED_BINDING_FIELDS @ OPTIONAL_BINDING_FIELDS) \<subseteq> set allowed" "k \<in> set allowed"
  shows "risk_exactFields (JObj (binding_members b @ [(k, v)])) allowed = Inr ()"
  using assms binding_keys[of b] by (auto simp: risk_exactFields_def list_all_iff list_ex_iff)

lemma decision_roundtrip:
  assumes "wf_binding d"
  shows "parseInterruptDecision (decision_object d) = Inr d"
proof -
  have r: "fst ` set [(''action'', JStr (action_text (idAction d)))] \<subseteq> {''action'', ''reasons''}" by simp
  have "jget (decision_object d) ''action'' = JStr (action_text (idAction d))"
    by (simp add: decision_object_def binding_members_def optional_member_def jget_def split: option.splits)
  moreover have "parseAction (JStr (action_text a)) = Inr a" for a
    by (cases a) (simp_all add: parseAction_def action_text_def)
  moreover have "risk_exactFields (decision_object d) (REQUIRED_DECISION_FIELDS @ OPTIONAL_BINDING_FIELDS) = Inr ()"
    unfolding decision_object_def
    by (rule risk_exactFields_object) (auto simp: REQUIRED_DECISION_FIELDS_def)
  ultimately show ?thesis
    using parseBinding_object[OF assms r]
    by (cases d) (simp add: parseInterruptDecision_def decision_object_def
        interruptBinding.truncate_def interruptBinding.extend_def)
qed

lemma interrupt_roundtrip:
  assumes "wf_binding i" and "siReasons i \<noteq> []"
  shows "parseScopedInterrupt (interrupt_object i) = Inr i"
proof -
  have r: "fst ` set [(''reasons'', JArr (map JStr (siReasons i)))] \<subseteq> {''action'', ''reasons''}" by simp
  have "jget (interrupt_object i) ''reasons'' = JArr (map JStr (siReasons i))"
    by (simp add: interrupt_object_def binding_members_def optional_member_def jget_def split: option.splits)
  moreover have "parseReasons (JArr (map JStr (siReasons i))) = Inr (siReasons i)"
    using assms(2) by (simp add: parseReasons_def js_text_def list_all_iff comp_def)
  moreover have "risk_exactFields (interrupt_object i)
      (REQUIRED_BINDING_FIELDS @ [''reasons''] @ OPTIONAL_BINDING_FIELDS) = Inr ()"
    unfolding interrupt_object_def by (rule risk_exactFields_object) auto
  ultimately show ?thesis
    using parseBinding_object[OF assms(1) r]
    by (cases i) (simp add: parseScopedInterrupt_def interrupt_object_def
        interruptBinding.truncate_def interruptBinding.extend_def)
qed

section \<open>Properties\<close>

lemma assertDecisionScope_iff:
  "assertDecisionScope B d i = Inr () \<longleftrightarrow>
     ibInterruptId i = interruptToken B i \<and>
     interruptBinding.truncate d = interruptBinding.truncate i"
  by (auto simp: assertDecisionScope_def sameDecision_def decisionForInterrupt_def Let_def
      interruptBinding.truncate_def)

text \<open>
  A decision is accepted for a pending interrupt exactly when the
  interrupt carries the token of its own fields and the decision repeats every one of them:
  identifier, change, plan, revision, attempt, file scope, allowed scripts, thread and
  checkpoint. In particular a decision bound to another plan revision, attempt, scope or
  thread is never accepted.
\<close>

theorem decision_accepted_iff_same_binding:
  "assertDecisionScope B d i = Inr () \<longleftrightarrow>
     ibInterruptId i = interruptToken B i \<and>
     interruptBinding.truncate d = interruptBinding.truncate i"
  by (rule assertDecisionScope_iff)

text \<open>
  Approval policy. A change needs an approval exactly when the workflow asks for one
  before changes or the change is of high risk, and then the interrupt is one that the
  decision built from it satisfies.
\<close>

theorem interrupt_raised_iff_risky:
  "(interruptForChange B cfg plan change attempt approvalRequired = None \<longleftrightarrow>
      \<not> approvalRequired \<and> level (risk change) \<noteq> High) \<and>
   (case interruptForChange B cfg plan change attempt approvalRequired of
      None \<Rightarrow> True
    | Some i \<Rightarrow> ibChangeId i = changeId change \<and> ibPlanId i = planId plan \<and>
        ibRevision i = revision plan \<and> ibAttempt i = attempt \<and> ibScope i = scope change \<and>
        siReasons i \<noteq> [] \<and>
        assertDecisionScope B (decisionForInterrupt i Approve) i = Inr ())"
  by (auto simp: interruptForChange_def Let_def assertDecisionScope_iff
      decisionForInterrupt_def interruptBinding.truncate_def interruptToken_def token_payload_def)

text \<open>
  Interrupts survive the boundary. For every change of a well-formed plan the
  interrupt raised for it, written as an object, is read back unchanged by
  \<open>parseScopedInterrupt\<close>, and so is the decision a user echoes back.
\<close>

theorem plan_interrupt_roundtrip:
  assumes "wf_plan plan" and "change \<in> set (planChanges plan)"
    and "1 \<le> attempt" and "attempt \<le> max_safe_integer"
    and "fst (currentInterruptConfig cfg) \<noteq> Some []" and "snd (currentInterruptConfig cfg) \<noteq> Some []"
    and "interruptForChange B cfg plan change attempt approvalRequired = Some i"
  shows "parseScopedInterrupt (interrupt_object i) = Inr i \<and>
    parseInterruptDecision (decision_object (decisionForInterrupt i act)) = Inr (decisionForInterrupt i act)"
proof -
  have c: "wf_change change" using assms(1,2) by (auto simp: wf_plan_def list_all_iff)
  then have files: "files (scope change) \<noteq> []" "length (files (scope change)) \<le> 64"
    "list_all (\<lambda>s. s \<noteq> []) (files (scope change))"
    and scripts: "acceptanceChecks change \<noteq> []" "length (acceptanceChecks change) \<le> 16"
    "list_all (\<lambda>s. s \<noteq> []) (map script (acceptanceChecks change))"
    by (auto simp: wf_change_def MAX_FILES_def MAX_CHECKS_def ok_text_def list_all_iff)
  have "wf_binding i" and "siReasons i \<noteq> []"
    using assms(1,3-7) files scripts
    by (auto simp: interruptForChange_def Let_def wf_binding_def wf_plan_def MAX_SCOPE_FILES_def
        MAX_ALLOWED_SCRIPTS_def split: if_splits)
  moreover from this(1) have "wf_binding (decisionForInterrupt i act)"
    by (simp add: wf_binding_def decisionForInterrupt_def)
  ultimately show ?thesis by (simp add: interrupt_roundtrip decision_roundtrip)
qed

theorem plan_interrupt_roundtrip_witness:
  "\<forall>B. \<exists>i. interruptForChange B (JObj [(''thread_id'', JStr ''t'')]) sample_plan
         (sample_change ''a'' []) 1 True = Some i \<and>
     parseScopedInterrupt (interrupt_object i) = Inr i"
proof
  fix B
  let ?c = "sample_change ''a'' []"
  let ?cfg = "JObj [(''thread_id'', JStr ''t'')]"
  have "case parseExecutionPlan (plan_object sample_plan) of Inl e \<Rightarrow> False | Inr p \<Rightarrow> p = sample_plan"
    by code_simp
  then have wf: "wf_plan sample_plan" by (auto split: sum.splits intro: parseExecutionPlan_wf)
  have mem: "?c \<in> set (planChanges sample_plan)" by (simp add: sample_plan_def)
  have cfg: "currentInterruptConfig ?cfg = (Some ''t'', None)"
    by (simp add: currentInterruptConfig_def Let_def js_text_def is_record_def jget_def)
  obtain i where i: "interruptForChange B ?cfg sample_plan ?c 1 True = Some i"
    by (auto simp: interruptForChange_def Let_def)
  from plan_interrupt_roundtrip[OF wf mem _ _ _ _ i] cfg i
  show "\<exists>i. interruptForChange B ?cfg sample_plan ?c 1 True = Some i \<and>
      parseScopedInterrupt (interrupt_object i) = Inr i"
    by (simp add: max_safe_integer_def)
qed

text \<open>
  Token scope. The interrupt identifier alone pins the approval: if the JSON printer
  and the digest do not collide on the two payloads, two bindings with the same token agree on
  thread, checkpoint, plan, revision, change, attempt, file scope and scripts.
\<close>

theorem token_pins_scope:
  assumes "interruptToken B a = interruptToken B b"
    and "sha256_hex B (json_stringify B (token_payload a)) = sha256_hex B (json_stringify B (token_payload b))
      \<Longrightarrow> json_stringify B (token_payload a) = json_stringify B (token_payload b)"
    and "json_stringify B (token_payload a) = json_stringify B (token_payload b)
      \<Longrightarrow> token_payload a = token_payload b"
  shows "ibThreadId a = ibThreadId b \<and> ibCheckpointId a = ibCheckpointId b \<and>
    ibPlanId a = ibPlanId b \<and> ibRevision a = ibRevision b \<and> ibChangeId a = ibChangeId b \<and>
    ibAttempt a = ibAttempt b \<and> files (ibScope a) = files (ibScope b) \<and>
    ibAllowedScripts a = ibAllowedScripts b"
proof -
  have opt: "optional_text x = optional_text y \<longleftrightarrow> x = y" for x y
    by (auto simp: optional_text_def split: option.splits)
  have "map JStr xs = map JStr ys \<longleftrightarrow> xs = ys" for xs ys
    by (simp add: inj_def inj_map_eq_map)
  then show ?thesis
    using assms by (simp add: interruptToken_def token_payload_def opt)
qed


definition sample_interrupt :: scopedInterrupt where
  "sample_interrupt = \<lparr>ibInterruptId = ''i'', ibChangeId = ''a'', ibPlanId = ''p'', ibRevision = 1,
     ibAttempt = 2, ibScope = \<lparr>files = [''src'']\<rparr>, ibAllowedScripts = [''test''],
     ibThreadId = Some ''t'', ibCheckpointId = None, siReasons = [''r'']\<rparr>"

theorem token_pins_scope_witness:
  "ibAttempt sample_interrupt = ibAttempt (decisionForInterrupt sample_interrupt Reject)"
proof -
  have p: "token_payload sample_interrupt = token_payload (decisionForInterrupt sample_interrupt Reject)"
    by (simp add: token_payload_def decisionForInterrupt_def)
  then have "interruptToken B sample_interrupt = interruptToken B (decisionForInterrupt sample_interrupt Reject)" for B
    by (simp add: interruptToken_def)
  from token_pins_scope[OF this] p show ?thesis by simp
qed

end
