(* ===== verification/MutationJournal.thy ===== *)
theory MutationJournal
  imports WorkflowTypes "HOL-Library.AList"
begin

text \<open>
  \<open>src/src/persistence/mutation-journal.ts\<close> (keys, claims, the in-memory journal), the journal of
  \<open>src/src/persistence/file-checkpoint-saver.ts\<close> (several processes sharing a directory under a
  file lock, each with its own cache), \<open>src/src/persistence/legacy-mutation-migration.ts\<close>, and
  \<open>executeMutation\<close> of \<open>src/src/workflow/graph.ts\<close>, the client. The locale
  \<open>mutation_journal\<close> is the contract between them: a mutation is invoked at most once.
\<close>

section \<open>Keys and claims\<close>

definition WORKSPACE_ID :: "string \<Rightarrow> bool" where
  "WORKSPACE_ID = lexical is_alnum_char (\<lambda>c. is_alnum_char c \<or> c \<in> {CHR ''.'', CHR ''_'', CHR ''-''}) 127"

definition JOURNAL_PLAN_ID :: "string \<Rightarrow> bool" where
  "JOURNAL_PLAN_ID = lexical is_alpha_char (\<lambda>c. is_alnum_char c \<or> c \<in> {CHR ''.'', CHR ''_'', CHR ''-''}) 127"

definition JOURNAL_CHANGE_ID :: "string \<Rightarrow> bool" where
  "JOURNAL_CHANGE_ID = lexical is_alpha_char (\<lambda>c. is_alnum_char c \<or> c \<in> {CHR ''_'', CHR ''-''}) 47"

definition kind_text :: "mutationKind \<Rightarrow> string" where
  "kind_text k = (case k of MImplement \<Rightarrow> ''implement'' | MRepair \<Rightarrow> ''repair'')"

definition identity_text :: "string \<Rightarrow> string \<Rightarrow> string \<Rightarrow> string" where
  "identity_text w p c = w @ [CHR 0x00] @ p @ [CHR 0x00] @ c"

definition is_count :: "int \<Rightarrow> bool" where
  "is_count i = (is_safe_integer (NInt i) \<and> 0 \<le> i)"

definition mutationKey :: "builtins \<Rightarrow> mutationOperation \<Rightarrow> string result" where
  "mutationKey B operation =
     (if \<not> is_count (moIteration operation) then Inl (PlainError ''mutation iteration'')
      else
      case (moWorkspaceId operation, moPlanId operation, moChangeId operation, moAttempt operation) of
        (None, None, None, None) \<Rightarrow>
          Inr (kind_text (moKind operation) @ '':'' @ int_text (moIteration operation))
      | (Some w, Some p, Some c, Some a) \<Rightarrow>
          if \<not> WORKSPACE_ID w then Inl (PlainError ''mutation workspaceId'')
          else if \<not> JOURNAL_PLAN_ID p then Inl (PlainError ''mutation planId'')
          else if \<not> JOURNAL_CHANGE_ID c then Inl (PlainError ''mutation changeId'')
          else if \<not> is_count a then Inl (PlainError ''mutation attempt'')
          else Inr (''v3:'' @ sha256_hex B (identity_text w p c) @ '':'' @
                 kind_text (moKind operation) @ '':'' @ int_text a)
      | _ \<Rightarrow> Inl (PlainError ''scoped mutation identity''))"

definition claimFromEntry :: "mutationEntry option \<Rightarrow> mutationClaim" where
  "claimFromEntry e =
     (case e of None \<Rightarrow> ClaimExecute
      | Some (EntryCompleted out) \<Rightarrow> ClaimReplay out
      | Some EntryStarted \<Rightarrow> ClaimIndeterminate)"

text \<open>A journal of a thread: a record of the code, whose members keep the order they were added in.\<close>

type_synonym entries = "(string \<times> mutationEntry) list"

definition entries_or_empty :: "entries option \<Rightarrow> entries" where
  "entries_or_empty es = (case es of None \<Rightarrow> [] | Some m \<Rightarrow> m)"

section \<open>The in-memory journal\<close>

type_synonym memoryJournal = "string \<rightharpoonup> entries"

definition memory_claimMutation ::
  "builtins \<Rightarrow> unit \<Rightarrow> memoryJournal \<Rightarrow> string \<Rightarrow> mutationOperation \<Rightarrow> mutationClaim result \<times> memoryJournal" where
  "memory_claimMutation B env j threadId operation =
     (let es = entries_or_empty (j threadId)
      in case mutationKey B operation of
           Inl e \<Rightarrow> (Inl e, j)
         | Inr key \<Rightarrow>
             let claim = claimFromEntry (map_of es key)
             in (Inr claim,
                 if claim = ClaimExecute then j(threadId \<mapsto> AList.update key EntryStarted es) else j))"

definition memory_completeMutation ::
  "builtins \<Rightarrow> unit \<Rightarrow> memoryJournal \<Rightarrow> string \<Rightarrow> mutationOperation \<Rightarrow> string \<Rightarrow> unit result \<times> memoryJournal" where
  "memory_completeMutation B env j threadId operation output =
     (case mutationKey B operation of
        Inl e \<Rightarrow> (Inl e, j)
      | Inr key \<Rightarrow>
          (case j threadId of
             None \<Rightarrow> (Inl (PlainError ''no active claim''), j)
           | Some es \<Rightarrow>
               if map_of es key \<noteq> Some EntryStarted then (Inl (PlainError ''no active claim''), j)
               else (Inr (), j(threadId \<mapsto> AList.update key (EntryCompleted output) es))))"

definition memory_deleteMutationThread :: "memoryJournal \<Rightarrow> string \<Rightarrow> memoryJournal" where
  "memory_deleteMutationThread j threadId = j(threadId := None)"

definition memory_entry :: "memoryJournal \<Rightarrow> string \<Rightarrow> string \<Rightarrow> mutationEntry option" where
  "memory_entry j threadId key = map_of (entries_or_empty (j threadId)) key"

section \<open>The journal of the checkpoint files\<close>

text \<open>
  A process keeps the checkpoints (\<open>fjBodies\<close>), the journal (\<open>fjMutations\<close>) and the
  fingerprint of the file it last read or wrote; the disk is shared. \<open>env\<close> is the calling
  process and what the file system does: whether the file can be read, and whether the atomic
  write succeeds, fails, or fails after its rename.
\<close>

datatype writeOutcome = Written | NotWritten | WrittenUnsynced

record fileEnv =
  feProcess :: nat
  feReadable :: bool
  feWrite :: writeOutcome

type_synonym 'b threadFile = "'b option \<times> entries"

record ('b, 'f) fileJournal =
  fjDisk :: "string \<rightharpoonup> 'b threadFile"
  fjBodies :: "nat \<Rightarrow> string \<rightharpoonup> 'b"
  fjMutations :: "nat \<Rightarrow> string \<rightharpoonup> entries"
  fjPrints :: "nat \<Rightarrow> string \<rightharpoonup> 'f"

definition set_cache :: "nat \<Rightarrow> string \<Rightarrow> 'b option \<Rightarrow> entries option \<Rightarrow> 'f option \<Rightarrow>
  ('b, 'f) fileJournal \<Rightarrow> ('b, 'f) fileJournal" where
  "set_cache p t b es f j =
     j\<lparr>fjBodies := (fjBodies j)(p := (fjBodies j p)(t := b)),
       fjMutations := (fjMutations j)(p := (fjMutations j p)(t := es)),
       fjPrints := (fjPrints j)(p := (fjPrints j p)(t := f))\<rparr>"

definition refreshThread ::
  "('b threadFile \<Rightarrow> 'f) \<Rightarrow> fileEnv \<Rightarrow> string \<Rightarrow> ('b, 'f) fileJournal \<Rightarrow> unit result \<times> ('b, 'f) fileJournal" where
  "refreshThread fp env t j =
     (case fjDisk j t of
        None \<Rightarrow> (Inr (), set_cache (feProcess env) t None None None j)
      | Some (b, es) \<Rightarrow>
          if \<not> feReadable env then (Inl (PlainError ''checkpoint file''), j)
          else if fjPrints j (feProcess env) t \<noteq> Some (fp (b, es))
          then (Inr (), set_cache (feProcess env) t b (Some es) (Some (fp (b, es))) j)
          else (Inr (), j))"

definition persistThread ::
  "('b threadFile \<Rightarrow> 'f) \<Rightarrow> fileEnv \<Rightarrow> string \<Rightarrow> ('b, 'f) fileJournal \<Rightarrow> unit result \<times> ('b, 'f) fileJournal" where
  "persistThread fp env t j =
     (let p = feProcess env;
          file = (fjBodies j p t, entries_or_empty (fjMutations j p t))
      in case feWrite env of
           NotWritten \<Rightarrow> (Inl (PlainError ''checkpoint write''), j)
         | WrittenUnsynced \<Rightarrow>
             (Inl (PlainError ''checkpoint write''), j\<lparr>fjDisk := (fjDisk j)(t \<mapsto> file)\<rparr>)
         | Written \<Rightarrow>
             (Inr (), j\<lparr>fjDisk := (fjDisk j)(t \<mapsto> file),
                       fjPrints := (fjPrints j)(p := (fjPrints j p)(t \<mapsto> fp file))\<rparr>))"

definition set_mutations :: "nat \<Rightarrow> string \<Rightarrow> entries option \<Rightarrow> ('b, 'f) fileJournal \<Rightarrow> ('b, 'f) fileJournal" where
  "set_mutations p t es j = j\<lparr>fjMutations := (fjMutations j)(p := (fjMutations j p)(t := es))\<rparr>"

definition file_claimMutation ::
  "('b threadFile \<Rightarrow> 'f) \<Rightarrow> builtins \<Rightarrow> fileEnv \<Rightarrow> ('b, 'f) fileJournal \<Rightarrow> string \<Rightarrow> mutationOperation \<Rightarrow>
   mutationClaim result \<times> ('b, 'f) fileJournal" where
  "file_claimMutation fp B env j0 t operation =
     (case refreshThread fp env t j0 of
        (Inl e, j) \<Rightarrow> (Inl e, j)
      | (Inr u, j) \<Rightarrow>
         (let p = feProcess env; es = entries_or_empty (fjMutations j p t)
          in case mutationKey B operation of
               Inl e \<Rightarrow> (Inl e, j)
             | Inr key \<Rightarrow>
                 (let claim = claimFromEntry (map_of es key)
                  in if claim \<noteq> ClaimExecute then (Inr claim, j)
                     else case persistThread fp env t (set_mutations p t (Some (AList.update key EntryStarted es)) j) of
                            (Inr u, j') \<Rightarrow> (Inr claim, j')
                          | (Inl e, j') \<Rightarrow>
                              (Inl e, set_mutations p t
                                 (if AList.delete key es = [] then None else Some (AList.delete key es)) j'))))"

definition file_completeMutation ::
  "('b threadFile \<Rightarrow> 'f) \<Rightarrow> builtins \<Rightarrow> fileEnv \<Rightarrow> ('b, 'f) fileJournal \<Rightarrow> string \<Rightarrow> mutationOperation \<Rightarrow> string \<Rightarrow>
   unit result \<times> ('b, 'f) fileJournal" where
  "file_completeMutation fp B env j0 t operation output =
     (case refreshThread fp env t j0 of
        (Inl e, j) \<Rightarrow> (Inl e, j)
      | (Inr u, j) \<Rightarrow>
         (case mutationKey B operation of
            Inl e \<Rightarrow> (Inl e, j)
          | Inr key \<Rightarrow>
             (let p = feProcess env
              in case fjMutations j p t of
                   None \<Rightarrow> (Inl (PlainError ''no active claim''), j)
                 | Some es \<Rightarrow>
                     if map_of es key \<noteq> Some EntryStarted then (Inl (PlainError ''no active claim''), j)
                     else case persistThread fp env t
                                 (set_mutations p t (Some (AList.update key (EntryCompleted output) es)) j) of
                            (Inr u, j') \<Rightarrow> (Inr (), j')
                          | (Inl e, j') \<Rightarrow>
                              (Inl e, set_mutations p t (Some (AList.update key EntryStarted es)) j'))))"

definition file_entry :: "('b, 'f) fileJournal \<Rightarrow> string \<Rightarrow> string \<Rightarrow> mutationEntry option" where
  "file_entry j t key = (case fjDisk j t of None \<Rightarrow> None | Some (b, es) \<Rightarrow> map_of es key)"

text \<open>A fingerprint stands for the file it was computed from: the cache of its thread holds that file.\<close>

definition file_inv :: "('b threadFile \<Rightarrow> 'f) \<Rightarrow> ('b, 'f) fileJournal \<Rightarrow> bool" where
  "file_inv fp j \<longleftrightarrow>
     (\<forall>p t f. fjPrints j p t = Some f \<longrightarrow>
        (\<forall>file. f = fp file \<longrightarrow>
           fst file = fjBodies j p t \<and> snd file = entries_or_empty (fjMutations j p t)))"

section \<open>The client\<close>

text \<open>What a worker does after it was asked: return a text, throw, or die with its process.\<close>

datatype workerOutcome = Returned string | Threw error | Died

text \<open>
  \<open>executeMutation\<close>: the result (\<open>None\<close> when the process died), the journal, and
  whether the worker was invoked.
\<close>

definition executeMutation ::
  "('e \<Rightarrow> 'j \<Rightarrow> string \<Rightarrow> mutationOperation \<Rightarrow> mutationClaim result \<times> 'j) \<Rightarrow>
   ('e \<Rightarrow> 'j \<Rightarrow> string \<Rightarrow> mutationOperation \<Rightarrow> string \<Rightarrow> unit result \<times> 'j) \<Rightarrow>
   'e \<Rightarrow> 'e \<Rightarrow> 'j \<Rightarrow> string \<Rightarrow> mutationOperation \<Rightarrow> workerOutcome \<Rightarrow>
   mutationExecution result option \<times> 'j \<times> bool" where
  "executeMutation claim complete env env' j t operation worker =
     (case claim env j t operation of
        (Inl e, j') \<Rightarrow> (Some (Inl e), j', False)
      | (Inr ClaimIndeterminate, j') \<Rightarrow> (Some (Inr MutationIndeterminate), j', False)
      | (Inr (ClaimReplay out), j') \<Rightarrow> (Some (Inr (MutationCompleted out)), j', False)
      | (Inr ClaimExecute, j') \<Rightarrow>
          (case worker of
             Died \<Rightarrow> (None, j', True)
           | Threw e \<Rightarrow> (Some (Inl e), j', True)
           | Returned out \<Rightarrow>
               (case complete env' j' t operation out of
                  (Inl e, j'') \<Rightarrow> (Some (Inl e), j'', True)
                | (Inr u, j'') \<Rightarrow> (Some (Inr (MutationCompleted out)), j'', True))))"

text \<open>Any number of clients: their claims and completions in any order, with what was invoked.\<close>

datatype 'e journalEvent =
    Claims 'e string mutationOperation
  | Completes 'e string mutationOperation string

fun journal_run ::
  "('e \<Rightarrow> 'j \<Rightarrow> string \<Rightarrow> mutationOperation \<Rightarrow> mutationClaim result \<times> 'j) \<Rightarrow>
   ('e \<Rightarrow> 'j \<Rightarrow> string \<Rightarrow> mutationOperation \<Rightarrow> string \<Rightarrow> unit result \<times> 'j) \<Rightarrow>
   'e journalEvent list \<Rightarrow> 'j \<Rightarrow> 'j \<times> (string \<times> mutationOperation) list" where
  "journal_run claim complete [] j = (j, [])"
| "journal_run claim complete (Claims env t op # evs) j =
     (case claim env j t op of (r, j') \<Rightarrow>
        (case journal_run claim complete evs j' of (j'', ws) \<Rightarrow>
           (j'', (if r = Inr ClaimExecute then [(t, op)] else []) @ ws)))"
| "journal_run claim complete (Completes env t op out # evs) j =
     (case complete env j t op out of (r, j') \<Rightarrow> journal_run claim complete evs j')"

section \<open>Journals of the first file version\<close>

text \<open>
  The state of the latest root checkpoint decides which mutation may have been under way:
  \<open>states\<close> lists the checkpoint identifiers with their channel values, which the loader has
  validated (an iteration there is an integer).
\<close>

definition latest_state :: "(string \<times> js) list \<Rightarrow> js option" where
  "latest_state states =
     (case sort (map fst states) of [] \<Rightarrow> None | ids \<Rightarrow> map_last states (last ids))"

definition started_entry :: "builtins \<Rightarrow> mutationKind \<Rightarrow> int \<Rightarrow> entries result" where
  "started_entry B k i =
     sbind (mutationKey B \<lparr>moKind = k, moIteration = i, moWorkspaceId = None, moPlanId = None,
                          moChangeId = None, moAttempt = None\<rparr>)
       (\<lambda>key. Inr [(key, EntryStarted)])"

definition migrateLegacyMutationJournal :: "builtins \<Rightarrow> (string \<times> js) list \<Rightarrow> entries result" where
  "migrateLegacyMutationJournal B states =
     (case latest_state states of
        None \<Rightarrow> Inr []
      | Some st \<Rightarrow>
          if jget st ''pattern'' \<noteq> JStr ''delivery'' \<or> jget st ''status'' \<noteq> JStr ''running'' then Inr []
          else if jget st ''phase'' = JStr ''analyzed'' then started_entry B MImplement 0
          else if jget st ''phase'' = JStr ''diagnosed'' then
            (case (jget st ''iteration'', jget st ''maxIterations'') of
               (JNum (NInt i), JNum (NInt m)) \<Rightarrow>
                 if is_safe_integer (NInt i) \<and> i < m \<and> 0 \<le> i then started_entry B MRepair (i + 1)
                 else Inr []
             | _ \<Rightarrow> Inr [])
          else Inr [])"

section \<open>The contract of a journal\<close>

lemma claimFromEntry_eq [simp]:
  "claimFromEntry e = ClaimExecute \<longleftrightarrow> e = None"
  "claimFromEntry e = ClaimReplay out \<longleftrightarrow> e = Some (EntryCompleted out)"
  "claimFromEntry e = ClaimIndeterminate \<longleftrightarrow> e = Some EntryStarted"
  "ClaimExecute = claimFromEntry e \<longleftrightarrow> e = None"
  "ClaimReplay out = claimFromEntry e \<longleftrightarrow> e = Some (EntryCompleted out)"
  "ClaimIndeterminate = claimFromEntry e \<longleftrightarrow> e = Some EntryStarted"
  by (auto simp: claimFromEntry_def split: option.splits mutationEntry.splits)

text \<open>What a claim and a completion may do to the recorded entries, by thread and key.\<close>

type_synonym recorded = "string \<Rightarrow> string \<Rightarrow> mutationEntry option"

definition record_entry :: "recorded \<Rightarrow> string \<Rightarrow> string \<Rightarrow> mutationEntry \<Rightarrow> recorded" where
  "record_entry en t k e = en(t := (en t)(k := Some e))"

definition claim_effect ::
  "string result \<Rightarrow> string \<Rightarrow> mutationClaim result \<Rightarrow> recorded \<Rightarrow> recorded \<Rightarrow> bool" where
  "claim_effect key t r en en' \<longleftrightarrow>
     (case r of
        Inr c \<Rightarrow> (\<exists>k. key = Inr k \<and> c = claimFromEntry (en t k) \<and>
            en' = (if c = ClaimExecute then record_entry en t k EntryStarted else en))
      | Inl e \<Rightarrow> en' = en \<or>
            (\<exists>k. key = Inr k \<and> en t k = None \<and> en' = record_entry en t k EntryStarted))"

definition complete_effect ::
  "string result \<Rightarrow> string \<Rightarrow> string \<Rightarrow> unit result \<Rightarrow> recorded \<Rightarrow> recorded \<Rightarrow> bool" where
  "complete_effect key t out r en en' \<longleftrightarrow>
     (let done_to = (\<lambda>k. key = Inr k \<and> en t k = Some EntryStarted \<and>
            en' = record_entry en t k (EntryCompleted out))
      in case r of Inr u \<Rightarrow> (\<exists>k. done_to k) | Inl e \<Rightarrow> en' = en \<or> (\<exists>k. done_to k))"

definition evolves :: "recorded \<Rightarrow> recorded \<Rightarrow> bool" where
  "evolves en en' \<longleftrightarrow>
     (\<forall>t k. (en t k \<noteq> None \<longrightarrow> en' t k \<noteq> None) \<and>
        (\<forall>out. en t k = Some (EntryCompleted out) \<longrightarrow> en' t k = Some (EntryCompleted out)))"

lemma evolves_refl [simp]: "evolves en en"
  by (simp add: evolves_def)

lemma evolves_trans: "evolves a b \<Longrightarrow> evolves b c \<Longrightarrow> evolves a c"
  by (simp add: evolves_def)

lemma evolves_record:
  "en t k = None \<or> en t k = Some EntryStarted \<Longrightarrow> evolves en (record_entry en t k e)"
  if "e = EntryStarted \<or> (\<exists>out. e = EntryCompleted out)"
  by (auto simp: evolves_def record_entry_def)

lemma claim_effect_evolves: "claim_effect key t r en en' \<Longrightarrow> evolves en en'"
  by (auto simp: claim_effect_def intro!: evolves_record split: sum.splits if_splits)

lemma complete_effect_evolves: "complete_effect key t out r en en' \<Longrightarrow> evolves en en'"
  by (auto simp: complete_effect_def Let_def intro!: evolves_record split: sum.splits)

lemma claim_execute:
  assumes "claim_effect key t (Inr ClaimExecute) en en'"
  obtains k where "key = Inr k" "en t k = None" "en' t k = Some EntryStarted"
  using assms by (auto simp: claim_effect_def record_entry_def)

locale mutation_journal =
  fixes claim :: "'e \<Rightarrow> 'j \<Rightarrow> string \<Rightarrow> mutationOperation \<Rightarrow> mutationClaim result \<times> 'j"
    and complete :: "'e \<Rightarrow> 'j \<Rightarrow> string \<Rightarrow> mutationOperation \<Rightarrow> string \<Rightarrow> unit result \<times> 'j"
    and entry :: "'j \<Rightarrow> recorded"
    and valid :: "'j \<Rightarrow> bool"
    and key :: "mutationOperation \<Rightarrow> string result"
  assumes claim_law: "valid j \<Longrightarrow> claim env j t op = (r, j') \<Longrightarrow>
      valid j' \<and> claim_effect (key op) t r (entry j) (entry j')"
    and complete_law: "valid j \<Longrightarrow> complete env j t op out = (u, j') \<Longrightarrow>
      valid j' \<and> complete_effect (key op) t out u (entry j) (entry j')"
begin

lemma run_invariant:
  assumes "valid j" and "journal_run claim complete evs j = (j', ws)"
  shows "valid j' \<and> evolves (entry j) (entry j') \<and>
    distinct (map (\<lambda>(t, op). (t, key op)) ws) \<and>
    (\<forall>(t, op) \<in> set ws. \<exists>k. key op = Inr k \<and> entry j t k = None)"
  using assms
proof (induction evs arbitrary: j j' ws)
  case Nil
  then show ?case by simp
next
  case (Cons ev evs)
  show ?case
  proof (cases ev)
    case (Claims env t op)
    obtain r j1 where c: "claim env j t op = (r, j1)" by fastforce
    obtain j2 ws1 where run: "journal_run claim complete evs j1 = (j2, ws1)" by fastforce
    from Cons.prems(2) Claims c run have res: "j' = j2" "ws = (if r = Inr ClaimExecute then [(t, op)] else []) @ ws1"
      by auto
    from claim_law[OF Cons.prems(1) c] have v: "valid j1" and eff: "claim_effect (key op) t r (entry j) (entry j1)" by auto
    from Cons.IH[OF v run] have IH: "valid j2" "evolves (entry j1) (entry j2)"
      "distinct (map (\<lambda>(t, op). (t, key op)) ws1)"
      "\<forall>(t, op) \<in> set ws1. \<exists>k. key op = Inr k \<and> entry j1 t k = None" by auto
    have ev1: "evolves (entry j) (entry j1)" using eff by (rule claim_effect_evolves)
    have old: "\<forall>(t, op) \<in> set ws1. \<exists>k. key op = Inr k \<and> entry j t k = None"
      using IH(4) ev1 by (fastforce simp: evolves_def)
    show ?thesis
    proof (cases "r = Inr ClaimExecute")
      case True
      with eff obtain k where k: "key op = Inr k" "entry j t k = None" "entry j1 t k = Some EntryStarted"
        by (auto elim: claim_execute)
      have "(t, key op) \<notin> set (map (\<lambda>(t, op). (t, key op)) ws1)"
        using IH(4) k by fastforce
      with True res IH old k ev1 show ?thesis by (auto intro: evolves_trans)
    next
      case False
      with res IH old ev1 show ?thesis by (auto intro: evolves_trans)
    qed
  next
    case (Completes env t op out)
    obtain u j1 where c: "complete env j t op out = (u, j1)" by fastforce
    with Cons.prems(2) Completes have run: "journal_run claim complete evs j1 = (j', ws)" by simp
    from complete_law[OF Cons.prems(1) c] have v: "valid j1" and ev1: "evolves (entry j) (entry j1)"
      by (auto dest: complete_effect_evolves)
    from Cons.IH[OF v run] ev1 show ?thesis
      by (fastforce simp: evolves_def)
  qed
qed

lemma execute_invoked:
  assumes "valid j" and "executeMutation claim complete env env' j t op worker = (r, j', True)"
  shows "\<exists>k. key op = Inr k \<and> entry j t k = None \<and> valid j' \<and> entry j' t k \<noteq> None"
proof -
  from assms(2) obtain j1 where c: "claim env j t op = (Inr ClaimExecute, j1)"
    by (auto simp: executeMutation_def split: prod.splits sum.splits mutationClaim.splits)
  from claim_law[OF assms(1) c] obtain k where v: "valid j1"
    and k: "key op = Inr k" "entry j t k = None" "entry j1 t k = Some EntryStarted"
    by (auto elim: claim_execute)
  show ?thesis
  proof (cases worker)
    case (Returned out)
    obtain u j2 where c2: "complete env' j1 t op out = (u, j2)" by fastforce
    with assms(2) c Returned have "j' = j2" by (auto simp: executeMutation_def split: sum.splits)
    with complete_law[OF v c2] k show ?thesis
      by (auto dest!: complete_effect_evolves simp: evolves_def)
  qed (use assms(2) c v k in \<open>auto simp: executeMutation_def\<close>)
qed

lemma execute_completed:
  assumes "valid j" and "executeMutation claim complete env env' j t op worker = (Some (Inr (MutationCompleted out)), j', w)"
  shows "\<exists>k. key op = Inr k \<and> valid j' \<and> entry j' t k = Some (EntryCompleted out)"
proof -
  obtain r j1 where c: "claim env j t op = (r, j1)" by fastforce
  from claim_law[OF assms(1) c] have v: "valid j1" and eff: "claim_effect (key op) t r (entry j) (entry j1)" by auto
  show ?thesis
  proof (cases "r = Inr ClaimExecute")
    case True
    with assms(2) c have w: "worker = Returned out" "complete env' j1 t op out = (Inr (), j')"
      by (auto simp: executeMutation_def split: workerOutcome.splits prod.splits sum.splits)
    from complete_law[OF v w(2)] show ?thesis by (auto simp: complete_effect_def Let_def record_entry_def)
  next
    case False
    with assms(2) c have "r = Inr (ClaimReplay out)" "j' = j1"
      by (auto simp: executeMutation_def split: sum.splits mutationClaim.splits)
    with eff v show ?thesis
      by (auto simp: claim_effect_def)
  qed
qed

lemma execute_recorded:
  assumes "valid j" and "key op = Inr k" and "entry j t k = Some e"
    and "executeMutation claim complete env env' j t op worker = (r, j', w)"
  shows "\<not> w \<and> (case r of
      Some (Inl err) \<Rightarrow> True
    | Some (Inr x) \<Rightarrow> x = (case e of EntryStarted \<Rightarrow> MutationIndeterminate | EntryCompleted out \<Rightarrow> MutationCompleted out)
    | None \<Rightarrow> False)"
proof -
  obtain c j1 where cl: "claim env j t op = (c, j1)" by fastforce
  from claim_law[OF assms(1) cl] have "claim_effect (key op) t c (entry j) (entry j1)" by simp
  with assms(2-4) cl show ?thesis
    by (auto simp: executeMutation_def claim_effect_def claimFromEntry_def
        split: sum.splits mutationEntry.splits)
qed

end

lemma result_casesE: "(\<And>e. r = Inl e \<Longrightarrow> P) \<Longrightarrow> (\<And>x. r = Inr x \<Longrightarrow> P) \<Longrightarrow> P" for r :: "'a result"
  by (cases r) auto

section \<open>Both journals keep it\<close>

lemma memory_entry_upd:
  "memory_entry (j(t \<mapsto> AList.update k e (entries_or_empty (j t)))) = record_entry (memory_entry j) t k e"
  by (auto simp: memory_entry_def record_entry_def entries_or_empty_def update_conv' fun_eq_iff)

interpretation memory: mutation_journal
  "memory_claimMutation B" "memory_completeMutation B" memory_entry "\<lambda>j. True" "mutationKey B"
proof unfold_locales
  fix env j t op r j'
  assume "memory_claimMutation B env j t op = (r, j')"
  then show "True \<and> claim_effect (mutationKey B op) t r (memory_entry j) (memory_entry j')"
    by (cases "mutationKey B op")
      (auto simp: memory_claimMutation_def claim_effect_def Let_def memory_entry_upd
        memory_entry_def split: if_splits)
next
  fix env j t op out u j'
  assume "memory_completeMutation B env j t op out = (u, j')"
  then show "True \<and> complete_effect (mutationKey B op) t out u (memory_entry j) (memory_entry j')"
    using memory_entry_upd[of j t _ "EntryCompleted out"]
    by (cases "mutationKey B op"; cases "j t")
      (auto simp: memory_completeMutation_def complete_effect_def Let_def entries_or_empty_def
        memory_entry_def[of j t] split: if_splits)
qed

lemma refreshThread_law:
  assumes "inj fp" and "file_inv fp j" and "refreshThread fp env t j = (r, j')"
  shows "file_inv fp j' \<and> fjDisk j' = fjDisk j \<and>
    (r = Inr () \<longrightarrow> (case fjDisk j t of
        None \<Rightarrow> fjMutations j' (feProcess env) t = None
      | Some (b, es) \<Rightarrow> fjBodies j' (feProcess env) t = b \<and>
          entries_or_empty (fjMutations j' (feProcess env) t) = es))"
proof -
  have inv_set: "file_inv fp (set_cache p t b es f j)"
    if "\<forall>file. f = Some (fp file) \<longrightarrow> fst file = b \<and> snd file = entries_or_empty es" for p b es f
    using assms(2) that by (auto simp: file_inv_def set_cache_def)
  show ?thesis
  proof (cases "fjDisk j t")
    case None
    have "file_inv fp (set_cache (feProcess env) t None None None j)" by (rule inv_set) simp
    with assms None show ?thesis by (auto simp: refreshThread_def set_cache_def)
  next
    case (Some content)
    obtain b es where c: "content = (b, es)" by fastforce
    have "file_inv fp (set_cache (feProcess env) t b (Some es) (Some (fp (b, es))) j)"
      using assms(1) by (intro inv_set) (auto simp: inj_def entries_or_empty_def)
    moreover have "fjBodies j (feProcess env) t = b \<and> entries_or_empty (fjMutations j (feProcess env) t) = es"
      if "fjPrints j (feProcess env) t = Some (fp (b, es))"
      using assms(2) that unfolding file_inv_def by fastforce
    ultimately show ?thesis using assms Some c
      by (auto simp: refreshThread_def set_cache_def entries_or_empty_def split: if_splits)
  qed
qed

lemma persist_law:
  assumes "file_inv fp j" and "inj fp"
    and "persistThread fp env t (set_mutations (feProcess env) t (Some es') j) = (r, j')"
    and "entries_or_empty (fjMutations j (feProcess env) t) = entries_or_empty undo"
  shows "(case r of
      Inr u \<Rightarrow> file_inv fp j' \<and> fjDisk j' = (fjDisk j)(t \<mapsto> (fjBodies j (feProcess env) t, es'))
    | Inl e \<Rightarrow> file_inv fp (set_mutations (feProcess env) t undo j') \<and>
        (fjDisk j' = fjDisk j \<or> fjDisk j' = (fjDisk j)(t \<mapsto> (fjBodies j (feProcess env) t, es'))))"
  using assms
  by (auto simp: persistThread_def set_mutations_def file_inv_def Let_def entries_or_empty_def
      inj_eq[OF assms(2)] split: writeOutcome.splits)

lemma file_entry_upd:
  "file_entry (j\<lparr>fjDisk := (fjDisk i)(t \<mapsto> (b, es'))\<rparr>) = (file_entry i)(t := map_of es')"
  by (auto simp: file_entry_def fun_eq_iff)

lemma file_entry_disk: "fjDisk j' = fjDisk j \<Longrightarrow> file_entry j' = file_entry j"
  by (simp add: file_entry_def fun_eq_iff)

lemma file_entry_disk_upd:
  "fjDisk j' = (fjDisk j)(t \<mapsto> (b, es')) \<Longrightarrow> file_entry j' = (file_entry j)(t := map_of es')"
  by (auto simp: file_entry_def fun_eq_iff)

lemma file_entry_cached:
  assumes "case fjDisk j t of None \<Rightarrow> fjMutations j' p t = None
      | Some (b, es) \<Rightarrow> fjBodies j' p t = b \<and> entries_or_empty (fjMutations j' p t) = es"
  shows "file_entry j t = map_of (entries_or_empty (fjMutations j' p t))"
  using assms by (auto simp: file_entry_def fun_eq_iff entries_or_empty_def split: option.splits)

lemma set_mutations_disk [simp]: "fjDisk (set_mutations p t es j) = fjDisk j"
  by (simp add: set_mutations_def)

lemma set_mutations_entry [simp]: "file_entry (set_mutations p t es j) = file_entry j"
  by (simp add: file_entry_def fun_eq_iff)

lemma file_claim_law:
  assumes "inj fp" and "file_inv fp j0" and "file_claimMutation fp B env j0 t op = (r, j')"
  shows "file_inv fp j' \<and> claim_effect (mutationKey B op) t r (file_entry j0) (file_entry j')"
proof -
  let ?p = "feProcess env"
  obtain u j where refresh: "refreshThread fp env t j0 = (u, j)" by fastforce
  note rl = refreshThread_law[OF assms(1,2) refresh]
  from rl have inv: "file_inv fp j" and d: "fjDisk j = fjDisk j0" by simp_all
  from d have disk: "file_entry j = file_entry j0" by (rule file_entry_disk)
  show ?thesis
  proof (cases u)
    case (Inl e)
    then have "j' = j" "r = Inl e" using assms(3) refresh by (simp_all add: file_claimMutation_def)
    with inv disk show ?thesis by (simp add: claim_effect_def)
  next
    case (Inr v)
    then have r: "u = Inr ()" by simp
    define es where "es = entries_or_empty (fjMutations j ?p t)"
    from rl r have view: "file_entry j0 t = map_of es" unfolding es_def
      by (intro file_entry_cached) (auto split: option.splits)
    show ?thesis
    proof (cases "mutationKey B op")
      case (Inl e)
      then have "j' = j" "r = Inl e" using assms(3) refresh r by (simp_all add: file_claimMutation_def Let_def)
      with inv disk show ?thesis by (simp add: claim_effect_def)
    next
      case (Inr key)
      show ?thesis
      proof (cases "map_of es key")
        case (Some e)
        then have "j' = j" "r = Inr (claimFromEntry (map_of es key))"
          using assms(3) refresh r Inr by (simp_all add: file_claimMutation_def Let_def es_def[symmetric])
        with inv disk view Inr Some show ?thesis by (simp add: claim_effect_def)
      next
        case None
        let ?es' = "AList.update key EntryStarted es"
        let ?undo = "if AList.delete key es = [] then None else Some (AList.delete key es)"
        obtain q j2 where per: "persistThread fp env t (set_mutations ?p t (Some ?es') j) = (q, j2)" by fastforce
        have "AList.delete key es = es" using None by (simp add: map_of_eq_None_iff)
        then have backed: "entries_or_empty (fjMutations j ?p t) = entries_or_empty ?undo"
          by (auto simp: entries_or_empty_def es_def split: if_splits option.splits)
        have res: "(r, j') = (case q of Inr u \<Rightarrow> (Inr ClaimExecute, j2) | Inl e \<Rightarrow> (Inl e, set_mutations ?p t ?undo j2))"
          using assms(3) refresh r Inr None per
          by (auto simp: file_claimMutation_def Let_def es_def[symmetric] claimFromEntry_def split: sum.splits)
        have up: "(file_entry j0)(t := map_of ?es') = record_entry (file_entry j0) t key EntryStarted"
          by (simp add: record_entry_def update_conv' view)
        from persist_law[OF inv assms(1) per backed] res Inr None view disk show ?thesis
          by (cases q) (auto simp: claim_effect_def up dest!: file_entry_disk_upd file_entry_disk)
      qed
    qed
  qed
qed

lemma file_complete_law:
  assumes "inj fp" and "file_inv fp j0" and "file_completeMutation fp B env j0 t op out = (r, j')"
  shows "file_inv fp j' \<and> complete_effect (mutationKey B op) t out r (file_entry j0) (file_entry j')"
proof -
  let ?p = "feProcess env"
  obtain u j where refresh: "refreshThread fp env t j0 = (u, j)" by fastforce
  note rl = refreshThread_law[OF assms(1,2) refresh]
  from rl have inv: "file_inv fp j" and d: "fjDisk j = fjDisk j0" by simp_all
  from d have disk: "file_entry j = file_entry j0" by (rule file_entry_disk)
  show ?thesis
  proof (cases u)
    case (Inl e)
    then have "j' = j" "r = Inl e" using assms(3) refresh by (simp_all add: file_completeMutation_def)
    with inv disk show ?thesis by (simp add: complete_effect_def)
  next
    case (Inr v)
    then have r: "u = Inr ()" by simp
    from rl r have view: "file_entry j0 t = map_of (entries_or_empty (fjMutations j ?p t))"
      by (intro file_entry_cached) (auto split: option.splits)
    show ?thesis
    proof (cases "\<exists>key es. mutationKey B op = Inr key \<and> fjMutations j ?p t = Some es \<and> map_of es key = Some EntryStarted")
      case False
      then have "\<exists>e. (r, j') = (Inl e, j)"
        using assms(3) refresh r
        by (auto simp: file_completeMutation_def Let_def split: sum.splits option.splits if_splits)
      with inv disk show ?thesis by (auto simp: complete_effect_def)
    next
      case True
      then obtain key es where k: "mutationKey B op = Inr key" "fjMutations j ?p t = Some es"
        "map_of es key = Some EntryStarted" by blast
      let ?es' = "AList.update key (EntryCompleted out) es"
      let ?undo = "Some (AList.update key EntryStarted es)"
      obtain q j2 where per: "persistThread fp env t (set_mutations ?p t (Some ?es') j) = (q, j2)" by fastforce
      have backed: "entries_or_empty (fjMutations j ?p t) = entries_or_empty ?undo"
        using k by (simp add: entries_or_empty_def update_triv)
      have res: "(r, j') = (case q of Inr u \<Rightarrow> (Inr (), j2) | Inl e \<Rightarrow> (Inl e, set_mutations ?p t ?undo j2))"
        using assms(3) refresh r k per
        by (simp add: file_completeMutation_def Let_def split: sum.splits)
      have up: "(file_entry j0)(t := map_of ?es') = record_entry (file_entry j0) t key (EntryCompleted out)"
        using k by (simp add: record_entry_def update_conv' view entries_or_empty_def)
      have v: "file_entry j0 t key = Some EntryStarted" using view k by (simp add: entries_or_empty_def)
      from persist_law[OF inv assms(1) per backed] res k v disk show ?thesis
        by (cases q) (auto simp: complete_effect_def Let_def up dest!: file_entry_disk_upd file_entry_disk)
    qed
  qed
qed

text \<open>
  The file journal keeps the contract when fingerprints do not collide; the interpretation takes
  the files themselves as fingerprints.
\<close>

interpretation files: mutation_journal
  "file_claimMutation id B" "file_completeMutation id B" file_entry "file_inv id" "mutationKey B"
  by unfold_locales (auto dest: file_claim_law[OF inj_on_id] file_complete_law[OF inj_on_id])

lemma file_journal:
  "inj fp \<Longrightarrow> mutation_journal (file_claimMutation fp B) (file_completeMutation fp B) file_entry
     (file_inv fp) (mutationKey B)"
  by unfold_locales (auto dest: file_claim_law file_complete_law)

section \<open>Keys\<close>

lemma lexical_set: "lexical f r n s \<Longrightarrow> c \<in> set s \<Longrightarrow> f c \<or> r c"
  by (auto simp: lexical_def list_all_iff split: list.splits)

lemma alnum_not_NUL: "\<not> is_alnum_char (CHR 0x00)" "\<not> is_alpha_char (CHR 0x00)"
  by (simp_all add: is_alnum_char_def is_alpha_char_def is_digit_char_def code_def)

lemma identifiers_no_NUL:
  "WORKSPACE_ID w \<Longrightarrow> CHR 0x00 \<notin> set w"
  "JOURNAL_PLAN_ID p \<Longrightarrow> CHR 0x00 \<notin> set p"
  "JOURNAL_CHANGE_ID c \<Longrightarrow> CHR 0x00 \<notin> set c"
  by (auto simp: WORKSPACE_ID_def JOURNAL_PLAN_ID_def JOURNAL_CHANGE_ID_def alnum_not_NUL dest: lexical_set)

lemma identity_text_inject:
  assumes "identity_text w p c = identity_text w' p' c'"
    and "CHR 0x00 \<notin> set p" "CHR 0x00 \<notin> set c" "CHR 0x00 \<notin> set p'" "CHR 0x00 \<notin> set c'"
  shows "w = w' \<and> p = p' \<and> c = c'"
proof -
  have "(w @ CHR 0x00 # p) @ CHR 0x00 # c = (w' @ CHR 0x00 # p') @ CHR 0x00 # c'"
    using assms(1) by (simp add: identity_text_def)
  from last_separator[OF this assms(3,5)] have e: "w @ CHR 0x00 # p = w' @ CHR 0x00 # p'" and c: "c = c'" by auto
  from last_separator[OF e assms(2,4)] c show ?thesis by auto
qed

lemma int_text_no_colon: "0 \<le> i \<Longrightarrow> CHR '':'' \<notin> set (int_text i)"
  by (auto dest!: int_text_digits simp: is_digit_char_def code_def)

lemma kind_text_facts:
  "kind_text k = kind_text k' \<longleftrightarrow> k = k'" "CHR '':'' \<notin> set (kind_text k)"
  "\<exists>c cs. kind_text k = c # cs \<and> c \<noteq> CHR ''v''"
  by (cases k; cases k'; simp add: kind_text_def)+

definition identity_of :: "mutationOperation \<Rightarrow> string" where
  "identity_of op =
     (case (moWorkspaceId op, moPlanId op, moChangeId op) of
        (Some w, Some p, Some c) \<Rightarrow> identity_text w p c
      | _ \<Rightarrow> [])"

lemma mutationKey_cases:
  assumes "mutationKey B op = Inr k"
  obtains "moWorkspaceId op = None" "moPlanId op = None" "moChangeId op = None" "moAttempt op = None"
      "0 \<le> moIteration op" "k = kind_text (moKind op) @ '':'' @ int_text (moIteration op)"
  | w p c a where "moWorkspaceId op = Some w" "moPlanId op = Some p" "moChangeId op = Some c" "moAttempt op = Some a"
      "0 \<le> a" "WORKSPACE_ID w" "JOURNAL_PLAN_ID p" "JOURNAL_CHANGE_ID c"
      "k = (''v3:'' @ sha256_hex B (identity_of op) @ '':'' @ kind_text (moKind op)) @ CHR '':'' # int_text a"
  using assms
  by (cases "moWorkspaceId op"; cases "moPlanId op"; cases "moChangeId op"; cases "moAttempt op")
    (auto simp: mutationKey_def is_count_def identity_of_def split: if_splits)

text \<open>
  Two mutations share a journal key only when they are the same
  mutation: the same kind and, scoped, the same workspace, plan, change and attempt, or both
  unscoped with the same iteration, provided the digest does not collide on the two identities.
\<close>

theorem mutation_key_identifies:
  assumes "mutationKey B a = Inr k" and "mutationKey B b = Inr k"
    and "sha256_hex B (identity_of a) = sha256_hex B (identity_of b) \<Longrightarrow> identity_of a = identity_of b"
  shows "moKind a = moKind b \<and> moWorkspaceId a = moWorkspaceId b \<and> moPlanId a = moPlanId b \<and>
    moChangeId a = moChangeId b \<and> moAttempt a = moAttempt b \<and>
    (moAttempt a = None \<longrightarrow> moIteration a = moIteration b)"
  using assms(1)
proof (cases rule: mutationKey_cases)
  case A: 1
  from assms(2) show ?thesis
  proof (cases rule: mutationKey_cases)
    case 1
    with A have e: "kind_text (moKind a) @ CHR '':'' # int_text (moIteration a) =
        kind_text (moKind b) @ CHR '':'' # int_text (moIteration b)" by simp
    from last_separator[OF e int_text_no_colon[OF A(5)] int_text_no_colon[OF 1(5)]] A 1
    show ?thesis by (simp add: kind_text_facts int_text_inject)
  next
    case (2 w p c n)
    then show ?thesis using A(6) kind_text_facts(3)[of "moKind a"] by auto
  qed
next
  case A: (2 w p c n)
  from assms(2) show ?thesis
  proof (cases rule: mutationKey_cases)
    case 1
    then show ?thesis using A(9) kind_text_facts(3)[of "moKind b"] by auto
  next
    case (2 w' p' c' n')
    from A(9) 2(9) have e: "(''v3:'' @ sha256_hex B (identity_of a) @ '':'' @ kind_text (moKind a)) @ CHR '':'' # int_text n =
      (''v3:'' @ sha256_hex B (identity_of b) @ '':'' @ kind_text (moKind b)) @ CHR '':'' # int_text n'" by simp
    from last_separator[OF e int_text_no_colon[OF A(5)] int_text_no_colon[OF 2(5)]]
    have n: "n = n'" and e2: "(''v3:'' @ sha256_hex B (identity_of a)) @ CHR '':'' # kind_text (moKind a) =
      (''v3:'' @ sha256_hex B (identity_of b)) @ CHR '':'' # kind_text (moKind b)"
      using A(5) 2(5) by (simp_all add: int_text_inject)
    from last_separator[OF e2 kind_text_facts(2) kind_text_facts(2)]
    have kind: "moKind a = moKind b" and "identity_of a = identity_of b"
      using assms(3) by (simp_all add: kind_text_facts)
    then have "identity_text w p c = identity_text w' p' c'"
      using A(1-3) 2(1-3) by (simp add: identity_of_def)
    from identity_text_inject[OF this identifiers_no_NUL(2)[OF A(7)] identifiers_no_NUL(3)[OF A(8)]
        identifiers_no_NUL(2)[OF 2(7)] identifiers_no_NUL(3)[OF 2(8)]]
    show ?thesis using A 2 n kind by simp
  qed
qed

definition journal_builtins :: builtins where
  "journal_builtins = \<lparr>json_parse = \<lambda>t. None, json_stringify = \<lambda>v. [], sha256_hex = id,
     locale_compare = \<lambda>a b. 0\<rparr>"

definition sample_operation :: "int \<Rightarrow> mutationOperation" where
  "sample_operation i = \<lparr>moKind = MRepair, moIteration = i, moWorkspaceId = Some ''t'', moPlanId = Some ''p'',
     moChangeId = Some ''c'', moAttempt = Some 2\<rparr>"

theorem mutation_key_identifies_witness:
  "moKind (sample_operation 1) = moKind (sample_operation 5) \<and>
   moAttempt (sample_operation 1) = moAttempt (sample_operation 5)"
proof -
  let ?B = "journal_builtins"
  have "\<exists>k. mutationKey ?B (sample_operation 1) = Inr k \<and> mutationKey ?B (sample_operation 5) = Inr k"
    by (simp add: mutationKey_def sample_operation_def is_count_def is_safe_integer_def max_safe_integer_def
        WORKSPACE_ID_def JOURNAL_PLAN_ID_def JOURNAL_CHANGE_ID_def lexical_def is_alnum_char_def
        is_alpha_char_def code_def)
  then obtain k where k: "mutationKey ?B (sample_operation 1) = Inr k" "mutationKey ?B (sample_operation 5) = Inr k"
    by blast
  have i: "identity_of (sample_operation 1) = identity_of (sample_operation 5)"
    by (simp add: identity_of_def sample_operation_def)
  from mutation_key_identifies[OF k i] show ?thesis by simp
qed

section \<open>At most once\<close>

text \<open>
  Whatever claims and completions any number of processes sharing the
  checkpoint directory make, in any order, with reads and writes failing at any point, no
  mutation of a thread is ever handed to a worker twice.
\<close>

theorem mutations_at_most_once:
  assumes "inj fp" and "file_inv fp j"
    and "journal_run (file_claimMutation fp B) (file_completeMutation fp B) evs j = (j', ws)"
  shows "distinct (map (\<lambda>(t, op). (t, mutationKey B op)) ws)"
  using mutation_journal.run_invariant[OF file_journal[OF assms(1)] assms(2,3)] by blast

definition empty_file_journal :: "(unit, unit threadFile) fileJournal" where
  "empty_file_journal = \<lparr>fjDisk = Map.empty, fjBodies = \<lambda>p. Map.empty, fjMutations = \<lambda>p. Map.empty,
     fjPrints = \<lambda>p. Map.empty\<rparr>"

definition sample_env :: "nat \<Rightarrow> fileEnv" where
  "sample_env p = \<lparr>feProcess = p, feReadable = True, feWrite = Written\<rparr>"

lemma empty_file_inv [simp]: "file_inv fp empty_file_journal"
  by (simp add: file_inv_def empty_file_journal_def)

theorem mutations_at_most_once_witness:
  "\<exists>j' ws. journal_run (file_claimMutation id journal_builtins) (file_completeMutation id journal_builtins)
      [Claims (sample_env 0) ''t'' (sample_operation 1), Claims (sample_env 1) ''t'' (sample_operation 1)]
      empty_file_journal = (j', ws) \<and>
    distinct (map (\<lambda>(t, op). (t, mutationKey journal_builtins op)) ws)"
proof -
  obtain j' ws where run: "journal_run (file_claimMutation id journal_builtins)
      (file_completeMutation id journal_builtins)
      [Claims (sample_env 0) ''t'' (sample_operation 1), Claims (sample_env 1) ''t'' (sample_operation 1)]
      empty_file_journal = (j', ws)" by fastforce
  from mutations_at_most_once[OF inj_on_id empty_file_inv run] run show ?thesis by blast
qed

text \<open>
  Once \<open>executeMutation\<close> has invoked a worker, no later call with the same
  key invokes it again, whatever other processes did to the journal in between and wherever
  this one stopped; and when the first call returned an output, a later call that does not fail
  returns that output.
\<close>

theorem executed_mutation_replays:
  assumes "inj fp" and "file_inv fp j0"
    and first: "executeMutation (file_claimMutation fp B) (file_completeMutation fp B) e1 e2 j0 t op w = (r1, j1, True)"
    and between: "journal_run (file_claimMutation fp B) (file_completeMutation fp B) evs j1 = (j2, ws)"
    and key: "mutationKey B op' = mutationKey B op"
    and again: "executeMutation (file_claimMutation fp B) (file_completeMutation fp B) e3 e4 j2 t op' w' = (r2, j3, invoked)"
  shows "\<not> invoked \<and>
    (\<forall>out. r1 = Some (Inr (MutationCompleted out)) \<longrightarrow>
       (case r2 of Some (Inr x) \<Rightarrow> x = MutationCompleted out | Some (Inl e) \<Rightarrow> True | None \<Rightarrow> False))"
proof -
  note J = file_journal[OF assms(1), of B]
  from mutation_journal.execute_invoked[OF J assms(2) first] obtain k where k: "mutationKey B op = Inr k"
    "file_inv fp j1" "file_entry j1 t k \<noteq> None" by blast
  from mutation_journal.run_invariant[OF J k(2) between]
  have v2: "file_inv fp j2" and ev: "evolves (file_entry j1) (file_entry j2)" by auto
  from ev k(3) have "file_entry j2 t k \<noteq> None" unfolding evolves_def by blast
  then obtain e where e: "file_entry j2 t k = Some e" by blast
  have key': "mutationKey B op' = Inr k" using key k(1) by simp
  note rec = mutation_journal.execute_recorded[OF J v2 key' e again]
  have "e = EntryCompleted out" if "r1 = Some (Inr (MutationCompleted out))" for out
  proof -
    from mutation_journal.execute_completed[OF J assms(2)] first that k(1)
    have "file_entry j1 t k = Some (EntryCompleted out)" by fastforce
    with ev e show ?thesis by (auto simp: evolves_def)
  qed
  with rec show ?thesis by (fastforce split: option.splits sum.splits)
qed

theorem executed_mutation_replays_witness:
  "\<exists>j1. executeMutation (file_claimMutation id journal_builtins) (file_completeMutation id journal_builtins)
      (sample_env 0) (sample_env 0) empty_file_journal ''t'' (sample_operation 1) (Returned ''done'') =
      (Some (Inr (MutationCompleted ''done'')), j1, True) \<and>
    fst (executeMutation (file_claimMutation id journal_builtins) (file_completeMutation id journal_builtins)
      (sample_env 1) (sample_env 1) j1 ''t'' (sample_operation 1) (Returned ''again'')) =
      Some (Inr (MutationCompleted ''done'')) \<and>
    \<not> snd (snd (executeMutation (file_claimMutation id journal_builtins) (file_completeMutation id journal_builtins)
      (sample_env 1) (sample_env 1) j1 ''t'' (sample_operation 1) (Returned ''again'')))"
proof -
  let ?c = "file_claimMutation id journal_builtins :: fileEnv \<Rightarrow> (unit, unit threadFile) fileJournal \<Rightarrow> _"
  let ?d = "file_completeMutation id journal_builtins :: fileEnv \<Rightarrow> (unit, unit threadFile) fileJournal \<Rightarrow> _"
  let ?k = "''v3:'' @ identity_text ''t'' ''p'' ''c'' @ '':repair:2''"
  have key: "mutationKey journal_builtins (sample_operation 1) = Inr ?k"
    by code_simp
  note defs = executeMutation_def file_claimMutation_def file_completeMutation_def refreshThread_def
    persistThread_def set_mutations_def set_cache_def entries_or_empty_def claimFromEntry_def Let_def key
    sample_env_def
  obtain j1 where first: "executeMutation ?c ?d (sample_env 0) (sample_env 0) empty_file_journal ''t''
      (sample_operation 1) (Returned ''done'') = (Some (Inr (MutationCompleted ''done'')), j1, True)"
    and disk: "fjDisk j1 ''t'' = Some (None, [(?k, EntryCompleted ''done'')])"
    and fresh: "fjPrints j1 1 ''t'' = None"
    by (simp add: defs empty_file_journal_def)
  obtain r2 j3 invoked where again: "executeMutation ?c ?d (sample_env 1) (sample_env 1) j1 ''t''
      (sample_operation 1) (Returned ''again'') = (r2, j3, invoked)" by (metis prod_cases3)
  have none: "journal_run ?c ?d [] j1 = (j1, [])" by simp
  have ok: "\<exists>x. r2 = Some (Inr x)"
    using again disk fresh by (auto simp: defs split: if_splits)
  from executed_mutation_replays[OF inj_on_id empty_file_inv first none refl again] ok again first
  show ?thesis by auto
qed

section \<open>Migration\<close>

lemma migrated_claims_are_open:
  "migrateLegacyMutationJournal B states = Inr es \<Longrightarrow> length es \<le> 1 \<and> snd ` set es \<subseteq> {EntryStarted}"
  by (auto simp: migrateLegacyMutationJournal_def started_entry_def result_simps
      split: option.splits if_splits js.splits jnum.splits)

end
