(* ===== verification/Routing.thy ===== *)
theory Routing
  imports Compiler RiskPolicy
begin

text \<open>
  The state of the coding graph (\<open>src/src/workflow/workflow-state.ts\<close>) and its nodes that call
  no worker (\<open>src/src/workflow/routing-nodes.ts\<close>). A node returns the channel writes of its
  update; each channel's reducer says what a write does to the state.
\<close>

section \<open>Channels\<close>

record workflowState =
  wsObjective :: string
  wsPattern :: workflowPattern
  wsMaxIterations :: int
  wsApprovalRequired :: bool
  wsDiscoveryRound :: int
  wsWorkItems :: "workItem list"
  wsAcceptanceCriteria :: "string list"
  wsFindings :: "finding list"
  wsChanges :: "changeSet list"
  wsVerification :: "verificationResult option"
  wsDiagnostic :: "diagnosticResult option"
  wsCurrentWorkItem :: "workItem option"
  wsIteration :: int
  wsPhase :: workflowPhase
  wsStatus :: workflowStatus
  wsSummary :: string
  wsUnresolvedRisks :: "string list"
  wsTrace :: "traceEvent list"
  wsPlan :: "executionPlan option"
  wsChangeResults :: "changeResult list"
  wsEvidenceRefs :: "artifactRef list"
  wsInterrupt :: "scopedInterrupt option"

datatype channelWrite =
    WDiscoveryRound int | WWorkItems "workItem list" | WAcceptanceCriteria "string list"
  | WFindings "finding list" | WChanges "changeSet list" | WVerification "verificationResult option"
  | WDiagnostic "diagnosticResult option" | WIteration int | WPhase workflowPhase
  | WStatus workflowStatus | WSummary string | WUnresolvedRisks "string list"
  | WTrace "traceEvent list" | WPlan "executionPlan option" | WChangeResults "changeResult list"
  | WEvidenceRefs "artifactRef list" | WInterrupt "scopedInterrupt option"

text \<open>Findings, changes, risks, trace, change results and evidence append; other channels keep the last value.\<close>

fun apply_write :: "channelWrite \<Rightarrow> workflowState \<Rightarrow> workflowState" where
  "apply_write (WDiscoveryRound v) s = s\<lparr>wsDiscoveryRound := v\<rparr>"
| "apply_write (WWorkItems v) s = s\<lparr>wsWorkItems := v\<rparr>"
| "apply_write (WAcceptanceCriteria v) s = s\<lparr>wsAcceptanceCriteria := v\<rparr>"
| "apply_write (WFindings v) s = s\<lparr>wsFindings := wsFindings s @ v\<rparr>"
| "apply_write (WChanges v) s = s\<lparr>wsChanges := wsChanges s @ v\<rparr>"
| "apply_write (WVerification v) s = s\<lparr>wsVerification := v\<rparr>"
| "apply_write (WDiagnostic v) s = s\<lparr>wsDiagnostic := v\<rparr>"
| "apply_write (WIteration v) s = s\<lparr>wsIteration := v\<rparr>"
| "apply_write (WPhase v) s = s\<lparr>wsPhase := v\<rparr>"
| "apply_write (WStatus v) s = s\<lparr>wsStatus := v\<rparr>"
| "apply_write (WSummary v) s = s\<lparr>wsSummary := v\<rparr>"
| "apply_write (WUnresolvedRisks v) s = s\<lparr>wsUnresolvedRisks := wsUnresolvedRisks s @ v\<rparr>"
| "apply_write (WTrace v) s = s\<lparr>wsTrace := wsTrace s @ v\<rparr>"
| "apply_write (WPlan v) s = s\<lparr>wsPlan := v\<rparr>"
| "apply_write (WChangeResults v) s = s\<lparr>wsChangeResults := wsChangeResults s @ v\<rparr>"
| "apply_write (WEvidenceRefs v) s = s\<lparr>wsEvidenceRefs := wsEvidenceRefs s @ v\<rparr>"
| "apply_write (WInterrupt v) s = s\<lparr>wsInterrupt := v\<rparr>"

definition apply_writes :: "channelWrite list \<Rightarrow> workflowState \<Rightarrow> workflowState" where
  "apply_writes ws s = fold apply_write ws s"

lemma apply_writes_simps [simp]:
  "apply_writes [] s = s"
  "apply_writes (w # ws) s = apply_writes ws (apply_write w s)"
  "apply_writes (ws @ vs) s = apply_writes vs (apply_writes ws s)"
  by (simp_all add: apply_writes_def)

text \<open>The state the runtime starts a thread with; the other channels have their defaults.\<close>

definition initial_state :: "compiledWorkflow \<Rightarrow> bool \<Rightarrow> workflowState" where
  "initial_state w approvalRequired =
     \<lparr>wsObjective = cwObjective w, wsPattern = cwPattern w, wsMaxIterations = cwMaxIterations w,
      wsApprovalRequired = approvalRequired, wsDiscoveryRound = 0, wsWorkItems = [],
      wsAcceptanceCriteria = [], wsFindings = [], wsChanges = [], wsVerification = None,
      wsDiagnostic = None, wsCurrentWorkItem = None, wsIteration = 0, wsPhase = Classified,
      wsStatus = Running, wsSummary = [], wsUnresolvedRisks = [], wsTrace = [], wsPlan = None,
      wsChangeResults = [], wsEvidenceRefs = [], wsInterrupt = None\<rparr>"

record specialistState =
  spObjective :: string
  spCurrentWorkItem :: "workItem option"
  spIteration :: int
  spFindings :: "finding list"
  spTrace :: "traceEvent list"

datatype approvalOutcome = Approved | Rejected

record changeState =
  chObjective :: string
  chPlan :: executionPlan
  chChange :: planChange
  chCurrent :: changeResult
  chPreviousResult :: "changeResult option"
  chFindings :: "finding list"
  chHadGlobalChange :: bool
  chInterrupt :: "scopedInterrupt option"
  chApprovalOutcome :: "approvalOutcome option"
  chChanges :: "changeSet list"
  chChangeResults :: "changeResult list"
  chEvidenceRefs :: "artifactRef list"
  chUnresolvedRisks :: "string list"
  chPhase :: workflowPhase
  chIteration :: int
  chTrace :: "traceEvent list"
  chStatus :: workflowStatus

section \<open>Nodes\<close>

definition classifyNode :: "workflowState \<Rightarrow> channelWrite list" where
  "classifyNode s =
     [WPhase Classified, WStatus Running, WTrace [trace_event TrClassify (wsIteration s)]]"

definition dispatchNode :: "channelWrite list" where
  "dispatchNode = []"

text \<open>\<open>new Map(items.map((item, index) => [item.id, index]))\<close> read with its fallback.\<close>

definition work_item_order :: "workItem list \<Rightarrow> string \<Rightarrow> int" where
  "work_item_order items i =
     (case map_last (map (\<lambda>(n, w). (wiId w, n)) (enumerate 0 items)) i of
        None \<Rightarrow> max_safe_integer
      | Some n \<Rightarrow> int n)"

definition finding_order :: "builtins \<Rightarrow> workItem list \<Rightarrow> finding \<Rightarrow> finding \<Rightarrow> int" where
  "finding_order B items l r =
     (let d = work_item_order items (fiWorkItemId l) - work_item_order items (fiWorkItemId r)
      in if d \<noteq> 0 then d else locale_compare B (fiWorkItemId l) (fiWorkItemId r))"

fun collect_additions ::
  "(string \<rightharpoonup> workItem) \<Rightarrow> workItem list \<Rightarrow> workItem list \<Rightarrow> workItem list result" where
  "collect_additions existing additions [] = Inr additions"
| "collect_additions existing additions (p # ps) =
     (case existing (wiId p) of
        Some previous \<Rightarrow>
          if wiTitle previous \<noteq> wiTitle p \<or> wiInstruction previous \<noteq> wiInstruction p
          then Inl InvalidWorkerOutputError
          else collect_additions existing additions ps
      | None \<Rightarrow> collect_additions (existing(wiId p \<mapsto> p)) (additions @ [p]) ps)"

definition collectNode :: "builtins \<Rightarrow> workflowState \<Rightarrow> channelWrite list result" where
  "collectNode B s =
     (let existing = map_last (map (\<lambda>w. (wiId w, w)) (wsWorkItems s));
          proposals = concat (map discoveredWorkItems
            (sort_by (finding_order B (wsWorkItems s)) (wsFindings s)))
      in sbind (collect_additions existing [] proposals) (\<lambda>additions.
         if additions \<noteq> [] \<and> wsDiscoveryRound s \<ge> 2 then Inl InvalidWorkerOutputError
         else
           let selected = take (MAX_WORK_ITEMS - length (wsWorkItems s)) additions
           in Inr ([WWorkItems (wsWorkItems s @ selected), WPhase Analyzed] @
                (if selected = [] then []
                 else [WDiscoveryRound (wsDiscoveryRound s + 1),
                       WTrace [trace_event TrReplan (wsIteration s)]]))))"

definition escalateNode :: "workflowState \<Rightarrow> channelWrite list" where
  "escalateNode s =
     (case List.find (\<lambda>r. crStatus r = CeNeedsAttention) (rev (wsChangeResults s)) of
        Some failedChange \<Rightarrow>
          (let risk = (case crVerification failedChange of
                 None \<Rightarrow> ''Planned change '' @ crChangeId failedChange @
                   '' was rejected at its approval boundary.''
               | Some v \<Rightarrow> ''Planned change '' @ crChangeId failedChange @
                   '' still fails after bounded repair.'')
           in [WSummary risk, WUnresolvedRisks [risk], WVerification (crVerification failedChange),
               WPhase Escalated, WStatus NeedsAttention,
               WTrace [trace_event TrEscalate (wsIteration s)]])
      | None \<Rightarrow>
          (let risk = ''Verification still fails after '' @ int_text (wsMaxIterations s) @ '' repair '' @
                 (if wsMaxIterations s = 1 then ''iteration'' else ''iterations'') @ ''.''
           in [WSummary risk, WUnresolvedRisks [risk], WPhase Escalated, WStatus NeedsAttention,
               WTrace [trace_event TrEscalate (wsIteration s)]]))"

section \<open>Dispatching specialists\<close>

datatype dispatchRoute = SendSpecialists "specialistState list" | ToSynthesize | ToPrepareChange

definition pending_items :: "workflowState \<Rightarrow> workItem list" where
  "pending_items s = filter (\<lambda>w. wiId w \<notin> fiWorkItemId ` set (wsFindings s)) (wsWorkItems s)"

definition routeDispatch :: "workflowState \<Rightarrow> dispatchRoute" where
  "routeDispatch s =
     (if pending_items s \<noteq> [] then
        SendSpecialists (map (\<lambda>w. \<lparr>spObjective = wsObjective s, spCurrentWorkItem = Some w,
          spIteration = wsIteration s, spFindings = [], spTrace = []\<rparr>) (pending_items s))
      else if wsPattern s = Review then ToSynthesize else ToPrepareChange)"

section \<open>Selecting changes\<close>

definition latestResults :: "changeResult list \<Rightarrow> string \<rightharpoonup> changeResult" where
  "latestResults results = map_last (map (\<lambda>r. (crChangeId r, r)) results)"

definition latest_status :: "changeResult list \<Rightarrow> string \<Rightarrow> changeExecutionStatus option" where
  "latest_status results i = map_option crStatus (latestResults results i)"

definition selectChange ::
  "builtins \<Rightarrow> js \<Rightarrow> workflowState \<Rightarrow> executionPlan \<Rightarrow> string \<Rightarrow> int \<Rightarrow> channelWrite list result" where
  "selectChange B cfg s plan i attempt =
     (case List.find (\<lambda>c. changeId c = i) (planChanges plan) of
        None \<Rightarrow> Inl (PlainError ''selected planned change is missing'')
      | Some change \<Rightarrow>
          (let pendingInterrupt = interruptForChange B cfg plan change attempt (wsApprovalRequired s);
               res = \<lparr>crChangeId = i, crStatus = CeRunning, crAttempt = attempt, crEvidenceRefs = [],
                      crChange = None, crVerification = None\<rparr>
           in Inr ([WPlan (Some plan), WChangeResults [res], WInterrupt pendingInterrupt,
                    WStatus (if pendingInterrupt = None then Running else AwaitingApproval)] @
                   (if pendingInterrupt = None then [] else [WPhase Analyzed]))))"

definition prepareChangeNode ::
  "builtins \<Rightarrow> string \<Rightarrow> js \<Rightarrow> workflowState \<Rightarrow> channelWrite list result" where
  "prepareChangeNode B threadId cfg s =
     (let plan = (case wsPlan s of Some p \<Rightarrow> p
            | None \<Rightarrow> aggregateExecutionPlan threadId (wsObjective s) (wsFindings s));
          results = wsChangeResults s
      in case List.find (\<lambda>c. latest_status results (changeId c) = Some CeFailed) (planChanges plan) of
           Some failed \<Rightarrow>
             (case latestResults results (changeId failed) of
                None \<Rightarrow> Inl (PlainError ''failed change result is missing'')
              | Some previous \<Rightarrow>
                  if crAttempt previous > wsMaxIterations s
                  then Inr [WPlan (Some plan), WChangeResults [previous\<lparr>crStatus := CeNeedsAttention\<rparr>]]
                  else selectChange B cfg s plan (changeId failed) (crAttempt previous + 1))
         | None \<Rightarrow>
             (case List.find (\<lambda>c. latestResults results (changeId c) = None \<and>
                     list_all (\<lambda>d. latest_status results d = Some CePassed) (dependsOn c))
                   (planChanges plan) of
                None \<Rightarrow> Inr [WPlan (Some plan)]
              | Some ready \<Rightarrow> selectChange B cfg s plan (changeId ready) 1))"

datatype preparedRoute = SendChange changeState | ToVerify | ToEscalate

definition prior_result :: "changeResult list \<Rightarrow> string \<Rightarrow> changeResult option" where
  "prior_result results i = List.find (\<lambda>r. crChangeId r = i) (rev (butlast results))"

definition routePreparedChange :: "workflowState \<Rightarrow> preparedRoute result" where
  "routePreparedChange s =
     (case wsPlan s of
        None \<Rightarrow> Inl (PlainError ''execution plan is missing'')
      | Some plan \<Rightarrow>
          (case List.find (\<lambda>c. latest_status (wsChangeResults s) (changeId c) = Some CeRunning)
                  (planChanges plan) of
             Some change \<Rightarrow>
               (case latestResults (wsChangeResults s) (changeId change) of
                  None \<Rightarrow> Inl (PlainError ''selected change result is missing'')
                | Some current \<Rightarrow>
                    Inr (SendChange \<lparr>chObjective = wsObjective s, chPlan = plan, chChange = change,
                      chCurrent = current,
                      chPreviousResult = prior_result (wsChangeResults s) (changeId change),
                      chFindings = wsFindings s, chHadGlobalChange = (wsChanges s \<noteq> []),
                      chInterrupt = wsInterrupt s, chApprovalOutcome = None, chChanges = [],
                      chChangeResults = [], chEvidenceRefs = [], chUnresolvedRisks = [],
                      chPhase = wsPhase s, chIteration = wsIteration s, chTrace = [],
                      chStatus = wsStatus s\<rparr>))
           | None \<Rightarrow>
               if list_all (\<lambda>c. latest_status (wsChangeResults s) (changeId c) = Some CePassed)
                    (planChanges plan)
               then Inr ToVerify else Inr ToEscalate))"

section \<open>Collecting discovered work\<close>

lemma collect_additions_Inr:
  assumes "collect_additions existing additions ps = Inr r"
  shows "\<exists>new. r = additions @ new \<and> distinct (map wiId new) \<and>
    (\<forall>w \<in> set new. existing (wiId w) = None) \<and> set new \<subseteq> set ps"
  using assms
proof (induction ps arbitrary: existing additions)
  case Nil
  then show ?case by simp
next
  case (Cons p ps)
  show ?case
  proof (cases "existing (wiId p)")
    case None
    with Cons.prems have r: "collect_additions (existing(wiId p \<mapsto> p)) (additions @ [p]) ps = Inr r" by simp
    from Cons.IH[OF r] obtain new where n: "r = additions @ p # new" "distinct (map wiId new)"
      "\<forall>w \<in> set new. (existing(wiId p \<mapsto> p)) (wiId w) = None" "set new \<subseteq> set ps" by auto
    have ne: "\<forall>w \<in> set new. wiId w \<noteq> wiId p \<and> existing (wiId w) = None"
      using n(3) by (auto split: if_splits)
    show ?thesis
      by (rule exI[of _ "p # new"]) (use n ne None in \<open>auto dest: sym\<close>)
  next
    case (Some q)
    with Cons show ?thesis by (fastforce split: if_splits)
  qed
qed

lemma collectNode_Inr:
  assumes "collectNode B s = Inr ws"
  obtains new where "wsWorkItems (apply_writes ws s) = wsWorkItems s @ take (MAX_WORK_ITEMS - length (wsWorkItems s)) new"
    "distinct (map wiId new)" "wiId ` set new \<inter> wiId ` set (wsWorkItems s) = {}"
    "new \<noteq> [] \<longrightarrow> wsDiscoveryRound s < 2"
    "set new \<subseteq> (\<Union>f \<in> set (wsFindings s). set (discoveredWorkItems f))"
    "wsDiscoveryRound (apply_writes ws s) =
       (if take (MAX_WORK_ITEMS - length (wsWorkItems s)) new = [] then wsDiscoveryRound s else wsDiscoveryRound s + 1)"
proof -
  from assms obtain new where c: "collect_additions (map_last (map (\<lambda>w. (wiId w, w)) (wsWorkItems s))) []
      (concat (map discoveredWorkItems (sort_by (finding_order B (wsWorkItems s)) (wsFindings s)))) = Inr new"
    and d: "\<not> (new \<noteq> [] \<and> wsDiscoveryRound s \<ge> 2)"
    and ws: "ws = [WWorkItems (wsWorkItems s @ take (MAX_WORK_ITEMS - length (wsWorkItems s)) new), WPhase Analyzed] @
      (if take (MAX_WORK_ITEMS - length (wsWorkItems s)) new = [] then []
       else [WDiscoveryRound (wsDiscoveryRound s + 1), WTrace [trace_event TrReplan (wsIteration s)]])"
    by (auto simp: collectNode_def result_simps Let_def split: if_splits)
  from collect_additions_Inr[OF c] have n: "distinct (map wiId new)"
    "\<forall>w \<in> set new. map_last (map (\<lambda>w. (wiId w, w)) (wsWorkItems s)) (wiId w) = None"
    "set new \<subseteq> (\<Union>f \<in> set (wsFindings s). set (discoveredWorkItems f))" by auto
  show thesis
  proof (rule that[of new])
    show "wsWorkItems (apply_writes ws s) = wsWorkItems s @ take (MAX_WORK_ITEMS - length (wsWorkItems s)) new"
      by (simp add: ws)
    show "wiId ` set new \<inter> wiId ` set (wsWorkItems s) = {}"
      using n(2) by (auto simp: map_last_None image_image)
    show "wsDiscoveryRound (apply_writes ws s) =
       (if take (MAX_WORK_ITEMS - length (wsWorkItems s)) new = [] then wsDiscoveryRound s else wsDiscoveryRound s + 1)"
      by (simp add: ws)
  qed (use n d in auto)
qed

text \<open>
  Collecting discovered work keeps every existing work item in
  place, keeps identifiers distinct, never exceeds 16 work items nor two discovery rounds, and
  adds items exactly when it counts a round.
\<close>

theorem collect_keeps_bounds:
  assumes "collectNode B s = Inr ws" and "distinct (map wiId (wsWorkItems s))"
    and "length (wsWorkItems s) \<le> MAX_WORK_ITEMS" and "wsDiscoveryRound s \<le> 2"
    and "s' = apply_writes ws s"
  shows "distinct (map wiId (wsWorkItems s')) \<and> length (wsWorkItems s') \<le> MAX_WORK_ITEMS \<and>
    take (length (wsWorkItems s)) (wsWorkItems s') = wsWorkItems s \<and> wsDiscoveryRound s' \<le> 2 \<and>
    (wsDiscoveryRound s' = wsDiscoveryRound s + 1 \<longleftrightarrow> wsWorkItems s' \<noteq> wsWorkItems s)"
proof -
  from assms(1) obtain new where n: "wsWorkItems s' = wsWorkItems s @ take (MAX_WORK_ITEMS - length (wsWorkItems s)) new"
    "distinct (map wiId new)" "wiId ` set new \<inter> wiId ` set (wsWorkItems s) = {}"
    "new \<noteq> [] \<longrightarrow> wsDiscoveryRound s < 2"
    "wsDiscoveryRound s' =
       (if take (MAX_WORK_ITEMS - length (wsWorkItems s)) new = [] then wsDiscoveryRound s else wsDiscoveryRound s + 1)"
    unfolding assms(5) by (rule collectNode_Inr)
  let ?t = "take (MAX_WORK_ITEMS - length (wsWorkItems s)) new"
  have "distinct (map wiId ?t)" using n(2) by (simp add: take_map[symmetric])
  moreover have "wiId ` set ?t \<inter> wiId ` set (wsWorkItems s) = {}" using n(3) set_take_subset by fastforce
  ultimately have "distinct (map wiId (wsWorkItems s'))" using assms(2) n(1) by auto
  moreover have "length (wsWorkItems s') \<le> MAX_WORK_ITEMS" using n(1) assms(3) by simp
  ultimately show ?thesis using n(1,4,5) assms(4) by (auto simp del: take_eq_Nil)
qed

lemma sorted_insert_by:
  assumes "\<forall>y \<in> set ys. cmp x y \<le> 0 \<longleftrightarrow> key x \<le> (key y :: int)" and "sorted (map key ys)"
  shows "sorted (map key (insert_by cmp x ys))"
  using assms
proof (induction ys)
  case Nil
  then show ?case by simp
next
  case (Cons y ys)
  then show ?case by (cases "cmp x y \<le> 0") auto
qed

lemma sorted_sort_by:
  assumes "distinct xs" and "\<And>x y. x \<in> set xs \<Longrightarrow> y \<in> set xs \<Longrightarrow> x \<noteq> y \<Longrightarrow> cmp x y \<le> 0 \<longleftrightarrow> key x \<le> (key y :: int)"
  shows "sorted (map key (sort_by cmp xs))"
  using assms
proof (induction xs)
  case Nil
  then show ?case by simp
next
  case (Cons x xs)
  then have "sorted (map key (sort_by cmp xs))" by simp
  moreover have "\<forall>y \<in> set (sort_by cmp xs). cmp x y \<le> 0 \<longleftrightarrow> key x \<le> key y"
    using Cons.prems by auto
  ultimately show ?case by (simp add: sort_by_Cons sorted_insert_by)
qed

lemma distinct_sort_by: "distinct xs \<Longrightarrow> distinct (sort_by cmp xs)"
  by (metis card_distinct distinct_card length_sort_by set_sort_by)

lemma sort_by_unique:
  assumes "distinct xs" "distinct ys" "set xs = set ys" and inj: "inj_on key (set xs)"
    and cmp: "\<And>x y. x \<in> set xs \<Longrightarrow> y \<in> set xs \<Longrightarrow> x \<noteq> y \<Longrightarrow> cmp x y \<le> 0 \<longleftrightarrow> key x \<le> (key y :: int)"
  shows "sort_by cmp xs = sort_by cmp ys"
proof -
  have "sorted (map key (sort_by cmp xs))" by (rule sorted_sort_by) (use assms in auto)
  moreover have "sorted (map key (sort_by cmp ys))" by (rule sorted_sort_by) (use assms in auto)
  moreover have "distinct (map key (sort_by cmp xs))" "distinct (map key (sort_by cmp ys))"
    using assms by (simp_all add: distinct_map distinct_sort_by)
  ultimately have "map key (sort_by cmp xs) = map key (sort_by cmp ys)"
    using assms(3) by (intro sorted_distinct_set_unique) auto
  then show ?thesis using inj assms(3) by (simp add: inj_on_map_eq_map)
qed

lemma work_item_order_inj:
  assumes "a \<in> wiId ` set items" and "work_item_order items a = work_item_order items b"
    and "b \<in> wiId ` set items"
  shows "a = b"
proof -
  let ?m = "map_last (map (\<lambda>(n, w). (wiId w, n)) (enumerate 0 items))"
  have some: "\<exists>n. ?m x = Some n" if "x \<in> wiId ` set items" for x
  proof -
    from that obtain i where "i < length items" "wiId (items ! i) = x" by (auto simp: in_set_conv_nth)
    then have "x \<in> fst ` set (map (\<lambda>(n, w). (wiId w, n)) (enumerate 0 items))"
      by (force simp: in_set_enumerate_eq)
    then have "?m x \<noteq> None" by (simp only: map_last_None not_not)
    then show ?thesis by blast
  qed
  have id_at: "x = wiId (items ! n)" if "?m x = Some n" for x n
    using map_last_SomeD[OF that] by (auto simp: in_set_enumerate_eq)
  obtain m where m: "?m a = Some m" using some[OF assms(1)] by blast
  obtain n where n: "?m b = Some n" using some[OF assms(3)] by blast
  have "m = n" using assms(2) m n by (simp add: work_item_order_def)
  with id_at[OF m] id_at[OF n] show ?thesis by simp
qed

text \<open>
  The parallel specialists may report in any order: with one finding
  per known work item, collecting gives the same work items, trace and error for every order
  of the findings.
\<close>

theorem collect_order_irrelevant:
  assumes "distinct (map fiWorkItemId (wsFindings s))" and "distinct (map fiWorkItemId fs)"
    and "set fs = set (wsFindings s)" and "fiWorkItemId ` set fs \<subseteq> wiId ` set (wsWorkItems s)"
  shows "collectNode B (s\<lparr>wsFindings := fs\<rparr>) = collectNode B s"
proof -
  let ?key = "\<lambda>f. work_item_order (wsWorkItems s) (fiWorkItemId f)"
  have ids: "f = g" if "f \<in> set fs" "g \<in> set fs" "fiWorkItemId f = fiWorkItemId g" for f g
    using that assms(2) by (auto simp: distinct_map inj_on_def)
  have inj: "inj_on ?key (set fs)"
  proof (rule inj_onI)
    fix f g assume fg: "f \<in> set fs" "g \<in> set fs" and k: "?key f = ?key g"
    have "fiWorkItemId f = fiWorkItemId g"
      by (rule work_item_order_inj[OF _ k]) (use fg assms(4) in auto)
    with fg ids show "f = g" by blast
  qed
  have "sort_by (finding_order B (wsWorkItems s)) fs = sort_by (finding_order B (wsWorkItems s)) (wsFindings s)"
  proof (rule sort_by_unique[where key = ?key])
    fix x y assume "x \<in> set fs" "y \<in> set fs" "x \<noteq> y"
    then have "?key x \<noteq> ?key y" using inj by (auto simp: inj_on_def)
    then show "finding_order B (wsWorkItems s) x y \<le> 0 \<longleftrightarrow> ?key x \<le> ?key y"
      by (simp add: finding_order_def Let_def)
  next
    show "distinct fs" "distinct (wsFindings s)" using assms(1,2) by (simp_all add: distinct_map)
  qed (use assms inj in auto)
  then show ?thesis by (simp add: collectNode_def Let_def cong: if_cong)
qed

definition sample_workflow :: compiledWorkflow where
  "sample_workflow = \<lparr>cwObjective = ''o'', cwPattern = Delivery, cwMaxIterations = 2, cwRecursionLimit = 20\<rparr>"

definition sample_finding :: "string \<Rightarrow> workItem list \<Rightarrow> finding" where
  "sample_finding i ds = \<lparr>fiWorkItemId = i, fiSummary = ''s'', fiEvidence = [], fiRisks = [],
     discoveredWorkItems = ds\<rparr>"

definition sample_item :: "string \<Rightarrow> workItem" where
  "sample_item i = \<lparr>wiId = i, wiTitle = ''t'', wiInstruction = ''i''\<rparr>"

definition sample_analysis :: workflowState where
  "sample_analysis = (initial_state sample_workflow False)\<lparr>
     wsWorkItems := [sample_item ''b'', sample_item ''a''],
     wsFindings := [sample_finding ''a'' [sample_item ''c''], sample_finding ''b'' []]\<rparr>"

theorem collect_order_irrelevant_witness:
  "collectNode discovery_builtins (sample_analysis\<lparr>wsFindings := [sample_finding ''b'' [], sample_finding ''a'' [sample_item ''c'']]\<rparr>)
     = collectNode discovery_builtins sample_analysis"
  by (rule collect_order_irrelevant)
    (auto simp: sample_analysis_def initial_state_def sample_finding_def sample_item_def)

theorem collect_keeps_bounds_witness:
  "\<exists>ws. collectNode discovery_builtins sample_analysis = Inr ws \<and>
     length (wsWorkItems (apply_writes ws sample_analysis)) \<le> 16"
proof -
  have "case collectNode discovery_builtins sample_analysis of Inl e \<Rightarrow> False | Inr ws \<Rightarrow> True" by code_simp
  then obtain ws where ws: "collectNode discovery_builtins sample_analysis = Inr ws" by (auto split: sum.splits)
  have pre: "distinct (map wiId (wsWorkItems sample_analysis))" "length (wsWorkItems sample_analysis) \<le> MAX_WORK_ITEMS"
    "wsDiscoveryRound sample_analysis \<le> 2" by code_simp+
  from collect_keeps_bounds[OF ws pre refl] ws show ?thesis by (simp add: MAX_WORK_ITEMS_def)
qed

section \<open>Selecting the next change\<close>

lemma latestResults_simps [simp]:
  "latestResults [] = Map.empty"
  "latestResults (rs @ [r]) = (latestResults rs)(crChangeId r \<mapsto> r)"
  by (simp_all add: latestResults_def)

lemma latestResults_id: "latestResults rs i = Some r \<Longrightarrow> crChangeId r = i"
  by (auto simp: latestResults_def dest!: map_last_SomeD)

lemma latest_status_snoc:
  "latest_status (rs @ [r]) i = (if i = crChangeId r then Some (crStatus r) else latest_status rs i)"
  by (simp add: latest_status_def)

definition current_plan :: "string \<Rightarrow> workflowState \<Rightarrow> executionPlan" where
  "current_plan threadId s =
     (case wsPlan s of Some p \<Rightarrow> p
      | None \<Rightarrow> aggregateExecutionPlan threadId (wsObjective s) (wsFindings s))"

text \<open>What the selection needs of a plan: distinct identifiers and a topological order.\<close>

definition orderable :: "executionPlan \<Rightarrow> bool" where
  "orderable p \<longleftrightarrow> distinct (map changeId (planChanges p)) \<and>
     (\<exists>L. dep_order (planChanges p) L \<and> set L = plan_ids (planChanges p))"

lemma wf_plan_orderable: "wf_plan p \<Longrightarrow> orderable p"
  by (simp add: wf_plan_def orderable_def)

lemma aggregate_orderable: "orderable (aggregateExecutionPlan threadId objective fs)"
proof -
  obtain c where c: "planChanges (aggregateExecutionPlan threadId objective fs) = [c]" "dependsOn c = []"
    using aggregate_changes by blast
  then have "dep_order [c] [changeId c] \<and> set [changeId c] = plan_ids [c]"
    by (simp add: dep_order_def plan_ids_def deps_of_def)
  then have "\<exists>L. dep_order [c] L \<and> set L = plan_ids [c]" by blast
  with c show ?thesis by (simp add: orderable_def)
qed

lemma find_change:
  "distinct (map changeId cs) \<Longrightarrow> c \<in> set cs \<Longrightarrow> List.find (\<lambda>d. changeId d = changeId c) cs = Some c"
  by (induction cs) (auto simp: image_iff)

text \<open>The least change of the order that has not passed has all its dependencies passed.\<close>

lemma ready_change_exists:
  assumes "orderable p" and "c0 \<in> set (planChanges p)" and "\<not> P (changeId c0)"
  shows "\<exists>c \<in> set (planChanges p). \<not> P (changeId c) \<and> (\<forall>d \<in> set (dependsOn c). P d)"
proof -
  from assms(1) obtain L where ids: "distinct (map changeId (planChanges p))"
    and L: "dep_order (planChanges p) L" "set L = plan_ids (planChanges p)" by (auto simp: orderable_def)
  from assms(2) L(2) have "changeId c0 \<in> set L" by (auto simp: plan_ids_def)
  then obtain j where "j < length L" "L ! j = changeId c0" by (auto simp: in_set_conv_nth)
  with assms(3) have ex: "\<exists>i. i < length L \<and> \<not> P (L ! i)" by auto
  define i where "i = (LEAST i. i < length L \<and> \<not> P (L ! i))"
  from LeastI_ex[OF ex] have i: "i < length L" "\<not> P (L ! i)" by (auto simp: i_def)
  have before: "P (L ! k)" if "k < i" for k
    using not_less_Least[of k] that i(1) unfolding i_def by force
  from i(1) L(2) have "L ! i \<in> plan_ids (planChanges p)" using nth_mem by blast
  then obtain c where c: "c \<in> set (planChanges p)" "changeId c = L ! i" by (auto simp: plan_ids_def)
  have "deps_of (planChanges p) (L ! i) = dependsOn c"
    using find_change[OF ids c(1)] c(2) by (simp add: deps_of_def)
  moreover have "set (deps_of (planChanges p) (L ! i)) \<subseteq> set (take i L)"
    using L(1) i(1) unfolding dep_order_def by blast
  ultimately have "set (dependsOn c) \<subseteq> set (take i L)" by simp
  moreover have "\<forall>d \<in> set (take i L). P d" using before i(1) by (simp add: all_set_conv_all_nth)
  ultimately have "\<forall>d \<in> set (dependsOn c). P d" by blast
  moreover have "\<not> P (changeId c)" using c(2) i(2) by simp
  ultimately show ?thesis using c(1) by blast
qed

text \<open>Between runs of the change subgraph no change is running or waiting.\<close>

definition settled :: "executionPlan \<Rightarrow> changeResult list \<Rightarrow> bool" where
  "settled plan rs \<longleftrightarrow>
     (\<forall>c \<in> set (planChanges plan).
        latest_status rs (changeId c) \<in> {None, Some CePassed, Some CeFailed, Some CeNeedsAttention})"

definition attempt_of :: "changeResult list \<Rightarrow> string \<Rightarrow> int" where
  "attempt_of rs i = (case latestResults rs i of None \<Rightarrow> 0 | Some r \<Rightarrow> crAttempt r)"

text \<open>A change that may run now: a failed one with attempts left, or a fresh one whose dependencies passed.\<close>

definition runnable :: "workflowState \<Rightarrow> planChange \<Rightarrow> bool" where
  "runnable s c \<longleftrightarrow>
     latest_status (wsChangeResults s) (changeId c) = Some CeFailed \<and>
       attempt_of (wsChangeResults s) (changeId c) \<le> wsMaxIterations s \<or>
     latest_status (wsChangeResults s) (changeId c) = None \<and>
       (\<forall>d \<in> set (dependsOn c). latest_status (wsChangeResults s) d = Some CePassed)"

definition running_result :: "planChange \<Rightarrow> int \<Rightarrow> changeResult" where
  "running_result c n = \<lparr>crChangeId = changeId c, crStatus = CeRunning, crAttempt = n, crEvidenceRefs = [],
     crChange = None, crVerification = None\<rparr>"

definition all_passed :: "executionPlan \<Rightarrow> changeResult list \<Rightarrow> bool" where
  "all_passed plan rs \<longleftrightarrow> (\<forall>c \<in> set (planChanges plan). latest_status rs (changeId c) = Some CePassed)"

lemma latest_status_Some: "latest_status rs i = Some st \<longleftrightarrow> (\<exists>r. latestResults rs i = Some r \<and> crStatus r = st)"
  by (auto simp: latest_status_def)

lemma settled_not_running:
  "settled plan rs \<Longrightarrow> List.find (\<lambda>c. latest_status rs (changeId c) = Some CeRunning) (planChanges plan) = None"
  by (auto simp: find_None_iff settled_def)

lemma selectChange_eq:
  "distinct (map changeId (planChanges plan)) \<Longrightarrow> c \<in> set (planChanges plan) \<Longrightarrow>
   selectChange B cfg s plan (changeId c) n =
     (let i = interruptForChange B cfg plan c n (wsApprovalRequired s)
      in Inr ([WPlan (Some plan), WChangeResults [running_result c n], WInterrupt i,
               WStatus (if i = None then Running else AwaitingApproval)] @
              (if i = None then [] else [WPhase Analyzed])))"
  by (simp add: selectChange_def find_change running_result_def)

text \<open>The three outcomes of \<open>prepare_change\<close>.\<close>

lemma prepareChange_cases:
  assumes plan: "current_plan threadId s = plan" and ord: "orderable plan"
    and st: "settled plan (wsChangeResults s)"
  obtains (select) c n where "prepareChangeNode B threadId cfg s = selectChange B cfg s plan (changeId c) n"
      "c \<in> set (planChanges plan)" "runnable s c" "n = attempt_of (wsChangeResults s) (changeId c) + 1"
  | (exhausted) c p where "prepareChangeNode B threadId cfg s =
        Inr [WPlan (Some plan), WChangeResults [p\<lparr>crStatus := CeNeedsAttention\<rparr>]]"
      "c \<in> set (planChanges plan)" "latestResults (wsChangeResults s) (changeId c) = Some p"
      "crStatus p = CeFailed" "crAttempt p > wsMaxIterations s"
  | (done_all) "prepareChangeNode B threadId cfg s = Inr [WPlan (Some plan)]"
      "all_passed plan (wsChangeResults s) \<or>
       (\<exists>c \<in> set (planChanges plan). latest_status (wsChangeResults s) (changeId c) = Some CeNeedsAttention)"
proof -
  let ?rs = "wsChangeResults s"
  let ?failed = "List.find (\<lambda>c. latest_status ?rs (changeId c) = Some CeFailed) (planChanges plan)"
  let ?ready = "List.find (\<lambda>c. latestResults ?rs (changeId c) = None \<and>
      list_all (\<lambda>d. latest_status ?rs d = Some CePassed) (dependsOn c)) (planChanges plan)"
  have node: "prepareChangeNode B threadId cfg s = (case ?failed of
      Some f \<Rightarrow> (case latestResults ?rs (changeId f) of
          None \<Rightarrow> Inl (PlainError ''failed change result is missing'')
        | Some p \<Rightarrow> if crAttempt p > wsMaxIterations s
            then Inr [WPlan (Some plan), WChangeResults [p\<lparr>crStatus := CeNeedsAttention\<rparr>]]
            else selectChange B cfg s plan (changeId f) (crAttempt p + 1))
    | None \<Rightarrow> (case ?ready of None \<Rightarrow> Inr [WPlan (Some plan)]
        | Some r \<Rightarrow> selectChange B cfg s plan (changeId r) 1))"
    using plan by (simp add: prepareChangeNode_def current_plan_def Let_def)
  show thesis
  proof (cases ?failed)
    case (Some f)
    from find_SomeD[OF Some] have f: "f \<in> set (planChanges plan)" "latest_status ?rs (changeId f) = Some CeFailed" by auto
    then obtain p where p: "latestResults ?rs (changeId f) = Some p" "crStatus p = CeFailed" by (auto simp: latest_status_Some)
    show thesis
    proof (cases "crAttempt p > wsMaxIterations s")
      case True
      show thesis by (rule exhausted[of p f]) (use node Some p True f in simp_all)
    next
      case False
      show thesis by (rule select[of f "crAttempt p + 1"])
          (use node Some p False f in \<open>simp_all add: attempt_of_def runnable_def\<close>)
    qed
  next
    case None
    have nf: "latest_status ?rs (changeId c) \<in> {None, Some CePassed, Some CeNeedsAttention}"
      if "c \<in> set (planChanges plan)" for c
      using find_NoneD[OF None that] st that by (auto simp: settled_def)
    show thesis
    proof (cases ?ready)
      case r: None
      have "all_passed plan ?rs" if no: "\<not> (\<exists>c \<in> set (planChanges plan). latest_status ?rs (changeId c) = Some CeNeedsAttention)"
      proof (rule ccontr)
        assume "\<not> all_passed plan ?rs"
        then obtain c where "c \<in> set (planChanges plan)" "latest_status ?rs (changeId c) \<noteq> Some CePassed"
          by (auto simp: all_passed_def)
        from ready_change_exists[of plan c "\<lambda>i. latest_status ?rs i = Some CePassed", OF ord this]
        obtain d where d: "d \<in> set (planChanges plan)" "latest_status ?rs (changeId d) \<noteq> Some CePassed"
          "\<forall>x \<in> set (dependsOn d). latest_status ?rs x = Some CePassed" by blast
        with nf no have "latestResults ?rs (changeId d) = None" by (force simp: latest_status_def)
        with d find_NoneD[OF r d(1)] show False by (auto simp: list_all_iff)
      qed
      then show thesis by (intro done_all) (use node None r in auto)
    next
      case (Some r)
      from find_SomeD[OF Some] have r: "r \<in> set (planChanges plan)" "latestResults ?rs (changeId r) = None"
        "\<forall>d \<in> set (dependsOn r). latest_status ?rs d = Some CePassed" by (auto simp: list_all_iff)
      show thesis by (rule select[of r 1])
          (use node None Some r in \<open>simp_all add: attempt_of_def runnable_def latest_status_def\<close>)
    qed
  qed
qed

text \<open>The router after each of them.\<close>

lemma route_selected:
  assumes "distinct (map changeId (planChanges plan))" and "c \<in> set (planChanges plan)"
    and "settled plan rs" and "wsPlan s' = Some plan" and "wsChangeResults s' = rs @ [running_result c n]"
  shows "routePreparedChange s' = Inr (SendChange \<lparr>chObjective = wsObjective s', chPlan = plan, chChange = c,
      chCurrent = running_result c n, chPreviousResult = prior_result (rs @ [running_result c n]) (changeId c),
      chFindings = wsFindings s', chHadGlobalChange = (wsChanges s' \<noteq> []),
      chInterrupt = wsInterrupt s', chApprovalOutcome = None, chChanges = [],
      chChangeResults = [], chEvidenceRefs = [], chUnresolvedRisks = [],
      chPhase = wsPhase s', chIteration = wsIteration s', chTrace = [],
      chStatus = wsStatus s'\<rparr>)"
proof -
  have "latest_status (wsChangeResults s') (changeId d) = Some CeRunning \<longleftrightarrow> changeId d = changeId c"
    if "d \<in> set (planChanges plan)" for d
    using that assms(3) by (auto simp: assms(5) latest_status_snoc settled_def running_result_def)
  then have "List.find (\<lambda>d. latest_status (wsChangeResults s') (changeId d) = Some CeRunning) (planChanges plan) = Some c"
    using find_change[OF assms(1,2)] by (simp cong: find_cong)
  then show ?thesis by (simp add: routePreparedChange_def assms(4,5) running_result_def)
qed

lemma route_settled:
  assumes "settled plan (wsChangeResults s)" and "wsPlan s = Some plan"
  shows "routePreparedChange s = Inr (if all_passed plan (wsChangeResults s) then ToVerify else ToEscalate)"
  using settled_not_running[OF assms(1)] assms(2)
  by (simp add: routePreparedChange_def all_passed_def list_all_iff)

lemma exhausted_not_passed:
  assumes "c \<in> set (planChanges plan)" and "latestResults rs (changeId c) = Some p"
  shows "\<not> all_passed plan (rs @ [p\<lparr>crStatus := CeNeedsAttention\<rparr>])"
  using assms latestResults_id[OF assms(2)] by (auto simp: all_passed_def latest_status_snoc)

lemma interrupt_iff:
  "interruptForChange B cfg plan c n a = None \<longleftrightarrow> \<not> a \<and> level (risk c) \<noteq> High"
  by (simp add: interruptForChange_def Let_def)

text \<open>
  On a well-formed plan with no change under way,
  \<open>prepare_change\<close> and its router never get stuck: they verify exactly when every change has
  passed; they escalate only when some change used up its attempts or was rejected; and
  otherwise they send one runnable change, with its next attempt number and an approval exactly
  when the workflow or its risk asks for one. No change starts before its dependencies passed.
\<close>

theorem prepare_change_decides:
  assumes plan: "current_plan threadId s = plan" and ord: "orderable plan"
    and st: "settled plan (wsChangeResults s)"
  shows "\<exists>ws r. prepareChangeNode B threadId cfg s = Inr ws \<and>
    routePreparedChange (apply_writes ws s) = Inr r \<and> wsPlan (apply_writes ws s) = Some plan \<and>
    (r = ToVerify \<longleftrightarrow> all_passed plan (wsChangeResults s)) \<and>
    (case r of
       ToVerify \<Rightarrow> True
     | ToEscalate \<Rightarrow> \<exists>c \<in> set (planChanges plan).
         latest_status (wsChangeResults s) (changeId c) = Some CeNeedsAttention \<or>
         latest_status (wsChangeResults s) (changeId c) = Some CeFailed \<and>
           attempt_of (wsChangeResults s) (changeId c) > wsMaxIterations s
     | SendChange st \<Rightarrow> chChange st \<in> set (planChanges plan) \<and> chPlan st = plan \<and> runnable s (chChange st) \<and>
         chCurrent st = running_result (chChange st) (attempt_of (wsChangeResults s) (changeId (chChange st)) + 1) \<and>
         (chInterrupt st = None \<longleftrightarrow> \<not> wsApprovalRequired s \<and> level (risk (chChange st)) \<noteq> High))"
  using plan ord st
proof (cases rule: prepareChange_cases[where B = B and cfg = cfg])
  case (select c n)
  have ids: "distinct (map changeId (planChanges plan))" using ord by (simp add: orderable_def)
  from select(3) have "\<not> all_passed plan (wsChangeResults s)"
    using select(2) by (auto simp: runnable_def all_passed_def intro!: bexI[of _ c])
  moreover have "wsPlan (apply_writes ws s) = Some plan \<and> wsChangeResults (apply_writes ws s) = wsChangeResults s @ [running_result c n] \<and>
      wsInterrupt (apply_writes ws s) = interruptForChange B cfg plan c n (wsApprovalRequired s)"
    if "selectChange B cfg s plan (changeId c) n = Inr ws" for ws
    using that by (auto simp: selectChange_eq[OF ids select(2)] Let_def)
  ultimately show ?thesis
    using select selectChange_eq[OF ids select(2), of B cfg s n]
      route_selected[OF ids select(2) st, of _ n]
    by (simp add: Let_def interrupt_iff)
next
  case (exhausted c p)
  let ?s = "apply_writes [WPlan (Some plan), WChangeResults [p\<lparr>crStatus := CeNeedsAttention\<rparr>]] s"
  have "settled plan (wsChangeResults ?s)" using st by (auto simp: settled_def latest_status_snoc)
  moreover have "\<not> all_passed plan (wsChangeResults s)"
    using exhausted(2-4) by (auto simp: all_passed_def latest_status_def intro!: bexI[of _ c])
  ultimately have "routePreparedChange ?s = Inr ToEscalate"
    using exhausted_not_passed[OF exhausted(2,3)] by (simp add: route_settled)
  then show ?thesis using exhausted \<open>\<not> all_passed plan (wsChangeResults s)\<close>
    by (auto simp: latest_status_def attempt_of_def)
next
  case done_all
  then show ?thesis using route_settled[of plan "apply_writes [WPlan (Some plan)] s"] st by auto
qed

theorem prepare_change_decides_witness:
  "\<exists>ws r. prepareChangeNode discovery_builtins ''t'' JUndef ((initial_state sample_workflow False)\<lparr>wsPlan := Some sample_plan\<rparr>) = Inr ws \<and>
     routePreparedChange (apply_writes ws ((initial_state sample_workflow False)\<lparr>wsPlan := Some sample_plan\<rparr>)) = Inr r"
proof -
  let ?s = "(initial_state sample_workflow False)\<lparr>wsPlan := Some sample_plan\<rparr>"
  have p: "current_plan ''t'' ?s = sample_plan" by (simp add: current_plan_def)
  have "wf_plan sample_plan"
  proof -
    have "case parseExecutionPlan (plan_object sample_plan) of Inl e \<Rightarrow> False | Inr p \<Rightarrow> p = sample_plan" by code_simp
    then show ?thesis by (auto split: sum.splits intro: parseExecutionPlan_wf)
  qed
  then have od: "orderable sample_plan" by (rule wf_plan_orderable)
  have st: "settled sample_plan (wsChangeResults ?s)"
    by (simp add: settled_def initial_state_def latest_status_def)
  from prepare_change_decides[OF p od st] show ?thesis by blast
qed

end
