(* ===== verification/ChangeSubgraph.thy ===== *)
theory ChangeSubgraph
  imports Routing MutationJournal
begin

text \<open>
  The subgraph that runs one planned change, \<open>src/src/workflow/change-subgraph.ts\<close> (approval,
  mutation, host evidence), the reconciliation of unusable mutation results,
  \<open>src/src/workflow/mutation-reconciliation.ts\<close>, and the host verification of
  \<open>src/src/workflow/host-verification.ts\<close>. What a worker answers, what the user resumes
  with and what a package script does are arguments; the prompts only feed the worker and are
  left out.
\<close>

section \<open>Host evidence\<close>

text \<open>
  A runner: the default integration scripts when it has that method, and the outcome of the
  \<open>n\<close>th script it runs.
\<close>

record evidenceRunner =
  erDefaultScripts :: "string list result option"
  erRun :: "nat \<Rightarrow> string \<Rightarrow> hostEvidence result"

fun run_scripts :: "evidenceRunner \<Rightarrow> nat \<Rightarrow> string list \<Rightarrow> hostEvidence list result" where
  "run_scripts r n [] = Inr []"
| "run_scripts r n (s # ss) =
     sbind (erRun r n s) (\<lambda>e. sbind (run_scripts r (Suc n) ss) (\<lambda>es. Inr (e # es)))"

definition exit_text :: "int option \<Rightarrow> string" where
  "exit_text c = (case c of None \<Rightarrow> ''signal'' | Some i \<Rightarrow> int_text i)"

definition evidence_text :: "hostEvidence \<Rightarrow> string" where
  "evidence_text e = ''exit='' @ exit_text (heExitCode e) @ '';stdout='' @ arDigest (heStdout e) @
     '';stderr='' @ arDigest (heStderr e)"

definition evidence_check :: "string \<Rightarrow> hostEvidence \<Rightarrow> verificationCheck" where
  "evidence_check s e = \<lparr>vcName = ''package:'' @ s, vcPassed = hePassed e, vcEvidence = evidence_text e\<rparr>"

definition evidence_refs :: "hostEvidence list \<Rightarrow> artifactRef list" where
  "evidence_refs es = concat (map (\<lambda>e. [heStdout e, heStderr e]) es)"

definition unavailableVerification :: "string \<Rightarrow> verificationResult \<times> artifactRef list" where
  "unavailableVerification evidence =
     (\<lparr>vrPassed = False, vrSummary = ''trusted host integration checks unavailable'',
       vrChecks = [\<lparr>vcName = ''host-integration'', vcPassed = False, vcEvidence = evidence\<rparr>]\<rparr>, [])"

definition hostIntegrationVerification ::
  "evidenceRunner option \<Rightarrow> (verificationResult \<times> artifactRef list) result" where
  "hostIntegrationVerification runner =
     (case runner of
        None \<Rightarrow> Inr (unavailableVerification ''trusted host integration runner unavailable'')
      | Some r \<Rightarrow>
          sbind (case erDefaultScripts r of None \<Rightarrow> Inr [] | Some scripts \<Rightarrow> scripts) (\<lambda>scripts.
          if scripts = [] then Inr (unavailableVerification ''no executable host integration scripts configured'')
          else
          sbind (run_scripts r 0 scripts) (\<lambda>evidence.
          let checks = map (\<lambda>e. evidence_check (heScript e) e) evidence;
              passed = list_all vcPassed checks
          in Inr (\<lparr>vrPassed = passed,
                   vrSummary = (if passed then ''host integration checks passed''
                                else ''host integration checks failed''),
                   vrChecks = checks\<rparr>, evidence_refs evidence))))"

section \<open>Reconciliation\<close>

definition operationName :: "changeKind \<Rightarrow> int \<Rightarrow> string" where
  "operationName kind iteration =
     (if kind = Implementation then ''implement'' else ''repair'') @ '':'' @ int_text iteration"

datatype reconciliationCause = CauseInvalid | CauseIndeterminate

definition reconciliationChange :: "changeKind \<Rightarrow> int \<Rightarrow> reconciliationCause \<Rightarrow> changeSet" where
  "reconciliationChange kind iteration cause =
     (let operation = operationName kind iteration
      in \<lparr>csKind = kind,
          csSummary = ''Mutation '' @ operation @ '' '' @
            (if cause = CauseInvalid then ''returned an invalid change report''
             else ''has an indeterminate result'') @ ''; it was not invoked again.'',
          filesChanged = [],
          csEvidence = [if cause = CauseInvalid
            then ''Durable mutation result '' @ operation @ '' could not be validated.''
            else ''Durable mutation claim '' @ operation @ '' was started without a recorded result.''],
          csUnresolvedRisks = [''The verifier must reconcile the actual workspace before further mutation.'']\<rparr>)"

definition mutationChange :: "builtins \<Rightarrow> mutationExecution \<Rightarrow> changeKind \<Rightarrow> int \<Rightarrow> changeSet result" where
  "mutationChange B execution kind iteration =
     (case execution of
        MutationCompleted out \<Rightarrow>
          (case parseChangeSet B out kind of
             Inr c \<Rightarrow> Inr c
           | Inl e \<Rightarrow>
               if e \<noteq> InvalidWorkerOutputError then Inl e
               else Inr (reconciliationChange kind iteration CauseInvalid))
      | MutationIndeterminate \<Rightarrow> Inr (reconciliationChange kind iteration CauseIndeterminate))"

section \<open>Channels of the subgraph\<close>

datatype changeWrite =
    CInterrupt "scopedInterrupt option" | COutcome approvalOutcome | CStatus workflowStatus
  | CChangeResults "changeResult list" | CCurrent changeResult | CChanges "changeSet list"
  | CUnresolvedRisks "string list" | CPhase workflowPhase | CIteration int
  | CTrace "traceEvent list" | CEvidenceRefs "artifactRef list"

fun apply_change_write :: "changeWrite \<Rightarrow> changeState \<Rightarrow> changeState" where
  "apply_change_write (CInterrupt v) s = s\<lparr>chInterrupt := v\<rparr>"
| "apply_change_write (COutcome v) s = s\<lparr>chApprovalOutcome := Some v\<rparr>"
| "apply_change_write (CStatus v) s = s\<lparr>chStatus := v\<rparr>"
| "apply_change_write (CChangeResults v) s = s\<lparr>chChangeResults := chChangeResults s @ v\<rparr>"
| "apply_change_write (CCurrent v) s = s\<lparr>chCurrent := v\<rparr>"
| "apply_change_write (CChanges v) s = s\<lparr>chChanges := chChanges s @ v\<rparr>"
| "apply_change_write (CUnresolvedRisks v) s = s\<lparr>chUnresolvedRisks := chUnresolvedRisks s @ v\<rparr>"
| "apply_change_write (CPhase v) s = s\<lparr>chPhase := v\<rparr>"
| "apply_change_write (CIteration v) s = s\<lparr>chIteration := v\<rparr>"
| "apply_change_write (CTrace v) s = s\<lparr>chTrace := chTrace s @ v\<rparr>"
| "apply_change_write (CEvidenceRefs v) s = s\<lparr>chEvidenceRefs := chEvidenceRefs s @ v\<rparr>"

definition apply_change_writes :: "changeWrite list \<Rightarrow> changeState \<Rightarrow> changeState" where
  "apply_change_writes ws s = fold apply_change_write ws s"

lemma apply_change_writes_simps [simp]:
  "apply_change_writes [] s = s"
  "apply_change_writes (w # ws) s = apply_change_writes ws (apply_change_write w s)"
  "apply_change_writes (ws @ vs) s = apply_change_writes vs (apply_change_writes ws s)"
  by (simp_all add: apply_change_writes_def)

text \<open>What the subgraph writes to the parent's channels when it ends.\<close>

definition change_output :: "changeState \<Rightarrow> channelWrite list" where
  "change_output s =
     [WInterrupt (chInterrupt s), WChanges (chChanges s), WChangeResults (chChangeResults s),
      WEvidenceRefs (chEvidenceRefs s), WUnresolvedRisks (chUnresolvedRisks s), WPhase (chPhase s),
      WIteration (chIteration s), WTrace (chTrace s), WStatus (chStatus s)]"

section \<open>Nodes of the subgraph\<close>

text \<open>
  \<open>interrupt(pending)\<close> suspends the run until it is resumed with a value: \<open>resume\<close> is that
  value, \<open>None\<close> on the first pass.
\<close>

datatype approvalStep = Suspended scopedInterrupt | Decided "changeWrite list"

definition approvalNode :: "builtins \<Rightarrow> js \<Rightarrow> js option \<Rightarrow> changeState \<Rightarrow> approvalStep result" where
  "approvalNode B cfg resume s =
     (case chInterrupt s of
        None \<Rightarrow> Inr (Decided [COutcome Approved, CStatus Running])
      | Some persisted \<Rightarrow>
          sbind (rebindInterruptToCurrentConfig B cfg persisted) (\<lambda>pending.
          case resume of
            None \<Rightarrow> Inr (Suspended pending)
          | Some v \<Rightarrow>
              sbind (parseInterruptDecision v) (\<lambda>decision.
              sbind (assertDecisionScope B decision pending) (\<lambda>_.
              case idAction decision of
                Approve \<Rightarrow> Inr (Decided [CInterrupt None, COutcome Approved, CStatus Running])
              | Reject \<Rightarrow> Inr (Decided [CInterrupt None, COutcome Rejected, CStatus Running,
                    CChangeResults [(chCurrent s)\<lparr>crStatus := CeNeedsAttention\<rparr>]])))))"

definition change_kind :: "changeState \<Rightarrow> changeKind" where
  "change_kind s = (if crAttempt (chCurrent s) = 1 then Implementation else Repair)"

definition operation_kind :: "changeState \<Rightarrow> mutationKind" where
  "operation_kind s = (if change_kind s = Implementation then MImplement else MRepair)"

definition change_operation :: "string \<Rightarrow> changeState \<Rightarrow> mutationOperation" where
  "change_operation threadId s =
     (if isAggregatePlan (chPlan s)
      then \<lparr>moKind = operation_kind s, moIteration = crAttempt (chCurrent s) - 1,
            moWorkspaceId = None, moPlanId = None, moChangeId = None, moAttempt = None\<rparr>
      else \<lparr>moKind = operation_kind s, moIteration = crAttempt (chCurrent s) - 1,
            moWorkspaceId = Some threadId, moPlanId = Some (planId (chPlan s)),
            moChangeId = Some (changeId (chChange s)), moAttempt = Some (crAttempt (chCurrent s))\<rparr>)"

definition allowed_files :: "changeState \<Rightarrow> string list" where
  "allowed_files s = (if isAggregatePlan (chPlan s) then [''.''] else files (scope (chChange s)))"

definition mutation_task_id :: "changeState \<Rightarrow> string" where
  "mutation_task_id s =
     (if isAggregatePlan (chPlan s) then kind_text (operation_kind s)
      else kind_text (operation_kind s) @ ''_'' @ changeId (chChange s))"

definition assertReportedScope :: "string list \<Rightarrow> string list \<Rightarrow> unit result" where
  "assertReportedScope fs allowed =
     (if ''.'' \<in> set allowed then Inr ()
      else if filter (\<lambda>f. f \<notin> set allowed) fs \<noteq> [] then Inl (PlainError ''mutation scope'')
      else Inr ())"

definition mutation_writes :: "changeState \<Rightarrow> changeSet \<Rightarrow> changeWrite list" where
  "mutation_writes s reported =
     (let aggregate = isAggregatePlan (chPlan s);
          includeGlobal = (aggregate \<or> \<not> chHadGlobalChange s);
          repair = (aggregate \<and> change_kind s = Repair)
      in [CCurrent ((chCurrent s)\<lparr>crChange := Some reported\<rparr>)] @
         (if includeGlobal then [CChanges [reported]] else []) @
         [CUnresolvedRisks (csUnresolvedRisks reported),
          CPhase (if repair then Repaired else Implemented)] @
         (if repair then [CIteration (crAttempt (chCurrent s) - 1)] else []) @
         [CTrace [trace_event (if operation_kind s = MImplement then TrImplement else TrRepair)
            (crAttempt (chCurrent s) - 1)]])"

definition mutationNode :: "builtins \<Rightarrow> mutationExecution result \<Rightarrow> changeState \<Rightarrow> changeWrite list result" where
  "mutationNode B executed s =
     sbind executed (\<lambda>execution.
     sbind (mutationChange B execution (change_kind s) (crAttempt (chCurrent s) - 1)) (\<lambda>reported.
     sbind (assertReportedScope (filesChanged reported) (allowed_files s)) (\<lambda>_.
     Inr (mutation_writes s reported))))"

definition localAcceptanceChecks :: "executionPlan \<Rightarrow> planChange \<Rightarrow> packageScriptCheck list" where
  "localAcceptanceChecks plan change =
     (if isAggregatePlan plan then []
      else
        let later = (case dropWhile (\<lambda>c. changeId c \<noteq> changeId change) (planChanges plan) of
              [] \<Rightarrow> planChanges plan | _ # rest \<Rightarrow> rest);
            laterScripts = concat (map (\<lambda>c. map script (acceptanceChecks c)) later)
        in filter (\<lambda>k. script k \<notin> set laterScripts) (acceptanceChecks change))"

definition change_checks :: "packageScriptCheck list \<Rightarrow> hostEvidence list \<Rightarrow> verificationCheck list" where
  "change_checks acceptance es = map2 (\<lambda>k e. evidence_check (script k) e) acceptance es"

definition acceptance_verification :: "verificationCheck list \<Rightarrow> verificationResult" where
  "acceptance_verification checks =
     (let passed = list_all vcPassed checks
      in \<lparr>vrPassed = passed,
          vrSummary = (if passed then ''planned acceptance checks passed''
                       else ''planned acceptance checks failed''),
          vrChecks = (if checks = []
            then [\<lparr>vcName = ''integration-deferred'', vcPassed = True,
                   vcEvidence = ''final integration verification required''\<rparr>]
            else checks)\<rparr>)"

definition evidence_writes :: "changeState \<Rightarrow> hostEvidence list \<Rightarrow> changeWrite list" where
  "evidence_writes s es =
     (let verification = acceptance_verification
            (change_checks (localAcceptanceChecks (chPlan s) (chChange s)) es);
          refs = evidence_refs es
      in [CChangeResults [(chCurrent s)\<lparr>crStatus := (if vrPassed verification then CePassed else CeFailed),
            crEvidenceRefs := refs, crVerification := Some verification\<rparr>],
          CEvidenceRefs refs, CInterrupt None, CStatus Running])"

definition evidenceNode :: "evidenceRunner option \<Rightarrow> changeState \<Rightarrow> changeWrite list result" where
  "evidenceNode runner s =
     (let acceptance = localAcceptanceChecks (chPlan s) (chChange s)
      in if acceptance \<noteq> [] \<and> runner = None
         then Inl (PlainError ''planned acceptance checks require a host evidence runner'')
         else
         sbind (case runner of None \<Rightarrow> Inr [] | Some r \<Rightarrow> run_scripts r 0 (map script acceptance)) (\<lambda>es.
         Inr (evidence_writes s es)))"

section \<open>A run of the subgraph\<close>

definition routeApproval :: "changeState \<Rightarrow> bool result" where
  "routeApproval s =
     (case chApprovalOutcome s of
        Some Approved \<Rightarrow> Inr True
      | Some Rejected \<Rightarrow> Inr False
      | None \<Rightarrow> Inl (PlainError ''approval node completed without an outcome''))"

text \<open>
  From \<open>START\<close> to \<open>END\<close>, or to the interrupt. \<open>execute\<close> is \<open>executeMutation\<close> with the
  journal and the worker behind it; the second component is the operation it was asked for.
\<close>

datatype changeOutcome = ChangeSuspended scopedInterrupt | ChangeEnded changeState

definition run_change ::
  "builtins \<Rightarrow> string \<Rightarrow> js \<Rightarrow> js option \<Rightarrow> (mutationOperation \<Rightarrow> mutationExecution result) \<Rightarrow>
   evidenceRunner option \<Rightarrow> changeState \<Rightarrow> changeOutcome result \<times> mutationOperation option" where
  "run_change B threadId cfg resume execute runner s =
     (case approvalNode B cfg resume s of
        Inl e \<Rightarrow> (Inl e, None)
      | Inr (Suspended i) \<Rightarrow> (Inr (ChangeSuspended i), None)
      | Inr (Decided ws) \<Rightarrow>
          (let s1 = apply_change_writes ws s
           in case routeApproval s1 of
                Inl e \<Rightarrow> (Inl e, None)
              | Inr False \<Rightarrow> (Inr (ChangeEnded s1), None)
              | Inr True \<Rightarrow>
                  (let op = change_operation threadId s1
                   in (sbind (mutationNode B (execute op) s1) (\<lambda>ws2.
                       let s2 = apply_change_writes ws2 s1
                       in sbind (evidenceNode runner s2) (\<lambda>ws3.
                          Inr (ChangeEnded (apply_change_writes ws3 s2)))), Some op))))"

section \<open>Approval\<close>

lemma run_change_operation:
  assumes "run_change B threadId cfg resume execute runner s = (r, Some op)"
  shows "\<exists>ws. approvalNode B cfg resume s = Inr (Decided ws) \<and>
    chApprovalOutcome (apply_change_writes ws s) = Some Approved \<and>
    op = change_operation threadId (apply_change_writes ws s)"
  using assms by (auto simp: run_change_def Let_def routeApproval_def
      split: sum.splits approvalStep.splits bool.splits option.splits approvalOutcome.splits)

lemma approval_gate:
  assumes "run_change B threadId cfg resume execute runner s = (r, Some op)"
    and "chApprovalOutcome s = None"
  shows "chInterrupt s = None \<or>
    (\<exists>i pending v d. chInterrupt s = Some i \<and> rebindInterruptToCurrentConfig B cfg i = Inr pending \<and>
       resume = Some v \<and> parseInterruptDecision v = Inr d \<and> idAction d = Approve \<and>
       interruptBinding.truncate d = interruptBinding.truncate pending)"
proof (cases "chInterrupt s")
  case None
  then show ?thesis by simp
next
  case (Some i)
  from run_change_operation[OF assms(1)] obtain ws where a: "approvalNode B cfg resume s = Inr (Decided ws)"
    and app: "chApprovalOutcome (apply_change_writes ws s) = Some Approved" by blast
  from a Some obtain pending v d where p: "rebindInterruptToCurrentConfig B cfg i = Inr pending"
    "resume = Some v" "parseInterruptDecision v = Inr d" "assertDecisionScope B d pending = Inr ()"
    and act: "(case idAction d of
        Approve \<Rightarrow> Inr (Decided [CInterrupt None, COutcome Approved, CStatus Running])
      | Reject \<Rightarrow> Inr (Decided [CInterrupt None, COutcome Rejected, CStatus Running,
            CChangeResults [(chCurrent s)\<lparr>crStatus := CeNeedsAttention\<rparr>]])) = (Inr (Decided ws) :: approvalStep result)"
    by (auto simp: approvalNode_def result_simps split: option.splits)
  have "idAction d = Approve" using act app by (cases "idAction d") auto
  with p Some show ?thesis by (auto simp: assertDecisionScope_iff)
qed

text \<open>
  The mutation of a change runs only when it needs no
  approval, or the run was resumed with a decision that approves exactly the pending interrupt
  of the current thread and checkpoint: the same change, plan revision, attempt, files and
  scripts.
\<close>

theorem mutation_needs_approval:
  assumes "run_change B threadId cfg resume execute runner s = (r, Some op)"
    and "chApprovalOutcome s = None"
  shows "chInterrupt s = None \<or>
    (\<exists>i pending v d. chInterrupt s = Some i \<and> rebindInterruptToCurrentConfig B cfg i = Inr pending \<and>
       resume = Some v \<and> parseInterruptDecision v = Inr d \<and> idAction d = Approve \<and>
       interruptBinding.truncate d = interruptBinding.truncate pending)"
  using approval_gate[OF assms] .

definition sample_change_state :: "scopedInterrupt option \<Rightarrow> changeState" where
  "sample_change_state i =
     \<lparr>chObjective = ''o'', chPlan = sample_plan, chChange = sample_change ''a'' [],
      chCurrent = \<lparr>crChangeId = ''a'', crStatus = CeRunning, crAttempt = 1, crEvidenceRefs = [],
        crChange = None, crVerification = None\<rparr>,
      chPreviousResult = None, chFindings = [], chHadGlobalChange = False, chInterrupt = i,
      chApprovalOutcome = None, chChanges = [], chChangeResults = [], chEvidenceRefs = [],
      chUnresolvedRisks = [], chPhase = Analyzed, chIteration = 0, chTrace = [],
      chStatus = AwaitingApproval\<rparr>"

definition sample_config :: js where
  "sample_config = JObj [(''thread_id'', JStr ''t'')]"

theorem mutation_needs_approval_witness:
  "\<exists>op. snd (run_change journal_builtins ''t'' sample_config
      (Some (decision_object (decisionForInterrupt
        (sample_interrupt\<lparr>ibInterruptId := interruptToken journal_builtins
           (sample_interrupt\<lparr>ibThreadId := Some ''t'', ibCheckpointId := None\<rparr>)\<rparr>) Approve)))
      (\<lambda>op. Inr MutationIndeterminate) None (sample_change_state (Some sample_interrupt))) = Some op"
proof -
  let ?v = "decision_object (decisionForInterrupt
        (sample_interrupt\<lparr>ibInterruptId := interruptToken journal_builtins
           (sample_interrupt\<lparr>ibThreadId := Some ''t'', ibCheckpointId := None\<rparr>)\<rparr>) Approve)"
  let ?s = "sample_change_state (Some sample_interrupt)"
  have "snd (run_change journal_builtins ''t'' sample_config (Some ?v)
      (\<lambda>op. Inr MutationIndeterminate) None ?s) \<noteq> None"
    by code_simp
  then obtain r op where run: "run_change journal_builtins ''t'' sample_config (Some ?v)
      (\<lambda>op. Inr MutationIndeterminate) None ?s = (r, Some op)"
    by (metis not_None_eq prod.collapse)
  have n: "chApprovalOutcome ?s = None" by (simp add: sample_change_state_def)
  from mutation_needs_approval[OF run n] run show ?thesis by auto
qed

section \<open>Reported scope\<close>

lemma reconciliation_no_files [simp]: "filesChanged (reconciliationChange k i c) = []"
  by (simp add: reconciliationChange_def Let_def)

lemma mutationChange_cases:
  assumes "mutationChange B x k i = Inr c"
  shows "(\<exists>out. x = MutationCompleted out \<and> parseChangeSet B out k = Inr c) \<or> filesChanged c = []"
  using assms by (auto simp: mutationChange_def split: mutationExecution.splits sum.splits if_splits)

lemma assertReportedScope_iff:
  "assertReportedScope fs allowed = Inr () \<longleftrightarrow> ''.'' \<in> set allowed \<or> set fs \<subseteq> set allowed"
  by (auto simp: assertReportedScope_def filter_empty_conv)

text \<open>What a finished run leaves in the subgraph's state.\<close>

lemma mutationNode_Inr:
  assumes "mutationNode B x s = Inr ws"
  obtains execution reported where "x = Inr execution"
    "mutationChange B execution (change_kind s) (crAttempt (chCurrent s) - 1) = Inr reported"
    "''.'' \<in> set (allowed_files s) \<or> set (filesChanged reported) \<subseteq> set (allowed_files s)"
    "ws = mutation_writes s reported"
  using assms by (auto simp: mutationNode_def sbind_eq_Inr assertReportedScope_iff)

lemma mutation_writes_effect:
  "chCurrent (apply_change_writes (mutation_writes s c) s) = (chCurrent s)\<lparr>crChange := Some c\<rparr>"
  "chChanges (apply_change_writes (mutation_writes s c) s) = chChanges s @
     (if isAggregatePlan (chPlan s) \<or> \<not> chHadGlobalChange s then [c] else [])"
  "chPlan (apply_change_writes (mutation_writes s c) s) = chPlan s"
  "chChange (apply_change_writes (mutation_writes s c) s) = chChange s"
  "chChangeResults (apply_change_writes (mutation_writes s c) s) = chChangeResults s"
  "chIteration (apply_change_writes (mutation_writes s c) s) =
     (if isAggregatePlan (chPlan s) \<and> change_kind s = Repair then crAttempt (chCurrent s) - 1 else chIteration s)"
  "chPhase (apply_change_writes (mutation_writes s c) s) =
     (if isAggregatePlan (chPlan s) \<and> change_kind s = Repair then Repaired else Implemented)"
  "chEvidenceRefs (apply_change_writes (mutation_writes s c) s) = chEvidenceRefs s"
  by (simp_all add: mutation_writes_def Let_def)

lemma evidenceNode_Inr:
  assumes "evidenceNode runner s = Inr ws"
  obtains es where
    "(case runner of None \<Rightarrow> Inr [] | Some r \<Rightarrow>
        run_scripts r 0 (map script (localAcceptanceChecks (chPlan s) (chChange s)))) = Inr es"
    "localAcceptanceChecks (chPlan s) (chChange s) \<noteq> [] \<longrightarrow> runner \<noteq> None"
    "ws = evidence_writes s es"
  using assms by (auto simp: evidenceNode_def sbind_eq_Inr Let_def split: if_splits)

lemma evidence_writes_effect:
  "chChanges (apply_change_writes (evidence_writes s es) s) = chChanges s"
  "chIteration (apply_change_writes (evidence_writes s es) s) = chIteration s"
  "chPhase (apply_change_writes (evidence_writes s es) s) = chPhase s"
  "chStatus (apply_change_writes (evidence_writes s es) s) = Running"
  "chInterrupt (apply_change_writes (evidence_writes s es) s) = None"
  "chChangeResults (apply_change_writes (evidence_writes s es) s) = chChangeResults s @
     [(chCurrent s)\<lparr>crStatus := (if list_all vcPassed (change_checks (localAcceptanceChecks (chPlan s) (chChange s)) es)
         then CePassed else CeFailed), crEvidenceRefs := evidence_refs es,
       crVerification := Some (acceptance_verification (change_checks (localAcceptanceChecks (chPlan s) (chChange s)) es))\<rparr>]"
  by (simp_all add: evidence_writes_def acceptance_verification_def Let_def)

lemma run_scripts_map: "run_scripts r n ss = Inr es \<Longrightarrow> length es = length ss"
  by (induction ss arbitrary: n es) (auto simp: result_simps)

lemma run_scripts_nth: "run_scripts r n ss = Inr es \<Longrightarrow> i < length ss \<Longrightarrow> erRun r (n + i) (ss ! i) = Inr (es ! i)"
proof (induction ss arbitrary: n es i)
  case Nil
  then show ?case by simp
next
  case (Cons s ss)
  then obtain e es' where e: "erRun r n s = Inr e" "run_scripts r (Suc n) ss = Inr es'" "es = e # es'"
    by (auto simp: result_simps)
  show ?case
  proof (cases i)
    case 0
    with e show ?thesis by simp
  next
    case (Suc k)
    with Cons.IH[OF e(2), of k] Cons.prems(2) e show ?thesis by simp
  qed
qed

lemma not_Approve [simp]: "a \<noteq> Approve \<longleftrightarrow> a = Reject"
  by (cases a) auto

text \<open>The shape of every finished run.\<close>

lemma run_change_ended:
  assumes "run_change B threadId cfg resume execute runner s = (Inr (ChangeEnded s'), asked)"
    and "chApprovalOutcome s = None" and "chChangeResults s = []" and "chChanges s = []"
  shows "(asked = None \<and> s' = apply_change_writes [CInterrupt None, COutcome Rejected, CStatus Running,
            CChangeResults [(chCurrent s)\<lparr>crStatus := CeNeedsAttention\<rparr>]] s \<and> chInterrupt s \<noteq> None) \<or>
    (\<exists>s1 c es. asked = Some (change_operation threadId s) \<and>
       s1 \<in> {apply_change_writes [COutcome Approved, CStatus Running] s,
              apply_change_writes [CInterrupt None, COutcome Approved, CStatus Running] s} \<and>
       mutationNode B (execute (change_operation threadId s)) s1 = Inr (mutation_writes s1 c) \<and>
       (\<exists>s2. s2 = apply_change_writes (mutation_writes s1 c) s1 \<and>
         evidenceNode runner s2 = Inr (evidence_writes s2 es) \<and>
         s' = apply_change_writes (evidence_writes s2 es) s2))"
proof -
  from assms(1) obtain ws where ap: "approvalNode B cfg resume s = Inr (Decided ws)"
    by (auto simp: run_change_def split: sum.splits approvalStep.splits)
  then have ws: "ws = [COutcome Approved, CStatus Running] \<or> ws = [CInterrupt None, COutcome Approved, CStatus Running] \<or>
      (ws = [CInterrupt None, COutcome Rejected, CStatus Running,
          CChangeResults [(chCurrent s)\<lparr>crStatus := CeNeedsAttention\<rparr>]] \<and> chInterrupt s \<noteq> None)"
    by (auto simp: approvalNode_def sbind_eq_Inr split: option.splits decisionAction.splits)
  show ?thesis
  proof (cases "ws = [COutcome Approved, CStatus Running] \<or> ws = [CInterrupt None, COutcome Approved, CStatus Running]")
    case False
    with ws have r: "ws = [CInterrupt None, COutcome Rejected, CStatus Running,
          CChangeResults [(chCurrent s)\<lparr>crStatus := CeNeedsAttention\<rparr>]]" "chInterrupt s \<noteq> None" by auto
    with assms(1) ap show ?thesis by (simp add: run_change_def routeApproval_def)
  next
    case True
    define s1 where "s1 = apply_change_writes ws s"
    have appr: "chApprovalOutcome s1 = Some Approved" and op: "change_operation threadId s1 = change_operation threadId s"
      using True by (auto simp: s1_def change_operation_def operation_kind_def change_kind_def)
    from assms(1) ap appr op have asked: "asked = Some (change_operation threadId s)"
      and b: "sbind (mutationNode B (execute (change_operation threadId s)) s1) (\<lambda>ws2.
          sbind (evidenceNode runner (apply_change_writes ws2 s1)) (\<lambda>ws3.
            Inr (ChangeEnded (apply_change_writes ws3 (apply_change_writes ws2 s1))))) = Inr (ChangeEnded s')"
      by (simp_all add: run_change_def routeApproval_def s1_def[symmetric] Let_def)
    from b obtain ws2 ws3 where m: "mutationNode B (execute (change_operation threadId s)) s1 = Inr ws2"
      and e: "evidenceNode runner (apply_change_writes ws2 s1) = Inr ws3"
      and s': "s' = apply_change_writes ws3 (apply_change_writes ws2 s1)"
      by (simp add: sbind_eq_Inr) blast
    from m obtain c where c: "ws2 = mutation_writes s1 c" by (rule mutationNode_Inr)
    from e obtain es where es: "ws3 = evidence_writes (apply_change_writes ws2 s1) es" by (rule evidenceNode_Inr)
    have "s1 \<in> {apply_change_writes [COutcome Approved, CStatus Running] s,
              apply_change_writes [CInterrupt None, COutcome Approved, CStatus Running] s}"
      using True by (auto simp: s1_def)
    with asked m e s' c es show ?thesis by blast
  qed
qed

lemma change_checks_passed:
  assumes "length es = length ks"
  shows "list_all vcPassed (change_checks ks es) \<longleftrightarrow> (\<forall>i < length ks. hePassed (es ! i))"
  using assms by (auto simp: change_checks_def evidence_check_def list_all_length)

lemma change_run_facts:
  assumes "run_change B threadId cfg resume execute runner s = (Inr (ChangeEnded s'), asked)"
    and "chApprovalOutcome s = None" and "chChangeResults s = []" and "chChanges s = []"
    and "ks = localAcceptanceChecks (chPlan s) (chChange s)"
  shows "(chInterrupt s' = None \<and> chStatus s' = Running \<and>
    (\<exists>r. chChangeResults s' = [r] \<and> crChangeId r = crChangeId (chCurrent s) \<and> crAttempt r = crAttempt (chCurrent s) \<and>
      (case asked of
         None \<Rightarrow> chInterrupt s \<noteq> None \<and> crStatus r = CeNeedsAttention \<and> chChanges s' = []
       | Some op \<Rightarrow> op = change_operation threadId s \<and> crStatus r \<in> {CePassed, CeFailed} \<and>
           (\<exists>c. crChange r = Some c \<and> (''.'' \<in> set (allowed_files s) \<or> set (filesChanged c) \<subseteq> set (allowed_files s))) \<and>
           (crStatus r = CePassed \<longleftrightarrow> (\<forall>i < length ks. \<exists>h e. runner = Some h \<and> erRun h i (script (ks ! i)) = Inr e \<and> hePassed e))))) \<and>
    (chIteration s' = chIteration s \<or> isAggregatePlan (chPlan s) \<and> crAttempt (chCurrent s) \<noteq> 1)"
  using run_change_ended[OF assms(1-4)]
proof (elim disjE conjE exE)
  assume "asked = None" "s' = apply_change_writes [CInterrupt None, COutcome Rejected, CStatus Running,
            CChangeResults [(chCurrent s)\<lparr>crStatus := CeNeedsAttention\<rparr>]] s" "chInterrupt s \<noteq> None"
  with assms(3,4) show ?thesis by simp
next
  fix s1 c es s2
  assume asked: "asked = Some (change_operation threadId s)"
    and s1: "s1 \<in> {apply_change_writes [COutcome Approved, CStatus Running] s,
              apply_change_writes [CInterrupt None, COutcome Approved, CStatus Running] s}"
    and m: "mutationNode B (execute (change_operation threadId s)) s1 = Inr (mutation_writes s1 c)"
    and s2: "s2 = apply_change_writes (mutation_writes s1 c) s1"
    and e: "evidenceNode runner s2 = Inr (evidence_writes s2 es)"
    and s': "s' = apply_change_writes (evidence_writes s2 es) s2"
  have f1: "chPlan s1 = chPlan s" "chChange s1 = chChange s" "chCurrent s1 = chCurrent s"
    "chChangeResults s1 = []" "allowed_files s1 = allowed_files s"
    using s1 assms(3) by (auto simp: allowed_files_def)
  from m obtain x c' where c': "''.'' \<in> set (allowed_files s1) \<or> set (filesChanged c') \<subseteq> set (allowed_files s1)"
    "mutation_writes s1 c = mutation_writes s1 c'" by (rule mutationNode_Inr)
  have s2': "s2 = apply_change_writes (mutation_writes s1 c') s1" using s2 c'(2) by simp
  have f2: "chPlan s2 = chPlan s" "chChange s2 = chChange s" "chChangeResults s2 = []"
    "chCurrent s2 = (chCurrent s)\<lparr>crChange := Some c'\<rparr>"
    "chIteration s2 = chIteration s \<or> isAggregatePlan (chPlan s) \<and> crAttempt (chCurrent s) \<noteq> 1"
    using f1 s1 by (auto simp: s2' mutation_writes_effect change_kind_def)
  have ks: "localAcceptanceChecks (chPlan s2) (chChange s2) = ks" using assms(5) f2 by simp
  from e obtain es' where "(case runner of None \<Rightarrow> Inr [] | Some r \<Rightarrow>
        run_scripts r 0 (map script (localAcceptanceChecks (chPlan s2) (chChange s2)))) = Inr es'"
    "localAcceptanceChecks (chPlan s2) (chChange s2) \<noteq> [] \<longrightarrow> runner \<noteq> None"
    "evidence_writes s2 es = evidence_writes s2 es'"
    by (rule evidenceNode_Inr)
  note es = this[unfolded ks]
  have len: "length es' = length ks" using es(1,2) by (auto dest: run_scripts_map split: option.splits)
  have passed: "list_all vcPassed (change_checks ks es') \<longleftrightarrow>
      (\<forall>i < length ks. \<exists>h e. runner = Some h \<and> erRun h i (script (ks ! i)) = Inr e \<and> hePassed e)"
  proof (cases runner)
    case None
    with es(2) show ?thesis by (simp add: change_checks_def)
  next
    case (Some h)
    with es(1) have "run_scripts h 0 (map script ks) = Inr es'" by simp
    from run_scripts_nth[OF this] have "erRun h i (script (ks ! i)) = Inr (es' ! i)" if "i < length ks" for i
      using that by simp
    with Some show ?thesis by (auto simp: change_checks_passed[OF len])
  qed
  show ?thesis
    using c'(1) f1 f2 asked passed by (simp add: s' es(3) evidence_writes_effect assms(5)[symmetric])
qed

text \<open>
  A finished run of the change subgraph leaves one result for its
  change and attempt and clears the interrupt. Rejected, it asked for no mutation and the change
  needs attention. Otherwise it asked for exactly one; the reported files are inside the planned
  scope, and the change passed exactly when every package script that no later change repeats
  was run by the host and passed.
\<close>

theorem change_run_result:
  assumes "run_change B threadId cfg resume execute runner s = (Inr (ChangeEnded s'), asked)"
    and "chApprovalOutcome s = None" and "chChangeResults s = []" and "chChanges s = []"
    and "ks = localAcceptanceChecks (chPlan s) (chChange s)"
  shows "chInterrupt s' = None \<and> chStatus s' = Running \<and>
    (\<exists>r. chChangeResults s' = [r] \<and> crChangeId r = crChangeId (chCurrent s) \<and> crAttempt r = crAttempt (chCurrent s) \<and>
      (case asked of
         None \<Rightarrow> chInterrupt s \<noteq> None \<and> crStatus r = CeNeedsAttention \<and> chChanges s' = []
       | Some op \<Rightarrow> op = change_operation threadId s \<and> crStatus r \<in> {CePassed, CeFailed} \<and>
           (\<exists>c. crChange r = Some c \<and> (''.'' \<in> set (allowed_files s) \<or> set (filesChanged c) \<subseteq> set (allowed_files s))) \<and>
           (crStatus r = CePassed \<longleftrightarrow> (\<forall>i < length ks. \<exists>h e. runner = Some h \<and> erRun h i (script (ks ! i)) = Inr e \<and> hePassed e))))"
  using change_run_facts[OF assms] by blast

definition sample_runner :: evidenceRunner where
  "sample_runner = \<lparr>erDefaultScripts = Some (Inr [''test'']), erRun = \<lambda>n s. Inr \<lparr>heScript = s, heExitCode = Some 0,
     heStdout = \<lparr>arDigest = ''d'', arByteCount = 0, arTruncated = False\<rparr>,
     heStderr = \<lparr>arDigest = ''d'', arByteCount = 0, arTruncated = False\<rparr>, hePassed = True\<rparr>\<rparr>"

theorem change_run_result_witness:
  "\<exists>s'. run_change journal_builtins ''t'' sample_config None (\<lambda>op. Inr MutationIndeterminate)
      (Some sample_runner) (sample_change_state None) =
      (Inr (ChangeEnded s'), Some (change_operation ''t'' (sample_change_state None))) \<and>
    map crStatus (chChangeResults s') = [CePassed]"
proof -
  let ?s = "sample_change_state None"
  have "case run_change journal_builtins ''t'' sample_config None (\<lambda>op. Inr MutationIndeterminate) (Some sample_runner) ?s of
      (Inr (ChangeEnded s'), Some op) \<Rightarrow> map crStatus (chChangeResults s') = [CePassed] | _ \<Rightarrow> False"
    by code_simp
  then obtain s' op where run: "run_change journal_builtins ''t'' sample_config None
      (\<lambda>op. Inr MutationIndeterminate) (Some sample_runner) ?s = (Inr (ChangeEnded s'), Some op)"
    and st: "map crStatus (chChangeResults s') = [CePassed]"
    by (auto split: prod.splits sum.splits changeOutcome.splits option.splits)
  have pre: "chApprovalOutcome ?s = None" "chChangeResults ?s = []" "chChanges ?s = []"
    by (simp_all add: sample_change_state_def)
  from change_run_result[OF run pre refl] run st show ?thesis by auto
qed

section \<open>Acceptance checks\<close>

text \<open>
  A change defers the scripts that a later change of the
  plan runs too; every script any change of a plan asks for is still run by the last change
  that asks for it.
\<close>

theorem acceptance_scripts_all_run:
  assumes "distinct (map changeId (planChanges plan))" and "\<not> isAggregatePlan plan"
    and "change \<in> set (planChanges plan)" and "k \<in> set (acceptanceChecks change)"
  shows "\<exists>d \<in> set (planChanges plan). \<exists>k' \<in> set (localAcceptanceChecks plan d). script k' = script k"
proof -
  let ?has = "\<lambda>c. script k \<in> script ` set (acceptanceChecks c)"
  have "\<exists>c \<in> set (planChanges plan). ?has c" using assms(3,4) by blast
  then obtain pre d post where split: "planChanges plan = pre @ d # post" "?has d" "\<forall>c \<in> set post. \<not> ?has c"
    by (rule split_list_last_propE)
  have "changeId x \<noteq> changeId d" if "x \<in> set pre" for x
    using assms(1) split(1) imageI[OF that, of changeId] by auto
  then have "dropWhile (\<lambda>c. changeId c \<noteq> changeId d) (planChanges plan) = d # post"
    using split(1) by (simp add: dropWhile_append2)
  then have l: "localAcceptanceChecks plan d = filter (\<lambda>k. script k \<notin> set (concat (map (\<lambda>c. map script (acceptanceChecks c)) post)))
      (acceptanceChecks d)"
    using assms(2) by (simp add: localAcceptanceChecks_def)
  from split(2) obtain k' where k': "k' \<in> set (acceptanceChecks d)" "script k' = script k" by auto
  have "k' \<in> set (localAcceptanceChecks plan d)"
    using k' split(3) by (auto simp: l image_iff)
  with k' split(1) show ?thesis by auto
qed

theorem acceptance_scripts_all_run_witness:
  "\<exists>d \<in> set (planChanges sample_plan). \<exists>k' \<in> set (localAcceptanceChecks sample_plan d). script k' = ''test''"
proof -
  have "distinct (map changeId (planChanges sample_plan))" "\<not> isAggregatePlan sample_plan"
    "sample_change ''b'' [''a''] \<in> set (planChanges sample_plan)"
    "\<lparr>script = ''test''\<rparr> \<in> set (acceptanceChecks (sample_change ''b'' [''a'']))"
    by (simp_all add: sample_plan_def sample_change_def isAggregatePlan_def)
  from acceptance_scripts_all_run[OF this] show ?thesis by simp
qed

section \<open>Host verification\<close>

text \<open>
  The host's verdict is a pass only when a runner with at least
  one default integration script ran every one of them and each passed; with no runner or no
  script the verification is a recorded failure, never a pass.
\<close>

theorem host_verification_sound:
  assumes "hostIntegrationVerification runner = Inr (v, refs)"
  shows "vrChecks v \<noteq> [] \<and> vrPassed v = list_all vcPassed (vrChecks v) \<and>
    (vrPassed v \<longleftrightarrow> (\<exists>r scripts. runner = Some r \<and> erDefaultScripts r = Some (Inr scripts) \<and> scripts \<noteq> [] \<and>
      (\<forall>i < length scripts. \<exists>e. erRun r i (scripts ! i) = Inr e \<and> hePassed e)))"
proof (cases "\<exists>r scripts. runner = Some r \<and> erDefaultScripts r = Some (Inr scripts) \<and> scripts \<noteq> []")
  case False
  then have "\<exists>t. unavailableVerification t = (v, refs)"
    using assms by (auto simp: hostIntegrationVerification_def sbind_eq_Inr split: option.splits if_splits)
  with False show ?thesis by (auto simp: unavailableVerification_def)
next
  case True
  then obtain r scripts where r: "runner = Some r" "erDefaultScripts r = Some (Inr scripts)" "scripts \<noteq> []" by blast
  with assms obtain es where es: "run_scripts r 0 scripts = Inr es"
    and v: "vrChecks v = map (\<lambda>e. evidence_check (heScript e) e) es" "vrPassed v = list_all vcPassed (vrChecks v)"
    by (auto simp: hostIntegrationVerification_def sbind_eq_Inr Let_def)
  have len: "length es = length scripts" using run_scripts_map[OF es] .
  have run: "erRun r i (scripts ! i) = Inr (es ! i)" if "i < length scripts" for i
    using run_scripts_nth[OF es that] by simp
  have "vrPassed v \<longleftrightarrow> (\<forall>i < length es. hePassed (es ! i))"
    by (simp add: v list_all_length evidence_check_def)
  with v r len run show ?thesis by auto
qed

theorem host_verification_sound_witness:
  "\<exists>v refs. hostIntegrationVerification (Some sample_runner) = Inr (v, refs) \<and> vrPassed v"
proof -
  obtain v refs where v: "hostIntegrationVerification (Some sample_runner) = Inr (v, refs)"
    by (simp add: hostIntegrationVerification_def sample_runner_def sbind_def Let_def)
  from host_verification_sound[OF v] have "vrPassed v \<longleftrightarrow>
      (\<exists>r scripts. Some sample_runner = Some r \<and> erDefaultScripts r = Some (Inr scripts) \<and> scripts \<noteq> [] \<and>
        (\<forall>i < length scripts. \<exists>e. erRun r i (scripts ! i) = Inr e \<and> hePassed e))" by blast
  then have "vrPassed v" by (simp add: sample_runner_def)
  with v show ?thesis by blast
qed

end
