(* ===== verification/Graph.thy ===== *)
theory Graph
  imports WorkerNodes
begin

text \<open>
  The coding graph, \<open>src/src/workflow/graph.ts\<close>: its nodes wired by its edges, run one superstep
  at a time from the checkpoint of the last one. Everything outside the program is the input of
  a superstep: what workers answer, whether a worker throws or its process dies, what the
  user resumes with, what the host's package scripts do, and what the journal's storage does.
  A superstep whose node throws, dies or waits for an approval leaves the state and the next
  node as they were, so a later superstep is the resumed run; the journal keeps what happened.
\<close>

section \<open>Configurations\<close>

datatype graphNode =
    NClassify | NDiscover | NDispatch | NSpecialists "specialistState list" | NCollect | NPrepare
  | NChange changeState | NVerify | NDiagnose | NRepair | NSynthesize | NEscalate | NEnd

record 'j graphConfig =
  gcState :: workflowState
  gcNext :: graphNode
  gcJournal :: 'j
  gcInvoked :: "mutationOperation list"
  gcSupersteps :: nat

record 'e stepInput =
  siConfigurable :: js
  siAnswers :: "nat \<Rightarrow> nat \<Rightarrow> string result"
  siResume :: "js option"
  siWorker :: workerOutcome
  siRunner :: "nat \<Rightarrow> evidenceRunner option"
  siClaimEnv :: 'e
  siCompleteEnv :: 'e

section \<open>Supersteps without a mutation\<close>

definition after_dispatch :: "workflowState \<Rightarrow> graphNode" where
  "after_dispatch s =
     (case routeDispatch s of
        SendSpecialists xs \<Rightarrow> NSpecialists xs
      | ToSynthesize \<Rightarrow> NSynthesize
      | ToPrepareChange \<Rightarrow> NPrepare)"

definition after_prepare :: "workflowState \<Rightarrow> graphNode result" where
  "after_prepare s =
     sbind (routePreparedChange s) (\<lambda>r. Inr (case r of
       SendChange c \<Rightarrow> NChange c | ToVerify \<Rightarrow> NVerify | ToEscalate \<Rightarrow> NEscalate))"

definition after_verify :: "verifyRoute \<Rightarrow> graphNode" where
  "after_verify r = (case r of VSynthesize \<Rightarrow> NSynthesize | VDiagnose \<Rightarrow> NDiagnose | VEscalate \<Rightarrow> NEscalate)"

definition run_specialists ::
  "builtins \<Rightarrow> 'e stepInput \<Rightarrow> specialistState list \<Rightarrow> channelWrite list result" where
  "run_specialists B i sts =
     sbind (traverse (\<lambda>(n, st). with_retry (\<lambda>k. specialistNode B (siAnswers i n k) st)) (enumerate 0 sts))
       (\<lambda>outs. Inr (concat (map specialist_output outs)))"

text \<open>\<open>siAnswers i n k\<close>: the \<open>n\<close>th worker call of the superstep, on the \<open>k\<close>th attempt of its node.\<close>

definition plain_step ::
  "builtins \<Rightarrow> string \<Rightarrow> 'e stepInput \<Rightarrow> graphNode \<Rightarrow> workflowState \<Rightarrow> (workflowState \<times> graphNode) result" where
  "plain_step B threadId i n s =
     (case n of
        NClassify \<Rightarrow> Inr (apply_writes (classifyNode s) s, NDiscover)
      | NDiscover \<Rightarrow>
          sbind (with_retry (\<lambda>k. discoverNode B (siAnswers i 0 k) (siAnswers i 1 k) s)) (\<lambda>ws.
          Inr (apply_writes ws s, NDispatch))
      | NDispatch \<Rightarrow>
          (let s' = apply_writes dispatchNode s in Inr (s', after_dispatch s'))
      | NSpecialists sts \<Rightarrow>
          sbind (run_specialists B i sts) (\<lambda>ws. Inr (apply_writes ws s, NCollect))
      | NCollect \<Rightarrow>
          sbind (collectNode B s) (\<lambda>ws. Inr (apply_writes ws s, NDispatch))
      | NPrepare \<Rightarrow>
          sbind (prepareChangeNode B threadId (siConfigurable i) s) (\<lambda>ws.
          sbind (after_prepare (apply_writes ws s)) (\<lambda>m. Inr (apply_writes ws s, m)))
      | NVerify \<Rightarrow>
          sbind (with_retry (\<lambda>k. verifyNode B (siAnswers i 0 k) (siRunner i k) s)) (\<lambda>(ws, r).
          Inr (apply_writes ws s, after_verify r))
      | NDiagnose \<Rightarrow>
          sbind (with_retry (\<lambda>k. diagnoseNode B (siAnswers i 0 k) s)) (\<lambda>ws.
          Inr (apply_writes ws s, NRepair))
      | NSynthesize \<Rightarrow>
          sbind (with_retry (\<lambda>k. synthesizeNode B (siAnswers i 0 k) s)) (\<lambda>ws.
          Inr (apply_writes ws s, NEnd))
      | NEscalate \<Rightarrow> Inr (apply_writes (escalateNode s) s, NEnd)
      | _ \<Rightarrow> Inl (PlainError ''no plain node''))"

section \<open>Supersteps with a mutation\<close>

type_synonym ('e, 'j) claimer =
  "'e \<Rightarrow> 'j \<Rightarrow> string \<Rightarrow> mutationOperation \<Rightarrow> mutationClaim result \<times> 'j"
type_synonym ('e, 'j) completer =
  "'e \<Rightarrow> 'j \<Rightarrow> string \<Rightarrow> mutationOperation \<Rightarrow> string \<Rightarrow> unit result \<times> 'j"

text \<open>\<open>executeMutation\<close> as the nodes see it; a dead process is an error nobody catches.\<close>

definition execution_of ::
  "('e, 'j) claimer \<Rightarrow> ('e, 'j) completer \<Rightarrow> string \<Rightarrow> 'e stepInput \<Rightarrow> 'j \<Rightarrow> mutationOperation \<Rightarrow>
   mutationExecution result" where
  "execution_of C D threadId i j op =
     (case fst (executeMutation C D (siClaimEnv i) (siCompleteEnv i) j threadId op (siWorker i)) of
        None \<Rightarrow> Inl (PlainError ''process died'')
      | Some r \<Rightarrow> r)"

definition journal_after ::
  "('e, 'j) claimer \<Rightarrow> ('e, 'j) completer \<Rightarrow> string \<Rightarrow> 'e stepInput \<Rightarrow> 'j \<Rightarrow> mutationOperation option \<Rightarrow>
   'j \<times> mutationOperation list" where
  "journal_after C D threadId i j asked =
     (case asked of
        None \<Rightarrow> (j, [])
      | Some op \<Rightarrow>
          (case snd (executeMutation C D (siClaimEnv i) (siCompleteEnv i) j threadId op (siWorker i)) of
             (j', invoked) \<Rightarrow> (j', if invoked then [op] else [])))"

definition mutation_step ::
  "builtins \<Rightarrow> ('e, 'j) claimer \<Rightarrow> ('e, 'j) completer \<Rightarrow> string \<Rightarrow> 'e stepInput \<Rightarrow> 'j \<Rightarrow> graphNode \<Rightarrow>
   workflowState \<Rightarrow> (workflowState \<times> graphNode) result \<times> mutationOperation option" where
  "mutation_step B C D threadId i j n s =
     (case n of
        NChange st \<Rightarrow>
          (case run_change B threadId (siConfigurable i) (siResume i) (execution_of C D threadId i j)
                  (siRunner i 0) st of
             (Inl e, asked) \<Rightarrow> (Inl e, asked)
           | (Inr (ChangeSuspended p), asked) \<Rightarrow> (Inl (PlainError ''interrupted''), asked)
           | (Inr (ChangeEnded st'), asked) \<Rightarrow>
               (Inr (apply_writes (change_output st') s, NPrepare), asked))
      | NRepair \<Rightarrow>
          (sbind (repairNode B (execution_of C D threadId i j (repair_operation s)) s) (\<lambda>ws.
           Inr (apply_writes ws s, NVerify)), Some (repair_operation s))
      | _ \<Rightarrow> (Inl (PlainError ''no mutating node''), None))"

definition mutating :: "graphNode \<Rightarrow> bool" where
  "mutating n = (case n of NChange st \<Rightarrow> True | NRepair \<Rightarrow> True | _ \<Rightarrow> False)"

definition advance ::
  "(workflowState \<times> graphNode) result \<Rightarrow> 'j graphConfig \<Rightarrow> 'j graphConfig" where
  "advance r c =
     (case r of
        Inl e \<Rightarrow> c
      | Inr (s', n') \<Rightarrow> c\<lparr>gcState := s', gcNext := n', gcSupersteps := gcSupersteps c + 1\<rparr>)"

definition graph_next ::
  "builtins \<Rightarrow> ('e, 'j) claimer \<Rightarrow> ('e, 'j) completer \<Rightarrow> string \<Rightarrow> 'e stepInput \<Rightarrow> 'j graphConfig \<Rightarrow>
   'j graphConfig" where
  "graph_next B C D threadId i c =
     (if gcNext c = NEnd then c
      else if mutating (gcNext c) then
        (case mutation_step B C D threadId i (gcJournal c) (gcNext c) (gcState c) of
           (r, asked) \<Rightarrow>
             (case journal_after C D threadId i (gcJournal c) asked of
                (j', ops) \<Rightarrow> advance r (c\<lparr>gcJournal := j', gcInvoked := gcInvoked c @ ops\<rparr>)))
      else advance (plain_step B threadId i (gcNext c) (gcState c)) c)"

definition initial_config :: "compiledWorkflow \<Rightarrow> bool \<Rightarrow> 'j \<Rightarrow> 'j graphConfig" where
  "initial_config w approvalRequired j =
     \<lparr>gcState = initial_state w approvalRequired, gcNext = NClassify, gcJournal = j, gcInvoked = [],
      gcSupersteps = 0\<rparr>"

text \<open>The configurations some sequence of inputs leads to.\<close>

inductive reachable ::
  "builtins \<Rightarrow> ('e, 'j) claimer \<Rightarrow> ('e, 'j) completer \<Rightarrow> string \<Rightarrow> compiledWorkflow \<Rightarrow> bool \<Rightarrow> 'j \<Rightarrow>
   'j graphConfig \<Rightarrow> bool"
  for B C D threadId w a j where
  start: "reachable B C D threadId w a j (initial_config w a j)"
| superstep: "reachable B C D threadId w a j c \<Longrightarrow>
    reachable B C D threadId w a j (graph_next B C D threadId i c)"

section \<open>What holds between supersteps\<close>

definition params :: "compiledWorkflow \<Rightarrow> bool \<Rightarrow> workflowState \<Rightarrow> bool" where
  "params w a s \<longleftrightarrow> wsPattern s = cwPattern w \<and> wsMaxIterations s = cwMaxIterations w \<and>
     wsApprovalRequired s = a \<and> wsObjective s = cwObjective w"

lemma params_apply [simp]: "params w a (apply_writes ws s) = params w a s"
proof (induction ws arbitrary: s)
  case (Cons x ws)
  have "params w a (apply_write x s) = params w a s" by (cases x) (simp_all add: params_def)
  with Cons show ?case by simp
qed simp

definition analysed :: "workflowState \<Rightarrow> bool" where
  "analysed s \<longleftrightarrow> 1 \<le> length (wsWorkItems s) \<and> length (wsWorkItems s) \<le> MAX_WORK_ITEMS \<and>
     distinct (map wiId (wsWorkItems s)) \<and> distinct (map fiWorkItemId (wsFindings s)) \<and>
     fiWorkItemId ` set (wsFindings s) \<subseteq> wiId ` set (wsWorkItems s) \<and>
     0 \<le> wsDiscoveryRound s \<and> wsDiscoveryRound s \<le> 2 \<and>
     (case wsPlan s of None \<Rightarrow> True | Some p \<Rightarrow> wf_plan p)"

definition untouched :: "workflowState \<Rightarrow> bool" where
  "untouched s \<longleftrightarrow> wsChanges s = [] \<and> wsChangeResults s = [] \<and> wsVerification s = None \<and> wsIteration s = 0"

text \<open>Each result follows, in the log of results, a passed result of every dependency of its change.\<close>

definition passed_before :: "changeResult list \<Rightarrow> nat \<Rightarrow> string \<Rightarrow> bool" where
  "passed_before rs i d \<longleftrightarrow> (\<exists>k < i. crChangeId (rs ! k) = d \<and> crStatus (rs ! k) = CePassed)"

definition deps_first :: "executionPlan \<Rightarrow> changeResult list \<Rightarrow> bool" where
  "deps_first plan rs \<longleftrightarrow> (\<forall>i < length rs. \<forall>c \<in> set (planChanges plan). changeId c = crChangeId (rs ! i) \<longrightarrow>
     (\<forall>d \<in> set (dependsOn c). passed_before rs i d))"

definition results_ok :: "compiledWorkflow \<Rightarrow> executionPlan \<Rightarrow> changeResult list \<Rightarrow> bool" where
  "results_ok w plan rs \<longleftrightarrow> deps_first plan rs \<and>
     (isAggregatePlan plan \<longrightarrow> (\<forall>r \<in> set rs. crStatus r \<noteq> CeFailed)) \<and>
     (\<forall>r \<in> set rs. 1 \<le> crAttempt r \<and> crAttempt r \<le> cwMaxIterations w + 1 \<and>
        crChangeId r \<in> plan_ids (planChanges plan))"

definition delivering :: "compiledWorkflow \<Rightarrow> workflowState \<Rightarrow> executionPlan \<Rightarrow> bool" where
  "delivering w s plan \<longleftrightarrow> cwPattern w = Delivery \<and> wsPlan s = Some plan \<and> orderable plan \<and>
     results_ok w plan (wsChangeResults s)"

definition iterating :: "compiledWorkflow \<Rightarrow> workflowState \<Rightarrow> executionPlan \<Rightarrow> bool" where
  "iterating w s plan \<longleftrightarrow> 0 \<le> wsIteration s \<and> wsIteration s \<le> cwMaxIterations w \<and>
     (0 < wsIteration s \<longrightarrow> isAggregatePlan plan)"

definition verified_pass :: "workflowState \<Rightarrow> bool" where
  "verified_pass s \<longleftrightarrow> (\<exists>v. wsVerification s = Some v \<and> vrPassed v)"

definition synthesizable :: "compiledWorkflow \<Rightarrow> workflowState \<Rightarrow> bool" where
  "synthesizable w s \<longleftrightarrow>
     cwPattern w = Review \<and> untouched s \<and> analysed s \<or>
     (\<exists>plan. delivering w s plan \<and> iterating w s plan \<and> all_passed plan (wsChangeResults s) \<and> verified_pass s)"

definition sent :: "executionPlan \<Rightarrow> bool \<Rightarrow> changeResult list \<Rightarrow> changeState \<Rightarrow> bool" where
  "sent plan a rs0 st \<longleftrightarrow>
     (\<exists>c n. c \<in> set (planChanges plan) \<and> chPlan st = plan \<and> chChange st = c \<and> chCurrent st = running_result c n \<and>
        chApprovalOutcome st = None \<and> chChanges st = [] \<and> chChangeResults st = [] \<and> chIteration st = 0 \<and>
        (latest_status rs0 (changeId c) = None \<or> latest_status rs0 (changeId c) = Some CeFailed) \<and>
        n = attempt_of rs0 (changeId c) + 1 \<and>
        (chInterrupt st = None \<longleftrightarrow> \<not> a \<and> level (risk c) \<noteq> High))"

fun node_inv :: "string \<Rightarrow> compiledWorkflow \<Rightarrow> bool \<Rightarrow> graphNode \<Rightarrow> workflowState \<Rightarrow> bool" where
  "node_inv tid w a NClassify s \<longleftrightarrow> untouched s \<and> wsWorkItems s = [] \<and> wsFindings s = [] \<and>
     wsDiscoveryRound s = 0 \<and> wsPlan s = None \<and> wsStatus s = Running"
| "node_inv tid w a NDiscover s \<longleftrightarrow> untouched s \<and> wsWorkItems s = [] \<and> wsFindings s = [] \<and>
     wsDiscoveryRound s = 0 \<and> wsPlan s = None \<and> wsStatus s = Running"
| "node_inv tid w a NDispatch s \<longleftrightarrow> untouched s \<and> analysed s \<and> wsStatus s = Running"
| "node_inv tid w a NCollect s \<longleftrightarrow> untouched s \<and> analysed s \<and> pending_items s = [] \<and> wsStatus s = Running"
| "node_inv tid w a (NSpecialists sts) s \<longleftrightarrow> untouched s \<and> analysed s \<and> sts \<noteq> [] \<and> wsStatus s = Running \<and>
     list_all (\<lambda>st. spFindings st = [] \<and> spTrace st = []) sts \<and>
     map spCurrentWorkItem sts = map Some (pending_items s)"
| "node_inv tid w a NPrepare s \<longleftrightarrow> cwPattern w = Delivery \<and> wsStatus s = Running \<and> wsIteration s = 0 \<and>
     wsVerification s = None \<and>
     orderable (current_plan tid s) \<and> settled (current_plan tid s) (wsChangeResults s) \<and>
     results_ok w (current_plan tid s) (wsChangeResults s)"
| "node_inv tid w a (NChange st) s \<longleftrightarrow> wsIteration s = 0 \<and> wsVerification s = None \<and>
     wsStatus s = (if chInterrupt st = None then Running else AwaitingApproval) \<and>
     (\<exists>plan rs0. delivering w s plan \<and> wsChangeResults s = rs0 @ [chCurrent st] \<and> settled plan rs0 \<and> sent plan a rs0 st)"
| "node_inv tid w a NVerify s \<longleftrightarrow> wsStatus s = Running \<and>
     (\<exists>plan. delivering w s plan \<and> iterating w s plan \<and> all_passed plan (wsChangeResults s))"
| "node_inv tid w a NDiagnose s \<longleftrightarrow> wsStatus s = Running \<and> wsIteration s < cwMaxIterations w \<and>
     (\<exists>plan. delivering w s plan \<and> iterating w s plan \<and> all_passed plan (wsChangeResults s) \<and> isAggregatePlan plan)"
| "node_inv tid w a NRepair s \<longleftrightarrow> wsStatus s = Running \<and> wsIteration s < cwMaxIterations w \<and>
     (\<exists>plan. delivering w s plan \<and> iterating w s plan \<and> all_passed plan (wsChangeResults s) \<and> isAggregatePlan plan)"
| "node_inv tid w a NSynthesize s \<longleftrightarrow> wsStatus s = Running \<and> synthesizable w s"
| "node_inv tid w a NEscalate s \<longleftrightarrow> wsStatus s = Running \<and> (\<exists>plan. delivering w s plan \<and> iterating w s plan)"
| "node_inv tid w a NEnd s \<longleftrightarrow>
     wsStatus s = Completed \<and> wsPhase s = Synthesized \<and> synthesizable w s \<or>
     wsStatus s = NeedsAttention \<and> wsPhase s = Escalated \<and> (\<exists>plan. delivering w s plan \<and> iterating w s plan)"

section \<open>Analysis\<close>

lemma with_retry_Inr: "with_retry f = Inr r \<Longrightarrow> \<exists>k. f k = Inr r"
  by (auto simp: with_retry_def split: sum.splits if_splits)

lemma classify_inv:
  "node_inv tid w a NClassify s \<Longrightarrow> node_inv tid w a NDiscover (apply_writes (classifyNode s) s)"
  by (simp add: classifyNode_def untouched_def)

lemma discover_inv:
  assumes "node_inv tid w a NDiscover s" and "discoverNode B x y s = Inr ws"
  shows "node_inv tid w a NDispatch (apply_writes ws s)"
proof -
  from assms(2) obtain d p where e: "executeDiscovery B x y (wsPlan s) = Inr (d, p)"
    and ws: "ws = [WWorkItems (drWorkItems d), WAcceptanceCriteria (drAcceptanceCriteria d)] @
          (case p of None \<Rightarrow> [] | Some p \<Rightarrow> [WPlan (Some p)]) @
          [WPhase Discovered, WTrace [trace_event TrDiscover (wsIteration s)]]"
    by (auto simp: discoverNode_def sbind_eq_Inr)
  from e have "1 \<le> length (drWorkItems d) \<and> length (drWorkItems d) \<le> MAX_WORK_ITEMS \<and>
      distinct (map wiId (drWorkItems d)) \<and> (case p of None \<Rightarrow> True | Some plan \<Rightarrow> wf_plan plan)"
    by (cases rule: executeDiscovery_cases) (blast dest: parse_envelope_bounded)+
  with assms(1) show ?thesis
    by (cases p) (simp_all add: ws untouched_def analysed_def)
qed

lemma dispatch_inv:
  assumes "node_inv tid w a NDispatch s" and "params w a s" and "0 \<le> cwMaxIterations w"
  shows "node_inv tid w a (after_dispatch s) s"
proof (cases "pending_items s = []")
  case False
  with assms(1) show ?thesis
    by (simp add: after_dispatch_def routeDispatch_def list_all_iff)
next
  case True
  have ok: "orderable (current_plan tid s)" if "analysed s"
    using that by (auto simp: current_plan_def analysed_def aggregate_orderable wf_plan_orderable split: option.splits)
  have "settled (current_plan tid s) [] \<and> results_ok w (current_plan tid s) []"
    by (simp add: settled_def results_ok_def deps_first_def latest_status_def)
  with True assms ok show ?thesis
    by (cases "cwPattern w") (simp_all add: after_dispatch_def routeDispatch_def params_def synthesizable_def untouched_def)
qed

lemma specialist_Inr:
  assumes "specialistNode B x st = Inr st'" and "spCurrentWorkItem st = Some w"
    and "spFindings st = []" and "spTrace st = []"
  shows "\<exists>f e. specialist_output st' = [WFindings [f], WTrace [e]] \<and> fiWorkItemId f = wiId w"
  using assms by (auto simp: specialistNode_def sbind_eq_Inr specialist_output_def dest!: parseFinding_wf)

lemma specialist_outputs:
  assumes "list_all2 (\<lambda>w out. \<exists>f e. out = [WFindings [f], WTrace [e]] \<and> fiWorkItemId f = wiId w) items outs"
  shows "\<exists>fs. map fiWorkItemId fs = map wiId items \<and>
    wsFindings (apply_writes (concat outs) s) = wsFindings s @ fs \<and>
    untouched (apply_writes (concat outs) s) = untouched s \<and>
    wsWorkItems (apply_writes (concat outs) s) = wsWorkItems s \<and>
    wsDiscoveryRound (apply_writes (concat outs) s) = wsDiscoveryRound s \<and>
    wsPlan (apply_writes (concat outs) s) = wsPlan s \<and> wsStatus (apply_writes (concat outs) s) = wsStatus s"
  using assms
proof (induction arbitrary: s rule: list_all2_induct)
  case Nil
  then show ?case by simp
next
  case (Cons w items out outs)
  then obtain f e where fe: "out = [WFindings [f], WTrace [e]]" "fiWorkItemId f = wiId w" by blast
  from Cons.IH[of "apply_writes out s"] obtain fs where fs: "map fiWorkItemId fs = map wiId items"
    "wsFindings (apply_writes (concat outs) (apply_writes out s)) = wsFindings (apply_writes out s) @ fs"
    "untouched (apply_writes (concat outs) (apply_writes out s)) = untouched (apply_writes out s)"
    "wsWorkItems (apply_writes (concat outs) (apply_writes out s)) = wsWorkItems (apply_writes out s)"
    "wsDiscoveryRound (apply_writes (concat outs) (apply_writes out s)) = wsDiscoveryRound (apply_writes out s)"
    "wsPlan (apply_writes (concat outs) (apply_writes out s)) = wsPlan (apply_writes out s)"
    "wsStatus (apply_writes (concat outs) (apply_writes out s)) = wsStatus (apply_writes out s)" by blast
  show ?case
    by (rule exI[of _ "f # fs"]) (use fs fe in \<open>simp add: untouched_def\<close>)
qed

lemma specialists_inv:
  assumes "node_inv tid w a (NSpecialists sts) s" and "run_specialists B i sts = Inr ws"
  shows "node_inv tid w a NCollect (apply_writes ws s)"
proof -
  from assms(2) obtain outs where t: "traverse (\<lambda>(n, st). with_retry (\<lambda>k. specialistNode B (siAnswers i n k) st)) (enumerate 0 sts) = Inr outs"
    and ws: "ws = concat (map specialist_output outs)"
    by (auto simp: run_specialists_def sbind_eq_Inr)
  let ?items = "pending_items s"
  from t have l2: "list_all2 (\<lambda>(n, st) out. with_retry (\<lambda>k. specialistNode B (siAnswers i n k) st) = Inr out) (enumerate 0 sts) outs"
    by (simp add: traverse_eq_Inr case_prod_beta')
  have len: "length ?items = length sts" "length outs = length sts"
    using assms(1) list_all2_lengthD[OF l2] map_eq_imp_length_eq[of spCurrentWorkItem sts Some ?items] by auto
  have "list_all2 (\<lambda>w out. \<exists>f e. out = [WFindings [f], WTrace [e]] \<and> fiWorkItemId f = wiId w) ?items (map specialist_output outs)"
  proof (rule list_all2_all_nthI)
    fix n assume n: "n < length ?items"
    from list_all2_nthD[OF l2, of n] n len obtain k where k: "specialistNode B (siAnswers i n k) (sts ! n) = Inr (outs ! n)"
      by (auto simp: nth_enumerate_eq dest: with_retry_Inr)
    have "spCurrentWorkItem (sts ! n) = Some (?items ! n)"
    proof -
      have "map spCurrentWorkItem sts ! n = map Some ?items ! n" using assms(1) by simp
      then show ?thesis using n len by simp
    qed
    moreover have "spFindings (sts ! n) = []" "spTrace (sts ! n) = []"
      using assms(1) n len by (auto simp: list_all_length)
    ultimately show "\<exists>f e. map specialist_output outs ! n = [WFindings [f], WTrace [e]] \<and> fiWorkItemId f = wiId (?items ! n)"
      using specialist_Inr[OF k, of "?items ! n"] n len by simp
  qed (use len in simp)
  from specialist_outputs[OF this, of s] obtain fs where fs: "map fiWorkItemId fs = map wiId ?items"
    "wsFindings (apply_writes ws s) = wsFindings s @ fs" "untouched (apply_writes ws s) = untouched s"
    "wsWorkItems (apply_writes ws s) = wsWorkItems s" "wsDiscoveryRound (apply_writes ws s) = wsDiscoveryRound s"
    "wsPlan (apply_writes ws s) = wsPlan s" "wsStatus (apply_writes ws s) = wsStatus s"
    by (auto simp: ws)
  have items: "set ?items \<subseteq> set (wsWorkItems s)" "distinct (map wiId ?items)"
    "wiId ` set ?items \<inter> fiWorkItemId ` set (wsFindings s) = {}"
    using assms(1) by (auto simp: pending_items_def analysed_def distinct_map_filter)
  have ids: "fiWorkItemId ` set fs = wiId ` set ?items" using fs(1) by (metis list.set_map)
  have sub: "fiWorkItemId ` set fs \<subseteq> wiId ` set (wsWorkItems s)" using ids items(1) by blast
  have disj: "fiWorkItemId ` set (wsFindings s) \<inter> fiWorkItemId ` set fs = {}" using ids items(3) by blast
  have "analysed (apply_writes ws s)"
    using assms(1) items(2,3) sub disj by (simp add: analysed_def fs image_Un Int_commute)
  moreover have "pending_items (apply_writes ws s) = []"
  proof -
    have "wiId x \<in> fiWorkItemId ` set (wsFindings s) \<union> fiWorkItemId ` set fs" if "x \<in> set (wsWorkItems s)" for x
      using that ids unfolding pending_items_def by auto
    then show ?thesis by (auto simp: pending_items_def fs filter_empty_conv image_Un)
  qed
  ultimately show ?thesis using assms(1) fs by simp
qed

lemma collect_inv:
  assumes "node_inv tid w a NCollect s" and "collectNode B s = Inr ws"
  shows "node_inv tid w a NDispatch (apply_writes ws s)"
proof -
  let ?s = "apply_writes ws s"
  from assms(2) obtain new where n: "wsWorkItems ?s = wsWorkItems s @ take (MAX_WORK_ITEMS - length (wsWorkItems s)) new"
    "distinct (map wiId new)" "wiId ` set new \<inter> wiId ` set (wsWorkItems s) = {}"
    "new \<noteq> [] \<longrightarrow> wsDiscoveryRound s < 2"
    "wsDiscoveryRound ?s =
       (if take (MAX_WORK_ITEMS - length (wsWorkItems s)) new = [] then wsDiscoveryRound s else wsDiscoveryRound s + 1)"
    by (rule collectNode_Inr)
  have other: "wsFindings ?s = wsFindings s" "wsPlan ?s = wsPlan s" "untouched ?s = untouched s" "wsStatus ?s = wsStatus s"
    using assms(2) by (auto simp: collectNode_def sbind_eq_Inr Let_def untouched_def split: if_splits)
  let ?t = "take (MAX_WORK_ITEMS - length (wsWorkItems s)) new"
  have "distinct (map wiId ?t)" using n(2) by (simp add: take_map[symmetric])
  moreover have "wiId ` set ?t \<inter> wiId ` set (wsWorkItems s) = {}" using n(3) set_take_subset by fastforce
  moreover have "?t \<noteq> [] \<longrightarrow> wsDiscoveryRound s < 2" using n(4) by auto
  ultimately show ?thesis using assms(1) n(1,5) other
    by (auto simp: analysed_def simp del: take_eq_Nil split: if_splits)
qed

section \<open>Planned changes\<close>

lemma passed_before_mono: "passed_before rs i d \<Longrightarrow> i \<le> j \<Longrightarrow> passed_before rs j d"
  unfolding passed_before_def using order_less_le_trans by blast

lemma passed_before_append:
  assumes "i \<le> length rs"
  shows "passed_before (rs @ xs) i d = passed_before rs i d"
proof -
  have "(rs @ xs) ! k = rs ! k" if "k < i" for k using assms that by (simp add: nth_append)
  then show ?thesis unfolding passed_before_def by auto
qed

lemma latest_member: "latestResults rs i = Some r \<Longrightarrow> r \<in> set rs \<and> crChangeId r = i"
  by (auto simp: latestResults_def dest!: map_last_SomeD)

lemma latest_passed: "latest_status rs d = Some CePassed \<Longrightarrow> passed_before rs (length rs) d"
  by (auto simp: latest_status_Some passed_before_def in_set_conv_nth dest!: latest_member)

lemma deps_again:
  assumes "deps_first plan rs" and "r \<in> set rs" and "c \<in> set (planChanges plan)" and "changeId c = crChangeId r"
    and "d \<in> set (dependsOn c)"
  shows "passed_before rs (length rs) d"
proof -
  from assms(2) obtain i where i: "i < length rs" "rs ! i = r" by (auto simp: in_set_conv_nth)
  with assms have "passed_before rs i d" by (auto simp: deps_first_def)
  with i(1) show ?thesis by (auto intro: passed_before_mono)
qed

lemma results_ok_snoc:
  assumes "results_ok w plan rs" and "1 \<le> crAttempt r" and "crAttempt r \<le> cwMaxIterations w + 1"
    and "crChangeId r \<in> plan_ids (planChanges plan)"
    and "isAggregatePlan plan \<Longrightarrow> crStatus r \<noteq> CeFailed"
    and "\<And>c d. c \<in> set (planChanges plan) \<Longrightarrow> changeId c = crChangeId r \<Longrightarrow> d \<in> set (dependsOn c) \<Longrightarrow>
      passed_before rs (length rs) d"
  shows "results_ok w plan (rs @ [r])"
proof -
  have "passed_before (rs @ [r]) i d"
    if "i < length (rs @ [r])" "c \<in> set (planChanges plan)" "changeId c = crChangeId ((rs @ [r]) ! i)" "d \<in> set (dependsOn c)"
    for i c d
  proof (cases "i < length rs")
    case True
    with that assms(1) have "passed_before rs i d" by (auto simp: results_ok_def deps_first_def nth_append)
    with True show ?thesis by (simp add: passed_before_append)
  next
    case False
    with that have "i = length rs" by simp
    with that assms(6) show ?thesis by (simp add: passed_before_append)
  qed
  then have "deps_first plan (rs @ [r])" by (auto simp: deps_first_def)
  with assms(1-5) show ?thesis by (auto simp: results_ok_def)
qed

lemma results_ok_again:
  assumes "results_ok w plan rs" and "q \<in> set rs" and "crChangeId r = crChangeId q"
    and "1 \<le> crAttempt r" and "crAttempt r \<le> cwMaxIterations w + 1"
    and "isAggregatePlan plan \<Longrightarrow> crStatus r \<noteq> CeFailed"
  shows "results_ok w plan (rs @ [r])"
proof (rule results_ok_snoc)
  show "crChangeId r \<in> plan_ids (planChanges plan)" using assms(1-3) by (auto simp: results_ok_def)
  show "passed_before rs (length rs) d"
    if "c \<in> set (planChanges plan)" "changeId c = crChangeId r" "d \<in> set (dependsOn c)" for c d
    using deps_again[of plan rs q c d] assms(1-3) that by (simp add: results_ok_def)
qed (use assms in auto)

lemma prepare_inv:
  assumes inv: "node_inv tid w a NPrepare s" and par: "params w a s" and max: "0 \<le> cwMaxIterations w"
    and node: "prepareChangeNode B tid cfg s = Inr ws" and route: "after_prepare (apply_writes ws s) = Inr m"
  shows "node_inv tid w a m (apply_writes ws s)"
proof -
  let ?plan = "current_plan tid s"
  let ?rs = "wsChangeResults s"
  let ?s = "apply_writes ws s"
  from inv have ord: "orderable ?plan" and st: "settled ?plan ?rs" and ok: "results_ok w ?plan ?rs"
    and del: "cwPattern w = Delivery" and idle: "wsStatus s = Running" "wsIteration s = 0" "wsVerification s = None" by auto
  have ids: "distinct (map changeId (planChanges ?plan))" using ord by (simp add: orderable_def)
  show ?thesis
    using refl ord st
  proof (cases rule: prepareChange_cases[where B = B and cfg = cfg])
    case (select c n)
    from select(1) node selectChange_eq[OF ids select(2), of B cfg s n]
    have s': "wsPlan ?s = Some ?plan" "wsChangeResults ?s = ?rs @ [running_result c n]" "wsIteration ?s = 0"
      "wsVerification ?s = None" "wsInterrupt ?s = interruptForChange B cfg ?plan c n (wsApprovalRequired s)"
      "wsStatus ?s = (if wsInterrupt ?s = None then Running else AwaitingApproval)"
      using idle by (auto simp: Let_def)
    have fresh: "latest_status ?rs (changeId c) = None \<or> latest_status ?rs (changeId c) = Some CeFailed"
      using select(3) by (auto simp: runnable_def)
    have n: "1 \<le> n" "n \<le> cwMaxIterations w + 1"
      using select(3,4) ok par max
      by (auto simp: runnable_def attempt_of_def results_ok_def params_def latest_status_def
          dest!: latest_member split: option.splits)
    have deps: "passed_before ?rs (length ?rs) d"
      if "c' \<in> set (planChanges ?plan)" "changeId c' = changeId c" "d \<in> set (dependsOn c')" for c' d
    proof (cases "latestResults ?rs (changeId c)")
      case None
      have "c' = c" using that(1,2) select(2) ids by (meson distinct_map inj_on_eq_iff)
      with None select(3) that(3) show ?thesis by (auto simp: runnable_def latest_status_def intro: latest_passed)
    next
      case (Some q)
      from latest_member[OF Some] deps_again[of ?plan ?rs q c' d] ok that show ?thesis
        by (simp add: results_ok_def)
    qed
    have "results_ok w ?plan (?rs @ [running_result c n])"
      using select(2) n deps by (intro results_ok_snoc[OF ok]) (auto simp: running_result_def plan_ids_def)
    then have d': "delivering w ?s ?plan" using del ord s' by (simp add: delivering_def)
    have "after_prepare ?s = Inr m" by (rule route)
    with route_selected[OF ids select(2) st s'(1,2)] obtain st' where m: "m = NChange st'"
      and st': "chPlan st' = ?plan" "chChange st' = c" "chCurrent st' = running_result c n"
      "chApprovalOutcome st' = None" "chChanges st' = []" "chChangeResults st' = []" "chIteration st' = wsIteration ?s"
      "chInterrupt st' = wsInterrupt ?s"
      by (auto simp: after_prepare_def)
    have "sent ?plan a ?rs st'"
      using st' select(2,4) fresh s' par
      by (auto simp: sent_def interrupt_iff params_def intro!: exI[of _ c] exI[of _ n])
    with m d' st s' st'(3,8) show ?thesis by auto
  next
    case (exhausted c p)
    let ?p = "p\<lparr>crStatus := CeNeedsAttention\<rparr>"
    from exhausted(1) node have s': "wsPlan ?s = Some ?plan" "wsChangeResults ?s = ?rs @ [?p]" "wsIteration ?s = 0"
      "wsStatus ?s = Running" using idle by auto
    have "settled ?plan (wsChangeResults ?s)" using st by (auto simp: s' settled_def latest_status_snoc)
    with route_settled[of ?plan ?s] s' exhausted_not_passed[OF exhausted(2,3)] route have m: "m = NEscalate"
      by (simp add: after_prepare_def)
    from latest_member[OF exhausted(3)] have p: "p \<in> set ?rs" by simp
    with ok have "1 \<le> crAttempt p" "crAttempt p \<le> cwMaxIterations w + 1" by (auto simp: results_ok_def)
    then have "results_ok w ?plan (?rs @ [?p])" by (intro results_ok_again[OF ok p]) auto
    with m s' del ord max show ?thesis by (simp add: delivering_def iterating_def)
  next
    case done_all
    with node have s': "wsPlan ?s = Some ?plan" "wsChangeResults ?s = ?rs" "wsIteration ?s = 0" "wsStatus ?s = Running"
      using idle by auto
    with route_settled[of ?plan ?s] st route have "m = (if all_passed ?plan ?rs then NVerify else NEscalate)"
      by (simp add: after_prepare_def split: if_splits)
    with s' del ord ok max show ?thesis by (simp add: delivering_def iterating_def)
  qed
qed

lemma change_inv:
  assumes inv: "node_inv tid w a (NChange st) s"
    and run: "run_change B tid cfg resume execute runner st = (Inr (ChangeEnded st'), asked)"
  shows "node_inv tid w a NPrepare (apply_writes (change_output st') s)"
proof -
  let ?s = "apply_writes (change_output st') s"
  from inv obtain plan rs0 where del: "delivering w s plan" and rs: "wsChangeResults s = rs0 @ [chCurrent st]"
    and st: "settled plan rs0" and snt: "sent plan a rs0 st" and idle: "wsIteration s = 0" "wsVerification s = None" by auto
  from snt obtain c n where c: "c \<in> set (planChanges plan)" "chPlan st = plan" "chChange st = c"
    "chCurrent st = running_result c n" "chApprovalOutcome st = None" "chChanges st = []" "chChangeResults st = []"
    "chIteration st = 0" "latest_status rs0 (changeId c) = None \<or> latest_status rs0 (changeId c) = Some CeFailed"
    "n = attempt_of rs0 (changeId c) + 1" unfolding sent_def by blast
  from change_run_facts[OF run c(5,7,6) refl] obtain r where r: "chInterrupt st' = None" "chStatus st' = Running"
    "chChangeResults st' = [r]" "crChangeId r = changeId c" "crAttempt r = n"
    and it: "chIteration st' = 0 \<or> isAggregatePlan plan \<and> n \<noteq> 1"
    and asked: "case asked of
         None \<Rightarrow> crStatus r = CeNeedsAttention
       | Some op \<Rightarrow> crStatus r \<in> {CePassed, CeFailed} \<and> (localAcceptanceChecks plan c = [] \<longrightarrow> crStatus r = CePassed)"
    using c by (auto simp: running_result_def split: option.splits)
  have status: "crStatus r \<in> {CePassed, CeFailed, CeNeedsAttention}" using asked by (auto split: option.splits)
  have agg_pass: "crStatus r \<noteq> CeFailed" if "isAggregatePlan plan"
    using asked that by (auto simp: localAcceptanceChecks_def split: option.splits)
  have ok: "results_ok w plan (rs0 @ [chCurrent st])" using del rs by (simp add: delivering_def)
  have n1: "n = 1" if "isAggregatePlan plan"
  proof -
    have "latest_status rs0 (changeId c) \<noteq> Some CeFailed"
      using ok that by (auto simp: results_ok_def latest_status_Some dest!: latest_member)
    with c(9,10) show ?thesis by (auto simp: attempt_of_def latest_status_def split: option.splits)
  qed
  have "chCurrent st \<in> set (rs0 @ [chCurrent st])" by simp
  then have "results_ok w plan ((rs0 @ [chCurrent st]) @ [r])"
    using ok r(4,5) c(4) agg_pass by (intro results_ok_again[OF ok, of "chCurrent st"]) (auto simp: running_result_def results_ok_def)
  moreover have "settled plan ((rs0 @ [chCurrent st]) @ [r])"
    unfolding settled_def latest_status_snoc using st status r(4) c(4)
    by (auto simp: settled_def running_result_def)
  moreover have "wsChangeResults ?s = (rs0 @ [chCurrent st]) @ [r]" "wsPlan ?s = wsPlan s" "wsVerification ?s = None"
    "wsIteration ?s = chIteration st'" "wsStatus ?s = Running"
    using rs r idle by (simp_all add: change_output_def)
  moreover have "chIteration st' = 0" using it n1 by auto
  ultimately show ?thesis using del by (simp add: delivering_def current_plan_def)
qed

section \<open>Verification, repair and the end\<close>

lemma verifyNode_Inr:
  assumes "verifyNode B x r s = Inr (ws, route)" and "wsPlan s = Some plan"
  obtains v refs where "wsVerification (apply_writes ws s) = Some v"
    "route = (if vrPassed v then VSynthesize
       else if isAggregatePlan plan \<and> wsIteration s < wsMaxIterations s then VDiagnose else VEscalate)"
    "wsPlan (apply_writes ws s) = wsPlan s" "wsChangeResults (apply_writes ws s) = wsChangeResults s"
    "wsIteration (apply_writes ws s) = wsIteration s" "wsStatus (apply_writes ws s) = wsStatus s"
  using assms by (auto simp: verifyNode_def sbind_eq_Inr Let_def split: if_splits)

lemma verify_inv:
  assumes inv: "node_inv tid w a NVerify s" and par: "params w a s" and node: "verifyNode B x r s = Inr (ws, route)"
  shows "node_inv tid w a (after_verify route) (apply_writes ws s)"
proof -
  from inv obtain plan where p: "delivering w s plan" "iterating w s plan" "all_passed plan (wsChangeResults s)" by auto
  then have "wsPlan s = Some plan" by (simp add: delivering_def)
  from node this obtain v where v: "wsVerification (apply_writes ws s) = Some v"
    "route = (if vrPassed v then VSynthesize
       else if isAggregatePlan plan \<and> wsIteration s < wsMaxIterations s then VDiagnose else VEscalate)"
    "wsPlan (apply_writes ws s) = wsPlan s" "wsChangeResults (apply_writes ws s) = wsChangeResults s"
    "wsIteration (apply_writes ws s) = wsIteration s" "wsStatus (apply_writes ws s) = wsStatus s"
    by (rule verifyNode_Inr)
  have "delivering w (apply_writes ws s) plan" "iterating w (apply_writes ws s) plan"
    "all_passed plan (wsChangeResults (apply_writes ws s))"
    using p v by (simp_all add: delivering_def iterating_def)
  then show ?thesis using v inv par
    by (auto simp: after_verify_def synthesizable_def verified_pass_def params_def)
qed

lemma diagnose_inv:
  assumes "node_inv tid w a NDiagnose s" and "diagnoseNode B x s = Inr ws"
  shows "node_inv tid w a NRepair (apply_writes ws s)"
proof -
  have "wsPlan (apply_writes ws s) = wsPlan s" "wsChangeResults (apply_writes ws s) = wsChangeResults s"
    "wsIteration (apply_writes ws s) = wsIteration s" "wsStatus (apply_writes ws s) = wsStatus s"
    using assms(2) by (auto simp: diagnoseNode_def sbind_eq_Inr)
  with assms(1) show ?thesis by (auto simp: delivering_def iterating_def)
qed

lemma repair_inv:
  assumes "node_inv tid w a NRepair s" and "repairNode B x s = Inr ws"
  shows "node_inv tid w a NVerify (apply_writes ws s)"
proof -
  have "wsPlan (apply_writes ws s) = wsPlan s" "wsChangeResults (apply_writes ws s) = wsChangeResults s"
    "wsIteration (apply_writes ws s) = wsIteration s + 1" "wsStatus (apply_writes ws s) = wsStatus s"
    using assms(2) by (auto simp: repairNode_def sbind_eq_Inr)
  with assms(1) show ?thesis by (auto simp: delivering_def iterating_def)
qed

lemma synthesize_inv:
  assumes "node_inv tid w a NSynthesize s" and "synthesizeNode B x s = Inr ws"
  shows "node_inv tid w a NEnd (apply_writes ws s)"
proof -
  obtain t where ws: "ws = [WSummary t, WPhase Synthesized, WStatus Completed,
      WTrace [trace_event TrSynthesize (wsIteration s)]]"
    using assms(2) by (auto simp: synthesizeNode_def sbind_eq_Inr)
  have "wsPlan (apply_writes ws s) = wsPlan s" "wsChangeResults (apply_writes ws s) = wsChangeResults s"
    "wsIteration (apply_writes ws s) = wsIteration s" "wsStatus (apply_writes ws s) = Completed"
    "wsPhase (apply_writes ws s) = Synthesized" "wsVerification (apply_writes ws s) = wsVerification s"
    "untouched (apply_writes ws s) = untouched s" "analysed (apply_writes ws s) = analysed s"
    by (simp_all add: ws untouched_def analysed_def)
  with assms(1) show ?thesis by (auto simp: synthesizable_def delivering_def iterating_def verified_pass_def)
qed

lemma escalate_inv:
  assumes "node_inv tid w a NEscalate s"
  shows "node_inv tid w a NEnd (apply_writes (escalateNode s) s)"
proof -
  let ?s = "apply_writes (escalateNode s) s"
  have "wsPlan ?s = wsPlan s" "wsChangeResults ?s = wsChangeResults s" "wsIteration ?s = wsIteration s"
    "wsStatus ?s = NeedsAttention" "wsPhase ?s = Escalated"
    by (simp_all add: escalateNode_def Let_def split: option.splits)
  with assms show ?thesis by (auto simp: delivering_def iterating_def)
qed

section \<open>Every reachable configuration\<close>

lemma plain_step_inv:
  assumes "node_inv tid w a n s" and "params w a s" and "0 \<le> cwMaxIterations w"
    and "plain_step B tid i n s = Inr (s', n')"
  shows "node_inv tid w a n' s' \<and> params w a s'"
proof (cases n)
  case NClassify
  with assms(4) have "s' = apply_writes (classifyNode s) s" "n' = NDiscover" by (auto simp: plain_step_def)
  with assms(1,2) NClassify classify_inv show ?thesis by (metis params_apply)
next
  case NDiscover
  with assms show ?thesis
    by (auto simp: plain_step_def sbind_eq_Inr simp del: node_inv.simps dest!: with_retry_Inr intro: discover_inv)
next
  case NDispatch
  with assms have "s' = s" "n' = after_dispatch s" by (auto simp: plain_step_def dispatchNode_def Let_def)
  with assms NDispatch dispatch_inv show ?thesis by blast
next
  case (NSpecialists sts)
  with assms show ?thesis
    by (auto simp: plain_step_def sbind_eq_Inr simp del: node_inv.simps intro: specialists_inv)
next
  case NCollect
  with assms show ?thesis
    by (auto simp: plain_step_def sbind_eq_Inr simp del: node_inv.simps intro: collect_inv)
next
  case NPrepare
  with assms show ?thesis
    by (auto simp: plain_step_def sbind_eq_Inr simp del: node_inv.simps intro: prepare_inv)
next
  case NVerify
  with assms show ?thesis
    by (auto simp: plain_step_def sbind_eq_Inr simp del: node_inv.simps dest!: with_retry_Inr intro: verify_inv)
next
  case NDiagnose
  with assms show ?thesis
    by (auto simp: plain_step_def sbind_eq_Inr simp del: node_inv.simps dest!: with_retry_Inr intro: diagnose_inv)
next
  case NSynthesize
  with assms show ?thesis
    by (auto simp: plain_step_def sbind_eq_Inr simp del: node_inv.simps dest!: with_retry_Inr intro: synthesize_inv)
next
  case NEscalate
  with assms(4) have "s' = apply_writes (escalateNode s) s" "n' = NEnd" by (auto simp: plain_step_def)
  with assms(1,2) NEscalate escalate_inv show ?thesis by (metis params_apply)
qed (use assms in \<open>auto simp: plain_step_def\<close>)

lemma mutation_step_inv:
  assumes "node_inv tid w a n s" and "params w a s"
    and "mutation_step B C D tid i j n s = (Inr (s', n'), asked)"
  shows "node_inv tid w a n' s' \<and> params w a s'"
proof (cases n)
  case (NChange st)
  with assms(3) obtain st' where "run_change B tid (siConfigurable i) (siResume i) (execution_of C D tid i j)
      (siRunner i 0) st = (Inr (ChangeEnded st'), asked)"
    "s' = apply_writes (change_output st') s" "n' = NPrepare"
    by (auto simp: mutation_step_def split: prod.splits sum.splits changeOutcome.splits)
  with assms(1,2) NChange change_inv show ?thesis by (metis params_apply)
next
  case NRepair
  with assms show ?thesis
    by (auto simp: mutation_step_def sbind_eq_Inr simp del: node_inv.simps intro: repair_inv)
qed (use assms in \<open>auto simp: mutation_step_def\<close>)

definition graph_inv :: "string \<Rightarrow> compiledWorkflow \<Rightarrow> bool \<Rightarrow> 'j graphConfig \<Rightarrow> bool" where
  "graph_inv tid w a c \<longleftrightarrow> node_inv tid w a (gcNext c) (gcState c) \<and> params w a (gcState c) \<and>
     (cwPattern w = Review \<longrightarrow> gcInvoked c = [])"

lemma mutating_delivers: "mutating n \<Longrightarrow> node_inv tid w a n s \<Longrightarrow> cwPattern w = Delivery"
  by (cases n) (auto simp: mutating_def delivering_def)

lemma advance_simps [simp]:
  "gcInvoked (advance r c) = gcInvoked c" "gcJournal (advance r c) = gcJournal c"
  by (auto simp: advance_def split: sum.splits)

lemma graph_next_inv:
  assumes "graph_inv tid w a c" and "0 \<le> cwMaxIterations w"
  shows "graph_inv tid w a (graph_next B C D tid i c)"
proof (cases "gcNext c = NEnd")
  case True
  with assms show ?thesis by (simp add: graph_next_def)
next
  case ne: False
  show ?thesis
  proof (cases "mutating (gcNext c)")
    case True
    obtain r asked where m: "mutation_step B C D tid i (gcJournal c) (gcNext c) (gcState c) = (r, asked)" by fastforce
    obtain j' ops where j: "journal_after C D tid i (gcJournal c) asked = (j', ops)" by fastforce
    have del: "cwPattern w = Delivery" using True assms(1) mutating_delivers by (auto simp: graph_inv_def)
    have next_c: "graph_next B C D tid i c = advance r (c\<lparr>gcJournal := j', gcInvoked := gcInvoked c @ ops\<rparr>)"
      using ne True m j by (simp add: graph_next_def)
    show ?thesis
    proof (cases r)
      case (Inl e)
      with next_c assms del show ?thesis by (simp add: graph_inv_def advance_def)
    next
      case (Inr sn)
      obtain s' n' where sn: "sn = (s', n')" by fastforce
      with m Inr assms(1) have "node_inv tid w a n' s' \<and> params w a s'"
        by (auto simp: graph_inv_def simp del: node_inv.simps dest: mutation_step_inv)
      with next_c Inr sn del show ?thesis by (simp add: graph_inv_def advance_def)
    qed
  next
    case False
    with ne have next_c: "graph_next B C D tid i c = advance (plain_step B tid i (gcNext c) (gcState c)) c"
      by (simp add: graph_next_def)
    show ?thesis
    proof (cases "plain_step B tid i (gcNext c) (gcState c)")
      case (Inl e)
      with next_c assms show ?thesis by (simp add: advance_def)
    next
      case (Inr sn)
      obtain s' n' where sn: "sn = (s', n')" by fastforce
      with Inr assms plain_step_inv[of tid w a "gcNext c" "gcState c" B i s' n']
      have "node_inv tid w a n' s' \<and> params w a s'" by (simp add: graph_inv_def)
      with next_c Inr sn assms show ?thesis by (simp add: graph_inv_def advance_def)
    qed
  qed
qed

lemma reachable_inv:
  assumes "reachable B C D tid w a j c" and "0 \<le> cwMaxIterations w"
  shows "graph_inv tid w a c"
  using assms(1)
proof (induction rule: reachable.induct)
  case start
  show ?case by (simp add: graph_inv_def initial_config_def initial_state_def params_def untouched_def)
next
  case (superstep c i)
  then show ?case using assms(2) by (simp add: graph_next_inv)
qed

section \<open>Where a run was verified\<close>

text \<open>A run as the list of inputs of its supersteps.\<close>

definition graph_run ::
  "builtins \<Rightarrow> ('e, 'j) claimer \<Rightarrow> ('e, 'j) completer \<Rightarrow> string \<Rightarrow> compiledWorkflow \<Rightarrow> bool \<Rightarrow> 'j \<Rightarrow>
   'e stepInput list \<Rightarrow> 'j graphConfig" where
  "graph_run B C D tid w a j inputs = fold (graph_next B C D tid) inputs (initial_config w a j)"

lemma graph_run_simps [simp]:
  "graph_run B C D tid w a j [] = initial_config w a j"
  "graph_run B C D tid w a j (xs @ [i]) = graph_next B C D tid i (graph_run B C D tid w a j xs)"
  by (simp_all add: graph_run_def)

lemma graph_run_reachable: "reachable B C D tid w a j (graph_run B C D tid w a j inputs)"
  by (induction inputs rule: rev_induct) (simp_all add: reachable.start reachable.superstep)

lemma reachable_graph_run: "reachable B C D tid w a j c \<longleftrightarrow> (\<exists>inputs. c = graph_run B C D tid w a j inputs)"
proof
  assume "reachable B C D tid w a j c"
  then show "\<exists>inputs. c = graph_run B C D tid w a j inputs"
    by (induction rule: reachable.induct) (metis graph_run_simps(1), metis graph_run_simps(2))
qed (auto simp: graph_run_reachable)

text \<open>
  A verdict is the host's: a runner ran every one of its integration scripts, at least one, each
  of them passed, and the recorded checks are the evidence of exactly these runs.
\<close>

definition host_pass :: "evidenceRunner option \<Rightarrow> verificationResult \<Rightarrow> bool" where
  "host_pass runner v \<longleftrightarrow> (\<exists>r scripts es. runner = Some r \<and> erDefaultScripts r = Some (Inr scripts) \<and>
     scripts \<noteq> [] \<and> run_scripts r 0 scripts = Inr es \<and> list_all hePassed es \<and> vrPassed v \<and>
     vrChecks v = map (\<lambda>e. evidence_check (heScript e) e) es)"

lemma hostIntegrationVerification_pass:
  assumes "hostIntegrationVerification runner = Inr (v, refs)" and "vrPassed v"
  shows "host_pass runner v"
proof -
  have no: "\<not> vrPassed (fst (unavailableVerification t))" for t by (simp add: unavailableVerification_def)
  obtain r where r: "runner = Some r"
    using assms no by (cases runner) (auto simp: hostIntegrationVerification_def, metis fst_conv)
  show ?thesis
  proof (cases "erDefaultScripts r")
    case None
    with assms no r show ?thesis by (auto simp: hostIntegrationVerification_def sbind_def) (metis fst_conv)
  next
    case (Some given)
    from assms(1) r Some obtain scripts where scripts: "given = Inr scripts"
      by (cases given) (auto simp: hostIntegrationVerification_def sbind_def)
    have "scripts \<noteq> []"
      using assms no r Some scripts by (auto simp: hostIntegrationVerification_def sbind_def) (metis fst_conv)
    moreover from this assms(1) r Some scripts obtain es where es: "run_scripts r 0 scripts = Inr es"
      "vrChecks v = map (\<lambda>e. evidence_check (heScript e) e) es" "vrPassed v = list_all vcPassed (vrChecks v)"
      by (auto simp: hostIntegrationVerification_def sbind_eq_Inr Let_def)
    moreover from es assms(2) have "list_all hePassed es" by (simp add: list_all_iff evidence_check_def)
    ultimately show ?thesis using assms(2) r Some scripts unfolding host_pass_def by blast
  qed
qed

text \<open>
  The run of the inputs passed a superstep of the verify node in which the host checked the
  workspace with success; that verdict is the one recorded now, and no worker was asked for a
  mutation and no change was recorded since.
\<close>

definition verified_at ::
  "(nat \<Rightarrow> 'j graphConfig) \<Rightarrow> 'e stepInput list \<Rightarrow> 'j graphConfig \<Rightarrow> nat \<Rightarrow> bool" where
  "verified_at at inputs c n \<longleftrightarrow> n < length inputs \<and> gcNext (at n) = NVerify \<and>
     gcInvoked c = gcInvoked (at n) \<and> wsChanges (gcState c) = wsChanges (gcState (at n)) \<and>
     wsChangeResults (gcState c) = wsChangeResults (gcState (at n)) \<and>
     (\<exists>k v. wsVerification (gcState c) = Some v \<and> host_pass (siRunner (inputs ! n) k) v)"

lemma after_route_eq:
  "after_verify r = NSynthesize \<longleftrightarrow> r = VSynthesize" "after_verify r \<noteq> NEnd"
  "after_prepare s \<noteq> Inr NSynthesize" "after_prepare s \<noteq> Inr NEnd" "after_dispatch s \<noteq> NEnd"
  "after_dispatch s = NSynthesize \<longleftrightarrow> routeDispatch s = ToSynthesize"
  by (auto simp: after_verify_def after_prepare_def after_dispatch_def sbind_def
      split: verifyRoute.split sum.split preparedRoute.split dispatchRoute.split)

lemma verify_step_host:
  assumes "plain_step B tid i NVerify s = Inr (s', NSynthesize)"
  shows "wsChanges s' = wsChanges s \<and> wsChangeResults s' = wsChangeResults s \<and>
    (\<exists>k v. wsVerification s' = Some v \<and> host_pass (siRunner i k) v)"
proof -
  from assms obtain k ws where v: "verifyNode B (siAnswers i 0 k) (siRunner i k) s = Inr (ws, VSynthesize)"
    and s': "s' = apply_writes ws s"
    by (auto simp: plain_step_def sbind_eq_Inr after_route_eq dest!: with_retry_Inr)
  from v obtain ver refs e where h: "hostIntegrationVerification (siRunner i k) = Inr (ver, refs)" "vrPassed ver"
    "ws = [WVerification (Some ver), WEvidenceRefs refs, WPhase Verified, WTrace [e]]"
    by (auto simp: verifyNode_def sbind_eq_Inr Let_def split: if_splits)
  from hostIntegrationVerification_pass[OF h(1,2)] h(3) s' show ?thesis by auto
qed

lemma synthesize_step_keeps:
  assumes "plain_step B tid i NSynthesize s = Inr (s', n')"
  shows "n' = NEnd \<and> wsChanges s' = wsChanges s \<and> wsChangeResults s' = wsChangeResults s \<and>
    wsVerification s' = wsVerification s"
  using assms by (auto simp: plain_step_def sbind_eq_Inr synthesizeNode_def dest!: with_retry_Inr)

text \<open>Which nodes a delivery reaches the summary and the end from.\<close>

lemma to_synthesize:
  assumes "plain_step B tid i n s = Inr (s', NSynthesize)" and "params w a s" and "cwPattern w = Delivery"
  shows "n = NVerify"
proof (cases n)
  case NDispatch
  with assms show ?thesis
    by (auto simp: plain_step_def dispatchNode_def Let_def after_route_eq routeDispatch_def params_def split: if_splits)
qed (use assms in \<open>auto simp: plain_step_def sbind_eq_Inr after_route_eq\<close>)

lemma to_end:
  assumes "plain_step B tid i n s = Inr (s', NEnd)" and "wsStatus s' = Completed"
  shows "n = NSynthesize"
proof (cases n)
  case NEscalate
  with assms show ?thesis by (auto simp: plain_step_def escalateNode_def Let_def split: option.splits)
qed (use assms in \<open>auto simp: plain_step_def sbind_eq_Inr after_route_eq Let_def\<close>)

lemma mutation_step_next:
  assumes "mutation_step B C D tid i j n s = (Inr (s', n'), asked)"
  shows "n' \<noteq> NSynthesize \<and> n' \<noteq> NEnd"
  using assms by (cases n) (auto simp: mutation_step_def sbind_eq_Inr split: prod.splits sum.splits changeOutcome.splits)

lemma verified_at_mono:
  assumes "verified_at at inputs c n" and "gcInvoked c' = gcInvoked c" and "wsChanges (gcState c') = wsChanges (gcState c)"
    and "wsChangeResults (gcState c') = wsChangeResults (gcState c)"
    and "wsVerification (gcState c') = wsVerification (gcState c)"
  shows "verified_at at (inputs @ [i]) c' n"
  using assms by (auto simp: verified_at_def nth_append)

definition summarising :: "'j graphConfig \<Rightarrow> bool" where
  "summarising c \<longleftrightarrow> gcNext c = NSynthesize \<or> gcNext c = NEnd \<and> wsStatus (gcState c) = Completed"

text \<open>One superstep into the summary, or into the end of a completed run.\<close>

lemma summarising_next:
  assumes "summarising (graph_next B C D tid i c)" and "params w a (gcState c)" and "cwPattern w = Delivery"
    and "c' = graph_next B C D tid i c"
  shows "summarising c \<and> gcInvoked c' = gcInvoked c \<and> wsChanges (gcState c') = wsChanges (gcState c) \<and>
      wsChangeResults (gcState c') = wsChangeResults (gcState c) \<and>
      wsVerification (gcState c') = wsVerification (gcState c) \<or>
    gcNext c = NVerify \<and> gcInvoked c' = gcInvoked c \<and> wsChanges (gcState c') = wsChanges (gcState c) \<and>
      wsChangeResults (gcState c') = wsChangeResults (gcState c) \<and>
      (\<exists>k v. wsVerification (gcState c') = Some v \<and> host_pass (siRunner i k) v)"
proof (cases "gcNext c = NEnd")
  case True
  with assms show ?thesis by (simp add: graph_next_def)
next
  case ne: False
  show ?thesis
  proof (cases "mutating (gcNext c)")
    case True
    obtain r asked where m: "mutation_step B C D tid i (gcJournal c) (gcNext c) (gcState c) = (r, asked)" by fastforce
    obtain j' ops where j: "journal_after C D tid i (gcJournal c) asked = (j', ops)" by fastforce
    have c': "c' = advance r (c\<lparr>gcJournal := j', gcInvoked := gcInvoked c @ ops\<rparr>)"
      using ne True m j assms(4) by (simp add: graph_next_def)
    have "\<not> summarising c'"
    proof (cases r)
      case (Inl e)
      with True ne show ?thesis by (auto simp: c' advance_def summarising_def mutating_def)
    next
      case (Inr sn)
      with m mutation_step_next[of B C D tid i "gcJournal c" "gcNext c" "gcState c" "fst sn" "snd sn" asked]
      show ?thesis by (cases sn) (auto simp: c' advance_def summarising_def)
    qed
    with assms(1,4) show ?thesis by simp
  next
    case False
    with ne assms(4) have c': "c' = advance (plain_step B tid i (gcNext c) (gcState c)) c"
      by (simp add: graph_next_def)
    show ?thesis
    proof (cases "plain_step B tid i (gcNext c) (gcState c)")
      case (Inl e)
      with c' assms(1,4) show ?thesis by (simp add: advance_def)
    next
      case (Inr sn)
      obtain s' n' where sn: "plain_step B tid i (gcNext c) (gcState c) = Inr (s', n')" using Inr by (cases sn) auto
      with c' have eq: "gcState c' = s'" "gcNext c' = n'" "gcInvoked c' = gcInvoked c" by (simp_all add: advance_def)
      from assms(1,4) eq consider "n' = NSynthesize" | "n' = NEnd" "wsStatus s' = Completed"
        by (auto simp: summarising_def)
      then show ?thesis
      proof cases
        case 1
        with sn to_synthesize[of B tid i "gcNext c" "gcState c" s' w a] assms(2,3) have "gcNext c = NVerify" by simp
        with sn 1 eq verify_step_host[of B tid i "gcState c" s'] show ?thesis by simp
      next
        case 2
        with sn to_end[of B tid i "gcNext c" "gcState c" s'] have "gcNext c = NSynthesize" by simp
        with sn eq synthesize_step_keeps[of B tid i "gcState c" s' n'] show ?thesis by (simp add: summarising_def)
      qed
    qed
  qed
qed

lemma summarising_verified:
  assumes "0 \<le> cwMaxIterations w" and "cwPattern w = Delivery"
    and "summarising (graph_run B C D tid w a j inputs)"
  shows "\<exists>n. verified_at (\<lambda>n. graph_run B C D tid w a j (take n inputs)) inputs (graph_run B C D tid w a j inputs) n"
  using assms(3)
proof (induction inputs rule: rev_induct)
  case Nil
  then show ?case by (simp add: summarising_def initial_config_def)
next
  case (snoc i xs)
  let ?c = "graph_run B C D tid w a j xs" and ?c' = "graph_run B C D tid w a j (xs @ [i])"
  let ?at = "\<lambda>n. graph_run B C D tid w a j (take n (xs @ [i]))"
  have par: "params w a (gcState ?c)"
    using reachable_inv[OF graph_run_reachable[of B C D tid w a j xs] assms(1)] by (simp add: graph_inv_def)
  from snoc.prems have "summarising (graph_next B C D tid i ?c)" by simp
  from summarising_next[OF this par assms(2) graph_run_simps(2)] show ?case
  proof (elim disjE conjE)
    assume "summarising ?c" and keep: "gcInvoked ?c' = gcInvoked ?c" "wsChanges (gcState ?c') = wsChanges (gcState ?c)"
      "wsChangeResults (gcState ?c') = wsChangeResults (gcState ?c)"
      "wsVerification (gcState ?c') = wsVerification (gcState ?c)"
    then obtain n where n: "verified_at (\<lambda>n. graph_run B C D tid w a j (take n xs)) xs ?c n" using snoc.IH by blast
    then have "verified_at ?at xs ?c n" by (simp add: verified_at_def)
    from verified_at_mono[OF this keep] show ?thesis by blast
  next
    assume "gcNext ?c = NVerify" "gcInvoked ?c' = gcInvoked ?c" "wsChanges (gcState ?c') = wsChanges (gcState ?c)"
      "wsChangeResults (gcState ?c') = wsChangeResults (gcState ?c)"
      "\<exists>k v. wsVerification (gcState ?c') = Some v \<and> host_pass (siRunner i k) v"
    then have "verified_at ?at (xs @ [i]) ?c' (length xs)" by (simp add: verified_at_def)
    then show ?thesis by blast
  qed
qed

section \<open>Properties of every run\<close>

lemma review_nodes:
  assumes "node_inv tid w a n s" and "cwPattern w = Review"
  shows "untouched s"
  using assms by (cases n) (auto simp: delivering_def synthesizable_def)

text \<open>
  Claim C5 (a review never mutates). No run of a review workflow ever asks a worker for a
  mutation or records a change, whatever its workers answer and however often it is resumed.
\<close>

theorem review_never_mutates:
  assumes "reachable B C D tid w a j c" and "0 \<le> cwMaxIterations w" and "cwPattern w = Review"
  shows "gcInvoked c = [] \<and> wsChanges (gcState c) = [] \<and> wsChangeResults (gcState c) = []"
  using reachable_inv[OF assms(1,2)] assms(3) review_nodes[of tid w a "gcNext c" "gcState c"]
  by (simp add: graph_inv_def untouched_def)

lemma completed_node:
  assumes "node_inv tid w a n s" and "wsStatus s = Completed"
  shows "n = NEnd"
  using assms by (cases n) (auto split: if_splits)

text \<open>
  Claim C2 (completed means verified by the host). When a delivery workflow is completed, its run
  went through a superstep of the verify node in which the host's runner ran all its integration
  scripts, at least one, and every one of them passed; the recorded verification is the evidence
  of these runs, not what a worker says, and from that superstep to the end no worker was asked for
  a mutation and no change was recorded. Every change of the plan passed.
\<close>

theorem completed_delivery_verified:
  assumes "c = graph_run B C D tid w a j inputs" and "0 \<le> cwMaxIterations w" and "cwPattern w = Delivery"
    and "wsStatus (gcState c) = Completed"
  shows "gcNext c = NEnd \<and> wsPhase (gcState c) = Synthesized \<and>
    (\<exists>plan. wsPlan (gcState c) = Some plan \<and> all_passed plan (wsChangeResults (gcState c))) \<and>
    (\<exists>v. wsVerification (gcState c) = Some v \<and> vrPassed v \<and>
      (\<exists>n < length inputs. let c0 = graph_run B C D tid w a j (take n inputs) in
        gcNext c0 = NVerify \<and> (\<exists>k. host_pass (siRunner (inputs ! n) k) v) \<and> gcInvoked c = gcInvoked c0 \<and>
        wsChanges (gcState c) = wsChanges (gcState c0) \<and>
        wsChangeResults (gcState c) = wsChangeResults (gcState c0)))"
proof -
  have run: "reachable B C D tid w a j c" by (simp add: assms(1) graph_run_reachable)
  from reachable_inv[OF run assms(2)] have inv: "node_inv tid w a (gcNext c) (gcState c)" by (simp add: graph_inv_def)
  from completed_node[OF inv assms(4)] have n: "gcNext c = NEnd" .
  with assms(4) have "summarising c" by (simp add: summarising_def)
  with summarising_verified[OF assms(2,3), of B C D tid a j inputs] assms(1)
  obtain m where m: "verified_at (\<lambda>n. graph_run B C D tid w a j (take n inputs)) inputs c m" by blast
  have "gcNext c = NEnd \<and> wsPhase (gcState c) = Synthesized \<and>
      (\<exists>plan. wsPlan (gcState c) = Some plan \<and> all_passed plan (wsChangeResults (gcState c)))"
    using n inv assms(3,4) by (auto simp: synthesizable_def delivering_def)
  moreover have "vrPassed v" if "host_pass runner v" for runner v using that by (auto simp: host_pass_def)
  ultimately show ?thesis using m unfolding verified_at_def Let_def by blast
qed

lemma bounds_of_node:
  assumes "node_inv tid w a n s" and "0 \<le> cwMaxIterations w"
  shows "0 \<le> wsIteration s \<and> wsIteration s \<le> cwMaxIterations w \<and>
    (\<forall>r \<in> set (wsChangeResults s). 1 \<le> crAttempt r \<and> crAttempt r \<le> cwMaxIterations w + 1) \<and>
    (\<forall>plan. wsPlan s = Some plan \<longrightarrow> deps_first plan (wsChangeResults s))"
  using assms
  by (cases n) (auto simp: untouched_def iterating_def delivering_def results_ok_def synthesizable_def
      current_plan_def deps_first_def)

text \<open>
  Claim C4 (order and attempts). In every reachable state the repair iteration and the attempts
  of every change are within the compiled bound, and each recorded result of a change was
  recorded after a passed result of each change it depends on.
\<close>

theorem changes_follow_dependencies:
  assumes "reachable B C D tid w a j c" and "0 \<le> cwMaxIterations w" and "wsPlan (gcState c) = Some plan"
    and "i < length rs" and "rs = wsChangeResults (gcState c)"
    and "change \<in> set (planChanges plan)" and "changeId change = crChangeId (rs ! i)"
  shows "1 \<le> crAttempt (rs ! i) \<and> crAttempt (rs ! i) \<le> cwMaxIterations w + 1 \<and>
    0 \<le> wsIteration (gcState c) \<and> wsIteration (gcState c) \<le> cwMaxIterations w \<and>
    (\<forall>d \<in> set (dependsOn change). \<exists>k < i. crChangeId (rs ! k) = d \<and> crStatus (rs ! k) = CePassed)"
proof -
  from reachable_inv[OF assms(1,2)] bounds_of_node[of tid w a "gcNext c" "gcState c"] assms(2,3,5)
  have "(\<forall>r \<in> set rs. 1 \<le> crAttempt r \<and> crAttempt r \<le> cwMaxIterations w + 1)" "deps_first plan rs"
    "0 \<le> wsIteration (gcState c)" "wsIteration (gcState c) \<le> cwMaxIterations w"
    by (auto simp: graph_inv_def)
  with assms(4,6,7) show ?thesis by (auto simp: deps_first_def passed_before_def)
qed

section \<open>At most once, for whole runs\<close>

context mutation_journal
begin

lemma execute_evolves:
  assumes "valid j" and "executeMutation claim complete env env' j t op worker = (r, j', b)"
  shows "valid j' \<and> evolves (entry j) (entry j')"
proof -
  obtain c j1 where c: "claim env j t op = (c, j1)" by fastforce
  from claim_law[OF assms(1) c] have v: "valid j1" and e1: "evolves (entry j) (entry j1)"
    by (auto dest: claim_effect_evolves)
  show ?thesis
  proof (cases "c = Inr ClaimExecute \<and> (\<exists>out. worker = Returned out)")
    case True
    then obtain out where out: "c = Inr ClaimExecute" "worker = Returned out" by blast
    obtain u j2 where d: "complete env' j1 t op out = (u, j2)" by fastforce
    from assms(2) c out d have "j' = j2" by (auto simp: executeMutation_def split: sum.splits)
    with complete_law[OF v d] e1 show ?thesis by (auto dest: complete_effect_evolves intro: evolves_trans)
  next
    case False
    with assms(2) c have "j' = j1"
      by (auto simp: executeMutation_def split: sum.splits mutationClaim.splits workerOutcome.splits)
    with v e1 show ?thesis by simp
  qed
qed

lemma journal_after_law:
  assumes "valid j" and "journal_after claim complete t i j asked = (j', ops)"
  shows "valid j' \<and> evolves (entry j) (entry j') \<and>
    (ops = [] \<or> (\<exists>op k. ops = [op] \<and> key op = Inr k \<and> entry j t k = None \<and> entry j' t k \<noteq> None))"
proof (cases asked)
  case None
  with assms show ?thesis by (simp add: journal_after_def)
next
  case (Some op)
  obtain r j1 b where x: "executeMutation claim complete (siClaimEnv i) (siCompleteEnv i) j t op (siWorker i) = (r, j1, b)"
    by (metis prod_cases3)
  with assms(2) Some have res: "j' = j1" "ops = (if b then [op] else [])" by (auto simp: journal_after_def)
  from execute_evolves[OF assms(1) x] execute_invoked[of j "siClaimEnv i" "siCompleteEnv i" t op "siWorker i" r j1]
    assms(1) x res show ?thesis by (cases b) auto
qed

definition run_ok :: "string \<Rightarrow> 'j graphConfig \<Rightarrow> bool" where
  "run_ok t c \<longleftrightarrow> valid (gcJournal c) \<and> distinct (map key (gcInvoked c)) \<and>
     (\<forall>op \<in> set (gcInvoked c). \<exists>k. key op = Inr k \<and> entry (gcJournal c) t k \<noteq> None)"

lemma run_ok_next:
  assumes "run_ok t c"
  shows "run_ok t (graph_next B claim complete t i c)"
proof (cases "gcNext c = NEnd \<or> \<not> mutating (gcNext c)")
  case True
  with assms show ?thesis by (auto simp: graph_next_def run_ok_def)
next
  case False
  obtain r asked where m: "mutation_step B claim complete t i (gcJournal c) (gcNext c) (gcState c) = (r, asked)" by fastforce
  obtain j' ops where j: "journal_after claim complete t i (gcJournal c) asked = (j', ops)" by fastforce
  have n: "gcJournal (graph_next B claim complete t i c) = j'" "gcInvoked (graph_next B claim complete t i c) = gcInvoked c @ ops"
    using False m j by (simp_all add: graph_next_def)
  from assms have v: "valid (gcJournal c)" by (simp add: run_ok_def)
  note law = journal_after_law[OF v j]
  have old: "\<forall>op \<in> set (gcInvoked c). \<exists>k. key op = Inr k \<and> entry (gcJournal c) t k \<noteq> None \<and> entry j' t k \<noteq> None"
    using assms law unfolding run_ok_def evolves_def by blast
  from law consider "ops = []" | op k where "ops = [op]" "key op = Inr k" "entry (gcJournal c) t k = None" "entry j' t k \<noteq> None"
    by blast
  then show ?thesis
  proof cases
    case 1
    with n law old assms show ?thesis by (auto simp: run_ok_def)
  next
    case (2 op k)
    have "key op \<notin> set (map key (gcInvoked c))" using old 2 by auto
    with 2 n law old assms show ?thesis by (auto simp: run_ok_def)
  qed
qed

lemma reachable_run_ok:
  "reachable B claim complete t w a j c \<Longrightarrow> valid j \<Longrightarrow> run_ok t c"
  by (induction rule: reachable.induct) (auto simp: run_ok_next, auto simp: run_ok_def initial_config_def)

end

text \<open>
  Claim C1 (no repeated mutation). In every run of the graph on the checkpoint files, with any
  number of crashes, failures and resumptions, no two worker invocations for mutations have the
  same journal key.
\<close>

theorem run_mutates_at_most_once:
  assumes "inj fp" and "file_inv fp j"
    and "reachable B (file_claimMutation fp B) (file_completeMutation fp B) tid w a j c"
  shows "distinct (map (mutationKey B) (gcInvoked c))"
  using mutation_journal.reachable_run_ok[OF file_journal[OF assms(1)] assms(3,2)]
  by (simp add: mutation_journal.run_ok_def[OF file_journal[OF assms(1)]])

section \<open>A complete run\<close>

definition graph_builtins :: builtins where
  "graph_builtins =
     \<lparr>json_parse = (\<lambda>t.
        if t = ''d'' then Some (JObj
          [(''workItems'', JArr [JObj [(''id'', JStr ''api''), (''title'', JStr ''API''), (''instruction'', JStr ''look'')]]),
           (''acceptanceCriteria'', JArr [JStr ''works''])])
        else if t = ''f'' then Some (JObj
          [(''summary'', JStr ''s''), (''evidence'', JArr []), (''risks'', JArr [])])
        else if t = ''c'' then Some (JObj
          [(''summary'', JStr ''s''), (''filesChanged'', JArr [JStr ''a.ts'']), (''evidence'', JArr [JStr ''e'']),
           (''unresolvedRisks'', JArr [])])
        else if t = ''v'' then Some (JObj
          [(''passed'', JBool True), (''summary'', JStr ''s''),
           (''checks'', JArr [JObj [(''name'', JStr ''n''), (''passed'', JBool True), (''evidence'', JStr ''e'')]])])
        else if t = ''s'' then Some (JObj [(''summary'', JStr ''done'')])
        else None),
      json_stringify = (\<lambda>v. ''d''), sha256_hex = id, locale_compare = (\<lambda>a b. 0)\<rparr>"

definition answer_input :: "string \<Rightarrow> unit stepInput" where
  "answer_input t = \<lparr>siConfigurable = JObj [(''thread_id'', JStr ''t'')], siAnswers = \<lambda>n k. Inr t, siResume = None,
     siWorker = Returned t, siRunner = \<lambda>k. Some sample_runner, siClaimEnv = (), siCompleteEnv = ()\<rparr>"

definition sample_run :: "string list \<Rightarrow> memoryJournal graphConfig" where
  "sample_run ts = fold (\<lambda>t. graph_next graph_builtins (memory_claimMutation graph_builtins)
     (memory_completeMutation graph_builtins) ''t'' (answer_input t)) ts (initial_config sample_workflow False Map.empty)"

definition delivery_answers :: "string list" where
  "delivery_answers = ['''', ''d'', '''', ''f'', '''', '''', '''', ''c'', '''', ''v'', ''s'']"

lemma reachable_fold:
  "reachable B C D t w a j (fold (graph_next B C D t) is (initial_config w a j))"
  using graph_run_reachable by (simp add: graph_run_def)

lemma sample_run_graph_run:
  "sample_run ts = graph_run graph_builtins (memory_claimMutation graph_builtins)
     (memory_completeMutation graph_builtins) ''t'' sample_workflow False Map.empty (map answer_input ts)"
  by (simp add: sample_run_def graph_run_def fold_map comp_def)

lemma sample_run_reachable:
  "reachable graph_builtins (memory_claimMutation graph_builtins) (memory_completeMutation graph_builtins) ''t''
     sample_workflow False Map.empty (sample_run ts)"
  by (simp add: sample_run_graph_run graph_run_reachable)

theorem completed_delivery_verified_witness:
  "wsStatus (gcState (sample_run delivery_answers)) = Completed \<and>
   (\<exists>v k n. wsVerification (gcState (sample_run delivery_answers)) = Some v \<and> n < length delivery_answers \<and>
      gcNext (sample_run (take n delivery_answers)) = NVerify \<and> host_pass (siRunner (answer_input (delivery_answers ! n)) k) v)"
proof -
  have c: "wsStatus (gcState (sample_run delivery_answers)) = Completed" by code_simp
  have w: "0 \<le> cwMaxIterations sample_workflow" "cwPattern sample_workflow = Delivery"
    by (simp_all add: sample_workflow_def)
  from completed_delivery_verified[OF sample_run_graph_run w c]
  obtain v n k where v: "wsVerification (gcState (sample_run delivery_answers)) = Some v"
    and n: "n < length (map answer_input delivery_answers)"
      "gcNext (graph_run graph_builtins (memory_claimMutation graph_builtins) (memory_completeMutation graph_builtins)
        ''t'' sample_workflow False Map.empty (take n (map answer_input delivery_answers))) = NVerify"
      "host_pass (siRunner (map answer_input delivery_answers ! n) k) v"
    unfolding Let_def by blast
  from n have "n < length delivery_answers" "gcNext (sample_run (take n delivery_answers)) = NVerify"
    "host_pass (siRunner (answer_input (delivery_answers ! n)) k) v"
    by (simp_all add: sample_run_graph_run take_map)
  with v c show ?thesis by blast
qed

theorem changes_follow_dependencies_witness:
  "crAttempt (wsChangeResults (gcState (sample_run (take 8 delivery_answers))) ! 1) \<le> 3"
proof -
  let ?s = "gcState (sample_run (take 8 delivery_answers))"
  have "case wsPlan ?s of None \<Rightarrow> False | Some plan \<Rightarrow> (case planChanges plan of [ch] \<Rightarrow>
      1 < length (wsChangeResults ?s) \<and> changeId ch = crChangeId (wsChangeResults ?s ! 1) | _ \<Rightarrow> False)"
    by code_simp
  then obtain plan ch where p: "wsPlan ?s = Some plan" "1 < length (wsChangeResults ?s)" "ch \<in> set (planChanges plan)"
    "changeId ch = crChangeId (wsChangeResults ?s ! 1)"
    by (auto split: option.splits list.splits)
  have w: "0 \<le> cwMaxIterations sample_workflow" by (simp add: sample_workflow_def)
  from changes_follow_dependencies[OF sample_run_reachable w p(1,2) refl p(3,4)]
  show ?thesis by (simp add: sample_workflow_def)
qed

theorem review_never_mutates_witness:
  "gcInvoked (graph_next graph_builtins (memory_claimMutation graph_builtins) (memory_completeMutation graph_builtins) ''t''
     (answer_input ''d'') (initial_config (sample_workflow\<lparr>cwPattern := Review\<rparr>) False Map.empty)) = []"
proof -
  let ?w = "sample_workflow\<lparr>cwPattern := Review\<rparr>"
  have w: "0 \<le> cwMaxIterations ?w" "cwPattern ?w = Review" by (simp_all add: sample_workflow_def)
  show ?thesis by (rule conjunct1[OF review_never_mutates[OF reachable.superstep[OF reachable.start] w]])
qed

definition file_input :: "string \<Rightarrow> fileEnv stepInput" where
  "file_input t = \<lparr>siConfigurable = JObj [(''thread_id'', JStr ''t'')], siAnswers = \<lambda>n k. Inr t, siResume = None,
     siWorker = Died, siRunner = \<lambda>k. Some sample_runner, siClaimEnv = sample_env 0, siCompleteEnv = sample_env 1\<rparr>"

theorem run_mutates_at_most_once_witness:
  "distinct (map (mutationKey graph_builtins) (gcInvoked (fold (graph_next graph_builtins
     (file_claimMutation id graph_builtins) (file_completeMutation id graph_builtins) ''t'')
     (map file_input ['''', ''d'', '''', ''f'', '''', '''', '''', ''c'', ''c''])
     (initial_config sample_workflow False empty_file_journal))))"
  by (rule run_mutates_at_most_once[OF inj_on_id empty_file_inv reachable_fold])

section \<open>Termination\<close>

definition attempts_left :: "int \<Rightarrow> changeResult option \<Rightarrow> nat" where
  "attempts_left m r =
     (case r of
        None \<Rightarrow> nat (m + 1)
      | Some r \<Rightarrow> (case crStatus r of
            CeFailed \<Rightarrow> nat (m + 1 - crAttempt r)
          | CeRunning \<Rightarrow> Suc (nat (m + 1 - crAttempt r))
          | _ \<Rightarrow> 0))"

definition work_left :: "int \<Rightarrow> executionPlan \<Rightarrow> changeResult list \<Rightarrow> nat" where
  "work_left m plan rs = sum_list (map (\<lambda>c. attempts_left m (latestResults rs (changeId c))) (planChanges plan))"

definition round_fuel :: "int \<Rightarrow> workflowState \<Rightarrow> nat" where
  "round_fuel m s = 4 + 3 * nat m + 32 * nat (m + 1) + 3 * nat (2 - wsDiscoveryRound s)"

text \<open>Supersteps a run can still take from a node.\<close>

fun fuel :: "string \<Rightarrow> int \<Rightarrow> graphNode \<Rightarrow> workflowState \<Rightarrow> nat" where
  "fuel tid m NClassify s = round_fuel m s + 5"
| "fuel tid m NDiscover s = round_fuel m s + 4"
| "fuel tid m NDispatch s = round_fuel m s + (if pending_items s = [] then 0 else 3)"
| "fuel tid m (NSpecialists sts) s = round_fuel m s + 2"
| "fuel tid m NCollect s = round_fuel m s + 1"
| "fuel tid m NPrepare s = 3 + 3 * nat m + 2 * work_left m (current_plan tid s) (wsChangeResults s)"
| "fuel tid m (NChange st) s = 2 + 3 * nat m + 2 * work_left m (chPlan st) (wsChangeResults s)"
| "fuel tid m NVerify s = 2 + 3 * nat (m - wsIteration s)"
| "fuel tid m NDiagnose s = 1 + 3 * nat (m - wsIteration s)"
| "fuel tid m NRepair s = 3 * nat (m - wsIteration s)"
| "fuel tid m NSynthesize s = 1"
| "fuel tid m NEscalate s = 1"
| "fuel tid m NEnd s = 0"

lemma work_left_update:
  assumes "distinct (map changeId (planChanges plan))" and "c \<in> set (planChanges plan)" and "crChangeId r = changeId c"
  shows "work_left m plan (rs @ [r]) + attempts_left m (latestResults rs (changeId c)) =
    work_left m plan rs + attempts_left m (Some r)"
proof -
  have "sum_list (map (\<lambda>d. attempts_left m (((latestResults rs)(crChangeId r \<mapsto> r)) (changeId d))) cs) +
      attempts_left m (latestResults rs (changeId c)) =
      sum_list (map (\<lambda>d. attempts_left m (latestResults rs (changeId d))) cs) + attempts_left m (Some r)"
    if "distinct (map changeId cs)" "c \<in> set cs" for cs
    using that
  proof (induction cs)
    case Nil
    then show ?case by simp
  next
    case (Cons x cs)
    show ?case
    proof (cases "x = c")
      case True
      have "changeId d \<noteq> changeId c" if "d \<in> set cs" for d
        using Cons.prems(1) True imageI[OF that, of changeId] by auto
      then have "(\<Sum>d\<leftarrow>cs. attempts_left m (((latestResults rs)(crChangeId r \<mapsto> r)) (changeId d))) =
          (\<Sum>d\<leftarrow>cs. attempts_left m (latestResults rs (changeId d)))"
        using assms(3) by (intro arg_cong[where f = sum_list]) simp
      then show ?thesis using True assms(3) by simp
    next
      case False
      with Cons.prems have c: "c \<in> set cs" by simp
      with Cons.prems(1) imageI[OF c, of changeId] have "changeId x \<noteq> changeId c" by auto
      with Cons c assms(3) show ?thesis by simp
    qed
  qed
  from this[OF assms(1,2)] show ?thesis by (simp add: work_left_def)
qed

lemma work_left_initial:
  "work_left m plan [] = length (planChanges plan) * nat (m + 1)"
  by (simp add: work_left_def attempts_left_def sum_list_triv)

text \<open>Supersteps a run must have taken to reach a node.\<close>

definition passed_count :: "executionPlan \<Rightarrow> changeResult list \<Rightarrow> nat" where
  "passed_count plan rs = card {i \<in> plan_ids (planChanges plan). latest_status rs i = Some CePassed}"

definition change_count :: "workflowState \<Rightarrow> nat" where
  "change_count s = (case wsPlan s of None \<Rightarrow> 0 | Some p \<Rightarrow> length (planChanges p))"

fun steps_to :: "string \<Rightarrow> compiledWorkflow \<Rightarrow> graphNode \<Rightarrow> workflowState \<Rightarrow> nat" where
  "steps_to tid w NClassify s = 0"
| "steps_to tid w NDiscover s = 1"
| "steps_to tid w NDispatch s = (if wsFindings s = [] then 2 else 5)"
| "steps_to tid w (NSpecialists sts) s = 3"
| "steps_to tid w NCollect s = 4"
| "steps_to tid w NPrepare s = 6 + 2 * passed_count (current_plan tid s) (wsChangeResults s)"
| "steps_to tid w (NChange st) s = 7 + 2 * passed_count (chPlan st) (wsChangeResults s)"
| "steps_to tid w NVerify s = 7 + 2 * change_count s"
| "steps_to tid w NDiagnose s = 7 + 2 * change_count s"
| "steps_to tid w NRepair s = 7 + 2 * change_count s"
| "steps_to tid w NSynthesize s = (if cwPattern w = Review then 6 else 8 + 2 * change_count s)"
| "steps_to tid w NEscalate s = 0"
| "steps_to tid w NEnd s =
     (if wsStatus s \<noteq> Completed then 0 else if cwPattern w = Review then 7 else 9 + 2 * change_count s)"

definition paced :: "string \<Rightarrow> compiledWorkflow \<Rightarrow> graphNode \<Rightarrow> workflowState \<Rightarrow> graphNode \<Rightarrow> workflowState \<Rightarrow> bool" where
  "paced tid w n s n' s' \<longleftrightarrow> fuel tid (cwMaxIterations w) n' s' < fuel tid (cwMaxIterations w) n s \<and>
     steps_to tid w n' s' \<le> steps_to tid w n s + 1"

lemma finite_plan_ids [simp]: "finite (plan_ids cs)"
  by (simp add: plan_ids_def)

lemma passed_count_all:
  assumes "distinct (map changeId (planChanges plan))" and "all_passed plan rs"
  shows "passed_count plan rs = length (planChanges plan)"
proof -
  have "{i \<in> plan_ids (planChanges plan). latest_status rs i = Some CePassed} = changeId ` set (planChanges plan)"
    using assms(2) by (auto simp: all_passed_def plan_ids_def)
  then show ?thesis using assms(1) by (simp add: passed_count_def card_image distinct_map distinct_card)
qed

lemma passed_count_snoc:
  "passed_count plan (rs @ [r]) \<le> passed_count plan rs + 1"
proof -
  let ?S = "{i \<in> plan_ids (planChanges plan). latest_status rs i = Some CePassed}"
  have sub: "{i \<in> plan_ids (planChanges plan). latest_status (rs @ [r]) i = Some CePassed} \<subseteq> insert (crChangeId r) ?S"
    by (auto simp: latest_status_snoc)
  have "card {i \<in> plan_ids (planChanges plan). latest_status (rs @ [r]) i = Some CePassed} \<le> card (insert (crChangeId r) ?S)"
    by (rule card_mono[OF _ sub]) simp
  also have "\<dots> \<le> card ?S + 1" by (simp add: card_insert_if)
  finally show ?thesis by (simp add: passed_count_def)
qed

lemma passed_count_running:
  "passed_count plan (rs @ [r]) \<le> passed_count plan rs" if "crStatus r = CeRunning"
  unfolding passed_count_def using that
  by (intro card_mono) (auto simp: latest_status_snoc split: if_splits)

lemma analysis_paced:
  assumes "node_inv tid w a n s" and "params w a s" and "0 \<le> cwMaxIterations w"
    and "plain_step B tid i n s = Inr (s', n')" and "n = NClassify \<or> n = NDiscover"
  shows "paced tid w n s n' s'"
  using assms(5)
proof
  assume "n = NClassify"
  with assms(4) have "s' = apply_writes (classifyNode s) s" "n' = NDiscover" by (auto simp: plain_step_def)
  then show ?thesis using \<open>n = NClassify\<close> by (simp add: paced_def classifyNode_def round_fuel_def)
next
  assume n: "n = NDiscover"
  with assms(4) obtain k ws where ws: "discoverNode B (siAnswers i 0 k) (siAnswers i 1 k) s = Inr ws"
    and s': "s' = apply_writes ws s" "n' = NDispatch"
    by (auto simp: plain_step_def sbind_eq_Inr dest!: with_retry_Inr)
  have "wsDiscoveryRound s' = wsDiscoveryRound s" "wsFindings s' = wsFindings s"
    using ws by (auto simp: s'(1) discoverNode_def sbind_eq_Inr split: option.splits)
  with s'(2) n assms(1) show ?thesis by (simp add: paced_def round_fuel_def)
qed

lemma current_plan_size:
  "analysed s \<Longrightarrow> length (planChanges (current_plan tid s)) \<le> 16"
  using aggregate_changes[of tid "wsObjective s" "wsFindings s"]
  by (auto simp: analysed_def current_plan_def wf_plan_def MAX_PLAN_CHANGES_def split: option.splits)

lemma dispatch_paced:
  assumes "node_inv tid w a NDispatch s" and "params w a s" and "0 \<le> cwMaxIterations w"
  shows "paced tid w NDispatch s (after_dispatch s) s"
proof (cases "pending_items s = []")
  case False
  then show ?thesis by (simp add: paced_def after_dispatch_def routeDispatch_def)
next
  case True
  have f: "wsFindings s \<noteq> []" using True assms(1) by (auto simp: analysed_def pending_items_def)
  let ?m = "cwMaxIterations w"
  have "work_left ?m (current_plan tid s) [] \<le> 16 * nat (?m + 1)"
    using current_plan_size[of s tid] assms(1) by (simp add: work_left_initial mult_le_mono1)
  moreover have "passed_count (current_plan tid s) [] = 0" by (simp add: passed_count_def latest_status_def)
  ultimately show ?thesis using True f assms
    by (cases "wsPattern s") (auto simp: paced_def params_def after_dispatch_def routeDispatch_def untouched_def round_fuel_def)
qed

lemma specialists_paced:
  assumes "node_inv tid w a (NSpecialists sts) s" and "run_specialists B i sts = Inr ws"
  shows "paced tid w (NSpecialists sts) s NCollect (apply_writes ws s)"
proof -
  from assms(2) obtain outs where ws: "ws = concat (map specialist_output outs)"
    by (auto simp: run_specialists_def sbind_eq_Inr)
  have "wsDiscoveryRound (apply_writes (concat (map specialist_output outs)) s) = wsDiscoveryRound s"
    by (induction outs arbitrary: s) (simp_all add: specialist_output_def)
  then show ?thesis by (simp add: paced_def ws round_fuel_def)
qed

lemma collect_paced:
  assumes "node_inv tid w a NCollect s" and "collectNode B s = Inr ws"
  shows "paced tid w NCollect s NDispatch (apply_writes ws s)"
proof -
  let ?s = "apply_writes ws s"
  from assms(2) obtain new where n: "wsWorkItems ?s = wsWorkItems s @ take (MAX_WORK_ITEMS - length (wsWorkItems s)) new"
    "new \<noteq> [] \<longrightarrow> wsDiscoveryRound s < 2"
    "wsDiscoveryRound ?s =
       (if take (MAX_WORK_ITEMS - length (wsWorkItems s)) new = [] then wsDiscoveryRound s else wsDiscoveryRound s + 1)"
    by (rule collectNode_Inr)
  have f: "wsFindings ?s = wsFindings s"
    using assms(2) by (auto simp: collectNode_def sbind_eq_Inr Let_def split: if_splits)
  show ?thesis
  proof (cases "take (MAX_WORK_ITEMS - length (wsWorkItems s)) new = []")
    case True
    with n(1) have "wsWorkItems ?s = wsWorkItems s" by (simp only: append_Nil2)
    then have "pending_items ?s = []" using f assms(1) by (simp add: pending_items_def)
    with True n(3) show ?thesis by (simp add: paced_def round_fuel_def)
  next
    case False
    then have "wsDiscoveryRound s < 2" "wsDiscoveryRound ?s = wsDiscoveryRound s + 1" using n(2,3) by auto
    then have "3 * nat (2 - wsDiscoveryRound ?s) + 3 = 3 * nat (2 - wsDiscoveryRound s)" by auto
    then show ?thesis by (simp add: paced_def round_fuel_def)
  qed
qed

lemma prepare_paced:
  assumes inv: "node_inv tid w a NPrepare s" and par: "params w a s" and max: "0 \<le> cwMaxIterations w"
    and node: "prepareChangeNode B tid cfg s = Inr ws" and route: "after_prepare (apply_writes ws s) = Inr m"
  shows "paced tid w NPrepare s m (apply_writes ws s)"
proof -
  let ?plan = "current_plan tid s"
  let ?rs = "wsChangeResults s"
  let ?s = "apply_writes ws s"
  let ?m = "cwMaxIterations w"
  from inv have ord: "orderable ?plan" and st: "settled ?plan ?rs" and it: "wsIteration s = 0" by auto
  have ids: "distinct (map changeId (planChanges ?plan))" using ord by (simp add: orderable_def)
  show ?thesis
    using refl ord st
  proof (cases rule: prepareChange_cases[where B = B and cfg = cfg])
    case (select c n)
    from select(1) node selectChange_eq[OF ids select(2), of B cfg s n]
    have s': "wsPlan ?s = Some ?plan" "wsChangeResults ?s = ?rs @ [running_result c n]" by (auto simp: Let_def)
    from route_selected[OF ids select(2) st s'] route obtain st' where m: "m = NChange st'" "chPlan st' = ?plan"
      by (auto simp: after_prepare_def)
    have id: "crChangeId (running_result c n) = changeId c" "crStatus (running_result c n) = CeRunning"
      "crAttempt (running_result c n) = n" by (simp_all add: running_result_def)
    have "attempts_left ?m (Some (running_result c n)) = attempts_left ?m (latestResults ?rs (changeId c))"
      using select(3,4) par max id
      by (auto simp: attempts_left_def runnable_def attempt_of_def params_def latest_status_def split: option.splits)
    with work_left_update[OF ids select(2) id(1), of ?m ?rs]
    have "work_left ?m ?plan (?rs @ [running_result c n]) = work_left ?m ?plan ?rs" by simp
    moreover have "passed_count ?plan (?rs @ [running_result c n]) \<le> passed_count ?plan ?rs"
      by (rule passed_count_running[OF id(2)])
    ultimately show ?thesis using m s' by (simp add: paced_def)
  next
    case (exhausted c p)
    let ?p = "p\<lparr>crStatus := CeNeedsAttention\<rparr>"
    from exhausted(1) node have s': "wsPlan ?s = Some ?plan" "wsChangeResults ?s = ?rs @ [?p]" by auto
    have "settled ?plan (wsChangeResults ?s)" using st by (auto simp: s' settled_def latest_status_snoc)
    with route_settled[of ?plan ?s] s' exhausted_not_passed[OF exhausted(2,3)] route have "m = NEscalate"
      by (simp add: after_prepare_def)
    then show ?thesis by (simp add: paced_def)
  next
    case done_all
    with node have s': "wsPlan ?s = Some ?plan" "wsChangeResults ?s = ?rs" "wsIteration ?s = 0" using it by auto
    with route_settled[of ?plan ?s] st route have m: "m = (if all_passed ?plan ?rs then NVerify else NEscalate)"
      by (simp add: after_prepare_def split: if_splits)
    with s' passed_count_all[OF ids] show ?thesis by (auto simp: paced_def change_count_def)
  qed
qed

lemma change_paced:
  assumes inv: "node_inv tid w a (NChange st) s"
    and run: "run_change B tid cfg resume execute runner st = (Inr (ChangeEnded st'), asked)"
  shows "paced tid w (NChange st) s NPrepare (apply_writes (change_output st') s)"
proof -
  let ?s = "apply_writes (change_output st') s"
  let ?m = "cwMaxIterations w"
  from inv obtain plan rs0 where del: "delivering w s plan" and rs: "wsChangeResults s = rs0 @ [chCurrent st]"
    and snt: "sent plan a rs0 st" by auto
  from snt obtain c n where c: "c \<in> set (planChanges plan)" "chPlan st = plan"
    "chCurrent st = running_result c n" "chApprovalOutcome st = None" "chChanges st = []" "chChangeResults st = []"
    unfolding sent_def by blast
  from change_run_facts[OF run c(4,6,5) refl] obtain r where r:
    "chChangeResults st' = [r]" "crChangeId r = changeId c" "crAttempt r = n"
    "crStatus r \<in> {CePassed, CeFailed, CeNeedsAttention}"
    using c(3) by (auto simp: running_result_def split: option.splits)
  have s': "wsChangeResults ?s = wsChangeResults s @ [r]" "current_plan tid ?s = plan"
    using r(1) del by (simp_all add: change_output_def delivering_def current_plan_def)
  have ids: "distinct (map changeId (planChanges plan))" using del by (simp add: delivering_def orderable_def)
  have latest: "latestResults (wsChangeResults s) (changeId c) = Some (running_result c n)"
    using rs c(3) by (simp add: running_result_def)
  have "attempts_left ?m (Some r) < attempts_left ?m (Some (running_result c n))"
    using r(3,4) by (auto simp: attempts_left_def running_result_def)
  with work_left_update[OF ids c(1) r(2), of ?m "wsChangeResults s"] latest
  have "work_left ?m plan (wsChangeResults s @ [r]) < work_left ?m plan (wsChangeResults s)" by simp
  moreover have "passed_count plan (wsChangeResults s @ [r]) \<le> passed_count plan (wsChangeResults s) + 1"
    by (rule passed_count_snoc)
  ultimately show ?thesis using s' c(2) by (simp add: paced_def)
qed

lemma ending_paced:
  assumes "node_inv tid w a n s" and "params w a s" and "n \<in> {NVerify, NDiagnose, NSynthesize, NEscalate}"
    and "plain_step B tid i n s = Inr (s', n')"
  shows "paced tid w n s n' s'"
proof -
  from assms(3) consider "n = NVerify" | "n = NDiagnose" | "n = NSynthesize" | "n = NEscalate" by blast
  then show ?thesis
  proof cases
    case 1
    with assms(4) obtain k ws r where v: "verifyNode B (siAnswers i 0 k) (siRunner i k) s = Inr (ws, r)"
      and s': "s' = apply_writes ws s" "n' = after_verify r"
      by (auto simp: plain_step_def sbind_eq_Inr dest!: with_retry_Inr)
    from 1 assms(1) obtain plan where p: "wsPlan s = Some plan" by (auto simp: delivering_def)
    from v p obtain v :: verificationResult where "r = (if vrPassed v then VSynthesize
       else if isAggregatePlan plan \<and> wsIteration s < wsMaxIterations s then VDiagnose else VEscalate)"
      "wsPlan s' = wsPlan s" "wsIteration s' = wsIteration s" unfolding s'(1) by (rule verifyNode_Inr)
    with 1 s'(2) assms(1,2) show ?thesis
      by (auto simp: paced_def after_verify_def change_count_def params_def delivering_def)
  next
    case 2
    with assms(4) obtain k ws where "diagnoseNode B (siAnswers i 0 k) s = Inr ws"
      and s': "s' = apply_writes ws s" "n' = NRepair"
      by (auto simp: plain_step_def sbind_eq_Inr dest!: with_retry_Inr)
    then have "wsPlan s' = wsPlan s" "wsIteration s' = wsIteration s" by (auto simp: diagnoseNode_def sbind_eq_Inr)
    with 2 s'(2) show ?thesis by (simp add: paced_def change_count_def)
  next
    case 3
    with assms(4) obtain k ws where "synthesizeNode B (siAnswers i 0 k) s = Inr ws"
      and s': "s' = apply_writes ws s" "n' = NEnd"
      by (auto simp: plain_step_def sbind_eq_Inr dest!: with_retry_Inr)
    then have "wsPlan s' = wsPlan s" by (auto simp: synthesizeNode_def sbind_eq_Inr)
    with 3 s'(2) show ?thesis by (simp add: paced_def change_count_def)
  next
    case 4
    with assms(4) have s': "s' = apply_writes (escalateNode s) s" "n' = NEnd" by (auto simp: plain_step_def)
    have "wsStatus s' = NeedsAttention" unfolding s'(1) by (simp add: escalateNode_def Let_def split: option.splits)
    with 4 s'(2) show ?thesis by (simp add: paced_def)
  qed
qed

lemma repair_paced:
  assumes "node_inv tid w a NRepair s" and "repairNode B x s = Inr ws"
  shows "paced tid w NRepair s NVerify (apply_writes ws s)"
proof -
  have "wsPlan (apply_writes ws s) = wsPlan s" "wsIteration (apply_writes ws s) = wsIteration s + 1"
    using assms(2) by (auto simp: repairNode_def sbind_eq_Inr)
  moreover have "wsIteration s < cwMaxIterations w" using assms(1) by simp
  ultimately show ?thesis by (simp add: paced_def change_count_def)
qed

lemma plain_paced:
  assumes "node_inv tid w a n s" and "params w a s" and "0 \<le> cwMaxIterations w"
    and "plain_step B tid i n s = Inr (s', n')"
  shows "paced tid w n s n' s'"
proof (cases "n \<in> {NVerify, NDiagnose, NSynthesize, NEscalate} \<or> n = NClassify \<or> n = NDiscover")
  case True
  then show ?thesis using assms analysis_paced ending_paced by blast
next
  case False
  show ?thesis
  proof (cases n)
    case NDispatch
    with assms have "s' = s" "n' = after_dispatch s" by (auto simp: plain_step_def dispatchNode_def Let_def)
    with assms NDispatch dispatch_paced show ?thesis by blast
  next
    case (NSpecialists sts)
    with assms(4) obtain ws where "run_specialists B i sts = Inr ws" "s' = apply_writes ws s" "n' = NCollect"
      by (auto simp: plain_step_def sbind_eq_Inr)
    with assms(1) NSpecialists specialists_paced show ?thesis by blast
  next
    case NCollect
    with assms(4) obtain ws where "collectNode B s = Inr ws" "s' = apply_writes ws s" "n' = NDispatch"
      by (auto simp: plain_step_def sbind_eq_Inr)
    with assms(1) NCollect collect_paced show ?thesis by blast
  next
    case NPrepare
    with assms(4) obtain ws where "prepareChangeNode B tid (siConfigurable i) s = Inr ws"
      "after_prepare (apply_writes ws s) = Inr n'" "s' = apply_writes ws s"
      by (auto simp: plain_step_def sbind_eq_Inr)
    with assms(1-3) NPrepare prepare_paced show ?thesis by blast
  qed (use False assms(4) in \<open>auto simp: plain_step_def\<close>)
qed

lemma mutation_paced:
  assumes "node_inv tid w a n s" and "mutation_step B C D tid i j n s = (Inr (s', n'), asked)"
  shows "paced tid w n s n' s'"
proof (cases n)
  case (NChange st)
  with assms(2) obtain st' where "run_change B tid (siConfigurable i) (siResume i) (execution_of C D tid i j)
      (siRunner i 0) st = (Inr (ChangeEnded st'), asked)"
    "s' = apply_writes (change_output st') s" "n' = NPrepare"
    by (auto simp: mutation_step_def split: prod.splits sum.splits changeOutcome.splits)
  with assms(1) NChange change_paced show ?thesis by blast
next
  case NRepair
  with assms(2) obtain ws x where "repairNode B x s = Inr ws" "s' = apply_writes ws s" "n' = NVerify"
    by (auto simp: mutation_step_def sbind_eq_Inr)
  with assms(1) NRepair repair_paced show ?thesis by blast
qed (use assms(2) in \<open>auto simp: mutation_step_def\<close>)

definition pace_inv :: "string \<Rightarrow> compiledWorkflow \<Rightarrow> 'j graphConfig \<Rightarrow> bool" where
  "pace_inv tid w c \<longleftrightarrow>
     gcSupersteps c + fuel tid (cwMaxIterations w) (gcNext c) (gcState c) \<le> nat (47 + 35 * cwMaxIterations w) \<and>
     steps_to tid w (gcNext c) (gcState c) \<le> gcSupersteps c"

lemma pace_next:
  assumes "graph_inv tid w a c" and "0 \<le> cwMaxIterations w" and "pace_inv tid w c"
  shows "pace_inv tid w (graph_next B C D tid i c)"
proof -
  have adv: "pace_inv tid w (advance r c')"
    if "gcNext c' = gcNext c" "gcState c' = gcState c" "gcSupersteps c' = gcSupersteps c"
      "\<And>s' n'. r = Inr (s', n') \<Longrightarrow> paced tid w (gcNext c) (gcState c) n' s'" for r c'
    using that assms(3) by (fastforce simp: pace_inv_def advance_def paced_def split: sum.splits)
  show ?thesis
  proof (cases "gcNext c = NEnd")
    case True
    with assms show ?thesis by (simp add: graph_next_def)
  next
    case ne: False
    show ?thesis
    proof (cases "mutating (gcNext c)")
      case True
      obtain r asked where m: "mutation_step B C D tid i (gcJournal c) (gcNext c) (gcState c) = (r, asked)" by fastforce
      obtain j' ops where j: "journal_after C D tid i (gcJournal c) asked = (j', ops)" by fastforce
      have n: "graph_next B C D tid i c = advance r (c\<lparr>gcJournal := j', gcInvoked := gcInvoked c @ ops\<rparr>)"
        using ne True m j by (simp add: graph_next_def)
      have "paced tid w (gcNext c) (gcState c) n' s'" if "r = Inr (s', n')" for s' n'
        by (rule mutation_paced[where a = a]) (use m assms(1) that in \<open>auto simp: graph_inv_def simp del: node_inv.simps\<close>)
      then show ?thesis unfolding n by (intro adv) simp_all
    next
      case False
      with ne have n: "graph_next B C D tid i c = advance (plain_step B tid i (gcNext c) (gcState c)) c"
        by (simp add: graph_next_def)
      have "paced tid w (gcNext c) (gcState c) n' s'" if "plain_step B tid i (gcNext c) (gcState c) = Inr (s', n')" for s' n'
        by (rule plain_paced[where a = a]) (use assms(1,2) that in \<open>auto simp: graph_inv_def simp del: node_inv.simps\<close>)
      then show ?thesis unfolding n by (intro adv) simp_all
    qed
  qed
qed

lemma reachable_pace:
  assumes "reachable B C D tid w a j c" and "0 \<le> cwMaxIterations w"
  shows "pace_inv tid w c"
  using assms(1)
proof (induction rule: reachable.induct)
  case start
  have "nat (47 + 35 * cwMaxIterations w) = 47 + 35 * nat (cwMaxIterations w)" using assms(2) by (simp add: nat_add_distrib nat_mult_distrib)
  then show ?case using assms(2)
    by (simp add: pace_inv_def initial_config_def initial_state_def round_fuel_def nat_add_distrib)
next
  case (superstep c i)
  from reachable_inv[OF superstep.hyps(1) assms(2)] pace_next superstep.IH assms(2) show ?case by blast
qed

text \<open>
  Claim C6 (termination). A run takes at most 47 + 35 m supersteps for m repair iterations: two
  discovery rounds, 16 changes and m repairs bound every cycle of the graph.
\<close>

theorem run_is_bounded:
  assumes "reachable B C D tid w a j c" and "0 \<le> cwMaxIterations w"
  shows "int (gcSupersteps c) \<le> 47 + 35 * cwMaxIterations w"
proof -
  from reachable_pace[OF assms] have "gcSupersteps c \<le> nat (47 + 35 * cwMaxIterations w)" by (simp add: pace_inv_def)
  with assms(2) show ?thesis by (simp add: le_nat_iff)
qed

text \<open>
  Claim C7 (recursion limit). A completed delivery of n planned changes took at least 9 + 2 n
  supersteps. So one with more than (3 + 4 m) / 2 changes, 6 for the default of two iterations,
  cannot complete in a single invocation within its own recursion limit, although plans of
  up to 16 changes are accepted.
\<close>

theorem delivery_exceeds_recursion_limit:
  assumes "reachable B C D tid w a j c" and "0 \<le> cwMaxIterations w" and "cwPattern w = Delivery"
    and "wsStatus (gcState c) = Completed" and "wsPlan (gcState c) = Some plan"
    and "cwRecursionLimit w = workflowRecursionLimit (cwMaxIterations w)"
  shows "9 + 2 * length (planChanges plan) \<le> gcSupersteps c \<and>
    (3 + 4 * cwMaxIterations w < 2 * int (length (planChanges plan)) \<longrightarrow> cwRecursionLimit w < int (gcSupersteps c))"
proof -
  from reachable_inv[OF assms(1,2)] have "node_inv tid w a (gcNext c) (gcState c)" by (simp add: graph_inv_def)
  from completed_node[OF this assms(4)] have "gcNext c = NEnd" .
  with reachable_pace[OF assms(1,2)] assms(3-5) have "9 + 2 * length (planChanges plan) \<le> gcSupersteps c"
    by (simp add: pace_inv_def change_count_def)
  then show ?thesis using assms(6) by (auto simp: workflowRecursionLimit_def)
qed

definition wide_plan :: executionPlan where
  "wide_plan = \<lparr>planId = ''p'', revision = 1, planChanges = map (\<lambda>i. sample_change i [])
     [''a'', ''b'', ''c'', ''d'', ''e'', ''f'']\<rparr>"

definition planned_builtins :: builtins where
  "planned_builtins = graph_builtins\<lparr>json_parse := (\<lambda>t.
     if t = ''p'' then Some (JObj
       [(''workItems'', JArr [JObj [(''id'', JStr ''api''), (''title'', JStr ''API''), (''instruction'', JStr ''look'')]]),
        (''acceptanceCriteria'', JArr [JStr ''works'']), (''executionPlan'', plan_object wide_plan)])
     else if t = ''m'' then Some (JObj
       [(''summary'', JStr ''s''), (''filesChanged'', JArr [JStr ''src'']), (''evidence'', JArr [JStr ''e'']),
        (''unresolvedRisks'', JArr [])])
     else json_parse graph_builtins t)\<rparr>"

definition planned_run :: "string list \<Rightarrow> memoryJournal graphConfig" where
  "planned_run ts = fold (\<lambda>t. graph_next planned_builtins (memory_claimMutation planned_builtins)
     (memory_completeMutation planned_builtins) ''t'' (answer_input t)) ts (initial_config sample_workflow False Map.empty)"

definition planned_answers :: "string list" where
  "planned_answers = ['''', ''p'', '''', ''f'', '''', ''''] @ concat (replicate 6 ['''', ''m'']) @ ['''', ''v'', ''s'']"

lemma planned_run_reachable:
  "reachable planned_builtins (memory_claimMutation planned_builtins) (memory_completeMutation planned_builtins) ''t''
     sample_workflow False Map.empty (planned_run ts)"
proof -
  have "planned_run ts = fold (graph_next planned_builtins (memory_claimMutation planned_builtins)
      (memory_completeMutation planned_builtins) ''t'') (map answer_input ts) (initial_config sample_workflow False Map.empty)"
    by (simp add: planned_run_def fold_map comp_def)
  then show ?thesis using reachable_fold by metis
qed

text \<open>A plan of six changes that all pass at once already needs 21 supersteps, one more than its limit.\<close>

lemma planned_run_result:
  "wsStatus (gcState (planned_run planned_answers)) = Completed \<and>
   map_option (\<lambda>p. length (planChanges p)) (wsPlan (gcState (planned_run planned_answers))) = Some 6"
  by code_simp

theorem delivery_exceeds_recursion_limit_witness:
  "cwRecursionLimit sample_workflow < int (gcSupersteps (planned_run planned_answers))"
proof -
  from planned_run_result obtain plan where c: "wsStatus (gcState (planned_run planned_answers)) = Completed"
    and p: "wsPlan (gcState (planned_run planned_answers)) = Some plan" "length (planChanges plan) = 6" by auto
  have w: "0 \<le> cwMaxIterations sample_workflow" "cwPattern sample_workflow = Delivery"
    and l: "cwRecursionLimit sample_workflow = workflowRecursionLimit (cwMaxIterations sample_workflow)"
    by (simp_all add: sample_workflow_def workflowRecursionLimit_def)
  from delivery_exceeds_recursion_limit[OF planned_run_reachable w c p(1) l] p(2)
  show ?thesis by (simp add: sample_workflow_def)
qed

theorem run_is_bounded_witness:
  "int (gcSupersteps (planned_run planned_answers)) \<le> 117"
proof -
  have "0 \<le> cwMaxIterations sample_workflow" by (simp add: sample_workflow_def)
  from run_is_bounded[OF planned_run_reachable this] show ?thesis by (simp add: sample_workflow_def)
qed

section \<open>Approvals\<close>

lemma mutation_step_asked:
  assumes "mutation_step B C D tid i j (NChange st) s = (r, Some op)"
  shows "\<exists>x. run_change B tid (siConfigurable i) (siResume i) (execution_of C D tid i j) (siRunner i 0) st = (x, Some op)"
  using assms by (auto simp: mutation_step_def split: prod.splits sum.splits changeOutcome.splits)

text \<open>
  Claim C3 (approved mutations). When a run hands a planned change to a worker and either the
  workflow asks for approvals or the change is of high risk, the superstep was resumed with a
  decision that approves exactly that change's pending interrupt.
\<close>

theorem risky_mutation_was_approved:
  assumes "reachable B C D tid w a j c" and "0 \<le> cwMaxIterations w" and "gcNext c = NChange st"
    and "gcInvoked (graph_next B C D tid i c) \<noteq> gcInvoked c" and "a \<or> level (risk (chChange st)) = High"
  shows "\<exists>p pending v d. chInterrupt st = Some p \<and> rebindInterruptToCurrentConfig B (siConfigurable i) p = Inr pending \<and>
    siResume i = Some v \<and> parseInterruptDecision v = Inr d \<and> idAction d = Approve \<and>
    interruptBinding.truncate d = interruptBinding.truncate pending"
proof -
  from reachable_inv[OF assms(1,2)] assms(3) have inv: "node_inv tid w a (NChange st) (gcState c)" by (simp add: graph_inv_def)
  then have st: "chApprovalOutcome st = None" "chInterrupt st \<noteq> None" using assms(5) by (auto simp: sent_def)
  obtain r asked where m: "mutation_step B C D tid i (gcJournal c) (NChange st) (gcState c) = (r, asked)" by fastforce
  have "asked \<noteq> None" using assms(3,4) m
    by (cases asked) (auto simp: graph_next_def mutating_def journal_after_def)
  then obtain op where "asked = Some op" by blast
  with m have "mutation_step B C D tid i (gcJournal c) (NChange st) (gcState c) = (r, Some op)" by simp
  from mutation_step_asked[OF this] obtain x where
    "run_change B tid (siConfigurable i) (siResume i) (execution_of C D tid i (gcJournal c)) (siRunner i 0) st = (x, Some op)"
    by blast
  from approval_gate[OF this st(1)] st(2) show ?thesis by blast
qed

definition gated_config :: "memoryJournal graphConfig" where
  "gated_config = fold (\<lambda>t. graph_next graph_builtins (memory_claimMutation graph_builtins)
     (memory_completeMutation graph_builtins) ''t'' (answer_input t)) (take 7 delivery_answers)
     (initial_config sample_workflow True Map.empty)"

definition approving_input :: "unit stepInput" where
  "approving_input = (answer_input ''c'')\<lparr>siResume := (case gcNext gated_config of
     NChange st \<Rightarrow> (case chInterrupt st of
        Some p \<Rightarrow> (case rebindInterruptToCurrentConfig graph_builtins (siConfigurable (answer_input [])) p of
           Inr q \<Rightarrow> Some (decision_object (decisionForInterrupt q Approve))
         | Inl e \<Rightarrow> None)
      | None \<Rightarrow> None)
   | _ \<Rightarrow> None)\<rparr>"

theorem risky_mutation_was_approved_witness:
  "\<exists>v d. siResume approving_input = Some v \<and> parseInterruptDecision v = Inr d \<and> idAction d = Approve"
proof -
  let ?C = "memory_claimMutation graph_builtins" and ?D = "memory_completeMutation graph_builtins"
  have "case gcNext gated_config of NChange st \<Rightarrow> True | _ \<Rightarrow> False" by code_simp
  then obtain st where st: "gcNext gated_config = NChange st" by (auto split: graphNode.splits)
  have "gcInvoked gated_config = []" "length (gcInvoked (graph_next graph_builtins ?C ?D ''t'' approving_input gated_config)) = 1"
    by code_simp+
  then have inv: "gcInvoked (graph_next graph_builtins ?C ?D ''t'' approving_input gated_config) \<noteq> gcInvoked gated_config" by auto
  have "gated_config = fold (graph_next graph_builtins ?C ?D ''t'') (map answer_input (take 7 delivery_answers))
      (initial_config sample_workflow True Map.empty)"
    by (simp add: gated_config_def fold_map comp_def)
  then have r: "reachable graph_builtins ?C ?D ''t'' sample_workflow True Map.empty gated_config"
    using reachable_fold by metis
  have w: "0 \<le> cwMaxIterations sample_workflow" by (simp add: sample_workflow_def)
  from risky_mutation_was_approved[OF r w st inv] show ?thesis by auto
qed

end
