(* ===== verification/PersistedState.thy ===== *)
theory PersistedState
  imports Graph
begin

text \<open>
  The loader's view of a persisted workflow: the validators a checkpoint file has to pass before
  its thread is resumed, \<open>src/src/persistence/workflow-state-validation.ts\<close>,
  \<open>workflow-state-field-validation.ts\<close>, \<open>workflow-validation-primitives.ts\<close> and
  \<open>workflow-pending-write-validation.ts\<close>. The validators are written independently of the
  parsers of the workflow, so the questions here are where the two agree: which plans and
  which states of a run the loader takes back. Every rejection throws the same class of
  error; its message only names the field.
\<close>

definition invalid_state :: error where
  "invalid_state = PlainError ''invalid persisted workflow''"

section \<open>Primitives\<close>

definition pv_record :: "js \<Rightarrow> js result" where
  "pv_record v = (if is_record v then Inr v else Inl invalid_state)"

definition pv_items :: "js \<Rightarrow> nat \<Rightarrow> nat \<Rightarrow> (js \<Rightarrow> unit result) \<Rightarrow> js list result" where
  "pv_items v lo hi validate =
     (case v of
        JArr xs \<Rightarrow>
          if length xs < lo \<or> hi < length xs then Inl invalid_state
          else sbind (traverse validate xs) (\<lambda>_. Inr xs)
      | _ \<Rightarrow> Inl invalid_state)"

definition pv_text :: "js \<Rightarrow> nat \<Rightarrow> bool \<Rightarrow> string result" where
  "pv_text v n allowEmpty =
     (case v of
        JStr s \<Rightarrow> if n < length s \<or> \<not> allowEmpty \<and> trim s = [] then Inl invalid_state else Inr s
      | _ \<Rightarrow> Inl invalid_state)"

definition pv_strings :: "js \<Rightarrow> nat \<Rightarrow> nat \<Rightarrow> nat \<Rightarrow> unit result" where
  "pv_strings v hi n lo =
     sbind (pv_items v lo hi (\<lambda>x. sbind (pv_text x n False) (\<lambda>_. Inr ()))) (\<lambda>_. Inr ())"

definition pv_optional :: "js \<Rightarrow> (js \<Rightarrow> 'a result) \<Rightarrow> 'a option result" where
  "pv_optional v validate =
     (if v \<noteq> JUndef \<and> v \<noteq> JNull then sbind (validate v) (\<lambda>x. Inr (Some x)) else Inr None)"

definition pv_integer :: "js \<Rightarrow> int \<Rightarrow> int \<Rightarrow> int result" where
  "pv_integer v lo hi =
     (case v of
        JNum (NInt i) \<Rightarrow> if i < lo \<or> hi < i then Inl invalid_state else Inr i
      | _ \<Rightarrow> Inl invalid_state)"

definition pv_boolean :: "js \<Rightarrow> bool result" where
  "pv_boolean v = (case v of JBool b \<Rightarrow> Inr b | _ \<Rightarrow> Inl invalid_state)"

text \<open>A member that must be one of some string literals.\<close>

definition pv_literal :: "js \<Rightarrow> string list \<Rightarrow> unit result" where
  "pv_literal v allowed = check (case v of JStr s \<Rightarrow> s \<in> set allowed | _ \<Rightarrow> False) invalid_state"

definition pv_lexical :: "js \<Rightarrow> nat \<Rightarrow> (string \<Rightarrow> bool) \<Rightarrow> string result" where
  "pv_lexical v n fmt = sbind (pv_text v n False) (\<lambda>s. if fmt s then Inr s else Inl invalid_state)"

definition ignore :: "'a result \<Rightarrow> unit result" where
  "ignore r = sbind r (\<lambda>_. Inr ())"

section \<open>Fields\<close>

definition pv_WORK_ITEM_ID :: "string \<Rightarrow> bool" where
  "pv_WORK_ITEM_ID = lexical is_alpha_char (\<lambda>c. is_alnum_char c \<or> c = CHR ''_'' \<or> c = CHR ''-'') 47"

definition pv_PLAN_ID :: "string \<Rightarrow> bool" where
  "pv_PLAN_ID = lexical is_alpha_char
     (\<lambda>c. is_alnum_char c \<or> c = CHR ''.'' \<or> c = CHR ''_'' \<or> c = CHR ''-'') 127"

definition ARTIFACT_DIGEST :: "string \<Rightarrow> bool" where
  "ARTIFACT_DIGEST = hex_text 64"

definition TRACE_NODES :: "string list" where
  "TRACE_NODES = [''classify'', ''discover'', ''specialist'', ''replan'', ''implement'', ''verify'',
     ''diagnose'', ''repair'', ''synthesize'', ''escalate'']"

definition validateWorkItem :: "js \<Rightarrow> unit result" where
  "validateWorkItem v =
     sbind (pv_record v) (\<lambda>item.
     sbind (pv_lexical (jget item ''id'') 48 pv_WORK_ITEM_ID) (\<lambda>_.
     sbind (pv_text (jget item ''title'') 200 False) (\<lambda>_.
     ignore (pv_text (jget item ''instruction'') 2000 False))))"

definition validateEvidence :: "js \<Rightarrow> unit result" where
  "validateEvidence v =
     sbind (pv_record v) (\<lambda>e.
     sbind (pv_literal (jget e ''kind'') [''file'', ''test'', ''runtime'', ''documentation'', ''other'']) (\<lambda>_.
     sbind (pv_text (jget e ''location'') 1000 False) (\<lambda>_.
     ignore (pv_text (jget e ''detail'') 2000 False))))"

definition validateFinding :: "js \<Rightarrow> unit result" where
  "validateFinding v =
     sbind (pv_record v) (\<lambda>f.
     sbind (pv_text (jget f ''workItemId'') 48 False) (\<lambda>_.
     sbind (pv_text (jget f ''summary'') 8000 False) (\<lambda>_.
     sbind (pv_items (jget f ''evidence'') 0 32 validateEvidence) (\<lambda>_.
     sbind (pv_strings (jget f ''risks'') 32 4000 0) (\<lambda>_.
     ignore (pv_items (jget f ''discoveredWorkItems'') 0 4 validateWorkItem))))))"

definition validateChange :: "js \<Rightarrow> unit result" where
  "validateChange v =
     sbind (pv_record v) (\<lambda>c.
     sbind (pv_literal (jget c ''kind'') [''implementation'', ''repair'']) (\<lambda>_.
     sbind (pv_text (jget c ''summary'') 8000 False) (\<lambda>_.
     sbind (pv_strings (jget c ''filesChanged'') 32 4000 0) (\<lambda>_.
     sbind (pv_strings (jget c ''evidence'') 32 4000 0) (\<lambda>_.
     pv_strings (jget c ''unresolvedRisks'') 32 4000 0)))))"

definition validateCheck :: "js \<Rightarrow> unit result" where
  "validateCheck v =
     sbind (pv_record v) (\<lambda>c.
     sbind (pv_text (jget c ''name'') 500 False) (\<lambda>_.
     sbind (pv_boolean (jget c ''passed'')) (\<lambda>_.
     ignore (pv_text (jget c ''evidence'') 4000 False))))"

definition validateVerification :: "js \<Rightarrow> bool result" where
  "validateVerification v =
     sbind (pv_record v) (\<lambda>r.
     sbind (pv_boolean (jget r ''passed'')) (\<lambda>passed.
     sbind (pv_text (jget r ''summary'') 8000 False) (\<lambda>_.
     sbind (pv_items (jget r ''checks'') 1 32 validateCheck) (\<lambda>checks.
     if passed \<noteq> list_all (\<lambda>c. jget c ''passed'' = JBool True) checks then Inl invalid_state
     else Inr passed))))"

definition validateDiagnostic :: "js \<Rightarrow> unit result" where
  "validateDiagnostic v =
     sbind (pv_record v) (\<lambda>d.
     sbind (pv_text (jget d ''summary'') 8000 False) (\<lambda>_.
     sbind (pv_strings (jget d ''rootCauses'') 32 4000 1) (\<lambda>_.
     pv_strings (jget d ''repairInstructions'') 32 4000 1)))"

definition validateTrace :: "js \<Rightarrow> unit result" where
  "validateTrace v =
     sbind (pv_record v) (\<lambda>e.
     sbind (pv_literal (jget e ''node'') TRACE_NODES) (\<lambda>_.
     sbind (pv_integer (jget e ''iteration'') 0 5) (\<lambda>_.
     sbind (if jget e ''workItemId'' = JUndef then Inr ()
            else ignore (pv_text (jget e ''workItemId'') 48 False)) (\<lambda>_.
     if jget e ''route'' = JUndef then Inr ()
     else pv_literal (jget e ''route'') [''implement'', ''synthesize'', ''diagnose'', ''escalate'', ''verify'']))))"

definition validateArtifactRef :: "js \<Rightarrow> unit result" where
  "validateArtifactRef v =
     sbind (pv_record v) (\<lambda>a.
     sbind (pv_lexical (jget a ''digest'') 64 ARTIFACT_DIGEST) (\<lambda>_.
     sbind (pv_integer (jget a ''byteCount'') 0 max_safe_integer) (\<lambda>_.
     ignore (pv_boolean (jget a ''truncated'')))))"

definition validateChangeResult :: "js \<Rightarrow> unit result" where
  "validateChangeResult v =
     sbind (pv_record v) (\<lambda>r.
     sbind (pv_lexical (jget r ''changeId'') 48 pv_WORK_ITEM_ID) (\<lambda>_.
     sbind (pv_literal (jget r ''status'') [''pending'', ''running'', ''passed'', ''failed'', ''needs_attention'']) (\<lambda>_.
     sbind (pv_integer (jget r ''attempt'') 0 max_safe_integer) (\<lambda>_.
     sbind (pv_items (jget r ''evidenceRefs'') 0 64 validateArtifactRef) (\<lambda>_.
     sbind (pv_optional (jget r ''change'') validateChange) (\<lambda>_.
     ignore (pv_optional (jget r ''verification'') validateVerification)))))))"

record interruptIdentity =
  iiPlanId :: string
  iiRevision :: int
  iiChangeId :: string

definition validateInterrupt :: "js \<Rightarrow> interruptIdentity result" where
  "validateInterrupt v =
     sbind (pv_record v) (\<lambda>i.
     sbind (pv_lexical (jget i ''interruptId'') 128 pv_PLAN_ID) (\<lambda>_.
     sbind (pv_lexical (jget i ''changeId'') 48 pv_WORK_ITEM_ID) (\<lambda>cid.
     sbind (pv_lexical (jget i ''planId'') 128 pv_PLAN_ID) (\<lambda>pid.
     sbind (pv_integer (jget i ''revision'') 1 max_safe_integer) (\<lambda>rev.
     sbind (pv_strings (jget i ''reasons'') 16 4000 1) (\<lambda>_.
     sbind (pv_record (jget i ''scope'')) (\<lambda>sc.
     sbind (pv_strings (jget sc ''files'') 64 400 1) (\<lambda>_.
     Inr \<lparr>iiPlanId = pid, iiRevision = rev, iiChangeId = cid\<rparr>))))))))"

section \<open>Plans\<close>

definition validatePlanCheck :: "js \<Rightarrow> unit result" where
  "validatePlanCheck v =
     sbind (pv_record v) (\<lambda>k.
     sbind (pv_literal (jget k ''kind'') [''package_script'']) (\<lambda>_.
     ignore (pv_text (jget k ''script'') 200 False)))"

definition validatePlanChange :: "js \<Rightarrow> unit result" where
  "validatePlanChange v =
     sbind (pv_record v) (\<lambda>c.
     sbind (pv_lexical (jget c ''changeId'') 48 pv_WORK_ITEM_ID) (\<lambda>_.
     sbind (pv_text (jget c ''title'') 200 False) (\<lambda>_.
     sbind (pv_text (jget c ''instruction'') 8000 False) (\<lambda>_.
     sbind (pv_strings (jget c ''dependsOn'') 16 48 0) (\<lambda>_.
     sbind (pv_record (jget c ''scope'')) (\<lambda>sc.
     sbind (pv_strings (jget sc ''files'') 64 400 1) (\<lambda>_.
     sbind (pv_record (jget c ''risk'')) (\<lambda>rk.
     sbind (pv_literal (jget rk ''level'') [''low'', ''medium'', ''high'']) (\<lambda>_.
     sbind (pv_strings (jget rk ''reasons'') 16 4000 0) (\<lambda>_.
     sbind (pv_items (jget c ''acceptanceChecks'') 1 16 validatePlanCheck) (\<lambda>_.
     pv_literal (jget c ''status'') [''pending'', ''claimed'', ''applied'', ''failed''])))))))))))"

text \<open>The identifiers of the changes in order, none twice.\<close>

fun pv_change_ids :: "js list \<Rightarrow> string list \<Rightarrow> string list result" where
  "pv_change_ids [] seen = Inr seen"
| "pv_change_ids (c # cs) seen =
     sbind (pv_text (jget c ''changeId'') 48 False) (\<lambda>i.
     if i \<in> set seen then Inl invalid_state else pv_change_ids cs (seen @ [i]))"

text \<open>The dependencies of one change: known, not itself, none twice.\<close>

fun pv_dependencies :: "string list \<Rightarrow> string \<Rightarrow> js list \<Rightarrow> string list \<Rightarrow> string list result" where
  "pv_dependencies ids cid [] seen = Inr seen"
| "pv_dependencies ids cid (d # ds) seen =
     sbind (pv_text d 48 False) (\<lambda>x.
     if x \<notin> set ids \<or> x = cid \<or> x \<in> set seen then Inl invalid_state
     else pv_dependencies ids cid ds (seen @ [x]))"

definition pv_change_dependencies :: "string list \<Rightarrow> js \<Rightarrow> (string \<times> string list) result" where
  "pv_change_dependencies ids c =
     sbind (pv_text (jget c ''changeId'') 48 False) (\<lambda>cid.
     sbind (pv_items (jget c ''dependsOn'') 0 16 (\<lambda>_. Inr ())) (\<lambda>ds.
     sbind (pv_dependencies ids cid ds []) (\<lambda>xs. Inr (cid, xs))))"

text \<open>
  One pass of the loop over the \<open>remaining\<close> set, which is visited in insertion order and
  loses a change as soon as none of its dependencies remains.
\<close>

fun sweep :: "(string \<Rightarrow> string list) \<Rightarrow> string list \<Rightarrow> string list \<Rightarrow> string list" where
  "sweep deps [] remaining = remaining"
| "sweep deps (x # xs) remaining =
     (if list_ex (\<lambda>d. d \<in> set remaining) (deps x) then sweep deps xs remaining
      else sweep deps xs (removeAll x remaining))"

lemma sweep_shrinks: "length (sweep deps xs remaining) \<le> length remaining"
  by (induction xs arbitrary: remaining) (auto intro: le_trans length_removeAll_less_eq)

function eliminate :: "(string \<Rightarrow> string list) \<Rightarrow> string list \<Rightarrow> unit result" where
  "eliminate deps remaining =
     (if remaining = [] then Inr ()
      else if length (sweep deps remaining remaining) = length remaining then Inl invalid_state
      else eliminate deps (sweep deps remaining remaining))"
  by auto
termination
  using sweep_shrinks by (relation "measure (\<lambda>(deps, r). length r)") (auto simp: le_neq_implies_less)

declare eliminate.simps [simp del]

record planIdentity =
  piPlanId :: string
  piRevision :: int
  piChangeIds :: "string list"

definition validateExecutionPlan :: "js \<Rightarrow> planIdentity result" where
  "validateExecutionPlan v =
     sbind (pv_record v) (\<lambda>plan.
     if jget plan ''version'' \<noteq> JNum (NInt 1) then Inl invalid_state
     else
     sbind (pv_lexical (jget plan ''planId'') 128 pv_PLAN_ID) (\<lambda>pid.
     sbind (pv_integer (jget plan ''revision'') 1 max_safe_integer) (\<lambda>rev.
     sbind (pv_items (jget plan ''changes'') 1 16 validatePlanChange) (\<lambda>changes.
     sbind (pv_change_ids changes []) (\<lambda>ids.
     sbind (traverse (pv_change_dependencies ids) changes) (\<lambda>deps.
     sbind (eliminate (\<lambda>x. case map_last deps x of None \<Rightarrow> [] | Some ds \<Rightarrow> ds) ids) (\<lambda>_.
     Inr \<lparr>piPlanId = pid, piRevision = rev, piChangeIds = ids\<rparr>)))))))"

section \<open>The workflow channels of a checkpoint\<close>

definition PHASES :: "string list" where
  "PHASES = [''classified'', ''discovered'', ''analyzed'', ''implemented'', ''verified'', ''diagnosed'',
     ''repaired'', ''synthesized'', ''escalated'']"

definition STATUSES :: "string list" where
  "STATUSES = [''running'', ''awaiting_approval'', ''completed'', ''needs_attention'']"

definition WORKFLOW_CHANNELS :: "string list" where
  "WORKFLOW_CHANNELS = [''objective'', ''pattern'', ''maxIterations'', ''approvalRequired'', ''discoveryRound'',
     ''workItems'', ''acceptanceCriteria'', ''findings'', ''changes'', ''verification'', ''diagnostic'',
     ''currentWorkItem'', ''iteration'', ''phase'', ''status'', ''summary'', ''unresolvedRisks'', ''trace'',
     ''plan'', ''changeResults'', ''evidenceRefs'', ''interrupt'']"

definition OPTIONAL_WORKFLOW_CHANNELS :: "string list" where
  "OPTIONAL_WORKFLOW_CHANNELS = [''verification'', ''diagnostic'', ''currentWorkItem'', ''plan'',
     ''changeResults'', ''evidenceRefs'', ''interrupt'']"

definition REQUIRED_WORKFLOW_CHANNELS :: "string list" where
  "REQUIRED_WORKFLOW_CHANNELS = filter (\<lambda>c. c \<notin> set OPTIONAL_WORKFLOW_CHANNELS) WORKFLOW_CHANNELS"

definition hasOwn :: "js \<Rightarrow> string \<Rightarrow> bool" where
  "hasOwn v field = (field \<in> set (keys_of v))"

definition isPersistedWorkflowChannel :: "string \<Rightarrow> bool" where
  "isPersistedWorkflowChannel c = (c \<in> set WORKFLOW_CHANNELS)"

fun pv_work_item_ids :: "js list \<Rightarrow> string list \<Rightarrow> string list result" where
  "pv_work_item_ids [] seen = Inr seen"
| "pv_work_item_ids (w # ws) seen =
     sbind (pv_text (jget w ''id'') 48 False) (\<lambda>i.
     if i \<in> set seen then Inl invalid_state else pv_work_item_ids ws (seen @ [i]))"

fun pv_finding_ids :: "string list \<Rightarrow> js list \<Rightarrow> string list \<Rightarrow> unit result" where
  "pv_finding_ids items [] seen = Inr ()"
| "pv_finding_ids items (f # fs) seen =
     sbind (pv_text (jget f ''workItemId'') 48 False) (\<lambda>i.
     if i \<notin> set items \<or> i \<in> set seen then Inl invalid_state else pv_finding_ids items fs (seen @ [i]))"

definition pv_change_kinds :: "js list \<Rightarrow> bool" where
  "pv_change_kinds changes =
     (case changes of
        [] \<Rightarrow> True
      | c # cs \<Rightarrow> jget c ''kind'' = JStr ''implementation'' \<and>
          list_all (\<lambda>r. jget r ''kind'' = JStr ''repair'') cs)"

definition pv_result_known :: "planIdentity \<Rightarrow> js \<Rightarrow> bool" where
  "pv_result_known plan r = (case jget r ''changeId'' of JStr i \<Rightarrow> i \<in> set (piChangeIds plan) | _ \<Rightarrow> False)"

definition pv_approval_rejected :: "js list \<Rightarrow> bool" where
  "pv_approval_rejected results =
     (results \<noteq> [] \<and> jget (last results) ''status'' = JStr ''needs_attention'' \<and>
      jget (last results) ''change'' = JUndef \<and> jget (last results) ''verification'' = JUndef)"

definition pv_same_plan :: "planIdentity option \<Rightarrow> interruptIdentity option \<Rightarrow> bool" where
  "pv_same_plan plan i =
     (case (plan, i) of
        (Some p, Some x) \<Rightarrow> iiPlanId x = piPlanId p \<and> iiRevision x = piRevision p \<and> iiChangeId x \<in> set (piChangeIds p)
      | _ \<Rightarrow> True)"

text \<open>
  The conditions between channels, in the order of the source, each stated as what must hold;
  \<open>verification\<close> is the verdict of the verification channel when there is one.
\<close>

definition pv_consistent :: "js \<Rightarrow> int \<Rightarrow> nat \<Rightarrow> int \<Rightarrow> bool option \<Rightarrow> bool \<Rightarrow> bool" where
  "pv_consistent st maxIterations changes iteration verification approvalRejected =
     (let pattern = jget st ''pattern''; phase = jget st ''phase''; status = jget st ''status'' in
      (phase = JStr ''diagnosed'' \<longrightarrow> iteration < maxIterations) \<and>
      (pattern = JStr ''review'' \<longrightarrow> maxIterations = 0 \<and> changes = 0 \<and> jget st ''verification'' = JUndef) \<and>
      (phase = JStr ''synthesized'') = (status = JStr ''completed'') \<and>
      (phase = JStr ''escalated'') = (status = JStr ''needs_attention'') \<and>
      (status = JStr ''awaiting_approval'' \<longrightarrow>
         phase = JStr ''analyzed'' \<and> jget st ''approvalRequired'' = JBool True) \<and>
      (status = JStr ''running'' \<longrightarrow> phase \<noteq> JStr ''synthesized'' \<and> phase \<noteq> JStr ''escalated'') \<and>
      (phase = JStr ''implemented'' \<longrightarrow> changes \<noteq> 0) \<and>
      (phase = JStr ''verified'' \<or> phase = JStr ''diagnosed'' \<or> phase = JStr ''repaired'' \<longrightarrow> verification \<noteq> None) \<and>
      (phase = JStr ''diagnosed'' \<or> phase = JStr ''repaired'' \<longrightarrow> jget st ''diagnostic'' \<noteq> JUndef) \<and>
      (status = JStr ''completed'' \<longrightarrow>
         pv_text (jget st ''summary'') 32000 False \<noteq> Inl invalid_state \<and>
         (pattern = JStr ''delivery'' \<longrightarrow> verification = Some True \<and> changes \<noteq> 0)) \<and>
      (status = JStr ''needs_attention'' \<longrightarrow>
         pattern = JStr ''delivery'' \<and>
         (approvalRejected \<or> verification = Some False \<and> iteration = maxIterations)))"

text \<open>
  The body of \<open>validatePersistedWorkflowChannels\<close> for values that have an objective. Its
  checks throw the same error, so running the conditions between channels last changes nothing.
\<close>

definition validateStateChannels :: "js \<Rightarrow> unit result" where
  "validateStateChannels st =
     sbind (check (list_all (hasOwn st) REQUIRED_WORKFLOW_CHANNELS) invalid_state) (\<lambda>_.
     sbind (pv_text (jget st ''objective'') 12000 False) (\<lambda>_.
     sbind (pv_literal (jget st ''pattern'') [''delivery'', ''review'']) (\<lambda>_.
     sbind (pv_integer (jget st ''maxIterations'') 0 5) (\<lambda>maxIterations.
     sbind (pv_boolean (jget st ''approvalRequired'')) (\<lambda>_.
     sbind (pv_integer (jget st ''discoveryRound'') 0 2) (\<lambda>_.
     sbind (pv_literal (jget st ''phase'') PHASES) (\<lambda>_.
     let minimum = (if jget st ''phase'' = JStr ''classified'' then 0 else 1) in
     sbind (pv_items (jget st ''workItems'') minimum 16 validateWorkItem) (\<lambda>workItems.
     sbind (pv_work_item_ids workItems []) (\<lambda>ids.
     sbind (pv_strings (jget st ''acceptanceCriteria'') 32 4000 minimum) (\<lambda>_.
     sbind (pv_items (jget st ''findings'') 0 16 validateFinding) (\<lambda>findings.
     sbind (pv_finding_ids ids findings []) (\<lambda>_.
     sbind (pv_items (jget st ''changes'') 0 6 validateChange) (\<lambda>changes.
     sbind (check (pv_change_kinds changes) invalid_state) (\<lambda>_.
     sbind (pv_optional (jget st ''plan'') validateExecutionPlan) (\<lambda>plan.
     sbind (if jget st ''changeResults'' = JUndef then Inr []
            else pv_items (jget st ''changeResults'') 0 16 validateChangeResult) (\<lambda>results.
     sbind (check (case plan of None \<Rightarrow> True | Some p \<Rightarrow> list_all (pv_result_known p) results) invalid_state) (\<lambda>_.
     sbind (if jget st ''evidenceRefs'' = JUndef then Inr []
            else pv_items (jget st ''evidenceRefs'') 0 256 validateArtifactRef) (\<lambda>_.
     sbind (pv_optional (jget st ''interrupt'') validateInterrupt) (\<lambda>pending.
     sbind (check (pv_same_plan plan pending) invalid_state) (\<lambda>_.
     sbind (pv_optional (jget st ''verification'') validateVerification) (\<lambda>verification.
     sbind (pv_optional (jget st ''diagnostic'') validateDiagnostic) (\<lambda>_.
     sbind (pv_optional (jget st ''currentWorkItem'') validateWorkItem) (\<lambda>_.
     sbind (pv_integer (jget st ''iteration'') 0 5) (\<lambda>iteration.
     sbind (check (iteration \<le> maxIterations \<and> int (length changes - 1) = iteration) invalid_state) (\<lambda>_.
     sbind (pv_literal (jget st ''status'') STATUSES) (\<lambda>_.
     sbind (pv_text (jget st ''summary'') 32000 True) (\<lambda>_.
     sbind (pv_strings (jget st ''unresolvedRisks'') 256 4000 0) (\<lambda>_.
     sbind (pv_items (jget st ''trace'') 0 128 validateTrace) (\<lambda>_.
     check (pv_consistent st maxIterations (length changes) iteration verification
              (pv_approval_rejected results)) invalid_state)))))))))))))))))))))))))))))"

definition empty_array :: "js \<Rightarrow> bool" where
  "empty_array v = (v = JArr [])"

text \<open>The checkpoint of a thread that has its input and no step yet.\<close>

definition validateBootstrapChannels :: "js \<Rightarrow> unit result" where
  "validateBootstrapChannels st =
     (let defaults = [''workItems'', ''acceptanceCriteria'', ''findings'', ''changes'', ''unresolvedRisks'', ''trace''];
          optionals = [''changeResults'', ''evidenceRefs'']
      in
      sbind (check (list_all (\<lambda>c. hasOwn st c \<longrightarrow> c \<in> set (defaults @ optionals @ [''plan'', ''interrupt'']))
               WORKFLOW_CHANNELS) invalid_state) (\<lambda>_.
      sbind (check (list_all (\<lambda>c. hasOwn st c \<and> empty_array (jget st c)) defaults) invalid_state) (\<lambda>_.
      sbind (check (list_all (\<lambda>c. hasOwn st c \<longrightarrow> empty_array (jget st c)) optionals) invalid_state) (\<lambda>_.
      sbind (check (list_all (\<lambda>c. hasOwn st c \<longrightarrow> jget st c = JNull) [''plan'', ''interrupt'']) invalid_state) (\<lambda>_.
      sbind (pv_record (jget st ''__start__'')) (\<lambda>initial.
      sbind (check (hasOwn initial ''objective'') invalid_state) (\<lambda>_.
      validateStateChannels initial)))))))"

definition validatePersistedWorkflowChannels :: "js \<Rightarrow> unit result" where
  "validatePersistedWorkflowChannels v =
     sbind (pv_record v) (\<lambda>st.
     if \<not> list_ex (hasOwn st) WORKFLOW_CHANNELS then Inr ()
     else if \<not> hasOwn st ''objective'' \<and> hasOwn st ''__start__'' then validateBootstrapChannels st
     else validateStateChannels st)"

section \<open>Labels of checkpoints\<close>

definition hasPassedVerification :: "js \<Rightarrow> bool" where
  "hasPassedVerification v =
     (jget (jget v ''verification'') ''passed'' = JBool True \<or>
      (case jget v ''changeResults'' of
         JArr rs \<Rightarrow> rs \<noteq> [] \<and> jget (jget (last rs) ''verification'') ''passed'' = JBool True
       | _ \<Rightarrow> False))"

definition semanticCheckpointLabels :: "js \<Rightarrow> semanticLabel list" where
  "semanticCheckpointLabels v =
     (if \<not> is_record v \<or> \<not> hasOwn v ''phase'' then []
      else if jget v ''phase'' = JStr ''analyzed'' then [PostDiscovery, PreMutation]
      else if jget v ''phase'' = JStr ''verified'' \<or> jget v ''phase'' = JStr ''synthesized'' then
        (if hasPassedVerification v then [LastKnownGreen] else [])
      else if jget v ''phase'' = JStr ''repaired'' then [PostRepair]
      else [])"

section \<open>Pending writes\<close>

definition validatePersistedWorkflowWrite :: "string \<Rightarrow> js \<Rightarrow> unit result" where
  "validatePersistedWorkflowWrite c v =
     (if c = ''objective'' then ignore (pv_text v 12000 False)
      else if c = ''pattern'' then pv_literal v [''delivery'', ''review'']
      else if c = ''maxIterations'' then ignore (pv_integer v 0 5)
      else if c = ''approvalRequired'' then ignore (pv_boolean v)
      else if c = ''discoveryRound'' then ignore (pv_integer v 0 2)
      else if c = ''workItems'' then ignore (pv_items v 0 16 validateWorkItem)
      else if c = ''acceptanceCriteria'' then pv_strings v 32 4000 0
      else if c = ''findings'' then ignore (pv_items v 0 16 validateFinding)
      else if c = ''changes'' then ignore (pv_items v 0 6 validateChange)
      else if c = ''verification'' then ignore (pv_optional v validateVerification)
      else if c = ''diagnostic'' then ignore (pv_optional v validateDiagnostic)
      else if c = ''currentWorkItem'' then ignore (pv_optional v validateWorkItem)
      else if c = ''iteration'' then ignore (pv_integer v 0 5)
      else if c = ''phase'' then pv_literal v PHASES
      else if c = ''status'' then pv_literal v STATUSES
      else if c = ''summary'' then ignore (pv_text v 32000 True)
      else if c = ''unresolvedRisks'' then pv_strings v 256 4000 0
      else if c = ''trace'' then ignore (pv_items v 0 128 validateTrace)
      else if c = ''plan'' then ignore (pv_optional v validateExecutionPlan)
      else if c = ''changeResults'' then ignore (pv_items v 0 16 validateChangeResult)
      else if c = ''evidenceRefs'' then ignore (pv_items v 0 256 validateArtifactRef)
      else if c = ''interrupt'' then ignore (pv_optional v validateInterrupt)
      else Inl invalid_state)"

definition validatePersistedWorkflowStructure :: "js \<Rightarrow> unit result" where
  "validatePersistedWorkflowStructure v =
     sbind (pv_record v) (\<lambda>st.
     ignore (traverse (\<lambda>c. if isPersistedWorkflowChannel c then validatePersistedWorkflowWrite c (jget st c) else Inr ())
       (keys_of st)))"

definition APPEND_CHANNELS :: "string list" where
  "APPEND_CHANNELS = [''findings'', ''changes'', ''unresolvedRisks'', ''trace'', ''changeResults'', ''evidenceRefs'']"

definition OPTIONAL_APPEND_CHANNELS :: "string list" where
  "OPTIONAL_APPEND_CHANNELS = [''changeResults'', ''evidenceRefs'']"

definition is_array :: "js \<Rightarrow> bool" where
  "is_array v = (case v of JArr xs \<Rightarrow> True | _ \<Rightarrow> False)"

definition channel_updates :: "js \<Rightarrow> string \<Rightarrow> js list \<Rightarrow> unit result" where
  "channel_updates base c updates =
     (if c \<in> set APPEND_CHANNELS then
        (let current = jget base c;
             currentValues = (if current = JUndef \<and> c \<in> set OPTIONAL_APPEND_CHANNELS then JArr [] else current)
         in check (is_array currentValues \<and> list_all is_array updates) (PlainError ''invalid pending workflow reducer value''))
      else check (length updates = 1) (PlainError ''invalid concurrent pending workflow writes''))"

definition validateEffectiveWorkflowState :: "js \<Rightarrow> (string \<times> js) list \<Rightarrow> unit result" where
  "validateEffectiveWorkflowState base pending =
     (let ws = filter (\<lambda>(c, v). isPersistedWorkflowChannel c) pending in
      if ws = [] then Inr ()
      else if \<not> is_record base then Inl (PlainError ''invalid pending workflow checkpoint state'')
      else
      sbind (traverse (\<lambda>(c, v). validatePersistedWorkflowWrite c v) ws) (\<lambda>_.
      ignore (traverse (\<lambda>c. channel_updates base c (map snd (filter (\<lambda>(d, v). d = c) ws)))
        (dedup (map fst ws)))))"

section \<open>The dependency check of the loader\<close>

text \<open>A set of changes none of which can ever be removed: each depends on one of the others.\<close>

definition blocked :: "(string \<Rightarrow> string list) \<Rightarrow> string set \<Rightarrow> bool" where
  "blocked deps S \<longleftrightarrow> (\<forall>x \<in> S. \<exists>d \<in> S. d \<in> set (deps x))"

lemma sweep_subset: "set (sweep deps xs r) \<subseteq> set r"
proof (induction xs arbitrary: r)
  case Nil
  then show ?case by simp
next
  case (Cons x xs)
  have "set (sweep deps xs (removeAll x r)) \<subseteq> set r" using Cons[of "removeAll x r"] by auto
  with Cons show ?case by simp
qed

lemma sweep_keeps_blocked:
  assumes "blocked deps S" and "S \<subseteq> set r"
  shows "S \<subseteq> set (sweep deps xs r)"
  using assms(2)
proof (induction xs arbitrary: r)
  case Nil
  then show ?case by simp
next
  case (Cons x xs)
  have "S \<subseteq> set (removeAll x r)" if "\<not> list_ex (\<lambda>d. d \<in> set r) (deps x)"
  proof -
    have "x \<notin> S" using that Cons.prems assms(1) unfolding list_ex_iff blocked_def by blast
    with Cons.prems show ?thesis by auto
  qed
  with Cons show ?case by simp
qed

lemma sweep_stuck:
  assumes "length (sweep deps xs r) = length r" and "set xs \<subseteq> set r"
  shows "\<forall>x \<in> set xs. \<exists>d \<in> set r. d \<in> set (deps x)"
  using assms
proof (induction xs arbitrary: r)
  case Nil
  then show ?case by simp
next
  case (Cons x xs)
  have "length (removeAll x r) < length r"
    using Cons.prems(2) by (simp add: length_removeAll_less)
  then have "list_ex (\<lambda>d. d \<in> set r) (deps x)"
    using Cons.prems(1) sweep_shrinks[of deps xs "removeAll x r"] by (auto split: if_splits)
  with Cons show ?case by (auto simp: list_ex_iff)
qed

lemma eliminate_iff:
  "eliminate deps r = Inr () \<longleftrightarrow> \<not> (\<exists>S. S \<noteq> {} \<and> S \<subseteq> set r \<and> blocked deps S)"
proof (induction deps r rule: eliminate.induct)
  case (1 deps r)
  let ?r = "sweep deps r r"
  have stuck: "blocked deps (set r)" if "length ?r = length r"
    using sweep_stuck[OF that] by (auto simp: blocked_def)
  have step: "S \<subseteq> set r \<longleftrightarrow> S \<subseteq> set ?r" if "blocked deps S" for S
    using sweep_keeps_blocked[OF that] sweep_subset[of deps r r] by blast
  show ?case
  proof (cases "r = [] \<or> length ?r = length r")
    case True
    then show ?thesis
    proof (cases "r = []")
      case False
      with True have "blocked deps (set r)" "eliminate deps r = Inl invalid_state"
        using stuck by (simp_all add: eliminate.simps[of deps r])
      with False show ?thesis by (auto intro!: exI[of _ "set r"])
    qed (simp add: eliminate.simps[of deps "[]"])
  next
    case False
    then have "eliminate deps r = eliminate deps ?r" by (simp add: eliminate.simps[of deps r])
    moreover have "eliminate deps ?r = Inr () \<longleftrightarrow> \<not> (\<exists>S. S \<noteq> {} \<and> S \<subseteq> set ?r \<and> blocked deps S)"
      using 1 False by blast
    ultimately show ?thesis using step by metis
  qed
qed

lemma eliminate_Inl: "eliminate deps r = Inl e \<Longrightarrow> e = invalid_state"
proof (induction deps r rule: eliminate.induct)
  case (1 deps r)
  then show ?case by (subst (asm) (2) eliminate.simps) (auto split: if_splits)
qed

lemma eliminate_acyclic:
  assumes ids: "distinct (map changeId cs)" and known: "deps_known cs"
  shows "eliminate (deps_of cs) (map changeId cs) = Inr () \<longleftrightarrow> acyclic (dep_rel cs)"
proof
  assume el: "eliminate (deps_of cs) (map changeId cs) = Inr ()"
  let ?S = "{x. (x, x) \<in> (dep_rel cs)\<^sup>+}"
  have "\<exists>d \<in> ?S. d \<in> set (deps_of cs x)" if "x \<in> ?S" for x
  proof -
    from that have "(x, x) \<in> (dep_rel cs)\<^sup>+" by simp
    then obtain d where d: "(x, d) \<in> (dep_rel cs)\<^sup>*" "(d, x) \<in> dep_rel cs" by (meson tranclD2)
    then have "(d, d) \<in> (dep_rel cs)\<^sup>+" by (meson rtrancl_into_trancl2)
    with d(2) dep_rel_iff[OF ids] show ?thesis by blast
  qed
  then have "blocked (deps_of cs) ?S" unfolding blocked_def by blast
  moreover have "?S \<subseteq> set (map changeId cs)"
  proof
    fix x assume "x \<in> ?S"
    then obtain d where "(d, x) \<in> dep_rel cs" by (auto dest: tranclD2)
    then show "x \<in> set (map changeId cs)" using dep_rel_iff[OF ids] by (simp add: plan_ids_def)
  qed
  ultimately have "?S = {}"
    using iffD1[OF eliminate_iff el] by (metis (no_types, lifting))
  then show "acyclic (dep_rel cs)" by (auto simp: acyclic_def)
next
  assume "acyclic (dep_rel cs)"
  then have wf: "wf (dep_rel cs)" by (rule finite_acyclic_wf[OF finite_dep_rel])
  have False if "x \<in> S" "S \<subseteq> set (map changeId cs)" "blocked (deps_of cs) S" for x S
  proof -
    from wf that(1) obtain z where z: "z \<in> S" "\<And>y. (y, z) \<in> dep_rel cs \<Longrightarrow> y \<notin> S" by (rule wfE_min) blast
    with that obtain d where d: "d \<in> S" "d \<in> set (deps_of cs z)" unfolding blocked_def by blast
    have "z \<in> plan_ids cs" using z(1) that(2) by (auto simp: plan_ids_def)
    with d z(2)[of d] dep_rel_iff[OF ids, of d z] show False by blast
  qed
  then show "eliminate (deps_of cs) (map changeId cs) = Inr ()" unfolding eliminate_iff by blast
qed


section \<open>Plans of the parser pass the loader\<close>

lemma pv_text_ok: "ok_text m s \<Longrightarrow> m \<le> n \<Longrightarrow> pv_text (JStr s) n b = Inr s"
  by (auto simp: pv_text_def ok_text_def)

lemma ignore_simps [simp]: "ignore (Inr x) = Inr ()" "ignore (Inl e) = Inl e"
  by (simp_all add: ignore_def)

lemma ignore_eq_Inr: "ignore r = Inr u \<longleftrightarrow> (\<exists>x. r = Inr x)"
  by (cases r) (simp_all add: ignore_def)

lemma traverse_units: "(\<And>x. x \<in> set xs \<Longrightarrow> f x = Inr ()) \<Longrightarrow> traverse f xs = Inr (map (\<lambda>_. ()) xs)"
  by (rule traverse_all_Inr)

lemma pv_items_ok:
  "lo \<le> length xs \<Longrightarrow> length xs \<le> hi \<Longrightarrow> (\<And>x. x \<in> set xs \<Longrightarrow> f x = Inr ()) \<Longrightarrow> pv_items (JArr xs) lo hi f = Inr xs"
  by (simp add: pv_items_def traverse_units)

lemma pv_strings_ok:
  assumes "lo \<le> length ss" and "length ss \<le> hi" and "\<And>s. s \<in> set ss \<Longrightarrow> ok_text m s" and "m \<le> n"
  shows "pv_strings (JArr (map JStr ss)) hi n lo = Inr ()"
proof -
  have "pv_items (JArr (map JStr ss)) lo hi (\<lambda>x. sbind (pv_text x n False) (\<lambda>_. Inr ())) = Inr (map JStr ss)"
    using assms by (intro pv_items_ok) (auto simp: pv_text_ok[of m])
  then show ?thesis by (simp add: pv_strings_def)
qed

lemma pv_items_eq_Inr:
  "pv_items v lo hi f = Inr xs \<longleftrightarrow>
     v = JArr xs \<and> lo \<le> length xs \<and> length xs \<le> hi \<and> (\<forall>x \<in> set xs. \<exists>u. f x = Inr u)"
  by (auto simp: pv_items_def result_simps traverse_unit split: js.splits)

lemma pv_lexical_ok: "ok_text m s \<Longrightarrow> m \<le> n \<Longrightarrow> fmt s \<Longrightarrow> pv_lexical (JStr s) n fmt = Inr s"
  by (simp add: pv_lexical_def pv_text_ok)

lemma pv_formats: "pv_WORK_ITEM_ID = ID" "pv_PLAN_ID = PLAN_ID"
  by (simp_all add: pv_WORK_ITEM_ID_def ID_def pv_PLAN_ID_def PLAN_ID_def)

lemmas plan_bounds = MAX_TITLE_def MAX_INSTRUCTION_def MAX_FILE_def MAX_FILES_def MAX_REASONS_def
  MAX_CHECKS_def MAX_SCRIPT_def MAX_PLAN_TEXT_def MAX_PLAN_DEPENDENCIES_def MAX_PLAN_CHANGES_def

lemma validatePlanCheck_object: "ok_text MAX_SCRIPT (script k) \<Longrightarrow> validatePlanCheck (check_object k) = Inr ()"
  by (simp add: validatePlanCheck_def check_object_def pv_record_def pv_literal_def pv_text_ok[of MAX_SCRIPT] plan_bounds)

lemma level_literal: "pv_literal (JStr (level_text l)) [''low'', ''medium'', ''high''] = Inr ()"
  by (cases l) (simp_all add: pv_literal_def level_text_def)

lemma status_literal: "pv_literal (JStr (status_text s)) [''pending'', ''claimed'', ''applied'', ''failed''] = Inr ()"
  by (cases s) (simp_all add: pv_literal_def status_text_def)

lemma validatePlanChange_object:
  assumes "wf_change c"
  shows "validatePlanChange (change_object c) = Inr ()"
proof -
  have r: "pv_record (change_object c) = Inr (change_object c)" "is_record (change_object c)"
    by (simp_all add: pv_record_def change_object_def)
  from assms have ok: "ok_text 48 (changeId c)" "ID (changeId c)" "ok_text MAX_TITLE (title c)"
      "ok_text MAX_INSTRUCTION (instruction c)"
    and deps: "length (dependsOn c) \<le> 16" "\<And>d. d \<in> set (dependsOn c) \<Longrightarrow> ok_text 48 d"
    and fs: "1 \<le> length (files (scope c))" "length (files (scope c)) \<le> 64"
      "\<And>f. f \<in> set (files (scope c)) \<Longrightarrow> ok_text 400 f"
    and rs: "length (reasons (risk c)) \<le> 16" "\<And>f. f \<in> set (reasons (risk c)) \<Longrightarrow> ok_text 4000 f"
    and ks: "1 \<le> length (acceptanceChecks c)" "length (acceptanceChecks c) \<le> 16"
      "\<And>k. k \<in> set (acceptanceChecks c) \<Longrightarrow> ok_text MAX_SCRIPT (script k)"
    unfolding wf_change_def plan_bounds list_all_iff by auto
  have "pv_items (JArr (map check_object (acceptanceChecks c))) 1 16 validatePlanCheck =
      Inr (map check_object (acceptanceChecks c))"
    using ks by (auto intro!: pv_items_ok validatePlanCheck_object)
  moreover have "pv_lexical (JStr (changeId c)) 48 pv_WORK_ITEM_ID = Inr (changeId c)"
    using pv_lexical_ok[OF ok(1)] ok(2) by (simp add: pv_formats)
  moreover have "pv_text (JStr (title c)) 200 False = Inr (title c)"
    "pv_text (JStr (instruction c)) 8000 False = Inr (instruction c)"
    using pv_text_ok[OF ok(3)] pv_text_ok[OF ok(4)] by (simp_all add: plan_bounds)
  moreover have "pv_strings (JArr (map JStr (dependsOn c))) 16 48 0 = Inr ()"
    using deps by (intro pv_strings_ok[of _ _ _ 48]) auto
  moreover have "pv_strings (JArr (map JStr (files (scope c)))) 64 400 1 = Inr ()"
    using fs by (intro pv_strings_ok[of _ _ _ 400]) auto
  moreover have "pv_strings (JArr (map JStr (reasons (risk c)))) 16 4000 0 = Inr ()"
    using rs by (intro pv_strings_ok[of _ _ _ 4000]) auto
  ultimately show ?thesis
    unfolding validatePlanChange_def
    by (simp add: r change_object_get pv_record_def level_literal status_literal)
qed

lemma pv_change_ids_object:
  "list_all wf_change cs \<Longrightarrow> distinct (map changeId cs) \<Longrightarrow> changeId ` set cs \<inter> set seen = {} \<Longrightarrow>
   pv_change_ids (map change_object cs) seen = Inr (seen @ map changeId cs)"
proof (induction cs arbitrary: seen)
  case Nil
  then show ?case by simp
next
  case (Cons c cs)
  then have "pv_text (JStr (changeId c)) 48 False = Inr (changeId c)"
    by (simp add: wf_change_def pv_text_ok[of 48])
  with Cons show ?case by (auto simp: change_object_get)
qed

lemma pv_dependencies_iff:
  "list_all (ok_text 48) ds \<Longrightarrow>
   pv_dependencies ids cid (map JStr ds) seen =
     (if set ds \<subseteq> set ids \<and> cid \<notin> set ds \<and> distinct ds \<and> set ds \<inter> set seen = {}
      then Inr (seen @ ds) else Inl invalid_state)"
  by (induction ds arbitrary: seen) (auto simp: pv_text_ok[of 48])

lemma pv_change_dependencies_object:
  assumes "wf_change c"
  shows "pv_change_dependencies ids (change_object c) =
     (if set (dependsOn c) \<subseteq> set ids \<and> changeId c \<notin> set (dependsOn c) \<and> distinct (dependsOn c)
      then Inr (changeId c, dependsOn c) else Inl invalid_state)"
proof -
  from assms have "pv_text (JStr (changeId c)) 48 False = Inr (changeId c)"
    "list_all (ok_text 48) (dependsOn c)" "length (dependsOn c) \<le> 16"
    by (auto simp: wf_change_def pv_text_ok[of 48] plan_bounds)
  then show ?thesis
    by (simp add: pv_change_dependencies_def change_object_get pv_items_ok pv_dependencies_iff)
qed

lemma pv_all_dependencies_object:
  assumes "list_all wf_change cs"
  shows "traverse (pv_change_dependencies (map changeId cs)) (map change_object cs) =
    (if deps_known cs then Inr (map (\<lambda>c. (changeId c, dependsOn c)) cs) else Inl invalid_state)"
proof -
  have "traverse (pv_change_dependencies ids) (map change_object ds) =
      (if \<forall>c \<in> set ds. set (dependsOn c) \<subseteq> set ids \<and> changeId c \<notin> set (dependsOn c) \<and> distinct (dependsOn c)
       then Inr (map (\<lambda>c. (changeId c, dependsOn c)) ds) else Inl invalid_state)"
    if "list_all wf_change ds" for ids ds
    using that by (induction ds) (auto simp: pv_change_dependencies_object)
  from this[OF assms] show ?thesis by (simp add: deps_known_def plan_ids_def)
qed

lemma map_last_dependencies:
  assumes "distinct (map changeId cs)"
  shows "(case map_last (map (\<lambda>c. (changeId c, dependsOn c)) cs) x of None \<Rightarrow> [] | Some ds \<Rightarrow> ds) = deps_of cs x"
proof (cases "\<exists>c \<in> set cs. changeId c = x")
  case True
  then obtain c where c: "c \<in> set cs" "x = changeId c" by auto
  have "map_of (rev (map (\<lambda>c. (changeId c, dependsOn c)) cs)) (changeId c) = Some (dependsOn c)"
    using assms c(1) by (intro map_of_is_SomeI) (auto simp: o_def distinct_rev rev_map[symmetric])
  then show ?thesis using c assms by (simp add: map_last_def deps_of_member)
next
  case False
  then have "map_last (map (\<lambda>c. (changeId c, dependsOn c)) cs) x = None" by (auto simp: map_last_None)
  with False show ?thesis by (auto simp: deps_of_def dest!: find_SomeD split: option.splits)
qed

lemma loader_plan_check:
  assumes "ok_text 128 (planId p)" and "PLAN_ID (planId p)" and "1 \<le> revision p" and "revision p \<le> max_safe_integer"
    and "1 \<le> length (planChanges p)" and "length (planChanges p) \<le> MAX_PLAN_CHANGES"
    and wf: "list_all wf_change (planChanges p)" and ids: "distinct (map changeId (planChanges p))"
  shows "validateExecutionPlan (plan_object p) =
    (if validateDependencies p = Inr ()
     then Inr \<lparr>piPlanId = planId p, piRevision = revision p, piChangeIds = map changeId (planChanges p)\<rparr>
     else Inl invalid_state)"
proof -
  let ?cs = "planChanges p"
  let ?deps = "map (\<lambda>c. (changeId c, dependsOn c)) ?cs"
  have head: "pv_record (plan_object p) = Inr (plan_object p)"
      "jget (plan_object p) ''version'' = JNum (NInt 1)"
      "pv_lexical (jget (plan_object p) ''planId'') 128 pv_PLAN_ID = Inr (planId p)"
      "pv_integer (jget (plan_object p) ''revision'') 1 max_safe_integer = Inr (revision p)"
      "pv_items (jget (plan_object p) ''changes'') 1 16 validatePlanChange = Inr (map change_object ?cs)"
    using assms pv_lexical_ok[OF assms(1), of 128 pv_PLAN_ID]
    by (auto simp: pv_record_def plan_object_def pv_integer_def pv_formats plan_bounds list_all_iff
        intro!: pv_items_ok validatePlanChange_object)
  have ids': "pv_change_ids (map change_object ?cs) [] = Inr (map changeId ?cs)"
    using pv_change_ids_object[OF wf ids, of "[]"] by simp
  have deps: "(\<lambda>x. case map_last ?deps x of None \<Rightarrow> [] | Some ds \<Rightarrow> ds) = deps_of ?cs"
    using map_last_dependencies[OF ids] by auto
  have "eliminate (deps_of ?cs) (map changeId ?cs) =
      (if acyclic (dep_rel ?cs) then Inr () else Inl invalid_state)" if "deps_known ?cs"
    using eliminate_acyclic[OF ids that] eliminate_Inl[of "deps_of ?cs" "map changeId ?cs"]
    by (cases "eliminate (deps_of ?cs) (map changeId ?cs)") auto
  moreover have "validateDependencies p = Inr () \<longleftrightarrow> deps_known ?cs \<and> acyclic (dep_rel ?cs)"
    using validateDependencies_iff[OF ids] dep_order_acyclic[OF ids] acyclic_dep_order[OF ids] by blast
  ultimately show ?thesis
    unfolding validateExecutionPlan_def
    by (simp add: head ids' pv_all_dependencies_object[OF wf] deps del: One_nat_def)
qed

section \<open>Channel values as objects\<close>

text \<open>The object literals the parsers and nodes build, as they are serialised into a checkpoint.\<close>

definition texts_json :: "string list \<Rightarrow> js" where
  "texts_json ss = JArr (map JStr ss)"

definition optional_json :: "string \<Rightarrow> ('a \<Rightarrow> js) \<Rightarrow> 'a option \<Rightarrow> (string \<times> js) list" where
  "optional_json k f v = (case v of None \<Rightarrow> [] | Some x \<Rightarrow> [(k, f x)])"

definition work_item_object :: "workItem \<Rightarrow> js" where
  "work_item_object w = JObj [(''id'', JStr (wiId w)), (''title'', JStr (wiTitle w)),
     (''instruction'', JStr (wiInstruction w))]"

definition evidence_kind_text :: "evidenceKind \<Rightarrow> string" where
  "evidence_kind_text k = (case k of EvFile \<Rightarrow> ''file'' | EvTest \<Rightarrow> ''test'' | EvRuntime \<Rightarrow> ''runtime''
     | EvDocumentation \<Rightarrow> ''documentation'' | EvOther \<Rightarrow> ''other'')"

definition evidence_object :: "findingEvidence \<Rightarrow> js" where
  "evidence_object e = JObj [(''kind'', JStr (evidence_kind_text (feKind e))), (''location'', JStr (feLocation e)),
     (''detail'', JStr (feDetail e))]"

definition finding_object :: "finding \<Rightarrow> js" where
  "finding_object f = JObj [(''workItemId'', JStr (fiWorkItemId f)), (''summary'', JStr (fiSummary f)),
     (''evidence'', JArr (map evidence_object (fiEvidence f))), (''risks'', texts_json (fiRisks f)),
     (''discoveredWorkItems'', JArr (map work_item_object (discoveredWorkItems f)))]"

definition change_kind_text :: "changeKind \<Rightarrow> string" where
  "change_kind_text k = (case k of Implementation \<Rightarrow> ''implementation'' | Repair \<Rightarrow> ''repair'')"

definition change_set_object :: "changeSet \<Rightarrow> js" where
  "change_set_object c = JObj [(''kind'', JStr (change_kind_text (csKind c))), (''summary'', JStr (csSummary c)),
     (''filesChanged'', texts_json (filesChanged c)), (''evidence'', texts_json (csEvidence c)),
     (''unresolvedRisks'', texts_json (csUnresolvedRisks c))]"

definition verification_check_object :: "verificationCheck \<Rightarrow> js" where
  "verification_check_object k = JObj [(''name'', JStr (vcName k)), (''passed'', JBool (vcPassed k)),
     (''evidence'', JStr (vcEvidence k))]"

definition verification_object :: "verificationResult \<Rightarrow> js" where
  "verification_object v = JObj [(''passed'', JBool (vrPassed v)), (''summary'', JStr (vrSummary v)),
     (''checks'', JArr (map verification_check_object (vrChecks v)))]"

definition diagnostic_object :: "diagnosticResult \<Rightarrow> js" where
  "diagnostic_object d = JObj [(''summary'', JStr (dgSummary d)), (''rootCauses'', texts_json (rootCauses d)),
     (''repairInstructions'', texts_json (repairInstructions d))]"

definition trace_node_text :: "traceNode \<Rightarrow> string" where
  "trace_node_text n = (case n of TrClassify \<Rightarrow> ''classify'' | TrDiscover \<Rightarrow> ''discover'' | TrSpecialist \<Rightarrow> ''specialist''
     | TrReplan \<Rightarrow> ''replan'' | TrImplement \<Rightarrow> ''implement'' | TrVerify \<Rightarrow> ''verify'' | TrDiagnose \<Rightarrow> ''diagnose''
     | TrRepair \<Rightarrow> ''repair'' | TrSynthesize \<Rightarrow> ''synthesize'' | TrEscalate \<Rightarrow> ''escalate'')"

definition trace_route_text :: "traceRoute \<Rightarrow> string" where
  "trace_route_text r = (case r of RtImplement \<Rightarrow> ''implement'' | RtSynthesize \<Rightarrow> ''synthesize''
     | RtDiagnose \<Rightarrow> ''diagnose'' | RtEscalate \<Rightarrow> ''escalate'' | RtVerify \<Rightarrow> ''verify'')"

definition trace_object :: "traceEvent \<Rightarrow> js" where
  "trace_object e = JObj ([(''node'', JStr (trace_node_text (teNode e))), (''iteration'', JNum (NInt (teIteration e)))] @
     optional_json ''workItemId'' JStr (teWorkItemId e) @
     optional_json ''route'' (\<lambda>r. JStr (trace_route_text r)) (teRoute e))"

definition artifact_object :: "artifactRef \<Rightarrow> js" where
  "artifact_object a = JObj [(''digest'', JStr (arDigest a)), (''byteCount'', JNum (NInt (arByteCount a))),
     (''truncated'', JBool (arTruncated a))]"

definition execution_status_text :: "changeExecutionStatus \<Rightarrow> string" where
  "execution_status_text s = (case s of CePending \<Rightarrow> ''pending'' | CeRunning \<Rightarrow> ''running'' | CePassed \<Rightarrow> ''passed''
     | CeFailed \<Rightarrow> ''failed'' | CeNeedsAttention \<Rightarrow> ''needs_attention'')"

definition change_result_object :: "changeResult \<Rightarrow> js" where
  "change_result_object r = JObj ([(''changeId'', JStr (crChangeId r)),
     (''status'', JStr (execution_status_text (crStatus r))), (''attempt'', JNum (NInt (crAttempt r))),
     (''evidenceRefs'', JArr (map artifact_object (crEvidenceRefs r)))] @
     optional_json ''change'' change_set_object (crChange r) @
     optional_json ''verification'' verification_object (crVerification r))"

definition pattern_text :: "workflowPattern \<Rightarrow> string" where
  "pattern_text p = (case p of Delivery \<Rightarrow> ''delivery'' | Review \<Rightarrow> ''review'')"

definition phase_text :: "workflowPhase \<Rightarrow> string" where
  "phase_text p = (case p of Classified \<Rightarrow> ''classified'' | Discovered \<Rightarrow> ''discovered'' | Analyzed \<Rightarrow> ''analyzed''
     | Implemented \<Rightarrow> ''implemented'' | Verified \<Rightarrow> ''verified'' | Diagnosed \<Rightarrow> ''diagnosed'' | Repaired \<Rightarrow> ''repaired''
     | Synthesized \<Rightarrow> ''synthesized'' | Escalated \<Rightarrow> ''escalated'')"

definition workflow_status_text :: "workflowStatus \<Rightarrow> string" where
  "workflow_status_text s = (case s of Running \<Rightarrow> ''running'' | AwaitingApproval \<Rightarrow> ''awaiting_approval''
     | Completed \<Rightarrow> ''completed'' | NeedsAttention \<Rightarrow> ''needs_attention'')"

text \<open>The \<open>channel_values\<close> of the checkpoint of a state; a channel that holds \<open>undefined\<close> is absent.\<close>

definition channel_object :: "workflowState \<Rightarrow> js" where
  "channel_object s = JObj ([
     (''objective'', JStr (wsObjective s)), (''pattern'', JStr (pattern_text (wsPattern s))),
     (''maxIterations'', JNum (NInt (wsMaxIterations s))), (''approvalRequired'', JBool (wsApprovalRequired s)),
     (''discoveryRound'', JNum (NInt (wsDiscoveryRound s))),
     (''workItems'', JArr (map work_item_object (wsWorkItems s))),
     (''acceptanceCriteria'', texts_json (wsAcceptanceCriteria s)),
     (''findings'', JArr (map finding_object (wsFindings s))),
     (''changes'', JArr (map change_set_object (wsChanges s))),
     (''iteration'', JNum (NInt (wsIteration s))), (''phase'', JStr (phase_text (wsPhase s))),
     (''status'', JStr (workflow_status_text (wsStatus s))), (''summary'', JStr (wsSummary s)),
     (''unresolvedRisks'', texts_json (wsUnresolvedRisks s)),
     (''trace'', JArr (map trace_object (wsTrace s))),
     (''changeResults'', JArr (map change_result_object (wsChangeResults s))),
     (''evidenceRefs'', JArr (map artifact_object (wsEvidenceRefs s)))] @
     optional_json ''verification'' verification_object (wsVerification s) @
     optional_json ''diagnostic'' diagnostic_object (wsDiagnostic s) @
     optional_json ''currentWorkItem'' work_item_object (wsCurrentWorkItem s) @
     optional_json ''plan'' plan_object (wsPlan s) @
     optional_json ''interrupt'' interrupt_object (wsInterrupt s))"

definition optional_value :: "('a \<Rightarrow> js) \<Rightarrow> 'a option \<Rightarrow> js" where
  "optional_value f v = (case v of None \<Rightarrow> JUndef | Some x \<Rightarrow> f x)"

lemma optional_json_append:
  "jget (JObj (optional_json k f v @ ys)) k' =
     (if k' = k \<and> v \<noteq> None then optional_value f v else jget (JObj ys) k')"
  by (cases v) (simp_all add: optional_json_def optional_value_def)

lemma optional_json_single:
  "jget (JObj (optional_json k f v)) k' = (if k' = k then optional_value f v else JUndef)"
  by (cases v) (simp_all add: optional_json_def optional_value_def)

lemma channel_object_get:
  "jget (channel_object s) ''objective'' = JStr (wsObjective s)"
  "jget (channel_object s) ''pattern'' = JStr (pattern_text (wsPattern s))"
  "jget (channel_object s) ''maxIterations'' = JNum (NInt (wsMaxIterations s))"
  "jget (channel_object s) ''approvalRequired'' = JBool (wsApprovalRequired s)"
  "jget (channel_object s) ''discoveryRound'' = JNum (NInt (wsDiscoveryRound s))"
  "jget (channel_object s) ''workItems'' = JArr (map work_item_object (wsWorkItems s))"
  "jget (channel_object s) ''acceptanceCriteria'' = texts_json (wsAcceptanceCriteria s)"
  "jget (channel_object s) ''findings'' = JArr (map finding_object (wsFindings s))"
  "jget (channel_object s) ''changes'' = JArr (map change_set_object (wsChanges s))"
  "jget (channel_object s) ''iteration'' = JNum (NInt (wsIteration s))"
  "jget (channel_object s) ''phase'' = JStr (phase_text (wsPhase s))"
  "jget (channel_object s) ''status'' = JStr (workflow_status_text (wsStatus s))"
  "jget (channel_object s) ''summary'' = JStr (wsSummary s)"
  "jget (channel_object s) ''unresolvedRisks'' = texts_json (wsUnresolvedRisks s)"
  "jget (channel_object s) ''trace'' = JArr (map trace_object (wsTrace s))"
  "jget (channel_object s) ''changeResults'' = JArr (map change_result_object (wsChangeResults s))"
  "jget (channel_object s) ''evidenceRefs'' = JArr (map artifact_object (wsEvidenceRefs s))"
  by (simp_all add: channel_object_def)

lemma channel_object_optional:
  "jget (channel_object s) ''verification'' = optional_value verification_object (wsVerification s)"
  "jget (channel_object s) ''diagnostic'' = optional_value diagnostic_object (wsDiagnostic s)"
  "jget (channel_object s) ''currentWorkItem'' = optional_value work_item_object (wsCurrentWorkItem s)"
  "jget (channel_object s) ''plan'' = optional_value plan_object (wsPlan s)"
  "jget (channel_object s) ''interrupt'' = optional_value interrupt_object (wsInterrupt s)"
  by (simp_all add: channel_object_def optional_json_append optional_json_single optional_value_def split: option.split)

section \<open>Results of the parsers pass the loader\<close>

lemma pv_text_worker: "textValue v n = Inr s \<Longrightarrow> n \<le> m \<Longrightarrow> pv_text (JStr s) m b = Inr s"
  using worker_texts.read_bounds[of v n s] worker_texts.read_trimmed[of v n s] by (auto simp: pv_text_def)

lemma pv_strings_worker:
  "stringArray v lo hi = Inr ss \<Longrightarrow> pv_strings (texts_json ss) hi 4000 lo = Inr ()"
  using stringArray_bounds[of v lo hi ss]
  by (auto simp: texts_json_def ok_text_def intro!: pv_strings_ok[of lo ss hi 4000])

lemma validateWorkItem_object:
  assumes "parseWorkItem v seen = Inr w"
  shows "validateWorkItem (work_item_object w) = Inr ()"
proof -
  from assms obtain ob where p: "textValue (jget ob ''id'') 48 = Inr (wiId w)" "WORK_ITEM_ID (wiId w)"
      "textValue (jget ob ''title'') 200 = Inr (wiTitle w)"
      "textValue (jget ob ''instruction'') 2000 = Inr (wiInstruction w)"
    by (auto simp: parseWorkItem_def result_simps split: if_splits)
  have "WORK_ITEM_ID = ID" by (simp add: WORK_ITEM_ID_def ID_def)
  with p(2) pv_text_worker[OF p(1)] pv_text_worker[OF p(3)] pv_text_worker[OF p(4)] show ?thesis
    by (simp add: validateWorkItem_def work_item_object_def pv_record_def pv_lexical_def pv_formats)
qed

lemma validateEvidence_object: "parseEvidence v = Inr e \<Longrightarrow> validateEvidence (evidence_object e) = Inr ()"
  by (cases "feKind e")
    (auto simp: parseEvidence_def validateEvidence_def evidence_object_def result_simps pv_record_def
      pv_literal_def pv_text_worker evidence_kind_text_def)

lemma validateFinding_object:
  assumes "parseFinding B t i = Inr f" and i: "i \<noteq> []" "trim i \<noteq> []" "length i \<le> 48"
  shows "validateFinding (finding_object f) = Inr ()"
proof -
  from assms(1) obtain ob raw where
    p: "array (jget ob ''evidence'') 0 MAX_LIST = Inr raw" "traverse parseEvidence raw = Inr (fiEvidence f)"
      "textValue (jget ob ''summary'') MAX_TEXT = Inr (fiSummary f)"
      "stringArray (jget ob ''risks'') 0 MAX_LIST = Inr (fiRisks f)" and fi: "fiWorkItemId f = i"
    and d: "(if jget ob ''discoveredWorkItems'' = JUndef \<or> jget ob ''discoveredWorkItems'' = JNull then Inr []
       else sbind (array (jget ob ''discoveredWorkItems'') 0 4) (traverse (\<lambda>x. parseWorkItem x {}))) = Inr (discoveredWorkItems f)"
    by (auto simp: parseFinding_def result_simps)
  have items: "\<exists>v. parseWorkItem v {} = Inr w" if "w \<in> set (discoveredWorkItems f)" for w
    using d that by (auto simp: result_simps dest: traverse_set split: if_splits)
  have len: "length (discoveredWorkItems f) \<le> 4" using parseFinding_wf[OF assms(1)] by simp
  have "pv_items (JArr (map work_item_object (discoveredWorkItems f))) 0 4 validateWorkItem =
      Inr (map work_item_object (discoveredWorkItems f))"
    using len items by (intro pv_items_ok) (auto intro: validateWorkItem_object)
  moreover have "length (fiEvidence f) \<le> 32"
    using worker_arrays.arr_length[OF p(1)] traverse_length[OF p(2)] by (simp add: MAX_LIST_def)
  then have "pv_items (JArr (map evidence_object (fiEvidence f))) 0 32 validateEvidence =
      Inr (map evidence_object (fiEvidence f))"
    using p(2) by (intro pv_items_ok) (auto dest!: traverse_set intro: validateEvidence_object)
  moreover have "pv_text (JStr i) 48 False = Inr i" using i by (simp add: pv_text_def)
  ultimately show ?thesis
    using pv_text_worker[OF p(3), of 8000 False] pv_strings_worker[OF p(4)]
    by (simp add: validateFinding_def finding_object_def pv_record_def fi MAX_TEXT_def MAX_LIST_def)
qed

lemma validateChange_object:
  "parseChangeSet B t k = Inr c \<Longrightarrow> validateChange (change_set_object c) = Inr ()"
  by (cases k)
    (auto simp: parseChangeSet_def validateChange_def change_set_object_def result_simps pv_record_def
      pv_literal_def change_kind_text_def MAX_TEXT_def MAX_LIST_def pv_text_worker[of _ 8000] pv_strings_worker)

lemma validateCheck_object:
  "parseVerificationCheck v = Inr k \<Longrightarrow> validateCheck (verification_check_object k) = Inr ()"
  by (auto simp: parseVerificationCheck_def validateCheck_def verification_check_object_def result_simps
      pv_record_def pv_boolean_def pv_text_worker)

lemma validateVerification_object:
  assumes "parseVerification B t = Inr v"
  shows "validateVerification (verification_object v) = Inr (vrPassed v)"
proof -
  from assms obtain ob raw where
    p: "array (jget ob ''checks'') 1 MAX_LIST = Inr raw" "traverse parseVerificationCheck raw = Inr (vrChecks v)"
      "textValue (jget ob ''summary'') MAX_TEXT = Inr (vrSummary v)" "vrPassed v = list_all vcPassed (vrChecks v)"
    by (auto simp: parseVerification_def result_simps split: if_splits)
  have "1 \<le> length (vrChecks v) \<and> length (vrChecks v) \<le> 32"
    using worker_arrays.arr_length[OF p(1)] traverse_length[OF p(2)] by (simp add: MAX_LIST_def)
  then have "pv_items (JArr (map verification_check_object (vrChecks v))) 1 32 validateCheck =
      Inr (map verification_check_object (vrChecks v))"
    using p(2) by (intro pv_items_ok) (auto dest!: traverse_set intro: validateCheck_object)
  moreover have "list_all (\<lambda>c. jget c ''passed'' = JBool True) (map verification_check_object ks) = list_all vcPassed ks" for ks
    by (induction ks) (simp_all add: verification_check_object_def)
  ultimately show ?thesis
    using pv_text_worker[OF p(3), of 8000 False] p(4)
    by (simp add: validateVerification_def verification_object_def pv_record_def pv_boolean_def MAX_TEXT_def del: One_nat_def)
qed

lemma validateDiagnostic_object:
  "parseDiagnostic B t = Inr d \<Longrightarrow> validateDiagnostic (diagnostic_object d) = Inr ()"
  by (auto simp: parseDiagnostic_def validateDiagnostic_def diagnostic_object_def result_simps pv_record_def
      MAX_TEXT_def MAX_LIST_def pv_text_worker[of _ 8000] pv_strings_worker[where lo = "Suc 0", simplified])

section \<open>States of a run that the loader refuses\<close>

lemma channel_object_record: "is_record (channel_object s)" "pv_record (channel_object s) = Inr (channel_object s)"
  by (simp_all add: channel_object_def pv_record_def)

lemma channel_object_own:
  "hasOwn (channel_object s) ''objective''" "list_all (hasOwn (channel_object s)) REQUIRED_WORKFLOW_CHANNELS"
  by (simp_all add: hasOwn_def channel_object_def REQUIRED_WORKFLOW_CHANNELS_def WORKFLOW_CHANNELS_def
      OPTIONAL_WORKFLOW_CHANNELS_def)

lemma channel_object_validated:
  "validatePersistedWorkflowChannels (channel_object s) = validateStateChannels (channel_object s)"
  by (simp add: validatePersistedWorkflowChannels_def channel_object_record channel_object_own list_ex_iff
      WORKFLOW_CHANNELS_def)

lemma pv_record_JObj [simp]: "pv_record (JObj kvs) = Inr (JObj kvs)"
  by (simp add: pv_record_def)

lemma pv_items_Inr: "pv_items (JArr xs) lo hi f = Inr ys \<Longrightarrow> ys = xs"
  by (auto simp: pv_items_eq_Inr)

lemma accepted_state_consistent:
  assumes "validatePersistedWorkflowChannels (channel_object s) = Inr ()"
  shows "\<exists>ver. pv_optional (optional_value verification_object (wsVerification s)) validateVerification = Inr ver \<and>
      pv_consistent (channel_object s) (wsMaxIterations s) (length (wsChanges s)) (wsIteration s) ver
        (pv_approval_rejected (map change_result_object (wsChangeResults s)))"
    and "length (wsChangeResults s) \<le> 16"
    and "\<exists>i. pv_optional (optional_value plan_object (wsPlan s)) validateExecutionPlan = Inr i"
  using assms
  by (auto simp: channel_object_validated validateStateChannels_def channel_object_get channel_object_optional
      result_simps check_eq_Inr Let_def pv_integer_def pv_items_eq_Inr split: if_splits)

text \<open>
  A run of planned changes never counts a repair iteration, but the loader takes a workflow that
  needs attention only with its iterations used up or with a rejected approval.
\<close>

lemma planned_escalation_iterations:
  assumes "reachable B C D tid w a j c" and "0 \<le> cwMaxIterations w"
    and "wsStatus (gcState c) = NeedsAttention" and "wsPlan (gcState c) = Some plan" and "\<not> isAggregatePlan plan"
  shows "wsIteration (gcState c) = 0 \<and> wsMaxIterations (gcState c) = cwMaxIterations w"
proof -
  from reachable_inv[OF assms(1,2)] have inv: "graph_inv tid w a c" .
  have nodes: "wsStatus s = NeedsAttention \<Longrightarrow> node_inv tid w a n s \<Longrightarrow> n = NEnd" for n s
    by (cases n) (auto split: if_splits)
  from inv assms(3) nodes have "gcNext c = NEnd" unfolding graph_inv_def by blast
  with inv assms(3,4,5) show ?thesis
    by (auto simp: graph_inv_def delivering_def iterating_def params_def)
qed


text \<open>
  Claim C8 (an escalated plan cannot be resumed). The final checkpoint of a delivery whose planned
  changes could not be repaired or verified is refused by the loader: with a plan of its own the
  workflow escalates with its iteration counter still 0, but the loader takes a workflow that
  needs attention only when the counter has reached its bound or an approval was rejected.
\<close>

theorem escalated_plan_not_reloadable:
  assumes "reachable B C D tid w a j c" and "0 < cwMaxIterations w"
    and "wsStatus (gcState c) = NeedsAttention" and "wsPlan (gcState c) = Some plan" and "\<not> isAggregatePlan plan"
    and "\<not> pv_approval_rejected (map change_result_object (wsChangeResults (gcState c)))"
  shows "validatePersistedWorkflowChannels (channel_object (gcState c)) \<noteq> Inr ()"
proof
  let ?s = "gcState c"
  assume "validatePersistedWorkflowChannels (channel_object ?s) = Inr ()"
  from accepted_state_consistent(1)[OF this] assms(6) obtain ver
    where "pv_consistent (channel_object ?s) (wsMaxIterations ?s) (length (wsChanges ?s)) (wsIteration ?s) ver False"
    by auto
  then have "wsIteration ?s = wsMaxIterations ?s"
    using assms(3) by (simp add: pv_consistent_def channel_object_get workflow_status_text_def Let_def)
  with planned_escalation_iterations[OF assms(1) _ assms(3-5)] assms(2) show False by simp
qed

lemma unapproved_interrupt_not_reloadable:
  assumes "wsStatus s = AwaitingApproval" and "\<not> wsApprovalRequired s"
  shows "validatePersistedWorkflowChannels (channel_object s) \<noteq> Inr ()"
  using accepted_state_consistent(1)[of s] assms
  by (auto simp: pv_consistent_def channel_object_get workflow_status_text_def Let_def)

lemma many_results_not_reloadable:
  assumes "16 < length (wsChangeResults s)"
  shows "validatePersistedWorkflowChannels (channel_object s) \<noteq> Inr ()"
  using accepted_state_consistent(2)[of s] assms by auto

lemma loader_instruction_bound: "validatePlanChange (change_object c) = Inr () \<Longrightarrow> length (instruction c) \<le> 8000"
  by (auto simp: validatePlanChange_def change_object_def result_simps pv_text_def[of "JStr (instruction c)"]
      split: if_splits)

lemma long_aggregate_not_reloadable:
  assumes "wsPlan s = Some (aggregateExecutionPlan tid objective fs)" and "8000 < length objective"
  shows "validatePersistedWorkflowChannels (channel_object s) \<noteq> Inr ()"
proof
  let ?p = "aggregateExecutionPlan tid objective fs"
  assume "validatePersistedWorkflowChannels (channel_object s) = Inr ()"
  from accepted_state_consistent(3)[OF this] assms(1) obtain i where "validateExecutionPlan (plan_object ?p) = Inr i"
    by (auto simp: optional_value_def pv_optional_def result_simps plan_object_def)
  then have "\<forall>c \<in> set (planChanges ?p). validatePlanChange (change_object c) = Inr ()"
    by (auto simp: validateExecutionPlan_def result_simps pv_items_eq_Inr plan_object_def split: if_splits)
  then have "\<forall>c \<in> set (planChanges ?p). length (instruction c) \<le> 8000"
    using loader_instruction_bound by blast
  with aggregate_changes[of tid objective fs] assms(2) show False by force
qed

text \<open>
  Claim C12 (two dependency checks agree). The loader decides the dependencies of a plan by
  removing changes whose dependencies are gone, the parser by a counting sort. On plans that are
  otherwise well formed they decide the same, and the loader reads the plan's own identity.
\<close>

theorem loader_plan_equivalence:
  assumes "ok_text 128 (planId p)" and "PLAN_ID (planId p)" and "1 \<le> revision p" and "revision p \<le> max_safe_integer"
    and "1 \<le> length (planChanges p)" and "length (planChanges p) \<le> MAX_PLAN_CHANGES"
    and "list_all wf_change (planChanges p)" and "distinct (map changeId (planChanges p))"
  shows "validateExecutionPlan (plan_object p) =
    (if validateDependencies p = Inr ()
     then Inr \<lparr>piPlanId = planId p, piRevision = revision p, piChangeIds = map changeId (planChanges p)\<rparr>
     else Inl invalid_state)"
  by (rule loader_plan_check[OF assms])


theorem loader_plan_equivalence_witness:
  "validateExecutionPlan (plan_object sample_plan) =
     Inr \<lparr>piPlanId = ''p'', piRevision = 1, piChangeIds = [''b'', ''a'']\<rparr>"
proof -
  have "ok_text 128 (planId sample_plan) \<and> PLAN_ID (planId sample_plan) \<and> 1 \<le> revision sample_plan \<and>
      revision sample_plan \<le> max_safe_integer \<and> 1 \<le> length (planChanges sample_plan) \<and>
      length (planChanges sample_plan) \<le> MAX_PLAN_CHANGES \<and> list_all wf_change (planChanges sample_plan) \<and>
      distinct (map changeId (planChanges sample_plan))"
    by code_simp
  then show ?thesis
    using loader_plan_equivalence[of sample_plan] sample_plan_valid
    by (simp add: sample_plan_def sample_change_def)
qed

text \<open>A plan of one change whose script never passes.\<close>

definition failing_builtins :: builtins where
  "failing_builtins = planned_builtins\<lparr>json_parse := (\<lambda>t.
     if t = ''p'' then Some (JObj
       [(''workItems'', JArr [JObj [(''id'', JStr ''api''), (''title'', JStr ''API''), (''instruction'', JStr ''look'')]]),
        (''acceptanceCriteria'', JArr [JStr ''works'']),
        (''executionPlan'', plan_object (wide_plan\<lparr>planChanges := [sample_change ''a'' []]\<rparr>))])
     else json_parse planned_builtins t)\<rparr>"

definition failing_input :: "string \<Rightarrow> unit stepInput" where
  "failing_input t = (answer_input t)\<lparr>siRunner := \<lambda>k. Some (sample_runner\<lparr>erRun :=
     \<lambda>n s. sbind (erRun sample_runner n s) (\<lambda>e. Inr (e\<lparr>hePassed := False\<rparr>))\<rparr>)\<rparr>"

definition failing_answers :: "string list" where
  "failing_answers = ['''', ''p'', '''', ''f'', '''', ''''] @ concat (replicate 3 ['''', ''m'']) @ ['''', '''']"

definition failing_run :: "memoryJournal graphConfig" where
  "failing_run = fold (\<lambda>t. graph_next failing_builtins (memory_claimMutation failing_builtins)
     (memory_completeMutation failing_builtins) ''t'' (failing_input t)) failing_answers
     (initial_config sample_workflow False Map.empty)"

lemma failing_run_reachable:
  "reachable failing_builtins (memory_claimMutation failing_builtins) (memory_completeMutation failing_builtins) ''t''
     sample_workflow False Map.empty failing_run"
proof -
  have "failing_run = fold (graph_next failing_builtins (memory_claimMutation failing_builtins)
      (memory_completeMutation failing_builtins) ''t'') (map failing_input failing_answers)
      (initial_config sample_workflow False Map.empty)"
    by (simp add: failing_run_def fold_map comp_def)
  then show ?thesis using reachable_fold by metis
qed

theorem escalated_plan_not_reloadable_witness:
  "validatePersistedWorkflowChannels (channel_object (gcState failing_run)) \<noteq> Inr ()"
proof -
  let ?s = "gcState failing_run"
  have "case ?s of s \<Rightarrow> wsStatus s = NeedsAttention \<and> (case wsPlan s of None \<Rightarrow> False | Some plan \<Rightarrow> \<not> isAggregatePlan plan) \<and>
      \<not> pv_approval_rejected (map change_result_object (wsChangeResults s))"
    by code_simp
  then have c: "wsStatus ?s = NeedsAttention" "case wsPlan ?s of None \<Rightarrow> False | Some plan \<Rightarrow> \<not> isAggregatePlan plan"
      "\<not> pv_approval_rejected (map change_result_object (wsChangeResults ?s))" by simp_all
  from c(2) obtain plan where p: "wsPlan ?s = Some plan" "\<not> isAggregatePlan plan" by (auto split: option.splits)
  have w: "0 < cwMaxIterations sample_workflow" by (simp add: sample_workflow_def)
  from escalated_plan_not_reloadable[OF failing_run_reachable w c(1) p c(3)] show ?thesis .
qed

end
