(* ===== verification/ReviewReload.thy ===== *)
theory ReviewReload
  imports PersistedState
begin

text \<open>
  Every state of a review is one the loader takes back: the invariant of a review run in terms of
  the validators of the checkpoint file, kept by each superstep, and the validators of the state
  derived from it. Reviews show that the bounds of the parsers, of the graph and of the loader
  fit together wherever no planned change is involved.
\<close>

section \<open>Fields\<close>

definition item_ok :: "workItem \<Rightarrow> bool" where
  "item_ok w \<longleftrightarrow> validateWorkItem (work_item_object w) = Inr ()"

definition finding_ok :: "finding \<Rightarrow> bool" where
  "finding_ok f \<longleftrightarrow> validateFinding (finding_object f) = Inr ()"

definition review_trace_ok :: "traceEvent \<Rightarrow> bool" where
  "review_trace_ok e \<longleftrightarrow> validateTrace (trace_object e) = Inr ()"

definition review_fields :: "workflowState \<Rightarrow> bool" where
  "review_fields s \<longleftrightarrow> (\<forall>w \<in> set (wsWorkItems s). item_ok w) \<and> (\<forall>f \<in> set (wsFindings s). finding_ok f) \<and>
     (\<forall>e \<in> set (wsTrace s). review_trace_ok e) \<and> wsUnresolvedRisks s = [] \<and> wsEvidenceRefs s = [] \<and>
     wsDiagnostic s = None \<and> wsCurrentWorkItem s = None \<and> wsInterrupt s = None"

definition criteria_ok :: "workflowState \<Rightarrow> bool" where
  "criteria_ok s \<longleftrightarrow> 1 \<le> length (wsAcceptanceCriteria s) \<and> length (wsAcceptanceCriteria s) \<le> 32 \<and>
     (\<forall>t \<in> set (wsAcceptanceCriteria s). ok_text 4000 t)"

definition trace_room :: "nat \<Rightarrow> workflowState \<Rightarrow> bool" where
  "trace_room n s \<longleftrightarrow> length (wsTrace s) \<le> n + length (wsFindings s) + nat (wsDiscoveryRound s)"

fun review_inv :: "graphNode \<Rightarrow> workflowState \<Rightarrow> bool" where
  "review_inv NClassify s \<longleftrightarrow> review_fields s \<and> wsPhase s = Classified \<and> wsAcceptanceCriteria s = [] \<and>
     wsSummary s = [] \<and> trace_room 0 s"
| "review_inv NDiscover s \<longleftrightarrow> review_fields s \<and> wsPhase s = Classified \<and> wsAcceptanceCriteria s = [] \<and>
     wsSummary s = [] \<and> trace_room 1 s"
| "review_inv NEnd s \<longleftrightarrow> review_fields s \<and> criteria_ok s \<and> trim (wsSummary s) \<noteq> [] \<and> length (wsSummary s) \<le> 32000 \<and>
     trace_room 3 s"
| "review_inv n s \<longleftrightarrow> review_fields s \<and> criteria_ok s \<and> wsSummary s = [] \<and> trace_room 2 s \<and>
     wsPhase s \<in> {Discovered, Analyzed} \<and>
     (case n of NSpecialists sts \<Rightarrow> \<forall>st \<in> set sts. spIteration st = 0 | _ \<Rightarrow> True)"

lemma item_id_ok: "item_ok w \<Longrightarrow> ok_text 48 (wiId w) \<and> ID (wiId w) \<or> trim (wiId w) \<noteq> [] \<and> length (wiId w) \<le> 48 \<and> ID (wiId w)"
  by (auto simp: item_ok_def validateWorkItem_def work_item_object_def result_simps pv_lexical_def pv_text_def
      pv_formats split: if_splits)

lemma item_id: "item_ok w \<Longrightarrow> trim (wiId w) \<noteq> [] \<and> wiId w \<noteq> [] \<and> length (wiId w) \<le> 48"
  by (auto simp: item_ok_def validateWorkItem_def work_item_object_def result_simps pv_lexical_def pv_text_def
      split: if_splits)

lemma finding_items: "finding_ok f \<Longrightarrow> w \<in> set (discoveredWorkItems f) \<Longrightarrow> item_ok w"
  by (auto simp: finding_ok_def validateFinding_def finding_object_def result_simps ignore_eq_Inr pv_items_eq_Inr item_ok_def)

lemma plain_trace_ok:
  "review_trace_ok (trace_event n 0)"
  "trim i \<noteq> [] \<Longrightarrow> length i \<le> 48 \<Longrightarrow> review_trace_ok ((trace_event n 0)\<lparr>teWorkItemId := Some i\<rparr>)"
  by (cases n; simp add: review_trace_ok_def validateTrace_def trace_object_def trace_event_def optional_json_def
      pv_literal_def TRACE_NODES_def trace_node_text_def pv_integer_def pv_text_def)+

section \<open>Steps\<close>

lemma parsed_items: "parseWorkItems vs seen = Inr ws \<Longrightarrow> w \<in> set ws \<Longrightarrow> item_ok w"
  by (induction vs arbitrary: seen ws) (auto simp: result_simps item_ok_def dest: validateWorkItem_object)

lemma discovery_fields:
  assumes "executeDiscovery B x y prev = Inr (d, p)"
  shows "(\<forall>w \<in> set (drWorkItems d). item_ok w) \<and> 1 \<le> length (drAcceptanceCriteria d) \<and>
    length (drAcceptanceCriteria d) \<le> 32 \<and> (\<forall>t \<in> set (drAcceptanceCriteria d). ok_text 4000 t)"
proof -
  have one: ?thesis if "parse_envelope B t prev = Inr (d, p)" for t
  proof -
    from that obtain u where "parseDiscovery B u = Inr d" by (auto simp: parse_envelope_def result_simps)
    then obtain ob raw where r: "parseWorkItems raw {} = Inr (drWorkItems d)"
      "stringArray (jget ob ''acceptanceCriteria'') 1 MAX_LIST = Inr (drAcceptanceCriteria d)"
      by (auto simp: parseDiscovery_def result_simps)
    from stringArray_bounds[OF r(2)] parsed_items[OF r(1)] show ?thesis
      by (auto simp: MAX_LIST_def ok_text_def)
  qed
  from assms show ?thesis by (cases rule: executeDiscovery_cases) (rule one, assumption)+
qed

lemma review_discover:
  assumes "review_inv NDiscover s" and "wsIteration s = 0" and "discoverNode B x y s = Inr ws"
  shows "review_inv NDispatch (apply_writes ws s)"
proof -
  from assms(3) obtain d p where e: "executeDiscovery B x y (wsPlan s) = Inr (d, p)"
    and ws: "ws = [WWorkItems (drWorkItems d), WAcceptanceCriteria (drAcceptanceCriteria d)] @
          (case p of None \<Rightarrow> [] | Some p \<Rightarrow> [WPlan (Some p)]) @
          [WPhase Discovered, WTrace [trace_event TrDiscover (wsIteration s)]]"
    by (auto simp: discoverNode_def sbind_eq_Inr)
  from discovery_fields[OF e] assms(1,2) show ?thesis
    by (cases p) (auto simp: ws review_fields_def criteria_ok_def trace_room_def plain_trace_ok)
qed

lemma specialist_fields:
  assumes "specialistNode B x st = Inr st'" and "spCurrentWorkItem st = Some w" and "item_ok w"
    and "spFindings st = []" and "spTrace st = []" and "spIteration st = 0"
  shows "\<exists>f e. specialist_output st' = [WFindings [f], WTrace [e]] \<and> finding_ok f \<and> review_trace_ok e"
proof -
  from assms obtain t f where f: "parseFinding B t (wiId w) = Inr f"
    and st': "st' = st\<lparr>spFindings := [f], spTrace := [(trace_event TrSpecialist 0)\<lparr>teWorkItemId := Some (wiId w)\<rparr>]\<rparr>"
    by (auto simp: specialistNode_def sbind_eq_Inr)
  from item_id[OF assms(3)] validateFinding_object[OF f] show ?thesis
    by (simp add: st' specialist_output_def finding_ok_def plain_trace_ok)
qed

lemma specialist_writes:
  assumes "\<forall>out \<in> set outs. \<exists>f e. out = [WFindings [f], WTrace [e]] \<and> finding_ok f \<and> review_trace_ok e"
    and "review_fields s" and "criteria_ok s" and "wsSummary s = []" and "trace_room 2 s" and "wsPhase s \<in> {Discovered, Analyzed}"
  shows "review_inv NCollect (apply_writes (concat outs) s)"
  using assms
proof (induction outs arbitrary: s)
  case Nil
  then show ?case by simp
next
  case (Cons out outs)
  from Cons.prems(1) obtain f e where o: "out = [WFindings [f], WTrace [e]]" "finding_ok f" "review_trace_ok e" by auto
  have "review_inv NCollect (apply_writes (concat outs) (apply_writes out s))"
    using Cons.prems o by (intro Cons.IH) (auto simp: review_fields_def criteria_ok_def trace_room_def)
  then show ?case by simp
qed

lemma review_specialists:
  assumes "review_inv (NSpecialists sts) s" and "node_inv tid w a (NSpecialists sts) s" and "run_specialists B i sts = Inr ws"
  shows "review_inv NCollect (apply_writes ws s)"
proof -
  from assms(3) obtain outs where t: "traverse (\<lambda>(n, st). with_retry (\<lambda>k. specialistNode B (siAnswers i n k) st)) (enumerate 0 sts) = Inr outs"
    and ws: "ws = concat (map specialist_output outs)"
    by (auto simp: run_specialists_def sbind_eq_Inr)
  have "\<exists>f e. out = [WFindings [f], WTrace [e]] \<and> finding_ok f \<and> review_trace_ok e"
    if "out \<in> set (map specialist_output outs)" for out
  proof -
    from that obtain st' where o: "st' \<in> set outs" "out = specialist_output st'" by auto
    from traverse_set[OF t o(1)] obtain n st k where st: "st \<in> set sts" "specialistNode B (siAnswers i n k) st = Inr st'"
      by (auto simp: in_set_enumerate_eq dest!: with_retry_Inr) (meson nth_mem)
    have "map spCurrentWorkItem sts = map Some (pending_items s)" using assms(2) by simp
    moreover have "spCurrentWorkItem st \<in> set (map spCurrentWorkItem sts)" using st(1) by simp
    ultimately have "spCurrentWorkItem st \<in> set (map Some (pending_items s))" by simp
    then obtain w where w: "spCurrentWorkItem st = Some w" "w \<in> set (wsWorkItems s)" by (auto simp: pending_items_def)
    have "item_ok w" using assms(1) w(2) by (simp add: review_fields_def)
    moreover have "spFindings st = []" "spTrace st = []" "spIteration st = 0"
      using assms(1,2) st(1) by (auto simp: list_all_iff)
    ultimately show ?thesis using specialist_fields[OF st(2) w(1)] o(2) by simp
  qed
  with assms(1) show ?thesis unfolding ws by (intro specialist_writes) auto
qed

lemma review_collect:
  assumes "review_inv NCollect s" and "node_inv tid w a NCollect s" and "collectNode B s = Inr ws"
  shows "review_inv NDispatch (apply_writes ws s)"
proof -
  let ?s = "apply_writes ws s"
  from assms(3) obtain new where n: "wsWorkItems ?s = wsWorkItems s @ take (MAX_WORK_ITEMS - length (wsWorkItems s)) new"
    "set new \<subseteq> (\<Union>f \<in> set (wsFindings s). set (discoveredWorkItems f))"
    by (rule collectNode_Inr)
  have items: "item_ok w" if "w \<in> set (wsWorkItems ?s)" for w
    using that n assms(1) finding_items by (fastforce simp: review_fields_def dest: in_set_takeD)
  have it: "wsIteration s = 0" "0 \<le> wsDiscoveryRound s" using assms(2) by (auto simp: untouched_def analysed_def)
  have "wsPhase ?s = Analyzed \<and> wsFindings ?s = wsFindings s \<and> wsAcceptanceCriteria ?s = wsAcceptanceCriteria s \<and>
      wsSummary ?s = wsSummary s \<and> (\<forall>e \<in> set (wsTrace ?s). review_trace_ok e) \<and> trace_room 2 ?s \<and>
      wsUnresolvedRisks ?s = [] \<and> wsEvidenceRefs ?s = [] \<and>
      wsDiagnostic ?s = None \<and> wsCurrentWorkItem ?s = None \<and> wsInterrupt ?s = None"
    using assms(1,3) it by (auto simp: collectNode_def sbind_eq_Inr Let_def review_fields_def trace_room_def plain_trace_ok
        nat_add_distrib split: if_splits)
  with items assms(1) show ?thesis by (auto simp: review_fields_def criteria_ok_def)
qed

lemma review_synthesize:
  assumes "review_inv NSynthesize s" and "wsIteration s = 0" and "synthesizeNode B x s = Inr ws"
  shows "review_inv NEnd (apply_writes ws s)"
proof -
  from assms(3) obtain t where t: "parseSynthesis B t = Inr (wsSummary (apply_writes ws s))"
    and ws: "ws = [WSummary (wsSummary (apply_writes ws s)), WPhase Synthesized, WStatus Completed, WTrace [trace_event TrSynthesize (wsIteration s)]]"
    by (auto simp: synthesizeNode_def sbind_eq_Inr)
  let ?t = "wsSummary (apply_writes ws s)"
  from t have "trim ?t = ?t" "?t \<noteq> []" "length ?t \<le> 32000"
    by (auto simp: parseSynthesis_def result_simps MAX_SYNTHESIS_TEXT_def worker_texts.read_trimmed
        dest: worker_texts.read_bounds)
  moreover have "review_fields (apply_writes ws s) \<and> criteria_ok (apply_writes ws s) \<and> trace_room 3 (apply_writes ws s)"
    using assms(1,2) by (subst (1 2 3) ws) (auto simp: review_fields_def criteria_ok_def trace_room_def plain_trace_ok)
  ultimately show ?thesis by simp
qed

lemma review_plain_step:
  assumes "review_inv n s" and inv: "node_inv tid w a n s" and "params w a s" and "cwPattern w = Review"
    and "plain_step B tid i n s = Inr (s', n')"
  shows "review_inv n' s'"
proof -
  from review_nodes[OF inv assms(4)] have it: "wsIteration s = 0" by (simp add: untouched_def)
  show ?thesis
  proof (cases n)
    case NClassify
    with assms(1,5) it show ?thesis
      by (auto simp: plain_step_def classifyNode_def review_fields_def trace_room_def plain_trace_ok)
  next
    case NDiscover
    with assms(1,5) it show ?thesis
      by (auto simp: plain_step_def sbind_eq_Inr simp del: review_inv.simps dest!: with_retry_Inr intro: review_discover)
  next
    case NDispatch
    have "wsPattern s = Review" using assms(3,4) by (simp add: params_def)
    with NDispatch assms(1,5) it show ?thesis
      by (auto simp: plain_step_def dispatchNode_def after_dispatch_def routeDispatch_def Let_def)
  next
    case (NSpecialists sts)
    with assms(1,5) inv show ?thesis
      by (auto simp: plain_step_def sbind_eq_Inr simp del: review_inv.simps node_inv.simps intro: review_specialists)
  next
    case NCollect
    with assms(1,5) inv show ?thesis
      by (auto simp: plain_step_def sbind_eq_Inr simp del: review_inv.simps node_inv.simps intro: review_collect)
  next
    case NSynthesize
    with assms(1,5) it show ?thesis
      by (auto simp: plain_step_def sbind_eq_Inr simp del: review_inv.simps dest!: with_retry_Inr intro: review_synthesize)
  qed (use assms inv in \<open>auto simp: plain_step_def delivering_def\<close>)
qed

lemma review_not_mutating: "node_inv tid w a n s \<Longrightarrow> cwPattern w = Review \<Longrightarrow> \<not> mutating n"
  by (cases n) (auto simp: mutating_def delivering_def)

lemma reachable_review:
  assumes "reachable B C D tid w a j c" and "0 \<le> cwMaxIterations w" and "cwPattern w = Review"
  shows "review_inv (gcNext c) (gcState c)"
  using assms(1)
proof (induction rule: reachable.induct)
  case start
  show ?case
    by (simp add: initial_config_def initial_state_def review_fields_def trace_room_def)
next
  case (superstep c i)
  from reachable_inv[OF superstep.hyps assms(2)] have inv: "node_inv tid w a (gcNext c) (gcState c)" "params w a (gcState c)"
    by (simp_all add: graph_inv_def)
  show ?case
  proof (cases "gcNext c = NEnd")
    case True
    with superstep.IH show ?thesis by (simp add: graph_next_def)
  next
    case False
    with review_not_mutating[OF inv(1) assms(3)]
    have "graph_next B C D tid i c = advance (plain_step B tid i (gcNext c) (gcState c)) c"
      by (simp add: graph_next_def)
    with superstep.IH show ?thesis
      by (cases "plain_step B tid i (gcNext c) (gcState c)")
        (auto simp: advance_def dest: review_plain_step[OF superstep.IH inv assms(3)])
  qed
qed

section \<open>The loader accepts the state\<close>

lemma wf_plan_loads: "wf_plan p \<Longrightarrow> \<exists>i. validateExecutionPlan (plan_object p) = Inr i"
  using loader_plan_check[of p] validateDependencies_iff[of p] by (auto simp: wf_plan_def)

lemma work_item_ids_object:
  "(\<forall>w \<in> set ws. item_ok w) \<Longrightarrow> distinct (map wiId ws) \<Longrightarrow> wiId ` set ws \<inter> set seen = {} \<Longrightarrow>
   pv_work_item_ids (map work_item_object ws) seen = Inr (seen @ map wiId ws)"
proof (induction ws arbitrary: seen)
  case (Cons w ws)
  from Cons.prems have "pv_work_item_ids (map work_item_object ws) (seen @ [wiId w]) = Inr (seen @ wiId w # map wiId ws)"
    using Cons.IH[of "seen @ [wiId w]"] by auto
  with Cons.prems item_id[of w] show ?case by (auto simp: work_item_object_def[of w] pv_text_def)
qed simp

lemma finding_id: "finding_ok f \<Longrightarrow> pv_text (jget (finding_object f) ''workItemId'') 48 False = Inr (fiWorkItemId f)"
  by (auto simp: finding_ok_def validateFinding_def finding_object_def result_simps pv_text_def split: if_splits)

lemma finding_ids_object:
  "(\<forall>f \<in> set fs. finding_ok f) \<Longrightarrow> distinct (map fiWorkItemId fs) \<Longrightarrow> fiWorkItemId ` set fs \<subseteq> set ids \<Longrightarrow>
   fiWorkItemId ` set fs \<inter> set seen = {} \<Longrightarrow> pv_finding_ids ids (map finding_object fs) seen = Inr ()"
proof (induction fs arbitrary: seen)
  case (Cons f fs)
  then show ?case by (auto simp: finding_id)
qed simp

lemma finding_count:
  assumes "distinct (map fiWorkItemId fs)" and "fiWorkItemId ` set fs \<subseteq> wiId ` set ws"
  shows "length fs \<le> length ws"
proof -
  have "card (fiWorkItemId ` set fs) = length fs" using distinct_card[OF assms(1)] by simp
  moreover have "card (fiWorkItemId ` set fs) \<le> card (wiId ` set ws)" using assms(2) by (intro card_mono) auto
  ultimately show ?thesis using card_length[of "map wiId ws"] by simp
qed

text \<open>The lists and bounds a review state has between any two supersteps.\<close>

lemma review_analysed:
  assumes "node_inv tid w a n s" and "cwPattern w = Review" and "review_inv n s"
  shows "(case wsPlan s of None \<Rightarrow> True | Some p \<Rightarrow> wf_plan p) \<and> 0 \<le> wsDiscoveryRound s \<and> wsDiscoveryRound s \<le> 2 \<and>
    distinct (map wiId (wsWorkItems s)) \<and> distinct (map fiWorkItemId (wsFindings s)) \<and>
    fiWorkItemId ` set (wsFindings s) \<subseteq> wiId ` set (wsWorkItems s) \<and> length (wsWorkItems s) \<le> 16 \<and> trace_room 3 s \<and>
    (if wsPhase s = Classified then wsAcceptanceCriteria s = [] else criteria_ok s \<and> 1 \<le> length (wsWorkItems s)) \<and>
    (wsStatus s = Running \<and> wsPhase s \<in> {Classified, Discovered, Analyzed} \<and> wsSummary s = [] \<or>
     wsStatus s = Completed \<and> wsPhase s = Synthesized \<and> trim (wsSummary s) \<noteq> [] \<and> length (wsSummary s) \<le> 32000)"
  using assms
  by (cases n) (auto simp: analysed_def untouched_def synthesizable_def delivering_def trace_room_def MAX_WORK_ITEMS_def)

lemma pv_optional_absent [simp]: "pv_optional (optional_value f None) g = Inr None"
  by (simp add: pv_optional_def optional_value_def)

lemma pv_same_plan_None: "pv_same_plan p None"
  by (cases p) (simp_all add: pv_same_plan_def)

lemma review_state_accepted:
  assumes "node_inv tid w a n s" and "cwPattern w = Review" and "review_inv n s" and "params w a s"
    and w: "trim (cwObjective w) \<noteq> []" "length (cwObjective w) \<le> 12000" "cwMaxIterations w = 0"
  shows "validatePersistedWorkflowChannels (channel_object s) = Inr ()"
proof -
  let ?min = "if jget (channel_object s) ''phase'' = JStr ''classified'' then 0 else 1"
  from review_nodes[OF assms(1,2)] have un: "untouched s" .
  from review_analysed[OF assms(1-3)] have ra: "case wsPlan s of None \<Rightarrow> True | Some p \<Rightarrow> wf_plan p"
    "0 \<le> wsDiscoveryRound s" "wsDiscoveryRound s \<le> 2"
    "distinct (map wiId (wsWorkItems s))" "distinct (map fiWorkItemId (wsFindings s))"
    "fiWorkItemId ` set (wsFindings s) \<subseteq> wiId ` set (wsWorkItems s)" "length (wsWorkItems s) \<le> 16" "trace_room 3 s"
    "if wsPhase s = Classified then wsAcceptanceCriteria s = [] else criteria_ok s \<and> 1 \<le> length (wsWorkItems s)"
    and ph: "wsStatus s = Running \<and> wsPhase s \<in> {Classified, Discovered, Analyzed} \<and> wsSummary s = [] \<or>
     wsStatus s = Completed \<and> wsPhase s = Synthesized \<and> trim (wsSummary s) \<noteq> [] \<and> length (wsSummary s) \<le> 32000"
    by blast+
  from assms(3) have rf: "review_fields s" by (cases n) auto
  from finding_count[OF ra(5,6)] ra(7) have fc: "length (wsFindings s) \<le> 16" by simp
  have pc: "(wsPhase s = Classified) = (phase_text (wsPhase s) = ''classified'')"
    by (cases "wsPhase s") (simp_all add: phase_text_def)
  have items: "pv_items (JArr (map work_item_object (wsWorkItems s))) ?min 16 validateWorkItem = Inr (map work_item_object (wsWorkItems s))"
    using rf ra(7,9) pc by (intro pv_items_ok) (auto simp: review_fields_def item_ok_def channel_object_get split: if_splits)
  have crit: "pv_strings (texts_json (wsAcceptanceCriteria s)) 32 4000 ?min = Inr ()"
    using ra(9) pc unfolding texts_json_def
    by (intro pv_strings_ok[of _ _ _ 4000]) (auto simp: criteria_ok_def channel_object_get split: if_splits)
  have finds: "pv_items (JArr (map finding_object (wsFindings s))) 0 16 validateFinding = Inr (map finding_object (wsFindings s))"
    using rf fc by (intro pv_items_ok) (auto simp: review_fields_def finding_ok_def)
  have ids: "pv_work_item_ids (map work_item_object (wsWorkItems s)) [] = Inr (map wiId (wsWorkItems s))"
    using work_item_ids_object[of "wsWorkItems s" "[]"] rf ra(4) by (simp add: review_fields_def)
  have fids: "pv_finding_ids (map wiId (wsWorkItems s)) (map finding_object (wsFindings s)) [] = Inr ()"
    using rf ra(5,6) by (intro finding_ids_object) (auto simp: review_fields_def)
  have tr: "pv_items (JArr (map trace_object (wsTrace s))) 0 128 validateTrace = Inr (map trace_object (wsTrace s))"
    using rf ra(3,8) fc by (intro pv_items_ok) (auto simp: review_fields_def review_trace_ok_def trace_room_def)
  obtain i where plan: "pv_optional (optional_value plan_object (wsPlan s)) validateExecutionPlan = Inr i"
    using ra(1) wf_plan_loads by (cases "wsPlan s") (fastforce simp: pv_optional_def optional_value_def plan_object_def)+
  have vals: "pv_text (JStr (wsObjective s)) 12000 False = Inr (wsObjective s)" "wsPattern s = Review" "wsMaxIterations s = 0"
    "wsChanges s = []" "wsChangeResults s = []" "wsVerification s = None" "wsIteration s = 0"
    using assms(2,4) w un by (simp_all add: params_def untouched_def pv_text_def)
  have sm: "pv_text (JStr (wsSummary s)) 32000 True = Inr (wsSummary s)"
    using ph by (auto simp: pv_text_def)
  have cons: "pv_consistent (channel_object s) 0 0 0 None False"
    using ph vals by (auto simp: pv_consistent_def channel_object_get channel_object_optional optional_value_def
        workflow_status_text_def phase_text_def pattern_text_def pv_text_def)
  have phase: "pv_literal (JStr (phase_text p)) PHASES = Inr ()" for p
    by (cases p) (simp_all add: pv_literal_def PHASES_def phase_text_def)
  have status: "pv_literal (JStr (workflow_status_text (wsStatus s))) STATUSES = Inr ()"
    by (cases "wsStatus s") (simp_all add: pv_literal_def STATUSES_def workflow_status_text_def)
  have empties: "pv_items (JArr []) 0 n f = Inr []" "pv_strings (texts_json []) n m 0 = Inr ()" for n m f
    by (simp_all add: pv_items_def pv_strings_def texts_json_def)
  have pattern: "pv_literal (JStr (pattern_text Review)) [''delivery'', ''review''] = Inr ()"
    by (simp add: pv_literal_def pattern_text_def)
  from rf ra(2,3) show ?thesis
    unfolding channel_object_validated validateStateChannels_def channel_object_get channel_object_optional
    using items crit
    by (cases "wsPhase s = Classified")
      (simp_all add: channel_object_own channel_object_get pc[symmetric] vals finds ids fids tr plan sm cons phase status
        empties review_fields_def pattern pv_integer_def pv_boolean_def pv_change_kinds_def pv_same_plan_None
        pv_approval_rejected_def split: option.split)
qed

lemma compiled_bounds:
  assumes "compileWorkflow v = Inr w"
  shows "cwObjective w \<noteq> [] \<and> trim (cwObjective w) = cwObjective w \<and> length (cwObjective w) \<le> MAX_OBJECTIVE_LENGTH \<and>
    (cwPattern w = Review \<longrightarrow> cwMaxIterations w = 0)"
proof -
  from assms obtain i where i: "parseWorkflowInput v = Inr i" "cwObjective w = inObjective i"
    "cwPattern w = Review \<longrightarrow> cwMaxIterations w = 0"
    by (auto simp: compileWorkflow_def result_simps Let_def)
  from i(1) have "trim (inObjective i) = inObjective i"
    by (auto simp: parseWorkflowInput_def result_simps dest: workflow_texts.read_trimmed split: if_splits option.splits)
  with i parseWorkflowInput_ok[OF i(1)] show ?thesis by simp
qed

text \<open>
  Claim C9 (reviews survive a restart). Every state of every run of a compiled review workflow,
  whatever its workers answer, is accepted by the loader of the checkpoint files: the bounds of
  the input, the parsers and the graph imply those of the validators.
\<close>

theorem review_reloads:
  assumes "reachable B C D tid w a j c" and "compileWorkflow v = Inr w" and "cwPattern w = Review"
  shows "validatePersistedWorkflowChannels (channel_object (gcState c)) = Inr ()"
proof -
  from compiled_bounds[OF assms(2)] assms(3)
  have w: "cwObjective w \<noteq> []" "trim (cwObjective w) = cwObjective w" "length (cwObjective w) \<le> 12000" "cwMaxIterations w = 0"
    by (auto simp: MAX_OBJECTIVE_LENGTH_def)
  have inv: "node_inv tid w a (gcNext c) (gcState c)" "params w a (gcState c)"
    using reachable_inv[OF assms(1)] w(4) by (simp_all add: graph_inv_def)
  from review_state_accepted[OF inv(1) assms(3) reachable_review[OF assms(1) _ assms(3)] inv(2)] w
  show ?thesis by simp
qed

definition review_request :: js where
  "review_request = JObj [(''objective'', JStr ''Review the API''), (''workflow'', JStr ''review'')]"

theorem review_reloads_witness:
  "\<exists>w. compileWorkflow review_request = Inr w \<and>
     validatePersistedWorkflowChannels (channel_object (gcState (fold (graph_next graph_builtins
       (memory_claimMutation graph_builtins) (memory_completeMutation graph_builtins) ''t'')
       (map answer_input ['''', ''d'', '''', ''f'', '''', '''', ''s'']) (initial_config w False Map.empty)))) = Inr ()"
proof -
  have "case compileWorkflow review_request of Inl e \<Rightarrow> False | Inr w \<Rightarrow> cwPattern w = Review" by code_simp
  then obtain w where w: "compileWorkflow review_request = Inr w" "cwPattern w = Review" by (auto split: sum.splits)
  show ?thesis
    by (rule exI[of _ w], rule conjI[OF w(1)], rule review_reloads[OF reachable_fold w])
qed

end
