(* ===== verification/Projection.thy ===== *)
theory Projection
  imports PersistedState "HOL-Library.Multiset"
begin

text \<open>
  The results a caller sees, \<open>src/src/workflow/result-projection.ts\<close>: the projection of a
  finished state, of a state that waits for an approval, and of one checkpoint of the history.
  The last two read unvalidated channel values, so they take dynamic values.
\<close>

section \<open>Readers of channel values\<close>

definition phaseValue :: "js \<Rightarrow> string option" where
  "phaseValue v = (case v of JStr s \<Rightarrow> if s \<in> set PHASES then Some s else None | _ \<Rightarrow> None)"

definition is_string :: "js \<Rightarrow> bool" where
  "is_string v = (case v of JStr s \<Rightarrow> True | _ \<Rightarrow> False)"

definition is_number :: "js \<Rightarrow> bool" where
  "is_number v = (case v of JNum n \<Rightarrow> True | _ \<Rightarrow> False)"

definition isWorkItem :: "js \<Rightarrow> bool" where
  "isWorkItem v = (is_record v \<and> is_string (jget v ''id'') \<and> is_string (jget v ''title'') \<and> is_string (jget v ''instruction''))"

definition isFinding :: "js \<Rightarrow> bool" where
  "isFinding v = (is_record v \<and> is_string (jget v ''workItemId'') \<and> is_string (jget v ''summary'') \<and>
     is_array (jget v ''evidence'') \<and> is_array (jget v ''risks''))"

definition isTraceEvent :: "js \<Rightarrow> bool" where
  "isTraceEvent v = (is_record v \<and> is_string (jget v ''node'') \<and> is_number (jget v ''iteration''))"

definition workItemsValue :: "js \<Rightarrow> js list result" where
  "workItemsValue v = (case v of JArr xs \<Rightarrow> Inr (filter isWorkItem xs)
     | _ \<Rightarrow> Inl (PlainError ''checkpoint workItems are invalid''))"

definition findingsValue :: "js \<Rightarrow> js list result" where
  "findingsValue v = (case v of JArr xs \<Rightarrow> Inr (filter isFinding xs)
     | _ \<Rightarrow> Inl (PlainError ''checkpoint findings are invalid''))"

definition traceValue :: "js \<Rightarrow> js list" where
  "traceValue v = (case v of JArr xs \<Rightarrow> filter isTraceEvent xs | _ \<Rightarrow> [])"

definition interruptValue :: "js \<Rightarrow> scopedInterrupt result" where
  "interruptValue v = parseScopedInterrupt v"

definition unique :: "string list \<Rightarrow> string list" where
  "unique xs = dedup xs"

section \<open>Results\<close>

record codingWorkflowResult =
  rsThreadId :: string
  rsObjective :: string
  rsPattern :: workflowPattern
  rsStatus :: workflowStatus
  rsPhase :: workflowPhase
  rsWorkItems :: "workItem list"
  rsFindings :: "finding list"
  rsChanges :: "changeSet list"
  rsVerification :: "verificationResult option"
  rsUnresolvedRisks :: "string list"
  rsIteration :: int
  rsSummary :: string
  rsTrace :: "traceEvent list"
  rsPlan :: "executionPlan option"
  rsChangeResults :: "changeResult list"
  rsEvidenceRefs :: "artifactRef list"

record approvalRequiredResult =
  apThreadId :: string
  apObjective :: string
  apPattern :: string
  apWorkItems :: "js list"
  apFindings :: "js list"
  apTrace :: "js list"
  apInterrupt :: scopedInterrupt

datatype codingRunResult = Finished codingWorkflowResult | ApprovalRequired approvalRequiredResult

definition projectApproval :: "string \<Rightarrow> js \<Rightarrow> approvalRequiredResult result" where
  "projectApproval threadId st =
     sbind (interruptValue (jget st ''interrupt'')) (\<lambda>pending.
     case jget st ''objective'' of
       JStr objective \<Rightarrow>
         if jget st ''pattern'' \<notin> {JStr ''delivery'', JStr ''review''} \<or> jget st ''phase'' \<noteq> JStr ''analyzed''
         then Inl (PlainError ''workflow paused outside the supported approval boundary'')
         else
         sbind (workItemsValue (jget st ''workItems'')) (\<lambda>ws.
         sbind (findingsValue (jget st ''findings'')) (\<lambda>fs.
         Inr \<lparr>apThreadId = threadId, apObjective = objective,
              apPattern = (case jget st ''pattern'' of JStr p \<Rightarrow> p | _ \<Rightarrow> []),
              apWorkItems = ws, apFindings = fs, apTrace = traceValue (jget st ''trace''), apInterrupt = pending\<rparr>))
     | _ \<Rightarrow> Inl (PlainError ''workflow paused outside the supported approval boundary''))"

definition item_position :: "workItem list \<Rightarrow> finding \<Rightarrow> int" where
  "item_position ws f =
     (case map_last (map (\<lambda>(i, w). (wiId w, int i)) (enumerate 0 ws)) (fiWorkItemId f) of
        None \<Rightarrow> max_safe_integer | Some i \<Rightarrow> i)"

definition result_changes :: "workflowState \<Rightarrow> changeSet list" where
  "result_changes s =
     (case wsPlan s of
        Some plan \<Rightarrow>
          if \<not> isAggregatePlan plan
          then concat (map (\<lambda>r. case crChange r of None \<Rightarrow> [] | Some c \<Rightarrow> [c]) (wsChangeResults s))
          else wsChanges s
      | None \<Rightarrow> wsChanges s)"

definition projectResult :: "string \<Rightarrow> workflowState \<Rightarrow> codingRunResult result" where
  "projectResult threadId s =
     (if wsStatus s = AwaitingApproval then
        sbind (projectApproval threadId (channel_object s)) (\<lambda>r. Inr (ApprovalRequired r))
      else if wsStatus s \<noteq> Completed \<and> wsStatus s \<noteq> NeedsAttention then
        Inl (PlainError ''workflow reached unsupported terminal status'')
      else if wsPattern s = Delivery \<and> wsStatus s = Completed \<and>
        \<not> (case wsVerification s of None \<Rightarrow> False | Some v \<Rightarrow> vrPassed v) then
        Inl (PlainError ''mutating workflow reached completion without passing verification'')
      else
        let findings = sort_by (\<lambda>l r. item_position (wsWorkItems s) l - item_position (wsWorkItems s) r) (wsFindings s);
            changes = result_changes s;
            risks = unique (wsUnresolvedRisks s @
              (if wsPattern s = Review then concat (map fiRisks (wsFindings s)) else []) @
              concat (map csUnresolvedRisks changes))
        in Inr (Finished
          \<lparr>rsThreadId = threadId, rsObjective = wsObjective s, rsPattern = wsPattern s, rsStatus = wsStatus s,
           rsPhase = wsPhase s, rsWorkItems = wsWorkItems s, rsFindings = findings, rsChanges = changes,
           rsVerification = wsVerification s, rsUnresolvedRisks = risks, rsIteration = wsIteration s,
           rsSummary = wsSummary s, rsTrace = wsTrace s, rsPlan = wsPlan s, rsChangeResults = wsChangeResults s,
           rsEvidenceRefs = wsEvidenceRefs s\<rparr>))"

section \<open>History\<close>

text \<open>What the projection reads of a checkpoint tuple; \<open>labels\<close> is what the replay metadata carries.\<close>

record historyTuple =
  htCheckpointId :: js
  htParentCheckpointId :: js
  htStep :: js
  htPhase :: js
  htTrace :: js
  htLabels :: "semanticLabel list option"

record workflowHistoryEntry =
  heCheckpointId :: string
  heParentCheckpointId :: "string option"
  heStep :: "jnum option"
  hePhase :: "string option"
  heSemanticLabels :: "semanticLabel list"
  heTrace :: "js list"

definition projectHistoryEntry :: "historyTuple \<Rightarrow> workflowHistoryEntry option" where
  "projectHistoryEntry t =
     (case htCheckpointId t of
        JStr i \<Rightarrow> Some
          \<lparr>heCheckpointId = i,
           heParentCheckpointId = (case htParentCheckpointId t of JStr p \<Rightarrow> Some p | _ \<Rightarrow> None),
           heStep = (case htStep t of JNum n \<Rightarrow> Some n | _ \<Rightarrow> None),
           hePhase = phaseValue (htPhase t),
           heSemanticLabels = (case htLabels t of None \<Rightarrow> [] | Some ls \<Rightarrow> ls),
           heTrace = traceValue (htTrace t)\<rparr>
      | _ \<Rightarrow> None)"

section \<open>Every finished run has a result\<close>

lemma mset_insert_by [simp]: "mset (insert_by cmp x xs) = add_mset x (mset xs)"
  by (induction xs) auto

lemma mset_sort_by [simp]: "mset (sort_by cmp xs) = mset xs"
  by (induction xs) (simp_all add: sort_by_def)

text \<open>Sorting by a comparator that agrees with a linear key gives a list in the order of the key.\<close>

lemma sorted_wrt_insert_by:
  fixes k :: "'a \<Rightarrow> 'k :: linorder"
  assumes "\<And>a b. cmp a b \<le> (0 :: int) \<longleftrightarrow> k a \<le> k b" and "sorted_wrt (\<lambda>a b. k a \<le> k b) xs"
  shows "sorted_wrt (\<lambda>a b. k a \<le> k b) (insert_by cmp x xs)"
  using assms(2) by (induction xs) (auto simp: assms(1))

lemma sorted_wrt_sort_by:
  fixes k :: "'a \<Rightarrow> 'k :: linorder"
  assumes "\<And>a b. cmp a b \<le> (0 :: int) \<longleftrightarrow> k a \<le> k b"
  shows "sorted_wrt (\<lambda>a b. k a \<le> k b) (sort_by cmp xs)"
  by (induction xs) (simp_all add: sort_by_def sorted_wrt_insert_by[OF assms])

section \<open>What the mutations of a run reported\<close>

text \<open>
  The change a mutation reported: its worker's answer, or the recorded answer of an earlier
  process, read by the parser of change sets, or the reconciliation notice of an unusable answer.
\<close>

definition operation_report :: "builtins \<Rightarrow> mutationExecution result \<Rightarrow> mutationOperation \<Rightarrow> changeSet list" where
  "operation_report B executed op =
     (case sbind executed (\<lambda>x. mutationChange B x
             (if moKind op = MImplement then Implementation else Repair) (moIteration op)) of
        Inl e \<Rightarrow> []
      | Inr ch \<Rightarrow> [ch])"

text \<open>The reports of a superstep that came to an end, and of a run, in their order.\<close>

definition step_reports ::
  "builtins \<Rightarrow> ('e, 'j) claimer \<Rightarrow> ('e, 'j) completer \<Rightarrow> string \<Rightarrow> 'e stepInput \<Rightarrow> 'j graphConfig \<Rightarrow> changeSet list" where
  "step_reports B C D tid i c =
     (case mutation_step B C D tid i (gcJournal c) (gcNext c) (gcState c) of
        (Inr _, Some op) \<Rightarrow> operation_report B (execution_of C D tid i (gcJournal c) op) op
      | _ \<Rightarrow> [])"

definition run_reports ::
  "builtins \<Rightarrow> ('e, 'j) claimer \<Rightarrow> ('e, 'j) completer \<Rightarrow> string \<Rightarrow> compiledWorkflow \<Rightarrow> bool \<Rightarrow> 'j \<Rightarrow>
   'e stepInput list \<Rightarrow> changeSet list" where
  "run_reports B C D tid w a j inputs =
     concat (map (\<lambda>n. step_reports B C D tid (inputs ! n) (graph_run B C D tid w a j (take n inputs)))
       [0..<length inputs])"

lemma run_reports_simps [simp]:
  "run_reports B C D tid w a j [] = []"
  "run_reports B C D tid w a j (xs @ [i]) =
     run_reports B C D tid w a j xs @ step_reports B C D tid i (graph_run B C D tid w a j xs)"
  by (auto simp: run_reports_def nth_append intro!: arg_cong[where f = concat] map_cong)

text \<open>The changes recorded with the results of planned changes.\<close>

definition recorded_changes :: "changeResult list \<Rightarrow> changeSet list" where
  "recorded_changes rs = concat (map (\<lambda>r. case crChange r of None \<Rightarrow> [] | Some c \<Rightarrow> [c]) rs)"

lemma recorded_changes_simps [simp]:
  "recorded_changes [] = []"
  "recorded_changes (rs @ qs) = recorded_changes rs @ recorded_changes qs"
  "recorded_changes [running_result c n] = []"
  "recorded_changes [r] = (case crChange r of None \<Rightarrow> [] | Some c \<Rightarrow> [c])"
  by (simp_all add: recorded_changes_def running_result_def)

lemma recorded_again: "r \<in> set rs \<Longrightarrow> set (recorded_changes [r\<lparr>crStatus := x\<rparr>]) \<subseteq> set (recorded_changes rs)"
  by (auto simp: recorded_changes_def split: option.splits)

definition reported :: "changeSet list \<Rightarrow> workflowState \<Rightarrow> bool" where
  "reported R s \<longleftrightarrow>
     set (wsUnresolvedRisks s) = (\<Union>c \<in> set R. set (csUnresolvedRisks c)) \<union>
       (if wsStatus s = NeedsAttention then {wsSummary s} else {}) \<and>
     (case wsPlan s of
        None \<Rightarrow> R = [] \<and> wsChanges s = [] \<and> recorded_changes (wsChangeResults s) = []
      | Some p \<Rightarrow> (if isAggregatePlan p then wsChanges s = R
          else set (recorded_changes (wsChangeResults s)) = set R))"

lemma result_changes_reported: "reported R s \<Longrightarrow> set (result_changes s) = set R"
  by (auto simp: reported_def result_changes_def recorded_changes_def split: option.splits if_splits)

definition same_log :: "workflowState \<Rightarrow> workflowState \<Rightarrow> bool" where
  "same_log s s' \<longleftrightarrow> wsPlan s' = wsPlan s \<and> wsChanges s' = wsChanges s \<and>
     wsChangeResults s' = wsChangeResults s \<and> wsUnresolvedRisks s' = wsUnresolvedRisks s"

lemma reported_same:
  "reported R s \<Longrightarrow> same_log s s' \<Longrightarrow> wsStatus s \<noteq> NeedsAttention \<Longrightarrow> wsStatus s' \<noteq> NeedsAttention \<Longrightarrow> reported R s'"
  by (auto simp: reported_def same_log_def split: option.splits)

lemma specialists_log:
  "same_log s (apply_writes (concat (map specialist_output outs)) s) \<and>
   wsStatus (apply_writes (concat (map specialist_output outs)) s) = wsStatus s"
  by (induction outs arbitrary: s) (simp_all add: same_log_def specialist_output_def)

lemma plain_step_log:
  assumes "plain_step B tid i n s = Inr (s', n')" and "n \<notin> {NDiscover, NPrepare, NEscalate}" and "wsStatus s = Running"
  shows "same_log s s' \<and> wsStatus s' \<noteq> NeedsAttention"
proof (cases n)
  case (NSpecialists sts)
  with assms specialists_log[of s] show ?thesis by (auto simp: plain_step_def run_specialists_def sbind_eq_Inr)
next
  case NCollect
  with assms show ?thesis
    by (auto simp: plain_step_def sbind_eq_Inr collectNode_def Let_def same_log_def split: if_splits)
next
  case NVerify
  with assms show ?thesis
    by (auto simp: plain_step_def sbind_eq_Inr verifyNode_def Let_def same_log_def dest!: with_retry_Inr)
next
  case NDiagnose
  with assms show ?thesis
    by (auto simp: plain_step_def sbind_eq_Inr diagnoseNode_def same_log_def dest!: with_retry_Inr)
next
  case NSynthesize
  with assms show ?thesis
    by (auto simp: plain_step_def sbind_eq_Inr synthesizeNode_def same_log_def dest!: with_retry_Inr)
qed (use assms in \<open>auto simp: plain_step_def classifyNode_def dispatchNode_def Let_def same_log_def\<close>)

lemma discover_reported:
  assumes "reported R s" and "discoverNode B x y s = Inr ws" and "wsPlan s = None" and "wsStatus s = Running"
  shows "reported R (apply_writes ws s)"
proof -
  from assms(2) obtain d p where e: "executeDiscovery B x y (wsPlan s) = Inr (d, p)"
    and ws: "ws = [WWorkItems (drWorkItems d), WAcceptanceCriteria (drAcceptanceCriteria d)] @
      (case p of None \<Rightarrow> [] | Some p \<Rightarrow> [WPlan (Some p)]) @
      [WPhase Discovered, WTrace [trace_event TrDiscover (wsIteration s)]]"
    by (auto simp: discoverNode_def sbind_eq_Inr)
  show ?thesis using assms(1,3,4) by (cases p) (auto simp: ws reported_def)
qed

lemma escalate_reported:
  assumes "reported R s" and "wsStatus s = Running"
  shows "reported R (apply_writes (escalateNode s) s)"
  using assms by (auto simp: escalateNode_def Let_def reported_def split: option.splits)

lemma reported_prepared:
  assumes "reported R s" and "wsStatus s \<noteq> NeedsAttention" and "wsStatus s' \<noteq> NeedsAttention"
    and "plan = (case wsPlan s of Some p \<Rightarrow> p | None \<Rightarrow> aggregateExecutionPlan tid (wsObjective s) (wsFindings s))"
    and "wsPlan s' = Some plan" and "wsChanges s' = wsChanges s" and "wsUnresolvedRisks s' = wsUnresolvedRisks s"
    and "wsChangeResults s' = wsChangeResults s @ rs"
    and "set (recorded_changes rs) \<subseteq> set (recorded_changes (wsChangeResults s))"
  shows "reported R s'"
  using assms by (cases "wsPlan s") (auto simp: reported_def split: if_splits)

lemma selectChange_Inr:
  assumes "selectChange B cfg s plan i n = Inr ws"
  obtains r p where "crChange r = None"
    "ws = [WPlan (Some plan), WChangeResults [r], WInterrupt p,
        WStatus (if p = None then Running else AwaitingApproval)] @ (if p = None then [] else [WPhase Analyzed])"
proof (cases "List.find (\<lambda>c. changeId c = i) (planChanges plan)")
  case (Some ch)
  show thesis
    by (rule that[of "\<lparr>crChangeId = i, crStatus = CeRunning, crAttempt = n, crEvidenceRefs = [], crChange = None,
        crVerification = None\<rparr>" "interruptForChange B cfg plan ch n (wsApprovalRequired s)"])
      (use assms Some in \<open>simp_all add: selectChange_def Let_def\<close>)
qed (use assms in \<open>simp add: selectChange_def\<close>)

lemma prepare_reported:
  assumes rep: "reported R s" and run: "wsStatus s = Running" and node: "prepareChangeNode B tid cfg s = Inr ws"
  shows "reported R (apply_writes ws s)"
proof -
  let ?plan = "case wsPlan s of Some p \<Rightarrow> p | None \<Rightarrow> aggregateExecutionPlan tid (wsObjective s) (wsFindings s)"
  have sel: "reported R (apply_writes ws s)" if "selectChange B cfg s ?plan i n = Inr ws" for i n
  proof -
    from that obtain r p where r: "crChange r = None"
      and ws: "ws = [WPlan (Some ?plan), WChangeResults [r], WInterrupt p,
        WStatus (if p = None then Running else AwaitingApproval)] @ (if p = None then [] else [WPhase Analyzed])"
      by (rule selectChange_Inr)
    show ?thesis by (rule reported_prepared[OF rep, where plan = ?plan and rs = "[r]"]) (simp_all add: ws run r)
  qed
  from node consider "\<exists>i n. selectChange B cfg s ?plan i n = Inr ws" | "ws = [WPlan (Some ?plan)]"
    | i p where "latestResults (wsChangeResults s) i = Some p" "ws = [WPlan (Some ?plan), WChangeResults [p\<lparr>crStatus := CeNeedsAttention\<rparr>]]"
    unfolding prepareChangeNode_def Let_def by (auto split: option.splits if_splits)
  then show ?thesis
  proof cases
    case 1
    then show ?thesis using sel by blast
  next
    case 2
    show ?thesis by (rule reported_prepared[OF rep, where plan = ?plan and rs = "[]"]) (simp_all add: 2 run)
  next
    case 3
    from latest_member[OF 3(1)] recorded_again[of p "wsChangeResults s" CeNeedsAttention]
    have "set (recorded_changes [p\<lparr>crStatus := CeNeedsAttention\<rparr>]) \<subseteq> set (recorded_changes (wsChangeResults s))" by blast
    then show ?thesis
      by (intro reported_prepared[OF rep, where plan = ?plan and rs = "[p\<lparr>crStatus := CeNeedsAttention\<rparr>]"])
        (simp_all add: 3 run)
  qed
qed

lemma change_reported:
  assumes rep: "reported R s" and plan: "wsPlan s = Some (chPlan st)" and cur: "crChange (chCurrent st) = None"
    and fresh: "chApprovalOutcome st = None" "chChanges st = []" "chChangeResults st = []" "chUnresolvedRisks st = []"
    and run: "run_change B tid cfg resume execute runner st = (Inr (ChangeEnded st'), asked)"
    and status: "wsStatus s \<noteq> NeedsAttention"
  shows "reported (R @ (case asked of None \<Rightarrow> [] | Some op \<Rightarrow> operation_report B (execute op) op))
    (apply_writes (change_output st') s)"
  using run_change_ended[OF run fresh(1,3,2)]
proof (elim disjE conjE exE)
  assume "asked = None" "st' = apply_change_writes [CInterrupt None, COutcome Rejected, CStatus Running,
            CChangeResults [(chCurrent st)\<lparr>crStatus := CeNeedsAttention\<rparr>]] st"
  with rep plan cur fresh status show ?thesis by (auto simp: reported_def change_output_def)
next
  fix s1 c es s2
  assume asked: "asked = Some (change_operation tid st)"
    and s1: "s1 \<in> {apply_change_writes [COutcome Approved, CStatus Running] st,
              apply_change_writes [CInterrupt None, COutcome Approved, CStatus Running] st}"
    and m: "mutationNode B (execute (change_operation tid st)) s1 = Inr (mutation_writes s1 c)"
    and s2: "s2 = apply_change_writes (mutation_writes s1 c) s1"
    and st': "st' = apply_change_writes (evidence_writes s2 es) s2"
  let ?op = "change_operation tid st"
  have f1: "chPlan s1 = chPlan st" "chCurrent s1 = chCurrent st" "chChanges s1 = []" "chChangeResults s1 = []"
    "chUnresolvedRisks s1 = []"
    using s1 fresh by auto
  from m obtain x c' where c': "execute ?op = Inr x"
    "mutationChange B x (change_kind s1) (crAttempt (chCurrent s1) - 1) = Inr c'"
    "mutation_writes s1 c = mutation_writes s1 c'" by (rule mutationNode_Inr)
  have op: "moIteration ?op = crAttempt (chCurrent s1) - 1"
    "(if moKind ?op = MImplement then Implementation else Repair) = change_kind s1"
    using f1(2) by (auto simp: change_operation_def operation_kind_def change_kind_def)
  have report: "operation_report B (execute ?op) ?op = [c']"
    using c' op by (simp add: operation_report_def sbind_def)
  have f2: "chUnresolvedRisks st' = csUnresolvedRisks c'" "crChange (chCurrent s2) = Some c'"
    "chStatus st' = Running" "chChanges st' = (if isAggregatePlan (chPlan st) \<or> \<not> chHadGlobalChange s1 then [c'] else [])"
    using f1 c'(3) s2 unfolding st'
    by (simp_all add: mutation_writes_def evidence_writes_def Let_def)
  obtain r where r: "chChangeResults st' = [r]" "crChange r = Some c'"
    using f1(4) f2(2) s2 c'(3) unfolding st' evidence_writes_effect by (auto simp: mutation_writes_effect)
  show ?thesis
    using rep plan status unfolding asked
    by (auto simp: reported_def change_output_def report f2 r)
qed

lemma repair_reported:
  assumes rep: "reported R s" and plan: "wsPlan s = Some p" "isAggregatePlan p" and status: "wsStatus s \<noteq> NeedsAttention"
    and node: "repairNode B x s = Inr ws"
  shows "reported (R @ operation_report B x (repair_operation s)) (apply_writes ws s)"
proof -
  from node obtain e c where c: "x = Inr e" "mutationChange B e Repair (wsIteration s + 1) = Inr c"
    and ws: "ws = [WChanges [c], WUnresolvedRisks (csUnresolvedRisks c), WIteration (wsIteration s + 1), WPhase Repaired,
          WTrace [(trace_event TrRepair (wsIteration s + 1))\<lparr>teRoute := Some RtVerify\<rparr>]]"
    by (auto simp: repairNode_def sbind_eq_Inr)
  have "operation_report B x (repair_operation s) = [c]"
    using c by (simp add: operation_report_def sbind_def repair_operation_def)
  with rep plan status show ?thesis by (auto simp: ws reported_def)
qed

definition reports_inv :: "changeSet list \<Rightarrow> 'j graphConfig \<Rightarrow> bool" where
  "reports_inv R c \<longleftrightarrow> reported R (gcState c) \<and> (\<forall>st. gcNext c = NChange st \<longrightarrow> chUnresolvedRisks st = [])"

lemma routed_change_fresh: "routePreparedChange s = Inr (SendChange st) \<Longrightarrow> chUnresolvedRisks st = []"
  by (auto simp: routePreparedChange_def split: option.splits if_splits)

lemma after_not_change:
  "after_verify r \<noteq> NChange st" "after_dispatch s \<noteq> NChange st"
  "after_prepare s = Inr (NChange st) \<longleftrightarrow> routePreparedChange s = Inr (SendChange st)"
  by (auto simp: after_verify_def after_prepare_def after_dispatch_def sbind_def
      split: verifyRoute.split sum.split preparedRoute.split dispatchRoute.split)

lemma plain_step_change: "plain_step B tid i n s = Inr (s', NChange st) \<Longrightarrow> chUnresolvedRisks st = []"
  by (cases n) (auto simp: plain_step_def sbind_eq_Inr after_not_change Let_def dest: routed_change_fresh)

lemma node_not_attention: "node_inv tid w a n s \<Longrightarrow> n \<noteq> NEnd \<Longrightarrow> wsStatus s \<noteq> NeedsAttention"
  by (cases n) (auto split: if_splits)

lemma plain_step_reported:
  assumes "reported R s" and "node_inv tid w a n s" and "plain_step B tid i n s = Inr (s', n')"
  shows "reported R s'"
proof (cases "n \<in> {NDiscover, NPrepare, NEscalate}")
  case True
  with assms show ?thesis
    by (auto simp: plain_step_def sbind_eq_Inr dest!: with_retry_Inr
        intro: discover_reported prepare_reported escalate_reported)
next
  case False
  have "wsStatus s = Running" using assms(2,3) by (cases n) (auto simp: plain_step_def)
  with plain_step_log[OF assms(3) False] reported_same[OF assms(1)] show ?thesis by simp
qed

lemma mutation_step_reported:
  assumes rep: "reported R s" and inv: "node_inv tid w a n s"
    and fresh: "\<forall>st. n = NChange st \<longrightarrow> chUnresolvedRisks st = []"
    and step: "mutation_step B C D tid i j n s = (Inr (s', n'), asked)"
  shows "reported (R @ (case asked of None \<Rightarrow> []
    | Some op \<Rightarrow> operation_report B (execution_of C D tid i j op) op)) s' \<and> (\<forall>st. n' \<noteq> NChange st)"
proof (cases n)
  case (NChange st)
  with step obtain st' where run: "run_change B tid (siConfigurable i) (siResume i) (execution_of C D tid i j)
      (siRunner i 0) st = (Inr (ChangeEnded st'), asked)"
    and s': "s' = apply_writes (change_output st') s" "n' = NPrepare"
    by (auto simp: mutation_step_def split: prod.splits sum.splits changeOutcome.splits)
  have status: "wsStatus s \<noteq> NeedsAttention" using node_not_attention[OF inv] NChange by simp
  from inv NChange obtain plan rs0 where "delivering w s plan" "sent plan a rs0 st" by auto
  then have st: "wsPlan s = Some (chPlan st)" "crChange (chCurrent st) = None" "chApprovalOutcome st = None"
    "chChanges st = []" "chChangeResults st = []"
    by (auto simp: delivering_def sent_def running_result_def)
  from change_reported[OF rep st _ run status] fresh NChange s' show ?thesis by simp
next
  case NRepair
  with step obtain ws where node: "repairNode B (execution_of C D tid i j (repair_operation s)) s = Inr ws"
    and s': "s' = apply_writes ws s" "n' = NVerify" "asked = Some (repair_operation s)"
    by (auto simp: mutation_step_def sbind_eq_Inr)
  have status: "wsStatus s \<noteq> NeedsAttention" using node_not_attention[OF inv] NRepair by simp
  from inv NRepair obtain plan where "delivering w s plan" "isAggregatePlan plan" by auto
  then have "wsPlan s = Some plan" "isAggregatePlan plan" by (auto simp: delivering_def)
  from repair_reported[OF rep this status node] s' show ?thesis by simp
qed (use step in \<open>auto simp: mutation_step_def\<close>)

lemma graph_next_reported:
  assumes inv: "graph_inv tid w a c" and rep: "reports_inv R c"
  shows "reports_inv (R @ step_reports B C D tid i c) (graph_next B C D tid i c)"
proof -
  have node: "node_inv tid w a (gcNext c) (gcState c)" using inv by (simp add: graph_inv_def)
  obtain r asked where m: "mutation_step B C D tid i (gcJournal c) (gcNext c) (gcState c) = (r, asked)" by fastforce
  obtain j' ops where j: "journal_after C D tid i (gcJournal c) asked = (j', ops)" by fastforce
  show ?thesis
  proof (cases "mutating (gcNext c)")
    case True
    then have ne: "gcNext c \<noteq> NEnd" by (auto simp: mutating_def)
    have next_c: "graph_next B C D tid i c = advance r (c\<lparr>gcJournal := j', gcInvoked := gcInvoked c @ ops\<rparr>)"
      using ne True m j by (simp add: graph_next_def)
    show ?thesis
    proof (cases r)
      case (Inl e)
      with next_c rep m show ?thesis by (simp add: reports_inv_def advance_def step_reports_def)
    next
      case (Inr sn)
      obtain s' n' where sn: "r = Inr (s', n')" using Inr by (cases sn) simp
      from mutation_step_reported[OF _ node _ m[unfolded sn], of R] rep
      have "reported (R @ (case asked of None \<Rightarrow> []
          | Some op \<Rightarrow> operation_report B (execution_of C D tid i (gcJournal c) op) op)) s' \<and> (\<forall>st. n' \<noteq> NChange st)"
        by (simp add: reports_inv_def)
      with next_c sn m show ?thesis by (simp add: reports_inv_def advance_def step_reports_def)
    qed
  next
    case False
    then have none: "step_reports B C D tid i c = []"
      by (cases "gcNext c") (simp_all add: step_reports_def mutation_step_def mutating_def)
    show ?thesis
    proof (cases "gcNext c = NEnd")
      case True
      with none rep show ?thesis by (simp add: graph_next_def)
    next
      case ne: False
      with False have next_c: "graph_next B C D tid i c = advance (plain_step B tid i (gcNext c) (gcState c)) c"
        by (simp add: graph_next_def)
      show ?thesis
      proof (cases "plain_step B tid i (gcNext c) (gcState c)")
        case (Inl e)
        with next_c none rep show ?thesis by (simp add: advance_def)
      next
        case (Inr sn)
        obtain s' n' where sn: "plain_step B tid i (gcNext c) (gcState c) = Inr (s', n')" using Inr by (cases sn) simp
        from plain_step_reported[OF _ node sn, of R] rep have "reported R s'" by (simp add: reports_inv_def)
        with next_c none sn plain_step_change[of B tid i "gcNext c" "gcState c" s'] show ?thesis
          by (auto simp: reports_inv_def advance_def)
      qed
    qed
  qed
qed

lemma run_reported:
  assumes "0 \<le> cwMaxIterations w"
  shows "reports_inv (run_reports B C D tid w a j inputs) (graph_run B C D tid w a j inputs)"
proof (induction inputs rule: rev_induct)
  case Nil
  show ?case by (simp add: reports_inv_def initial_config_def reported_def initial_state_def)
next
  case (snoc i xs)
  from graph_next_reported[OF reachable_inv[OF graph_run_reachable assms] snoc.IH] show ?case by simp
qed

text \<open>
  Claim C13 (finished runs are projected). When the graph of a run has ended, the projection of its
  state does not throw: it reports the run's own status, a completed delivery with a passed
  verification, and all findings in the order of their work items. The changes it reports are
  exactly those the mutations of the run reported (the last report of a change that used up its
  attempts comes twice). Its unresolved risks, each listed once, are
  exactly the risks of these changes, those of the findings of a review, and the reason of an
  escalation.
\<close>

theorem finished_run_projected:
  assumes "c = graph_run B C D tid w a j inputs" and "0 \<le> cwMaxIterations w" and "gcNext c = NEnd" and "s = gcState c"
  shows "\<exists>r. projectResult tid s = Inr (Finished r) \<and> rsStatus r = wsStatus s \<and> rsStatus r \<in> {Completed, NeedsAttention} \<and>
    (rsPattern r = Delivery \<and> rsStatus r = Completed \<longrightarrow> (\<exists>v. rsVerification r = Some v \<and> vrPassed v)) \<and>
    mset (rsFindings r) = mset (wsFindings s) \<and>
    sorted_wrt (\<lambda>f g. item_position (wsWorkItems s) f \<le> item_position (wsWorkItems s) g) (rsFindings r) \<and>
    set (rsChanges r) = set (run_reports B C D tid w a j inputs) \<and>
    distinct (rsUnresolvedRisks r) \<and>
    set (rsUnresolvedRisks r) =
      (\<Union>ch \<in> set (run_reports B C D tid w a j inputs). set (csUnresolvedRisks ch)) \<union>
      (if cwPattern w = Review then \<Union>f \<in> set (wsFindings s). set (fiRisks f) else {}) \<union>
      (if wsStatus s = NeedsAttention then {wsSummary s} else {}) \<and>
    set (wsUnresolvedRisks s) \<subseteq> set (rsUnresolvedRisks r) \<and>
    (\<forall>c \<in> set (rsChanges r). set (csUnresolvedRisks c) \<subseteq> set (rsUnresolvedRisks r))"
proof -
  let ?R = "run_reports B C D tid w a j inputs"
  have run: "reachable B C D tid w a j c" by (simp add: assms(1) graph_run_reachable)
  from reachable_inv[OF run assms(2)] assms(3) have inv: "node_inv tid w a NEnd s" "params w a s"
    by (simp_all add: graph_inv_def assms(4))
  have st: "wsStatus s = Completed \<or> wsStatus s = NeedsAttention" using inv(1) by auto
  have v: "wsPattern s = Delivery \<Longrightarrow> wsStatus s = Completed \<Longrightarrow> \<exists>v. wsVerification s = Some v \<and> vrPassed v"
    using inv by (auto simp: synthesizable_def verified_pass_def params_def)
  have rep: "reported ?R s" using run_reported[OF assms(2), of B C D tid a j inputs] assms(1,4)
    by (simp add: reports_inv_def)
  have changes: "set (result_changes s) = set ?R" by (rule result_changes_reported[OF rep])
  have risks: "set (wsUnresolvedRisks s) = (\<Union>c \<in> set ?R. set (csUnresolvedRisks c)) \<union>
      (if wsStatus s = NeedsAttention then {wsSummary s} else {})" using rep by (simp add: reported_def)
  have pat: "wsPattern s = cwPattern w" using inv(2) by (simp add: params_def)
  show ?thesis
    using st v changes risks pat
    by (auto simp: projectResult_def unique_def Let_def intro!: sorted_wrt_sort_by)
qed

lemma projected_changes: "projectResult tid s = Inr (Finished r) \<Longrightarrow> rsChanges r = result_changes s"
  by (auto simp: projectResult_def sbind_eq_Inr Let_def split: if_splits)

theorem finished_run_projected_witness:
  "\<exists>r. projectResult ''t'' (gcState (sample_run delivery_answers)) = Inr (Finished r) \<and> rsStatus r = Completed \<and>
     map csSummary (rsChanges r) = [''s'']"
proof -
  let ?s = "gcState (sample_run delivery_answers)"
  have e: "gcNext (sample_run delivery_answers) = NEnd" "wsStatus ?s = Completed" by code_simp+
  have w: "0 \<le> cwMaxIterations sample_workflow" by (simp add: sample_workflow_def)
  have "map csSummary (result_changes ?s) = [''s'']" by code_simp
  moreover from finished_run_projected[OF sample_run_graph_run w e(1) refl]
  obtain r where "projectResult ''t'' ?s = Inr (Finished r)" "rsStatus r = wsStatus ?s" by blast
  ultimately show ?thesis using e(2) projected_changes by metis
qed

end
