(* ===== verification/Candidates.thy ===== *)
theory Candidates
  imports Projection
begin

text \<open>
  Choosing what to do after a failed delivery: the scores of the two candidate repairs and the
  critic that breaks a true tie (\<open>src/src/workflow/candidate-scoring.ts\<close>), the backtrack policy
  (\<open>src/src/workflow/backtrack-policy.ts\<close>) and its automatic use on a run's result
  (\<open>src/src/runtime/automatic-backtrack-policy.ts\<close>). Counts are integers.
\<close>

section \<open>Scores\<close>

datatype candidateIndex = Candidate0 | Candidate1

definition index_number :: "candidateIndex \<Rightarrow> int" where
  "index_number i = (case i of Candidate0 \<Rightarrow> 0 | Candidate1 \<Rightarrow> 1)"

record candidateEffects =
  ceFullyKnown :: bool
  ceFullyCompensable :: bool

record candidateHostVerification =
  chvPassed :: bool
  chvFailedChecks :: "int option"

record checkCounts =
  ccTest :: int
  ccTypecheck :: int
  ccLint :: int
  ccBuild :: int

record candidateScoreInput =
  csiIndex :: candidateIndex
  csiReplayCompatible :: bool
  csiEffects :: candidateEffects
  csiDeliveryCompleted :: bool
  csiHostVerification :: candidateHostVerification
  csiUnresolvedRisks :: "string list"
  csiChangedPaths :: "string list"
  csiChangedBytes :: int
  csiCheckFailures :: "checkCounts option"
  csiUnmetAcceptanceCriteria :: "int option"
  csiRegressions :: "int option"

record candidateScoreReceipt =
  csrIndex :: candidateIndex
  csrEligible :: bool
  csrIneligibilityReasons :: "string list"
  csrFailedHostChecks :: int
  csrUnresolvedRiskCount :: nat
  csrChangedPathCount :: nat
  csrChangedByteCount :: int
  csrChangedPaths :: "string list"
  csrScore :: "int list"

datatype candidateScoreResult =
    Selected candidateScoreReceipt "candidateScoreReceipt list"
  | TrueTie "candidateScoreReceipt list"

definition or_zero :: "int option \<Rightarrow> int" where
  "or_zero n = (case n of None \<Rightarrow> 0 | Some i \<Rightarrow> i)"

definition toReceipt :: "candidateScoreInput \<Rightarrow> candidateScoreReceipt" where
  "toReceipt c =
     (let changedPaths = sort (dedup (csiChangedPaths c));
          failedHostChecks = (case chvFailedChecks (csiHostVerification c) of
             Some n \<Rightarrow> n | None \<Rightarrow> if chvPassed (csiHostVerification c) then 0 else 1);
          checks = (case csiCheckFailures c of Some k \<Rightarrow> k
             | None \<Rightarrow> \<lparr>ccTest = 0, ccTypecheck = 0, ccLint = 0, ccBuild = 0\<rparr>);
          totalCheckFailures = ccTest checks + ccTypecheck checks + ccLint checks + ccBuild checks;
          reasons = (if csiReplayCompatible c then [] else [''replay-incompatible'']) @
             (if ceFullyKnown (csiEffects c) then [] else [''unknown-effects'']) @
             (if ceFullyCompensable (csiEffects c) then [] else [''noncompensable-effects'']) @
             (if csiDeliveryCompleted c then [] else [''delivery-incomplete'']) @
             (if chvPassed (csiHostVerification c) then [] else [''host-verification-failed''])
      in \<lparr>csrIndex = csiIndex c, csrEligible = (reasons = []), csrIneligibilityReasons = reasons,
          csrFailedHostChecks = failedHostChecks, csrUnresolvedRiskCount = length (csiUnresolvedRisks c),
          csrChangedPathCount = length changedPaths, csrChangedByteCount = csiChangedBytes c,
          csrChangedPaths = changedPaths,
          csrScore = [failedHostChecks, totalCheckFailures, ccTest checks, ccTypecheck checks, ccLint checks,
            ccBuild checks, or_zero (csiUnmetAcceptanceCriteria c), or_zero (csiRegressions c),
            int (length (csiUnresolvedRisks c)), int (length changedPaths), csiChangedBytes c]\<rparr>)"

fun compare_scores :: "int list \<Rightarrow> int list \<Rightarrow> int" where
  "compare_scores [] rs = 0"
| "compare_scores (l # ls) rs =
     (let difference = l - (case rs of [] \<Rightarrow> 0 | r # _ \<Rightarrow> r)
      in if difference \<noteq> 0 then difference else compare_scores ls (tl rs))"

definition compareReceipts :: "candidateScoreReceipt \<Rightarrow> candidateScoreReceipt \<Rightarrow> int" where
  "compareReceipts l r = compare_scores (csrScore l) (csrScore r)"

fun same_scores :: "int list \<Rightarrow> int list \<Rightarrow> bool" where
  "same_scores [] rs = True"
| "same_scores (l # ls) [] = False"
| "same_scores (l # ls) (r # rs) = (l = r \<and> same_scores ls rs)"

definition sameDimensions :: "candidateScoreReceipt \<Rightarrow> candidateScoreReceipt \<Rightarrow> bool" where
  "sameDimensions l r = same_scores (csrScore l) (csrScore r)"

definition score_receipts :: "candidateScoreInput list \<Rightarrow> candidateScoreReceipt list" where
  "score_receipts cs = sort_by (\<lambda>l r. index_number (csrIndex l) - index_number (csrIndex r)) (map toReceipt cs)"

definition scoreCandidates :: "candidateScoreInput list \<Rightarrow> candidateScoreResult result" where
  "scoreCandidates cs =
     (let receipts = score_receipts cs; eligible = filter csrEligible receipts
      in case sort_by compareReceipts eligible of
           [] \<Rightarrow> Inl (PlainError ''no eligible candidate'')
         | winner # _ \<Rightarrow>
             if length (filter (\<lambda>r. sameDimensions r winner) eligible) = 2 then Inr (TrueTie receipts)
             else Inr (Selected winner receipts))"

section \<open>The tie critic\<close>

record resolvedCandidateScore =
  rcsWinner :: candidateScoreReceipt
  rcsReceipts :: "candidateScoreReceipt list"
  rcsTieDecision :: "candidateIndex option"

definition parse_tie_decision :: "js \<Rightarrow> candidateIndex option" where
  "parse_tie_decision v =
     (if is_record v \<and> length (keys_of v) = 2 \<and> jget v ''protocolVersion'' = JNum (NInt 1) then
        (if jget v ''winnerCandidateIndex'' = JNum (NInt 0) then Some Candidate0
         else if jget v ''winnerCandidateIndex'' = JNum (NInt 1) then Some Candidate1 else None)
      else None)"

definition receiptPair :: "candidateScoreReceipt list \<Rightarrow> (candidateScoreReceipt \<times> candidateScoreReceipt) result" where
  "receiptPair rs =
     (case (List.find (\<lambda>r. csrIndex r = Candidate0) rs, List.find (\<lambda>r. csrIndex r = Candidate1) rs) of
        (Some a, Some b) \<Rightarrow> Inr (a, b)
      | _ \<Rightarrow> Inl (CandidateTieCriticError CriticInvalidOutput))"

type_synonym tieCritic = "candidateScoreReceipt \<times> candidateScoreReceipt \<Rightarrow> js result"

definition resolveTieDecision ::
  "tieCritic \<Rightarrow> candidateScoreReceipt \<times> candidateScoreReceipt \<Rightarrow> candidateIndex result" where
  "resolveTieDecision critic pair =
     (case critic pair of
        Inl (CandidateTieCriticError c) \<Rightarrow> Inl (CandidateTieCriticError c)
      | Inl _ \<Rightarrow> Inl (CandidateTieCriticError CriticFailed)
      | Inr out \<Rightarrow> (case parse_tie_decision out of
           None \<Rightarrow> Inl (CandidateTieCriticError CriticInvalidOutput)
         | Some i \<Rightarrow> Inr i))"

definition resolveCandidateScore ::
  "candidateScoreInput list \<Rightarrow> tieCritic option \<Rightarrow> resolvedCandidateScore result" where
  "resolveCandidateScore cs critic =
     sbind (scoreCandidates cs) (\<lambda>scored. case scored of
       Selected w rs \<Rightarrow> Inr \<lparr>rcsWinner = w, rcsReceipts = rs, rcsTieDecision = None\<rparr>
     | TrueTie rs \<Rightarrow> (case critic of
         None \<Rightarrow> Inl (CandidateTieCriticError CriticUnavailable)
       | Some f \<Rightarrow>
           sbind (receiptPair rs) (\<lambda>pair.
           sbind (resolveTieDecision f pair) (\<lambda>i.
           case List.find (\<lambda>r. csrIndex r = i) rs of
             None \<Rightarrow> Inl (CandidateTieCriticError CriticInvalidOutput)
           | Some w \<Rightarrow> Inr \<lparr>rcsWinner = w, rcsReceipts = rs, rcsTieDecision = Some i\<rparr>))))"

section \<open>The backtrack policy\<close>

datatype backtrackAction = RetryCurrentRepair | CompareTwoCandidates | EscalateManual

datatype backtrackReason =
    RecoverableCheckFailure | RepeatedNoProgress | UnsafeOrIncompatible | BudgetExhausted
  | PlanInvalidated | AmbiguousRisk

record backtrackPolicyInput =
  bpFailedChecks :: checkCounts
  bpRepeatedFailureSignature :: bool
  bpNoProgress :: bool
  bpRegressions :: int
  bpPlanInvalidating :: bool
  bpIteration :: int
  bpBudget :: int
  bpEffectsSafe :: bool
  bpReplayCompatible :: bool
  bpRiskAmbiguous :: bool

record backtrackPolicyDecision =
  bdAction :: backtrackAction
  bdCandidateCount :: nat
  bdReason :: backtrackReason

definition decision :: "backtrackAction \<Rightarrow> nat \<Rightarrow> backtrackReason \<Rightarrow> backtrackPolicyDecision" where
  "decision a n r = \<lparr>bdAction = a, bdCandidateCount = n, bdReason = r\<rparr>"

definition classifyBacktrackTrigger :: "backtrackPolicyInput \<Rightarrow> backtrackPolicyDecision" where
  "classifyBacktrackTrigger i =
     (if bpPlanInvalidating i then decision EscalateManual 0 PlanInvalidated
      else if \<not> bpEffectsSafe i \<or> \<not> bpReplayCompatible i then decision EscalateManual 0 UnsafeOrIncompatible
      else if bpRiskAmbiguous i then decision EscalateManual 0 AmbiguousRisk
      else if bpRepeatedFailureSignature i \<or> bpNoProgress i \<or> bpRegressions i > 0
      then decision CompareTwoCandidates 2 RepeatedNoProgress
      else if bpIteration i \<ge> bpBudget i then decision EscalateManual 0 BudgetExhausted
      else decision RetryCurrentRepair 0 RecoverableCheckFailure)"

section \<open>Its automatic use\<close>

fun includes_text :: "string \<Rightarrow> string \<Rightarrow> bool" where
  "includes_text sub [] = (sub = [])"
| "includes_text sub (c # cs) = (take (length sub) (c # cs) = sub \<or> includes_text sub cs)"

definition to_lower :: "string \<Rightarrow> string" where
  "to_lower s = map lower_char s"

fun checkFailures :: "verificationCheck list \<Rightarrow> checkCounts \<Rightarrow> checkCounts" where
  "checkFailures [] k = k"
| "checkFailures (c # cs) k = checkFailures cs
     (if vcPassed c then k
      else if includes_text ''type'' (to_lower (vcName c)) then k\<lparr>ccTypecheck := ccTypecheck k + 1\<rparr>
      else if includes_text ''lint'' (to_lower (vcName c)) then k\<lparr>ccLint := ccLint k + 1\<rparr>
      else if includes_text ''build'' (to_lower (vcName c)) then k\<lparr>ccBuild := ccBuild k + 1\<rparr>
      else k\<lparr>ccTest := ccTest k + 1\<rparr>)"

definition result_checks :: "codingWorkflowResult \<Rightarrow> verificationCheck list" where
  "result_checks r = (case rsVerification r of None \<Rightarrow> [] | Some v \<Rightarrow> vrChecks v)"

text \<open>\<open>/\bplan\b.*\b(?:invalid|replace|rewrite)\b/i\<close>; the dot does not match a line terminator.\<close>

fun plan_invalidating_risk :: "bool \<Rightarrow> string \<Rightarrow> bool" where
  "plan_invalidating_risk after_word [] = False"
| "plan_invalidating_risk after_word (c # cs) =
     (\<not> after_word \<and> word_here (c # cs) ''plan'' \<and>
        has_word [''invalid'', ''replace'', ''rewrite''] True
          (takeWhile (\<lambda>d. code d \<noteq> 10 \<and> code d \<noteq> 13) (drop 4 (c # cs))) \<or>
      plan_invalidating_risk (is_word_char c) cs)"

definition ambiguous_risk :: "string \<Rightarrow> bool" where
  "ambiguous_risk t = has_word [''ambiguous'', ''unknown''] False t"

definition isStructuredFailedDelivery :: "codingWorkflowResult \<Rightarrow> bool" where
  "isStructuredFailedDelivery r =
     (rsStatus r = NeedsAttention \<and>
      (case rsVerification r of None \<Rightarrow> False | Some v \<Rightarrow> \<not> vrPassed v) \<and>
      list_ex (\<lambda>e. teNode e = TrDiagnose) (rsTrace r))"

definition automaticBacktrackDecision :: "codingWorkflowResult \<Rightarrow> backtrackPolicyDecision" where
  "automaticBacktrackDecision r =
     (let failed = checkFailures (result_checks r) \<lparr>ccTest = 0, ccTypecheck = 0, ccLint = 0, ccBuild = 0\<rparr>
      in classifyBacktrackTrigger
        \<lparr>bpFailedChecks = failed,
         bpRepeatedFailureSignature = 1 < length (filter (\<lambda>e. teNode e = TrVerify) (rsTrace r)),
         bpNoProgress = (rsStatus r = NeedsAttention),
         bpRegressions = (if ccTest failed > 0 \<and>
            list_ex (\<lambda>k. includes_text ''regression'' (to_lower (vcName k))) (result_checks r) then 1 else 0),
         bpPlanInvalidating = list_ex (plan_invalidating_risk False) (rsUnresolvedRisks r),
         bpIteration = rsIteration r, bpBudget = rsIteration r,
         bpEffectsSafe = True, bpReplayCompatible = True,
         bpRiskAmbiguous = list_ex ambiguous_risk (rsUnresolvedRisks r)\<rparr>)"

section \<open>The best candidate is selected\<close>

definition eligible_input :: "candidateScoreInput \<Rightarrow> bool" where
  "eligible_input c \<longleftrightarrow> csiReplayCompatible c \<and> ceFullyKnown (csiEffects c) \<and> ceFullyCompensable (csiEffects c) \<and>
     csiDeliveryCompleted c \<and> chvPassed (csiHostVerification c)"

lemma receipt_facts:
  "csrEligible (toReceipt c) = eligible_input c" "length (csrScore (toReceipt c)) = 11"
  "csrIndex (toReceipt c) = csiIndex c"
  by (simp_all add: toReceipt_def eligible_input_def Let_def)

lemma compare_scores_iff:
  "length ls = length rs \<Longrightarrow> compare_scores ls rs \<le> 0 \<longleftrightarrow> ls \<le> rs"
  by (induction ls rs rule: list_induct2) (auto simp: Let_def)

lemma same_scores_iff: "length ls = length rs \<Longrightarrow> same_scores ls rs \<longleftrightarrow> ls = rs"
  by (induction ls rs rule: list_induct2) auto

lemma receipts_commute:
  "csiIndex a \<noteq> csiIndex b \<Longrightarrow> score_receipts [a, b] = score_receipts [b, a]"
  by (cases "csiIndex a"; cases "csiIndex b")
    (simp_all add: score_receipts_def sort_by_def receipt_facts index_number_def)

lemma receipts_pair: "\<exists>x y. {x, y} = {a, b} \<and> score_receipts [a, b] = [toReceipt x, toReceipt y]"
  by (auto simp: score_receipts_def sort_by_def)

lemma best_candidate:
  assumes "csiIndex a \<noteq> csiIndex b"
  shows "scoreCandidates [a, b] = scoreCandidates [b, a] \<and>
    (case scoreCandidates [a, b] of
       Inl e \<Rightarrow> \<not> eligible_input a \<and> \<not> eligible_input b
     | Inr (Selected w rs) \<Rightarrow> \<exists>x \<in> {a, b}. w = toReceipt x \<and> eligible_input x \<and>
         (\<forall>y \<in> {a, b} - {x}. eligible_input y \<longrightarrow> csrScore w < csrScore (toReceipt y))
     | Inr (TrueTie rs) \<Rightarrow> eligible_input a \<and> eligible_input b \<and> csrScore (toReceipt a) = csrScore (toReceipt b))"
proof
  show "scoreCandidates [a, b] = scoreCandidates [b, a]"
    by (simp add: scoreCandidates_def receipts_commute[OF assms])
next
  obtain x y where xy: "{x, y} = {a, b}" "score_receipts [a, b] = [toReceipt x, toReceipt y]"
    using receipts_pair by blast
  have ne: "x \<noteq> y" using xy(1) assms by auto
  let ?X = "toReceipt x" and ?Y = "toReceipt y"
  have c: "compareReceipts l r \<le> 0 \<longleftrightarrow> csrScore l \<le> csrScore r" "sameDimensions l r \<longleftrightarrow> csrScore l = csrScore r"
    if "l \<in> {?X, ?Y}" "r \<in> {?X, ?Y}" for l r
    using that by (auto simp: compareReceipts_def sameDimensions_def compare_scores_iff same_scores_iff receipt_facts)
  have "case scoreCandidates [a, b] of
       Inl e \<Rightarrow> \<not> eligible_input x \<and> \<not> eligible_input y
     | Inr (Selected w rs) \<Rightarrow> (w = ?X \<and> eligible_input x \<and> (eligible_input y \<longrightarrow> csrScore w < csrScore ?Y)) \<or>
         (w = ?Y \<and> eligible_input y \<and> (eligible_input x \<longrightarrow> csrScore w < csrScore ?X))
     | Inr (TrueTie rs) \<Rightarrow> eligible_input x \<and> eligible_input y \<and> csrScore ?X = csrScore ?Y"
    by (auto simp: scoreCandidates_def xy(2) receipt_facts sort_by_def c Let_def)
  with xy(1) ne show "case scoreCandidates [a, b] of
       Inl e \<Rightarrow> \<not> eligible_input a \<and> \<not> eligible_input b
     | Inr (Selected w rs) \<Rightarrow> \<exists>x \<in> {a, b}. w = toReceipt x \<and> eligible_input x \<and>
         (\<forall>y \<in> {a, b} - {x}. eligible_input y \<longrightarrow> csrScore w < csrScore (toReceipt y))
     | Inr (TrueTie rs) \<Rightarrow> eligible_input a \<and> eligible_input b \<and> csrScore (toReceipt a) = csrScore (toReceipt b)"
    by (cases "scoreCandidates [a, b]")
      (auto simp: doubleton_eq_iff split: candidateScoreResult.splits)
qed

text \<open>
  Claim C14 (candidate selection). The choice between two candidates does not depend on the order
  in which they finished. It fails exactly when neither is eligible, that is compatible with the
  replay, with known and compensable effects, completed and verified by the host. A selected
  winner is eligible and strictly better, dimension by dimension, than any other eligible
  candidate; a true tie is two eligible candidates with equal scores.
\<close>

theorem best_candidate_selected:
  assumes "csiIndex a \<noteq> csiIndex b"
  shows "scoreCandidates [a, b] = scoreCandidates [b, a] \<and>
    (case scoreCandidates [a, b] of
       Inl e \<Rightarrow> \<not> eligible_input a \<and> \<not> eligible_input b
     | Inr (Selected w rs) \<Rightarrow> \<exists>x \<in> {a, b}. w = toReceipt x \<and> eligible_input x \<and>
         (\<forall>y \<in> {a, b} - {x}. eligible_input y \<longrightarrow> csrScore w < csrScore (toReceipt y))
     | Inr (TrueTie rs) \<Rightarrow> eligible_input a \<and> eligible_input b \<and> csrScore (toReceipt a) = csrScore (toReceipt b))"
  by (rule best_candidate[OF assms])

definition sample_candidate :: "candidateIndex \<Rightarrow> int \<Rightarrow> candidateScoreInput" where
  "sample_candidate i bytes = \<lparr>csiIndex = i, csiReplayCompatible = True,
     csiEffects = \<lparr>ceFullyKnown = True, ceFullyCompensable = True\<rparr>, csiDeliveryCompleted = True,
     csiHostVerification = \<lparr>chvPassed = True, chvFailedChecks = None\<rparr>, csiUnresolvedRisks = [],
     csiChangedPaths = [''b.ts'', ''a.ts'', ''b.ts''], csiChangedBytes = bytes, csiCheckFailures = None,
     csiUnmetAcceptanceCriteria = None, csiRegressions = None\<rparr>"

theorem best_candidate_selected_witness:
  "\<exists>w rs. scoreCandidates [sample_candidate Candidate0 20, sample_candidate Candidate1 10] = Inr (Selected w rs) \<and>
     csrIndex w = Candidate1"
proof -
  let ?a = "sample_candidate Candidate0 20" and ?b = "sample_candidate Candidate1 10"
  have d: "csiIndex ?a \<noteq> csiIndex ?b" by (simp add: sample_candidate_def)
  have lt: "\<not> csrScore (toReceipt ?a) < csrScore (toReceipt ?b)" "csrScore (toReceipt ?a) \<noteq> csrScore (toReceipt ?b)"
    "eligible_input ?a" "eligible_input ?b" "csiIndex ?b = Candidate1"
    by code_simp+
  from conjunct2[OF best_candidate_selected[OF d]] lt show ?thesis
    by (auto simp: receipt_facts d split: sum.splits candidateScoreResult.splits)
qed

section \<open>The critic decides ties only\<close>

lemma receipts_find:
  assumes "csiIndex a \<noteq> csiIndex b" and "List.find (\<lambda>r. csrIndex r = i) (score_receipts [a, b]) = Some w"
  shows "\<exists>x \<in> {a, b}. w = toReceipt x \<and> csiIndex x = i"
proof -
  from find_SomeD[OF assms(2)] have "w \<in> set (score_receipts [a, b])" "csrIndex w = i" by auto
  then show ?thesis by (auto simp: score_receipts_def receipt_facts)
qed

text \<open>
  Claim C15 (tie resolution). Whatever the critic returns or throws, the winner is an eligible
  candidate; the critic decides only a true tie, by naming one of the two in a well-formed
  answer, and every other answer is an error of the tie critic.
\<close>

theorem tie_resolution:
  assumes "csiIndex a \<noteq> csiIndex b" and scored: "scoreCandidates [a, b] = Inr s"
  shows "case resolveCandidateScore [a, b] critic of
      Inr r \<Rightarrow> (\<exists>x \<in> {a, b}. rcsWinner r = toReceipt x \<and> eligible_input x) \<and>
        (case rcsTieDecision r of
           None \<Rightarrow> \<exists>rs. s = Selected (rcsWinner r) rs
         | Some i \<Rightarrow> csrIndex (rcsWinner r) = i \<and> (\<exists>rs f out pair. s = TrueTie rs \<and> critic = Some f \<and>
             receiptPair rs = Inr pair \<and> f pair = Inr out \<and> parse_tie_decision out = Some i))
    | Inl e \<Rightarrow> \<exists>c rs. e = CandidateTieCriticError c \<and> s = TrueTie rs"
proof (cases s)
  case (Selected w rs)
  from best_candidate[OF assms(1)] scored Selected have "\<exists>x \<in> {a, b}. w = toReceipt x \<and> eligible_input x" by auto
  with scored Selected show ?thesis by (simp add: resolveCandidateScore_def)
next
  case (TrueTie rs)
  have rs: "rs = score_receipts [a, b]" using scored TrueTie
    by (auto simp: scoreCandidates_def Let_def split: list.splits if_splits)
  from best_candidate[OF assms(1)] scored TrueTie have el: "eligible_input a" "eligible_input b" by simp_all
  show ?thesis
  proof (cases critic)
    case None
    with scored TrueTie show ?thesis by (simp add: resolveCandidateScore_def)
  next
    case (Some f)
    show ?thesis
    proof (cases "receiptPair rs")
      case (Inl e)
      then have "\<exists>c. e = CandidateTieCriticError c" by (auto simp: receiptPair_def split: option.splits)
      with scored TrueTie Some Inl show ?thesis by (simp add: resolveCandidateScore_def)
    next
      case pair: (Inr pair)
      show ?thesis
      proof (cases "resolveTieDecision f pair")
        case (Inl e)
        then have "\<exists>c. e = CandidateTieCriticError c"
          by (auto simp: resolveTieDecision_def split: sum.splits error.splits option.splits)
        with scored TrueTie Some pair Inl show ?thesis by (simp add: resolveCandidateScore_def)
      next
        case (Inr i)
        then obtain out where out: "f pair = Inr out" "parse_tie_decision out = Some i"
          by (auto simp: resolveTieDecision_def split: sum.splits error.splits option.splits)
        show ?thesis
        proof (cases "List.find (\<lambda>r. csrIndex r = i) rs")
          case None
          with scored TrueTie Some pair Inr show ?thesis by (simp add: resolveCandidateScore_def)
        next
          case w: (Some w)
          from receipts_find[OF assms(1)] w rs have "\<exists>x \<in> {a, b}. w = toReceipt x \<and> csiIndex x = i" by simp
          with w scored TrueTie Some pair Inr out el show ?thesis
            by (cases pair) (auto simp: resolveCandidateScore_def receipt_facts)
        qed
      qed
    qed
  qed
qed

section \<open>Automatic backtracking\<close>

lemma policy_cases:
  "bdAction (classifyBacktrackTrigger i) = CompareTwoCandidates \<longleftrightarrow>
     \<not> bpPlanInvalidating i \<and> bpEffectsSafe i \<and> bpReplayCompatible i \<and> \<not> bpRiskAmbiguous i \<and>
     (bpRepeatedFailureSignature i \<or> bpNoProgress i \<or> bpRegressions i > 0)"
  "bdAction (classifyBacktrackTrigger i) = RetryCurrentRepair \<longleftrightarrow>
     \<not> bpPlanInvalidating i \<and> bpEffectsSafe i \<and> bpReplayCompatible i \<and> \<not> bpRiskAmbiguous i \<and>
     \<not> bpRepeatedFailureSignature i \<and> \<not> bpNoProgress i \<and> bpRegressions i \<le> 0 \<and> bpIteration i < bpBudget i"
  "bdCandidateCount (classifyBacktrackTrigger i) = (if bdAction (classifyBacktrackTrigger i) = CompareTwoCandidates then 2 else 0)"
  by (auto simp: classifyBacktrackTrigger_def decision_def)

text \<open>
  Claim C16 (automatic backtracking). On a structured failed delivery the automatic policy never
  retries the repair: it compares two candidates unless an unresolved risk says that the plan is
  invalid or that something is ambiguous or unknown, and then it leaves the decision to the user.
\<close>

theorem automatic_backtrack_decides:
  assumes "isStructuredFailedDelivery r" and "d = automaticBacktrackDecision r"
  shows "bdAction d \<noteq> RetryCurrentRepair \<and>
    (bdAction d = CompareTwoCandidates \<longleftrightarrow>
       (\<forall>t \<in> set (rsUnresolvedRisks r). \<not> plan_invalidating_risk False t \<and> \<not> ambiguous_risk t)) \<and>
    (bdCandidateCount d = 2 \<longleftrightarrow> bdAction d = CompareTwoCandidates)"
  using assms(1) by (auto simp: assms(2) automaticBacktrackDecision_def policy_cases Let_def
      isStructuredFailedDelivery_def list_ex_iff)

definition failed_result :: codingWorkflowResult where
  "failed_result = \<lparr>rsThreadId = ''t'', rsObjective = ''o'', rsPattern = Delivery, rsStatus = NeedsAttention,
     rsPhase = Escalated, rsWorkItems = [], rsFindings = [], rsChanges = [],
     rsVerification = Some \<lparr>vrPassed = False, vrSummary = ''s'', vrChecks = []\<rparr>,
     rsUnresolvedRisks = [''The Plan is now INVALID.''], rsIteration = 2, rsSummary = ''s'',
     rsTrace = [trace_event TrDiagnose 0], rsPlan = None, rsChangeResults = [], rsEvidenceRefs = []\<rparr>"

theorem automatic_backtrack_decides_witness:
  "bdAction (automaticBacktrackDecision failed_result) = EscalateManual"
proof -
  have f: "isStructuredFailedDelivery failed_result" "plan_invalidating_risk False (rsUnresolvedRisks failed_result ! 0)"
    "rsUnresolvedRisks failed_result \<noteq> []"
    by code_simp+
  then have "\<not> (\<forall>t \<in> set (rsUnresolvedRisks failed_result). \<not> plan_invalidating_risk False t \<and> \<not> ambiguous_risk t)"
    by (meson length_greater_0_conv nth_mem)
  with automatic_backtrack_decides[OF f(1) refl] show ?thesis
    by (cases "bdAction (automaticBacktrackDecision failed_result)") auto
qed

theorem tie_resolution_witness:
  "\<exists>r. resolveCandidateScore [sample_candidate Candidate0 10, sample_candidate Candidate1 10]
      (Some (\<lambda>pair. Inr (JObj [(''protocolVersion'', JNum (NInt 1)), (''winnerCandidateIndex'', JNum (NInt 1))]))) = Inr r \<and>
     (\<exists>x \<in> {sample_candidate Candidate0 10, sample_candidate Candidate1 10}. rcsWinner r = toReceipt x \<and> eligible_input x)"
proof -
  let ?a = "sample_candidate Candidate0 10" and ?b = "sample_candidate Candidate1 10"
  let ?f = "Some (\<lambda>pair. Inr (JObj [(''protocolVersion'', JNum (NInt 1)), (''winnerCandidateIndex'', JNum (NInt 1))]))"
  have d: "csiIndex ?a \<noteq> csiIndex ?b" by (simp add: sample_candidate_def)
  have "case scoreCandidates [?a, ?b] of Inr s \<Rightarrow> True | Inl e \<Rightarrow> False"
    "case resolveCandidateScore [?a, ?b] ?f of Inr r \<Rightarrow> True | Inl e \<Rightarrow> False" by code_simp+
  then obtain s r where s: "scoreCandidates [?a, ?b] = Inr s" "resolveCandidateScore [?a, ?b] ?f = Inr r"
    by (auto split: sum.splits)
  from tie_resolution[OF d s(1), of ?f] s(2) show ?thesis by auto
qed

end
