(* ===== verification/Canonical.thy ===== *)
theory Canonical
  imports Readers "HOL-Library.Multiset"
begin

text \<open>
  Canonical JSON, \<open>src/src/bridge/canonical.ts\<close>: the text that digests of links, ledgers and
  replay bindings are taken of. Object members are printed in the order of their names, nesting
  and size are bounded, anything that is not JSON data is refused. The text does not depend on
  the order in which an object was built, and equal texts come from equal data.
\<close>

section \<open>Scalars\<close>

text \<open>\<open>JSON.stringify\<close> of a string: quotes, backslashes and control characters are escaped.\<close>

definition hex_digit :: "nat \<Rightarrow> char" where
  "hex_digit n = (if n < 10 then char_of (48 + n) else char_of (87 + n))"

definition json_char :: "char \<Rightarrow> string" where
  "json_char c =
     (if c = CHR 0x22 then [CHR 0x5C, CHR 0x22]
      else if c = CHR 0x5C then [CHR 0x5C, CHR 0x5C]
      else if c = CHR 0x08 then [CHR 0x5C, CHR ''b'']
      else if c = CHR 0x09 then [CHR 0x5C, CHR ''t'']
      else if c = CHR 0x0A then [CHR 0x5C, CHR ''n'']
      else if c = CHR 0x0C then [CHR 0x5C, CHR ''f'']
      else if c = CHR 0x0D then [CHR 0x5C, CHR ''r'']
      else if code c < 32 then CHR 0x5C # ''u00'' @ [hex_digit (code c div 16), hex_digit (code c mod 16)]
      else [c])"

definition json_string :: "string \<Rightarrow> string" where
  "json_string s = CHR 0x22 # concat (map json_char s) @ [CHR 0x22]"

definition json_number :: "jnum \<Rightarrow> string" where
  "json_number n = (case n of NInt i \<Rightarrow> int_text i | NText t \<Rightarrow> t | _ \<Rightarrow> ''null'')"

definition finite_number :: "jnum \<Rightarrow> bool" where
  "finite_number n = (case n of NInt i \<Rightarrow> True | NText t \<Rightarrow> True | _ \<Rightarrow> False)"

section \<open>The canonical text\<close>

definition MAX_CANONICAL_JSON_BYTES :: nat where "MAX_CANONICAL_JSON_BYTES = 65536"
definition MAX_CANONICAL_DEPTH :: nat where "MAX_CANONICAL_DEPTH = 32"

definition canonical_error :: error where
  "canonical_error = BridgeContractError InvalidPayload ''canonical-json''"

lemma member_size: "(k, v) \<in> set kvs \<Longrightarrow> size v \<le> size_list (size_prod (\<lambda>_. 0) size) kvs"
  by (induction kvs) auto

lemma element_size: "v \<in> set vs \<Longrightarrow> size v \<le> size_list size vs"
  by (induction vs) auto

text \<open>
  A member's value is printed before the members are put in order; every failure is the same
  error, so the source, which sorts the names first, gives the same result.
\<close>

function canonicalize :: "js \<Rightarrow> nat \<Rightarrow> string result" where
  "canonicalize v depth =
     (if depth > MAX_CANONICAL_DEPTH then Inl canonical_error
      else case v of
        JNull \<Rightarrow> Inr ''null''
      | JBool b \<Rightarrow> Inr (if b then ''true'' else ''false'')
      | JStr s \<Rightarrow> Inr (json_string s)
      | JNum n \<Rightarrow> if finite_number n then Inr (json_number n) else Inl canonical_error
      | JArr xs \<Rightarrow> sbind (traverse (\<lambda>x. canonicalize x (depth + 1)) xs) (\<lambda>ts.
          Inr (''['' @ join '','' ts @ '']''))
      | JObj kvs \<Rightarrow> sbind (traverse (\<lambda>(k, x). sbind (canonicalize x (depth + 1)) (\<lambda>t. Inr (k, t))) kvs) (\<lambda>ms.
          Inr (''{'' @ join '','' (map (\<lambda>(k, t). json_string k @ '':'' @ t) (sort_key fst ms)) @ ''}''))
      | JUndef \<Rightarrow> Inl canonical_error)"
  by pat_completeness auto
termination
  by (relation "measure (\<lambda>(v, d). size v)") (auto simp: less_Suc_eq_le intro: member_size element_size)

declare canonicalize.simps [simp del]

definition utf8_bytes :: "string \<Rightarrow> nat" where
  "utf8_bytes s = sum_list (map (\<lambda>c. if code c < 128 then 1 else 2) s)"

definition canonicalJson :: "js \<Rightarrow> string result" where
  "canonicalJson v =
     sbind (canonicalize v 0) (\<lambda>t.
     if MAX_CANONICAL_JSON_BYTES < utf8_bytes t then Inl canonical_error else Inr t)"

definition sha256CanonicalJson :: "builtins \<Rightarrow> js \<Rightarrow> string result" where
  "sha256CanonicalJson B v = sbind (canonicalJson v) (\<lambda>t. Inr (sha256_hex B t))"

section \<open>What is printed, without the bounds\<close>

function json_data :: "js \<Rightarrow> nat \<Rightarrow> bool" where
  "json_data v depth \<longleftrightarrow> depth \<le> MAX_CANONICAL_DEPTH \<and>
     (case v of
        JUndef \<Rightarrow> False
      | JNum n \<Rightarrow> finite_number n
      | JArr xs \<Rightarrow> \<forall>x \<in> set xs. json_data x (depth + 1)
      | JObj kvs \<Rightarrow> \<forall>m \<in> set kvs. json_data (snd m) (depth + 1)
      | _ \<Rightarrow> True)"
  by pat_completeness auto
termination
  by (relation "measure (\<lambda>(v, d). size v)") (auto simp: less_Suc_eq_le intro: member_size element_size)

function canonical :: "js \<Rightarrow> js" where
  "canonical v =
     (case v of
        JArr xs \<Rightarrow> JArr (map canonical xs)
      | JObj kvs \<Rightarrow> JObj (sort_key fst (map (\<lambda>m. (fst m, canonical (snd m))) kvs))
      | _ \<Rightarrow> v)"
  by pat_completeness auto
termination
  by (relation "measure size") (auto simp: less_Suc_eq_le intro: member_size element_size)

function plain_text :: "js \<Rightarrow> string" where
  "plain_text v =
     (case v of
        JUndef \<Rightarrow> []
      | JNull \<Rightarrow> ''null''
      | JBool b \<Rightarrow> if b then ''true'' else ''false''
      | JNum n \<Rightarrow> json_number n
      | JStr s \<Rightarrow> json_string s
      | JArr xs \<Rightarrow> ''['' @ join '','' (map plain_text xs) @ '']''
      | JObj kvs \<Rightarrow> ''{'' @ join '','' (map (\<lambda>m. json_string (fst m) @ '':'' @ plain_text (snd m)) kvs) @ ''}'')"
  by pat_completeness auto
termination
  by (relation "measure size") (auto simp: less_Suc_eq_le intro: member_size element_size)

declare json_data.simps [simp del] canonical.simps [simp del] plain_text.simps [simp del]

lemmas json_data_eqs = json_data.simps[of JUndef] json_data.simps[of JNull] json_data.simps[of "JBool b" for b]
  json_data.simps[of "JNum n" for n] json_data.simps[of "JStr s" for s] json_data.simps[of "JArr xs" for xs]
  json_data.simps[of "JObj kvs" for kvs]

lemmas canonical_eqs = canonical.simps[of JUndef] canonical.simps[of JNull] canonical.simps[of "JBool b" for b]
  canonical.simps[of "JNum n" for n] canonical.simps[of "JStr s" for s] canonical.simps[of "JArr xs" for xs]
  canonical.simps[of "JObj kvs" for kvs]

lemmas plain_text_eqs = plain_text.simps[of JNull] plain_text.simps[of "JBool b" for b]
  plain_text.simps[of "JNum n" for n] plain_text.simps[of "JStr s" for s] plain_text.simps[of "JArr xs" for xs]
  plain_text.simps[of "JObj kvs" for kvs]

lemma insort_key_map_fst:
  "insort_key fst (fst m, f (snd m)) (map (\<lambda>m. (fst m, f (snd m))) ms) =
   map (\<lambda>m. (fst m, f (snd m))) (insort_key fst m ms)"
  by (induction ms) auto

lemma sort_key_map_fst: "sort_key fst (map (\<lambda>m. (fst m, f (snd m))) kvs) = map (\<lambda>m. (fst m, f (snd m))) (sort_key fst kvs)"
  by (induction kvs) (simp_all add: insort_key_map_fst)

lemma traverse_all_or_error:
  assumes "\<And>x. x \<in> set xs \<Longrightarrow> f x = (if P x then Inr (g x) else Inl e)"
  shows "traverse f xs = (if \<forall>x \<in> set xs. P x then Inr (map g xs) else Inl e)"
  using assms by (induction xs) auto

lemma canonicalize_eq:
  "canonicalize v d = (if json_data v d then Inr (plain_text (canonical v)) else Inl canonical_error)"
proof (induction v d rule: canonicalize.induct)
  case (1 v d)
  show ?case
  proof (cases "MAX_CANONICAL_DEPTH < d")
    case True
    then show ?thesis by (simp add: canonicalize.simps json_data.simps)
  next
    case d: False
    show ?thesis
    proof (cases v)
      case (JArr xs)
      have "traverse (\<lambda>x. canonicalize x (d + 1)) xs =
          (if \<forall>x \<in> set xs. json_data x (d + 1) then Inr (map (plain_text \<circ> canonical) xs) else Inl canonical_error)"
        using 1(1)[OF d JArr] by (intro traverse_all_or_error) simp
      with d JArr show ?thesis
        by (auto simp: canonicalize.simps[of "JArr xs"] json_data.simps[of "JArr xs"] canonical_eqs plain_text_eqs)
    next
      case (JObj kvs)
      let ?g = "\<lambda>m. (fst m, plain_text (canonical (snd m)))"
      have ih: "canonicalize (snd m) (d + 1) = (if json_data (snd m) (d + 1) then Inr (plain_text (canonical (snd m))) else Inl canonical_error)"
        if "m \<in> set kvs" for m
        using 1(2)[OF d JObj that, of "fst m" "snd m"] by (cases m) simp
      have "traverse (\<lambda>(k, x). sbind (canonicalize x (d + 1)) (\<lambda>t. Inr (k, t))) kvs =
          (if \<forall>m \<in> set kvs. json_data (snd m) (d + 1) then Inr (map ?g kvs) else Inl canonical_error)"
        using ih by (intro traverse_all_or_error) (simp add: case_prod_beta)
      moreover have "sort_key fst (map ?g kvs) = map (\<lambda>m. (fst m, plain_text (snd m))) (sort_key fst (map (\<lambda>m. (fst m, canonical (snd m))) kvs))"
        using sort_key_map_fst[of plain_text "map (\<lambda>m. (fst m, canonical (snd m))) kvs"] by (simp add: comp_def)
      ultimately show ?thesis using d JObj
        by (auto simp: canonicalize.simps[of "JObj kvs"] json_data.simps[of "JObj kvs"] canonical_eqs plain_text_eqs
            case_prod_beta comp_def)
    qed (use d in \<open>simp_all add: canonicalize.simps json_data.simps canonical_eqs plain_text_eqs\<close>)
  qed
qed

lemma json_data_canonical: "json_data (canonical v) d = json_data v d"
proof (induction v d rule: json_data.induct)
  case (1 v d)
  show ?case
    by (cases v) (use 1 in \<open>auto simp: canonical_eqs json_data_eqs\<close>)
qed

section \<open>The text determines the data\<close>

definition hex_value :: "char \<Rightarrow> nat" where
  "hex_value c = (if code c < 58 then code c - 48 else code c - 87)"

text \<open>Reading a printed string back, one character at a time.\<close>

definition read_char :: "string \<Rightarrow> char \<times> string" where
  "read_char t =
     (case t of
        c # r \<Rightarrow>
          if c \<noteq> CHR 0x5C then (c, r)
          else (case r of
              e # r' \<Rightarrow>
                if e = CHR ''b'' then (CHR 0x08, r') else if e = CHR ''t'' then (CHR 0x09, r')
                else if e = CHR ''n'' then (CHR 0x0A, r') else if e = CHR ''f'' then (CHR 0x0C, r')
                else if e = CHR ''r'' then (CHR 0x0D, r')
                else if e = CHR ''u'' then (char_of (16 * hex_value (r' ! 2) + hex_value (r' ! 3)), drop 4 r')
                else (e, r')
            | [] \<Rightarrow> (c, []))
      | [] \<Rightarrow> (CHR 0x00, []))"

lemma hex_value_digit: "n < 16 \<Longrightarrow> hex_value (hex_digit n) = n"
  by (auto simp: hex_value_def hex_digit_def code_def)

lemma read_json_char: "read_char (json_char c @ s) = (c, s)"
proof (cases "code c < 32")
  case True
  have "16 * (code c div 16) + code c mod 16 = code c" by simp
  then have "char_of (16 * hex_value (hex_digit (code c div 16)) + hex_value (hex_digit (code c mod 16))) = c"
    using True by (simp add: hex_value_digit code_def)
  with True show ?thesis by (auto simp: json_char_def read_char_def)
next
  case False
  then show ?thesis by (auto simp: json_char_def read_char_def code_def)
qed

lemma json_char_quote: "json_char c @ s \<noteq> CHR 0x22 # t"
  by (auto simp: json_char_def)

lemma json_body_unique:
  "concat (map json_char x) @ CHR 0x22 # s = concat (map json_char y) @ CHR 0x22 # t \<Longrightarrow> x = y \<and> s = t"
proof (induction x arbitrary: y)
  case Nil
  show ?case
  proof (cases y)
    case (Cons d y')
    with Nil json_char_quote[of d "concat (map json_char y') @ CHR 0x22 # t" s] show ?thesis by simp
  qed (use Nil in simp)
next
  case (Cons c x)
  show ?case
  proof (cases y)
    case Nil
    with Cons.prems json_char_quote[of c "concat (map json_char x) @ CHR 0x22 # s" t] show ?thesis by simp
  next
    case (Cons d y')
    with Cons.prems have "json_char c @ (concat (map json_char x) @ CHR 0x22 # s) = json_char d @ (concat (map json_char y') @ CHR 0x22 # t)"
      by simp
    then have "read_char (json_char c @ (concat (map json_char x) @ CHR 0x22 # s)) =
        read_char (json_char d @ (concat (map json_char y') @ CHR 0x22 # t))"
      by (rule arg_cong)
    then have "c = d \<and> concat (map json_char x) @ CHR 0x22 # s = concat (map json_char y') @ CHR 0x22 # t"
      by (simp only: read_json_char prod.inject)
    with Cons.IH[of y'] Cons show ?thesis by simp
  qed
qed

lemma json_string_unique: "json_string x @ s = json_string y @ t \<Longrightarrow> x = y \<and> s = t"
  using json_body_unique[of x s y t] by (simp add: json_string_def)

text \<open>Numbers end where a delimiter or the end of the text begins.\<close>

definition is_number_char :: "char \<Rightarrow> bool" where
  "is_number_char c \<longleftrightarrow> is_digit_char c \<or> c \<in> {CHR ''-'', CHR ''+'', CHR ''.'', CHR ''e''}"

definition number_ok :: "jnum \<Rightarrow> bool" where
  "number_ok n =
     (case n of
        NText t \<Rightarrow> t \<noteq> [] \<and> (hd t = CHR ''-'' \<or> is_digit_char (hd t)) \<and> (\<forall>c \<in> set t. is_number_char c) \<and> (\<forall>i. t \<noteq> int_text i)
      | _ \<Rightarrow> True)"

definition delimited :: "string \<Rightarrow> bool" where
  "delimited s \<longleftrightarrow> s = [] \<or> hd s \<in> {CHR '','', CHR '']'', CHR ''}''}"

lemma nat_text_nonempty: "nat_text n \<noteq> []"
  by (subst nat_text.simps) simp

lemma int_text_chars: "c \<in> set (int_text i) \<Longrightarrow> is_number_char c"
  by (auto simp: int_text_def is_number_char_def dest: nat_text_digits split: if_splits)

lemma int_text_hd: "int_text i \<noteq> [] \<and> (hd (int_text i) = CHR ''-'' \<or> is_digit_char (hd (int_text i)))"
  using nat_text_nonempty by (auto simp: int_text_def intro: nat_text_digits[of _ "nat i"])

lemma int_text_eq: "int_text i = int_text j \<Longrightarrow> i = j"
proof -
  have minus: "CHR ''-'' # t \<noteq> nat_text n" for t n
  proof
    assume "CHR ''-'' # t = nat_text n"
    then have "CHR ''-'' \<in> set (nat_text n)" by (metis list.set_intros(1))
    then have "is_digit_char (CHR ''-'')" by (rule nat_text_digits)
    then show False by (simp add: is_digit_char_def code_def)
  qed
  assume "int_text i = int_text j"
  then show ?thesis using minus by (auto simp: int_text_def split: if_splits dest: sym)
qed

lemma json_number_facts:
  assumes "finite_number n" and "number_ok n"
  shows "json_number n \<noteq> []" and "hd (json_number n) = CHR ''-'' \<or> is_digit_char (hd (json_number n))"
    and "\<forall>c \<in> set (json_number n). is_number_char c"
  using assms int_text_hd int_text_chars
  by (auto simp: finite_number_def number_ok_def json_number_def split: jnum.splits)

lemma number_prefix:
  assumes "\<forall>c \<in> set x. is_number_char c" and "delimited s"
  shows "takeWhile is_number_char (x @ s) = x"
proof -
  have "takeWhile is_number_char s = []"
    using assms(2) by (cases s) (auto simp: delimited_def is_number_char_def is_digit_char_def code_def)
  then show ?thesis using assms(1) by (simp add: takeWhile_append)
qed

lemma json_number_unique:
  assumes "json_number m @ s = json_number n @ t" and "delimited s" and "delimited t"
    and m: "finite_number m" "number_ok m" and n: "finite_number n" "number_ok n"
  shows "m = n \<and> s = t"
proof -
  have e: "json_number m = json_number n"
    using assms(1) number_prefix[OF json_number_facts(3)[OF m] assms(2)]
      number_prefix[OF json_number_facts(3)[OF n] assms(3)] by simp
  with assms(1) have "s = t" by simp
  moreover have "m = n" using e m n
    by (cases m; cases n) (auto simp: json_number_def finite_number_def number_ok_def dest: int_text_eq int_text_eq[OF sym])
  ultimately show ?thesis by simp
qed


text \<open>The elements of an array and the members of an object, each with its own printer.\<close>

lemma join_eq: "join sep (w # ws) = w @ concat (map (\<lambda>v. sep @ v) ws)"
  by (induction ws arbitrary: w) simp_all

text \<open>The text after an item starts with a comma or a closing bracket.\<close>

lemma items_tail_unique:
  assumes f: "\<And>x y s t. x \<in> set xs \<Longrightarrow> Q y \<Longrightarrow> delimited s \<Longrightarrow> delimited t \<Longrightarrow> f x @ s = f y @ t \<Longrightarrow> x = y \<and> s = t"
    and z: "z \<in> {CHR '']'', CHR ''}''}" and ys: "\<forall>y \<in> set ys. Q y"
    and eq: "concat (map (\<lambda>x. CHR '','' # f x) xs) @ z # s = concat (map (\<lambda>x. CHR '','' # f x) ys) @ z # t"
  shows "xs = ys \<and> s = t"
  using f ys eq
proof (induction xs arbitrary: ys)
  case Nil
  then show ?case using z by (cases ys) auto
next
  case (Cons x xs)
  let ?tail = "\<lambda>us r. concat (map (\<lambda>x. CHR '','' # f x) us) @ z # r"
  have delim: "delimited (?tail us r)" for us r
    using z by (cases us) (auto simp: delimited_def)
  show ?case
  proof (cases ys)
    case Nil
    with Cons.prems(3) z show ?thesis by auto
  next
    case (Cons y ys')
    have "f x @ ?tail xs s = f y @ ?tail ys' t"
      using Cons.prems(3) Cons by simp
    then have "x = y \<and> ?tail xs s = ?tail ys' t"
      using Cons.prems(1,2) Cons delim by (intro Cons.prems(1)) auto
    with Cons.IH[of ys'] Cons.prems(1,2) Cons show ?thesis by auto
  qed
qed

lemma items_unique:
  assumes f: "\<And>x y s t. x \<in> set xs \<Longrightarrow> Q y \<Longrightarrow> delimited s \<Longrightarrow> delimited t \<Longrightarrow> f x @ s = f y @ t \<Longrightarrow> x = y \<and> s = t"
    and ne: "\<And>x. x \<in> set xs \<union> set ys \<Longrightarrow> \<not> delimited (f x)"
    and z: "z \<in> {CHR '']'', CHR ''}''}" and ys: "\<forall>y \<in> set ys. Q y"
    and eq: "join '','' (map f xs) @ z # s = join '','' (map f ys) @ z # t"
  shows "xs = ys \<and> s = t"
proof -
  have start: "f x @ r \<noteq> z # r'" if "x \<in> set xs \<union> set ys" for x r r'
    using ne[OF that] z by (cases "f x") (auto simp: delimited_def)
  let ?tail = "\<lambda>us r. concat (map (\<lambda>x. CHR '','' # f x) us) @ z # r"
  have tail: "join '','' (map f (u # us)) @ z # r = f u @ ?tail us r" for u us r
    by (simp add: join_eq comp_def)
  have delim: "delimited (?tail us r)" for us r
    using z by (cases us) (auto simp: delimited_def)
  show ?thesis
  proof (cases xs)
    case Nil
    then show ?thesis
    proof (cases ys)
      case (Cons y ys')
      from eq Nil have "f y @ ?tail ys' t = z # s" unfolding Cons tail by simp
      with start[of y] Cons show ?thesis by auto
    qed (use eq in simp)
  next
    case (Cons x xs')
    show ?thesis
    proof (cases ys)
      case Nil
      from eq Nil have "f x @ ?tail xs' s = z # t" unfolding Cons tail by simp
      with start[of x] Cons show ?thesis by auto
    next
      case ys': (Cons y ys')
      from eq have "f x @ ?tail xs' s = f y @ ?tail ys' t" unfolding Cons ys' tail .
      then have xy: "x = y \<and> ?tail xs' s = ?tail ys' t"
        using f[of x y] Cons ys' ys delim by auto
      have "xs' = ys' \<and> s = t"
        by (rule items_tail_unique[where f = f and Q = Q]) (use f z ys Cons ys' xy in auto)
      with xy Cons ys' show ?thesis by simp
    qed
  qed
qed

text \<open>The first character of a text shows which kind of value it prints.\<close>

definition first_kind :: "char \<Rightarrow> nat" where
  "first_kind c =
     (if c = CHR ''n'' then 0 else if c = CHR ''t'' then 1 else if c = CHR ''f'' then 2
      else if c = CHR 0x22 then 3 else if c = CHR ''['' then 4 else if c = CHR ''{'' then 5 else 6)"

definition js_kind :: "js \<Rightarrow> nat" where
  "js_kind v =
     (case v of JNull \<Rightarrow> 0 | JBool b \<Rightarrow> if b then 1 else 2 | JStr _ \<Rightarrow> 3 | JArr _ \<Rightarrow> 4 | JObj _ \<Rightarrow> 5 | _ \<Rightarrow> 6)"

function numbers_ok :: "js \<Rightarrow> bool" where
  "numbers_ok v =
     (case v of
        JNum n \<Rightarrow> number_ok n
      | JArr xs \<Rightarrow> \<forall>x \<in> set xs. numbers_ok x
      | JObj kvs \<Rightarrow> \<forall>m \<in> set kvs. numbers_ok (snd m)
      | _ \<Rightarrow> True)"
  by pat_completeness auto
termination
  by (relation "measure size") (auto simp: less_Suc_eq_le intro: member_size element_size)

declare numbers_ok.simps [simp del]

lemmas numbers_ok_eqs = numbers_ok.simps[of JUndef] numbers_ok.simps[of JNull] numbers_ok.simps[of "JBool b" for b]
  numbers_ok.simps[of "JNum n" for n] numbers_ok.simps[of "JStr s" for s] numbers_ok.simps[of "JArr xs" for xs]
  numbers_ok.simps[of "JObj kvs" for kvs]

lemma not_digit:
  "\<not> is_digit_char (CHR ''n'')" "\<not> is_digit_char (CHR ''t'')" "\<not> is_digit_char (CHR ''f'')"
  "\<not> is_digit_char (CHR 0x22)" "\<not> is_digit_char (CHR ''['')" "\<not> is_digit_char (CHR ''{'')"
  "\<not> is_digit_char (CHR '','')" "\<not> is_digit_char (CHR '']'')" "\<not> is_digit_char (CHR ''}'')"
  by (simp_all add: is_digit_char_def code_def)

lemma digit_kind: "c = CHR ''-'' \<or> is_digit_char c \<Longrightarrow> first_kind c = 6 \<and> c \<notin> {CHR '','', CHR '']'', CHR ''}''}"
  by (rule disjE, assumption) (simp add: first_kind_def, use not_digit in \<open>auto simp: first_kind_def\<close>)

lemma plain_text_start:
  assumes "json_data v d" and "numbers_ok v"
  shows "plain_text v \<noteq> [] \<and> first_kind (hd (plain_text v)) = js_kind v \<and> \<not> delimited (plain_text v)"
proof (cases v)
  case (JNum n)
  with assms have n: "finite_number n" "number_ok n" by (simp_all add: json_data_eqs numbers_ok_eqs)
  from json_number_facts(1,2)[OF n] digit_kind JNum show ?thesis
    by (auto simp: plain_text_eqs js_kind_def delimited_def)
qed (use assms in \<open>auto simp: plain_text_eqs js_kind_def delimited_def first_kind_def json_data_eqs json_string_def\<close>)

lemma plain_text_unique:
  "\<lbrakk>json_data a d; json_data b e; numbers_ok a; numbers_ok b; delimited s; delimited t;
    plain_text a @ s = plain_text b @ t\<rbrakk> \<Longrightarrow> a = b \<and> s = t"
proof (induction a arbitrary: b d e s t rule: plain_text.induct)
  case (1 a)
  note eq = 1(9)
  have "hd (plain_text a) = hd (plain_text b)"
    using eq plain_text_start[OF 1(3,5)] plain_text_start[OF 1(4,6)] by (metis hd_append2)
  then have kind: "js_kind a = js_kind b"
    using plain_text_start[OF 1(3,5)] plain_text_start[OF 1(4,6)] by metis
  show ?case
  proof (cases a)
    case (JNum m)
    with kind 1(4) obtain n where b: "b = JNum n"
      by (cases b) (auto simp: js_kind_def json_data_eqs split: if_splits)
    from json_number_unique[of m s n t] JNum b 1 show ?thesis
      by (simp add: json_data_eqs numbers_ok_eqs plain_text_eqs)
  next
    case (JStr x)
    with kind obtain y where "b = JStr y" by (cases b) (auto simp: js_kind_def split: if_splits)
    with eq JStr json_string_unique[of x s y t] show ?thesis by (simp add: plain_text_eqs)
  next
    case (JArr xs)
    with kind obtain ys where b: "b = JArr ys" by (cases b) (auto simp: js_kind_def split: if_splits)
    have "xs = ys \<and> s = t"
    proof (rule items_unique[where f = plain_text and z = "CHR '']''" and Q = "\<lambda>y. json_data y (Suc e) \<and> numbers_ok y"])
      show "x = y \<and> u = v" if "x \<in> set xs" "json_data y (Suc e) \<and> numbers_ok y" "delimited u" "delimited v"
        "plain_text x @ u = plain_text y @ v" for x y u v
        using 1(1)[OF JArr that(1), of "Suc d" y "Suc e" u v] that 1(3,5) JArr
        by (simp add: json_data_eqs numbers_ok_eqs)
      show "\<not> delimited (plain_text x)" if "x \<in> set xs \<union> set ys" for x
        using that 1(3-6) JArr b plain_text_start[of x "Suc d"] plain_text_start[of x "Suc e"]
        by (auto simp: json_data_eqs numbers_ok_eqs)
    qed (use 1(4,6) eq JArr b in \<open>auto simp: json_data_eqs numbers_ok_eqs plain_text_eqs\<close>)
    with JArr b show ?thesis by simp
  next
    case (JObj ms)
    let ?f = "\<lambda>m. json_string (fst m) @ '':'' @ plain_text (snd m)"
    from JObj kind obtain ns where b: "b = JObj ns" by (cases b) (auto simp: js_kind_def split: if_splits)
    have "ms = ns \<and> s = t"
    proof (rule items_unique[where f = ?f and z = "CHR ''}''" and Q = "\<lambda>n. json_data (snd n) (Suc e) \<and> numbers_ok (snd n)"])
      show "m = n \<and> u = v" if "m \<in> set ms" "json_data (snd n) (Suc e) \<and> numbers_ok (snd n)" "delimited u" "delimited v"
        "?f m @ u = ?f n @ v" for m n u v
      proof -
        from that(5) json_string_unique[of "fst m" "'':'' @ plain_text (snd m) @ u" "fst n" "'':'' @ plain_text (snd n) @ v"]
        have m: "fst m = fst n" "plain_text (snd m) @ u = plain_text (snd n) @ v" by simp_all
        from 1(2)[OF JObj that(1) _ _ _ _ that(3,4) m(2), of "Suc d" "Suc e"] m(1) that(1,2) 1(3,5) JObj
        show ?thesis by (auto simp: json_data_eqs numbers_ok_eqs prod_eq_iff)
      qed
      show "\<not> delimited (?f m)" if "m \<in> set ms \<union> set ns" for m
        by (simp add: delimited_def json_string_def)
    qed (use 1(4,6) eq JObj b in \<open>auto simp: json_data_eqs numbers_ok_eqs plain_text_eqs\<close>)
    with JObj b show ?thesis by simp
  qed (use kind eq 1(3) in \<open>cases b; auto simp: js_kind_def plain_text_eqs json_data_eqs split: if_splits\<close>)+
qed

lemma numbers_ok_canonical: "numbers_ok (canonical v) = numbers_ok v"
proof (induction v rule: canonical.induct)
  case (1 v)
  show ?case by (cases v) (use 1 in \<open>auto simp: canonical_eqs numbers_ok_eqs\<close>)
qed

lemma canonicalJson_eq_Inr:
  "canonicalJson v = Inr t \<longleftrightarrow> json_data v 0 \<and> t = plain_text (canonical v) \<and> utf8_bytes t \<le> MAX_CANONICAL_JSON_BYTES"
  by (auto simp: canonicalJson_def canonicalize_eq not_less)

lemma canonicalJson_unique:
  assumes "canonicalJson v = Inr t" and "canonicalJson w = Inr u" and "numbers_ok v" and "numbers_ok w"
  shows "t = u \<longleftrightarrow> canonical v = canonical w"
proof
  assume "t = u"
  with assms have "plain_text (canonical v) @ [] = plain_text (canonical w) @ []"
    and "json_data v 0" and "json_data w 0" by (simp_all add: canonicalJson_eq_Inr)
  with assms plain_text_unique[of "canonical v" 0 "canonical w" 0 "[]" "[]"] show "canonical v = canonical w"
    by (simp add: json_data_canonical numbers_ok_canonical delimited_def)
qed (use assms in \<open>simp add: canonicalJson_eq_Inr\<close>)

section \<open>Property\<close>

text \<open>
  Claim C37 (canonical_text_identifies). The canonical text identifies the data: two values that can be printed have the
  same text exactly when they are equal up to the order of the members of their objects, at
  every depth. No two different payloads share the text a digest is taken of, and the order in
  which an object was built has no influence on it.
\<close>

theorem canonical_text_identifies:
  assumes "canonicalJson v = Inr t" and "canonicalJson w = Inr u" and "numbers_ok v" and "numbers_ok w"
  shows "t = u \<longleftrightarrow> canonical v = canonical w"
  using canonicalJson_unique[OF assms] .

definition sample_value :: js where
  "sample_value = JObj [(''b'', JNum (NInt (- 12))), (''a'', JArr [JBool True, JNull, JStr ''x'']), (''ab'', JObj [])]"

definition sample_reordered :: js where
  "sample_reordered = JObj [(''ab'', JObj []), (''b'', JNum (NInt (- 12))), (''a'', JArr [JBool True, JNull, JStr ''x''])]"

definition sample_text :: string where
  "sample_text = ''{'' @ json_string ''a'' @ '':[true,null,'' @ json_string ''x'' @ ''],'' @ json_string ''ab'' @ '':{},'' @
     json_string ''b'' @ '':-12}''"

theorem canonical_text_identifies_witness: "canonical sample_value = canonical sample_reordered"
proof -
  have v: "canonicalJson sample_value = Inr sample_text" by code_simp
  have w: "canonicalJson sample_reordered = Inr sample_text" by code_simp
  have "numbers_ok sample_value" "numbers_ok sample_reordered"
    by (simp_all add: sample_value_def sample_reordered_def numbers_ok_eqs number_ok_def)
  from canonical_text_identifies[OF v w this] show ?thesis by simp
qed

end
