(* ===== verification/Bridge.thy ===== *)
theory Bridge
  imports Canonical WorkflowTypes
begin

text \<open>
  The links between session entries and workflow checkpoints: \<open>src/src/bridge/types.ts\<close>,
  \<open>contract-validation.ts\<close> and \<open>codec.ts\<close>. Every decoder is the composition of the same
  field readers in the order of the source, and throws a \<open>BridgeContractError\<close> that names
  the field. Decoding accepts well-formed links only, and inverts encoding.
\<close>

section \<open>Types\<close>

record repositorySnapshotRef =
  rsSnapshotId :: string
  rsBaselineHead :: "string option"

datatype managedWorktreeRef =
    CandidateWorktree int string string
  | ForkWorktree string string

record sessionCheckpointLink =
  slThreadId :: string
  slCheckpointId :: string
  slLabel :: semanticLabel
  slRepositorySnapshot :: repositorySnapshotRef
  slManagedWorktree :: "managedWorktreeRef option"
  slReplayFingerprint :: string
  slEffectLedgerDigest :: string

record backtrackRequest =
  brRequestId :: string
  brSessionId :: string
  brEntryId :: string
  brLink :: sessionCheckpointLink

datatype blockedCause = IncompatibleReplay | UnsafeEffects | SourceChanged
datatype rejectedCause = InvalidRequest | MissingLinkCause

datatype backtrackOutcome =
    OutcomePromoted string int
  | OutcomeBlocked string blockedCause
  | OutcomeRejected string rejectedCause

definition PI_CHECKPOINT_LINK_ENTRY_TYPE :: string where
  "PI_CHECKPOINT_LINK_ENTRY_TYPE = ''pi-langgraph/checkpoint-link''"

definition BRIDGE_PROTOCOL_VERSION :: js where
  "BRIDGE_PROTOCOL_VERSION = JNum (NInt 1)"

fun label_text :: "semanticLabel \<Rightarrow> string" where
  "label_text PostDiscovery = ''post-discovery''"
| "label_text PreMutation = ''pre-mutation''"
| "label_text LastKnownGreen = ''last-known-green''"
| "label_text PostRepair = ''post-repair''"

definition SEMANTIC_CHECKPOINT_LABELS :: "semanticLabel list" where
  "SEMANTIC_CHECKPOINT_LABELS = [PostDiscovery, PreMutation, LastKnownGreen, PostRepair]"

section \<open>Reading the fields\<close>

definition SHA256 :: "string \<Rightarrow> bool" where "SHA256 = hex_text 64"

definition GIT_HEAD :: "string \<Rightarrow> bool" where "GIT_HEAD s \<longleftrightarrow> hex_text 40 s \<or> hex_text 64 s"

definition IDENTIFIER :: "string \<Rightarrow> bool" where
  "IDENTIFIER = lexical is_alnum_char
     (\<lambda>c. is_alnum_char c \<or> c \<in> {CHR ''.'', CHR ''_'', CHR '':'', CHR ''/'', CHR ''-''}) 2047"

definition CANDIDATE_WORKTREE_ID :: "string \<Rightarrow> bool" where
  "CANDIDATE_WORKTREE_ID s \<longleftrightarrow> s \<in> {''candidate-0'', ''candidate-1''}"

text \<open>
  \<open>/^\/(?:[^/]+(?:\/|$))*$/\<close>: a slash, then segments that are not empty, each followed by a
  slash or the end; only the text after the last slash may be empty.
\<close>

definition ABSOLUTE_PATH :: "string \<Rightarrow> bool" where
  "ABSOLUTE_PATH s \<longleftrightarrow> s \<noteq> [] \<and> hd s = CHR ''/'' \<and> (\<forall>w \<in> set (butlast (split_on (CHR ''/'') (tl s))). w \<noteq> [])"

definition contract_fail :: "contract_code \<Rightarrow> string \<Rightarrow> 'a result" where
  "contract_fail c field = Inl (BridgeContractError c field)"

definition parseEncodedPayload :: "builtins \<Rightarrow> js \<Rightarrow> js result" where
  "parseEncodedPayload B v =
     (case v of
        JStr s \<Rightarrow>
          if MAX_CANONICAL_JSON_BYTES < utf8_bytes s then contract_fail InvalidPayload ''payload''
          else (case json_parse B s of None \<Rightarrow> contract_fail InvalidPayload ''payload'' | Some x \<Rightarrow> Inr x)
      | _ \<Rightarrow> Inr v)"

definition requireRecord :: "js \<Rightarrow> string \<Rightarrow> js result" where
  "requireRecord v field = (if is_record v then Inr v else contract_fail InvalidPayload field)"

definition requireExactFields :: "js \<Rightarrow> string list \<Rightarrow> string list \<Rightarrow> string \<Rightarrow> unit result" where
  "requireExactFields r allowed optional field =
     (case List.find (\<lambda>k. k \<notin> set allowed) (keys_of r) of
        Some k \<Rightarrow> contract_fail UnknownField (field @ ''.'' @ k)
      | None \<Rightarrow>
          (case List.find (\<lambda>k. k \<notin> set optional \<and> k \<notin> set (keys_of r)) allowed of
             Some k \<Rightarrow> contract_fail InvalidPayload (field @ ''.'' @ k)
           | None \<Rightarrow> Inr ()))"

definition requireVersion :: "js \<Rightarrow> string \<Rightarrow> unit result" where
  "requireVersion v field = (if v \<noteq> BRIDGE_PROTOCOL_VERSION then contract_fail UnsupportedVersion field else Inr ())"

definition contract_identifier :: "js \<Rightarrow> string \<Rightarrow> string result" where
  "contract_identifier v field =
     (case v of JStr s \<Rightarrow> if IDENTIFIER s then Inr s else contract_fail InvalidIdentifier field
      | _ \<Rightarrow> contract_fail InvalidIdentifier field)"

definition parse_label :: "js \<Rightarrow> semanticLabel result" where
  "parse_label v =
     (case List.find (\<lambda>l. v = JStr (label_text l)) SEMANTIC_CHECKPOINT_LABELS of
        Some l \<Rightarrow> Inr l | None \<Rightarrow> contract_fail InvalidPayload ''label'')"

definition contract_digest :: "js \<Rightarrow> string \<Rightarrow> string result" where
  "contract_digest v field =
     (case v of JStr s \<Rightarrow> if SHA256 s then Inr s else contract_fail InvalidDigest field
      | _ \<Rightarrow> contract_fail InvalidDigest field)"

definition gitHead :: "js \<Rightarrow> string \<Rightarrow> string option result" where
  "gitHead v field =
     (case v of JNull \<Rightarrow> Inr None
      | JStr s \<Rightarrow> if GIT_HEAD s then Inr (Some s) else contract_fail InvalidIdentifier field
      | _ \<Rightarrow> contract_fail InvalidIdentifier field)"

definition parse_candidate :: "js \<Rightarrow> int result" where
  "parse_candidate v =
     (if v = JNum (NInt 0) then Inr 0 else if v = JNum (NInt 1) then Inr 1
      else contract_fail InvalidCandidateIndex ''managedWorktree.candidateIndex'')"

definition blockedReason :: "js \<Rightarrow> blockedCause result" where
  "blockedReason v =
     (if v = JStr ''incompatible-replay'' then Inr IncompatibleReplay
      else if v = JStr ''unsafe-effects'' then Inr UnsafeEffects
      else if v = JStr ''source-changed'' then Inr SourceChanged
      else contract_fail InvalidPayload ''backtrackOutcome.reason'')"

definition rejectedReason :: "js \<Rightarrow> rejectedCause result" where
  "rejectedReason v =
     (if v = JStr ''invalid-request'' then Inr InvalidRequest
      else if v = JStr ''missing-link'' then Inr MissingLinkCause
      else contract_fail InvalidPayload ''backtrackOutcome.reason'')"

definition parse_worktreeId :: "js \<Rightarrow> string result" where
  "parse_worktreeId v =
     (case v of
        JStr s \<Rightarrow> if CANDIDATE_WORKTREE_ID s then Inr s else contract_fail InvalidIdentifier ''managedWorktree.worktreeId''
      | _ \<Rightarrow> contract_fail InvalidIdentifier ''managedWorktree.worktreeId'')"

definition managed_path_ok :: "string \<Rightarrow> bool" where
  "managed_path_ok s \<longleftrightarrow> s \<noteq> [] \<and> length s \<le> 4096 \<and> ABSOLUTE_PATH s \<and>
     \<not> list_ex (\<lambda>w. w \<in> {[], ''.'', ''..''}) (tl (split_on (CHR ''/'') s))"

definition managedPath :: "js \<Rightarrow> string result" where
  "managedPath v =
     (case v of JStr s \<Rightarrow> if managed_path_ok s then Inr s else contract_fail InvalidPath ''managedWorktree.path''
      | _ \<Rightarrow> contract_fail InvalidPath ''managedWorktree.path'')"

section \<open>Decoders\<close>

definition decodeRepositorySnapshotRef :: "js \<Rightarrow> repositorySnapshotRef result" where
  "decodeRepositorySnapshotRef v =
     sbind (requireRecord v ''repositorySnapshot'') (\<lambda>r.
     sbind (requireExactFields r [''protocolVersion'', ''snapshotId'', ''baselineHead''] [] ''repositorySnapshot'') (\<lambda>_.
     sbind (requireVersion (jget r ''protocolVersion'') ''repositorySnapshot.protocolVersion'') (\<lambda>_.
     sbind (contract_digest (jget r ''snapshotId'') ''repositorySnapshot.snapshotId'') (\<lambda>sid.
     sbind (gitHead (jget r ''baselineHead'') ''repositorySnapshot.baselineHead'') (\<lambda>head.
     Inr \<lparr>rsSnapshotId = sid, rsBaselineHead = head\<rparr>)))))"

definition decodeManagedWorktreeRef :: "js \<Rightarrow> managedWorktreeRef result" where
  "decodeManagedWorktreeRef v =
     sbind (requireRecord v ''managedWorktree'') (\<lambda>r.
     sbind (requireVersion (jget r ''protocolVersion'') ''managedWorktree.protocolVersion'') (\<lambda>_.
     if jget r ''kind'' = JStr ''candidate'' then
       sbind (requireExactFields r [''protocolVersion'', ''kind'', ''candidateIndex'', ''worktreeId'', ''path''] [] ''managedWorktree'') (\<lambda>_.
       sbind (parse_candidate (jget r ''candidateIndex'')) (\<lambda>i.
       sbind (parse_worktreeId (jget r ''worktreeId'')) (\<lambda>w.
       if w \<noteq> ''candidate-'' @ int_text i then contract_fail InvalidIdentifier ''managedWorktree.worktreeId''
       else sbind (managedPath (jget r ''path'')) (\<lambda>p. Inr (CandidateWorktree i w p)))))
     else if jget r ''kind'' = JStr ''fork'' then
       sbind (requireExactFields r [''protocolVersion'', ''kind'', ''forkThreadId'', ''path''] [] ''managedWorktree'') (\<lambda>_.
       sbind (contract_identifier (jget r ''forkThreadId'') ''managedWorktree.forkThreadId'') (\<lambda>t.
       sbind (managedPath (jget r ''path'')) (\<lambda>p. Inr (ForkWorktree t p))))
     else contract_fail InvalidPayload ''managedWorktree.kind''))"

definition decodeSessionCheckpointLink :: "builtins \<Rightarrow> js \<Rightarrow> sessionCheckpointLink result" where
  "decodeSessionCheckpointLink B v =
     sbind (parseEncodedPayload B v) (\<lambda>x.
     sbind (requireRecord x ''payload'') (\<lambda>r.
     sbind (requireExactFields r
       [''protocolVersion'', ''entryType'', ''threadId'', ''checkpointId'', ''label'', ''repositorySnapshot'',
        ''managedWorktree'', ''replayFingerprint'', ''effectLedgerDigest''] [''managedWorktree''] ''payload'') (\<lambda>_.
     sbind (requireVersion (jget r ''protocolVersion'') ''protocolVersion'') (\<lambda>_.
     if jget r ''entryType'' \<noteq> JStr PI_CHECKPOINT_LINK_ENTRY_TYPE then contract_fail InvalidPayload ''entryType''
     else
     sbind (decodeRepositorySnapshotRef (jget r ''repositorySnapshot'')) (\<lambda>snapshot.
     sbind (if jget r ''managedWorktree'' = JUndef then Inr None
            else sbind (decodeManagedWorktreeRef (jget r ''managedWorktree'')) (\<lambda>w. Inr (Some w))) (\<lambda>worktree.
     sbind (contract_identifier (jget r ''threadId'') ''threadId'') (\<lambda>thread.
     sbind (contract_identifier (jget r ''checkpointId'') ''checkpointId'') (\<lambda>checkpoint.
     sbind (parse_label (jget r ''label'')) (\<lambda>label.
     sbind (contract_digest (jget r ''replayFingerprint'') ''replayFingerprint'') (\<lambda>fingerprint.
     sbind (contract_digest (jget r ''effectLedgerDigest'') ''effectLedgerDigest'') (\<lambda>ledger.
     Inr \<lparr>slThreadId = thread, slCheckpointId = checkpoint, slLabel = label, slRepositorySnapshot = snapshot,
           slManagedWorktree = worktree, slReplayFingerprint = fingerprint, slEffectLedgerDigest = ledger\<rparr>)))))))))))"

definition decodeBacktrackRequest :: "builtins \<Rightarrow> js \<Rightarrow> backtrackRequest result" where
  "decodeBacktrackRequest B v =
     sbind (parseEncodedPayload B v) (\<lambda>x.
     sbind (requireRecord x ''backtrackRequest'') (\<lambda>r.
     sbind (requireExactFields r
       [''protocolVersion'', ''requestId'', ''sessionId'', ''entryId'', ''link'', ''candidateIndices''] [] ''backtrackRequest'') (\<lambda>_.
     sbind (requireVersion (jget r ''protocolVersion'') ''backtrackRequest.protocolVersion'') (\<lambda>_.
     if jget r ''candidateIndices'' \<noteq> JArr [JNum (NInt 0), JNum (NInt 1)]
     then contract_fail InvalidCandidateIndex ''backtrackRequest.candidateIndices''
     else
     sbind (contract_identifier (jget r ''requestId'') ''backtrackRequest.requestId'') (\<lambda>request.
     sbind (contract_identifier (jget r ''sessionId'') ''backtrackRequest.sessionId'') (\<lambda>session.
     sbind (contract_identifier (jget r ''entryId'') ''backtrackRequest.entryId'') (\<lambda>entry.
     sbind (decodeSessionCheckpointLink B (jget r ''link'')) (\<lambda>link.
     Inr \<lparr>brRequestId = request, brSessionId = session, brEntryId = entry, brLink = link\<rparr>))))))))"

definition decodeBacktrackOutcome :: "builtins \<Rightarrow> js \<Rightarrow> backtrackOutcome result" where
  "decodeBacktrackOutcome B v =
     sbind (parseEncodedPayload B v) (\<lambda>x.
     sbind (requireRecord x ''backtrackOutcome'') (\<lambda>r.
     sbind (requireVersion (jget r ''protocolVersion'') ''backtrackOutcome.protocolVersion'') (\<lambda>_.
     sbind (contract_identifier (jget r ''requestId'') ''backtrackOutcome.requestId'') (\<lambda>request.
     if jget r ''kind'' = JStr ''promoted'' then
       sbind (requireExactFields r [''protocolVersion'', ''kind'', ''requestId'', ''candidateIndex''] [] ''backtrackOutcome'') (\<lambda>_.
       sbind (parse_candidate (jget r ''candidateIndex'')) (\<lambda>i. Inr (OutcomePromoted request i)))
     else if jget r ''kind'' = JStr ''blocked'' then
       sbind (requireExactFields r [''protocolVersion'', ''kind'', ''requestId'', ''reason''] [] ''backtrackOutcome'') (\<lambda>_.
       sbind (blockedReason (jget r ''reason'')) (\<lambda>c. Inr (OutcomeBlocked request c)))
     else if jget r ''kind'' = JStr ''rejected'' then
       sbind (requireExactFields r [''protocolVersion'', ''kind'', ''requestId'', ''reason''] [] ''backtrackOutcome'') (\<lambda>_.
       sbind (rejectedReason (jget r ''reason'')) (\<lambda>c. Inr (OutcomeRejected request c)))
     else contract_fail InvalidPayload ''backtrackOutcome.kind''))))"

section \<open>Encoding\<close>

text \<open>The objects the decoders return, as \<open>canonicalJson\<close> and \<open>JSON.stringify\<close> see them.\<close>

definition snapshot_object :: "repositorySnapshotRef \<Rightarrow> js" where
  "snapshot_object s = JObj
     [(''protocolVersion'', BRIDGE_PROTOCOL_VERSION), (''snapshotId'', JStr (rsSnapshotId s)),
      (''baselineHead'', case rsBaselineHead s of None \<Rightarrow> JNull | Some h \<Rightarrow> JStr h)]"

fun worktree_object :: "managedWorktreeRef \<Rightarrow> js" where
  "worktree_object (CandidateWorktree i w p) = JObj
     [(''protocolVersion'', BRIDGE_PROTOCOL_VERSION), (''kind'', JStr ''candidate''), (''candidateIndex'', JNum (NInt i)),
      (''worktreeId'', JStr w), (''path'', JStr p)]"
| "worktree_object (ForkWorktree t p) = JObj
     [(''protocolVersion'', BRIDGE_PROTOCOL_VERSION), (''kind'', JStr ''fork''), (''forkThreadId'', JStr t), (''path'', JStr p)]"

definition link_object :: "sessionCheckpointLink \<Rightarrow> js" where
  "link_object l = JObj
     ([(''protocolVersion'', BRIDGE_PROTOCOL_VERSION), (''entryType'', JStr PI_CHECKPOINT_LINK_ENTRY_TYPE),
       (''threadId'', JStr (slThreadId l)), (''checkpointId'', JStr (slCheckpointId l)),
       (''label'', JStr (label_text (slLabel l))), (''repositorySnapshot'', snapshot_object (slRepositorySnapshot l)),
       (''replayFingerprint'', JStr (slReplayFingerprint l)), (''effectLedgerDigest'', JStr (slEffectLedgerDigest l))] @
      (case slManagedWorktree l of None \<Rightarrow> [] | Some w \<Rightarrow> [(''managedWorktree'', worktree_object w)]))"

definition encodeSessionCheckpointLink :: "sessionCheckpointLink \<Rightarrow> string result" where
  "encodeSessionCheckpointLink l = canonicalJson (link_object l)"

definition piCheckpointDisplayLabel :: "sessionCheckpointLink \<Rightarrow> string" where
  "piCheckpointDisplayLabel l =
     ''lg:'' @ label_text (slLabel l) @ '':'' @ slThreadId l @ '':'' @ take 12 (slCheckpointId l)"

definition link_digest :: "builtins \<Rightarrow> sessionCheckpointLink \<Rightarrow> string result" where
  "link_digest B l = sha256CanonicalJson B (link_object l)"
section \<open>What decoding accepts\<close>

definition snapshot_ok :: "repositorySnapshotRef \<Rightarrow> bool" where
  "snapshot_ok s \<longleftrightarrow> SHA256 (rsSnapshotId s) \<and> (case rsBaselineHead s of None \<Rightarrow> True | Some h \<Rightarrow> GIT_HEAD h)"

fun worktree_ok :: "managedWorktreeRef \<Rightarrow> bool" where
  "worktree_ok (CandidateWorktree i w p) \<longleftrightarrow> i \<in> {0, 1} \<and> w = ''candidate-'' @ int_text i \<and> managed_path_ok p"
| "worktree_ok (ForkWorktree t p) \<longleftrightarrow> IDENTIFIER t \<and> managed_path_ok p"

definition link_ok :: "sessionCheckpointLink \<Rightarrow> bool" where
  "link_ok l \<longleftrightarrow> IDENTIFIER (slThreadId l) \<and> IDENTIFIER (slCheckpointId l) \<and> snapshot_ok (slRepositorySnapshot l) \<and>
     (case slManagedWorktree l of None \<Rightarrow> True | Some w \<Rightarrow> worktree_ok w) \<and>
     SHA256 (slReplayFingerprint l) \<and> SHA256 (slEffectLedgerDigest l)"

lemma contract_fail_Inr [simp]: "contract_fail c f \<noteq> Inr x"
  by (simp add: contract_fail_def)

lemma requireExactFields_Inr:
  "requireExactFields r allowed optional f = Inr u \<longleftrightarrow>
   set (keys_of r) \<subseteq> set allowed \<and> (\<forall>k \<in> set allowed. k \<in> set optional \<or> k \<in> set (keys_of r))"
  by (auto simp: requireExactFields_def split: option.splits dest: find_SomeD find_NoneD)

lemma contract_readers [result_simps]:
  "requireRecord v f = Inr r \<longleftrightarrow> is_record v \<and> r = v"
  "requireVersion v f = Inr u \<longleftrightarrow> v = BRIDGE_PROTOCOL_VERSION"
  "contract_identifier v f = Inr s \<longleftrightarrow> v = JStr s \<and> IDENTIFIER s"
  "contract_digest v f = Inr s \<longleftrightarrow> v = JStr s \<and> SHA256 s"
  "gitHead v f = Inr h \<longleftrightarrow> (v = JNull \<and> h = None) \<or> (\<exists>s. v = JStr s \<and> GIT_HEAD s \<and> h = Some s)"
  "parse_candidate v = Inr i \<longleftrightarrow> v = JNum (NInt i) \<and> i \<in> {0, 1}"
  "parse_worktreeId v = Inr s \<longleftrightarrow> v = JStr s \<and> CANDIDATE_WORKTREE_ID s"
  "managedPath v = Inr s \<longleftrightarrow> v = JStr s \<and> managed_path_ok s"
  by (auto simp: requireRecord_def requireVersion_def contract_identifier_def contract_digest_def gitHead_def
      parse_candidate_def parse_worktreeId_def managedPath_def split: js.splits)

lemma parse_label_Inr [result_simps]: "parse_label v = Inr l \<longleftrightarrow> v = JStr (label_text l)"
  by (cases l) (auto simp: parse_label_def SEMANTIC_CHECKPOINT_LABELS_def)

lemma decodeRepositorySnapshotRef_ok: "decodeRepositorySnapshotRef v = Inr s \<Longrightarrow> snapshot_ok s"
  by (auto simp: decodeRepositorySnapshotRef_def result_simps snapshot_ok_def)

lemma decodeManagedWorktreeRef_ok: "decodeManagedWorktreeRef v = Inr w \<Longrightarrow> worktree_ok w"
  by (auto simp: decodeManagedWorktreeRef_def result_simps split: if_splits)

lemma decodeSessionCheckpointLink_ok:
  assumes "decodeSessionCheckpointLink B v = Inr l"
  shows "link_ok l"
  using assms
  by (auto simp: decodeSessionCheckpointLink_def result_simps link_ok_def split: if_splits
      dest: decodeRepositorySnapshotRef_ok decodeManagedWorktreeRef_ok)

section \<open>Decoding inverts encoding\<close>

text \<open>The canonical form of an object has the same members.\<close>

lemma keys_of_canonical: "set (keys_of (canonical v)) = set (keys_of v)"
  by (cases v) (auto simp: keys_of_def canonical_eqs image_image)

lemma map_of_canonical: "map_of (map (\<lambda>m. (fst m, canonical (snd m))) kvs) k = map_option canonical (map_of kvs k)"
  by (induction kvs) auto

lemma map_of_sort: "distinct (map fst kvs) \<Longrightarrow> map_of (sort_key fst kvs) = map_of kvs"
  by (rule map_of_inject_set[THEN iffD2]) (auto simp: distinct_map intro: inj_onI dest: inj_onD)

lemma jget_canonical:
  assumes "distinct (map fst kvs)"
  shows "jget (canonical (JObj kvs)) k = canonical (jget (JObj kvs) k)"
proof -
  have "distinct (map fst (map (\<lambda>m. (fst m, canonical (snd m))) kvs))"
    using assms by (simp add: comp_def)
  then show ?thesis
    by (simp add: jget_def canonical_eqs map_of_sort map_of_canonical split: option.splits)
qed

lemmas object_facts = jget_canonical canonical_eqs keys_of_canonical BRIDGE_PROTOCOL_VERSION_def

lemma is_record_canonical [simp]: "is_record (canonical v) = is_record v"
  by (cases v) (simp_all add: canonical_eqs is_record_def)

lemma decode_snapshot_object:
  assumes "snapshot_ok s"
  shows "decodeRepositorySnapshotRef (snapshot_object s) = Inr s"
    and "decodeRepositorySnapshotRef (canonical (snapshot_object s)) = Inr s"
  using assms
  by (auto simp: decodeRepositorySnapshotRef_def result_simps requireExactFields_Inr snapshot_object_def snapshot_ok_def
      object_facts split: option.splits)

lemma int_text_bit: "int_text 0 = ''0''" "int_text 1 = ''1''"
  by code_simp+

lemma candidate_worktree_id:
  "CANDIDATE_WORKTREE_ID (''candidate-'' @ int_text 0)" "CANDIDATE_WORKTREE_ID (''candidate-'' @ int_text 1)"
  by (simp_all add: CANDIDATE_WORKTREE_ID_def int_text_bit)

lemma decode_worktree_object:
  assumes "worktree_ok w"
  shows "decodeManagedWorktreeRef (worktree_object w) = Inr w"
    and "decodeManagedWorktreeRef (canonical (worktree_object w)) = Inr w"
proof -
  show "decodeManagedWorktreeRef (worktree_object w) = Inr w"
    using assms by (cases w) (auto simp: decodeManagedWorktreeRef_def result_simps requireExactFields_Inr object_facts
        candidate_worktree_id[simplified])
  show "decodeManagedWorktreeRef (canonical (worktree_object w)) = Inr w"
    using assms by (cases w) (auto simp: decodeManagedWorktreeRef_def result_simps requireExactFields_Inr object_facts
        candidate_worktree_id[simplified])
qed
lemma worktree_object_record [simp]:
  "worktree_object w \<noteq> JUndef" "canonical (worktree_object w) \<noteq> JUndef"
  by (cases w; simp add: canonical_eqs)+
lemma parseEncodedPayload_record [simp]: "is_record x \<Longrightarrow> parseEncodedPayload B x = Inr x"
  by (cases x) (simp_all add: parseEncodedPayload_def is_record_def)

text \<open>A link is decoded from any object with its fields.\<close>

definition link_fields :: "(js \<Rightarrow> js) \<Rightarrow> sessionCheckpointLink \<Rightarrow> js \<Rightarrow> bool" where
  "link_fields f l x \<longleftrightarrow>
     is_record x \<and>
     set (keys_of x) \<subseteq> {''protocolVersion'', ''entryType'', ''threadId'', ''checkpointId'', ''label'', ''repositorySnapshot'',
        ''managedWorktree'', ''replayFingerprint'', ''effectLedgerDigest''} \<and>
     {''protocolVersion'', ''entryType'', ''threadId'', ''checkpointId'', ''label'', ''repositorySnapshot'',
        ''replayFingerprint'', ''effectLedgerDigest''} \<subseteq> set (keys_of x) \<and>
     jget x ''protocolVersion'' = BRIDGE_PROTOCOL_VERSION \<and> jget x ''entryType'' = JStr PI_CHECKPOINT_LINK_ENTRY_TYPE \<and>
     jget x ''threadId'' = JStr (slThreadId l) \<and> jget x ''checkpointId'' = JStr (slCheckpointId l) \<and>
     jget x ''label'' = JStr (label_text (slLabel l)) \<and> jget x ''repositorySnapshot'' = f (snapshot_object (slRepositorySnapshot l)) \<and>
     jget x ''managedWorktree'' = (case slManagedWorktree l of None \<Rightarrow> JUndef | Some w \<Rightarrow> f (worktree_object w)) \<and>
     jget x ''replayFingerprint'' = JStr (slReplayFingerprint l) \<and> jget x ''effectLedgerDigest'' = JStr (slEffectLedgerDigest l)"

lemma readers_apply:
  "IDENTIFIER s \<Longrightarrow> contract_identifier (JStr s) f = Inr s"
  "SHA256 s \<Longrightarrow> contract_digest (JStr s) f = Inr s"
  "requireVersion BRIDGE_PROTOCOL_VERSION f = Inr ()"
  "is_record v \<Longrightarrow> requireRecord v f = Inr v"
  "parse_label (JStr (label_text l)) = Inr l"
  by (simp_all add: result_simps)

lemma decode_link_fields:
  assumes "link_ok l" and "link_fields f l x" and "f = id \<or> f = canonical"
  shows "decodeSessionCheckpointLink B x = Inr l"
proof -
  have exact: "requireExactFields x
       [''protocolVersion'', ''entryType'', ''threadId'', ''checkpointId'', ''label'', ''repositorySnapshot'',
        ''managedWorktree'', ''replayFingerprint'', ''effectLedgerDigest''] [''managedWorktree''] ''payload'' = Inr ()"
    using assms(2) by (auto simp: link_fields_def requireExactFields_Inr)
  have snapshot: "decodeRepositorySnapshotRef (f (snapshot_object (slRepositorySnapshot l))) = Inr (slRepositorySnapshot l)"
    using assms(1,3) decode_snapshot_object by (auto simp: link_ok_def)
  have worktree: "f (worktree_object w) \<noteq> JUndef \<and> decodeManagedWorktreeRef (f (worktree_object w)) = Inr w"
    if "slManagedWorktree l = Some w" for w
    using that assms(1,3) decode_worktree_object by (auto simp: link_ok_def)
  show ?thesis
    unfolding decodeSessionCheckpointLink_def
    using assms(1,2) by (cases "slManagedWorktree l")
      (simp_all add: exact worktree snapshot readers_apply link_fields_def link_ok_def)
qed

lemma link_object_fields: "link_fields id l (link_object l)"
  by (cases "slManagedWorktree l"; auto simp: link_fields_def link_object_def)

lemma link_object_members:
  obtains kvs where "link_object l = JObj kvs" and "distinct (map fst kvs)"
  by (cases "slManagedWorktree l") (simp_all add: link_object_def)

lemma canonical_fields:
  assumes "link_fields id l x" and "x = JObj kvs" and "distinct (map fst kvs)"
  shows "link_fields canonical l (canonical x)"
  using assms(1) jget_canonical[OF assms(3)] unfolding assms(2)
  by (simp add: link_fields_def keys_of_canonical BRIDGE_PROTOCOL_VERSION_def canonical_eqs(1-5) split: option.splits del: keys_of_JObj)

lemma decode_link_object:
  assumes "link_ok l"
  shows "decodeSessionCheckpointLink B (link_object l) = Inr l"
    and "decodeSessionCheckpointLink B (canonical (link_object l)) = Inr l"
proof -
  show "decodeSessionCheckpointLink B (link_object l) = Inr l"
    by (rule decode_link_fields[OF assms link_object_fields]) simp
  obtain kvs where "link_object l = JObj kvs" and "distinct (map fst kvs)" by (rule link_object_members)
  from canonical_fields[OF link_object_fields this]
  show "decodeSessionCheckpointLink B (canonical (link_object l)) = Inr l"
    by (rule decode_link_fields[OF assms]) simp
qed
section \<open>Every link can be encoded\<close>

lemma utf8_bytes_simps [simp]:
  "utf8_bytes [] = 0" "utf8_bytes (s @ t) = utf8_bytes s + utf8_bytes t"
  by (simp_all add: utf8_bytes_def)

lemma utf8_bytes_length: "utf8_bytes s \<le> 2 * length s"
  by (induction s) (auto simp: utf8_bytes_def)

lemma utf8_bytes_json_char: "utf8_bytes (json_char c) \<le> 6"
proof (cases "code c < 32")
  case True
  have "utf8_bytes [hex_digit m, hex_digit n] = 2" if "m < 16" "n < 16" for m n
    using that by (simp add: utf8_bytes_def hex_digit_def code_def)
  moreover have "utf8_bytes (CHR 0x5C # ''u00'') = 4" "utf8_bytes [CHR 0x5C, CHR 0x22] = 2"
    "utf8_bytes [CHR 0x5C, CHR 0x5C] = 2" "utf8_bytes [CHR 0x5C, CHR ''b''] = 2" "utf8_bytes [CHR 0x5C, CHR ''t''] = 2"
    "utf8_bytes [CHR 0x5C, CHR ''n''] = 2" "utf8_bytes [CHR 0x5C, CHR ''f''] = 2" "utf8_bytes [CHR 0x5C, CHR ''r''] = 2"
    by (simp_all add: utf8_bytes_def code_def)
  moreover have "utf8_bytes (CHR 0x5C # ''u00'' @ [hex_digit (code c div 16), hex_digit (code c mod 16)]) \<le> 6"
    using utf8_bytes_simps(2)[of "CHR 0x5C # ''u00''"] calculation(1)[of "code c div 16" "code c mod 16"] calculation(2) True
    by simp
  ultimately show ?thesis using True by (simp add: json_char_def)
next
  case False
  then show ?thesis by (auto simp: json_char_def utf8_bytes_def)
qed

lemma utf8_bytes_json_string: "utf8_bytes (json_string s) \<le> 2 + 6 * length s"
proof -
  have "utf8_bytes (concat (map json_char s)) \<le> 6 * length s"
  proof (induction s)
    case (Cons c s)
    with utf8_bytes_json_char[of c] show ?case by simp
  qed simp
  then show ?thesis
    by (simp add: json_string_def utf8_bytes_def code_def)
qed

lemma utf8_bytes_join: "utf8_bytes (join '','' ts) \<le> sum_list (map (\<lambda>t. Suc (utf8_bytes t)) ts)"
proof (induction ts rule: induct_list012)
  case (3 t u ts)
  then show ?case by (simp add: utf8_bytes_def code_def)
qed simp_all

lemma canonical_object_size:
  "utf8_bytes (plain_text (canonical (JObj kvs)))
   \<le> 2 + sum_list (map (\<lambda>m. 2 + utf8_bytes (json_string (fst m)) + utf8_bytes (plain_text (canonical (snd m)))) kvs)"
proof -
  let ?kvs = "sort_key fst (map (\<lambda>m. (fst m, canonical (snd m))) kvs)"
  let ?t = "\<lambda>m. json_string (fst m) @ '':'' @ plain_text (snd m)"
  let ?w = "\<lambda>m. 2 + utf8_bytes (json_string (fst m)) + utf8_bytes (plain_text (snd m))"
  have brackets: "utf8_bytes ''{'' = 1" "utf8_bytes ''}'' = 1" "utf8_bytes '':'' = 1"
    by (simp_all add: utf8_bytes_def code_def)
  have "Suc (utf8_bytes (?t m)) = ?w m" for m
    by (simp add: brackets del: append.simps)
  then have "sum_list (map (\<lambda>u. Suc (utf8_bytes u)) (map ?t ?kvs)) = sum_list (map ?w ?kvs)"
    by (simp only: map_map comp_def)
  also have "\<dots> = sum_mset (image_mset ?w (mset ?kvs))"
    by (simp only: sum_mset_sum_list[symmetric] mset_map)
  also have "\<dots> = sum_list (map ?w (map (\<lambda>m. (fst m, canonical (snd m))) kvs))"
    by (simp only: mset_sort sum_mset_sum_list[symmetric] mset_map)
  finally have "sum_list (map (\<lambda>u. Suc (utf8_bytes u)) (map ?t ?kvs)) =
      sum_list (map (\<lambda>m. 2 + utf8_bytes (json_string (fst m)) + utf8_bytes (plain_text (canonical (snd m)))) kvs)"
    by (simp add: comp_def)
  with utf8_bytes_join[of "map ?t ?kvs"] brackets show ?thesis
    by (simp add: canonical_eqs plain_text_eqs del: append.simps)
qed

lemma canonical_object_bytes:
  "utf8_bytes (plain_text (canonical (JObj kvs)))
   \<le> 2 + sum_list (map (\<lambda>m. 4 + 6 * length (fst m) + utf8_bytes (plain_text (canonical (snd m)))) kvs)"
proof -
  have "sum_list (map (\<lambda>m. 2 + utf8_bytes (json_string (fst m)) + utf8_bytes (plain_text (canonical (snd m)))) kvs) \<le>
      sum_list (map (\<lambda>m. 4 + 6 * length (fst m) + utf8_bytes (plain_text (canonical (snd m)))) kvs)"
    using utf8_bytes_json_string by (intro sum_list_mono) (simp add: add_mono)
  with canonical_object_size[of kvs] show ?thesis by linarith
qed

lemma canonical_array_size:
  "utf8_bytes (plain_text (canonical (JArr xs)))
   \<le> 2 + sum_list (map (\<lambda>x. Suc (utf8_bytes (plain_text (canonical x)))) xs)"
proof -
  have "utf8_bytes ''['' = 1" "utf8_bytes '']'' = 1" by (simp_all add: utf8_bytes_def code_def)
  with utf8_bytes_join[of "map (\<lambda>x. plain_text (canonical x)) xs"] show ?thesis
    by (simp add: canonical_eqs plain_text_eqs comp_def del: append.simps)
qed

lemma string_bytes: "utf8_bytes (plain_text (canonical (JStr s))) \<le> 2 + 6 * length s"
  by (simp add: canonical_eqs plain_text_eqs del: add_2_eq_Suc) (rule utf8_bytes_json_string)

lemma scalar_bytes:
  "utf8_bytes (plain_text (canonical JNull)) = 4"
  "utf8_bytes (plain_text (canonical BRIDGE_PROTOCOL_VERSION)) = 1"
  "utf8_bytes (plain_text (canonical (JNum (NInt 0)))) = 1" "utf8_bytes (plain_text (canonical (JNum (NInt 1)))) = 1"
  by (simp_all add: canonical_eqs plain_text_eqs BRIDGE_PROTOCOL_VERSION_def json_number_def
      int_text_bit) (simp_all add: utf8_bytes_def code_def)

lemma hex_text_length: "SHA256 s \<Longrightarrow> length s = 64" "GIT_HEAD s \<Longrightarrow> length s \<le> 64"
  by (auto simp: SHA256_def GIT_HEAD_def hex_text_def)

lemma identifier_length: "IDENTIFIER s \<Longrightarrow> length s \<le> 2048"
  using lexical_length by (fastforce simp: IDENTIFIER_def)

lemma snapshot_bytes:
  assumes "snapshot_ok s"
  shows "utf8_bytes (plain_text (canonical (snapshot_object s))) \<le> 1009"
proof -
  have "utf8_bytes (plain_text (canonical (case rsBaselineHead s of None \<Rightarrow> JNull | Some h \<Rightarrow> JStr h))) \<le> 386"
    using assms hex_text_length(2)
    by (auto simp: snapshot_ok_def scalar_bytes split: option.splits intro: order_trans[OF string_bytes])
  moreover have "utf8_bytes (plain_text (canonical (JStr (rsSnapshotId s)))) \<le> 386"
    using string_bytes[of "rsSnapshotId s"] assms hex_text_length(1)[of "rsSnapshotId s"] by (simp add: snapshot_ok_def)
  ultimately show ?thesis
    unfolding snapshot_object_def
    by (intro order_trans[OF canonical_object_bytes]) (simp add: scalar_bytes)
qed

lemma worktree_bytes:
  assumes "worktree_ok w"
  shows "utf8_bytes (plain_text (canonical (worktree_object w))) \<le> 37200"
proof (cases w)
  case (CandidateWorktree i n p)
  with assms have i: "i = 0 \<or> i = 1" and n: "length n = 11" and p: "length p \<le> 4096"
    by (auto simp: managed_path_ok_def int_text_bit)
  from i have "utf8_bytes (plain_text (canonical (JNum (NInt i)))) = 1" by (auto simp: scalar_bytes)
  with string_bytes[of n] string_bytes[of p] string_bytes[of "''candidate''"] n p show ?thesis
    unfolding CandidateWorktree worktree_object.simps
    by (intro order_trans[OF canonical_object_bytes]) (simp add: scalar_bytes)
next
  case (ForkWorktree t p)
  with assms have "length t \<le> 2048" and "length p \<le> 4096"
    by (auto simp: managed_path_ok_def identifier_length)
  with string_bytes[of t] string_bytes[of p] string_bytes[of "''fork''"] show ?thesis
    unfolding ForkWorktree worktree_object.simps
    by (intro order_trans[OF canonical_object_bytes]) (simp add: scalar_bytes)
qed

lemma json_data_objects:
  "json_data (snapshot_object s) 1" "json_data (worktree_object w) 1" "json_data (link_object l) 0"
proof -
  show snapshot: "json_data (snapshot_object s) 1" for s
    by (auto simp: snapshot_object_def json_data_eqs BRIDGE_PROTOCOL_VERSION_def MAX_CANONICAL_DEPTH_def finite_number_def
        split: option.splits)
  show worktree: "json_data (worktree_object w) 1" for w
    by (cases w) (simp_all add: json_data_eqs BRIDGE_PROTOCOL_VERSION_def MAX_CANONICAL_DEPTH_def finite_number_def)
  show "json_data (link_object l) 0"
    using snapshot worktree
    by (cases "slManagedWorktree l")
      (simp_all add: link_object_def json_data_eqs BRIDGE_PROTOCOL_VERSION_def MAX_CANONICAL_DEPTH_def finite_number_def)
qed

lemma link_encodes:
  assumes "link_ok l"
  shows "encodeSessionCheckpointLink l = Inr (plain_text (canonical (link_object l)))"
proof -
  have "length (label_text (slLabel l)) \<le> 16" by (cases "slLabel l") simp_all
  moreover have "length (slThreadId l) \<le> 2048" "length (slCheckpointId l) \<le> 2048" "length (slReplayFingerprint l) = 64"
    "length (slEffectLedgerDigest l) = 64" and s: "snapshot_ok (slRepositorySnapshot l)"
    using assms by (simp_all add: link_ok_def identifier_length hex_text_length)
  moreover have "utf8_bytes (plain_text (canonical (worktree_object w))) \<le> 37200" if "slManagedWorktree l = Some w" for w
    using assms that by (intro worktree_bytes) (simp add: link_ok_def)
  ultimately have "utf8_bytes (plain_text (canonical (link_object l))) \<le> MAX_CANONICAL_JSON_BYTES"
    unfolding link_object_def MAX_CANONICAL_JSON_BYTES_def
    using snapshot_bytes[OF s] string_bytes[of "slThreadId l"] string_bytes[of "slCheckpointId l"]
      string_bytes[of "slReplayFingerprint l"] string_bytes[of "slEffectLedgerDigest l"]
      string_bytes[of "label_text (slLabel l)"] string_bytes[of PI_CHECKPOINT_LINK_ENTRY_TYPE]
    by (cases "slManagedWorktree l"; intro order_trans[OF canonical_object_bytes];
        force simp: scalar_bytes PI_CHECKPOINT_LINK_ENTRY_TYPE_def)
  then show ?thesis
    by (simp add: encodeSessionCheckpointLink_def canonicalJson_eq_Inr json_data_objects)
qed
lemma link_numbers_ok: "numbers_ok (link_object l)"
proof -
  have "numbers_ok (snapshot_object s)" and "numbers_ok (worktree_object w)" for s w
    by (cases w; auto simp: snapshot_object_def numbers_ok_eqs BRIDGE_PROTOCOL_VERSION_def number_ok_def split: option.splits)+
  then show ?thesis
    by (cases "slManagedWorktree l") (simp_all add: link_object_def numbers_ok_eqs BRIDGE_PROTOCOL_VERSION_def number_ok_def)
qed

lemma link_text_inject:
  assumes "link_ok l" and "link_ok l'"
  shows "encodeSessionCheckpointLink l = encodeSessionCheckpointLink l' \<longleftrightarrow> l = l'"
proof
  assume "encodeSessionCheckpointLink l = encodeSessionCheckpointLink l'"
  then have "canonical (link_object l) = canonical (link_object l')"
    using link_encodes[OF assms(1)] link_encodes[OF assms(2)] canonicalJson_unique link_numbers_ok
    by (metis encodeSessionCheckpointLink_def)
  then show "l = l'" using decode_link_object(2) assms by (metis sum.inject(2))
qed simp

lemma link_digest_eq: "link_ok l \<Longrightarrow> link_digest B l = Inr (sha256_hex B (plain_text (canonical (link_object l))))"
  using link_encodes by (simp add: link_digest_def sha256CanonicalJson_def encodeSessionCheckpointLink_def)

lemma link_digest_inject:
  assumes "\<And>x y. sha256_hex B x = sha256_hex B y \<Longrightarrow> x = y" and "link_ok l" and "link_ok l'"
  shows "link_digest B l = link_digest B l' \<longleftrightarrow> l = l'"
  using assms(1) link_text_inject[OF assms(2,3)] link_digest_eq[OF assms(2)] link_digest_eq[OF assms(3)]
    link_encodes[OF assms(2)] link_encodes[OF assms(3)] by auto

lemma decode_link_text:
  assumes "link_ok l" and "encodeSessionCheckpointLink l = Inr t" and "json_parse B t = Some (canonical (link_object l))"
  shows "decodeSessionCheckpointLink B (JStr t) = Inr l"
proof -
  have "utf8_bytes t \<le> MAX_CANONICAL_JSON_BYTES"
    using assms(2) by (auto simp: encodeSessionCheckpointLink_def canonicalJson_eq_Inr)
  with assms(3) have "parseEncodedPayload B (JStr t) = Inr (canonical (link_object l))"
    by (simp add: parseEncodedPayload_def)
  moreover have "parseEncodedPayload B (canonical (link_object l)) = Inr (canonical (link_object l))"
    using link_object_members[of l] by (metis parseEncodedPayload_record is_record_canonical is_record_JObj)
  ultimately show ?thesis
    using decode_link_object(2)[OF assms(1), of B] unfolding decodeSessionCheckpointLink_def by simp
qed

section \<open>Properties\<close>

text \<open>
  Claim C22 (decoded_link_is_well_typed). Whatever untrusted value decodes to a link, the link is well formed:
  its identifiers, digests and git head have their lexical form, a candidate worktree is number
  0 or 1 under the matching name, a worktree path is absolute and has no empty or dot segment.
  Decoding the link again gives the same link.
\<close>

theorem decoded_link_is_well_typed:
  assumes "decodeSessionCheckpointLink B v = Inr l"
  shows "link_ok l \<and> decodeSessionCheckpointLink B (link_object l) = Inr l"
  using decodeSessionCheckpointLink_ok[OF assms] decode_link_object(1) by blast

definition sample_link :: sessionCheckpointLink where
  "sample_link =
     \<lparr>slThreadId = ''thread-1'', slCheckpointId = ''checkpoint-1'', slLabel = PostDiscovery,
      slRepositorySnapshot = \<lparr>rsSnapshotId = replicate 64 (CHR ''a''), rsBaselineHead = None\<rparr>,
      slManagedWorktree = Some (CandidateWorktree 1 ''candidate-1'' ''/work/tree''),
      slReplayFingerprint = replicate 64 (CHR ''b''), slEffectLedgerDigest = replicate 64 (CHR ''c'')\<rparr>"

definition sample_builtins :: "js \<Rightarrow> builtins" where
  "sample_builtins v =
     \<lparr>json_parse = (\<lambda>_. Some v), json_stringify = (\<lambda>_. []), sha256_hex = (\<lambda>s. s), locale_compare = (\<lambda>_ _. 0)\<rparr>"

lemma sample_link_decodes: "decodeSessionCheckpointLink (sample_builtins JNull) (link_object sample_link) = Inr sample_link"
  by code_simp

theorem decoded_link_is_well_typed_witness:
  "link_ok sample_link \<and> decodeSessionCheckpointLink (sample_builtins JNull) (link_object sample_link) = Inr sample_link"
  using decoded_link_is_well_typed[OF sample_link_decodes] .

text \<open>
  Claim C21 (link_text_roundtrip). A decoded link can always be encoded: its canonical text stays below the bound of
  65536 bytes whatever the lengths of its identifiers and of its path. Decoding the text gives
  the link back, provided that \<open>JSON.parse\<close> reads the text as the object that was printed.
\<close>

theorem link_text_roundtrip:
  assumes "decodeSessionCheckpointLink B v = Inr l"
    and "json_parse B (plain_text (canonical (link_object l))) = Some (canonical (link_object l))"
  shows "\<exists>t. encodeSessionCheckpointLink l = Inr t \<and> decodeSessionCheckpointLink B (JStr t) = Inr l"
  using decodeSessionCheckpointLink_ok[OF assms(1)] link_encodes decode_link_text assms(2) by metis

theorem link_text_roundtrip_witness:
  "\<exists>t. encodeSessionCheckpointLink sample_link = Inr t \<and>
       decodeSessionCheckpointLink (sample_builtins (canonical (link_object sample_link))) (JStr t) = Inr sample_link"
proof (rule link_text_roundtrip)
  show "decodeSessionCheckpointLink (sample_builtins (canonical (link_object sample_link))) (link_object sample_link) = Inr sample_link"
    by code_simp
qed (simp add: sample_builtins_def)

text \<open>
Two decoded links have the same digest exactly when they are the same link, given
  that SHA-256 has no collisions on the texts: the digest that intents and conflict checks
  compare pins every field of the link, the optional worktree included.
\<close>

theorem link_digest_identifies:
  assumes "\<And>x y. sha256_hex B x = sha256_hex B y \<Longrightarrow> x = y"
    and "decodeSessionCheckpointLink B v = Inr l" and "decodeSessionCheckpointLink B v' = Inr l'"
  shows "link_digest B l = link_digest B l' \<longleftrightarrow> l = l'"
  using link_digest_inject assms decodeSessionCheckpointLink_ok by blast

theorem link_digest_identifies_witness:
  "link_digest (sample_builtins JNull) sample_link \<noteq>
   link_digest (sample_builtins JNull) (sample_link\<lparr>slManagedWorktree := None\<rparr>)"
proof -
  let ?l = "sample_link\<lparr>slManagedWorktree := None\<rparr>"
  have "decodeSessionCheckpointLink (sample_builtins JNull) (link_object ?l) = Inr ?l" by code_simp
  from link_digest_identifies[OF _ sample_link_decodes this] show ?thesis
    by (simp add: sample_builtins_def sample_link_def)
qed

end
