(* ===== verification/IntentStore.thy ===== *)
theory IntentStore
  imports Bridge
begin

text \<open>
  Prepared intents: \<open>src/src/bridge/store-format.ts\<close> and \<open>store.ts\<close>. An intent binds a session
  entry to a checkpoint link for a limited time; the store is one JSON file that every operation
  reads, reconciles with the clock and replaces under a lock. The operations are functions of the
  file's content (\<open>None\<close>: no file) and of the clock readings; \<open>plain_text\<close> is \<open>JSON.stringify\<close>
  of a value without \<open>undefined\<close>. A replacement of the file may fail before or after the new
  content is in place.
\<close>

section \<open>Records\<close>

datatype preparedIntentKind = TreeIntent | ForkIntent

datatype preparedIntentStatus = Prepared | Consumed int | Expired int

record preparedIntentBinding =
  biKind :: preparedIntentKind
  biSessionId :: string
  biTargetEntryId :: string
  biResolvedEntryId :: string
  biLinkKey :: string
  biLinkDigest :: string
  biLink :: sessionCheckpointLink
  biManagedWorktree :: "managedWorktreeRef option"

record bridgeIntentRecord =
  irIntentId :: string
  irBinding :: preparedIntentBinding
  irCreatedAtMs :: int
  irExpiresAtMs :: int
  irStatus :: preparedIntentStatus

record prepareInput =
  piIntentId :: string
  piBinding :: preparedIntentBinding
  piTtlMs :: jnum

definition intent_fail :: "intent_code \<Rightarrow> string \<Rightarrow> 'a result" where
  "intent_fail c i = Inl (BridgeIntentStoreError c i)"

definition STORE_FILE :: string where "STORE_FILE = ''prepared-intents-v1.json''"

definition corrupt :: "'a result" where "corrupt = intent_fail CorruptStore STORE_FILE"

definition safeIntentTime :: "js \<Rightarrow> bool" where
  "safeIntentTime v = (case v of JNum (NInt i) \<Rightarrow> \<bar>i\<bar> \<le> max_safe_integer \<and> 0 \<le> i | _ \<Rightarrow> False)"

definition intent_time :: "js \<Rightarrow> int" where
  "intent_time v = (case v of JNum (NInt i) \<Rightarrow> i | _ \<Rightarrow> 0)"

definition validateBinding :: "builtins \<Rightarrow> preparedIntentBinding \<Rightarrow> string \<Rightarrow> unit result" where
  "validateBinding B b intent =
     (if list_ex (\<lambda>s. \<not> IDENTIFIER s) [biSessionId b, biTargetEntryId b, biResolvedEntryId b, biLinkKey b]
         \<or> \<not> SHA256 (biLinkDigest b)
      then intent_fail InvalidIntent intent
      else sbind (link_digest B (biLink b)) (\<lambda>d.
        if biLinkDigest b \<noteq> d then intent_fail InvalidIntent intent else Inr ()))"

definition createIntentRecord :: "builtins \<Rightarrow> prepareInput \<Rightarrow> int \<Rightarrow> bridgeIntentRecord result" where
  "createIntentRecord B input now =
     sbind (validateBinding B (piBinding input) (piIntentId input)) (\<lambda>_.
     case piTtlMs input of
       NInt ttl \<Rightarrow>
         if \<not> IDENTIFIER (piIntentId input) \<or> \<not> is_safe_integer (NInt ttl) \<or> ttl \<le> 0
         then intent_fail InvalidIntent (piIntentId input)
         else if \<not> safeIntentTime (JNum (NInt (now + ttl))) then intent_fail InvalidIntent (piIntentId input)
         else Inr \<lparr>irIntentId = piIntentId input, irBinding = piBinding input, irCreatedAtMs = now,
                   irExpiresAtMs = now + ttl, irStatus = Prepared\<rparr>
     | _ \<Rightarrow> intent_fail InvalidIntent (piIntentId input))"

definition expireIntents :: "bridgeIntentRecord list \<Rightarrow> int \<Rightarrow> bridgeIntentRecord list \<times> bool" where
  "expireIntents records now =
     (map (\<lambda>r. if irStatus r \<noteq> Prepared \<or> irExpiresAtMs r > now then r else r\<lparr>irStatus := Expired now\<rparr>) records,
      list_ex (\<lambda>r. irStatus r = Prepared \<and> irExpiresAtMs r \<le> now) records)"

definition worktree_value :: "managedWorktreeRef option \<Rightarrow> js" where
  "worktree_value w = (case w of None \<Rightarrow> JNull | Some x \<Rightarrow> worktree_object x)"

definition same_text :: "js \<Rightarrow> js \<Rightarrow> bool result" where
  "same_text v w = sbind (canonicalJson v) (\<lambda>s. sbind (canonicalJson w) (\<lambda>t. Inr (s = t)))"

definition sameIntentBinding :: "preparedIntentBinding \<Rightarrow> preparedIntentBinding \<Rightarrow> bool result" where
  "sameIntentBinding r e =
     (if \<not> (biKind r = biKind e \<and> biSessionId r = biSessionId e \<and> biTargetEntryId r = biTargetEntryId e
          \<and> biResolvedEntryId r = biResolvedEntryId e \<and> biLinkKey r = biLinkKey e \<and> biLinkDigest r = biLinkDigest e)
      then Inr False
      else sbind (same_text (link_object (biLink r)) (link_object (biLink e))) (\<lambda>same.
        if \<not> same then Inr False
        else same_text (worktree_value (biManagedWorktree r)) (worktree_value (biManagedWorktree e))))"

section \<open>The file format\<close>

definition exactKeys :: "js \<Rightarrow> string list \<Rightarrow> bool" where
  "exactKeys v ks \<longleftrightarrow> length (keys_of v) = length ks \<and> list_all (\<lambda>k. k \<in> set ks) (keys_of v)"

definition parseStatus :: "js \<Rightarrow> preparedIntentStatus result" where
  "parseStatus v =
     (if \<not> is_record v then corrupt
      else if jget v ''kind'' = JStr ''prepared'' \<and> exactKeys v [''kind''] then Inr Prepared
      else if jget v ''kind'' = JStr ''consumed'' \<and> exactKeys v [''kind'', ''consumedAtMs''] \<and> safeIntentTime (jget v ''consumedAtMs'')
      then Inr (Consumed (intent_time (jget v ''consumedAtMs'')))
      else if jget v ''kind'' = JStr ''expired'' \<and> exactKeys v [''kind'', ''expiredAtMs''] \<and> safeIntentTime (jget v ''expiredAtMs'')
      then Inr (Expired (intent_time (jget v ''expiredAtMs'')))
      else corrupt)"

definition js_text :: "js \<Rightarrow> string option" where
  "js_text v = (case v of JStr s \<Rightarrow> Some s | _ \<Rightarrow> None)"

definition parseIntentBinding :: "builtins \<Rightarrow> js \<Rightarrow> preparedIntentBinding result" where
  "parseIntentBinding B v =
     sbind (if jget v ''managedWorktree'' = JNull then Inr None
            else sbind (decodeManagedWorktreeRef (jget v ''managedWorktree'')) (\<lambda>w. Inr (Some w))) (\<lambda>worktree.
     sbind (decodeSessionCheckpointLink B (jget v ''link'')) (\<lambda>link.
     if \<not> (jget v ''kind'' = JStr ''tree'' \<or> jget v ''kind'' = JStr ''fork'') then corrupt
     else case (js_text (jget v ''sessionId''), js_text (jget v ''targetEntryId''), js_text (jget v ''resolvedEntryId''),
                js_text (jget v ''linkKey''), js_text (jget v ''linkDigest'')) of
       (Some session, Some target, Some resolved, Some key, Some digest) \<Rightarrow>
         let binding = \<lparr>biKind = (if jget v ''kind'' = JStr ''tree'' then TreeIntent else ForkIntent), biSessionId = session,
               biTargetEntryId = target, biResolvedEntryId = resolved, biLinkKey = key, biLinkDigest = digest, biLink = link,
               biManagedWorktree = worktree\<rparr>
         in sbind (validateBinding B binding ''stored'') (\<lambda>_. Inr binding)
     | _ \<Rightarrow> corrupt))"

definition RECORD_KEYS :: "string list" where
  "RECORD_KEYS = [''protocolVersion'', ''intentId'', ''kind'', ''sessionId'', ''targetEntryId'', ''resolvedEntryId'',
      ''linkKey'', ''linkDigest'', ''link'', ''managedWorktree'', ''createdAtMs'', ''expiresAtMs'', ''status'']"

definition parseIntentRecord :: "builtins \<Rightarrow> js \<Rightarrow> bridgeIntentRecord result" where
  "parseIntentRecord B v =
     (if \<not> is_record v \<or> \<not> exactKeys v RECORD_KEYS \<or> jget v ''protocolVersion'' \<noteq> JNum (NInt 1) then corrupt
      else case jget v ''intentId'' of
        JStr intent \<Rightarrow>
          if \<not> IDENTIFIER intent then corrupt
          else sbind (parseIntentBinding B v) (\<lambda>binding.
            if \<not> safeIntentTime (jget v ''createdAtMs'') \<or> \<not> safeIntentTime (jget v ''expiresAtMs'')
               \<or> intent_time (jget v ''expiresAtMs'') < intent_time (jget v ''createdAtMs'')
            then corrupt
            else sbind (parseStatus (jget v ''status'')) (\<lambda>status.
              Inr \<lparr>irIntentId = intent, irBinding = binding, irCreatedAtMs = intent_time (jget v ''createdAtMs''),
                   irExpiresAtMs = intent_time (jget v ''expiresAtMs''), irStatus = status\<rparr>))
      | _ \<Rightarrow> corrupt)"

definition parseIntentStore :: "builtins \<Rightarrow> js \<Rightarrow> bridgeIntentRecord list result" where
  "parseIntentStore B v =
     (if \<not> is_record v \<or> \<not> exactKeys v [''protocolVersion'', ''intents''] \<or> jget v ''protocolVersion'' \<noteq> JNum (NInt 1)
      then corrupt
      else case jget v ''intents'' of JArr xs \<Rightarrow> traverse (parseIntentRecord B) xs | _ \<Rightarrow> corrupt)"

section \<open>The store\<close>

definition MAX_STORE_BYTES :: nat where "MAX_STORE_BYTES = 1024 * 1024"

definition read_store :: "builtins \<Rightarrow> string option \<Rightarrow> bridgeIntentRecord list result" where
  "read_store B file =
     (case file of
        None \<Rightarrow> Inr []
      | Some text \<Rightarrow>
          if MAX_STORE_BYTES < utf8_bytes text then corrupt
          else (case json_parse B text of
              None \<Rightarrow> corrupt
            | Some v \<Rightarrow>
                (case parseIntentStore B v of
                   Inl (BridgeContractError c f) \<Rightarrow> corrupt
                 | r \<Rightarrow> r)))"

text \<open>The objects that \<open>write\<close> prints.\<close>

definition status_object :: "preparedIntentStatus \<Rightarrow> js" where
  "status_object s =
     (case s of
        Prepared \<Rightarrow> JObj [(''kind'', JStr ''prepared'')]
      | Consumed t \<Rightarrow> JObj [(''kind'', JStr ''consumed''), (''consumedAtMs'', JNum (NInt t))]
      | Expired t \<Rightarrow> JObj [(''kind'', JStr ''expired''), (''expiredAtMs'', JNum (NInt t))])"

definition record_object :: "bridgeIntentRecord \<Rightarrow> js" where
  "record_object r = (let b = irBinding r in JObj
     [(''protocolVersion'', JNum (NInt 1)), (''intentId'', JStr (irIntentId r)),
      (''kind'', JStr (case biKind b of TreeIntent \<Rightarrow> ''tree'' | ForkIntent \<Rightarrow> ''fork'')),
      (''sessionId'', JStr (biSessionId b)), (''targetEntryId'', JStr (biTargetEntryId b)),
      (''resolvedEntryId'', JStr (biResolvedEntryId b)), (''linkKey'', JStr (biLinkKey b)),
      (''linkDigest'', JStr (biLinkDigest b)), (''link'', link_object (biLink b)),
      (''managedWorktree'', worktree_value (biManagedWorktree b)), (''createdAtMs'', JNum (NInt (irCreatedAtMs r))),
      (''expiresAtMs'', JNum (NInt (irExpiresAtMs r))), (''status'', status_object (irStatus r))])"

definition store_object :: "bridgeIntentRecord list \<Rightarrow> js" where
  "store_object rs = JObj [(''protocolVersion'', JNum (NInt 1)), (''intents'', JArr (map record_object rs))]"

definition store_text :: "bridgeIntentRecord list \<Rightarrow> string" where
  "store_text rs = plain_text (store_object rs) @ [CHR 0x0A]"

text \<open>
  \<open>write\<close> fills a temporary file and renames it: it may fail before the rename, when the old
  content is kept, or after it, when syncing the directory fails.
\<close>

datatype writeEvent = Written | FailedBefore | FailedAfter

definition io_error :: error where "io_error = PlainError ''io''"

definition write_store ::
    "writeEvent \<Rightarrow> string option \<Rightarrow> bridgeIntentRecord list \<Rightarrow> 'a result \<Rightarrow> 'a result \<times> string option" where
  "write_store w file rs r =
     (case w of
        Written \<Rightarrow> (r, Some (store_text rs))
      | FailedBefore \<Rightarrow> (Inl io_error, file)
      | FailedAfter \<Rightarrow> (Inl io_error, Some (store_text rs)))"

text \<open>\<open>if (reconciled.changed) await this.write(reconciled.records)\<close>, then the result.\<close>

definition settle ::
    "writeEvent \<Rightarrow> string option \<Rightarrow> bridgeIntentRecord list \<times> bool \<Rightarrow> 'a result \<Rightarrow> 'a result \<times> string option" where
  "settle w file rc r = (if snd rc then write_store w file (fst rc) r else (r, file))"

definition read_clock :: "jnum \<Rightarrow> int result" where
  "read_clock t = (if safeIntentTime (JNum t) then Inr (intent_time (JNum t)) else intent_fail InvalidIntent ''clock'')"

definition prepare_intent ::
    "builtins \<Rightarrow> writeEvent \<Rightarrow> jnum \<Rightarrow> prepareInput \<Rightarrow> string option \<Rightarrow> bridgeIntentRecord result \<times> string option" where
  "prepare_intent B w clock input file =
     (case sbind (read_store B file) (\<lambda>rs. sbind (read_clock clock) (\<lambda>now.
             sbind (createIntentRecord B input now) (\<lambda>c. Inr (expireIntents rs now, c)))) of
        Inl e \<Rightarrow> (Inl e, file)
      | Inr (rc, candidate) \<Rightarrow>
          (case List.find (\<lambda>r. irIntentId r = piIntentId input) (fst rc) of
             None \<Rightarrow> write_store w file (fst rc @ [candidate]) (Inr candidate)
           | Some existing \<Rightarrow>
               (case (if irStatus existing = Prepared then sameIntentBinding (irBinding existing) (piBinding input) else Inr False) of
                  Inl e \<Rightarrow> (Inl e, file)
                | Inr True \<Rightarrow> settle w file rc (Inr existing)
                | Inr False \<Rightarrow> settle w file rc (intent_fail IntentConflict (piIntentId input)))))"

fun find_index :: "('a \<Rightarrow> bool) \<Rightarrow> 'a list \<Rightarrow> nat option" where
  "find_index P [] = None"
| "find_index P (x # xs) = (if P x then Some 0 else map_option Suc (find_index P xs))"

definition consume_intent ::
    "builtins \<Rightarrow> writeEvent \<Rightarrow> jnum \<Rightarrow> jnum \<Rightarrow> string \<Rightarrow> preparedIntentBinding \<Rightarrow> string option
     \<Rightarrow> bridgeIntentRecord result \<times> string option" where
  "consume_intent B w clock clock' intent expected file =
     (case sbind (read_store B file) (\<lambda>rs. sbind (read_clock clock) (\<lambda>now. Inr (expireIntents rs now))) of
        Inl e \<Rightarrow> (Inl e, file)
      | Inr rc \<Rightarrow>
          (case find_index (\<lambda>r. irIntentId r = intent) (fst rc) of
             None \<Rightarrow> settle w file rc (intent_fail MissingIntent intent)
           | Some i \<Rightarrow>
               let current = fst rc ! i in
               (case sameIntentBinding (irBinding current) expected of
                  Inl e \<Rightarrow> (Inl e, file)
                | Inr False \<Rightarrow> settle w file rc (intent_fail IntentMismatch intent)
                | Inr True \<Rightarrow>
                    (case irStatus current of
                       Expired _ \<Rightarrow> settle w file rc (intent_fail ExpiredIntent intent)
                     | Consumed _ \<Rightarrow> settle w file rc (Inr current)
                     | Prepared \<Rightarrow>
                         (case read_clock clock' of
                            Inl e \<Rightarrow> (Inl e, file)
                          | Inr at \<Rightarrow>
                              let consumed = current\<lparr>irStatus := Consumed at\<rparr>
                              in write_store w file ((fst rc)[i := consumed]) (Inr consumed))))))"

definition get_intent ::
    "builtins \<Rightarrow> writeEvent \<Rightarrow> jnum \<Rightarrow> string \<Rightarrow> string option \<Rightarrow> bridgeIntentRecord option result \<times> string option" where
  "get_intent B w clock intent file =
     (case sbind (read_store B file) (\<lambda>rs. sbind (read_clock clock) (\<lambda>now. Inr (expireIntents rs now))) of
        Inl e \<Rightarrow> (Inl e, file)
      | Inr rc \<Rightarrow> settle w file rc (Inr (List.find (\<lambda>r. irIntentId r = intent) (fst rc))))"

definition list_intents ::
    "builtins \<Rightarrow> writeEvent \<Rightarrow> jnum \<Rightarrow> string option \<Rightarrow> bridgeIntentRecord list result \<times> string option" where
  "list_intents B w clock file =
     (case sbind (read_store B file) (\<lambda>rs. sbind (read_clock clock) (\<lambda>now. Inr (expireIntents rs now))) of
        Inl e \<Rightarrow> (Inl e, file)
      | Inr rc \<Rightarrow> settle w file rc (Inr (fst rc)))"
section \<open>Bindings\<close>

definition worktree_option_ok :: "managedWorktreeRef option \<Rightarrow> bool" where
  "worktree_option_ok w \<longleftrightarrow> (case w of None \<Rightarrow> True | Some x \<Rightarrow> worktree_ok x)"

definition binding_ok :: "builtins \<Rightarrow> preparedIntentBinding \<Rightarrow> bool" where
  "binding_ok B b \<longleftrightarrow> IDENTIFIER (biSessionId b) \<and> IDENTIFIER (biTargetEntryId b) \<and> IDENTIFIER (biResolvedEntryId b) \<and>
     IDENTIFIER (biLinkKey b) \<and> SHA256 (biLinkDigest b) \<and> link_ok (biLink b) \<and> worktree_option_ok (biManagedWorktree b) \<and>
     link_digest B (biLink b) = Inr (biLinkDigest b)"

lemma intent_fail_Inr [simp]: "intent_fail c i \<noteq> Inr x" "corrupt \<noteq> Inr y"
  by (simp_all add: intent_fail_def corrupt_def)

lemma validateBinding_Inr [result_simps]:
  "validateBinding B b i = Inr u \<longleftrightarrow>
     IDENTIFIER (biSessionId b) \<and> IDENTIFIER (biTargetEntryId b) \<and> IDENTIFIER (biResolvedEntryId b) \<and>
     IDENTIFIER (biLinkKey b) \<and> SHA256 (biLinkDigest b) \<and> link_digest B (biLink b) = Inr (biLinkDigest b)"
  by (auto simp: validateBinding_def result_simps)

lemma worktree_text:
  assumes "worktree_option_ok w"
  shows "canonicalJson (worktree_value w) = Inr (plain_text (canonical (worktree_value w)))"
proof (cases w)
  case None
  then show ?thesis
    by (simp add: worktree_value_def canonicalJson_eq_Inr json_data_eqs scalar_bytes MAX_CANONICAL_JSON_BYTES_def)
next
  case (Some x)
  with assms worktree_bytes[of x] have "utf8_bytes (plain_text (canonical (worktree_object x))) \<le> MAX_CANONICAL_JSON_BYTES"
    by (simp add: worktree_option_ok_def MAX_CANONICAL_JSON_BYTES_def)
  moreover have "json_data (worktree_object x) 0"
    by (cases x) (simp_all add: json_data_eqs BRIDGE_PROTOCOL_VERSION_def MAX_CANONICAL_DEPTH_def finite_number_def)
  ultimately show ?thesis using Some by (simp add: worktree_value_def canonicalJson_eq_Inr)
qed

lemma worktree_numbers_ok: "numbers_ok (worktree_value w)"
proof (cases w)
  case (Some x)
  then show ?thesis
    by (cases x) (simp_all add: worktree_value_def numbers_ok_eqs number_ok_def BRIDGE_PROTOCOL_VERSION_def)
qed (simp add: worktree_value_def numbers_ok_eqs)

lemma worktree_text_inject:
  assumes "worktree_option_ok v" and "worktree_option_ok w"
  shows "plain_text (canonical (worktree_value v)) = plain_text (canonical (worktree_value w)) \<longleftrightarrow> v = w"
proof
  assume "plain_text (canonical (worktree_value v)) = plain_text (canonical (worktree_value w))"
  then have e: "canonical (worktree_value v) = canonical (worktree_value w)"
    using canonicalJson_unique[OF worktree_text[OF assms(1)] worktree_text[OF assms(2)] worktree_numbers_ok worktree_numbers_ok]
    by simp
  have null: "canonical (worktree_object x) \<noteq> JNull" for x by (cases x) (simp_all add: canonical_eqs)
  have "x = y" if "v = Some x" "w = Some y" for x y
  proof -
    have "canonical (worktree_object x) = canonical (worktree_object y)"
      using e unfolding that worktree_value_def by simp
    moreover have "worktree_ok x" "worktree_ok y"
      using assms unfolding that worktree_option_ok_def by simp_all
    ultimately show ?thesis using decode_worktree_object(2) by (metis sum.inject(2))
  qed
  then show "v = w"
    using e null null[THEN not_sym] unfolding worktree_value_def by (cases v; cases w) (simp_all add: canonical_eqs)
qed simp

lemma sameIntentBinding_eq:
  assumes "binding_ok B r" and "binding_ok B e"
  shows "sameIntentBinding r e = Inr (r = e)"
proof -
  have l: "link_ok (biLink r)" "link_ok (biLink e)" "worktree_option_ok (biManagedWorktree r)" "worktree_option_ok (biManagedWorktree e)"
    using assms by (simp_all add: binding_ok_def)
  have link: "same_text (link_object (biLink r)) (link_object (biLink e)) = Inr (biLink r = biLink e)"
    using link_encodes[OF l(1)] link_encodes[OF l(2)] link_text_inject[OF l(1,2)]
    by (simp add: same_text_def encodeSessionCheckpointLink_def)
  have worktree: "same_text (worktree_value (biManagedWorktree r)) (worktree_value (biManagedWorktree e)) =
      Inr (biManagedWorktree r = biManagedWorktree e)"
    using worktree_text[OF l(3)] worktree_text[OF l(4)] worktree_text_inject[OF l(3,4)] by (simp add: same_text_def)
  have "(r = e) \<longleftrightarrow> biKind r = biKind e \<and> biSessionId r = biSessionId e \<and> biTargetEntryId r = biTargetEntryId e
          \<and> biResolvedEntryId r = biResolvedEntryId e \<and> biLinkKey r = biLinkKey e \<and> biLinkDigest r = biLinkDigest e \<and>
          biLink r = biLink e \<and> biManagedWorktree r = biManagedWorktree e"
    by (cases r; cases e) auto
  then show ?thesis by (auto simp: sameIntentBinding_def link worktree)
qed

section \<open>Reading what was written\<close>

definition time_ok :: "int \<Rightarrow> bool" where "time_ok t \<longleftrightarrow> 0 \<le> t \<and> t \<le> max_safe_integer"

fun status_ok :: "preparedIntentStatus \<Rightarrow> bool" where
  "status_ok Prepared \<longleftrightarrow> True"
| "status_ok (Consumed t) \<longleftrightarrow> time_ok t"
| "status_ok (Expired t) \<longleftrightarrow> time_ok t"

definition record_ok :: "builtins \<Rightarrow> bridgeIntentRecord \<Rightarrow> bool" where
  "record_ok B r \<longleftrightarrow> IDENTIFIER (irIntentId r) \<and> binding_ok B (irBinding r) \<and> time_ok (irCreatedAtMs r) \<and>
     time_ok (irExpiresAtMs r) \<and> irCreatedAtMs r \<le> irExpiresAtMs r \<and> status_ok (irStatus r)"

lemma safe_time: "time_ok t \<longleftrightarrow> safeIntentTime (JNum (NInt t))" "intent_time (JNum (NInt t)) = t"
  by (auto simp: time_ok_def safeIntentTime_def intent_time_def)

lemma safeIntentTimeD: "safeIntentTime v \<Longrightarrow> time_ok (intent_time v)"
  by (auto simp: time_ok_def safeIntentTime_def intent_time_def split: js.splits jnum.splits)

lemma parse_status_object: "status_ok s \<Longrightarrow> parseStatus (status_object s) = Inr s"
  by (cases s) (simp_all add: parseStatus_def status_object_def exactKeys_def safe_time)

lemma record_object_jget:
  fixes r defines "b \<equiv> irBinding r"
  shows "jget (record_object r) ''protocolVersion'' = JNum (NInt 1)" "jget (record_object r) ''intentId'' = JStr (irIntentId r)"
    "jget (record_object r) ''kind'' = JStr (case biKind b of TreeIntent \<Rightarrow> ''tree'' | ForkIntent \<Rightarrow> ''fork'')"
    "jget (record_object r) ''sessionId'' = JStr (biSessionId b)" "jget (record_object r) ''targetEntryId'' = JStr (biTargetEntryId b)"
    "jget (record_object r) ''resolvedEntryId'' = JStr (biResolvedEntryId b)" "jget (record_object r) ''linkKey'' = JStr (biLinkKey b)"
    "jget (record_object r) ''linkDigest'' = JStr (biLinkDigest b)" "jget (record_object r) ''link'' = link_object (biLink b)"
    "jget (record_object r) ''managedWorktree'' = worktree_value (biManagedWorktree b)"
    "jget (record_object r) ''createdAtMs'' = JNum (NInt (irCreatedAtMs r))"
    "jget (record_object r) ''expiresAtMs'' = JNum (NInt (irExpiresAtMs r))" "jget (record_object r) ''status'' = status_object (irStatus r)"
    "is_record (record_object r)" "keys_of (record_object r) = RECORD_KEYS"
  by (simp_all add: record_object_def b_def Let_def RECORD_KEYS_def)

lemma parse_binding_object:
  assumes "binding_ok B (irBinding r)"
  shows "parseIntentBinding B (record_object r) = Inr (irBinding r)"
proof -
  obtain k s t e key d l w where b: "irBinding r = \<lparr>biKind = k, biSessionId = s, biTargetEntryId = t, biResolvedEntryId = e,
      biLinkKey = key, biLinkDigest = d, biLink = l, biManagedWorktree = w\<rparr>"
    by (cases "irBinding r")
  have l: "link_ok l" and w: "worktree_option_ok w" and valid: "validateBinding B (irBinding r) ''stored'' = Inr ()"
    using assms by (simp_all add: binding_ok_def b validateBinding_Inr)
  have "worktree_object x \<noteq> JNull" for x by (cases x) simp_all
  then have worktree: "(if worktree_value w = JNull then Inr None
      else sbind (decodeManagedWorktreeRef (worktree_value w)) (\<lambda>w. Inr (Some w))) = Inr w"
    using w decode_worktree_object(1) by (cases w) (simp_all add: worktree_value_def worktree_option_ok_def)
  show ?thesis
    unfolding parseIntentBinding_def record_object_jget b preparedIntentBinding.simps worktree
    using valid by (cases k) (simp_all add: decode_link_object(1)[OF l] js_text_def Let_def b)
qed

lemma parse_record_object:
  assumes "record_ok B r"
  shows "parseIntentRecord B (record_object r) = Inr r"
  using assms parse_binding_object[of B r] parse_status_object[of "irStatus r"]
  by (simp add: parseIntentRecord_def record_object_jget exactKeys_def record_ok_def safe_time(1)[symmetric] safe_time(2)
      list_all_iff)

lemma parse_store_object:
  assumes "\<forall>r \<in> set rs. record_ok B r"
  shows "parseIntentStore B (store_object rs) = Inr rs"
proof -
  have "traverse (parseIntentRecord B) (map record_object rs) = Inr rs"
    using assms by (induction rs) (simp_all add: parse_record_object)
  then show ?thesis by (simp add: parseIntentStore_def store_object_def exactKeys_def)
qed
section \<open>What the store promises\<close>

text \<open>
  The abstract store is a table from intent ids to records. Every operation first lets the due
  intents expire, then answers from the table; no JSON, file or failure is left.
\<close>

type_synonym intentTable = "string \<Rightarrow> bridgeIntentRecord option"

datatype storeOp =
    OpPrepare jnum prepareInput
  | OpConsume jnum jnum string preparedIntentBinding
  | OpGet jnum string
  | OpList jnum

datatype storeAnswer =
    AnswerRecord bridgeIntentRecord
  | AnswerFound "bridgeIntentRecord option"
  | AnswerTable intentTable

definition table :: "bridgeIntentRecord list \<Rightarrow> intentTable" where
  "table rs i = List.find (\<lambda>r. irIntentId r = i) rs"

definition expire_at :: "int \<Rightarrow> bridgeIntentRecord \<Rightarrow> bridgeIntentRecord" where
  "expire_at now r = (if irStatus r = Prepared \<and> irExpiresAtMs r \<le> now then r\<lparr>irStatus := Expired now\<rparr> else r)"

definition due :: "int \<Rightarrow> intentTable \<Rightarrow> intentTable" where
  "due now m i = map_option (expire_at now) (m i)"

definition spec_consume :: "jnum \<Rightarrow> string \<Rightarrow> preparedIntentBinding \<Rightarrow> intentTable \<Rightarrow> intentTable \<Rightarrow> storeAnswer result \<times> intentTable" where
  "spec_consume clock' intent expected m m' =
     (case m' intent of
        None \<Rightarrow> (intent_fail MissingIntent intent, m')
      | Some c \<Rightarrow>
          if irBinding c \<noteq> expected then (intent_fail IntentMismatch intent, m')
          else (case irStatus c of
              Expired _ \<Rightarrow> (intent_fail ExpiredIntent intent, m')
            | Consumed _ \<Rightarrow> (Inr (AnswerRecord c), m')
            | Prepared \<Rightarrow>
                (case read_clock clock' of
                   Inl e \<Rightarrow> (Inl e, m)
                 | Inr at \<Rightarrow> (Inr (AnswerRecord (c\<lparr>irStatus := Consumed at\<rparr>)), m'(intent \<mapsto> c\<lparr>irStatus := Consumed at\<rparr>)))))"

definition spec_prepare :: "prepareInput \<Rightarrow> bridgeIntentRecord \<Rightarrow> intentTable \<Rightarrow> storeAnswer result \<times> intentTable" where
  "spec_prepare input candidate m' =
     (case m' (piIntentId input) of
        None \<Rightarrow> (Inr (AnswerRecord candidate), m'(piIntentId input \<mapsto> candidate))
      | Some c \<Rightarrow>
          if irStatus c = Prepared \<and> irBinding c = piBinding input then (Inr (AnswerRecord c), m')
          else (intent_fail IntentConflict (piIntentId input), m'))"

definition spec_answer :: "builtins \<Rightarrow> storeOp \<Rightarrow> int \<Rightarrow> intentTable \<Rightarrow> storeAnswer result \<times> intentTable" where
  "spec_answer B op now m =
     (case op of
        OpPrepare _ input \<Rightarrow>
          (case createIntentRecord B input now of
             Inl e \<Rightarrow> (Inl e, m) | Inr c \<Rightarrow> spec_prepare input c (due now m))
      | OpConsume _ clock' intent expected \<Rightarrow> spec_consume clock' intent expected m (due now m)
      | OpGet _ intent \<Rightarrow> (Inr (AnswerFound (due now m intent)), due now m)
      | OpList _ \<Rightarrow> (Inr (AnswerTable (due now m)), due now m))"

fun op_clock :: "storeOp \<Rightarrow> jnum" where
  "op_clock (OpPrepare t _) = t"
| "op_clock (OpConsume t _ _ _) = t"
| "op_clock (OpGet t _) = t"
| "op_clock (OpList t) = t"

definition spec :: "builtins \<Rightarrow> storeOp \<Rightarrow> intentTable \<Rightarrow> storeAnswer result \<times> intentTable" where
  "spec B op m = (case read_clock (op_clock op) of Inl e \<Rightarrow> (Inl e, m) | Inr now \<Rightarrow> spec_answer B op now m)"

fun run_op :: "builtins \<Rightarrow> writeEvent \<Rightarrow> storeOp \<Rightarrow> string option \<Rightarrow> storeAnswer result \<times> string option" where
  "run_op B w (OpPrepare t input) f = (let (r, f') = prepare_intent B w t input f in (map_sum id AnswerRecord r, f'))"
| "run_op B w (OpConsume t t' i e) f = (let (r, f') = consume_intent B w t t' i e f in (map_sum id AnswerRecord r, f'))"
| "run_op B w (OpGet t i) f = (let (r, f') = get_intent B w t i f in (map_sum id AnswerFound r, f'))"
| "run_op B w (OpList t) f = (let (r, f') = list_intents B w t f in (map_sum id (AnswerTable \<circ> table) r, f'))"

fun op_ok :: "builtins \<Rightarrow> storeOp \<Rightarrow> bool" where
  "op_ok B (OpPrepare _ input) \<longleftrightarrow> link_ok (biLink (piBinding input)) \<and> worktree_option_ok (biManagedWorktree (piBinding input))"
| "op_ok B (OpConsume _ _ _ e) \<longleftrightarrow> binding_ok B e"
| "op_ok B _ \<longleftrightarrow> True"

text \<open>A file that the store wrote is read back when it is not too long and \<open>JSON.parse\<close> inverts printing.\<close>

definition readable :: "builtins \<Rightarrow> string option \<Rightarrow> bool" where
  "readable B f \<longleftrightarrow>
     (\<forall>rs. f = Some (store_text rs) \<longrightarrow>
        utf8_bytes (store_text rs) \<le> MAX_STORE_BYTES \<and> json_parse B (store_text rs) = Some (store_object rs))"

definition holds :: "builtins \<Rightarrow> string option \<Rightarrow> intentTable \<Rightarrow> bool" where
  "holds B f m \<longleftrightarrow> (\<exists>rs. read_store B f = Inr rs \<and> (\<forall>r \<in> set rs. record_ok B r) \<and> m = table rs)"

lemma holds_written:
  assumes "readable B (Some (store_text rs))" and "\<forall>r \<in> set rs. record_ok B r"
  shows "holds B (Some (store_text rs)) (table rs)"
  using assms parse_store_object[OF assms(2)]
  by (auto simp: holds_def readable_def read_store_def)

lemma expireIntents_eq: "fst (expireIntents rs now) = map (expire_at now) rs"
  by (auto simp: expireIntents_def expire_at_def)

lemma expire_unchanged: "\<not> snd (expireIntents rs now) \<Longrightarrow> map (expire_at now) rs = rs"
  by (auto simp: expireIntents_def expire_at_def list_ex_iff intro!: map_idI)

lemma expire_at_id [simp]: "irIntentId (expire_at now r) = irIntentId r"
  by (simp add: expire_at_def)

lemma table_expire: "table (map (expire_at now) rs) = due now (table rs)"
proof
  show "table (map (expire_at now) rs) i = due now (table rs) i" for i
    by (induction rs) (simp_all add: table_def due_def)
qed

lemma table_snoc: "table rs (irIntentId c) = None \<Longrightarrow> table (rs @ [c]) = (table rs)(irIntentId c \<mapsto> c)"
proof
  fix i assume "table rs (irIntentId c) = None"
  then show "table (rs @ [c]) i = ((table rs)(irIntentId c \<mapsto> c)) i"
    by (induction rs) (auto simp: table_def split: if_splits)
qed

lemma find_index_Some:
  "find_index P xs = Some i \<Longrightarrow> i < length xs \<and> P (xs ! i) \<and> List.find P xs = Some (xs ! i)"
  by (induction xs arbitrary: i) (auto split: if_splits)

lemma find_index_None: "find_index P xs = None \<longleftrightarrow> List.find P xs = None"
  by (induction xs) auto

lemma table_update:
  assumes "find_index (\<lambda>r. irIntentId r = i) rs = Some k" and "irIntentId c = i"
  shows "table (rs[k := c]) = (table rs)(i \<mapsto> c)"
proof
  show "table (rs[k := c]) j = ((table rs)(i \<mapsto> c)) j" for j
    using assms by (induction rs arbitrary: k) (auto simp: table_def split: if_splits nat.splits)
qed

lemma record_ok_expire: "record_ok B r \<Longrightarrow> time_ok now \<Longrightarrow> record_ok B (expire_at now r)"
  by (simp add: record_ok_def expire_at_def)

lemma read_clock_ok: "read_clock t = Inr now \<Longrightarrow> time_ok now"
  by (auto simp: read_clock_def dest: safeIntentTimeD split: if_splits)

lemma record_ok_create:
  assumes "createIntentRecord B input now = Inr c" and "time_ok now"
    and "link_ok (biLink (piBinding input))" and "worktree_option_ok (biManagedWorktree (piBinding input))"
  shows "record_ok B c" and "irIntentId c = piIntentId input" and "irBinding c = piBinding input"
  using assms
  by (auto simp: createIntentRecord_def result_simps record_ok_def binding_ok_def safe_time(1)[symmetric]
      split: jnum.splits if_splits)
text \<open>
  An operation that touched the file as the table prescribes, or whose write failed: then the
  caller gets an error and the table is the old or the new one.
\<close>

definition implements ::
    "builtins \<Rightarrow> writeEvent \<Rightarrow> intentTable \<Rightarrow> storeAnswer result \<times> string option \<Rightarrow> storeAnswer result \<times> intentTable \<Rightarrow> bool" where
  "implements B w m rf s \<longleftrightarrow>
     fst rf = fst s \<and> holds B (snd rf) (snd s) \<or>
     w \<noteq> Written \<and> fst rf = Inl io_error \<and> (holds B (snd rf) m \<or> holds B (snd rf) (snd s))"

lemma write_store_implements:
  assumes "holds B f m" and "readable B (snd (write_store w f rs r))" and "\<forall>c \<in> set rs. record_ok B c"
  shows "implements B w m (map_prod (map_sum id g) id (write_store w f rs r)) (map_sum id g r, table rs)"
  using assms holds_written[of B rs] by (cases w) (simp_all add: write_store_def implements_def)

lemma settle_implements:
  assumes "holds B f (table rs)" and "read_store B f = Inr rs" and "\<forall>c \<in> set rs. record_ok B c" and "time_ok now"
    and "readable B (snd (settle w f (expireIntents rs now) r))"
  shows "implements B w (table rs) (map_prod (map_sum id g) id (settle w f (expireIntents rs now) r))
    (map_sum id g r, due now (table rs))"
proof (cases "snd (expireIntents rs now)")
  case True
  have "\<forall>c \<in> set (map (expire_at now) rs). record_ok B c"
    using assms(3,4) record_ok_expire by auto
  from write_store_implements[OF assms(1) _ this] True assms(5) show ?thesis
    by (simp add: settle_def expireIntents_eq table_expire)
next
  case False
  with assms(1) expire_unchanged[OF False] table_expire[of now rs] show ?thesis
    by (simp add: settle_def implements_def)
qed

lemma run_op_as_map:
  "run_op B w (OpPrepare t input) f = map_prod (map_sum id AnswerRecord) id (prepare_intent B w t input f)"
  "run_op B w (OpConsume t t' i e) f = map_prod (map_sum id AnswerRecord) id (consume_intent B w t t' i e f)"
  "run_op B w (OpGet t i) f = map_prod (map_sum id AnswerFound) id (get_intent B w t i f)"
  "run_op B w (OpList t) f = map_prod (map_sum id (AnswerTable \<circ> table)) id (list_intents B w t f)"
  by (simp_all add: map_prod_def split: prod.splits)

lemma fails_implements: "holds B f m \<Longrightarrow> implements B w m (Inl e, f) (Inl e, m)"
  by (simp add: implements_def)

lemma map_intent_fail [simp]: "map_sum id g (intent_fail c i) = intent_fail c i"
  by (simp add: intent_fail_def)

lemma get_implements:
  assumes "read_store B f = Inr rs" and "\<forall>c \<in> set rs. record_ok B c" and "readable B (snd (run_op B w (OpGet t i) f))"
  shows "implements B w (table rs) (run_op B w (OpGet t i) f) (spec B (OpGet t i) (table rs))"
proof -
  have h: "holds B f (table rs)" using assms(1,2) by (auto simp: holds_def)
  show ?thesis
  proof (cases "read_clock t")
    case (Inl e)
    with assms h show ?thesis by (simp add: run_op_as_map get_intent_def spec_def fails_implements del: run_op.simps)
  next
    case (Inr now)
    have get: "get_intent B w t i f = settle w f (expireIntents rs now) (Inr (due now (table rs) i))"
      using assms(1) Inr table_expire[of now rs] by (simp add: get_intent_def expireIntents_eq table_def fun_eq_iff)
    from settle_implements[OF h assms(1,2) read_clock_ok[OF Inr], of w "Inr (due now (table rs) i)" AnswerFound] assms(3)
    show ?thesis by (simp add: run_op_as_map get spec_def Inr spec_answer_def del: run_op.simps)
  qed
qed

lemma list_implements:
  assumes "read_store B f = Inr rs" and "\<forall>c \<in> set rs. record_ok B c" and "readable B (snd (run_op B w (OpList t) f))"
  shows "implements B w (table rs) (run_op B w (OpList t) f) (spec B (OpList t) (table rs))"
proof -
  have h: "holds B f (table rs)" using assms(1,2) by (auto simp: holds_def)
  show ?thesis
  proof (cases "read_clock t")
    case (Inl e)
    with assms h show ?thesis by (simp add: run_op_as_map list_intents_def spec_def fails_implements del: run_op.simps)
  next
    case (Inr now)
    have l: "list_intents B w t f = settle w f (expireIntents rs now) (Inr (map (expire_at now) rs))"
      using assms(1) Inr by (simp add: list_intents_def expireIntents_eq)
    from settle_implements[OF h assms(1,2) read_clock_ok[OF Inr], of w "Inr (map (expire_at now) rs)" "AnswerTable \<circ> table"] assms(3)
    show ?thesis by (simp add: run_op_as_map l spec_def Inr spec_answer_def table_expire del: run_op.simps)
  qed
qed
lemma expired_records: "\<forall>c \<in> set rs. record_ok B c \<Longrightarrow> time_ok now \<Longrightarrow> c \<in> set (map (expire_at now) rs) \<Longrightarrow> record_ok B c"
  using record_ok_expire by auto

lemma prepare_implements:
  assumes "read_store B f = Inr rs" and ok: "\<forall>c \<in> set rs. record_ok B c" and input: "op_ok B (OpPrepare t input)"
    and readable: "readable B (snd (run_op B w (OpPrepare t input) f))"
  shows "implements B w (table rs) (run_op B w (OpPrepare t input) f) (spec B (OpPrepare t input) (table rs))"
proof -
  have h: "holds B f (table rs)" using assms(1,2) by (auto simp: holds_def)
  note fail = fails_implements[OF h]
  show ?thesis
  proof (cases "read_clock t")
    case (Inl e)
    with assms(1) fail show ?thesis by (simp add: run_op_as_map prepare_intent_def spec_def del: run_op.simps)
  next
    case now: (Inr now)
    show ?thesis
    proof (cases "createIntentRecord B input now")
      case (Inl e)
      with assms(1) now fail show ?thesis
        by (simp add: run_op_as_map prepare_intent_def spec_def spec_answer_def del: run_op.simps)
    next
      case c: (Inr c)
      note created = record_ok_create[OF c read_clock_ok[OF now]]
      have cok: "record_ok B c" "irIntentId c = piIntentId input" using created input by simp_all
      let ?rs = "map (expire_at now) rs"
      have t: "List.find (\<lambda>r. irIntentId r = piIntentId input) ?rs = table ?rs (piIntentId input)" by (simp add: table_def)
      show ?thesis
      proof (cases "table ?rs (piIntentId input)")
        case None
        have p: "prepare_intent B w t input f = write_store w f (?rs @ [c]) (Inr c)"
          using assms(1) now c None by (simp add: prepare_intent_def expireIntents_eq t)
        have "table (?rs @ [c]) = (due now (table rs))(piIntentId input \<mapsto> c)"
          using table_snoc[of ?rs c] None cok(2) by (simp add: table_expire)
        with write_store_implements[OF h, of w "?rs @ [c]" "Inr c" AnswerRecord] expired_records[OF ok read_clock_ok[OF now]] cok(1)
          readable None
        show ?thesis
          by (simp add: run_op_as_map p spec_def now spec_answer_def c spec_prepare_def table_expire del: run_op.simps)
      next
        case e: (Some e)
        have "e \<in> set ?rs" using e by (auto simp: table_def dest: find_SomeD)
        then have eok: "binding_ok B (irBinding e)"
          using expired_records[OF ok read_clock_ok[OF now]] by (simp add: record_ok_def)
        have iok: "binding_ok B (piBinding input)" using created(3) cok(1) input by (simp add: record_ok_def)
        let ?same = "irStatus e = Prepared \<and> irBinding e = piBinding input"
        let ?r = "if ?same then Inr e else intent_fail IntentConflict (piIntentId input)"
        have p: "prepare_intent B w t input f = settle w f (expireIntents rs now) ?r"
          using assms(1) now c e sameIntentBinding_eq[OF eok iok] sameIntentBinding_eq[OF iok iok]
          by (auto simp: prepare_intent_def expireIntents_eq t)
        from settle_implements[OF h assms(1) ok read_clock_ok[OF now], of w ?r AnswerRecord] readable e
        show ?thesis
          by (auto simp: run_op_as_map p spec_def now spec_answer_def c spec_prepare_def table_expire simp del: run_op.simps)
      qed
    qed
  qed
qed

lemma consume_implements:
  assumes "read_store B f = Inr rs" and ok: "\<forall>c \<in> set rs. record_ok B c" and eok: "op_ok B (OpConsume t t' i e)"
    and readable: "readable B (snd (run_op B w (OpConsume t t' i e) f))"
  shows "implements B w (table rs) (run_op B w (OpConsume t t' i e) f) (spec B (OpConsume t t' i e) (table rs))"
proof -
  have h: "holds B f (table rs)" using assms(1,2) by (auto simp: holds_def)
  note fail = fails_implements[OF h]
  show ?thesis
  proof (cases "read_clock t")
    case (Inl x)
    with assms(1) fail show ?thesis by (simp add: run_op_as_map consume_intent_def spec_def del: run_op.simps)
  next
    case now: (Inr now)
    let ?rs = "map (expire_at now) rs"
    let ?P = "\<lambda>r. irIntentId r = i"
    have t: "table ?rs i = List.find ?P ?rs" by (simp add: table_def)
    note settled = settle_implements[OF h assms(1) ok read_clock_ok[OF now], where w = w and g = AnswerRecord]
    show ?thesis
    proof (cases "find_index ?P ?rs")
      case None
      then have c: "consume_intent B w t t' i e f = settle w f (expireIntents rs now) (intent_fail MissingIntent i)"
        using assms(1) now by (simp add: consume_intent_def expireIntents_eq)
      have "table ?rs i = None" using None by (simp add: t find_index_None)
      with settled[of "intent_fail MissingIntent i"] readable show ?thesis
        by (simp add: run_op_as_map c spec_def now spec_answer_def spec_consume_def table_expire del: run_op.simps)
    next
      case k: (Some k)
      let ?c = "?rs ! k"
      have found: "table ?rs i = Some ?c" "irIntentId ?c = i" "?c \<in> set ?rs"
        using find_index_Some[OF k] by (simp_all only: t nth_mem)
      have cok: "record_ok B ?c" using expired_records[OF ok read_clock_ok[OF now] found(3)] .
      then have same: "sameIntentBinding (irBinding ?c) e = Inr (irBinding ?c = e)"
        using eok by (intro sameIntentBinding_eq) (simp_all add: record_ok_def)
      let ?step = "if irBinding ?c \<noteq> e then settle w f (expireIntents rs now) (intent_fail IntentMismatch i)
          else (case irStatus ?c of
              Expired _ \<Rightarrow> settle w f (expireIntents rs now) (intent_fail ExpiredIntent i)
            | Consumed _ \<Rightarrow> settle w f (expireIntents rs now) (Inr ?c)
            | Prepared \<Rightarrow>
                (case read_clock t' of
                   Inl x \<Rightarrow> (Inl x, f)
                 | Inr at \<Rightarrow> write_store w f (?rs[k := ?c\<lparr>irStatus := Consumed at\<rparr>]) (Inr (?c\<lparr>irStatus := Consumed at\<rparr>))))"
      have c: "consume_intent B w t t' i e f = ?step"
        unfolding consume_intent_def assms(1) now sbind_simps sum.case expireIntents_eq k option.case Let_def same
        by simp
      have spec: "spec B (OpConsume t t' i e) (table rs) =
         (if irBinding ?c \<noteq> e then (intent_fail IntentMismatch i, due now (table rs))
          else (case irStatus ?c of
              Expired _ \<Rightarrow> (intent_fail ExpiredIntent i, due now (table rs))
            | Consumed _ \<Rightarrow> (Inr (AnswerRecord ?c), due now (table rs))
            | Prepared \<Rightarrow>
                (case read_clock t' of
                   Inl x \<Rightarrow> (Inl x, table rs)
                 | Inr at \<Rightarrow> (Inr (AnswerRecord (?c\<lparr>irStatus := Consumed at\<rparr>)),
                     (due now (table rs))(i \<mapsto> ?c\<lparr>irStatus := Consumed at\<rparr>)))))"
        unfolding spec_def op_clock.simps now sum.case spec_answer_def storeOp.case spec_consume_def table_expire[symmetric] found(1)
          option.case ..
      note parts = run_op_as_map(2) c spec
      show ?thesis
      proof (cases "irBinding ?c = e")
        case False
        with settled[of "intent_fail IntentMismatch i"] readable show ?thesis unfolding parts by simp
      next
        case e: True
        show ?thesis
        proof (cases "irStatus ?c")
          case (Expired x)
          with e settled[of "intent_fail ExpiredIntent i"] readable show ?thesis unfolding parts by simp
        next
          case (Consumed x)
          with e settled[of "Inr ?c"] readable show ?thesis unfolding parts by simp
        next
          case p: Prepared
          show ?thesis
          proof (cases "read_clock t'")
            case (Inl x)
            with e p fail show ?thesis unfolding parts by simp
          next
            case at: (Inr at)
            let ?c' = "?c\<lparr>irStatus := Consumed at\<rparr>"
            have "record_ok B ?c'" using cok read_clock_ok[OF at] by (simp add: record_ok_def)
            then have all: "\<forall>x \<in> set (?rs[k := ?c']). record_ok B x"
              using expired_records[OF ok read_clock_ok[OF now]] set_update_subset_insert[of ?rs k ?c'] by blast
            have id': "irIntentId ?c' = i" using found(2) by simp
            have "table (?rs[k := ?c']) = (due now (table rs))(i \<mapsto> ?c')"
              using table_update[OF k id'] by (simp only: table_expire)
            with write_store_implements[OF h _ all, of w "Inr ?c'" AnswerRecord] readable e p at
            show ?thesis unfolding parts by simp
          qed
        qed
      qed
    qed
  qed
qed
lemma run_op_implements:
  assumes "holds B f m" and "op_ok B op" and "readable B (snd (run_op B w op f))"
  shows "implements B w m (run_op B w op f) (spec B op m)"
proof -
  from assms(1) obtain rs where rs: "read_store B f = Inr rs" "\<forall>r \<in> set rs. record_ok B r" and m: "m = table rs"
    by (auto simp: holds_def)
  show ?thesis
  proof (cases op)
    case (OpPrepare t input)
    show ?thesis using prepare_implements[OF rs] assms(2,3) unfolding m OpPrepare by simp
  next
    case (OpConsume t t' i e)
    show ?thesis using consume_implements[OF rs] assms(2,3) unfolding m OpConsume by simp
  next
    case (OpGet t i)
    show ?thesis using get_implements[OF rs] assms(3) unfolding m OpGet by simp
  next
    case (OpList t)
    show ?thesis using list_implements[OF rs] assms(3) unfolding m OpList by simp
  qed
qed

section \<open>Histories\<close>

text \<open>What an operation leaves of the records: nothing is lost, only a prepared status changes.\<close>

definition settles :: "intentTable \<Rightarrow> intentTable \<Rightarrow> bool" where
  "settles m m' \<longleftrightarrow> (\<forall>i r. m i = Some r \<longrightarrow> (\<exists>r'. m' i = Some r' \<and> irBinding r' = irBinding r \<and>
     irCreatedAtMs r' = irCreatedAtMs r \<and> irExpiresAtMs r' = irExpiresAtMs r \<and> (irStatus r \<noteq> Prepared \<longrightarrow> r' = r)))"

lemma settlesI:
  "(\<And>i r. m i = Some r \<Longrightarrow> \<exists>r'. m' i = Some r' \<and> irBinding r' = irBinding r \<and>
     irCreatedAtMs r' = irCreatedAtMs r \<and> irExpiresAtMs r' = irExpiresAtMs r \<and> (irStatus r \<noteq> Prepared \<longrightarrow> r' = r)) \<Longrightarrow>
   settles m m'"
  by (simp add: settles_def)

lemma settles_refl [simp]: "settles m m"
  by (simp add: settles_def)

lemma settles_trans: "settles m m' \<Longrightarrow> settles m' m'' \<Longrightarrow> settles m m''"
  by (fastforce simp: settles_def)

lemma settles_due: "settles m (due now m)"
  by (auto simp: settles_def due_def expire_at_def)

lemma settles_update:
  assumes "m' i = None \<or> (\<exists>c. m' i = Some c \<and> irStatus c = Prepared \<and> r = c\<lparr>irStatus := s\<rparr>)"
  shows "settles m' (m'(i \<mapsto> r))"
  using assms by (auto simp: settles_def)

lemma settles_spec: "settles m (snd (spec B op m))"
proof (cases "read_clock (op_clock op)")
  case (Inr now)
  have update: "settles m ((due now m)(i \<mapsto> r))"
    if "due now m i = None \<or> (\<exists>c. due now m i = Some c \<and> irStatus c = Prepared \<and> r = c\<lparr>irStatus := s\<rparr>)" for i r s
    by (rule settles_trans[OF settles_due settles_update]) (rule that)
  have "settles m (snd (spec_answer B op now m))"
  proof (cases op)
    case (OpPrepare t input)
    then show ?thesis using settles_due update
      by (auto simp: spec_answer_def spec_prepare_def split: sum.splits option.splits)
  next
    case (OpConsume t t' i e)
    then show ?thesis using settles_due update
      by (auto simp: spec_answer_def spec_consume_def split: sum.splits option.splits preparedIntentStatus.splits)
  qed (simp_all add: spec_answer_def settles_due)
  with Inr show ?thesis by (simp add: spec_def)
qed (simp add: spec_def)

text \<open>The files that a sequence of steps goes through.\<close>

fun files_along :: "('o \<Rightarrow> 'f \<Rightarrow> 'f) \<Rightarrow> 'o list \<Rightarrow> 'f \<Rightarrow> 'f list" where
  "files_along st [] f = [f]"
| "files_along st (x # xs) f = f # files_along st xs (st x f)"

locale intent_table =
  fixes keeps :: "'f \<Rightarrow> intentTable \<Rightarrow> bool"
    and sound :: "'f \<Rightarrow> bool"
    and allowed :: "'o \<Rightarrow> bool"
    and advance :: "'o \<Rightarrow> 'f \<Rightarrow> 'f"
  assumes advance_settles:
    "keeps f m \<Longrightarrow> allowed x \<Longrightarrow> sound (advance x f) \<Longrightarrow> \<exists>m'. keeps (advance x f) m' \<and> settles m m'"
begin

lemma files_along_hd: "f \<in> set (files_along advance xs f)"
  by (cases xs) simp_all

lemma history_settles:
  assumes "keeps f m" and "\<forall>x \<in> set xs. allowed x" and "\<forall>g \<in> set (files_along advance xs f). sound g"
  shows "\<exists>m'. keeps (fold advance xs f) m' \<and> settles m m'"
  using assms
proof (induction xs arbitrary: f m)
  case (Cons x xs)
  have "sound (advance x f)" using Cons.prems(3) files_along_hd[of "advance x f" xs] by simp
  with Cons.prems obtain m1 where "keeps (advance x f) m1" "settles m m1"
    using advance_settles[of f m x] by auto
  moreover from this Cons obtain m2 where "keeps (fold advance xs (advance x f)) m2" "settles m1 m2" by force
  ultimately show ?case using settles_trans by auto
qed auto

lemma settled_record_stays:
  assumes "keeps f m" and "\<forall>x \<in> set xs. allowed x" and "\<forall>g \<in> set (files_along advance xs f). sound g"
    and "m i = Some r" and "irStatus r \<noteq> Prepared"
  shows "\<exists>m'. keeps (fold advance xs f) m' \<and> m' i = Some r"
  using history_settles[OF assms(1-3)] assms(4,5) by (fastforce simp: settles_def)

end

definition store_step :: "builtins \<Rightarrow> writeEvent \<times> storeOp \<Rightarrow> string option \<Rightarrow> string option" where
  "store_step B x f = snd (run_op B (fst x) (snd x) f)"

interpretation intents: intent_table "holds B" "readable B" "\<lambda>x. op_ok B (snd x)" "store_step B" for B
proof
  fix f m and x :: "writeEvent \<times> storeOp"
  assume "holds B f m" "op_ok B (snd x)" "readable B (store_step B x f)"
  then show "\<exists>m'. holds B (store_step B x f) m' \<and> settles m m'"
    using run_op_implements[of B f m "snd x" "fst x"] settles_spec[of m B "snd x"] settles_refl[of m]
    unfolding implements_def store_step_def by blast
qed

lemma consume_answer:
  assumes "fst (spec B (OpConsume t t' i e) m) = Inr (AnswerRecord r)"
  shows "snd (spec B (OpConsume t t' i e) m) i = Some r" and "irBinding r = e" and "\<exists>s. irStatus r = Consumed s"
  using assms
  by (auto simp: spec_def spec_answer_def spec_consume_def intent_fail_def
      split: sum.splits option.splits if_splits preparedIntentStatus.splits)

lemma consume_settled:
  assumes "fst (spec B (OpConsume t t' i e) m) = Inr (AnswerRecord r)" and "m i = Some c" and "irStatus c \<noteq> Prepared"
  shows "r = c"
  using assms
  by (auto simp: spec_def spec_answer_def spec_consume_def intent_fail_def due_def expire_at_def
      split: sum.splits option.splits if_splits preparedIntentStatus.splits)

lemma consumed_stays:
  assumes "holds B f m" and "op_ok B (OpConsume t t' i e)"
    and first: "run_op B w (OpConsume t t' i e) f = (Inr (AnswerRecord r), f1)"
    and "\<forall>x \<in> set xs. op_ok B (snd x)" and "\<forall>g \<in> set (files_along (store_step B) xs f1). readable B g"
    and "op_ok B (OpConsume u u' i e')" and "readable B f3"
    and second: "run_op B w' (OpConsume u u' i e') (fold (store_step B) xs f1) = (Inr (AnswerRecord r'), f3)"
  shows "r' = r \<and> e' = e \<and> (\<exists>s. irStatus r = Consumed s)"
proof -
  have "readable B f1" using assms(5) intents.files_along_hd by blast
  then have one: "fst (spec B (OpConsume t t' i e) m) = Inr (AnswerRecord r)" "holds B f1 (snd (spec B (OpConsume t t' i e) m))"
    using run_op_implements[OF assms(1,2), of w] first by (auto simp: implements_def io_error_def)
  note r = consume_answer[OF one(1)]
  then have "irStatus r \<noteq> Prepared" by auto
  from intents.settled_record_stays[OF one(2) assms(4,5) r(1) this]
  obtain m2 where m2: "holds B (fold (store_step B) xs f1) m2" "m2 i = Some r" by blast
  have two: "fst (spec B (OpConsume u u' i e') m2) = Inr (AnswerRecord r')"
    using run_op_implements[OF m2(1) assms(6), of w'] second assms(7) by (auto simp: implements_def io_error_def)
  from consume_settled[OF two m2(2)] \<open>irStatus r \<noteq> Prepared\<close> have "r' = r" by blast
  with consume_answer(2)[OF two] r show ?thesis by blast
qed
section \<open>Printed stores\<close>

lemma numbers_ok_store: "numbers_ok (store_object rs)"
  using link_numbers_ok worktree_numbers_ok
  by (auto simp: store_object_def record_object_def status_object_def Let_def numbers_ok_eqs number_ok_def
      split: preparedIntentStatus.splits)

lemma json_data_nested:
  assumes "d \<le> 20"
  shows "json_data (snapshot_object s) d" "json_data (worktree_object w) d" "json_data (link_object l) d"
    "json_data (worktree_value v) d" "json_data (status_object st) d"
proof -
  have snapshot: "json_data (snapshot_object s) d" if "d \<le> 25" for d s
    using that by (auto simp: snapshot_object_def json_data_eqs BRIDGE_PROTOCOL_VERSION_def MAX_CANONICAL_DEPTH_def
        finite_number_def split: option.splits)
  have worktree: "json_data (worktree_object w) d" if "d \<le> 25" for d w
    using that by (cases w) (simp_all add: json_data_eqs BRIDGE_PROTOCOL_VERSION_def MAX_CANONICAL_DEPTH_def finite_number_def)
  show "json_data (snapshot_object s) d" "json_data (worktree_object w) d" using snapshot worktree assms by simp_all
  show "json_data (link_object l) d"
    using snapshot worktree assms by (cases "slManagedWorktree l")
      (simp_all add: link_object_def json_data_eqs BRIDGE_PROTOCOL_VERSION_def MAX_CANONICAL_DEPTH_def finite_number_def)
  show "json_data (worktree_value v) d"
    using worktree assms by (cases v) (simp_all add: worktree_value_def json_data_eqs MAX_CANONICAL_DEPTH_def)
  show "json_data (status_object st) d"
    using assms by (cases st) (simp_all add: status_object_def json_data_eqs MAX_CANONICAL_DEPTH_def finite_number_def)
qed

lemma json_data_store: "json_data (store_object rs) 0"
  using json_data_nested
  by (auto simp: store_object_def record_object_def Let_def json_data_eqs MAX_CANONICAL_DEPTH_def finite_number_def)

lemma store_text_inject: "store_text rs = store_text rs' \<Longrightarrow> store_object rs = store_object rs'"
  using plain_text_unique[OF json_data_store json_data_store numbers_ok_store numbers_ok_store, of "[]" "[]" rs rs']
  by (simp add: store_text_def delimited_def)

section \<open>Properties\<close>

text \<open>
  Claim C18 (intent_store_refines). The intent store refines a table of intents. Whatever the file holds, an operation on it
  (prepare, consume, get or list, on every branch) returns the answer and leaves the table that the
  abstract operation prescribes. When replacing the file fails, the caller gets an error and the file holds the
  old or the new table, never anything else. The file read back is the one written, as long as
  it is not longer than a mebibyte and \<open>JSON.parse\<close> inverts \<open>JSON.stringify\<close> on it.
\<close>

theorem intent_store_refines:
  assumes "holds B f m" and "op_ok B op" and "readable B (snd (run_op B w op f))"
  shows "implements B w m (run_op B w op f) (spec B op m)"
  using run_op_implements[OF assms] .

text \<open>A digest that tells the second sample entry from every other text.\<close>

definition sample_sha :: "string \<Rightarrow> string" where
  "sample_sha t =
     replicate 64 (if take 3 (rev t) = [CHR '']'', CHR 0x22, CHR ''2''] then CHR ''e'' else CHR ''d'')"

definition intent_builtins :: "(string \<Rightarrow> js option) \<Rightarrow> builtins" where
  "intent_builtins p =
     \<lparr>json_parse = p, json_stringify = (\<lambda>_. []), sha256_hex = sample_sha, locale_compare = (\<lambda>_ _. 0)\<rparr>"

definition sample_binding :: preparedIntentBinding where
  "sample_binding =
     \<lparr>biKind = TreeIntent, biSessionId = ''session'', biTargetEntryId = ''entry-2'', biResolvedEntryId = ''entry-1'',
      biLinkKey = replicate 64 (CHR ''d''), biLinkDigest = replicate 64 (CHR ''d''), biLink = sample_link,
      biManagedWorktree = slManagedWorktree sample_link\<rparr>"

definition sample_record :: "preparedIntentStatus \<Rightarrow> bridgeIntentRecord" where
  "sample_record s =
     \<lparr>irIntentId = ''intent-1'', irBinding = sample_binding, irCreatedAtMs = 1000, irExpiresAtMs = 6000, irStatus = s\<rparr>"

definition sample_parse :: "string \<Rightarrow> js option" where
  "sample_parse t = (if t = store_text [sample_record Prepared] then Some (store_object [sample_record Prepared])
     else if t = store_text [sample_record (Consumed 2000)] then Some (store_object [sample_record (Consumed 2000)]) else None)"

lemma sample_distinct: "store_text [sample_record Prepared] \<noteq> store_text [sample_record (Consumed 2000)]"
proof
  assume "store_text [sample_record Prepared] = store_text [sample_record (Consumed 2000)]"
  from store_text_inject[OF this] show False
    by (simp add: store_object_def record_object_def sample_record_def status_object_def Let_def)
qed

lemma sample_readable:
  assumes "s = Prepared \<or> s = Consumed 2000"
  shows "readable (intent_builtins sample_parse) (Some (store_text [sample_record s]))"
proof -
  have size: "utf8_bytes (store_text [sample_record Prepared]) \<le> MAX_STORE_BYTES"
    "utf8_bytes (store_text [sample_record (Consumed 2000)]) \<le> MAX_STORE_BYTES"
    by code_simp+
  have "sample_parse (store_text [sample_record s]) = Some (store_object [sample_record s])"
    using assms sample_distinct by (auto simp: sample_parse_def)
  moreover have "utf8_bytes (store_text [sample_record s]) \<le> MAX_STORE_BYTES"
    using assms size by blast
  ultimately have "utf8_bytes (store_text rs) \<le> MAX_STORE_BYTES \<and>
      json_parse (intent_builtins sample_parse) (store_text rs) = Some (store_object rs)"
    if "store_text [sample_record s] = store_text rs" for rs
    using store_text_inject[OF that] unfolding that by (simp add: intent_builtins_def)
  then show ?thesis unfolding readable_def by blast
qed

lemma sample_record_ok:
  assumes "s = Prepared \<or> s = Consumed 2000"
  shows "record_ok (intent_builtins p) (sample_record s)"
proof -
  have "link_digest (intent_builtins p) sample_link = sbind (canonicalJson (link_object sample_link)) (\<lambda>t. Inr (sample_sha t))"
    by (simp add: link_digest_def sha256CanonicalJson_def intent_builtins_def)
  also have "\<dots> = Inr (replicate 64 (CHR ''d''))" by code_simp
  finally have "link_digest (intent_builtins p) sample_link = Inr (replicate 64 (CHR ''d''))" .
  moreover have "IDENTIFIER ''session'' \<and> IDENTIFIER ''entry-2'' \<and> IDENTIFIER ''entry-1'' \<and> IDENTIFIER (replicate 64 (CHR ''d'')) \<and>
      IDENTIFIER ''intent-1'' \<and> SHA256 (replicate 64 (CHR ''d'')) \<and> link_ok sample_link \<and>
      worktree_option_ok (slManagedWorktree sample_link)"
    by code_simp
  ultimately show ?thesis using assms
    by (auto simp: record_ok_def sample_record_def sample_binding_def binding_ok_def time_ok_def max_safe_integer_def)
qed

lemma sample_holds:
  assumes "s = Prepared \<or> s = Consumed 2000"
  shows "holds (intent_builtins sample_parse) (Some (store_text [sample_record s])) (table [sample_record s])"
  using holds_written[OF sample_readable[OF assms]] sample_record_ok[OF assms] by simp

lemma sample_read:
  assumes "s = Prepared \<or> s = Consumed 2000"
  shows "read_store (intent_builtins sample_parse) (Some (store_text [sample_record s])) = Inr [sample_record s]"
proof -
  let ?B = "intent_builtins sample_parse" and ?t = "store_text [sample_record s]"
  have "utf8_bytes ?t \<le> MAX_STORE_BYTES" and "json_parse ?B ?t = Some (store_object [sample_record s])"
    using sample_readable[OF assms] unfolding readable_def by blast+
  then show ?thesis
    using parse_store_object[of "[sample_record s]" ?B] sample_record_ok[OF assms, of sample_parse]
    by (simp add: read_store_def)
qed

lemma sample_op_ok: "op_ok (intent_builtins p) (OpConsume t u i sample_binding)"
  using sample_record_ok[of Prepared p] by (simp add: record_ok_def sample_record_def)

lemma sample_same: "sameIntentBinding sample_binding sample_binding = Inr True"
  using sameIntentBinding_eq[of "intent_builtins sample_parse" sample_binding sample_binding] sample_op_ok by simp

lemma sample_consume:
  "run_op (intent_builtins sample_parse) Written (OpConsume (NInt 1500) (NInt 2000) ''intent-1'' sample_binding)
     (Some (store_text [sample_record Prepared])) =
   (Inr (AnswerRecord (sample_record (Consumed 2000))), Some (store_text [sample_record (Consumed 2000)]))"
  and sample_consume_again:
  "run_op (intent_builtins sample_parse) Written (OpConsume (NInt 9000) (NInt 9000) ''intent-1'' sample_binding)
     (Some (store_text [sample_record (Consumed 2000)])) =
   (Inr (AnswerRecord (sample_record (Consumed 2000))), Some (store_text [sample_record (Consumed 2000)]))"
proof -
  have status: "(sample_record s)\<lparr>irStatus := s'\<rparr> = sample_record s'" and
    facts: "irIntentId (sample_record s) = ''intent-1''" "irBinding (sample_record s) = sample_binding"
      "irStatus (sample_record s) = s" "irExpiresAtMs (sample_record s) = 6000" for s s'
    by (simp_all add: sample_record_def)
  note unfolds = consume_intent_def sample_read read_clock_def safeIntentTime_def intent_time_def max_safe_integer_def
    expireIntents_def Let_def sample_same facts status
  show "run_op (intent_builtins sample_parse) Written (OpConsume (NInt 1500) (NInt 2000) ''intent-1'' sample_binding)
     (Some (store_text [sample_record Prepared])) =
   (Inr (AnswerRecord (sample_record (Consumed 2000))), Some (store_text [sample_record (Consumed 2000)]))"
    by (simp add: unfolds write_store_def)
  show "run_op (intent_builtins sample_parse) Written (OpConsume (NInt 9000) (NInt 9000) ''intent-1'' sample_binding)
     (Some (store_text [sample_record (Consumed 2000)])) =
   (Inr (AnswerRecord (sample_record (Consumed 2000))), Some (store_text [sample_record (Consumed 2000)]))"
    by (simp add: unfolds settle_def)
qed

theorem intent_store_refines_witness:
  "implements (intent_builtins sample_parse) Written (table [sample_record Prepared])
     (Inr (AnswerRecord (sample_record (Consumed 2000))), Some (store_text [sample_record (Consumed 2000)]))
     (spec (intent_builtins sample_parse) (OpConsume (NInt 1500) (NInt 2000) ''intent-1'' sample_binding)
       (table [sample_record Prepared]))"
  using intent_store_refines[OF sample_holds sample_op_ok, of Prepared Written "NInt 1500" "NInt 2000" "''intent-1''"]
    sample_consume sample_readable by simp

text \<open>
  Claim C17 (intent_consumed_once). An intent is consumed once. After a consumption, and any later operations with any clock
  and with failing writes, a consumption of the same intent that succeeds returns the very same
  record: the time of the first consumption stays, and only the binding that was prepared is
  accepted. No operation removes, re-opens or rebinds an intent.
\<close>

theorem intent_consumed_once:
  assumes "holds B f m" and "op_ok B (OpConsume t t' i e)"
    and "run_op B w (OpConsume t t' i e) f = (Inr (AnswerRecord r), f1)"
    and "\<forall>x \<in> set xs. op_ok B (snd x)" and "\<forall>g \<in> set (files_along (store_step B) xs f1). readable B g"
    and "op_ok B (OpConsume u u' i e')" and "readable B f3"
    and "run_op B w' (OpConsume u u' i e') (fold (store_step B) xs f1) = (Inr (AnswerRecord r'), f3)"
  shows "r' = r \<and> e' = e \<and> (\<exists>s. irStatus r = Consumed s)"
  using consumed_stays[OF assms] .

theorem intent_consumed_once_witness:
  "sample_record (Consumed 2000) = sample_record (Consumed 2000) \<and> sample_binding = sample_binding \<and>
   (\<exists>s. irStatus (sample_record (Consumed 2000)) = Consumed s)"
proof (rule intent_consumed_once[OF _ sample_op_ok sample_consume, where xs = "[]" and e' = sample_binding
        and w' = Written and u = "NInt 9000" and u' = "NInt 9000"])
  show "holds (intent_builtins sample_parse) (Some (store_text [sample_record Prepared])) (table [sample_record Prepared])"
    by (rule sample_holds) simp
  show "readable (intent_builtins sample_parse) (Some (store_text [sample_record (Consumed 2000)]))"
    by (rule sample_readable) simp
qed (use sample_consume_again sample_readable sample_op_ok in simp_all)

end
