(* ===== verification/SessionBridge.thy ===== *)
theory SessionBridge
  imports IntentStore "HOL-Library.AList"
begin

text \<open>
  The bridge between a session and the checkpoints of its workflows:
  \<open>src/src/bridge/session-checkpoint-bridge.ts\<close> and \<open>session-checkpoint-contract.ts\<close>. The
  session and its host belong to the editor: they are a record of functions on an abstract
  session state, as is the resolver of checkpoints and worktrees. The bridge keeps the links it
  found in a \<open>Map\<close>, an association list that \<open>AList.update\<close> changes in place. Looking for the
  link of an entry walks up the parents: that walk is a partial function, so that not returning
  is a value.
\<close>

section \<open>Session, host and resources\<close>

record piSessionEntry =
  seType :: string
  seId :: string
  seParentId :: "string option"
  seCustomType :: "string option"
  seData :: js

record 's piSession =
  getSessionId :: "'s \<Rightarrow> string"
  getLeafId :: "'s \<Rightarrow> string option"
  getEntry :: "'s \<Rightarrow> string \<Rightarrow> piSessionEntry option"
  getEntries :: "'s \<Rightarrow> piSessionEntry list"
  appendEntry :: "string \<Rightarrow> js \<Rightarrow> 's \<Rightarrow> 's"
  setLabel :: "string \<Rightarrow> string \<Rightarrow> 's \<Rightarrow> 's"

record bridgeResources =
  checkpointExists :: "sessionCheckpointLink \<Rightarrow> bool"
  managedWorktreeExists :: "managedWorktreeRef \<Rightarrow> bool"

record resolvedCheckpointLink =
  rlSessionId :: string
  rlEntryId :: string
  rlLink :: sessionCheckpointLink

record bridgeState =
  bsLinks :: "(string \<times> resolvedCheckpointLink) list"
  bsReady :: bool

definition new_bridge :: bridgeState where
  "new_bridge = \<lparr>bsLinks = [], bsReady = False\<rparr>"

definition session_fail :: "session_code \<Rightarrow> string \<Rightarrow> 'a result" where
  "session_fail c i = Inl (PiSessionBridgeError c i)"

definition validIdentity :: "string \<Rightarrow> string \<Rightarrow> string result" where
  "validIdentity s field = (if IDENTIFIER s then Inr s else session_fail MalformedSession field)"

definition checkpointLinkKey :: "builtins \<Rightarrow> string \<Rightarrow> string \<Rightarrow> string result" where
  "checkpointLinkKey B session entry =
     sbind (validIdentity session ''session'') (\<lambda>s. sbind (validIdentity entry ''entry'') (\<lambda>e.
     sha256CanonicalJson B (JArr [JStr s, JStr e])))"

definition assertResources :: "bridgeResources \<Rightarrow> sessionCheckpointLink \<Rightarrow> string \<Rightarrow> unit result" where
  "assertResources R link entry =
     (if \<not> checkpointExists R link then session_fail StaleLink entry
      else case slManagedWorktree link of
        Some w \<Rightarrow> if \<not> managedWorktreeExists R w then session_fail StaleWorktree entry else Inr ()
      | None \<Rightarrow> Inr ())"

text \<open>A \<open>BridgeContractError\<close> of the decoder becomes an error of the session, any other is thrown on.\<close>

definition decode_or :: "session_code \<Rightarrow> string \<Rightarrow> sessionCheckpointLink result \<Rightarrow> sessionCheckpointLink result" where
  "decode_or c i r = (case r of Inl (BridgeContractError _ _) \<Rightarrow> session_fail c i | _ \<Rightarrow> r)"

definition is_link_entry :: "piSessionEntry \<Rightarrow> bool" where
  "is_link_entry e \<longleftrightarrow> seType e = ''custom'' \<and> seCustomType e = Some PI_CHECKPOINT_LINK_ENTRY_TYPE"

definition same_link :: "builtins \<Rightarrow> sessionCheckpointLink \<Rightarrow> sessionCheckpointLink \<Rightarrow> bool result" where
  "same_link B l l' = sbind (link_digest B l) (\<lambda>d. sbind (link_digest B l') (\<lambda>d'. Inr (d = d')))"

definition record_link ::
    "builtins \<Rightarrow> string \<Rightarrow> string \<Rightarrow> sessionCheckpointLink \<Rightarrow> (string \<times> resolvedCheckpointLink) list
     \<Rightarrow> (string \<times> resolvedCheckpointLink) list result" where
  "record_link B session entry link links =
     sbind (checkpointLinkKey B session entry) (\<lambda>k.
     sbind (case map_of links k of None \<Rightarrow> Inr True | Some x \<Rightarrow> same_link B (rlLink x) link) (\<lambda>same.
     if \<not> same then session_fail ConflictingLink entry
     else Inr (AList.update k \<lparr>rlSessionId = session, rlEntryId = entry, rlLink = link\<rparr> links)))"

section \<open>Rehydration\<close>

fun rehydrate_entries ::
    "builtins \<Rightarrow> bridgeResources \<Rightarrow> string \<Rightarrow> piSessionEntry list \<Rightarrow> (string \<times> resolvedCheckpointLink) list
     \<Rightarrow> (string \<times> resolvedCheckpointLink) list result" where
  "rehydrate_entries B R session [] staged = Inr staged"
| "rehydrate_entries B R session (entry # rest) staged =
     (if \<not> is_link_entry entry then rehydrate_entries B R session rest staged
      else
        sbind (validIdentity (seId entry) ''entry'') (\<lambda>i.
        sbind (decode_or MalformedLink i (decodeSessionCheckpointLink B (seData entry))) (\<lambda>link.
        sbind (assertResources R link i) (\<lambda>_.
        sbind (record_link B session i link staged) (rehydrate_entries B R session rest)))))"

definition rehydrate ::
    "builtins \<Rightarrow> 's piSession \<Rightarrow> bridgeResources \<Rightarrow> 's \<Rightarrow> bridgeState \<Rightarrow> resolvedCheckpointLink list result \<times> bridgeState" where
  "rehydrate B H R s st =
     (case sbind (validIdentity (getSessionId H s) ''session'') (\<lambda>session.
             rehydrate_entries B R session (getEntries H s) []) of
        Inl e \<Rightarrow> (Inl e, st)
      | Inr staged \<Rightarrow> (Inr (map snd staged), \<lparr>bsLinks = staged, bsReady = True\<rparr>))"

definition ensureReady ::
    "builtins \<Rightarrow> 's piSession \<Rightarrow> bridgeResources \<Rightarrow> 's \<Rightarrow> bridgeState \<Rightarrow> unit result \<times> bridgeState" where
  "ensureReady B H R s st =
     (if bsReady st then (Inr (), st)
      else case rehydrate B H R s st of
        (Inl e, st') \<Rightarrow> (Inl e, st')
      | (Inr _, st') \<Rightarrow> (if bsReady st' then Inr () else session_fail NotReady (getSessionId H s), st'))"

section \<open>Appending a link\<close>

text \<open>What is read back after the host appended the entry: the entry's id and its durable link.\<close>

definition appended_link ::
    "builtins \<Rightarrow> 's piSession \<Rightarrow> string option \<Rightarrow> sessionCheckpointLink \<Rightarrow> 's \<Rightarrow> (string \<times> sessionCheckpointLink) result" where
  "appended_link B H previous link s =
     (case getLeafId H s of
        None \<Rightarrow> session_fail AppendFailed ''new-entry''
      | Some i \<Rightarrow>
          if Some i = previous then session_fail AppendFailed ''new-entry''
          else (case getEntry H s i of
              None \<Rightarrow> session_fail AppendFailed i
            | Some entry \<Rightarrow>
                if \<not> is_link_entry entry then session_fail AppendFailed i
                else sbind (decode_or AppendFailed i (decodeSessionCheckpointLink B (seData entry))) (\<lambda>durable.
                  sbind (same_link B durable link) (\<lambda>same.
                  if \<not> same then session_fail AppendFailed i else Inr (i, durable)))))"

definition appendLink ::
    "builtins \<Rightarrow> 's piSession \<Rightarrow> bridgeResources \<Rightarrow> js \<Rightarrow> 's \<Rightarrow> bridgeState \<Rightarrow> string result \<times> 's \<times> bridgeState" where
  "appendLink B H R v s st =
     (case ensureReady B H R s st of
        (Inl e, st') \<Rightarrow> (Inl e, s, st')
      | (Inr _, st') \<Rightarrow>
          (case sbind (decode_or MalformedLink ''new-entry'' (decodeSessionCheckpointLink B v)) (\<lambda>link.
                  sbind (assertResources R link ''new-entry'') (\<lambda>_. Inr link)) of
             Inl e \<Rightarrow> (Inl e, s, st')
           | Inr link \<Rightarrow>
               let s' = appendEntry H PI_CHECKPOINT_LINK_ENTRY_TYPE (link_object link) s in
               (case sbind (appended_link B H (getLeafId H s) link s') (\<lambda>(i, durable).
                       sbind (validIdentity (getSessionId H s') ''session'') (\<lambda>session.
                       sbind (record_link B session i durable (bsLinks st')) (\<lambda>links. Inr (i, durable, links)))) of
                  Inl e \<Rightarrow> (Inl e, s', st')
                | Inr (i, durable, links) \<Rightarrow>
                    (Inr i, setLabel H i (piCheckpointDisplayLabel durable) s', st'\<lparr>bsLinks := links\<rparr>))))"

section \<open>Resolving a target\<close>

partial_function (option) resolve_walk ::
    "builtins \<Rightarrow> 's piSession \<Rightarrow> bridgeResources \<Rightarrow> 's \<Rightarrow> bridgeState \<Rightarrow> string \<Rightarrow> string \<Rightarrow> piSessionEntry \<Rightarrow> string set
     \<Rightarrow> resolvedCheckpointLink result option" where
  "resolve_walk B H R s st session target entry visited =
     (if seId entry \<in> visited then Some (session_fail MalformedSession (seId entry))
      else case checkpointLinkKey B session (seId entry) of
        Inl e \<Rightarrow> Some (Inl e)
      | Inr k \<Rightarrow>
          (case map_of (bsLinks st) k of
             Some linked \<Rightarrow> Some (sbind (assertResources R (rlLink linked) (rlEntryId linked)) (\<lambda>_. Inr linked))
           | None \<Rightarrow>
               (case seParentId entry of
                  None \<Rightarrow> Some (session_fail MissingLink target)
                | Some p \<Rightarrow>
                    (case getEntry H s p of
                       None \<Rightarrow> Some (session_fail MalformedSession p)
                     | Some parent \<Rightarrow> resolve_walk B H R s st session target parent (insert (seId entry) visited)))))"

definition resolveTarget ::
    "builtins \<Rightarrow> 's piSession \<Rightarrow> bridgeResources \<Rightarrow> 's \<Rightarrow> string \<Rightarrow> bridgeState
     \<Rightarrow> (resolvedCheckpointLink result \<times> bridgeState) option" where
  "resolveTarget B H R s target st =
     (case ensureReady B H R s st of
        (Inl e, st') \<Rightarrow> Some (Inl e, st')
      | (Inr _, st') \<Rightarrow>
          (case sbind (validIdentity (getSessionId H s) ''session'') (\<lambda>session.
                  sbind (validIdentity target ''target'') (\<lambda>t. Inr (session, getEntry H s t))) of
             Inl e \<Rightarrow> Some (Inl e, st')
           | Inr (session, None) \<Rightarrow> Some (session_fail MissingTarget target, st')
           | Inr (session, Some entry) \<Rightarrow>
               map_option (\<lambda>r. (r, st')) (resolve_walk B H R s st' session target entry {})))"

section \<open>Preparing and consuming intents\<close>

definition resolved_binding ::
    "builtins \<Rightarrow> preparedIntentKind \<Rightarrow> string \<Rightarrow> resolvedCheckpointLink \<Rightarrow> managedWorktreeRef option
     \<Rightarrow> preparedIntentBinding result" where
  "resolved_binding B kind target resolved worktree =
     sbind (checkpointLinkKey B (rlSessionId resolved) (rlEntryId resolved)) (\<lambda>key.
     sbind (link_digest B (rlLink resolved)) (\<lambda>digest.
     Inr \<lparr>biKind = kind, biSessionId = rlSessionId resolved, biTargetEntryId = target, biResolvedEntryId = rlEntryId resolved,
          biLinkKey = key, biLinkDigest = digest, biLink = rlLink resolved, biManagedWorktree = worktree\<rparr>))"

definition prepare_resolved ::
    "builtins \<Rightarrow> writeEvent \<Rightarrow> jnum \<Rightarrow> string \<Rightarrow> jnum \<Rightarrow> preparedIntentKind \<Rightarrow> string \<Rightarrow> resolvedCheckpointLink
     \<Rightarrow> managedWorktreeRef option \<Rightarrow> string option \<Rightarrow> bridgeIntentRecord result \<times> string option" where
  "prepare_resolved B w clock uuid ttl kind target resolved worktree file =
     (case resolved_binding B kind target resolved worktree of
        Inl e \<Rightarrow> (Inl e, file)
      | Inr b \<Rightarrow> prepare_intent B w clock \<lparr>piIntentId = uuid, piBinding = b, piTtlMs = ttl\<rparr> file)"

definition prepareTree ::
    "builtins \<Rightarrow> 's piSession \<Rightarrow> bridgeResources \<Rightarrow> writeEvent \<Rightarrow> jnum \<Rightarrow> string \<Rightarrow> jnum \<Rightarrow> string \<Rightarrow> 's \<Rightarrow> bridgeState
     \<Rightarrow> string option \<Rightarrow> (bridgeIntentRecord result \<times> bridgeState \<times> string option) option" where
  "prepareTree B H R w clock uuid ttl target s st file =
     map_option (\<lambda>(r, st').
       case r of
         Inl e \<Rightarrow> (Inl e, st', file)
       | Inr resolved \<Rightarrow>
           (let (r', file') = prepare_resolved B w clock uuid ttl TreeIntent target resolved
                  (slManagedWorktree (rlLink resolved)) file
            in (r', st', file')))
     (resolveTarget B H R s target st)"

definition prepareFork ::
    "builtins \<Rightarrow> 's piSession \<Rightarrow> bridgeResources \<Rightarrow> writeEvent \<Rightarrow> jnum \<Rightarrow> string \<Rightarrow> jnum \<Rightarrow> string \<Rightarrow> js \<Rightarrow> 's \<Rightarrow> bridgeState
     \<Rightarrow> string option \<Rightarrow> (bridgeIntentRecord result \<times> bridgeState \<times> string option) option" where
  "prepareFork B H R w clock uuid ttl target v s st file =
     map_option (\<lambda>(r, st').
       case sbind r (\<lambda>resolved. sbind (decodeManagedWorktreeRef v) (\<lambda>worktree.
              if \<not> managedWorktreeExists R worktree then session_fail StaleWorktree target else Inr (resolved, worktree))) of
         Inl e \<Rightarrow> (Inl e, st', file)
       | Inr (resolved, worktree) \<Rightarrow>
           (let (r', file') = prepare_resolved B w clock uuid ttl ForkIntent target resolved (Some worktree) file
            in (r', st', file')))
     (resolveTarget B H R s target st)"

text \<open>\<open>store.get\<close> and \<open>store.consume\<close> are separate operations, with clocks and writes of their own.\<close>

definition consumePreparedTree ::
    "builtins \<Rightarrow> 's piSession \<Rightarrow> bridgeResources \<Rightarrow> writeEvent \<Rightarrow> jnum \<Rightarrow> writeEvent \<Rightarrow> jnum \<Rightarrow> jnum \<Rightarrow> string \<Rightarrow> string
     \<Rightarrow> 's \<Rightarrow> bridgeState \<Rightarrow> string option \<Rightarrow> (bridgeIntentRecord result \<times> bridgeState \<times> string option) option" where
  "consumePreparedTree B H R w0 t0 w1 t1 t2 intent target s st file =
     (case get_intent B w0 t0 intent file of
        (Inl e, file') \<Rightarrow> Some (Inl e, st, file')
      | (Inr None, file') \<Rightarrow> Some (intent_fail MissingIntent intent, st, file')
      | (Inr (Some current), file') \<Rightarrow>
          if biKind (irBinding current) \<noteq> TreeIntent \<or> biTargetEntryId (irBinding current) \<noteq> target
          then Some (intent_fail IntentMismatch intent, st, file')
          else map_option (\<lambda>(r, st').
            case sbind r (\<lambda>resolved. resolved_binding B TreeIntent target resolved (slManagedWorktree (rlLink resolved))) of
              Inl e \<Rightarrow> (Inl e, st', file')
            | Inr expected \<Rightarrow>
                (let (r', file'') = consume_intent B w1 t1 t2 intent expected file' in (r', st', file'')))
          (resolveTarget B H R s target st))"

definition consumePreparedFork ::
    "builtins \<Rightarrow> bridgeResources \<Rightarrow> writeEvent \<Rightarrow> jnum \<Rightarrow> writeEvent \<Rightarrow> jnum \<Rightarrow> jnum \<Rightarrow> string \<Rightarrow> js
     \<Rightarrow> string option \<Rightarrow> bridgeIntentRecord result \<times> string option" where
  "consumePreparedFork B R w0 t0 w1 t1 t2 intent v file =
     (case decodeManagedWorktreeRef v of
        Inl e \<Rightarrow> (Inl e, file)
      | Inr worktree \<Rightarrow>
          (case get_intent B w0 t0 intent file of
             (Inl e, file') \<Rightarrow> (Inl e, file')
           | (Inr None, file') \<Rightarrow> (intent_fail MissingIntent intent, file')
           | (Inr (Some current), file') \<Rightarrow>
               let b = irBinding current in
               if biKind b \<noteq> ForkIntent then (intent_fail IntentMismatch intent, file')
               else (case sbind (assertResources R (biLink b) (biResolvedEntryId b)) (\<lambda>_.
                       if \<not> managedWorktreeExists R worktree then session_fail StaleWorktree (biTargetEntryId b) else Inr ()) of
                   Inl e \<Rightarrow> (Inl e, file')
                 | Inr _ \<Rightarrow> consume_intent B w1 t1 t2 intent (b\<lparr>biManagedWorktree := Some worktree\<rparr>) file')))"
section \<open>The links the bridge holds\<close>

definition links_ok :: "builtins \<Rightarrow> (string \<times> resolvedCheckpointLink) list \<Rightarrow> bool" where
  "links_ok B links \<longleftrightarrow> distinct (map fst links) \<and>
     (\<forall>(k, r) \<in> set links. link_ok (rlLink r) \<and> checkpointLinkKey B (rlSessionId r) (rlEntryId r) = Inr k)"

lemma session_fail_Inr [simp]: "session_fail c i \<noteq> Inr x"
  by (simp add: session_fail_def)

lemma validIdentity_Inr [result_simps]: "validIdentity s f = Inr t \<longleftrightarrow> IDENTIFIER s \<and> t = s"
  by (auto simp: validIdentity_def)

lemma assertResources_Inr [result_simps]:
  "assertResources R l i = Inr u \<longleftrightarrow>
     checkpointExists R l \<and> (\<forall>w. slManagedWorktree l = Some w \<longrightarrow> managedWorktreeExists R w)"
  by (auto simp: assertResources_def split: option.splits)

lemma decode_or_ok: "decode_or c i (decodeSessionCheckpointLink B v) = Inr l \<Longrightarrow> link_ok l"
  by (auto simp: decode_or_def split: sum.splits error.splits dest: decodeSessionCheckpointLink_ok)

lemma links_ok_Nil [simp]: "links_ok B []"
  by (simp add: links_ok_def)

lemma links_ok_get: "links_ok B links \<Longrightarrow> map_of links k = Some r \<Longrightarrow>
    link_ok (rlLink r) \<and> checkpointLinkKey B (rlSessionId r) (rlEntryId r) = Inr k"
  by (auto simp: links_ok_def dest: map_of_SomeD)

lemma set_update: "x \<in> set (AList.update k v ps) \<Longrightarrow> x = (k, v) \<or> x \<in> set ps"
  by (induction ps) (auto split: if_splits)

lemma record_link_ok:
  assumes "record_link B session i l links = Inr links'" and "links_ok B links" and "link_ok l"
  shows "links_ok B links'"
proof -
  from assms(1) obtain k where k: "checkpointLinkKey B session i = Inr k"
    and l: "links' = AList.update k \<lparr>rlSessionId = session, rlEntryId = i, rlLink = l\<rparr> links"
    by (auto simp: record_link_def result_simps split: if_splits)
  have "distinct (map fst links')" using assms(2) by (simp add: l links_ok_def distinct_update)
  with assms(2,3) k show ?thesis
    by (auto simp: l links_ok_def dest!: set_update)
qed

lemma rehydrate_entries_ok:
  "rehydrate_entries B R session es staged = Inr links \<Longrightarrow> links_ok B staged \<Longrightarrow> links_ok B links"
proof (induction es arbitrary: staged)
  case (Cons e es)
  show ?case
  proof (cases "is_link_entry e")
    case True
    with Cons.prems(1) obtain i l staged' where
      "decode_or MalformedLink i (decodeSessionCheckpointLink B (seData e)) = Inr l"
      and r: "record_link B session i l staged = Inr staged'" and "rehydrate_entries B R session es staged' = Inr links"
      by (auto simp: result_simps)
    with Cons.IH[of staged'] record_link_ok[OF r Cons.prems(2)] decode_or_ok show ?thesis by blast
  next
    case False
    with Cons show ?thesis by simp
  qed
qed simp

lemma ensureReady_ok:
  "ensureReady B H R s st = (r, st') \<Longrightarrow> links_ok B (bsLinks st) \<Longrightarrow> links_ok B (bsLinks st')"
  by (auto simp: ensureReady_def rehydrate_def result_simps dest: rehydrate_entries_ok split: if_splits sum.splits prod.splits)

lemma appendLink_ok:
  assumes "appendLink B H R v s st = (r, s', st')" and "links_ok B (bsLinks st)"
  shows "links_ok B (bsLinks st')"
proof -
  obtain r1 st1 where e: "ensureReady B H R s st = (r1, st1)" by fastforce
  have ok: "links_ok B (bsLinks st1)" using ensureReady_ok[OF e assms(2)] .
  have "links_ok B links"
    if "appended_link B H p l x = Inr (i, durable)" "record_link B session i durable (bsLinks st1) = Inr links"
    for p l x i durable session links
    using that record_link_ok[OF that(2) ok] decode_or_ok
    by (auto simp: appended_link_def result_simps split: option.splits if_splits)
  with assms(1) ok show ?thesis
    by (auto simp: appendLink_def e result_simps Let_def split: sum.splits)
qed

section \<open>The walk to the nearest link\<close>

definition linked_at :: "builtins \<Rightarrow> bridgeState \<Rightarrow> string \<Rightarrow> piSessionEntry \<Rightarrow> resolvedCheckpointLink option" where
  "linked_at B st session e =
     (case checkpointLinkKey B session (seId e) of Inl _ \<Rightarrow> None | Inr k \<Rightarrow> map_of (bsLinks st) k)"

fun ancestry :: "'s piSession \<Rightarrow> 's \<Rightarrow> piSessionEntry list \<Rightarrow> bool" where
  "ancestry H s (e # e' # es) \<longleftrightarrow> (\<exists>p. seParentId e = Some p \<and> getEntry H s p = Some e') \<and> ancestry H s (e' # es)"
| "ancestry H s _ \<longleftrightarrow> True"

text \<open>The link of the first linked entry on the way from an entry to its root.\<close>

definition nearest_link ::
    "builtins \<Rightarrow> 's piSession \<Rightarrow> 's \<Rightarrow> bridgeState \<Rightarrow> string \<Rightarrow> piSessionEntry \<Rightarrow> resolvedCheckpointLink \<Rightarrow> bool" where
  "nearest_link B H s st session entry linked \<longleftrightarrow>
     (\<exists>path e. hd (path @ [e]) = entry \<and> ancestry H s (path @ [e]) \<and> linked_at B st session e = Some linked \<and>
        (\<forall>x \<in> set path. linked_at B st session x = None))"

lemma nearest_link_here: "linked_at B st session e = Some l \<Longrightarrow> nearest_link B H s st session e l"
  unfolding nearest_link_def by (rule exI[of _ "[]"], rule exI[of _ e]) simp

lemma nearest_link_parent:
  assumes "nearest_link B H s st session e' l" and "seParentId e = Some p" and "getEntry H s p = Some e'"
    and "linked_at B st session e = None"
  shows "nearest_link B H s st session e l"
proof -
  from assms(1) obtain path x where p: "hd (path @ [x]) = e'" "ancestry H s (path @ [x])" "linked_at B st session x = Some l"
    "\<forall>y \<in> set path. linked_at B st session y = None"
    by (auto simp: nearest_link_def)
  have "ancestry H s ((e # path) @ [x])"
    using p(1,2) assms(2,3) by (cases path) auto
  with p assms(4) show ?thesis
    unfolding nearest_link_def by (intro exI[of _ "e # path"] exI[of _ x]) auto
qed

lemma resolve_walk_returns:
  assumes "\<And>i e. getEntry H s i = Some e \<Longrightarrow> e \<in> set es" and "entry \<in> set es"
  shows "\<exists>r. resolve_walk B H R s st session target entry visited = Some r \<and>
    (\<forall>linked. r = Inr linked \<longrightarrow>
       nearest_link B H s st session entry linked \<and> assertResources R (rlLink linked) (rlEntryId linked) = Inr ())"
  using assms(2)
proof (induction "card (seId ` set es - visited)" arbitrary: entry visited rule: less_induct)
  case less
  note unfold = resolve_walk.simps[of B H R s st session target entry visited]
  show ?case
  proof (cases "seId entry \<in> visited")
    case True
    then show ?thesis by (simp add: unfold)
  next
    case new: False
    show ?thesis
    proof (cases "checkpointLinkKey B session (seId entry)")
      case (Inl e)
      with new show ?thesis by (simp add: unfold)
    next
      case k: (Inr k)
      show ?thesis
      proof (cases "map_of (bsLinks st) k")
        case (Some linked)
        then have "linked_at B st session entry = Some linked" by (simp add: linked_at_def k)
        with new k Some nearest_link_here show ?thesis by (auto simp: unfold result_simps)
      next
        case none: None
        show ?thesis
        proof (cases "Option.bind (seParentId entry) (getEntry H s)")
          case None
          with new k none show ?thesis
            by (cases "seParentId entry") (simp_all add: unfold)
        next
          case (Some parent)
          then obtain p where p: "seParentId entry = Some p" "getEntry H s p = Some parent"
            by (auto simp: bind_eq_Some_conv)
          have "card (seId ` set es - insert (seId entry) visited) < card (seId ` set es - visited)"
            using less.prems new by (intro psubset_card_mono) auto
          from less.hyps[OF this assms(1)[OF p(2)]] nearest_link_parent[OF _ p, of B st session] new k none p
          show ?thesis by (auto simp: unfold linked_at_def)
        qed
      qed
    qed
  qed
qed
lemma resolveTarget_returns:
  assumes "\<And>i e. getEntry H s i = Some e \<Longrightarrow> e \<in> set es" and "links_ok B (bsLinks st)"
  shows "\<exists>r st'. resolveTarget B H R s target st = Some (r, st') \<and> links_ok B (bsLinks st') \<and>
    (\<forall>linked. r = Inr linked \<longrightarrow>
       IDENTIFIER target \<and> assertResources R (rlLink linked) (rlEntryId linked) = Inr () \<and>
       (\<exists>entry. getEntry H s target = Some entry \<and> nearest_link B H s st' (getSessionId H s) entry linked))"
proof -
  obtain r st' where e: "ensureReady B H R s st = (r, st')" by fastforce
  note ok = ensureReady_ok[OF e assms(2)]
  show ?thesis
  proof (cases r)
    case (Inl x)
    with e ok show ?thesis by (simp add: resolveTarget_def)
  next
    case (Inr u)
    show ?thesis
    proof (cases "IDENTIFIER (getSessionId H s) \<and> IDENTIFIER target")
      case False
      with e Inr ok show ?thesis by (auto simp: resolveTarget_def validIdentity_def session_fail_def)
    next
      case ids: True
      show ?thesis
      proof (cases "getEntry H s target")
        case None
        with e Inr ids ok show ?thesis by (simp add: resolveTarget_def validIdentity_def)
      next
        case (Some entry)
        from resolve_walk_returns[of H s es entry B R st' "getSessionId H s" target "{}"] assms(1) Some
        show ?thesis using e Inr ids ok Some by (auto simp: resolveTarget_def validIdentity_def)
      qed
    qed
  qed
qed

lemma sha_digest: "(\<And>x. hex_text 64 (sha256_hex B x)) \<Longrightarrow> sha256CanonicalJson B v = Inr d \<Longrightarrow> SHA256 d"
  by (auto simp: sha256CanonicalJson_def result_simps SHA256_def)

lemma digest_identifier: "SHA256 d \<Longrightarrow> IDENTIFIER d"
  by (cases d) (auto simp: SHA256_def hex_text_def IDENTIFIER_def lexical_def list_all_iff is_hex_char_def is_alnum_char_def
      is_alpha_char_def)

lemma resolved_binding_ok:
  assumes "\<And>x. hex_text 64 (sha256_hex B x)" and "resolved_binding B kind target resolved worktree = Inr b"
    and "IDENTIFIER target" and "link_ok (rlLink resolved)" and "worktree_option_ok worktree"
  shows "binding_ok B b"
proof -
  from assms(2) have "SHA256 (biLinkKey b)" "SHA256 (biLinkDigest b)" "link_digest B (biLink b) = Inr (biLinkDigest b)"
    "IDENTIFIER (biSessionId b)" "IDENTIFIER (biResolvedEntryId b)" "biTargetEntryId b = target" "biLink b = rlLink resolved"
    "biManagedWorktree b = worktree"
    using sha_digest[OF assms(1)]
    by (auto simp: resolved_binding_def result_simps checkpointLinkKey_def link_digest_def)
  with assms(3-5) show ?thesis using digest_identifier by (simp add: binding_ok_def)
qed

lemma linked_at_held: "linked_at B st session e = Some l \<Longrightarrow> \<exists>k. map_of (bsLinks st) k = Some l"
  by (cases "checkpointLinkKey B session (seId e)") (auto simp: linked_at_def)

lemma nearest_link_held: "nearest_link B H s st session e l \<Longrightarrow> \<exists>k. map_of (bsLinks st) k = Some l"
  by (auto simp: nearest_link_def dest: linked_at_held)

lemma get_intent_keeps:
  assumes "holds B f m" and "get_intent B w t i f = (Inr c, f')" and "readable B f'"
  shows "\<exists>m'. holds B f' m'"
  using run_op_implements[OF assms(1), of "OpGet t i" w] assms(2,3)
  by (auto simp: implements_def io_error_def run_op_as_map simp del: run_op.simps)

lemma consume_intent_answer:
  assumes "holds B f m" and "binding_ok B e" and "consume_intent B w t t' i e f = (Inr r, f')" and "readable B f'"
  shows "irBinding r = e \<and> (\<exists>x. irStatus r = Consumed x)"
proof -
  have "fst (spec B (OpConsume t t' i e) m) = Inr (AnswerRecord r)"
    using run_op_implements[OF assms(1), of "OpConsume t t' i e" w] assms(2-4)
    by (auto simp: implements_def io_error_def)
  from consume_answer(2,3)[OF this] show ?thesis by blast
qed

lemma consumed_tree:
  assumes sha: "\<And>x. hex_text 64 (sha256_hex B x)"
    and finite: "\<And>i e. getEntry H s i = Some e \<Longrightarrow> e \<in> set es"
    and links: "links_ok B (bsLinks st)" and "holds B f m"
    and consumed: "consumePreparedTree B H R w0 t0 w1 t1 t2 intent target s st f = Some (Inr r, st', f2)"
    and readable: "readable B (snd (get_intent B w0 t0 intent f))" "readable B f2"
  shows "\<exists>resolved. resolveTarget B H R s target st = Some (Inr resolved, st') \<and>
     resolved_binding B TreeIntent target resolved (slManagedWorktree (rlLink resolved)) = Inr (irBinding r) \<and>
     (\<exists>x. irStatus r = Consumed x)"
proof -
  from consumed obtain current f1 where get: "get_intent B w0 t0 intent f = (Inr (Some current), f1)"
    by (auto simp: consumePreparedTree_def intent_fail_def split: prod.splits sum.splits option.splits)
  have "\<exists>r st'. resolveTarget B H R s target st = Some (r, st') \<and> links_ok B (bsLinks st') \<and>
    (\<forall>linked. r = Inr linked \<longrightarrow>
       IDENTIFIER target \<and> assertResources R (rlLink linked) (rlEntryId linked) = Inr () \<and>
       (\<exists>entry. getEntry H s target = Some entry \<and> nearest_link B H s st' (getSessionId H s) entry linked))"
    by (rule resolveTarget_returns) (use finite links in auto)
  then obtain rt st1 where
    rt: "resolveTarget B H R s target st = Some (rt, st1)" "links_ok B (bsLinks st1)" and
    near: "\<And>linked. rt = Inr linked \<Longrightarrow> IDENTIFIER target \<and>
       (\<exists>entry. getEntry H s target = Some entry \<and> nearest_link B H s st1 (getSessionId H s) entry linked)"
    by blast
  from consumed get rt obtain resolved e where resolved: "rt = Inr resolved"
    and e: "resolved_binding B TreeIntent target resolved (slManagedWorktree (rlLink resolved)) = Inr e"
    and consume: "consume_intent B w1 t1 t2 intent e f1 = (Inr r, f2)" and "st' = st1"
    by (auto simp: consumePreparedTree_def intent_fail_def result_simps split: if_splits sum.splits prod.splits)
  from near[OF resolved] obtain k where "IDENTIFIER target" "map_of (bsLinks st1) k = Some resolved"
    by (auto dest: nearest_link_held)
  moreover from this links_ok_get[OF rt(2)] have "link_ok (rlLink resolved)" by blast
  moreover from this have "worktree_option_ok (slManagedWorktree (rlLink resolved))"
    by (simp add: link_ok_def worktree_option_ok_def)
  ultimately have "binding_ok B e" using resolved_binding_ok[OF sha e] by blast
  moreover obtain m1 where "holds B f1 m1"
    using get_intent_keeps[OF assms(4) get] readable(1) get by auto
  ultimately have "irBinding r = e \<and> (\<exists>x. irStatus r = Consumed x)"
    using consume_intent_answer consume readable(2) by blast
  with rt resolved e \<open>st' = st1\<close> show ?thesis by blast
qed
section \<open>Properties\<close>

text \<open>
  Claim C20 (session_target_resolved). Resolving the target of a navigation always returns, also in a session whose parents
  form a cycle, as long as the session has finitely many entries. When it returns a link, it is
  the link of the nearest linked entry on the way from the target to the root, and its
  checkpoint and worktree still exist. The links the bridge holds stay well formed and keyed by
  their entries.
\<close>

theorem session_target_resolved:
  assumes "\<forall>i e. getEntry H s i = Some e \<longrightarrow> e \<in> set (getEntries H s)" and "links_ok B (bsLinks st)"
  shows "\<exists>r st'. resolveTarget B H R s target st = Some (r, st') \<and> links_ok B (bsLinks st') \<and>
    (\<forall>linked. r = Inr linked \<longrightarrow>
       IDENTIFIER target \<and> assertResources R (rlLink linked) (rlEntryId linked) = Inr () \<and>
       (\<exists>entry. getEntry H s target = Some entry \<and> nearest_link B H s st' (getSessionId H s) entry linked))"
  using resolveTarget_returns[of H s "getEntries H s"] assms by blast

definition entry_list_session :: "piSessionEntry list piSession" where
  "entry_list_session =
     \<lparr>getSessionId = (\<lambda>_. ''session''), getLeafId = (\<lambda>es. if es = [] then None else Some (seId (last es))),
      getEntry = (\<lambda>es i. List.find (\<lambda>e. seId e = i) es), getEntries = (\<lambda>es. es),
      appendEntry = (\<lambda>t v es. es @ [\<lparr>seType = ''custom'', seId = ''entry-'' @ nat_text (length es),
        seParentId = (if es = [] then None else Some (seId (last es))), seCustomType = Some t, seData = v\<rparr>]),
      setLabel = (\<lambda>_ _ es. es)\<rparr>"

definition linked_entry :: piSessionEntry where
  "linked_entry = \<lparr>seType = ''custom'', seId = ''entry-1'', seParentId = None,
     seCustomType = Some PI_CHECKPOINT_LINK_ENTRY_TYPE, seData = link_object sample_link\<rparr>"

definition child_entry :: piSessionEntry where
  "child_entry = \<lparr>seType = ''message'', seId = ''entry-2'', seParentId = Some ''entry-1'', seCustomType = None, seData = JNull\<rparr>"

definition sample_session :: "piSessionEntry list" where
  "sample_session = [linked_entry, child_entry]"

definition entry_key :: "char \<Rightarrow> string" where "entry_key c = replicate 64 c"

definition cyclic_session :: "piSessionEntry list" where
  "cyclic_session =
     [\<lparr>seType = ''message'', seId = ''entry-1'', seParentId = Some ''entry-2'', seCustomType = None, seData = JNull\<rparr>,
      \<lparr>seType = ''message'', seId = ''entry-2'', seParentId = Some ''entry-1'', seCustomType = None, seData = JNull\<rparr>]"

definition all_resources :: bridgeResources where
  "all_resources = \<lparr>checkpointExists = (\<lambda>_. True), managedWorktreeExists = (\<lambda>_. True)\<rparr>"

lemma entry_list_finite:
  "\<forall>i e. getEntry entry_list_session s i = Some e \<longrightarrow> e \<in> set (getEntries entry_list_session s)"
  using find_SomeD by (fastforce simp: entry_list_session_def)

theorem session_target_resolved_witness:
  "\<exists>r st'. resolveTarget (intent_builtins sample_parse) entry_list_session all_resources cyclic_session ''entry-1'' new_bridge
     = Some (r, st')"
proof -
  have "links_ok (intent_builtins sample_parse) (bsLinks new_bridge)" by (simp add: new_bridge_def)
  from session_target_resolved[OF entry_list_finite this] show ?thesis by blast
qed

text \<open>
  Claim C19 (consumed_tree_is_current). A prepared navigation is carried out only to where the session points now. When the
  consumption of a tree intent succeeds, the target was resolved again in the current session,
  the record that is returned is consumed, and its binding (session, target, entry, link, link
  digest, worktree) is the binding of that resolution: an intent that was prepared for another
  link, another worktree or another entry is refused.
\<close>

theorem consumed_tree_is_current:
  assumes "\<And>x. hex_text 64 (sha256_hex B x)"
    and "\<forall>i e. getEntry H s i = Some e \<longrightarrow> e \<in> set (getEntries H s)"
    and "links_ok B (bsLinks st)" and "holds B f m"
    and "consumePreparedTree B H R w0 t0 w1 t1 t2 intent target s st f = Some (Inr r, st', f2)"
    and "readable B (snd (get_intent B w0 t0 intent f))" and "readable B f2"
  shows "\<exists>resolved. resolveTarget B H R s target st = Some (Inr resolved, st') \<and>
     resolved_binding B TreeIntent target resolved (slManagedWorktree (rlLink resolved)) = Inr (irBinding r) \<and>
     (\<exists>x. irStatus r = Consumed x)"
  using consumed_tree[of B H s "getEntries H s"] assms by blast

definition sample_resolved :: resolvedCheckpointLink where
  "sample_resolved = \<lparr>rlSessionId = ''session'', rlEntryId = ''entry-1'', rlLink = sample_link\<rparr>"

definition sample_bridge :: bridgeState where
  "sample_bridge = \<lparr>bsLinks = [(entry_key (CHR ''d''), sample_resolved)], bsReady = True\<rparr>"

lemma sample_resolve:
  "resolveTarget (intent_builtins sample_parse) entry_list_session all_resources sample_session ''entry-2'' new_bridge =
   Some (Inr sample_resolved, sample_bridge)"
proof -
  let ?B = "intent_builtins sample_parse"
  let ?walk = "resolve_walk ?B entry_list_session all_resources sample_session sample_bridge ''session'' ''entry-2''"
  have ready: "ensureReady ?B entry_list_session all_resources sample_session new_bridge = (Inr (), sample_bridge)"
    and ids: "IDENTIFIER ''session''" "IDENTIFIER ''entry-2''"
    and keys: "checkpointLinkKey ?B ''session'' ''entry-1'' = Inr (entry_key (CHR ''d''))"
      "checkpointLinkKey ?B ''session'' ''entry-2'' = Inr (entry_key (CHR ''e''))"
    and links: "map_of (bsLinks sample_bridge) (entry_key (CHR ''d'')) = Some sample_resolved"
      "map_of (bsLinks sample_bridge) (entry_key (CHR ''e'')) = None"
    and resources: "assertResources all_resources (rlLink sample_resolved) (rlEntryId sample_resolved) = Inr ()"
    by code_simp+
  have entries: "getEntry entry_list_session sample_session ''entry-2'' = Some child_entry"
    "getEntry entry_list_session sample_session ''entry-1'' = Some linked_entry"
    "seId linked_entry = ''entry-1''" "seId child_entry = ''entry-2''" "seParentId child_entry = Some ''entry-1''"
    "getSessionId entry_list_session sample_session = ''session''"
    by (simp_all add: entry_list_session_def sample_session_def linked_entry_def child_entry_def)
  have linked: "?walk linked_entry {''entry-2''} = Some (Inr sample_resolved)"
    by (subst resolve_walk.simps) (simp add: entries keys links resources)
  have "?walk child_entry {} = Some (Inr sample_resolved)"
    by (subst resolve_walk.simps) (simp add: entries keys links linked)
  then show ?thesis
    by (simp add: resolveTarget_def ready validIdentity_def ids entries)
qed

lemma sample_resolved_binding:
  "resolved_binding (intent_builtins sample_parse) TreeIntent ''entry-2'' sample_resolved (slManagedWorktree sample_link) =
   Inr sample_binding"
  by code_simp

lemma sample_get:
  "get_intent (intent_builtins sample_parse) Written (NInt 1400) ''intent-1'' (Some (store_text [sample_record Prepared])) =
   (Inr (Some (sample_record Prepared)), Some (store_text [sample_record Prepared]))"
  by (simp add: get_intent_def sample_read read_clock_def safeIntentTime_def intent_time_def max_safe_integer_def
      expireIntents_def settle_def) (simp add: sample_record_def)

lemma sample_tree_consumed:
  "consumePreparedTree (intent_builtins sample_parse) entry_list_session all_resources Written (NInt 1400) Written (NInt 1500)
     (NInt 2000) ''intent-1'' ''entry-2'' sample_session new_bridge (Some (store_text [sample_record Prepared])) =
   Some (Inr (sample_record (Consumed 2000)), sample_bridge, Some (store_text [sample_record (Consumed 2000)]))"
proof -
  have kind: "biKind (irBinding (sample_record Prepared)) = TreeIntent"
    "biTargetEntryId (irBinding (sample_record Prepared)) = ''entry-2''"
    by (simp_all add: sample_record_def sample_binding_def)
  have link: "rlLink sample_resolved = sample_link" by (simp add: sample_resolved_def)
  from sample_consume have "consume_intent (intent_builtins sample_parse) Written (NInt 1500) (NInt 2000) ''intent-1'' sample_binding
      (Some (store_text [sample_record Prepared])) =
    (Inr (sample_record (Consumed 2000)), Some (store_text [sample_record (Consumed 2000)]))"
    by (auto simp: map_sum_def split: prod.splits sum.splits)
  then show ?thesis
    by (simp add: consumePreparedTree_def sample_get kind sample_resolve link sample_resolved_binding)
qed

theorem consumed_tree_is_current_witness:
  "\<exists>resolved. resolveTarget (intent_builtins sample_parse) entry_list_session all_resources sample_session ''entry-2'' new_bridge =
      Some (Inr resolved, sample_bridge) \<and>
     resolved_binding (intent_builtins sample_parse) TreeIntent ''entry-2'' resolved (slManagedWorktree (rlLink resolved)) =
      Inr (irBinding (sample_record (Consumed 2000))) \<and>
     (\<exists>x. irStatus (sample_record (Consumed 2000)) = Consumed x)"
proof (rule consumed_tree_is_current[OF _ entry_list_finite _ sample_holds sample_tree_consumed])
  show "hex_text 64 (sha256_hex (intent_builtins sample_parse) x)" for x
    by (simp add: intent_builtins_def sample_sha_def hex_text_def list_all_iff is_hex_char_def is_digit_char_def code_def)
qed (simp_all add: new_bridge_def sample_get sample_readable)

end
