(* ===== verification/EffectLedger.thy ===== *)
theory EffectLedger
  imports Bridge
begin

text \<open>
  The ledger of a delivery's effects: \<open>src/src/workflow/effect-ledger.ts\<close>. A ledger is parsed
  from untrusted data, digested into the links of checkpoints, and assessed before an automatic
  backtrack: only effects that can be undone may be behind the target.
\<close>

section \<open>Ledgers\<close>

datatype compensation = Compensated | CompensationPending | Noncompensable

datatype effect =
    RepositoryWrite string bool
  | ExternalKnown string compensation
  | UnknownEffect string

type_synonym effectLedger = "effect list"

datatype backtrackSafety =
    Safe
  | BlockedUnknownEffect string
  | BlockedPendingEffect string
  | BlockedNoncompensableEffect string

fun effectId :: "effect \<Rightarrow> string" where
  "effectId (RepositoryWrite i _) = i"
| "effectId (ExternalKnown i _) = i"
| "effectId (UnknownEffect i) = i"

definition EFFECT_IDENTIFIER :: "string \<Rightarrow> bool" where
  "EFFECT_IDENTIFIER = lexical is_alnum_char
     (\<lambda>c. is_alnum_char c \<or> c \<in> {CHR ''.'', CHR ''_'', CHR '':'', CHR ''/'', CHR ''-''}) 127"

definition MAX_EFFECTS :: nat where "MAX_EFFECTS = 256"

section \<open>Parsing\<close>

definition effect_requireRecord :: "js \<Rightarrow> js result" where
  "effect_requireRecord v = (if is_record v then Inr v else Inl EffectLedgerError)"

definition effect_exactFields :: "js \<Rightarrow> string list \<Rightarrow> unit result" where
  "effect_exactFields r ks =
     (if length (keys_of r) \<noteq> length ks \<or> list_ex (\<lambda>k. k \<notin> set (keys_of r)) ks then Inl EffectLedgerError else Inr ())"

definition effect_identifier :: "js \<Rightarrow> string result" where
  "effect_identifier v =
     (case v of JStr s \<Rightarrow> if EFFECT_IDENTIFIER s then Inr s else Inl EffectLedgerError | _ \<Rightarrow> Inl EffectLedgerError)"

definition parse_compensation :: "js \<Rightarrow> compensation result" where
  "parse_compensation v =
     (if v = JStr ''compensated'' then Inr Compensated
      else if v = JStr ''pending'' then Inr CompensationPending
      else if v = JStr ''noncompensable'' then Inr Noncompensable
      else Inl EffectLedgerError)"

definition parseEffect :: "js \<Rightarrow> effect result" where
  "parseEffect v =
     sbind (effect_requireRecord v) (\<lambda>r.
     sbind (effect_identifier (jget r ''effectId'')) (\<lambda>i.
     if jget r ''kind'' = JStr ''repository-write'' then
       sbind (effect_exactFields r [''kind'', ''effectId'', ''reversible'']) (\<lambda>_.
       case jget r ''reversible'' of JBool b \<Rightarrow> Inr (RepositoryWrite i b) | _ \<Rightarrow> Inl EffectLedgerError)
     else if jget r ''kind'' = JStr ''external-known'' then
       sbind (effect_exactFields r [''kind'', ''effectId'', ''compensation'']) (\<lambda>_.
       sbind (parse_compensation (jget r ''compensation'')) (\<lambda>c. Inr (ExternalKnown i c)))
     else if jget r ''kind'' = JStr ''unknown'' then
       sbind (effect_exactFields r [''kind'', ''effectId'']) (\<lambda>_. Inr (UnknownEffect i))
     else Inl EffectLedgerError))"

definition parseEffectLedger :: "js \<Rightarrow> effectLedger result" where
  "parseEffectLedger v =
     sbind (effect_requireRecord v) (\<lambda>r.
     sbind (effect_exactFields r [''protocolVersion'', ''effects'']) (\<lambda>_.
     if jget r ''protocolVersion'' \<noteq> JNum (NInt 1) then Inl EffectLedgerError
     else case jget r ''effects'' of
       JArr xs \<Rightarrow>
         if length xs > MAX_EFFECTS then Inl EffectLedgerError
         else sbind (traverse parseEffect xs) (\<lambda>effects.
           if \<not> distinct (map effectId effects) then Inl EffectLedgerError else Inr effects)
     | _ \<Rightarrow> Inl EffectLedgerError))"

section \<open>Digest and assessment\<close>

fun compensation_text :: "compensation \<Rightarrow> string" where
  "compensation_text Compensated = ''compensated''"
| "compensation_text CompensationPending = ''pending''"
| "compensation_text Noncompensable = ''noncompensable''"

fun effect_object :: "effect \<Rightarrow> js" where
  "effect_object (RepositoryWrite i b) =
     JObj [(''kind'', JStr ''repository-write''), (''effectId'', JStr i), (''reversible'', JBool b)]"
| "effect_object (ExternalKnown i c) =
     JObj [(''kind'', JStr ''external-known''), (''effectId'', JStr i), (''compensation'', JStr (compensation_text c))]"
| "effect_object (UnknownEffect i) = JObj [(''kind'', JStr ''unknown''), (''effectId'', JStr i)]"

definition ledger_object :: "effectLedger \<Rightarrow> js" where
  "ledger_object l = JObj [(''protocolVersion'', JNum (NInt 1)), (''effects'', JArr (map effect_object l))]"

definition effectLedgerDigest :: "builtins \<Rightarrow> effectLedger \<Rightarrow> string result" where
  "effectLedgerDigest B l = sha256CanonicalJson B (ledger_object l)"

fun assessAutomaticBacktrackSafety :: "effectLedger \<Rightarrow> backtrackSafety" where
  "assessAutomaticBacktrackSafety [] = Safe"
| "assessAutomaticBacktrackSafety (e # es) =
     (case e of
        RepositoryWrite i reversible \<Rightarrow>
          if \<not> reversible then BlockedNoncompensableEffect i else assessAutomaticBacktrackSafety es
      | ExternalKnown i Compensated \<Rightarrow> assessAutomaticBacktrackSafety es
      | ExternalKnown i CompensationPending \<Rightarrow> BlockedPendingEffect i
      | ExternalKnown i Noncompensable \<Rightarrow> BlockedNoncompensableEffect i
      | UnknownEffect i \<Rightarrow> BlockedUnknownEffect i)"

section \<open>What parsing accepts\<close>

definition ledger_ok :: "effectLedger \<Rightarrow> bool" where
  "ledger_ok l \<longleftrightarrow> length l \<le> MAX_EFFECTS \<and> distinct (map effectId l) \<and> (\<forall>e \<in> set l. EFFECT_IDENTIFIER (effectId e))"

lemma effect_readers [result_simps]:
  "effect_requireRecord v = Inr r \<longleftrightarrow> is_record v \<and> r = v"
  "effect_identifier v = Inr s \<longleftrightarrow> v = JStr s \<and> EFFECT_IDENTIFIER s"
  "effect_exactFields r ks = Inr u \<longleftrightarrow> length (keys_of r) = length ks \<and> set ks \<subseteq> set (keys_of r)"
  by (auto simp: effect_requireRecord_def effect_identifier_def effect_exactFields_def list_ex_iff split: js.splits)

lemma parse_compensation_Inr [result_simps]: "parse_compensation v = Inr c \<longleftrightarrow> v = JStr (compensation_text c)"
  by (cases c) (auto simp: parse_compensation_def)

lemma parseEffect_ok: "parseEffect v = Inr e \<Longrightarrow> EFFECT_IDENTIFIER (effectId e)"
  by (auto simp: parseEffect_def result_simps split: if_splits js.splits)

lemma parseEffectLedger_ok:
  assumes "parseEffectLedger v = Inr l"
  shows "ledger_ok l"
proof -
  from assms obtain xs where "length xs \<le> MAX_EFFECTS" and xs: "traverse parseEffect xs = Inr l"
    and "distinct (map effectId l)"
    by (auto simp: parseEffectLedger_def result_simps not_less split: js.splits if_splits)
  with traverse_length[OF xs] traverse_set[OF xs] parseEffect_ok show ?thesis
    by (auto simp: ledger_ok_def)
qed

lemma parse_effect_object: "EFFECT_IDENTIFIER (effectId e) \<Longrightarrow> parseEffect (effect_object e) = Inr e"
  by (cases e) (auto simp: parseEffect_def result_simps)

lemma parse_ledger_object:
  assumes "ledger_ok l"
  shows "parseEffectLedger (ledger_object l) = Inr l"
proof -
  have "traverse parseEffect (map effect_object l) = Inr l"
    using assms by (induction l) (auto simp: ledger_ok_def parse_effect_object)
  with assms show ?thesis
    by (simp add: parseEffectLedger_def ledger_object_def result_simps ledger_ok_def effect_requireRecord_def
        effect_exactFields_def)
qed
section \<open>What blocks a backtrack\<close>

fun undoable :: "effect \<Rightarrow> bool" where
  "undoable (RepositoryWrite _ reversible) \<longleftrightarrow> reversible"
| "undoable (ExternalKnown _ c) \<longleftrightarrow> c = Compensated"
| "undoable (UnknownEffect _) \<longleftrightarrow> False"

fun blocking :: "effect \<Rightarrow> backtrackSafety" where
  "blocking (RepositoryWrite i _) = BlockedNoncompensableEffect i"
| "blocking (ExternalKnown i c) = (if c = CompensationPending then BlockedPendingEffect i else BlockedNoncompensableEffect i)"
| "blocking (UnknownEffect i) = BlockedUnknownEffect i"

lemma assess_eq:
  "assessAutomaticBacktrackSafety l = (case List.find (\<lambda>e. \<not> undoable e) l of None \<Rightarrow> Safe | Some e \<Rightarrow> blocking e)"
proof (induction l)
  case (Cons e l)
  then show ?case by (cases e) (auto split: compensation.splits)
qed simp

lemma assess_safe: "assessAutomaticBacktrackSafety l = Safe \<longleftrightarrow> (\<forall>e \<in> set l. undoable e)"
proof -
  have "blocking e \<noteq> Safe" for e by (cases e) auto
  then show ?thesis
    by (auto simp: assess_eq split: option.splits dest: find_SomeD find_NoneD)
qed

section \<open>Every ledger has a digest\<close>

text \<open>Identifiers are plain ASCII, so that printing does not lengthen them.\<close>

lemma plain_json_char: "32 \<le> code c \<Longrightarrow> code c < 128 \<Longrightarrow> c \<noteq> CHR 0x22 \<Longrightarrow> c \<noteq> CHR 0x5C \<Longrightarrow> json_char c = [c]"
  by (auto simp: json_char_def code_def)

lemma identifier_char:
  assumes "is_alnum_char c \<or> c \<in> {CHR ''.'', CHR ''_'', CHR '':'', CHR ''/'', CHR ''-''}"
  shows "json_char c = [c] \<and> code c < 128"
proof -
  have no: "\<not> is_alnum_char (CHR 0x22)" "\<not> is_alnum_char (CHR 0x5C)"
    by (simp_all add: is_alnum_char_def is_alpha_char_def is_digit_char_def code_def)
  have "32 \<le> code c \<and> code c < 128 \<and> c \<noteq> CHR 0x22 \<and> c \<noteq> CHR 0x5C"
  proof (cases "is_alnum_char c")
    case True
    then have "32 \<le> code c \<and> code c < 128"
      unfolding is_alnum_char_def is_alpha_char_def is_digit_char_def by linarith
    with True no show ?thesis by blast
  next
    case False
    with assms have "c = CHR ''.'' \<or> c = CHR ''_'' \<or> c = CHR '':'' \<or> c = CHR ''/'' \<or> c = CHR ''-''" by simp
    then show ?thesis by (elim disjE) (simp_all add: code_def)
  qed
  then show ?thesis using plain_json_char by blast
qed

lemma plain_json_bytes: "(\<And>c. c \<in> set s \<Longrightarrow> json_char c = [c] \<and> code c < 128) \<Longrightarrow> utf8_bytes (json_string s) = 2 + length s"
proof -
  assume a: "\<And>c. c \<in> set s \<Longrightarrow> json_char c = [c] \<and> code c < 128"
  then have "utf8_bytes (concat (map json_char s)) = length s"
    by (induction s) (auto simp: utf8_bytes_def)
  then show ?thesis by (simp add: json_string_def utf8_bytes_def code_def)
qed

lemma effect_identifier_bytes:
  assumes "EFFECT_IDENTIFIER s"
  shows "utf8_bytes (json_string s) \<le> 130"
proof -
  have "length s \<le> 128" using lexical_length assms by (fastforce simp: EFFECT_IDENTIFIER_def)
  moreover have "json_char c = [c] \<and> code c < 128" if "c \<in> set s" for c
    by (rule identifier_char) (use that assms in \<open>auto simp: EFFECT_IDENTIFIER_def lexical_def list_all_iff split: list.splits\<close>)
  ultimately show ?thesis using plain_json_bytes[of s] by simp
qed

lemma effect_bytes:
  assumes "EFFECT_IDENTIFIER (effectId e)"
  shows "utf8_bytes (plain_text (canonical (effect_object e))) \<le> 202"
proof -
  have keys: "utf8_bytes (json_string ''kind'') = 6" "utf8_bytes (json_string ''effectId'') = 10"
    "utf8_bytes (json_string ''reversible'') = 12" "utf8_bytes (json_string ''compensation'') = 14"
    "utf8_bytes (json_string ''repository-write'') = 18" "utf8_bytes (json_string ''external-known'') = 16"
    "utf8_bytes (json_string ''unknown'') = 9" "utf8_bytes ''true'' = 4" "utf8_bytes ''false'' = 5"
    by code_simp+
  have "utf8_bytes (json_string ''compensated'') \<le> 16" "utf8_bytes (json_string ''pending'') \<le> 16"
    "utf8_bytes (json_string ''noncompensable'') \<le> 16"
    by code_simp+
  then have c: "utf8_bytes (json_string (compensation_text c)) \<le> 16" for c by (cases c) simp_all
  note parts = canonical_eqs(1-5) plain_text_eqs(1-4) keys
  from effect_identifier_bytes[OF assms] show ?thesis
  proof (cases e)
    case (RepositoryWrite i b)
    with effect_identifier_bytes[OF assms] show ?thesis
      by (auto simp: parts intro: order_trans[OF canonical_object_size])
  next
    case (ExternalKnown i x)
    with effect_identifier_bytes[OF assms] c[of x] show ?thesis
      by (auto simp: parts intro: order_trans[OF canonical_object_size])
  next
    case (UnknownEffect i)
    with effect_identifier_bytes[OF assms] show ?thesis
      by (auto simp: parts intro: order_trans[OF canonical_object_size])
  qed
qed

lemma ledger_bytes:
  assumes "ledger_ok l"
  shows "utf8_bytes (plain_text (canonical (ledger_object l))) \<le> MAX_CANONICAL_JSON_BYTES"
proof -
  have "sum_list (map (\<lambda>x. Suc (utf8_bytes (plain_text (canonical x)))) (map effect_object l)) \<le> sum_list (map (\<lambda>_. 203) l)"
    unfolding map_map comp_def using assms effect_bytes by (intro sum_list_mono) (simp add: ledger_ok_def)
  also have "\<dots> \<le> 203 * 256"
    using assms by (simp add: sum_list_triv ledger_ok_def MAX_EFFECTS_def)
  finally have a: "utf8_bytes (plain_text (canonical (JArr (map effect_object l)))) \<le> 2 + 203 * 256"
    using canonical_array_size[of "map effect_object l"] by linarith
  have keys: "utf8_bytes (json_string ''protocolVersion'') = 17" "utf8_bytes (json_string ''effects'') = 9"
    "utf8_bytes (plain_text (canonical (JNum (NInt 1)))) = 1"
    by (code_simp, code_simp, rule scalar_bytes)
  show ?thesis
    unfolding ledger_object_def MAX_CANONICAL_JSON_BYTES_def
    using a by (intro order_trans[OF canonical_object_size]) (simp add: keys)
qed

lemma ledger_json_data: "json_data (ledger_object l) 0"
proof -
  have "json_data (effect_object e) 2" for e
    by (cases e) (simp_all add: json_data_eqs MAX_CANONICAL_DEPTH_def)
  then show ?thesis
    by (simp add: ledger_object_def json_data_eqs MAX_CANONICAL_DEPTH_def finite_number_def numeral_2_eq_2)
qed

lemma ledger_numbers_ok: "numbers_ok (ledger_object l)"
proof -
  have "numbers_ok (effect_object e)" for e by (cases e) (simp_all add: numbers_ok_eqs)
  then show ?thesis by (simp add: ledger_object_def numbers_ok_eqs number_ok_def)
qed

lemma ledger_digest_eq:
  "ledger_ok l \<Longrightarrow> effectLedgerDigest B l = Inr (sha256_hex B (plain_text (canonical (ledger_object l))))"
  using ledger_bytes ledger_json_data by (simp add: effectLedgerDigest_def sha256CanonicalJson_def canonicalJson_def canonicalize_eq not_less)
lemma compensation_text_inject: "compensation_text c = compensation_text d \<Longrightarrow> c = d"
  by (cases c; cases d) simp_all

lemma canonical_effect_inject: "canonical (effect_object e) = canonical (effect_object f) \<Longrightarrow> e = f"
proof -
  assume a: "canonical (effect_object e) = canonical (effect_object f)"
  have j: "jget (canonical (effect_object g)) k = canonical (jget (effect_object g) k)" for g k
    by (cases g) (simp_all only: effect_object.simps, (rule jget_canonical, simp)+)
  from a j have "canonical (jget (effect_object e) k) = canonical (jget (effect_object f) k)" for k by metis
  from this[of "''kind''"] this[of "''effectId''"] this[of "''reversible''"] this[of "''compensation''"] show ?thesis
    by (cases e; cases f) (auto simp: canonical_eqs(1-5) dest: compensation_text_inject)
qed

lemma ledger_digest_inject:
  assumes "\<And>x y. sha256_hex B x = sha256_hex B y \<Longrightarrow> x = y" and "ledger_ok l" and "ledger_ok l'"
    and "effectLedgerDigest B l = effectLedgerDigest B l'"
  shows "l = l'"
proof -
  have t: "canonicalJson (ledger_object l) = Inr (plain_text (canonical (ledger_object l)))"
    if "ledger_ok l" for l
    using ledger_bytes[OF that] ledger_json_data by (simp add: canonicalJson_eq_Inr)
  have "plain_text (canonical (ledger_object l)) = plain_text (canonical (ledger_object l'))"
    using assms by (simp add: ledger_digest_eq)
  then have c: "canonical (ledger_object l) = canonical (ledger_object l')"
    using canonicalJson_unique[OF t[OF assms(2)] t[OF assms(3)] ledger_numbers_ok ledger_numbers_ok] by simp
  have "jget (canonical (ledger_object l)) ''effects'' = JArr (map (canonical \<circ> effect_object) l)" for l
    unfolding ledger_object_def by (subst jget_canonical) (simp_all add: canonical_eqs)
  with c have "map (canonical \<circ> effect_object) l = map (canonical \<circ> effect_object) l'"
    by (metis js.inject(4))
  then show ?thesis
    by (rule map_injective) (auto intro!: injI dest: canonical_effect_inject)
qed

section \<open>Properties\<close>

text \<open>
Every ledger that parses has a digest: 256 effects with identifiers of 128
  characters stay below the 65536 bytes that canonical JSON allows. Parsing is stable, and with a
  digest function without collisions two parsed ledgers have the same digest only when they are
  the same list of effects.
\<close>

theorem parsed_ledger_has_digest:
  assumes "parseEffectLedger v = Inr l" and "parseEffectLedger v' = Inr l'"
    and "\<And>x y. sha256_hex B x = sha256_hex B y \<Longrightarrow> x = y"
  shows "parseEffectLedger (ledger_object l) = Inr l \<and> (\<exists>d. effectLedgerDigest B l = Inr d) \<and>
    (effectLedgerDigest B l = effectLedgerDigest B l' \<longleftrightarrow> l = l')"
  using parseEffectLedger_ok[OF assms(1)] parseEffectLedger_ok[OF assms(2)] ledger_digest_eq parse_ledger_object
    ledger_digest_inject[OF assms(3)] by blast

definition sample_ledger :: effectLedger where
  "sample_ledger = [RepositoryWrite ''write-1'' True, ExternalKnown ''deploy/1'' Compensated]"

lemma sample_ledger_parses: "parseEffectLedger (ledger_object sample_ledger) = Inr sample_ledger"
  and empty_ledger_parses: "parseEffectLedger (ledger_object []) = Inr []"
  by code_simp+

theorem parsed_ledger_has_digest_witness:
  "effectLedgerDigest (sample_builtins JNull) sample_ledger \<noteq> effectLedgerDigest (sample_builtins JNull) []"
proof -
  have "sha256_hex (sample_builtins JNull) x = sha256_hex (sample_builtins JNull) y \<Longrightarrow> x = y" for x y
    by (simp add: sample_builtins_def)
  from parsed_ledger_has_digest[OF sample_ledger_parses empty_ledger_parses this] show ?thesis
    by (simp add: sample_ledger_def)
qed

end
