(* ===== verification/Replay.thy ===== *)
theory Replay
  imports EffectLedger PersistedState
begin

text \<open>
  Replay compatibility: \<open>src/src/workflow/replay-compatibility.ts\<close>, the metadata that every stored
  checkpoint carries (\<open>src/src/persistence/checkpoint-replay-metadata.ts\<close>) and the preflight of a
  backtrack (\<open>src/src/workflow/backtrack.ts\<close>). The fingerprint of a checkpoint is the digest of
  everything a replay from it depends on.
\<close>

section \<open>Bindings and fingerprints\<close>

record replayCheckpoint =
  rcThreadId :: string
  rcCheckpointId :: string
  rcLineage :: "string list"

record replayBinding =
  rbBridgeProtocolVersion :: int
  rbWorkflowVersion :: int
  rbStateVersion :: int
  rbCheckpoint :: replayCheckpoint
  rbWorkflowInput :: js
  rbRepositorySnapshot :: repositorySnapshotRef
  rbToolModelConfigDigest :: string
  rbEffectLedgerDigest :: string

definition MAX_LINEAGE :: nat where "MAX_LINEAGE = 256"

definition replay_fail :: "'a result" where "replay_fail = Inl ReplayCompatibilityError"

definition replay_exactFields :: "js \<Rightarrow> string list \<Rightarrow> unit result" where
  "replay_exactFields r ks =
     (if length (keys_of r) \<noteq> length ks \<or> list_ex (\<lambda>k. k \<notin> set (keys_of r)) ks then replay_fail else Inr ())"

definition replay_record :: "js \<Rightarrow> js result" where
  "replay_record v = (if is_record v then Inr v else replay_fail)"

definition replay_version :: "js \<Rightarrow> int result" where
  "replay_version v =
     (case v of JNum (NInt i) \<Rightarrow> if \<bar>i\<bar> > max_safe_integer \<or> i < 1 \<or> i > 10000 then replay_fail else Inr i
      | _ \<Rightarrow> replay_fail)"

definition replay_identifier :: "js \<Rightarrow> string result" where
  "replay_identifier v = (case v of JStr s \<Rightarrow> if IDENTIFIER s then Inr s else replay_fail | _ \<Rightarrow> replay_fail)"

definition replay_digest :: "js \<Rightarrow> string result" where
  "replay_digest v = (case v of JStr s \<Rightarrow> if SHA256 s then Inr s else replay_fail | _ \<Rightarrow> replay_fail)"

function isJsonValue :: "js \<Rightarrow> nat \<Rightarrow> bool" where
  "isJsonValue v depth =
     (if depth > 32 then False
      else case v of
        JNull \<Rightarrow> True
      | JBool _ \<Rightarrow> True
      | JStr _ \<Rightarrow> True
      | JNum n \<Rightarrow> finite_number n
      | JArr xs \<Rightarrow> (\<forall>x \<in> set xs. isJsonValue x (depth + 1))
      | JObj kvs \<Rightarrow> (\<forall>m \<in> set kvs. isJsonValue (snd m) (depth + 1))
      | JUndef \<Rightarrow> False)"
  by pat_completeness auto
termination
  by (relation "measure (\<lambda>(v, d). size v)") (auto simp: less_Suc_eq_le intro: member_size element_size)

declare isJsonValue.simps [simp del]

definition normalizedWorkflowInput :: "js \<Rightarrow> string result" where
  "normalizedWorkflowInput v =
     (if \<not> isJsonValue v 0 then replay_fail
      else case canonicalJson v of Inl _ \<Rightarrow> replay_fail | Inr t \<Rightarrow> Inr t)"

definition parseCheckpoint :: "js \<Rightarrow> replayCheckpoint result" where
  "parseCheckpoint v =
     sbind (replay_record v) (\<lambda>r.
     sbind (replay_exactFields r [''threadId'', ''checkpointId'', ''lineage'']) (\<lambda>_.
     sbind (replay_identifier (jget r ''checkpointId'')) (\<lambda>checkpoint.
     case jget r ''lineage'' of
       JArr xs \<Rightarrow>
         if xs = [] \<or> length xs > MAX_LINEAGE then replay_fail
         else sbind (traverse replay_identifier xs) (\<lambda>lineage.
           if last lineage \<noteq> checkpoint then replay_fail
           else sbind (replay_identifier (jget r ''threadId'')) (\<lambda>thread.
             Inr \<lparr>rcThreadId = thread, rcCheckpointId = checkpoint, rcLineage = lineage\<rparr>))
     | _ \<Rightarrow> replay_fail)))"

definition parseSnapshot :: "js \<Rightarrow> repositorySnapshotRef result" where
  "parseSnapshot v =
     sbind (replay_record v) (\<lambda>r.
     sbind (replay_exactFields r [''snapshotId'', ''baselineHead'']) (\<lambda>_.
     sbind (case jget r ''baselineHead'' of
              JNull \<Rightarrow> Inr None
            | JStr s \<Rightarrow> if GIT_HEAD s then Inr (Some s) else replay_fail
            | _ \<Rightarrow> replay_fail) (\<lambda>head.
     sbind (replay_digest (jget r ''snapshotId'')) (\<lambda>snapshot.
     Inr \<lparr>rsSnapshotId = snapshot, rsBaselineHead = head\<rparr>))))"

definition parseReplayFingerprintBinding :: "js \<Rightarrow> replayBinding result" where
  "parseReplayFingerprintBinding v =
     sbind (replay_record v) (\<lambda>r.
     sbind (replay_exactFields r
       [''bridgeProtocolVersion'', ''workflowVersion'', ''stateVersion'', ''checkpoint'', ''workflowInput'',
        ''repositorySnapshot'', ''toolModelConfigDigest'', ''effectLedgerDigest'']) (\<lambda>_.
     sbind (parseCheckpoint (jget r ''checkpoint'')) (\<lambda>checkpoint.
     sbind (normalizedWorkflowInput (jget r ''workflowInput'')) (\<lambda>_.
     sbind (replay_version (jget r ''bridgeProtocolVersion'')) (\<lambda>bridge.
     sbind (replay_version (jget r ''workflowVersion'')) (\<lambda>workflow.
     sbind (replay_version (jget r ''stateVersion'')) (\<lambda>state.
     sbind (parseSnapshot (jget r ''repositorySnapshot'')) (\<lambda>snapshot.
     sbind (replay_digest (jget r ''toolModelConfigDigest'')) (\<lambda>config.
     sbind (replay_digest (jget r ''effectLedgerDigest'')) (\<lambda>ledger.
     Inr \<lparr>rbBridgeProtocolVersion = bridge, rbWorkflowVersion = workflow, rbStateVersion = state,
          rbCheckpoint = checkpoint, rbWorkflowInput = jget r ''workflowInput'', rbRepositorySnapshot = snapshot,
          rbToolModelConfigDigest = config, rbEffectLedgerDigest = ledger\<rparr>))))))))))"

text \<open>The objects of a parsed binding.\<close>

definition checkpoint_object :: "replayCheckpoint \<Rightarrow> js" where
  "checkpoint_object c = JObj
     [(''threadId'', JStr (rcThreadId c)), (''checkpointId'', JStr (rcCheckpointId c)),
      (''lineage'', JArr (map JStr (rcLineage c)))]"

definition binding_snapshot_object :: "repositorySnapshotRef \<Rightarrow> js" where
  "binding_snapshot_object s = JObj
     [(''snapshotId'', JStr (rsSnapshotId s)),
      (''baselineHead'', case rsBaselineHead s of None \<Rightarrow> JNull | Some h \<Rightarrow> JStr h)]"

definition binding_object :: "replayBinding \<Rightarrow> js" where
  "binding_object b = JObj
     [(''bridgeProtocolVersion'', JNum (NInt (rbBridgeProtocolVersion b))),
      (''workflowVersion'', JNum (NInt (rbWorkflowVersion b))), (''stateVersion'', JNum (NInt (rbStateVersion b))),
      (''checkpoint'', checkpoint_object (rbCheckpoint b)), (''workflowInput'', rbWorkflowInput b),
      (''repositorySnapshot'', binding_snapshot_object (rbRepositorySnapshot b)),
      (''toolModelConfigDigest'', JStr (rbToolModelConfigDigest b)),
      (''effectLedgerDigest'', JStr (rbEffectLedgerDigest b))]"

definition fingerprint_object :: "replayBinding \<Rightarrow> string \<Rightarrow> js" where
  "fingerprint_object b input = JObj
     [(''bridgeProtocolVersion'', JNum (NInt (rbBridgeProtocolVersion b))),
      (''workflowVersion'', JNum (NInt (rbWorkflowVersion b))), (''stateVersion'', JNum (NInt (rbStateVersion b))),
      (''checkpoint'', checkpoint_object (rbCheckpoint b)), (''normalizedWorkflowInput'', JStr input),
      (''repositorySnapshot'', binding_snapshot_object (rbRepositorySnapshot b)),
      (''toolModelConfigDigest'', JStr (rbToolModelConfigDigest b)),
      (''effectLedgerDigest'', JStr (rbEffectLedgerDigest b))]"

definition replayFingerprint :: "builtins \<Rightarrow> js \<Rightarrow> string result" where
  "replayFingerprint B v =
     sbind (parseReplayFingerprintBinding v) (\<lambda>b.
     sbind (normalizedWorkflowInput (rbWorkflowInput b)) (\<lambda>input.
     sha256CanonicalJson B (fingerprint_object b input)))"
section \<open>Metadata of stored checkpoints\<close>

record checkpointReplayMetadata =
  cmSemanticLabels :: "semanticLabel list"
  cmReplay :: "(replayBinding \<times> string) option"

record replaySafetyContext =
  rsBridgeProtocolVersion :: js
  rsWorkflowVersion :: js
  rsStateVersion :: js
  rsWorkflowInput :: js
  rsToolModelConfigDigest :: js
  rsEffectLedgerDigest :: js

definition repositoryCheckpointIdentity :: "js \<Rightarrow> repositorySnapshotRef option result" where
  "repositoryCheckpointIdentity metadata =
     (if ''repositorySnapshot'' \<notin> set (keys_of metadata) then Inr None
      else
        let v = jget metadata ''repositorySnapshot''; invalid = Inl (PlainError ''invalid checkpoint repository snapshot identity'')
        in if jget v ''protocolVersion'' \<noteq> JNum (NInt 1) then invalid
           else case jget v ''snapshotId'' of
             JStr snapshot \<Rightarrow>
               if \<not> SHA256 snapshot then invalid
               else (case jget v ''head'' of
                   JNull \<Rightarrow> Inr (Some \<lparr>rsSnapshotId = snapshot, rsBaselineHead = None\<rparr>)
                 | JStr h \<Rightarrow> if GIT_HEAD h then Inr (Some \<lparr>rsSnapshotId = snapshot, rsBaselineHead = Some h\<rparr>) else invalid
                 | _ \<Rightarrow> invalid)
           | _ \<Rightarrow> invalid)"

definition label_of :: "js \<Rightarrow> semanticLabel option" where
  "label_of v = List.find (\<lambda>l. v = JStr (label_text l)) SEMANTIC_CHECKPOINT_LABELS"

definition parse_labels :: "js list \<Rightarrow> semanticLabel list result" where
  "parse_labels xs =
     (let labels = List.map_filter label_of xs;
          canonical = filter (\<lambda>l. l \<in> set labels) SEMANTIC_CHECKPOINT_LABELS
      in if length labels \<noteq> length xs \<or> length canonical \<noteq> length labels \<or> canonical \<noteq> labels then replay_fail
         else Inr canonical)"

definition parse_replayMetadata :: "builtins \<Rightarrow> js \<Rightarrow> checkpointReplayMetadata option result" where
  "parse_replayMetadata B metadata =
     (if \<not> is_record metadata \<or> ''piLangGraph'' \<notin> set (keys_of metadata) then Inr None
      else let v = jget metadata ''piLangGraph'' in
        if \<not> is_record v \<or> jget v ''version'' \<noteq> JNum (NInt 1) then replay_fail
        else case jget v ''semanticLabels'' of
          JArr xs \<Rightarrow>
            sbind (parse_labels xs) (\<lambda>labels.
            let hasBinding = ''replayBinding'' \<in> set (keys_of v);
                hasFingerprint = ''replayFingerprint'' \<in> set (keys_of v);
                expected = (if hasBinding \<or> hasFingerprint
                  then [''version'', ''semanticLabels'', ''replayBinding'', ''replayFingerprint'']
                  else [''version'', ''semanticLabels''])
            in sbind (replay_exactFields v expected) (\<lambda>_.
               if \<not> hasBinding then Inr (Some \<lparr>cmSemanticLabels = labels, cmReplay = None\<rparr>)
               else sbind (parseReplayFingerprintBinding (jget v ''replayBinding'')) (\<lambda>b.
                 case jget v ''replayFingerprint'' of
                   JStr fingerprint \<Rightarrow>
                     sbind (replayFingerprint B (binding_object b)) (\<lambda>f.
                     if f \<noteq> fingerprint then replay_fail
                     else Inr (Some \<lparr>cmSemanticLabels = labels, cmReplay = Some (b, fingerprint)\<rparr>))
                 | _ \<Rightarrow> replay_fail)))
        | _ \<Rightarrow> replay_fail)"

lemma lineage_measure:
  assumes "current \<notin> set reversed" and "map_of stored current = Some parent"
  shows "card (fst ` set stored - set (reversed @ [current])) < card (fst ` set stored - set reversed)"
proof (rule psubset_card_mono)
  have "current \<in> fst ` set stored" using assms(2) by (force dest: map_of_SomeD)
  with assms(1) show "fst ` set stored - set (reversed @ [current]) \<subset> fst ` set stored - set reversed" by auto
qed simp

text \<open>
  The ancestors of a checkpoint, from the parents the saver stored: the walk stops with an error
  at a parent it has seen or that is not stored, so it visits every stored checkpoint once at most.
\<close>

function checkpointLineage :: "(string \<times> string option) list \<Rightarrow> string list \<Rightarrow> string option \<Rightarrow> string list result" where
  "checkpointLineage stored reversed None = Inr (rev reversed)"
| "checkpointLineage stored reversed (Some current) =
     (if current \<in> set reversed then replay_fail
      else case map_of stored current of
        None \<Rightarrow> replay_fail
      | Some parent \<Rightarrow> checkpointLineage stored (reversed @ [current]) parent)"
  by pat_completeness auto

termination
  by (relation "measure (\<lambda>(stored, reversed, _). card (fst ` set stored - set reversed))") (use lineage_measure in auto)

definition context_object :: "replaySafetyContext \<Rightarrow> string \<Rightarrow> string \<Rightarrow> string list \<Rightarrow> repositorySnapshotRef \<Rightarrow> js" where
  "context_object c thread checkpoint lineage repository = JObj
     [(''bridgeProtocolVersion'', rsBridgeProtocolVersion c), (''workflowVersion'', rsWorkflowVersion c),
      (''stateVersion'', rsStateVersion c), (''workflowInput'', rsWorkflowInput c),
      (''toolModelConfigDigest'', rsToolModelConfigDigest c), (''effectLedgerDigest'', rsEffectLedgerDigest c),
      (''checkpoint'', JObj [(''threadId'', JStr thread), (''checkpointId'', JStr checkpoint), (''lineage'', JArr (map JStr lineage))]),
      (''repositorySnapshot'', binding_snapshot_object repository)]"

definition createCheckpointReplayMetadata ::
    "builtins \<Rightarrow> (string \<times> string option) list \<Rightarrow> string option \<Rightarrow> string \<Rightarrow> js \<Rightarrow> string
     \<Rightarrow> repositorySnapshotRef option \<Rightarrow> replaySafetyContext option \<Rightarrow> checkpointReplayMetadata result" where
  "createCheckpointReplayMetadata B stored parent checkpoint channels thread repository safety =
     (let labels = semanticCheckpointLabels channels in
      case safety of
        None \<Rightarrow> Inr \<lparr>cmSemanticLabels = labels, cmReplay = None\<rparr>
      | Some c \<Rightarrow>
          (case repository of
             None \<Rightarrow> replay_fail
           | Some r \<Rightarrow>
               sbind (checkpointLineage stored [] parent) (\<lambda>ancestors.
               sbind (parseReplayFingerprintBinding (context_object c thread checkpoint (ancestors @ [checkpoint]) r)) (\<lambda>b.
               sbind (replayFingerprint B (binding_object b)) (\<lambda>f.
               Inr \<lparr>cmSemanticLabels = labels, cmReplay = Some (b, f)\<rparr>)))))"

definition metadata_object :: "checkpointReplayMetadata \<Rightarrow> js" where
  "metadata_object m = JObj
     ([(''version'', JNum (NInt 1)), (''semanticLabels'', JArr (map (\<lambda>l. JStr (label_text l)) (cmSemanticLabels m)))] @
      (case cmReplay m of
         None \<Rightarrow> []
       | Some (b, f) \<Rightarrow> [(''replayBinding'', binding_object b), (''replayFingerprint'', JStr f)]))"
section \<open>Preflight of a backtrack\<close>

record checkpointTuple =
  ctCheckpointId :: string
  ctStatus :: js
  ctMetadata :: js

datatype preflightResult =
    PreflightAccepted string sessionCheckpointLink string string
  | PreflightIncompatible string
  | PreflightBlockedEffect string
  | PreflightSourceChanged string
  | PreflightMissingCheckpoint string
  | PreflightAlreadyTerminal string

definition compatible_metadata ::
    "builtins \<Rightarrow> sessionCheckpointLink \<Rightarrow> replayBinding \<Rightarrow> string \<Rightarrow> repositorySnapshotRef option \<Rightarrow> bool result" where
  "compatible_metadata B link b f repository =
     (if rcThreadId (rbCheckpoint b) = slThreadId link \<and> rcCheckpointId (rbCheckpoint b) = slCheckpointId link \<and>
         last (rcLineage (rbCheckpoint b)) = slCheckpointId link \<and>
         rsSnapshotId (rbRepositorySnapshot b) = rsSnapshotId (slRepositorySnapshot link) \<and>
         rsBaselineHead (rbRepositorySnapshot b) = rsBaselineHead (slRepositorySnapshot link) \<and>
         rbEffectLedgerDigest b = slEffectLedgerDigest link \<and>
         repository = Some (slRepositorySnapshot link) \<and> f = slReplayFingerprint link
      then sbind (replayFingerprint B (binding_object b)) (\<lambda>g. Inr (g = slReplayFingerprint link))
      else Inr False)"

definition hasCompatibleReplay :: "builtins \<Rightarrow> checkpointTuple \<Rightarrow> sessionCheckpointLink \<Rightarrow> bool result" where
  "hasCompatibleReplay B tuple link =
     (case sbind (parse_replayMetadata B (ctMetadata tuple)) (\<lambda>m.
             case Option.bind m cmReplay of
               None \<Rightarrow> Inr False
             | Some (b, f) \<Rightarrow>
                 sbind (repositoryCheckpointIdentity (ctMetadata tuple)) (compatible_metadata B link b f)) of
        Inl ReplayCompatibilityError \<Rightarrow> Inr False
      | r \<Rightarrow> r)"

definition preflightBacktrack ::
    "builtins \<Rightarrow> (string \<Rightarrow> string \<Rightarrow> checkpointTuple option) \<Rightarrow> effectLedger \<Rightarrow> (string \<Rightarrow> bool)
     \<Rightarrow> repositorySnapshotRef result \<Rightarrow> backtrackRequest \<Rightarrow> preflightResult result" where
  "preflightBacktrack B getTuple ledger snapshotExists source request =
     (let link = brLink request; i = brRequestId request in
      case getTuple (slThreadId link) (slCheckpointId link) of
        None \<Rightarrow> Inr (PreflightMissingCheckpoint i)
      | Some tuple \<Rightarrow>
          if ctCheckpointId tuple \<noteq> slCheckpointId link then Inr (PreflightMissingCheckpoint i)
          else if ctStatus tuple = JStr ''completed'' then Inr (PreflightAlreadyTerminal i)
          else sbind (hasCompatibleReplay B tuple link) (\<lambda>compatible.
            if \<not> compatible then Inr (PreflightIncompatible i)
            else sbind (effectLedgerDigest B ledger) (\<lambda>d.
              if d \<noteq> slEffectLedgerDigest link then Inr (PreflightIncompatible i)
              else if assessAutomaticBacktrackSafety ledger \<noteq> Safe then Inr (PreflightBlockedEffect i)
              else if \<not> snapshotExists (rsSnapshotId (slRepositorySnapshot link)) then Inr (PreflightIncompatible i)
              else sbind source (\<lambda>s.
                if rsBaselineHead s \<noteq> rsBaselineHead (slRepositorySnapshot link) then Inr (PreflightSourceChanged i)
                else Inr (PreflightAccepted i link (rsSnapshotId (slRepositorySnapshot link)) (rsSnapshotId s))))))"
section \<open>Parsing is stable\<close>

lemmas isJsonValue_eqs = isJsonValue.simps[of JUndef] isJsonValue.simps[of JNull] isJsonValue.simps[of "JBool b" for b]
  isJsonValue.simps[of "JNum n" for n] isJsonValue.simps[of "JStr s" for s] isJsonValue.simps[of "JArr xs" for xs]
  isJsonValue.simps[of "JObj kvs" for kvs]

lemma isJsonValue_eq: "isJsonValue v d \<longleftrightarrow> json_data v d"
proof (induction v d rule: isJsonValue.induct)
  case (1 v d)
  show ?case
    by (cases v) (use 1 in \<open>auto simp: isJsonValue_eqs json_data_eqs MAX_CANONICAL_DEPTH_def not_less\<close>)
qed

lemma normalized_Inr: "normalizedWorkflowInput v = Inr t \<longleftrightarrow> canonicalJson v = Inr t"
proof (cases "canonicalJson v")
  case (Inr u)
  then have "isJsonValue v 0" by (simp add: isJsonValue_eq canonicalJson_eq_Inr)
  with Inr show ?thesis by (simp add: normalizedWorkflowInput_def)
qed (simp add: normalizedWorkflowInput_def replay_fail_def)

lemma replay_fail_Inr [simp]: "replay_fail \<noteq> Inr x"
  by (simp add: replay_fail_def)

lemma replay_readers [result_simps]:
  "replay_record v = Inr r \<longleftrightarrow> is_record v \<and> r = v"
  "replay_exactFields r ks = Inr u \<longleftrightarrow> length (keys_of r) = length ks \<and> set ks \<subseteq> set (keys_of r)"
  "replay_version v = Inr i \<longleftrightarrow> v = JNum (NInt i) \<and> 1 \<le> i \<and> i \<le> 10000"
  "replay_identifier v = Inr s \<longleftrightarrow> v = JStr s \<and> IDENTIFIER s"
  "replay_digest v = Inr s \<longleftrightarrow> v = JStr s \<and> SHA256 s"
  by (auto simp: replay_record_def replay_exactFields_def replay_version_def replay_identifier_def replay_digest_def
      list_ex_iff max_safe_integer_def split: js.splits jnum.splits)

definition checkpoint_ok :: "replayCheckpoint \<Rightarrow> bool" where
  "checkpoint_ok c \<longleftrightarrow> IDENTIFIER (rcThreadId c) \<and> rcLineage c \<noteq> [] \<and> length (rcLineage c) \<le> MAX_LINEAGE \<and>
     last (rcLineage c) = rcCheckpointId c \<and> (\<forall>i \<in> set (rcLineage c). IDENTIFIER i)"

definition version_ok :: "int \<Rightarrow> bool" where "version_ok i \<longleftrightarrow> 1 \<le> i \<and> i \<le> 10000"

definition replay_binding_ok :: "replayBinding \<Rightarrow> bool" where
  "replay_binding_ok b \<longleftrightarrow> version_ok (rbBridgeProtocolVersion b) \<and> version_ok (rbWorkflowVersion b) \<and>
     version_ok (rbStateVersion b) \<and> checkpoint_ok (rbCheckpoint b) \<and>
     (\<exists>t. canonicalJson (rbWorkflowInput b) = Inr t) \<and> snapshot_ok (rbRepositorySnapshot b) \<and>
     SHA256 (rbToolModelConfigDigest b) \<and> SHA256 (rbEffectLedgerDigest b)"

lemma traverse_identifiers: "traverse replay_identifier xs = Inr ys \<Longrightarrow> xs = map JStr ys \<and> (\<forall>i \<in> set ys. IDENTIFIER i)"
  by (induction xs arbitrary: ys) (auto simp: result_simps)

lemma parseCheckpoint_ok:
  assumes "parseCheckpoint v = Inr c"
  shows "checkpoint_ok c"
proof (cases "jget v ''lineage''")
  case (JArr xs)
  with assms obtain lineage where t: "traverse replay_identifier xs = Inr lineage" and "xs \<noteq> []" "length xs \<le> MAX_LINEAGE"
    and "last lineage = rcCheckpointId c" "IDENTIFIER (rcThreadId c)" "rcLineage c = lineage"
    by (auto simp: parseCheckpoint_def result_simps not_less split: if_splits)
  with traverse_identifiers[OF t] show ?thesis by (auto simp: checkpoint_ok_def)
qed (use assms in \<open>simp_all add: parseCheckpoint_def result_simps\<close>)

lemma parseSnapshot_ok:
  assumes "parseSnapshot v = Inr s"
  shows "snapshot_ok s"
  by (cases "jget v ''baselineHead''")
    (use assms in \<open>auto simp: parseSnapshot_def result_simps snapshot_ok_def split: if_splits\<close>)

lemma parseReplayFingerprintBinding_ok: "parseReplayFingerprintBinding v = Inr b \<Longrightarrow> replay_binding_ok b"
  by (auto simp: parseReplayFingerprintBinding_def result_simps replay_binding_ok_def normalized_Inr version_ok_def
      dest: parseCheckpoint_ok parseSnapshot_ok)

lemma parse_checkpoint_object:
  assumes "checkpoint_ok c"
  shows "parseCheckpoint (checkpoint_object c) = Inr c"
proof -
  have "traverse replay_identifier (map JStr is) = Inr is" if "\<forall>i \<in> set is. IDENTIFIER i" for "is"
    using that by (induction "is") (simp_all add: replay_identifier_def)
  moreover have "IDENTIFIER (rcCheckpointId c)"
    using assms by (metis checkpoint_ok_def last_in_set)
  ultimately show ?thesis using assms
    by (simp add: parseCheckpoint_def checkpoint_object_def checkpoint_ok_def replay_record_def replay_exactFields_def
        replay_identifier_def)
qed

lemma parse_snapshot_object: "snapshot_ok s \<Longrightarrow> parseSnapshot (binding_snapshot_object s) = Inr s"
  by (cases "rsBaselineHead s")
    (simp_all add: parseSnapshot_def binding_snapshot_object_def replay_record_def replay_exactFields_def snapshot_ok_def
      replay_digest_def)

lemma replay_version_ok: "version_ok i \<Longrightarrow> replay_version (JNum (NInt i)) = Inr i"
  by (simp add: result_simps version_ok_def)

lemma binding_object_jget:
  "jget (binding_object b) ''bridgeProtocolVersion'' = JNum (NInt (rbBridgeProtocolVersion b))"
  "jget (binding_object b) ''workflowVersion'' = JNum (NInt (rbWorkflowVersion b))"
  "jget (binding_object b) ''stateVersion'' = JNum (NInt (rbStateVersion b))"
  "jget (binding_object b) ''checkpoint'' = checkpoint_object (rbCheckpoint b)"
  "jget (binding_object b) ''workflowInput'' = rbWorkflowInput b"
  "jget (binding_object b) ''repositorySnapshot'' = binding_snapshot_object (rbRepositorySnapshot b)"
  "jget (binding_object b) ''toolModelConfigDigest'' = JStr (rbToolModelConfigDigest b)"
  "jget (binding_object b) ''effectLedgerDigest'' = JStr (rbEffectLedgerDigest b)"
  "replay_record (binding_object b) = Inr (binding_object b)"
  "replay_exactFields (binding_object b)
     [''bridgeProtocolVersion'', ''workflowVersion'', ''stateVersion'', ''checkpoint'', ''workflowInput'',
      ''repositorySnapshot'', ''toolModelConfigDigest'', ''effectLedgerDigest''] = Inr ()"
  by (simp_all add: binding_object_def replay_record_def replay_exactFields_def)

lemma parse_replay_binding_object:
  assumes "replay_binding_ok b"
  shows "parseReplayFingerprintBinding (binding_object b) = Inr b"
proof -
  from assms obtain t where "normalizedWorkflowInput (rbWorkflowInput b) = Inr t"
    by (auto simp: replay_binding_ok_def normalized_Inr)
  then show ?thesis
    using assms
    by (simp add: parseReplayFingerprintBinding_def binding_object_jget replay_binding_ok_def parse_checkpoint_object
        parse_snapshot_object replay_version_ok replay_digest_def)
qed

lemma replayFingerprint_eq:
  assumes "replay_binding_ok b"
  shows "replayFingerprint B (binding_object b) =
    sbind (canonicalJson (rbWorkflowInput b)) (\<lambda>t. sha256CanonicalJson B (fingerprint_object b t))"
proof -
  from assms obtain t where "canonicalJson (rbWorkflowInput b) = Inr t" by (auto simp: replay_binding_ok_def)
  with assms show ?thesis
    by (simp add: replayFingerprint_def parse_replay_binding_object normalized_Inr[THEN iffD2])
qed
section \<open>Lineages\<close>

text \<open>The ancestors of a checkpoint, nearest first, as the saver stored them.\<close>

fun ancestors_of :: "(string \<times> string option) list \<Rightarrow> string option \<Rightarrow> string list \<Rightarrow> bool" where
  "ancestors_of stored None as \<longleftrightarrow> as = []"
| "ancestors_of stored (Some x) [] \<longleftrightarrow> False"
| "ancestors_of stored (Some x) (a # as) \<longleftrightarrow>
     a = x \<and> (case map_of stored x of None \<Rightarrow> False | Some p \<Rightarrow> ancestors_of stored p as)"

lemma checkpointLineage_ancestors:
  "checkpointLineage stored reversed parent = Inr xs \<Longrightarrow> distinct reversed \<Longrightarrow>
   \<exists>as. xs = rev (reversed @ as) \<and> ancestors_of stored parent as \<and> distinct (reversed @ as)"
proof (induction stored reversed parent rule: checkpointLineage.induct)
  case (2 stored reversed current)
  from 2(2) have new: "current \<notin> set reversed" by (auto split: if_splits)
  with 2(2) obtain p where p: "map_of stored current = Some p" by (auto split: option.splits)
  with 2(2) new have "checkpointLineage stored (reversed @ [current]) p = Inr xs" by simp
  from 2(1)[OF new p this] 2(3) new obtain as where "xs = rev ((reversed @ [current]) @ as)" "ancestors_of stored p as"
    "distinct ((reversed @ [current]) @ as)" by auto
  with p show ?case by (intro exI[of _ "current # as"]) simp
qed (intro exI[of _ "[]"], auto)

section \<open>Stored metadata is read back\<close>

lemma label_of_text [simp]: "label_of (JStr (label_text l)) = Some l"
  using parse_label_Inr[of "JStr (label_text l)" l] by (auto simp: label_of_def parse_label_def split: option.splits)

lemma parse_labels_text:
  assumes "filter (\<lambda>l. l \<in> set labels) SEMANTIC_CHECKPOINT_LABELS = labels"
  shows "parse_labels (map (\<lambda>l. JStr (label_text l)) labels) = Inr labels"
proof -
  have "List.map_filter label_of (map (\<lambda>l. JStr (label_text l)) ls) = ls" for ls
    by (induction ls) (simp_all add: List.map_filter_simps)
  with assms show ?thesis by (simp add: parse_labels_def Let_def)
qed

lemma semantic_labels_in_order:
  "filter (\<lambda>l. l \<in> set (semanticCheckpointLabels v)) SEMANTIC_CHECKPOINT_LABELS = semanticCheckpointLabels v"
  by (auto simp: semanticCheckpointLabels_def SEMANTIC_CHECKPOINT_LABELS_def)

definition metadata_ok :: "builtins \<Rightarrow> checkpointReplayMetadata \<Rightarrow> bool" where
  "metadata_ok B m \<longleftrightarrow> filter (\<lambda>l. l \<in> set (cmSemanticLabels m)) SEMANTIC_CHECKPOINT_LABELS = cmSemanticLabels m \<and>
     (case cmReplay m of
        None \<Rightarrow> True | Some (b, f) \<Rightarrow> replay_binding_ok b \<and> replayFingerprint B (binding_object b) = Inr f)"

lemma parse_metadata_object:
  assumes "metadata_ok B m" and "is_record v" and "''piLangGraph'' \<in> set (keys_of v)"
    and "jget v ''piLangGraph'' = metadata_object m"
  shows "parse_replayMetadata B v = Inr (Some m)"
proof -
  obtain labels r where m: "m = \<lparr>cmSemanticLabels = labels, cmReplay = r\<rparr>" by (cases m)
  have labels: "parse_labels (map (\<lambda>l. JStr (label_text l)) labels) = Inr labels"
    using assms(1) parse_labels_text by (simp add: metadata_ok_def m)
  show ?thesis
  proof (cases r)
    case None
    with assms(2-4) m labels show ?thesis
      by (simp add: parse_replayMetadata_def metadata_object_def replay_exactFields_def Let_def)
  next
    case (Some bf)
    obtain b f where bf: "bf = (b, f)" by (cases bf)
    from assms(1) have b: "replay_binding_ok b" and f: "replayFingerprint B (binding_object b) = Inr f"
      by (simp_all add: metadata_ok_def m Some bf)
    show ?thesis
      using assms(2-4) m labels Some bf parse_replay_binding_object[OF b] f
      by (simp add: parse_replayMetadata_def metadata_object_def replay_exactFields_def Let_def)
  qed
qed

lemma createCheckpointReplayMetadata_ok:
  assumes "createCheckpointReplayMetadata B stored parent checkpoint channels thread repository safety = Inr m"
  shows "metadata_ok B m"
  using assms semantic_labels_in_order
  by (auto simp: createCheckpointReplayMetadata_def metadata_ok_def Let_def result_simps split: option.splits
      dest: parseReplayFingerprintBinding_ok)

lemma parse_context_object:
  assumes "parseReplayFingerprintBinding (context_object c thread checkpoint lineage repository) = Inr b"
  shows "rbCheckpoint b = \<lparr>rcThreadId = thread, rcCheckpointId = checkpoint, rcLineage = lineage\<rparr>"
    and "rbRepositorySnapshot b = repository"
proof -
  from assms have c: "parseCheckpoint (JObj [(''threadId'', JStr thread), (''checkpointId'', JStr checkpoint),
      (''lineage'', JArr (map JStr lineage))]) = Inr (rbCheckpoint b)"
    and s: "parseSnapshot (binding_snapshot_object repository) = Inr (rbRepositorySnapshot b)"
    by (auto simp: parseReplayFingerprintBinding_def context_object_def result_simps)
  from c show "rbCheckpoint b = \<lparr>rcThreadId = thread, rcCheckpointId = checkpoint, rcLineage = lineage\<rparr>"
    by (auto simp: parseCheckpoint_def result_simps inj_on_def dest!: traverse_identifiers split: if_splits)
  from s show "rbRepositorySnapshot b = repository"
    by (cases repository) (auto simp: parseSnapshot_def binding_snapshot_object_def result_simps split: option.splits if_splits)
qed
lemma created_metadata:
  assumes "createCheckpointReplayMetadata B stored parent checkpoint channels thread repository safety = Inr m"
    and "cmReplay m = Some (b, f)"
  shows "repository = Some (rbRepositorySnapshot b) \<and> rcThreadId (rbCheckpoint b) = thread \<and>
    (\<exists>as. rcLineage (rbCheckpoint b) = rev as @ [checkpoint] \<and> ancestors_of stored parent as \<and> distinct as)"
proof -
  from assms obtain c r ancestors where "safety = Some c" and r: "repository = Some r"
    and ancestors: "checkpointLineage stored [] parent = Inr ancestors"
    and b: "parseReplayFingerprintBinding (context_object c thread checkpoint (ancestors @ [checkpoint]) r) = Inr b"
    by (auto simp: createCheckpointReplayMetadata_def Let_def result_simps split: option.splits)
  from checkpointLineage_ancestors[OF ancestors] obtain as where "ancestors = rev as" "ancestors_of stored parent as" "distinct as"
    by auto
  with r parse_context_object[OF b] show ?thesis by auto
qed

section \<open>What a fingerprint pins\<close>

lemma fingerprint_numbers_ok: "numbers_ok (fingerprint_object b t)"
  by (auto simp: fingerprint_object_def checkpoint_object_def binding_snapshot_object_def numbers_ok_eqs number_ok_def
      split: option.splits)

lemma canonical_checkpoint_inject:
  assumes "canonical (checkpoint_object c) = canonical (checkpoint_object d)"
  shows "c = d"
proof -
  have j: "jget (canonical (checkpoint_object c)) k = canonical (jget (checkpoint_object c) k)" for c k
    unfolding checkpoint_object_def by (rule jget_canonical) simp
  from assms j have e: "canonical (jget (checkpoint_object c) k) = canonical (jget (checkpoint_object d) k)" for k by metis
  have "map (canonical \<circ> JStr) (rcLineage c) = map (canonical \<circ> JStr) (rcLineage d)"
    using e[of "''lineage''"] by (simp add: checkpoint_object_def canonical_eqs)
  then have "rcLineage c = rcLineage d"
    by (rule map_injective) (auto intro!: injI simp: canonical_eqs)
  with e[of "''threadId''"] e[of "''checkpointId''"] show ?thesis
    by (cases c; cases d) (simp add: checkpoint_object_def canonical_eqs)
qed

lemma canonical_snapshot_inject:
  assumes "canonical (binding_snapshot_object s) = canonical (binding_snapshot_object t)"
  shows "s = t"
proof -
  have j: "jget (canonical (binding_snapshot_object s)) k = canonical (jget (binding_snapshot_object s) k)" for s k
    unfolding binding_snapshot_object_def by (rule jget_canonical) simp
  from assms j have "canonical (jget (binding_snapshot_object s) k) = canonical (jget (binding_snapshot_object t) k)" for k by metis
  from this[of "''snapshotId''"] this[of "''baselineHead''"] show ?thesis
    by (cases s; cases t) (auto simp: binding_snapshot_object_def canonical_eqs split: option.splits)
qed

lemma fingerprint_object_inject:
  assumes "canonical (fingerprint_object b t) = canonical (fingerprint_object c u)"
  shows "t = u \<and> c = b\<lparr>rbWorkflowInput := rbWorkflowInput c\<rparr>"
proof -
  have j: "jget (canonical (fingerprint_object b t)) k = canonical (jget (fingerprint_object b t) k)" for b t k
    unfolding fingerprint_object_def by (rule jget_canonical) simp
  from assms j have e: "canonical (jget (fingerprint_object b t) k) = canonical (jget (fingerprint_object c u) k)" for k by metis
  note fields = e[of "''bridgeProtocolVersion''"] e[of "''workflowVersion''"] e[of "''stateVersion''"]
    e[of "''checkpoint''"] e[of "''normalizedWorkflowInput''"] e[of "''repositorySnapshot''"]
    e[of "''toolModelConfigDigest''"] e[of "''effectLedgerDigest''"]
  have parts: "rbCheckpoint b = rbCheckpoint c" "rbRepositorySnapshot b = rbRepositorySnapshot c" "t = u"
    "rbBridgeProtocolVersion b = rbBridgeProtocolVersion c" "rbWorkflowVersion b = rbWorkflowVersion c"
    "rbStateVersion b = rbStateVersion c" "rbToolModelConfigDigest b = rbToolModelConfigDigest c"
    "rbEffectLedgerDigest b = rbEffectLedgerDigest c"
    using fields canonical_checkpoint_inject canonical_snapshot_inject
    by (simp_all add: fingerprint_object_def canonical_eqs(1-5))
  then show ?thesis by (cases b; cases c) simp
qed

lemma fingerprint_pins:
  assumes "\<And>x y. sha256_hex B x = sha256_hex B y \<Longrightarrow> x = y"
    and v: "parseReplayFingerprintBinding v = Inr b" and w: "parseReplayFingerprintBinding w = Inr c"
    and fv: "replayFingerprint B v = Inr f" and fw: "replayFingerprint B w = Inr f"
    and "numbers_ok (rbWorkflowInput b)" and "numbers_ok (rbWorkflowInput c)"
  shows "c = b\<lparr>rbWorkflowInput := rbWorkflowInput c\<rparr> \<and> canonical (rbWorkflowInput b) = canonical (rbWorkflowInput c)"
proof -
  from fv v obtain t x where t: "canonicalJson (rbWorkflowInput b) = Inr t" and x: "canonicalJson (fingerprint_object b t) = Inr x"
    and "f = sha256_hex B x"
    by (auto simp: replayFingerprint_def result_simps normalized_Inr sha256CanonicalJson_def)
  moreover from fw w obtain u y where u: "canonicalJson (rbWorkflowInput c) = Inr u"
    and y: "canonicalJson (fingerprint_object c u) = Inr y" and "f = sha256_hex B y"
    by (auto simp: replayFingerprint_def result_simps normalized_Inr sha256CanonicalJson_def)
  ultimately have "x = y" using assms(1) by simp
  with canonicalJson_unique[OF x y fingerprint_numbers_ok fingerprint_numbers_ok]
  have "canonical (fingerprint_object b t) = canonical (fingerprint_object c u)" by simp
  from fingerprint_object_inject[OF this] canonicalJson_unique[OF t u] assms(6,7) show ?thesis by simp
qed

section \<open>Preflight\<close>

lemma hasCompatibleReplay_True:
  assumes "hasCompatibleReplay B tuple link = Inr True"
  shows "\<exists>m b. parse_replayMetadata B (ctMetadata tuple) = Inr (Some m) \<and> cmReplay m = Some (b, slReplayFingerprint link) \<and>
    replayFingerprint B (binding_object b) = Inr (slReplayFingerprint link) \<and>
    rcThreadId (rbCheckpoint b) = slThreadId link \<and> rcCheckpointId (rbCheckpoint b) = slCheckpointId link \<and>
    rbRepositorySnapshot b = slRepositorySnapshot link \<and> rbEffectLedgerDigest b = slEffectLedgerDigest link"
proof -
  let ?r = "sbind (parse_replayMetadata B (ctMetadata tuple)) (\<lambda>m.
             case Option.bind m cmReplay of
               None \<Rightarrow> Inr False
             | Some (b, f) \<Rightarrow>
                 sbind (repositoryCheckpointIdentity (ctMetadata tuple)) (compatible_metadata B link b f))"
  have "?r = Inr True"
    using assms by (auto simp: hasCompatibleReplay_def split: sum.splits error.splits)
  then obtain m b f repository where m: "parse_replayMetadata B (ctMetadata tuple) = Inr (Some m)" "cmReplay m = Some (b, f)"
    and c: "compatible_metadata B link b f repository = Inr True"
    by (auto simp: result_simps split: option.splits prod.splits bind_splits)
  with c show ?thesis
    by (intro exI[of _ m] exI[of _ b]) (auto simp: compatible_metadata_def result_simps split: if_splits)
qed

lemma preflight_accepted:
  assumes "preflightBacktrack B getTuple ledger snapshotExists source request = Inr (PreflightAccepted i link target sourceId)"
  shows "i = brRequestId request \<and> link = brLink request \<and> target = rsSnapshotId (slRepositorySnapshot link) \<and>
    (\<exists>tuple m b s. getTuple (slThreadId link) (slCheckpointId link) = Some tuple \<and> ctCheckpointId tuple = slCheckpointId link \<and>
       ctStatus tuple \<noteq> JStr ''completed'' \<and>
       parse_replayMetadata B (ctMetadata tuple) = Inr (Some m) \<and> cmReplay m = Some (b, slReplayFingerprint link) \<and>
       replayFingerprint B (binding_object b) = Inr (slReplayFingerprint link) \<and>
       rcThreadId (rbCheckpoint b) = slThreadId link \<and> rcCheckpointId (rbCheckpoint b) = slCheckpointId link \<and>
       rbRepositorySnapshot b = slRepositorySnapshot link \<and>
       effectLedgerDigest B ledger = Inr (rbEffectLedgerDigest b) \<and> (\<forall>e \<in> set ledger. undoable e) \<and>
       snapshotExists target \<and> source = Inr s \<and> sourceId = rsSnapshotId s \<and>
       rsBaselineHead s = rsBaselineHead (rbRepositorySnapshot b))"
proof -
  obtain l where l: "brLink request = l" by blast
  note run = assms[unfolded preflightBacktrack_def Let_def l]
  from run obtain tuple where tuple: "getTuple (slThreadId l) (slCheckpointId l) = Some tuple"
    by (cases "getTuple (slThreadId l) (slCheckpointId l)") simp_all
  with run have "ctCheckpointId tuple = slCheckpointId l" "ctStatus tuple \<noteq> JStr ''completed''"
    and rest: "sbind (hasCompatibleReplay B tuple l) (\<lambda>compatible.
            if \<not> compatible then Inr (PreflightIncompatible (brRequestId request))
            else sbind (effectLedgerDigest B ledger) (\<lambda>d.
              if d \<noteq> slEffectLedgerDigest l then Inr (PreflightIncompatible (brRequestId request))
              else if assessAutomaticBacktrackSafety ledger \<noteq> Safe then Inr (PreflightBlockedEffect (brRequestId request))
              else if \<not> snapshotExists (rsSnapshotId (slRepositorySnapshot l)) then Inr (PreflightIncompatible (brRequestId request))
              else sbind source (\<lambda>s.
                if rsBaselineHead s \<noteq> rsBaselineHead (slRepositorySnapshot l) then Inr (PreflightSourceChanged (brRequestId request))
                else Inr (PreflightAccepted (brRequestId request) l (rsSnapshotId (slRepositorySnapshot l)) (rsSnapshotId s))))) =
      Inr (PreflightAccepted i link target sourceId)"
    by (simp_all split: if_split_asm)
  moreover from rest obtain compatible where "hasCompatibleReplay B tuple l = Inr compatible" by (auto simp: result_simps)
  moreover from this rest have compatible by (cases compatible) simp_all
  moreover from calculation rest obtain d where "effectLedgerDigest B ledger = Inr d"
    by (cases "effectLedgerDigest B ledger") simp_all
  moreover from calculation rest obtain s where "source = Inr s"
    by (cases source) (simp_all split: if_split_asm)
  ultimately have "d = slEffectLedgerDigest l" "assessAutomaticBacktrackSafety ledger = Safe"
    "snapshotExists (rsSnapshotId (slRepositorySnapshot l))" "rsBaselineHead s = rsBaselineHead (slRepositorySnapshot l)"
    "i = brRequestId request" "link = l" "target = rsSnapshotId (slRepositorySnapshot l)" "sourceId = rsSnapshotId s"
    and replay: "hasCompatibleReplay B tuple l = Inr True"
    by (force split: if_split_asm)+
  with \<open>source = Inr s\<close> \<open>effectLedgerDigest B ledger = Inr d\<close> tuple l \<open>ctCheckpointId tuple = slCheckpointId l\<close>
    \<open>ctStatus tuple \<noteq> JStr ''completed''\<close> hasCompatibleReplay_True[OF replay]
  show ?thesis by (simp add: assess_safe) force
qed
section \<open>Properties\<close>

text \<open>
  Metadata that is stored with a checkpoint is read back as it was: the parser accepts the
  object, finds the labels, the binding and the fingerprint, and recomputes the same fingerprint.
  The binding names the thread, the repository snapshot and the whole lineage of the checkpoint,
  root first, with no checkpoint twice.
\<close>

theorem replay_metadata_reloads:
  assumes "createCheckpointReplayMetadata B stored parent checkpoint channels thread repository safety = Inr m"
  shows "parse_replayMetadata B (JObj [(''piLangGraph'', metadata_object m)]) = Inr (Some m) \<and>
    cmSemanticLabels m = semanticCheckpointLabels channels \<and>
    (\<forall>b f. cmReplay m = Some (b, f) \<longrightarrow>
       repository = Some (rbRepositorySnapshot b) \<and> rcThreadId (rbCheckpoint b) = thread \<and>
       (\<exists>as. rcLineage (rbCheckpoint b) = rev as @ [checkpoint] \<and> ancestors_of stored parent as \<and> distinct as))"
proof -
  have "parse_replayMetadata B (JObj [(''piLangGraph'', metadata_object m)]) = Inr (Some m)"
    by (rule parse_metadata_object[OF createCheckpointReplayMetadata_ok[OF assms]]) simp_all
  moreover have "cmSemanticLabels m = semanticCheckpointLabels channels"
    using assms by (auto simp: createCheckpointReplayMetadata_def Let_def result_simps split: option.splits)
  ultimately show ?thesis using created_metadata[OF assms] by blast
qed

definition sample_safety :: replaySafetyContext where
  "sample_safety =
     \<lparr>rsBridgeProtocolVersion = JNum (NInt 1), rsWorkflowVersion = JNum (NInt 1), rsStateVersion = JNum (NInt 2),
      rsWorkflowInput = JObj [(''objective'', JStr ''fix'')], rsToolModelConfigDigest = JStr (replicate 64 (CHR ''e'')),
      rsEffectLedgerDigest = JStr (replicate 64 (CHR ''c''))\<rparr>"

definition sample_stored :: "(string \<times> string option) list" where
  "sample_stored = [(''step-2'', Some ''step-1''), (''step-1'', None)]"

definition constant_builtins :: builtins where
  "constant_builtins =
     \<lparr>json_parse = (\<lambda>_. None), json_stringify = (\<lambda>_. []), sha256_hex = (\<lambda>_. replicate 64 (CHR ''c'')), locale_compare = (\<lambda>_ _. 0)\<rparr>"

definition sample_snapshot :: repositorySnapshotRef where
  "sample_snapshot = \<lparr>rsSnapshotId = replicate 64 (CHR ''a''), rsBaselineHead = Some (replicate 40 (CHR ''f''))\<rparr>"

definition sample_replay_binding :: replayBinding where
  "sample_replay_binding =
     \<lparr>rbBridgeProtocolVersion = 1, rbWorkflowVersion = 1, rbStateVersion = 2,
      rbCheckpoint = \<lparr>rcThreadId = ''thread-1'', rcCheckpointId = ''step-3'', rcLineage = [''step-1'', ''step-2'', ''step-3'']\<rparr>,
      rbWorkflowInput = JObj [(''objective'', JStr ''fix'')], rbRepositorySnapshot = sample_snapshot,
      rbToolModelConfigDigest = replicate 64 (CHR ''e''), rbEffectLedgerDigest = replicate 64 (CHR ''c'')\<rparr>"

definition sample_metadata :: checkpointReplayMetadata where
  "sample_metadata = \<lparr>cmSemanticLabels = [PostRepair], cmReplay = Some (sample_replay_binding, replicate 64 (CHR ''c''))\<rparr>"

definition sample_channels :: js where "sample_channels = JObj [(''phase'', JStr ''repaired'')]"

lemma sample_metadata_created:
  "createCheckpointReplayMetadata constant_builtins sample_stored (Some ''step-2'') ''step-3'' sample_channels ''thread-1''
     (Some sample_snapshot) (Some sample_safety) = Inr sample_metadata"
  by code_simp

theorem replay_metadata_reloads_witness:
  "parse_replayMetadata constant_builtins (JObj [(''piLangGraph'', metadata_object sample_metadata)]) = Inr (Some sample_metadata)"
  using replay_metadata_reloads[OF sample_metadata_created] by blast

text \<open>
  Claim C36 (fingerprint_pins_replay). Two checkpoints with the same replay fingerprint agree in everything a replay depends on:
  the protocol, workflow and state versions, the thread, the checkpoint and its lineage, the
  repository snapshot, the configuration and the effect ledger, and the workflow input up to the
  order of its members; provided that SHA-256 has no collisions.
\<close>

theorem fingerprint_pins_replay:
  assumes "\<And>x y. sha256_hex B x = sha256_hex B y \<Longrightarrow> x = y"
    and "parseReplayFingerprintBinding v = Inr b" and "parseReplayFingerprintBinding w = Inr c"
    and "replayFingerprint B v = Inr f" and "replayFingerprint B w = Inr f"
    and "numbers_ok (rbWorkflowInput b)" and "numbers_ok (rbWorkflowInput c)"
  shows "c = b\<lparr>rbWorkflowInput := rbWorkflowInput c\<rparr> \<and> canonical (rbWorkflowInput b) = canonical (rbWorkflowInput c)"
  by (rule fingerprint_pins[OF assms])

lemma sample_fingerprint: "\<exists>f. replayFingerprint (Bridge.sample_builtins JNull) (binding_object sample_replay_binding) = Inr f"
proof -
  have "case replayFingerprint (Bridge.sample_builtins JNull) (binding_object sample_replay_binding) of Inl _ \<Rightarrow> False | Inr _ \<Rightarrow> True"
    by code_simp
  then show ?thesis by (simp split: sum.splits)
qed

lemma sample_binding_parses: "parseReplayFingerprintBinding (binding_object sample_replay_binding) = Inr sample_replay_binding"
  by code_simp

theorem fingerprint_pins_replay_witness:
  "sample_replay_binding = sample_replay_binding\<lparr>rbWorkflowInput := rbWorkflowInput sample_replay_binding\<rparr>"
proof -
  obtain f where f: "replayFingerprint (Bridge.sample_builtins JNull) (binding_object sample_replay_binding) = Inr f"
    using sample_fingerprint by blast
  have "numbers_ok (rbWorkflowInput sample_replay_binding)" by (simp add: sample_replay_binding_def numbers_ok_eqs)
  from fingerprint_pins_replay[OF _ sample_binding_parses sample_binding_parses f f this this] show ?thesis
    by (simp add: Bridge.sample_builtins_def)
qed

text \<open>
  Claim C35 (preflight_accepts_only_safe). A backtrack passes its preflight only when it is safe: the checkpoint exists and is
  not of a completed run, its stored metadata carries a binding whose recomputed fingerprint is the
  link's and which names the link's thread, checkpoint and repository snapshot, the ledger of effects that is
  presented is the one the binding was digested with and all its effects can be undone, the
  snapshot to return to exists, and the source tree is still at the same git head.
\<close>

theorem preflight_accepts_only_safe:
  assumes "preflightBacktrack B getTuple ledger snapshotExists source request = Inr (PreflightAccepted i link target sourceId)"
  shows "i = brRequestId request \<and> link = brLink request \<and> target = rsSnapshotId (slRepositorySnapshot link) \<and>
    (\<exists>tuple m b s. getTuple (slThreadId link) (slCheckpointId link) = Some tuple \<and> ctCheckpointId tuple = slCheckpointId link \<and>
       ctStatus tuple \<noteq> JStr ''completed'' \<and>
       parse_replayMetadata B (ctMetadata tuple) = Inr (Some m) \<and> cmReplay m = Some (b, slReplayFingerprint link) \<and>
       replayFingerprint B (binding_object b) = Inr (slReplayFingerprint link) \<and>
       rcThreadId (rbCheckpoint b) = slThreadId link \<and> rcCheckpointId (rbCheckpoint b) = slCheckpointId link \<and>
       rbRepositorySnapshot b = slRepositorySnapshot link \<and>
       effectLedgerDigest B ledger = Inr (rbEffectLedgerDigest b) \<and> (\<forall>e \<in> set ledger. undoable e) \<and>
       snapshotExists target \<and> source = Inr s \<and> sourceId = rsSnapshotId s \<and>
       rsBaselineHead s = rsBaselineHead (rbRepositorySnapshot b))"
  by (rule preflight_accepted[OF assms])

definition sample_request :: backtrackRequest where
  "sample_request =
     \<lparr>brRequestId = ''request-1'', brSessionId = ''session'', brEntryId = ''entry-1'',
      brLink = \<lparr>slThreadId = ''thread-1'', slCheckpointId = ''step-3'', slLabel = PostRepair, slRepositorySnapshot = sample_snapshot,
        slManagedWorktree = None, slReplayFingerprint = replicate 64 (CHR ''c''), slEffectLedgerDigest = replicate 64 (CHR ''c'')\<rparr>\<rparr>"

definition sample_tuple :: "string \<Rightarrow> string \<Rightarrow> checkpointTuple option" where
  "sample_tuple t c = Some \<lparr>ctCheckpointId = ''step-3'', ctStatus = JStr ''running'',
     ctMetadata = JObj [(''repositorySnapshot'', JObj [(''protocolVersion'', JNum (NInt 1)), (''snapshotId'', JStr (replicate 64 (CHR ''a''))),
        (''head'', JStr (replicate 40 (CHR ''f'')))]), (''piLangGraph'', metadata_object sample_metadata)]\<rparr>"

lemma sample_preflight:
  "preflightBacktrack constant_builtins sample_tuple sample_ledger (\<lambda>_. True)
     (Inr \<lparr>rsSnapshotId = replicate 64 (CHR ''b''), rsBaselineHead = Some (replicate 40 (CHR ''f''))\<rparr>) sample_request =
   Inr (PreflightAccepted ''request-1'' (brLink sample_request) (replicate 64 (CHR ''a'')) (replicate 64 (CHR ''b'')))"
  by code_simp

theorem preflight_accepts_only_safe_witness: "list_all undoable sample_ledger"
  unfolding list_all_iff using preflight_accepts_only_safe[OF sample_preflight] by blast

end
