(* ===== verification/JsonText.thy ===== *)
theory JsonText
  imports Canonical
begin

text \<open>
  A reader of printed values. \<open>JSON.parse\<close> is an argument of the model; the theorems about files
  assume that it reads back what \<open>JSON.stringify\<close> printed. This theory gives a function that does
  so for every printable value, which shows that the assumption can be met and serves the
  examples. A value with no space in front is read, whatever follows it.
\<close>

section \<open>Reading\<close>

fun read_body :: "nat \<Rightarrow> string \<Rightarrow> (string \<times> string) option" where
  "read_body 0 t = None"
| "read_body (Suc n) t =
     (case t of
        [] \<Rightarrow> None
      | c # r \<Rightarrow>
          if c = CHR 0x22 then Some ([], r)
          else (case read_char t of (d, r') \<Rightarrow> map_option (\<lambda>(s, r''). (d # s, r'')) (read_body n r')))"

definition int_value :: "string \<Rightarrow> int" where
  "int_value t =
     (let digits = (\<lambda>s. int (foldl (\<lambda>a c. 10 * a + (code c - 48)) 0 s))
      in if t \<noteq> [] \<and> hd t = CHR ''-'' then - digits (tl t) else digits t)"

definition read_number :: "string \<Rightarrow> jnum" where
  "read_number t = (if int_text (int_value t) = t then NInt (int_value t) else NText t)"

fun read_value :: "nat \<Rightarrow> string \<Rightarrow> (js \<times> string) option"
  and read_items :: "nat \<Rightarrow> string \<Rightarrow> (js list \<times> string) option"
  and read_members :: "nat \<Rightarrow> string \<Rightarrow> ((string \<times> js) list \<times> string) option" where
  "read_value 0 t = None"
| "read_value (Suc n) t =
     (case t of
        [] \<Rightarrow> None
      | c # r \<Rightarrow>
          if c = CHR 0x22 then map_option (\<lambda>(s, r'). (JStr s, r')) (read_body (Suc (length r)) r)
          else if c = CHR ''['' then
            (if r \<noteq> [] \<and> hd r = CHR '']'' then Some (JArr [], tl r)
             else map_option (\<lambda>(vs, r'). (JArr vs, r')) (read_items n r))
          else if c = CHR ''{'' then
            (if r \<noteq> [] \<and> hd r = CHR ''}'' then Some (JObj [], tl r)
             else map_option (\<lambda>(ms, r'). (JObj ms, r')) (read_members n r))
          else if take 4 t = ''null'' then Some (JNull, drop 4 t)
          else if take 4 t = ''true'' then Some (JBool True, drop 4 t)
          else if take 5 t = ''false'' then Some (JBool False, drop 5 t)
          else let d = takeWhile is_number_char t in if d = [] then None else Some (JNum (read_number d), drop (length d) t))"
| "read_items 0 t = None"
| "read_items (Suc n) t =
     (case read_value n t of
        None \<Rightarrow> None
      | Some (v, r) \<Rightarrow>
          (case r of
             [] \<Rightarrow> None
           | c # r' \<Rightarrow>
               if c = CHR '']'' then Some ([v], r')
               else if c = CHR '','' then map_option (\<lambda>(vs, r''). (v # vs, r'')) (read_items n r')
               else None))"
| "read_members 0 t = None"
| "read_members (Suc n) t =
     (case t of
        [] \<Rightarrow> None
      | q # b \<Rightarrow>
         if q \<noteq> CHR 0x22 then None
         else (case read_body (Suc (length b)) b of
            Some (k, e # u) \<Rightarrow>
              if e \<noteq> CHR '':'' then None
              else (case read_value n u of
                None \<Rightarrow> None
              | Some (v, r) \<Rightarrow>
                  (case r of
                     [] \<Rightarrow> None
                   | c # r' \<Rightarrow>
                       if c = CHR ''}'' then Some ([(k, v)], r')
                       else if c = CHR '','' then map_option (\<lambda>(ms, r''). ((k, v) # ms, r'')) (read_members n r')
                       else None))
          | _ \<Rightarrow> None))"

definition json_read :: "string \<Rightarrow> js option" where
  "json_read t =
     (case read_value (Suc (length t)) t of
        Some (v, r) \<Rightarrow> if list_all is_space_char r then Some v else None
      | None \<Rightarrow> None)"

section \<open>Reading inverts printing\<close>

text \<open>What prints to a text that can be read: no \<open>undefined\<close>, and numbers as \<open>Number::toString\<close> gives them.\<close>

function printable :: "js \<Rightarrow> bool" where
  "printable v \<longleftrightarrow>
     (case v of
        JUndef \<Rightarrow> False
      | JNum n \<Rightarrow> finite_number n \<and> number_ok n
      | JArr xs \<Rightarrow> \<forall>x \<in> set xs. printable x
      | JObj kvs \<Rightarrow> \<forall>m \<in> set kvs. printable (snd m)
      | _ \<Rightarrow> True)"
  by pat_completeness auto
termination
  by (relation "measure size") (auto simp: less_Suc_eq_le intro: member_size element_size)

declare printable.simps [simp del]

lemmas printable_eqs [simp] = printable.simps[of JUndef, simplified] printable.simps[of JNull, simplified]
  printable.simps[of "JBool b" for b, simplified] printable.simps[of "JNum n" for n, simplified]
  printable.simps[of "JStr s" for s, simplified] printable.simps[of "JArr xs" for xs, simplified]
  printable.simps[of "JObj kvs" for kvs, simplified]

lemma json_char_length: "1 \<le> length (json_char c)"
  by (auto simp: json_char_def)

lemma read_body_json:
  "length s < n \<Longrightarrow> read_body n (concat (map json_char s) @ CHR 0x22 # r) = Some (s, r)"
proof (induction s arbitrary: n)
  case Nil
  then show ?case by (cases n) simp_all
next
  case (Cons c s)
  then obtain m where n: "n = Suc m" "length s < m" by (cases n) auto
  let ?t = "concat (map json_char s) @ CHR 0x22 # r"
  obtain d u where u: "json_char c @ ?t = d # u" "d \<noteq> CHR 0x22"
    using json_char_quote[of c ?t] json_char_length[of c] by (cases "json_char c @ ?t") (auto simp: neq_Nil_conv)
  have "read_char (d # u) = (c, ?t)" unfolding u(1)[symmetric] by (rule read_json_char)
  with u Cons.IH[OF n(2)] show ?case by (simp add: n(1))
qed

lemma read_body_string: "read_body (Suc (length (concat (map json_char s) @ CHR 0x22 # r))) (concat (map json_char s) @ CHR 0x22 # r) = Some (s, r)"
proof (rule read_body_json)
  have "length s \<le> length (concat (map json_char s))"
  proof (induction s)
    case (Cons c s)
    then show ?case using json_char_length[of c] by simp
  qed simp
  then show "length s < Suc (length (concat (map json_char s) @ CHR 0x22 # r))" by simp
qed

lemma int_value_text: "int_value (int_text i) = i"
proof (cases "i < 0")
  case True
  then show ?thesis by (simp add: int_value_def int_text_def nat_text_value)
next
  case False
  have "hd (nat_text (nat i)) \<noteq> CHR ''-''"
  proof
    assume "hd (nat_text (nat i)) = CHR ''-''"
    then have "CHR ''-'' \<in> set (nat_text (nat i))" using nat_text_nonempty hd_in_set by metis
    then have "is_digit_char (CHR ''-'')" by (rule nat_text_digits)
    then show False by (simp add: is_digit_char_def code_def)
  qed
  with False show ?thesis by (simp add: int_value_def int_text_def nat_text_value)
qed

lemma read_number_text: "finite_number n \<Longrightarrow> number_ok n \<Longrightarrow> read_number (json_number n) = n"
  by (auto simp: read_number_def json_number_def int_value_text number_ok_def finite_number_def split: jnum.splits) metis+

definition ends_number :: "string \<Rightarrow> bool" where
  "ends_number s \<longleftrightarrow> s = [] \<or> \<not> is_number_char (hd s)"

lemma ends_number_delimiters [simp]:
  "ends_number (CHR '','' # s)" "ends_number (CHR '']'' # s)" "ends_number (CHR ''}'' # s)" "ends_number []" "ends_number (CHR 0x0A # s)"
  by (simp_all add: ends_number_def is_number_char_def is_digit_char_def code_def)

lemma printable_start:
  assumes "printable v"
  shows "plain_text v \<noteq> [] \<and> first_kind (hd (plain_text v)) = js_kind v \<and> \<not> delimited (plain_text v)"
proof (cases v)
  case (JNum n)
  with assms have n: "finite_number n" "number_ok n" by simp_all
  from json_number_facts(1,2)[OF n] digit_kind JNum show ?thesis
    by (auto simp: plain_text_eqs js_kind_def delimited_def)
qed (use assms in \<open>auto simp: plain_text_eqs js_kind_def delimited_def first_kind_def json_string_def\<close>)

declare read_body.simps [simp del]

lemma read_value_string: "0 < n \<Longrightarrow> read_value n (json_string k @ s) = Some (JStr k, s)"
  using read_body_string[of k s] by (cases n) (simp_all add: json_string_def del: length_append length_Cons length_concat)

lemma read_value_words:
  "0 < n \<Longrightarrow> read_value n (''null'' @ s) = Some (JNull, s)"
  "0 < n \<Longrightarrow> read_value n (''true'' @ s) = Some (JBool True, s)"
  "0 < n \<Longrightarrow> read_value n (''false'' @ s) = Some (JBool False, s)"
  by (cases n; simp)+

lemma read_value_number:
  assumes "0 < n" and "finite_number x" and "number_ok x" and "ends_number s"
  shows "read_value n (json_number x @ s) = Some (JNum x, s)"
proof -
  let ?t = "json_number x"
  have t: "?t \<noteq> []" "hd ?t = CHR ''-'' \<or> is_digit_char (hd ?t)" "\<forall>c \<in> set ?t. is_number_char c"
    using json_number_facts[OF assms(2,3)] by blast+
  then obtain c r where cr: "?t = c # r" by (cases ?t) auto
  have kind: "first_kind c = 6" using t(2) digit_kind cr by auto
  have whole: "takeWhile is_number_char (c # r @ s) = ?t"
    using t(3) assms(4) unfolding cr by (cases s) (simp_all add: ends_number_def takeWhile_tail)
  have c: "c \<noteq> CHR 0x22" "c \<noteq> CHR ''[''" "c \<noteq> CHR ''{''" "c \<noteq> CHR ''n''" "c \<noteq> CHR ''t''" "c \<noteq> CHR ''f''"
    using kind by (auto simp: first_kind_def split: if_splits)
  obtain m where m: "n = Suc m" using assms(1) by (cases n) auto
  have w: "take 4 (c # u) \<noteq> ''null''" "take 4 (c # u) \<noteq> ''true''" "take 5 (c # u) \<noteq> ''false''" for u
    using c by simp_all
  have "read_value n (c # r @ s) =
      (let d = takeWhile is_number_char (c # r @ s) in if d = [] then None else Some (JNum (read_number d), drop (length d) (c # r @ s)))"
    unfolding m read_value.simps list.case by (simp only: c w if_False)
  also have "\<dots> = Some (JNum x, s)"
    unfolding whole Let_def using t(1) by (simp add: read_number_text assms(2,3)) (simp add: cr)
  finally show ?thesis by (simp add: cr)
qed
lemma read_items_printed:
  assumes "\<And>x n s. x \<in> set xs \<Longrightarrow> length (plain_text x) < n \<Longrightarrow> ends_number s \<Longrightarrow> read_value n (plain_text x @ s) = Some (x, s)"
    and "xs \<noteq> []" and "Suc (length (join '','' (map plain_text xs))) < n"
  shows "read_items n (join '','' (map plain_text xs) @ CHR '']'' # s) = Some (xs, s)"
  using assms
proof (induction xs arbitrary: n)
  case (Cons x xs)
  obtain m where m: "n = Suc m" "length (join '','' (map plain_text (x # xs))) < m" using Cons.prems(3) by (cases n) auto
  show ?case
  proof (cases xs)
    case Nil
    have "read_value m (plain_text x @ CHR '']'' # s) = Some (x, CHR '']'' # s)"
      by (rule Cons.prems(1)) (use m Nil in simp_all)
    then show ?thesis by (simp add: m(1) Nil)
  next
    case (Cons y ys)
    let ?r = "join '','' (map plain_text xs)"
    have printed: "join '','' (map plain_text (x # xs)) = plain_text x @ CHR '','' # ?r" using Cons by simp
    have "read_value m (plain_text x @ CHR '','' # ?r @ CHR '']'' # s) = Some (x, CHR '','' # ?r @ CHR '']'' # s)"
      by (rule Cons.prems(1)) (use m(2) printed in simp_all)
    moreover have "read_items m (?r @ CHR '']'' # s) = Some (xs, s)"
      by (rule Cons.IH) (use Cons.prems(1) m(2) printed Cons in simp_all)
    ultimately show ?thesis unfolding printed by (simp add: m(1))
  qed
qed simp

definition member_text :: "string \<times> js \<Rightarrow> string" where
  "member_text m = json_string (fst m) @ '':'' @ plain_text (snd m)"

lemma read_members_printed:
  assumes "\<And>x n s. x \<in> set ms \<Longrightarrow> length (plain_text (snd x)) < n \<Longrightarrow> ends_number s \<Longrightarrow> read_value n (plain_text (snd x) @ s) = Some (snd x, s)"
    and "ms \<noteq> []" and "Suc (length (join '','' (map member_text ms))) < n"
  shows "read_members n (join '','' (map member_text ms) @ CHR ''}'' # s) = Some (ms, s)"
  using assms
proof (induction ms arbitrary: n)
  case (Cons x ms)
  obtain m where m: "n = Suc m" "length (join '','' (map member_text (x # ms))) < m" using Cons.prems(3) by (cases n) auto
  have key: "read_body (Suc (length (concat (map json_char k) @ CHR 0x22 # u))) (concat (map json_char k) @ CHR 0x22 # u) = Some (k, u)" for k u
    by (rule read_body_string)
  show ?case
  proof (cases ms)
    case Nil
    have "read_value m (plain_text (snd x) @ CHR ''}'' # s) = Some (snd x, CHR ''}'' # s)"
      by (rule Cons.prems(1)) (use m Nil in \<open>simp_all add: member_text_def\<close>)
    then show ?thesis
      using key[of "fst x" "CHR '':'' # plain_text (snd x) @ CHR ''}'' # s"]
      by (simp add: m(1) Nil member_text_def json_string_def del: length_append length_Cons length_concat)
  next
    case (Cons y ys)
    let ?r = "join '','' (map member_text ms)"
    have printed: "join '','' (map member_text (x # ms)) = member_text x @ CHR '','' # ?r" using Cons by simp
    have "read_value m (plain_text (snd x) @ CHR '','' # ?r @ CHR ''}'' # s) = Some (snd x, CHR '','' # ?r @ CHR ''}'' # s)"
      by (rule Cons.prems(1)) (use m(2) printed in \<open>simp_all add: member_text_def\<close>)
    moreover have "read_members m (?r @ CHR ''}'' # s) = Some (ms, s)"
      by (rule Cons.IH) (use Cons.prems(1) m(2) printed Cons in simp_all)
    ultimately show ?thesis unfolding printed
      using key[of "fst x" "CHR '':'' # plain_text (snd x) @ CHR '','' # ?r @ CHR ''}'' # s"]
      by (simp add: m(1) member_text_def json_string_def del: length_append length_Cons length_concat)
  qed
qed simp

lemma items_start:
  assumes "\<forall>x \<in> set xs. f x \<noteq> [] \<and> \<not> delimited (f x)" and "xs \<noteq> []"
  shows "\<not> delimited (join '','' (map f xs) @ s)" and "join '','' (map f xs) \<noteq> []"
proof -
  obtain x ys where xs: "xs = x # ys" using assms(2) by (cases xs) auto
  have x: "f x \<noteq> []" "\<not> delimited (f x)" using assms(1) xs by auto
  obtain u where "join '','' (map f xs) = f x @ u" by (cases ys) (auto simp: xs)
  with x show "\<not> delimited (join '','' (map f xs) @ s)" "join '','' (map f xs) \<noteq> []" by (auto simp: delimited_def)
qed

lemma read_printed:
  "length (plain_text v) < n \<Longrightarrow> ends_number s \<Longrightarrow> printable v \<Longrightarrow> read_value n (plain_text v @ s) = Some (v, s)"
proof (induction v arbitrary: n s rule: plain_text.induct)
  case (1 v)
  have n: "0 < n" using 1(3) by simp
  show ?case
  proof (cases v)
    case (JArr xs)
    have IH: "read_value k (plain_text x @ u) = Some (x, u)" if "x \<in> set xs" "length (plain_text x) < k" "ends_number u" for x k u
      using 1(1)[OF JArr that] 1(5) JArr that(1) by simp
    obtain m where m: "n = Suc m" using n by (cases n) auto
    show ?thesis
    proof (cases "xs = []")
      case True
      then show ?thesis by (simp add: JArr plain_text_eqs m)
    next
      case False
      have "\<forall>x \<in> set xs. plain_text x \<noteq> [] \<and> \<not> delimited (plain_text x)"
        using 1(5) JArr printable_start by simp
      from items_start(1)[OF this False] have start: "\<not> delimited (join '','' (map plain_text xs) @ CHR '']'' # s)" .
      have "read_items m (join '','' (map plain_text xs) @ CHR '']'' # s) = Some (xs, s)"
        by (rule read_items_printed[OF IH False]) (use 1(3) m in \<open>simp_all add: JArr plain_text_eqs\<close>)
      with start show ?thesis by (simp add: JArr plain_text_eqs m delimited_def)
    qed
  next
    case (JObj ms)
    have IH: "read_value k (plain_text (snd x) @ u) = Some (snd x, u)" if "x \<in> set ms" "length (plain_text (snd x)) < k" "ends_number u" for x k u
      using 1(2)[OF JObj that] 1(5) JObj that(1) by simp
    obtain m where m: "n = Suc m" using n by (cases n) auto
    have printed: "plain_text (JObj ms) = CHR ''{'' # join '','' (map member_text ms) @ ''}''"
      by (simp add: plain_text_eqs member_text_def[abs_def])
    show ?thesis
    proof (cases "ms = []")
      case True
      then show ?thesis by (simp add: JObj plain_text_eqs m)
    next
      case False
      have "\<forall>x \<in> set ms. member_text x \<noteq> [] \<and> \<not> delimited (member_text x)"
        by (simp add: member_text_def json_string_def delimited_def)
      from items_start(1)[OF this False] have start: "\<not> delimited (join '','' (map member_text ms) @ CHR ''}'' # s)" .
      have "read_members m (join '','' (map member_text ms) @ CHR ''}'' # s) = Some (ms, s)"
        by (rule read_members_printed[OF IH False]) (use 1(3) m in \<open>simp_all add: JObj printed\<close>)
      with start show ?thesis by (simp add: printed m delimited_def JObj)
    qed
  next
    case (JNum x)
    then show ?thesis using 1(4,5) read_value_number[OF n] by (simp add: plain_text_eqs)
  next
    case (JStr x)
    then show ?thesis using read_value_string[OF n] by (simp add: plain_text_eqs)
  next
    case (JBool b)
    then show ?thesis using read_value_words(2,3)[OF n] by (cases b) (simp_all add: plain_text_eqs)
  next
    case JNull
    then show ?thesis using read_value_words(1)[OF n] by (simp add: plain_text_eqs)
  qed (use 1(5) in simp)
qed

lemma json_read_printed: "printable v \<Longrightarrow> json_read (plain_text v) = Some v"
  using read_printed[of v "Suc (length (plain_text v))" "[]"] by (simp add: json_read_def)

lemma json_read_line: "printable v \<Longrightarrow> json_read (plain_text v @ [CHR 0x0A]) = Some v"
  using read_printed[of v "Suc (length (plain_text v @ [CHR 0x0A]))" "[CHR 0x0A]"]
  by (simp add: json_read_def is_space_char_def code_def)

text \<open>Built-in functions for examples: this reader, the printer, and arguments that are not looked at.\<close>

definition reading_builtins :: builtins where
  "reading_builtins = \<lparr>json_parse = json_read, json_stringify = plain_text, sha256_hex = \<lambda>s. s, locale_compare = \<lambda>_ _. 0\<rparr>"

lemma reading_builtins_simps [simp]:
  "json_parse reading_builtins = json_read" "json_stringify reading_builtins = plain_text" "sha256_hex reading_builtins s = s"
  by (simp_all add: reading_builtins_def)

end
