(* ===== verification/FileLock.thy ===== *)
theory FileLock
  imports JsonText
begin

text \<open>
  Lock files: \<open>src/src/persistence/file-lock.ts\<close>. Any number of processes, on one or more hosts that
  share a directory, run \<open>withCheckpointFileLock\<close> for the same thread identifier; each call is an
  agent, and \<open>withFileLock\<close> starts a new one when its call has timed out. A step is one call of the file
  system or of the kernel, and steps of different agents interleave freely; every call may fail, and a
  process may be killed between any two steps. The path of the lock and the recovery claims are names
  of inodes, as \<open>link\<close> and \<open>rename\<close> see them; claims are named by the digest of a nonce. Two things are assumed
  of the surroundings: nonces are not used twice, and neither are the pairs of a process identifier and a
  start time on a host. A file that is being written may read as nothing or as its owner.
\<close>

section \<open>Owners\<close>

record lockOwner =
  loThreadId :: string
  loPid :: int
  loStartedAt :: int
  loNonce :: string
  loHostname :: string
  loIdentity :: "string option"

definition is_identity :: "string \<Rightarrow> bool" where
  "is_identity s \<longleftrightarrow> s \<noteq> [] \<and> list_all is_digit_char s"

definition owner_ok :: "lockOwner \<Rightarrow> bool" where
  "owner_ok o1 \<longleftrightarrow> 0 < loPid o1 \<and> loPid o1 \<le> max_safe_integer \<and> 0 \<le> loStartedAt o1 \<and> loStartedAt o1 \<le> max_safe_integer \<and>
     loNonce o1 \<noteq> [] \<and> length (loNonce o1) \<le> 128 \<and> loHostname o1 \<noteq> [] \<and>
     (case loIdentity o1 of None \<Rightarrow> True | Some s \<Rightarrow> is_identity s)"

definition owner_object :: "lockOwner \<Rightarrow> js" where
  "owner_object o1 = JObj
     ([(''version'', JNum (NInt 1)), (''threadId'', JStr (loThreadId o1)), (''pid'', JNum (NInt (loPid o1))),
       (''startedAt'', JNum (NInt (loStartedAt o1))), (''nonce'', JStr (loNonce o1)), (''hostname'', JStr (loHostname o1))] @
      (case loIdentity o1 of None \<Rightarrow> [] | Some s \<Rightarrow> [(''processStartIdentity'', JStr s)]))"

definition owner_text :: "lockOwner \<Rightarrow> string" where
  "owner_text o1 = plain_text (owner_object o1) @ [CHR 0x0A]"

definition parse_identity :: "js \<Rightarrow> string option option" where
  "parse_identity v =
     (case v of JUndef \<Rightarrow> Some None | JStr s \<Rightarrow> if is_identity s then Some (Some s) else None | _ \<Rightarrow> None)"

definition parse_owner :: "js \<Rightarrow> lockOwner option" where
  "parse_owner v =
     (if \<not> is_record v \<or> jget v ''version'' \<noteq> JNum (NInt 1) then None
      else case (jget v ''threadId'', jget v ''pid'', jget v ''startedAt'', jget v ''nonce'', jget v ''hostname'') of
        (JStr thread, JNum (NInt pid), JNum (NInt started), JStr nonce, JStr host) \<Rightarrow>
          (case parse_identity (jget v ''processStartIdentity'') of
             None \<Rightarrow> None
           | Some identity \<Rightarrow>
               let o1 = \<lparr>loThreadId = thread, loPid = pid, loStartedAt = started, loNonce = nonce, loHostname = host, loIdentity = identity\<rparr>
               in if owner_ok o1 then Some o1 else None)
      | _ \<Rightarrow> None)"

definition parseOwner :: "builtins \<Rightarrow> string \<Rightarrow> lockOwner option" where
  "parseOwner B t = (case json_parse B t of None \<Rightarrow> None | Some v \<Rightarrow> parse_owner v)"

lemma parse_owner_object: "owner_ok o1 \<Longrightarrow> parse_owner (owner_object o1) = Some o1"
  by (cases "loIdentity o1")
    (simp_all add: parse_owner_def owner_object_def jget_def is_record_def parse_identity_def owner_ok_def Let_def)

definition reads_owners :: "builtins \<Rightarrow> bool" where
  "reads_owners B \<longleftrightarrow> json_parse B [] = None \<and> (\<forall>o1. owner_ok o1 \<longrightarrow> json_parse B (owner_text o1) = Some (owner_object o1))"

lemma parseOwner_text: "reads_owners B \<Longrightarrow> owner_ok o1 \<Longrightarrow> parseOwner B (owner_text o1) = Some o1"
  by (simp add: reads_owners_def parseOwner_def parse_owner_object)

lemma parseOwner_empty: "reads_owners B \<Longrightarrow> parseOwner B [] = None"
  by (simp add: reads_owners_def parseOwner_def)

lemma owner_object_printable: "printable (owner_object o1)"
  by (auto simp: owner_object_def number_ok_def finite_number_def split: option.split)

lemma reads_owners_reading: "reads_owners reading_builtins"
proof -
  have "json_read [] = None" by (simp add: json_read_def)
  then show ?thesis by (simp add: reads_owners_def owner_text_def json_read_line owner_object_printable)
qed

section \<open>Files, processes and agents\<close>

text \<open>The inode of the lock and of each claim, and of every inode its text and the agent that made it.\<close>

record lockFiles =
  lfPath :: "nat option"
  lfClaims :: "string \<Rightarrow> nat option"
  lfText :: "nat \<Rightarrow> string"
  lfMaker :: "nat \<Rightarrow> nat"
  lfNext :: nat

datatype lockPc =
    Trying | Opened nat | Failing | Examining | Judging lockOwner | Pinging lockOwner | Linking lockOwner
  | Claimed lockOwner | Renaming lockOwner | Quarantined lockOwner | Unclaiming lockOwner bool | Waiting
  | Inside | Releasing | Unlinking | Finished

record lockAgent =
  agHost :: string
  agPid :: int
  agStart :: string
  agOwner :: lockOwner
  agPc :: lockPc

record lockState =
  lsFiles :: lockFiles
  lsProcs :: "string \<Rightarrow> int \<Rightarrow> string option"
  lsUsed :: "(string \<times> int \<times> string) set"
  lsAgents :: "nat \<Rightarrow> lockAgent option"

definition claim_name :: "builtins \<Rightarrow> lockOwner \<Rightarrow> string" where
  "claim_name B o1 = sha256_hex B (loNonce o1)"

definition same_nonce :: "lockOwner option \<Rightarrow> lockOwner \<Rightarrow> bool" where
  "same_nonce r o1 = (case r of None \<Rightarrow> False | Some x \<Rightarrow> loNonce x = loNonce o1)"

text \<open>The owner that \<open>removeDeadSameHostOwner\<close> goes on with, if any.\<close>

definition judged_owner :: "builtins \<Rightarrow> string \<Rightarrow> lockAgent \<Rightarrow> lockOwner option" where
  "judged_owner B t g =
     (case parseOwner B t of
        None \<Rightarrow> None
      | Some o1 \<Rightarrow> if loThreadId o1 \<noteq> loThreadId (agOwner g) \<or> loHostname o1 \<noteq> agHost g then None else Some o1)"

section \<open>Steps\<close>

text \<open>
  \<open>local_step B procs a g files files' pc\<close>: agent \<open>a\<close>, in state \<open>g\<close>, makes its next call, which turns \<open>files\<close> into
  \<open>files'\<close>, and goes on at \<open>pc\<close>.
\<close>

inductive local_step ::
    "builtins \<Rightarrow> (string \<Rightarrow> int \<Rightarrow> string option) \<Rightarrow> nat \<Rightarrow> lockAgent \<Rightarrow> lockFiles \<Rightarrow> lockFiles \<Rightarrow> lockPc \<Rightarrow> bool"
  for B :: builtins and procs :: "string \<Rightarrow> int \<Rightarrow> string option" and a :: nat and g :: lockAgent and f :: lockFiles where
  Create: "agPc g = Trying \<Longrightarrow> lfPath f = None \<Longrightarrow>
    local_step B procs a g f (f\<lparr>lfPath := Some (lfNext f), lfText := (lfText f)(lfNext f := []),
      lfMaker := (lfMaker f)(lfNext f := a), lfNext := Suc (lfNext f)\<rparr>) (Opened (lfNext f))"
| Exists: "agPc g = Trying \<Longrightarrow> lfPath f = Some i \<Longrightarrow> local_step B procs a g f f Examining"
| OpenFails: "agPc g = Trying \<Longrightarrow> local_step B procs a g f f Finished"
| WritePart: "agPc g = Opened i \<Longrightarrow> parseOwner B t = None \<or> parseOwner B t = Some (agOwner g) \<Longrightarrow>
    local_step B procs a g f (f\<lparr>lfText := (lfText f)(i := t)\<rparr>) (Opened i)"
| WriteDone: "agPc g = Opened i \<Longrightarrow>
    local_step B procs a g f (f\<lparr>lfText := (lfText f)(i := owner_text (agOwner g))\<rparr>) Inside"
| WriteFails: "agPc g = Opened i \<Longrightarrow> local_step B procs a g f f Failing"
| CleanUp: "agPc g = Failing \<Longrightarrow> local_step B procs a g f (f\<lparr>lfPath := None\<rparr>) Finished"
| CleanUpFails: "agPc g = Failing \<Longrightarrow> local_step B procs a g f f Finished"
| Gone: "agPc g = Examining \<Longrightarrow> lfPath f = None \<Longrightarrow> local_step B procs a g f f Trying"
| NotMine: "agPc g = Examining \<Longrightarrow> lfPath f = Some i \<Longrightarrow> judged_owner B (lfText f i) g = None \<Longrightarrow> local_step B procs a g f f Waiting"
| Examine: "agPc g = Examining \<Longrightarrow> lfPath f = Some i \<Longrightarrow> judged_owner B (lfText f i) g = Some o1 \<Longrightarrow>
    local_step B procs a g f f (Judging o1)"
| ExamineFails: "agPc g = Examining \<Longrightarrow> local_step B procs a g f f Finished"
| StartDiffers: "agPc g = Judging o1 \<Longrightarrow> loIdentity o1 = Some i \<Longrightarrow> procs (agHost g) (loPid o1) = Some j \<Longrightarrow> i \<noteq> j \<Longrightarrow>
    local_step B procs a g f f (Linking o1)"
| StartSame: "agPc g = Judging o1 \<Longrightarrow> loIdentity o1 = Some i \<Longrightarrow> procs (agHost g) (loPid o1) = Some i \<Longrightarrow>
    local_step B procs a g f f Waiting"
| StartUnknown: "agPc g = Judging o1 \<Longrightarrow> local_step B procs a g f f (Pinging o1)"
| JudgeFails: "agPc g = Judging o1 \<or> agPc g = Pinging o1 \<Longrightarrow> local_step B procs a g f f Finished"
| PingDead: "agPc g = Pinging o1 \<Longrightarrow> procs (agHost g) (loPid o1) = None \<Longrightarrow> local_step B procs a g f f (Linking o1)"
| PingAlive: "agPc g = Pinging o1 \<Longrightarrow> procs (agHost g) (loPid o1) = Some i \<Longrightarrow> local_step B procs a g f f Waiting"
| LinkLost: "agPc g = Linking o1 \<Longrightarrow> lfPath f = None \<or> lfClaims f (claim_name B o1) = Some i \<Longrightarrow> local_step B procs a g f f Trying"
| Link: "agPc g = Linking o1 \<Longrightarrow> lfPath f = Some i \<Longrightarrow> lfClaims f (claim_name B o1) = None \<Longrightarrow>
    local_step B procs a g f (f\<lparr>lfClaims := (lfClaims f)(claim_name B o1 := Some i)\<rparr>) (Claimed o1)"
| LinkFails: "agPc g = Linking o1 \<Longrightarrow> local_step B procs a g f f Finished"
| Verify: "agPc g = Claimed o1 \<Longrightarrow> lfClaims f (claim_name B o1) = Some i \<Longrightarrow> same_nonce (parseOwner B (lfText f i)) o1 \<Longrightarrow>
    local_step B procs a g f f (Renaming o1)"
| VerifyOther: "agPc g = Claimed o1 \<Longrightarrow> lfClaims f (claim_name B o1) = Some i \<Longrightarrow> \<not> same_nonce (parseOwner B (lfText f i)) o1 \<Longrightarrow>
    local_step B procs a g f f (Unclaiming o1 True)"
| VerifyFails: "agPc g = Claimed o1 \<Longrightarrow> local_step B procs a g f f (Unclaiming o1 False)"
| Rename: "agPc g = Renaming o1 \<Longrightarrow> lfPath f = Some i \<Longrightarrow> local_step B procs a g f (f\<lparr>lfPath := None\<rparr>) (Quarantined o1)"
| RenameLost: "agPc g = Renaming o1 \<Longrightarrow> lfPath f = None \<Longrightarrow> local_step B procs a g f f (Unclaiming o1 True)"
| RenameFails: "agPc g = Renaming o1 \<Longrightarrow> local_step B procs a g f f (Unclaiming o1 False)"
| Discard: "agPc g = Quarantined o1 \<Longrightarrow> local_step B procs a g f f (Unclaiming o1 ok)"
| Unclaim: "agPc g = Unclaiming o1 ok \<Longrightarrow>
    local_step B procs a g f (f\<lparr>lfClaims := (lfClaims f)(claim_name B o1 := None)\<rparr>) (if ok then Trying else Finished)"
| UnclaimFails: "agPc g = Unclaiming o1 ok \<Longrightarrow> local_step B procs a g f f Finished"
| Retry: "agPc g = Waiting \<Longrightarrow> local_step B procs a g f f Trying"
| Timeout: "agPc g = Waiting \<Longrightarrow> local_step B procs a g f f Finished"
| Leave: "agPc g = Inside \<Longrightarrow> local_step B procs a g f f Releasing"
| ReleaseOwn: "agPc g = Releasing \<Longrightarrow> lfPath f = Some i \<Longrightarrow> same_nonce (parseOwner B (lfText f i)) (agOwner g) \<Longrightarrow>
    local_step B procs a g f f Unlinking"
| ReleaseOther: "agPc g = Releasing \<Longrightarrow> lfPath f = None \<or> (lfPath f = Some i \<and> \<not> same_nonce (parseOwner B (lfText f i)) (agOwner g)) \<Longrightarrow>
    local_step B procs a g f f Finished"
| ReleaseFails: "agPc g = Releasing \<Longrightarrow> local_step B procs a g f f Finished"
| Unlink: "agPc g = Unlinking \<Longrightarrow> local_step B procs a g f (f\<lparr>lfPath := None\<rparr>) Finished"
| UnlinkFails: "agPc g = Unlinking \<Longrightarrow> local_step B procs a g f f Finished"

definition lives :: "lockState \<Rightarrow> lockAgent \<Rightarrow> bool" where
  "lives s g \<longleftrightarrow> lsProcs s (agHost g) (agPid g) = Some (agStart g)"

text \<open>The owner that an agent writes describes its own process; its start time may not be known.\<close>

definition truthful :: "lockAgent \<Rightarrow> bool" where
  "truthful g \<longleftrightarrow> owner_ok (agOwner g) \<and> loHostname (agOwner g) = agHost g \<and> loPid (agOwner g) = agPid g \<and>
     (loIdentity (agOwner g) = None \<or> loIdentity (agOwner g) = Some (agStart g))"

inductive lock_step :: "builtins \<Rightarrow> lockState \<Rightarrow> lockState \<Rightarrow> bool" for B :: builtins and s :: lockState where
  Act: "lsAgents s a = Some g \<Longrightarrow> lives s g \<Longrightarrow> local_step B (lsProcs s) a g (lsFiles s) f pc \<Longrightarrow>
    lock_step B s (s\<lparr>lsFiles := f, lsAgents := (lsAgents s)(a \<mapsto> g\<lparr>agPc := pc\<rparr>)\<rparr>)"
| Begin: "lsAgents s a = None \<Longrightarrow> lives s g \<Longrightarrow> truthful g \<Longrightarrow> agPc g = Trying \<Longrightarrow>
    (\<And>b h. lsAgents s b = Some h \<Longrightarrow> loNonce (agOwner h) \<noteq> loNonce (agOwner g)) \<Longrightarrow>
    lock_step B s (s\<lparr>lsAgents := (lsAgents s)(a \<mapsto> g)\<rparr>)"
| Spawn: "lsProcs s host pid = None \<Longrightarrow> (host, pid, start) \<notin> lsUsed s \<Longrightarrow>
    lock_step B s (s\<lparr>lsProcs := (lsProcs s)(host := (lsProcs s host)(pid \<mapsto> start)), lsUsed := insert (host, pid, start) (lsUsed s)\<rparr>)"
| Die: "lock_step B s (s\<lparr>lsProcs := (lsProcs s)(host := (lsProcs s host)(pid := None))\<rparr>)"

definition lock_start :: lockState where
  "lock_start = \<lparr>lsFiles = \<lparr>lfPath = None, lfClaims = \<lambda>_. None, lfText = \<lambda>_. [], lfMaker = \<lambda>_. 0, lfNext = 0\<rparr>,
     lsProcs = \<lambda>_ _. None, lsUsed = {}, lsAgents = \<lambda>_. None\<rparr>"

definition lock_reachable :: "builtins \<Rightarrow> lockState \<Rightarrow> bool" where
  "lock_reachable B s \<longleftrightarrow> (lock_step B)\<^sup>*\<^sup>* lock_start s"

text \<open>An agent whose process lives and which runs the operation under the lock.\<close>

definition in_operation :: "lockState \<Rightarrow> nat \<Rightarrow> bool" where
  "in_operation s a \<longleftrightarrow> (case lsAgents s a of None \<Rightarrow> False | Some g \<Rightarrow> lives s g \<and> agPc g = Inside)"
section \<open>The invariant\<close>

fun pc_owner :: "lockPc \<Rightarrow> lockOwner option" where
  "pc_owner (Judging o1) = Some o1" | "pc_owner (Pinging o1) = Some o1" | "pc_owner (Linking o1) = Some o1"
| "pc_owner (Claimed o1) = Some o1" | "pc_owner (Renaming o1) = Some o1" | "pc_owner (Quarantined o1) = Some o1"
| "pc_owner (Unclaiming o1 ok) = Some o1" | "pc_owner _ = None"

fun condemning :: "lockPc \<Rightarrow> lockOwner option" where
  "condemning (Linking o1) = Some o1" | "condemning (Claimed o1) = Some o1" | "condemning (Renaming o1) = Some o1"
| "condemning (Quarantined o1) = Some o1" | "condemning (Unclaiming o1 ok) = Some o1" | "condemning _ = None"

fun claiming :: "lockPc \<Rightarrow> lockOwner option" where
  "claiming (Claimed o1) = Some o1" | "claiming (Renaming o1) = Some o1"
| "claiming (Quarantined o1) = Some o1" | "claiming (Unclaiming o1 ok) = Some o1" | "claiming _ = None"

fun holding_lock :: "lockPc \<Rightarrow> bool" where
  "holding_lock (Opened i) = True" | "holding_lock Failing = True" | "holding_lock Inside = True"
| "holding_lock Releasing = True" | "holding_lock Unlinking = True" | "holding_lock _ = False"

text \<open>The owner of the agent that made an inode.\<close>

definition made_by :: "lockState \<Rightarrow> nat \<Rightarrow> lockOwner option" where
  "made_by s i = map_option agOwner (lsAgents s (lfMaker (lsFiles s) i))"

text \<open>No process that wrote this owner is alive.\<close>

definition condemned :: "lockState \<Rightarrow> lockOwner \<Rightarrow> bool" where
  "condemned s o1 \<longleftrightarrow> (\<forall>b h. lsAgents s b = Some h \<and> agOwner h = o1 \<longrightarrow> \<not> lives s h)"

definition inv_agents :: "lockState \<Rightarrow> bool" where
  "inv_agents s \<longleftrightarrow>
     (\<forall>a g. lsAgents s a = Some g \<longrightarrow> truthful g \<and> (agHost g, agPid g, agStart g) \<in> lsUsed s) \<and>
     (\<forall>h p st. lsProcs s h p = Some st \<longrightarrow> (h, p, st) \<in> lsUsed s) \<and>
     (\<forall>a b g h. lsAgents s a = Some g \<and> lsAgents s b = Some h \<and> loNonce (agOwner g) = loNonce (agOwner h) \<longrightarrow> a = b)"

definition inv_files :: "builtins \<Rightarrow> lockState \<Rightarrow> bool" where
  "inv_files B s \<longleftrightarrow> (let f = lsFiles s in
     (\<forall>i < lfNext f. \<exists>o1. made_by s i = Some o1 \<and> (parseOwner B (lfText f i) = None \<or> parseOwner B (lfText f i) = Some o1)) \<and>
     (\<forall>i. lfPath f = Some i \<longrightarrow> i < lfNext f) \<and> (\<forall>d i. lfClaims f d = Some i \<longrightarrow> i < lfNext f))"

definition inv_holder :: "lockState \<Rightarrow> bool" where
  "inv_holder s \<longleftrightarrow> (\<forall>a g. lsAgents s a = Some g \<and> lives s g \<and> holding_lock (agPc g) \<longrightarrow>
     (\<exists>i. lfPath (lsFiles s) = Some i \<and> lfMaker (lsFiles s) i = a \<and> (\<forall>j. agPc g = Opened j \<longrightarrow> j = i)))"

definition inv_owners :: "lockState \<Rightarrow> bool" where
  "inv_owners s \<longleftrightarrow> (\<forall>a g o1. lsAgents s a = Some g \<and> pc_owner (agPc g) = Some o1 \<longrightarrow>
     loHostname o1 = agHost g \<and> (\<exists>b h. lsAgents s b = Some h \<and> agOwner h = o1) \<and>
     (condemning (agPc g) = Some o1 \<longrightarrow> condemned s o1))"

definition inv_claims :: "builtins \<Rightarrow> lockState \<Rightarrow> bool" where
  "inv_claims B s \<longleftrightarrow>
     (\<forall>a g o1. lsAgents s a = Some g \<and> claiming (agPc g) = Some o1 \<longrightarrow> lfClaims (lsFiles s) (claim_name B o1) \<noteq> None) \<and>
     (\<forall>a b g h o1 o2. lsAgents s a = Some g \<and> lsAgents s b = Some h \<and> claiming (agPc g) = Some o1 \<and> claiming (agPc h) = Some o2 \<and>
        claim_name B o1 = claim_name B o2 \<longrightarrow> a = b)"

text \<open>A claim on the right inode is a claim on the lock as it is.\<close>

definition inv_recovery :: "builtins \<Rightarrow> lockState \<Rightarrow> bool" where
  "inv_recovery B s \<longleftrightarrow>
     (\<forall>a g o1 i. lsAgents s a = Some g \<and> agPc g = Claimed o1 \<and> lfClaims (lsFiles s) (claim_name B o1) = Some i \<and> made_by s i = Some o1 \<longrightarrow>
        lfPath (lsFiles s) = Some i) \<and>
     (\<forall>a g o1. lsAgents s a = Some g \<and> agPc g = Renaming o1 \<longrightarrow>
        (\<exists>i. lfPath (lsFiles s) = Some i \<and> made_by s i = Some o1 \<and> parseOwner B (lfText (lsFiles s) i) = Some o1))"

definition lock_inv :: "builtins \<Rightarrow> lockState \<Rightarrow> bool" where
  "lock_inv B s \<longleftrightarrow> inv_agents s \<and> inv_files B s \<and> inv_holder s \<and> inv_owners s \<and> inv_claims B s \<and> inv_recovery B s"

lemma lock_inv_start: "lock_inv B lock_start"
  by (simp add: lock_inv_def inv_agents_def inv_files_def inv_holder_def inv_owners_def inv_claims_def inv_recovery_def lock_start_def)

lemma claiming_condemning: "claiming pc = Some o1 \<Longrightarrow> condemning pc = Some o1"
  and condemning_owner: "condemning pc = Some o1 \<Longrightarrow> pc_owner pc = Some o1"
  by (cases pc; simp)+

text \<open>Two owners with one nonce are one.\<close>

lemma one_owner:
  assumes "inv_agents s" and "lsAgents s a = Some g" and "lsAgents s b = Some h" and "loNonce (agOwner g) = loNonce (agOwner h)"
  shows "a = b \<and> g = h"
  using assms unfolding inv_agents_def by (metis option.inject)

text \<open>A judgement is right: the process of the judged owner is gone.\<close>

lemma judged_dead:
  assumes "inv_agents s" and "loHostname o1 = host"
    and "loIdentity o1 = Some i \<and> lsProcs s host (loPid o1) = Some j \<and> i \<noteq> j \<or> lsProcs s host (loPid o1) = None"
  shows "condemned s o1"
  unfolding condemned_def
proof (intro allI impI notI)
  fix b h assume "lsAgents s b = Some h \<and> agOwner h = o1" and live: "lives s h"
  with assms(1) have "truthful h" "agOwner h = o1" by (auto simp: inv_agents_def)
  with live assms(2,3) show False by (auto simp: truthful_def lives_def)
qed

subsection \<open>Processes come and go\<close>

lemma inv_environment:
  assumes inv: "lock_inv B s" and agents: "inv_agents t" and files: "lsFiles t = lsFiles s"
    and old: "\<And>a g. lsAgents s a = Some g \<Longrightarrow> lsAgents t a = Some g"
    and new: "\<And>a g. lsAgents t a = Some g \<Longrightarrow> lsAgents s a = Some g \<or> agPc g = Trying"
    and living: "\<And>a g. lsAgents s a = Some g \<Longrightarrow> lives t g \<Longrightarrow> lives s g"
  shows "lock_inv B t"
proof -
  have made: "made_by t i = Some o1" if "made_by s i = Some o1" for i o1 using that old by (auto simp: made_by_def files)
  have condemned: "condemned t o1" if "condemned s o1" and "lsAgents s b = Some h" and "agOwner h = o1" for o1 b h
    unfolding condemned_def
  proof (intro allI impI notI)
    fix c g assume c: "lsAgents t c = Some g \<and> agOwner g = o1" and live: "lives t g"
    with one_owner[OF agents _ old[OF that(2)]] that(3) have "g = h" by metis
    with that live living[OF that(2)] show False by (auto simp: condemned_def)
  qed
  have files_inv: "inv_files B t"
    using inv made unfolding lock_inv_def inv_files_def files Let_def by meson
  have holder: "inv_holder t"
    using inv new living unfolding lock_inv_def inv_holder_def files by (metis holding_lock.simps(6))
  have owners: "inv_owners t"
    unfolding inv_owners_def
  proof (intro allI impI)
    fix a g o1 assume g: "lsAgents t a = Some g \<and> pc_owner (agPc g) = Some o1"
    then have "lsAgents s a = Some g" using new[of a g] by auto
    with inv g obtain b h where "loHostname o1 = agHost g" "lsAgents s b = Some h" "agOwner h = o1"
        "condemning (agPc g) = Some o1 \<longrightarrow> condemned s o1"
      unfolding lock_inv_def inv_owners_def by blast
    then show "loHostname o1 = agHost g \<and> (\<exists>b h. lsAgents t b = Some h \<and> agOwner h = o1) \<and> (condemning (agPc g) = Some o1 \<longrightarrow> condemned t o1)"
      using old condemned by blast
  qed
  have same: "lsAgents s a = Some g" if "lsAgents t a = Some g" "agPc g \<noteq> Trying" for a g using that new by blast
  have claimer: "lsAgents s a = Some g" if "lsAgents t a = Some g" "claiming (agPc g) = Some o1" for a g o1
    using same[OF that(1)] that(2) by force
  have claims: "inv_claims B t"
    using inv claimer unfolding lock_inv_def inv_claims_def files by meson
  have owned: "\<exists>o1. made_by s i = Some o1 \<and> made_by t i = Some o1" if "lfClaims (lsFiles s) d = Some i" for d i
    using inv made that unfolding lock_inv_def inv_files_def Let_def by metis
  have recovery: "inv_recovery B t"
    unfolding inv_recovery_def files
  proof (intro conjI allI impI)
    fix a g o1 i
    assume g: "lsAgents t a = Some g \<and> agPc g = Claimed o1 \<and> lfClaims (lsFiles s) (claim_name B o1) = Some i \<and> made_by t i = Some o1"
    then have "lsAgents s a = Some g" using same by simp
    moreover have "made_by s i = Some o1" using owned g by fastforce
    ultimately show "lfPath (lsFiles s) = Some i" using inv g unfolding lock_inv_def inv_recovery_def by blast
  next
    fix a g o1 assume g: "lsAgents t a = Some g \<and> agPc g = Renaming o1"
    then have "lsAgents s a = Some g" using same by simp
    then show "\<exists>i. lfPath (lsFiles s) = Some i \<and> made_by t i = Some o1 \<and> parseOwner B (lfText (lsFiles s) i) = Some o1"
      using inv g made unfolding lock_inv_def inv_recovery_def by blast
  qed
  show ?thesis using agents files_inv holder owners claims recovery by (simp add: lock_inv_def)
qed

lemma inv_begin:
  assumes "lock_inv B s" and "lsAgents s a = None" and "lives s g" and "truthful g" and "agPc g = Trying"
    and "\<And>b h. lsAgents s b = Some h \<Longrightarrow> loNonce (agOwner h) \<noteq> loNonce (agOwner g)"
  shows "lock_inv B (s\<lparr>lsAgents := (lsAgents s)(a \<mapsto> g)\<rparr>)" (is "lock_inv B ?t")
proof (rule inv_environment[OF assms(1)])
  show "inv_agents ?t"
    using assms unfolding lock_inv_def inv_agents_def lives_def by (auto split: if_splits) (metis assms(6))+
qed (use assms in \<open>auto simp: lives_def split: if_splits\<close>)

lemma inv_spawn:
  assumes "lock_inv B s" and "lsProcs s host pid = None" and "(host, pid, start) \<notin> lsUsed s"
  shows "lock_inv B (s\<lparr>lsProcs := (lsProcs s)(host := (lsProcs s host)(pid \<mapsto> start)), lsUsed := insert (host, pid, start) (lsUsed s)\<rparr>)"
    (is "lock_inv B ?t")
proof (rule inv_environment[OF assms(1)])
  show "inv_agents ?t" using assms unfolding lock_inv_def inv_agents_def by auto
  show "lives s g" if "lsAgents s a = Some g" "lives ?t g" for a g
    using that assms unfolding lock_inv_def inv_agents_def lives_def by (auto split: if_splits)
qed auto

lemma inv_die:
  assumes "lock_inv B s"
  shows "lock_inv B (s\<lparr>lsProcs := (lsProcs s)(host := (lsProcs s host)(pid := None))\<rparr>)" (is "lock_inv B ?t")
proof (rule inv_environment[OF assms(1)])
  show "inv_agents ?t" using assms unfolding lock_inv_def inv_agents_def by (auto split: if_splits)
qed (auto simp: lives_def split: if_splits)
subsection \<open>An agent moves\<close>

text \<open>What one call can do to the files.\<close>

lemma path_effect:
  assumes "local_step B procs a g f f' pc"
  obtains (same) "lfPath f' = lfPath f"
  | (made) "agPc g = Trying" "lfPath f = None" "lfPath f' = Some (lfNext f)" "lfMaker f' (lfNext f) = a" "pc = Opened (lfNext f)" "lfClaims f' = lfClaims f"
  | (removed) "lfPath f' = None" "holding_lock (agPc g)" "\<not> holding_lock pc" "lfClaims f' = lfClaims f"
  | (recovered) o1 i where "lfPath f' = None" "agPc g = Renaming o1" "pc = Quarantined o1" "lfPath f = Some i" "lfClaims f' = lfClaims f"
  using assms by cases auto

lemma maker_effect: "local_step B procs a g f f' pc \<Longrightarrow> i < lfNext f \<Longrightarrow> lfMaker f' i = lfMaker f i"
  by (cases rule: local_step.cases) auto

lemma next_effect: "local_step B procs a g f f' pc \<Longrightarrow> lfNext f \<le> lfNext f'"
  by (cases rule: local_step.cases) auto

lemma text_effect: "local_step B procs a g f f' pc \<Longrightarrow> i < lfNext f \<Longrightarrow> lfText f' i = lfText f i \<or> agPc g = Opened i"
  by (cases rule: local_step.cases) auto

lemma claims_effect:
  assumes "local_step B procs a g f f' pc"
  obtains (same) "lfClaims f' = lfClaims f"
  | (linked) o1 i where "agPc g = Linking o1" "pc = Claimed o1" "lfClaims f (claim_name B o1) = None" "lfPath f = Some i"
      "lfClaims f' = (lfClaims f)(claim_name B o1 := Some i)" "lfPath f' = lfPath f"
  | (unlinked) o1 where "claiming (agPc g) = Some o1" "claiming pc = None" "lfClaims f' = (lfClaims f)(claim_name B o1 := None)"
  using assms by cases (auto split: if_splits)

lemma pc_effect:
  assumes "local_step B procs a g f f' pc"
  shows "holding_lock pc \<Longrightarrow> holding_lock (agPc g) \<and> lfPath f' = lfPath f \<and> (\<forall>i. pc = Opened i \<longrightarrow> agPc g = Opened i) \<or> pc = Opened (lfNext f) \<and> lfPath f' = Some (lfNext f) \<and> lfMaker f' (lfNext f) = a"
    and "claiming pc = Some o1 \<Longrightarrow> claiming (agPc g) = Some o1 \<or> agPc g = Linking o1 \<and> pc = Claimed o1 \<and> lfClaims f (claim_name B o1) = None"
    and "pc_owner pc = Some o1 \<Longrightarrow> pc_owner (agPc g) = Some o1 \<or> (\<exists>i. agPc g = Examining \<and> pc = Judging o1 \<and> lfPath f = Some i \<and> judged_owner B (lfText f i) g = Some o1)"
    and "condemning pc = Some o1 \<Longrightarrow> condemning (agPc g) = Some o1 \<or> pc_owner (agPc g) = Some o1 \<and>
      (\<exists>i j. loIdentity o1 = Some i \<and> procs (agHost g) (loPid o1) = Some j \<and> i \<noteq> j \<or> procs (agHost g) (loPid o1) = None)"
  using assms by (cases; force split: if_splits)+

definition after_act :: "lockState \<Rightarrow> nat \<Rightarrow> lockAgent \<Rightarrow> lockFiles \<Rightarrow> lockPc \<Rightarrow> lockState" where
  "after_act s a g f pc = s\<lparr>lsFiles := f, lsAgents := (lsAgents s)(a \<mapsto> g\<lparr>agPc := pc\<rparr>)\<rparr>"

lemma after_act_simps [simp]:
  "lsFiles (after_act s a g f pc) = f" "lsProcs (after_act s a g f pc) = lsProcs s" "lsUsed (after_act s a g f pc) = lsUsed s"
  "lsAgents (after_act s a g f pc) b = (if b = a then Some (g\<lparr>agPc := pc\<rparr>) else lsAgents s b)"
  "lives (after_act s a g f pc) h = lives s h" "lives s (g\<lparr>agPc := pc\<rparr>) = lives s g"
  by (simp_all add: after_act_def lives_def)

lemma condemned_act: "lsAgents s a = Some g \<Longrightarrow> condemned (after_act s a g f pc) o1 = condemned s o1"
  by (auto simp: condemned_def split: if_splits)

lemma made_by_act:
  "lsAgents s a = Some g \<Longrightarrow> local_step B procs a g (lsFiles s) f pc \<Longrightarrow> i < lfNext (lsFiles s) \<Longrightarrow> made_by (after_act s a g f pc) i = made_by s i"
  by (simp add: made_by_def maker_effect)
lemma act_agents:
  assumes "inv_agents s" and "lsAgents s a = Some g"
  shows "inv_agents (after_act s a g f pc)"
proof -
  have "truthful (g\<lparr>agPc := pc\<rparr>) = truthful g" by (simp add: truthful_def)
  with assms show ?thesis unfolding inv_agents_def by (auto split: if_splits)
qed

lemma act_files:
  assumes "reads_owners B" and inv: "lock_inv B s" and g: "lsAgents s a = Some g" "lives s g"
    and act: "local_step B (lsProcs s) a g (lsFiles s) f pc"
  shows "inv_files B (after_act s a g f pc)"
proof -
  let ?t = "after_act s a g f pc"
  have files: "\<exists>o1. made_by s i = Some o1 \<and> (parseOwner B (lfText (lsFiles s) i) = None \<or> parseOwner B (lfText (lsFiles s) i) = Some o1)"
    if "i < lfNext (lsFiles s)" for i using inv that unfolding lock_inv_def inv_files_def Let_def by blast
  have ranges: "lfPath (lsFiles s) = Some i \<Longrightarrow> i < lfNext (lsFiles s)" "lfClaims (lsFiles s) d = Some i \<Longrightarrow> i < lfNext (lsFiles s)" for i d
    using inv unfolding lock_inv_def inv_files_def Let_def by blast+
  have own: "made_by s i = Some (agOwner g)" if "agPc g = Opened i" for i
    using inv g that unfolding lock_inv_def inv_holder_def made_by_def by fastforce
  have ok: "owner_ok (agOwner g)" using inv g(1) by (auto simp: lock_inv_def inv_agents_def truthful_def)
  have texts: "parseOwner B (lfText f i) = parseOwner B (lfText (lsFiles s) i) \<or>
      made_by s i = Some (agOwner g) \<and> (parseOwner B (lfText f i) = None \<or> parseOwner B (lfText f i) = Some (agOwner g))"
    if "i < lfNext (lsFiles s)" for i
    using act that own parseOwner_text[OF assms(1) ok] by cases auto
  have new: "made_by ?t i = Some (agOwner g) \<and> parseOwner B (lfText f i) = None" if "\<not> i < lfNext (lsFiles s)" "i < lfNext f" for i
    using act that parseOwner_empty[OF assms(1)] by cases (auto simp: made_by_def less_Suc_eq)
  have all: "\<exists>o1. made_by ?t i = Some o1 \<and> (parseOwner B (lfText f i) = None \<or> parseOwner B (lfText f i) = Some o1)" if "i < lfNext f" for i
  proof (cases "i < lfNext (lsFiles s)")
    case True
    then show ?thesis using files[OF True] texts[OF True] made_by_act[OF g(1) act True] by auto
  next
    case False
    then show ?thesis using new[OF False that] by blast
  qed
  have next_le: "lfNext (lsFiles s) \<le> lfNext f" by (rule next_effect[OF act])
  have paths: "i < lfNext f" if "lfPath f = Some i" for i
    using act that ranges(1) next_le by cases (auto simp: less_Suc_eq dest: ranges(1))
  have claims: "i < lfNext f" if "lfClaims f d = Some i" for d i
    using act that ranges next_le by cases (auto simp: less_Suc_eq split: if_splits dest: ranges)
  from all paths claims show ?thesis unfolding inv_files_def Let_def after_act_simps by blast
qed

lemma act_holder:
  assumes inv: "lock_inv B s" and g: "lsAgents s a = Some g" "lives s g"
    and act: "local_step B (lsProcs s) a g (lsFiles s) f pc"
  shows "inv_holder (after_act s a g f pc)"
proof -
  have range: "lfPath (lsFiles s) = Some i \<Longrightarrow> i < lfNext (lsFiles s)" for i
    using inv unfolding lock_inv_def inv_files_def Let_def by blast
  have hold: "\<exists>i. lfPath (lsFiles s) = Some i \<and> lfMaker (lsFiles s) i = b \<and> (\<forall>j. agPc h = Opened j \<longrightarrow> j = i)"
    if "lsAgents s b = Some h" "lives s h" "holding_lock (agPc h)" for b h
    using inv that unfolding lock_inv_def inv_holder_def by blast
  have "\<exists>i. lfPath f = Some i \<and> lfMaker f i = a \<and> (\<forall>j. pc = Opened j \<longrightarrow> j = i)" if "holding_lock pc"
    using pc_effect(1)[OF act that] hold[OF g] maker_effect[OF act] range by force
  moreover have "\<exists>i. lfPath f = Some i \<and> lfMaker f i = b \<and> (\<forall>j. agPc h = Opened j \<longrightarrow> j = i)"
    if h: "b \<noteq> a" "lsAgents s b = Some h" "lives s h" "holding_lock (agPc h)" for b h
  proof -
    obtain i where i: "lfPath (lsFiles s) = Some i" "lfMaker (lsFiles s) i = b" "\<forall>j. agPc h = Opened j \<longrightarrow> j = i"
      using hold[OF h(2-4)] by blast
    have "lfMaker f i = b" using maker_effect[OF act range[OF i(1)]] i(2) by simp
    moreover have "lfPath f = Some i"
      using act
    proof (cases rule: path_effect)
      case (removed)
      then show ?thesis using hold[OF g] i h(1) by auto
    next
      case (recovered o1 j)
      then have "made_by s j = Some o1" "condemned s o1" using inv g unfolding lock_inv_def inv_recovery_def inv_owners_def by fastforce+
      then show ?thesis using recovered i h by (auto simp: made_by_def condemned_def)
    qed (use i in auto)
    ultimately show ?thesis using i(3) by blast
  qed
  ultimately show ?thesis unfolding inv_holder_def by (auto split: if_splits)
qed

lemma act_owners:
  assumes inv: "lock_inv B s" and g: "lsAgents s a = Some g"
    and act: "local_step B (lsProcs s) a g (lsFiles s) f pc"
  shows "inv_owners (after_act s a g f pc)"
proof -
  have owners: "loHostname o1 = agHost h \<and> (\<exists>b h. lsAgents s b = Some h \<and> agOwner h = o1) \<and> (condemning (agPc h) = Some o1 \<longrightarrow> condemned s o1)"
    if "lsAgents s b = Some h" "pc_owner (agPc h) = Some o1" for b h o1
    using inv that unfolding lock_inv_def inv_owners_def by blast
  have agents: "(\<exists>b h. lsAgents (after_act s a g f pc) b = Some h \<and> agOwner h = o1)" if "lsAgents s b = Some h" "agOwner h = o1" for b h o1
    using that g by (cases "b = a") (auto intro: exI[of _ a] exI[of _ b])
  have mine: "loHostname o1 = agHost g \<and> (\<exists>b h. lsAgents s b = Some h \<and> agOwner h = o1)" if "pc_owner pc = Some o1" for o1
    using pc_effect(3)[OF act that]
  proof (elim disjE exE conjE)
    fix i assume "lfPath (lsFiles s) = Some i" and j: "judged_owner B (lfText (lsFiles s) i) g = Some o1"
    with inv obtain o2 where "made_by s i = Some o2" "parseOwner B (lfText (lsFiles s) i) = None \<or> parseOwner B (lfText (lsFiles s) i) = Some o2"
      unfolding lock_inv_def inv_files_def Let_def by blast
    with j show ?thesis by (auto simp: judged_owner_def made_by_def split: option.splits if_splits)
  qed (use owners[OF g] in blast)
  have "condemned s o1" if pc: "condemning pc = Some o1" for o1
    using pc_effect(4)[OF act pc]
  proof
    assume "condemning (agPc g) = Some o1"
    then show ?thesis using owners[OF g] condemning_owner by blast
  next
    assume judged: "pc_owner (agPc g) = Some o1 \<and> (\<exists>i j. loIdentity o1 = Some i \<and> lsProcs s (agHost g) (loPid o1) = Some j \<and> i \<noteq> j \<or>
      lsProcs s (agHost g) (loPid o1) = None)"
    then have "loHostname o1 = agHost g" using owners[OF g] by blast
    with judged inv judged_dead[of s o1 "agHost g"] show ?thesis by (auto simp: lock_inv_def)
  qed
  then have "condemned (after_act s a g f pc) o1" if "condemning pc = Some o1" for o1 using that condemned_act[OF g] by simp
  note dead = this
  show ?thesis
    unfolding inv_owners_def
  proof (intro allI impI)
    fix b h o1 assume h: "lsAgents (after_act s a g f pc) b = Some h \<and> pc_owner (agPc h) = Some o1"
    show "loHostname o1 = agHost h \<and> (\<exists>b h. lsAgents (after_act s a g f pc) b = Some h \<and> agOwner h = o1) \<and>
        (condemning (agPc h) = Some o1 \<longrightarrow> condemned (after_act s a g f pc) o1)"
    proof (cases "b = a")
      case True
      with h have h: "h = g\<lparr>agPc := pc\<rparr>" "pc_owner pc = Some o1" by auto
      from mine[OF h(2)] agents have "\<exists>b h. lsAgents (after_act s a g f pc) b = Some h \<and> agOwner h = o1" by blast
      with mine[OF h(2)] dead h show ?thesis by (simp del: after_act_simps(4))
    next
      case False
      with h have h: "lsAgents s b = Some h" "pc_owner (agPc h) = Some o1" by auto
      from owners[OF h] agents have "\<exists>b h. lsAgents (after_act s a g f pc) b = Some h \<and> agOwner h = o1" by blast
      with owners[OF h] show ?thesis by (simp add: condemned_act[OF g] del: after_act_simps(4))
    qed
  qed
qed
lemma act_claims:
  assumes inv: "lock_inv B s" and g: "lsAgents s a = Some g"
    and act: "local_step B (lsProcs s) a g (lsFiles s) f pc"
  shows "inv_claims B (after_act s a g f pc)"
proof -
  let ?d = "claim_name B"
  have there: "lfClaims (lsFiles s) (?d o1) \<noteq> None" if "lsAgents s b = Some h" "claiming (agPc h) = Some o1" for b h o1
    using inv that unfolding lock_inv_def inv_claims_def by blast
  have one: "b = c" if "lsAgents s b = Some h" "lsAgents s c = Some k" "claiming (agPc h) = Some o1" "claiming (agPc k) = Some o2" "?d o1 = ?d o2"
    for b c h k o1 o2 using inv that unfolding lock_inv_def inv_claims_def by meson
  have mine: "lfClaims f (?d o1) \<noteq> None" if "claiming pc = Some o1" for o1
    using act by cases (use that there[OF g] in \<open>auto split: if_splits\<close>)
  have others: "lfClaims f (?d o1) \<noteq> None" if h: "b \<noteq> a" "lsAgents s b = Some h" "claiming (agPc h) = Some o1" for b h o1
    using act
  proof (cases rule: claims_effect)
    case (unlinked o2)
    then have "?d o1 \<noteq> ?d o2" using one[OF h(2) g h(3)] h(1) by metis
    with unlinked there[OF h(2,3)] show ?thesis by simp
  qed (use there[OF h(2,3)] in auto)
  have unique: False if h: "b \<noteq> a" "lsAgents s b = Some h" "claiming (agPc h) = Some o1" "claiming pc = Some o2" "?d o1 = ?d o2" for b h o1 o2
    using pc_effect(2)[OF act h(4)] one[OF h(2) g h(3)] h(1,5) there[OF h(2,3)] by auto
  show ?thesis
    unfolding inv_claims_def
  proof (intro conjI allI impI)
    fix b h o1 assume "lsAgents (after_act s a g f pc) b = Some h \<and> claiming (agPc h) = Some o1"
    then show "lfClaims (lsFiles (after_act s a g f pc)) (?d o1) \<noteq> None"
      using mine others by (cases "b = a") auto
  next
    fix b c h k o1 o2
    assume "lsAgents (after_act s a g f pc) b = Some h \<and> lsAgents (after_act s a g f pc) c = Some k \<and>
      claiming (agPc h) = Some o1 \<and> claiming (agPc k) = Some o2 \<and> ?d o1 = ?d o2"
    then show "b = c" using unique one by (cases "b = a"; cases "c = a") (auto, metis+)
  qed
qed

lemma act_recovery:
  assumes inv: "lock_inv B s" and g: "lsAgents s a = Some g" "lives s g"
    and act: "local_step B (lsProcs s) a g (lsFiles s) f pc"
  shows "inv_recovery B (after_act s a g f pc)"
proof -
  let ?t = "after_act s a g f pc" and ?d = "claim_name B"
  have range: "lfPath (lsFiles s) = Some i \<Longrightarrow> i < lfNext (lsFiles s)" "lfClaims (lsFiles s) d = Some i \<Longrightarrow> i < lfNext (lsFiles s)" for i d
    using inv unfolding lock_inv_def inv_files_def Let_def by blast+
  have texts: "parseOwner B (lfText (lsFiles s) i) = None \<or> parseOwner B (lfText (lsFiles s) i) = made_by s i" if "i < lfNext (lsFiles s)" for i
    using inv that unfolding lock_inv_def inv_files_def Let_def by metis
  have dead: "condemned s o1" if "lsAgents s b = Some h" "condemning (agPc h) = Some o1" for b h o1
    using inv that condemning_owner unfolding lock_inv_def inv_owners_def by blast
  have one: "b = c" if "lsAgents s b = Some h" "lsAgents s c = Some k" "claiming (agPc h) = Some o1" "claiming (agPc k) = Some o2" "?d o1 = ?d o2"
    for b c h k o1 o2 using inv that unfolding lock_inv_def inv_claims_def by meson
  have holder: "\<exists>i. lfPath (lsFiles s) = Some i \<and> made_by s i = Some (agOwner g) \<and> (\<forall>j. agPc g = Opened j \<longrightarrow> j = i)" if "holding_lock (agPc g)"
    using inv g that unfolding lock_inv_def inv_holder_def made_by_def by fastforce
  have lost: "condemned s o1 \<Longrightarrow> o1 \<noteq> agOwner g" for o1 using g by (auto simp: condemned_def)
  have kept: "lfPath f = Some i \<and> parseOwner B (lfText f i) = parseOwner B (lfText (lsFiles s) i)"
    if i: "lfPath (lsFiles s) = Some i" "made_by s i = Some o1" "condemned s o1"
      and others: "\<And>o2. agPc g = Renaming o2 \<Longrightarrow> o2 \<noteq> o1" for i o1
  proof
    show "lfPath f = Some i"
      using act
    proof (cases rule: path_effect)
      case (removed)
      then show ?thesis using holder i lost by auto
    next
      case (recovered o2 j)
      then have "made_by s i = Some o2" using inv g(1) i(1) unfolding lock_inv_def inv_recovery_def by fastforce
      then show ?thesis using others recovered i(2) by auto
    qed (use i in auto)
    have "agPc g \<noteq> Opened i" using holder i lost by force
    then show "parseOwner B (lfText f i) = parseOwner B (lfText (lsFiles s) i)"
      using text_effect[OF act range(1)[OF i(1)]] by auto
  qed
  have claimed: "lfPath (lsFiles s) = Some i" if "lsAgents s b = Some h" "agPc h = Claimed o1" "lfClaims (lsFiles s) (?d o1) = Some i" "made_by s i = Some o1" for b h o1 i
    using inv that unfolding lock_inv_def inv_recovery_def by blast
  have renaming: "\<exists>i. lfPath (lsFiles s) = Some i \<and> made_by s i = Some o1 \<and> parseOwner B (lfText (lsFiles s) i) = Some o1"
    if "lsAgents s b = Some h" "agPc h = Renaming o1" for b h o1
    using inv that unfolding lock_inv_def inv_recovery_def by blast
  have there: "lfClaims (lsFiles s) (?d o1) \<noteq> None" if "lsAgents s b = Some h" "claiming (agPc h) = Some o1" for b h o1
    using inv that unfolding lock_inv_def inv_claims_def by blast
  have steady: "lfPath f = Some i \<and> parseOwner B (lfText f i) = parseOwner B (lfText (lsFiles s) i)"
    if h: "b \<noteq> a" "lsAgents s b = Some h" "claiming (agPc h) = Some o1" and i: "lfPath (lsFiles s) = Some i" "made_by s i = Some o1" for b h o1 i
  proof (rule kept[OF i dead[OF h(2) claiming_condemning[OF h(3)]]])
    show "o2 \<noteq> o1" if "agPc g = Renaming o2" for o2 using one[OF h(2) g(1) h(3)] h(1) that by auto
  qed
  show ?thesis
    unfolding inv_recovery_def
  proof (intro conjI allI impI)
    fix b h o1 i
    assume h: "lsAgents ?t b = Some h \<and> agPc h = Claimed o1 \<and> lfClaims (lsFiles ?t) (?d o1) = Some i \<and> made_by ?t i = Some o1"
    show "lfPath (lsFiles ?t) = Some i"
    proof (cases "b = a")
      case True
      with h have "pc = Claimed o1" "lfClaims f (?d o1) = Some i" by auto
      with act show ?thesis by cases (auto split: if_splits)
    next
      case False
      with h have b: "lsAgents s b = Some h" "agPc h = Claimed o1" "claiming (agPc h) = Some o1" by auto
      have i: "lfClaims (lsFiles s) (?d o1) = Some i"
        using act
      proof (cases rule: claims_effect)
        case (unlinked o2)
        then have "?d o2 \<noteq> ?d o1" using one[OF b(1) g(1) b(3)] False by metis
        with unlinked h show ?thesis by simp
      qed (use h there[OF b(1,3)] in \<open>auto split: if_splits\<close>)
      then have "made_by s i = Some o1" using made_by_act[OF g(1) act range(2)] h by simp
      with claimed[OF b(1,2) i] steady[OF False b(1,3)] show ?thesis by simp
    qed
  next
    fix b h o1 assume h: "lsAgents ?t b = Some h \<and> agPc h = Renaming o1"
    have same_made: "made_by ?t i = Some o1" if "lfPath (lsFiles s) = Some i" "made_by s i = Some o1" for i
      using made_by_act[OF g(1) act range(1)] that by simp
    show "\<exists>i. lfPath (lsFiles ?t) = Some i \<and> made_by ?t i = Some o1 \<and> parseOwner B (lfText (lsFiles ?t) i) = Some o1"
    proof (cases "b = a")
      case True
      with h have "pc = Renaming o1" by auto
      with act obtain i where i: "agPc g = Claimed o1" "lfClaims (lsFiles s) (?d o1) = Some i"
          "same_nonce (parseOwner B (lfText (lsFiles s) i)) o1" "f = lsFiles s"
        by cases (auto split: if_splits)
      from i(3) obtain o2 where "parseOwner B (lfText (lsFiles s) i) = Some o2" "loNonce o2 = loNonce o1"
        by (auto simp: same_nonce_def split: option.splits)
      moreover from this have "made_by s i = Some o2" using texts[OF range(2)[OF i(2)]] by simp
      ultimately have o2: "parseOwner B (lfText (lsFiles s) i) = Some o2" "made_by s i = Some o2" "loNonce o2 = loNonce o1" by simp_all
      have "\<exists>c k. lsAgents s c = Some k \<and> agOwner k = o1"
        using inv g(1) i(1) unfolding lock_inv_def inv_owners_def by fastforce
      with o2 inv have "o2 = o1" unfolding lock_inv_def made_by_def by (auto dest: one_owner)
      with o2 claimed[OF g(1) i(1,2)] same_made i(4) show ?thesis by auto
    next
      case False
      with h have b: "lsAgents s b = Some h" "agPc h = Renaming o1" "claiming (agPc h) = Some o1" by auto
      from renaming[OF b(1,2)] obtain i where i: "lfPath (lsFiles s) = Some i" "made_by s i = Some o1"
        "parseOwner B (lfText (lsFiles s) i) = Some o1" by blast
      with steady[OF False b(1,3) i(1,2)] same_made show ?thesis by auto
    qed
  qed
qed

lemma lock_inv_step:
  assumes "reads_owners B" and "lock_inv B s" and "lock_step B s t"
  shows "lock_inv B t"
  using assms(3)
proof cases
  case (Act a g f pc)
  then have t: "t = after_act s a g f pc" by (simp add: after_act_def)
  have "inv_agents s" using assms(2) by (simp add: lock_inv_def)
  from act_agents[OF this Act(2)] act_files[OF assms(1,2) Act(2-4)] act_holder[OF assms(2) Act(2-4)]
    act_owners[OF assms(2) Act(2,4)] act_claims[OF assms(2) Act(2,4)] act_recovery[OF assms(2) Act(2-4)]
  show ?thesis unfolding t lock_inv_def by blast
next
  case (Begin a g)
  then show ?thesis using inv_begin[OF assms(2)] by blast
next
  case (Spawn host pid start)
  then show ?thesis using inv_spawn[OF assms(2)] by blast
next
  case (Die host pid)
  then show ?thesis using inv_die[OF assms(2)] by blast
qed

lemma lock_inv_steps: "(lock_step B)\<^sup>*\<^sup>* s t \<Longrightarrow> reads_owners B \<Longrightarrow> lock_inv B s \<Longrightarrow> lock_inv B t"
  by (induction rule: rtranclp_induct) (auto intro: lock_inv_step)

lemma lock_inv_reachable: "reads_owners B \<Longrightarrow> lock_reachable B s \<Longrightarrow> lock_inv B s"
  unfolding lock_reachable_def using lock_inv_steps lock_inv_start by blast
section \<open>Mutual exclusion\<close>

text \<open>
  Claim C25 (lock_excludes). However the calls of any number of processes interleave, fail and end with the death of
  their processes, and however dead owners are recovered from, at most one live call at a time runs
  its operation under a lock.
\<close>

theorem lock_excludes:
  assumes "reads_owners B" and "lock_reachable B s" and "in_operation s a" and "in_operation s b"
  shows "a = b"
proof -
  have inv: "inv_holder s" using lock_inv_reachable[OF assms(1,2)] by (simp add: lock_inv_def)
  have "\<exists>i. lfPath (lsFiles s) = Some i \<and> lfMaker (lsFiles s) i = c" if "in_operation s c" for c
    using inv that by (fastforce simp: in_operation_def inv_holder_def split: option.splits)
  from this[OF assms(3)] this[OF assms(4)] show ?thesis by auto
qed

section \<open>Recovery\<close>

lemma step_act:
  assumes "lsAgents s a = Some g" and "lives s g" and "local_step B (lsProcs s) a g (lsFiles s) f pc"
    and "(lock_step B)\<^sup>*\<^sup>* (after_act s a g f pc) t"
  shows "(lock_step B)\<^sup>*\<^sup>* s t"
  by (rule converse_rtranclp_into_rtranclp[OF lock_step.Act[OF assms(1-3)] assms(4)[unfolded after_act_def]])

lemma after_act_again:
  "after_act (after_act s a g f pc) a (g\<lparr>agPc := pc\<rparr>) f' pc' = after_act s a g f' pc'"
  by (simp add: after_act_def)

lemma agent_pc [simp]: "agPc (g\<lparr>agPc := pc\<rparr>) = pc" "agHost (g\<lparr>agPc := pc\<rparr>) = agHost g" "agPid (g\<lparr>agPc := pc\<rparr>) = agPid g"
  "agStart (g\<lparr>agPc := pc\<rparr>) = agStart g" "agOwner (g\<lparr>agPc := pc\<rparr>) = agOwner g" "g\<lparr>agPc := pc, agPc := pc'\<rparr> = g\<lparr>agPc := pc'\<rparr>"
  by simp_all

lemma lock_taken:
  assumes "lsAgents s a = Some g" and "lives s g" and "agPc g = Trying" and "lfPath (lsFiles s) = None"
  shows "\<exists>t. (lock_step B)\<^sup>*\<^sup>* s t \<and> in_operation t a"
proof -
  let ?i = "lfNext (lsFiles s)"
  obtain f where f: "local_step B (lsProcs s) a g (lsFiles s) f (Opened ?i)"
    using local_step.Create[of g "lsFiles s" B "lsProcs s" a] assms(3,4) by blast
  let ?t = "after_act s a g f (Opened ?i)" and ?g = "g\<lparr>agPc := Opened ?i\<rparr>"
  have "local_step B (lsProcs ?t) a ?g (lsFiles ?t) (f\<lparr>lfText := (lfText f)(?i := owner_text (agOwner g))\<rparr>) Inside"
    using local_step.WriteDone[of ?g ?i B "lsProcs s" a f] by simp
  then obtain f' where f': "local_step B (lsProcs ?t) a ?g (lsFiles ?t) f' Inside" by blast
  have "(lock_step B)\<^sup>*\<^sup>* s (after_act ?t a ?g f' Inside)"
    by (rule step_act[OF assms(1,2) f], rule step_act[OF _ _ f']) (use assms(2) in simp_all)
  moreover have "in_operation (after_act ?t a ?g f' Inside) a" using assms(2) by (simp add: in_operation_def)
  ultimately show ?thesis by blast
qed

text \<open>The call of an agent that finds the files as they are and leaves them so.\<close>

lemma step_still:
  assumes "lsAgents s a = Some g" and "lives s g" and "local_step B (lsProcs s) a g (lsFiles s) (lsFiles s) pc"
    and "\<And>u. lsAgents u a = Some (g\<lparr>agPc := pc\<rparr>) \<Longrightarrow> lives u (g\<lparr>agPc := pc\<rparr>) \<Longrightarrow> lsFiles u = lsFiles s \<Longrightarrow> lsProcs u = lsProcs s \<Longrightarrow>
      \<exists>t. (lock_step B)\<^sup>*\<^sup>* u t \<and> in_operation t a"
  shows "\<exists>t. (lock_step B)\<^sup>*\<^sup>* s t \<and> in_operation t a"
proof -
  obtain t where "(lock_step B)\<^sup>*\<^sup>* (after_act s a g (lsFiles s) pc) t" "in_operation t a"
    using assms(4)[of "after_act s a g (lsFiles s) pc"] assms(2) by auto
  with step_act[OF assms(1-3)] show ?thesis by blast
qed

lemma recovered:
  assumes "lsAgents s a = Some g" and "lives s g" and "agPc g = Linking o1" and "lfPath (lsFiles s) = Some i"
    and "parseOwner B (lfText (lsFiles s) i) = Some o1" and "lfClaims (lsFiles s) (claim_name B o1) = None"
  shows "\<exists>t. (lock_step B)\<^sup>*\<^sup>* s t \<and> in_operation t a"
proof -
  let ?f = "lsFiles s" and ?at = "\<lambda>f pc. after_act s a g f pc"
  let ?linked = "?f\<lparr>lfClaims := (lfClaims ?f)(claim_name B o1 := Some i)\<rparr>"
  let ?renamed = "?linked\<lparr>lfPath := None\<rparr>"
  let ?done = "?renamed\<lparr>lfClaims := (lfClaims ?renamed)(claim_name B o1 := None)\<rparr>"
  have act: "(lock_step B)\<^sup>*\<^sup>* (?at f' pc') t"
    if "local_step B (lsProcs s) a (g\<lparr>agPc := pc'\<rparr>) f' f'' pc''" and "(lock_step B)\<^sup>*\<^sup>* (?at f'' pc'') t" for f' pc' f'' pc'' t
    by (rule step_act[of _ a "g\<lparr>agPc := pc'\<rparr>" B f'' pc'']) (use that assms(2) after_act_again[of s a g f' pc' f'' pc''] in simp_all)
  obtain t where t: "(lock_step B)\<^sup>*\<^sup>* (?at ?done Trying) t" "in_operation t a"
    using lock_taken[of "?at ?done Trying" a "g\<lparr>agPc := Trying\<rparr>" B] assms(2) by auto
  have 1: "local_step B (lsProcs s) a g ?f ?linked (Claimed o1)" using assms by (intro local_step.Link)
  have 2: "local_step B (lsProcs s) a (g\<lparr>agPc := Claimed o1\<rparr>) ?linked ?linked (Renaming o1)"
    by (rule local_step.Verify[where i = i]) (use assms(5) in \<open>simp_all add: same_nonce_def\<close>)
  have 3: "local_step B (lsProcs s) a (g\<lparr>agPc := Renaming o1\<rparr>) ?linked ?renamed (Quarantined o1)"
    by (rule local_step.Rename[where i = i]) (use assms(4) in simp_all)
  have 4: "local_step B (lsProcs s) a (g\<lparr>agPc := Quarantined o1\<rparr>) ?renamed ?renamed (Unclaiming o1 True)"
    by (rule local_step.Discard) simp
  have 5: "local_step B (lsProcs s) a (g\<lparr>agPc := Unclaiming o1 True\<rparr>) ?renamed ?done Trying"
    using local_step.Unclaim[of "g\<lparr>agPc := Unclaiming o1 True\<rparr>" o1 True B "lsProcs s" a ?renamed] by simp
  have "(lock_step B)\<^sup>*\<^sup>* s t"
    by (rule step_act[OF assms(1,2) 1]) (rule act[OF 2 act[OF 3 act[OF 4 act[OF 5 t(1)]]]])
  with t(2) show ?thesis by blast
qed

text \<open>
  Claim C30 (dead_owner_recovered). A lock whose owner died is not lost: a live call on the owner's host that waits for it
  can get it, provided that the lock reads as its owner, that no recovery claim is in its way, and that
  the owner's process identifier is free, or was taken over by a process with another start time than
  the one in the file.
\<close>

theorem dead_owner_recovered:
  assumes "lsAgents s a = Some g" and "lives s g" and "agPc g = Trying" and "lfPath (lsFiles s) = Some i"
    and "parseOwner B (lfText (lsFiles s) i) = Some o1" and "loThreadId o1 = loThreadId (agOwner g)" and "loHostname o1 = agHost g"
    and "lfClaims (lsFiles s) (claim_name B o1) = None"
    and "lsProcs s (agHost g) (loPid o1) = None \<or> loIdentity o1 \<noteq> None \<and> lsProcs s (agHost g) (loPid o1) \<noteq> loIdentity o1"
  shows "\<exists>t. (lock_step B)\<^sup>*\<^sup>* s t \<and> in_operation t a"
proof (rule step_still[OF assms(1,2) local_step.Exists[OF assms(3,4)]])
  fix u assume u: "lsAgents u a = Some (g\<lparr>agPc := Examining\<rparr>)" "lives u (g\<lparr>agPc := Examining\<rparr>)" "lsFiles u = lsFiles s" "lsProcs u = lsProcs s"
  have judged: "judged_owner B (lfText (lsFiles u) i) (g\<lparr>agPc := Examining\<rparr>) = Some o1"
    using assms(5-7) by (simp add: judged_owner_def u(3))
  show "\<exists>t. (lock_step B)\<^sup>*\<^sup>* u t \<and> in_operation t a"
  proof (rule step_still[OF u(1,2) local_step.Examine[OF _ _ judged]])
    fix v assume v: "lsAgents v a = Some (g\<lparr>agPc := Examining, agPc := Judging o1\<rparr>)" "lives v (g\<lparr>agPc := Examining, agPc := Judging o1\<rparr>)"
      "lsFiles v = lsFiles u" "lsProcs v = lsProcs u"
    let ?g = "g\<lparr>agPc := Judging o1\<rparr>"
    have g: "lsAgents v a = Some ?g" "lives v ?g" using v(1,2) by simp_all
    have linking: "\<exists>t. (lock_step B)\<^sup>*\<^sup>* x t \<and> in_operation t a"
      if "lsAgents x a = Some h" "lives x h" "agPc h = Linking o1" "lsFiles x = lsFiles s" for x h
      by (rule recovered[OF that(1-3)]) (use assms that(4) in simp_all)
    show "\<exists>t. (lock_step B)\<^sup>*\<^sup>* v t \<and> in_operation t a"
    proof (cases "lsProcs s (agHost g) (loPid o1)")
      case None
      have dead: "lsProcs x (agHost g) (loPid o1) = None" if "lsProcs x = lsProcs v" for x using None that v(4) u(4) by simp
      show ?thesis
      proof (rule step_still[OF g local_step.StartUnknown])
        fix x assume x: "lsAgents x a = Some (?g\<lparr>agPc := Pinging o1\<rparr>)" "lives x (?g\<lparr>agPc := Pinging o1\<rparr>)" "lsFiles x = lsFiles v" "lsProcs x = lsProcs v"
        show "\<exists>t. (lock_step B)\<^sup>*\<^sup>* x t \<and> in_operation t a"
          by (rule step_still[OF x(1,2) local_step.PingDead], simp, simp add: dead[OF x(4)])
            (erule linking, assumption, simp_all add: x(3) v(3) u(3))
      qed simp
    next
      case (Some j)
      then obtain k where k: "loIdentity o1 = Some k" "k \<noteq> j" using assms(9) by auto
      show ?thesis
        by (rule step_still[OF g local_step.StartDiffers[OF _ k(1) _ k(2)]], simp, simp add: Some v(4) u(4))
          (erule linking, assumption, simp_all add: v(3) u(3))
    qed
  qed (use assms(4) u(3) in simp_all)
qed
section \<open>Locks that are lost\<close>

text \<open>
  The maker of the lock is dead, and the lock does not read as its owner, or a dead process left
  the claim for its recovery behind.
\<close>

definition orphaned :: "builtins \<Rightarrow> nat \<Rightarrow> lockState \<Rightarrow> bool" where
  "orphaned B i s \<longleftrightarrow> lfPath (lsFiles s) = Some i \<and>
     (\<exists>h. lsAgents s (lfMaker (lsFiles s) i) = Some h \<and> \<not> lives s h) \<and>
     (\<forall>o1. parseOwner B (lfText (lsFiles s) i) = Some o1 \<longrightarrow> lfClaims (lsFiles s) (claim_name B o1) \<noteq> None \<and>
        (\<forall>a g o2. lsAgents s a = Some g \<and> claiming (agPc g) = Some o2 \<and> claim_name B o2 = claim_name B o1 \<longrightarrow> \<not> lives s g))"

lemma orphaned_environment:
  assumes "orphaned B i s" and "lsFiles t = lsFiles s"
    and "\<And>a g. lsAgents s a = Some g \<Longrightarrow> lsAgents t a = Some g"
    and "\<And>a g. lsAgents t a = Some g \<Longrightarrow> lsAgents s a = Some g \<or> agPc g = Trying"
    and "\<And>a g. lsAgents s a = Some g \<Longrightarrow> lives t g \<Longrightarrow> lives s g"
  shows "orphaned B i t"
proof -
  have "lsAgents s a = Some g" if "lsAgents t a = Some g" "claiming (agPc g) = Some o2" for a g o2
    using assms(4)[OF that(1)] that(2) by auto
  then show ?thesis
    using assms(1,3,5) unfolding orphaned_def assms(2) by meson
qed

lemma orphaned_act:
  assumes inv: "lock_inv B s" and lost: "orphaned B i s" and g: "lsAgents s a = Some g" "lives s g"
    and act: "local_step B (lsProcs s) a g (lsFiles s) f pc"
  shows "orphaned B i (after_act s a g f pc)"
proof -
  obtain h where i: "lfPath (lsFiles s) = Some i" "lsAgents s (lfMaker (lsFiles s) i) = Some h" "\<not> lives s h"
    using lost by (auto simp: orphaned_def)
  then have other: "lfMaker (lsFiles s) i \<noteq> a" using g by auto
  have range: "i < lfNext (lsFiles s)" using inv i(1) unfolding lock_inv_def inv_files_def Let_def by blast
  have outside: "\<not> holding_lock (agPc g)" using inv g i(1) other unfolding lock_inv_def inv_holder_def by fastforce
  have blocked: "lfClaims (lsFiles s) (claim_name B o1) \<noteq> None"
      "\<And>b k o2. lsAgents s b = Some k \<Longrightarrow> claiming (agPc k) = Some o2 \<Longrightarrow> claim_name B o2 = claim_name B o1 \<Longrightarrow> \<not> lives s k"
    if "parseOwner B (lfText (lsFiles s) i) = Some o1" for o1
    using lost that unfolding orphaned_def by blast+
  have path: "lfPath f = Some i"
    using act
  proof (cases rule: path_effect)
    case (recovered o1 j)
    then have "parseOwner B (lfText (lsFiles s) i) = Some o1" using inv g(1) i(1) unfolding lock_inv_def inv_recovery_def by fastforce
    from blocked(2)[OF this g(1)] recovered g(2) show ?thesis by simp
  qed (use i(1) outside in auto)
  have same: "lfText f i = lfText (lsFiles s) i" "lfMaker f i = lfMaker (lsFiles s) i"
    using text_effect[OF act range] outside maker_effect[OF act range] by auto
  have "lfClaims f (claim_name B o1) \<noteq> None \<and> (\<forall>o2. claiming pc = Some o2 \<longrightarrow> claim_name B o2 \<noteq> claim_name B o1)"
    if o1: "parseOwner B (lfText (lsFiles s) i) = Some o1" for o1
  proof
    show "lfClaims f (claim_name B o1) \<noteq> None"
      using act
    proof (cases rule: claims_effect)
      case (unlinked o2)
      then have "claim_name B o2 \<noteq> claim_name B o1" using blocked(2)[OF o1 g(1)] g(2) by blast
      with unlinked blocked(1)[OF o1] show ?thesis by simp
    qed (use blocked(1)[OF o1] in auto)
    show "\<forall>o2. claiming pc = Some o2 \<longrightarrow> claim_name B o2 \<noteq> claim_name B o1"
      using pc_effect(2)[OF act] blocked[OF o1] g by metis
  qed
  then show ?thesis
    using i path same other blocked unfolding orphaned_def after_act_simps by auto
qed

lemma orphaned_step:
  assumes inv: "lock_inv B s" and lost: "orphaned B i s" and "lock_step B s t"
  shows "orphaned B i t"
  using assms(3)
proof cases
  case (Act a g f pc)
  then show ?thesis using orphaned_act[OF inv lost Act(2-4)] by (simp add: after_act_def)
next
  case (Begin a g)
  then show ?thesis by (intro orphaned_environment[OF lost]) (auto simp: lives_def split: if_splits)
next
  case (Spawn host pid start)
  have "lives s g" if "lsAgents s a = Some g" "lives t g" for a g
    using that Spawn inv unfolding lock_inv_def inv_agents_def lives_def by (auto split: if_splits)
  with Spawn show ?thesis by (intro orphaned_environment[OF lost]) auto
next
  case (Die host pid)
  then show ?thesis by (intro orphaned_environment[OF lost]) (auto simp: lives_def split: if_splits)
qed

lemma orphaned_steps:
  assumes "(lock_step B)\<^sup>*\<^sup>* s t" and "reads_owners B" and "lock_inv B s" and "orphaned B i s"
  shows "orphaned B i t"
  using assms(1)
proof (induction rule: rtranclp_induct)
  case (step u v)
  have "lock_inv B u" by (rule lock_inv_steps[OF step(1) assms(2,3)])
  then show ?case using orphaned_step step by blast
qed (rule assms(4))

lemma orphaned_closed:
  assumes "lock_inv B t" and "orphaned B i t"
  shows "lfPath (lsFiles t) = Some i \<and> \<not> in_operation t b"
  using assms unfolding lock_inv_def inv_holder_def orphaned_def in_operation_def by (fastforce split: option.splits)

definition process_died :: "lockAgent \<Rightarrow> lockState \<Rightarrow> lockState" where
  "process_died g s = s\<lparr>lsProcs := (lsProcs s)(agHost g := (lsProcs s (agHost g))(agPid g := None))\<rparr>"

lemma process_died_simps [simp]:
  "lsFiles (process_died g s) = lsFiles s" "lsAgents (process_died g s) = lsAgents s" "\<not> lives (process_died g s) g"
  "lives (process_died g s) h \<Longrightarrow> lives s h"
  by (auto simp: process_died_def lives_def split: if_splits)

lemma process_died_step: "lock_step B s (process_died g s)"
  unfolding process_died_def by (rule Die)

text \<open>A death while the file has no readable owner yet.\<close>

lemma death_while_writing:
  assumes inv: "lock_inv B s" and g: "lsAgents s a = Some g" "lives s g" and pc: "holding_lock (agPc g)"
    and i: "lfPath (lsFiles s) = Some i" and unread: "parseOwner B (lfText (lsFiles s) i) = None"
  shows "orphaned B i (process_died g s)"
proof -
  have "lfMaker (lsFiles s) i = a" using inv g pc i unfolding lock_inv_def inv_holder_def by fastforce
  with g(1) i unread show ?thesis by (simp add: orphaned_def)
qed

text \<open>A death of the holder of the recovery claim while the lock still is the condemned one.\<close>

lemma death_while_claiming:
  assumes inv: "lock_inv B s" and g: "lsAgents s a = Some g" and pc: "claiming (agPc g) = Some o1"
    and i: "lfPath (lsFiles s) = Some i" and unread: "parseOwner B (lfText (lsFiles s) i) = Some o1"
  shows "orphaned B i (process_died g s)"
proof -
  have "i < lfNext (lsFiles s)" using inv i unfolding lock_inv_def inv_files_def Let_def by blast
  with inv unread have "made_by s i = Some o1" unfolding lock_inv_def inv_files_def Let_def by fastforce
  then obtain h where h: "lsAgents s (lfMaker (lsFiles s) i) = Some h" "agOwner h = o1" by (auto simp: made_by_def)
  have "condemned s o1"
    using inv g claiming_condemning[OF pc] condemning_owner unfolding lock_inv_def inv_owners_def by blast
  with h have dead: "\<not> lives s h" by (auto simp: condemned_def)
  have claim: "lfClaims (lsFiles s) (claim_name B o1) \<noteq> None"
    using inv g pc unfolding lock_inv_def inv_claims_def by blast
  have "k = g" if "lsAgents s b = Some k" "claiming (agPc k) = Some o2" "claim_name B o2 = claim_name B o1" for b k o2
  proof -
    have "b = a" using inv g pc that unfolding lock_inv_def inv_claims_def by meson
    with that(1) g show ?thesis by simp
  qed
  with i h(1) dead claim unread show ?thesis unfolding orphaned_def by (auto dest: process_died_simps(4))
qed

text \<open>
  Claim C31 (orphaned_lock_is_lost). Some deaths lose a lock for ever. A process dies that has made the
  lock file and is still writing it, or failed to, when no owner can be read from it; or a process dies that has linked the claim for the
  recovery of a dead owner and has neither renamed the lock away nor taken the claim back. Then the
  lock file stays whatever happens later, and no live call ever runs its operation again. (A death
  after the renaming does not lose the lock: its path is free again.)
\<close>

theorem orphaned_lock_is_lost:
  assumes "reads_owners B" and "lock_reachable B s" and "lsAgents s a = Some g" and "lives s g"
    and "lfPath (lsFiles s) = Some i"
    and "agPc g \<in> {Opened i, Failing} \<and> parseOwner B (lfText (lsFiles s) i) = None \<or>
      (\<exists>o1. claiming (agPc g) = Some o1 \<and> parseOwner B (lfText (lsFiles s) i) = Some o1)"
    and "(lock_step B)\<^sup>*\<^sup>* (process_died g s) t"
  shows "lfPath (lsFiles t) = Some i \<and> \<not> in_operation t b"
proof -
  have inv: "lock_inv B s" by (rule lock_inv_reachable[OF assms(1,2)])
  have died: "lock_inv B (process_died g s)" by (rule lock_inv_step[OF assms(1) inv process_died_step])
  have "orphaned B i (process_died g s)"
    using assms(6) death_while_writing[OF inv assms(3,4) _ assms(5)] death_while_claiming[OF inv assms(3) _ assms(5)] by auto
  with orphaned_steps[OF assms(7,1) died] lock_inv_steps[OF assms(7,1) died] orphaned_closed show ?thesis by blast
qed

section \<open>Examples\<close>

definition sample_agent :: "int \<Rightarrow> string \<Rightarrow> lockAgent" where
  "sample_agent pid nonce = \<lparr>agHost = ''h'', agPid = pid, agStart = ''7'',
     agOwner = \<lparr>loThreadId = ''t'', loPid = pid, loStartedAt = 0, loNonce = nonce, loHostname = ''h'', loIdentity = Some ''7''\<rparr>, agPc = Trying\<rparr>"

lemma sample_agent_truthful: "truthful (sample_agent 1 ''a'')" "truthful (sample_agent 2 ''b'')"
  by code_simp+

lemma sample_owner_reads:
  "parseOwner reading_builtins (owner_text (agOwner (sample_agent 1 ''a''))) = Some (agOwner (sample_agent 1 ''a''))"
  by (rule parseOwner_text[OF reads_owners_reading]) (use sample_agent_truthful in \<open>simp add: truthful_def\<close>)

text \<open>Process 1 makes the lock file; process 2 waits for it.\<close>

definition lock_opened :: lockState where
  "lock_opened = \<lparr>lsFiles = \<lparr>lfPath = Some 0, lfClaims = \<lambda>_. None, lfText = \<lambda>_. [], lfMaker = \<lambda>_. 0, lfNext = 1\<rparr>,
     lsProcs = \<lambda>h p. if h = ''h'' \<and> (p = 1 \<or> p = 2) then Some ''7'' else None, lsUsed = {(''h'', 1, ''7''), (''h'', 2, ''7'')},
     lsAgents = [0 \<mapsto> (sample_agent 1 ''a'')\<lparr>agPc := Opened 0\<rparr>, 1 \<mapsto> sample_agent 2 ''b'']\<rparr>"

definition lock_owned :: lockState where
  "lock_owned = after_act lock_opened 0 ((sample_agent 1 ''a'')\<lparr>agPc := Opened 0\<rparr>)
     ((lsFiles lock_opened)\<lparr>lfText := (\<lambda>_. [])(0 := owner_text (agOwner (sample_agent 1 ''a'')))\<rparr>) Inside"

definition killed :: "lockState \<Rightarrow> lockState" where
  "killed s = s\<lparr>lsProcs := (lsProcs s)(''h'' := (lsProcs s ''h'')(1 := None))\<rparr>"

lemma lock_opened_reachable: "lock_reachable reading_builtins lock_opened"
proof -
  let ?B = reading_builtins
  define s1 where "s1 = lock_start\<lparr>lsProcs := (lsProcs lock_start)(''h'' := (lsProcs lock_start ''h'')(1 \<mapsto> ''7'')), lsUsed := insert (''h'', 1, ''7'') (lsUsed lock_start)\<rparr>"
  define s2 where "s2 = s1\<lparr>lsProcs := (lsProcs s1)(''h'' := (lsProcs s1 ''h'')(2 \<mapsto> ''7'')), lsUsed := insert (''h'', 2, ''7'') (lsUsed s1)\<rparr>"
  define s3 where "s3 = s2\<lparr>lsAgents := (lsAgents s2)(0 \<mapsto> sample_agent 1 ''a'')\<rparr>"
  define s4 where "s4 = s3\<lparr>lsAgents := (lsAgents s3)(1 \<mapsto> sample_agent 2 ''b'')\<rparr>"
  note defs = s4_def s3_def s2_def s1_def lock_start_def
  have 1: "lock_step ?B lock_start s1" unfolding s1_def by (rule Spawn) (simp_all add: lock_start_def)
  have 2: "lock_step ?B s1 s2" unfolding s2_def by (rule Spawn) (simp_all add: s1_def lock_start_def)
  have 3: "lock_step ?B s2 s3" unfolding s3_def
    by (rule Begin) (use sample_agent_truthful in \<open>simp_all add: s2_def s1_def lock_start_def lives_def sample_agent_def\<close>)
  have 4: "lock_step ?B s3 s4" unfolding s4_def
    by (rule Begin) (use sample_agent_truthful in \<open>auto simp: s3_def s2_def s1_def lock_start_def lives_def sample_agent_def split: if_splits\<close>)
  have 5: "lock_step ?B s4 lock_opened"
  proof -
    let ?f = "lsFiles s4"
    have "lock_step ?B s4 (s4\<lparr>lsFiles := ?f\<lparr>lfPath := Some (lfNext ?f), lfText := (lfText ?f)(lfNext ?f := []),
        lfMaker := (lfMaker ?f)(lfNext ?f := 0), lfNext := Suc (lfNext ?f)\<rparr>, lsAgents := (lsAgents s4)(0 \<mapsto> (sample_agent 1 ''a'')\<lparr>agPc := Opened (lfNext ?f)\<rparr>)\<rparr>)"
      by (rule Act[OF _ _ Create]) (simp_all add: defs lives_def sample_agent_def)
    also have "s4\<lparr>lsFiles := ?f\<lparr>lfPath := Some (lfNext ?f), lfText := (lfText ?f)(lfNext ?f := []),
        lfMaker := (lfMaker ?f)(lfNext ?f := 0), lfNext := Suc (lfNext ?f)\<rparr>, lsAgents := (lsAgents s4)(0 \<mapsto> (sample_agent 1 ''a'')\<lparr>agPc := Opened (lfNext ?f)\<rparr>)\<rparr> = lock_opened"
      by (auto simp: defs lock_opened_def fun_eq_iff)
    finally show ?thesis .
  qed
  show ?thesis unfolding lock_reachable_def
    by (rule converse_rtranclp_into_rtranclp, rule 1, rule converse_rtranclp_into_rtranclp, rule 2,
        rule converse_rtranclp_into_rtranclp, rule 3, rule converse_rtranclp_into_rtranclp, rule 4, rule r_into_rtranclp, rule 5)
qed

lemma lock_owned_reachable: "lock_reachable reading_builtins lock_owned"
proof -
  have "(lock_step reading_builtins)\<^sup>*\<^sup>* lock_opened lock_owned"
    unfolding lock_owned_def
    by (rule step_act[OF _ _ _ rtranclp.rtrancl_refl])
      (use WriteDone[of "(sample_agent 1 ''a'')\<lparr>agPc := Opened 0\<rparr>" 0 reading_builtins "lsProcs lock_opened" 0 "lsFiles lock_opened"]
        in \<open>simp_all add: lock_opened_def lives_def sample_agent_def\<close>)
  then show ?thesis using lock_opened_reachable unfolding lock_reachable_def by (rule rtranclp_trans[rotated])
qed

theorem lock_excludes_witness: "in_operation lock_owned 0 \<and> \<not> in_operation lock_owned 1"
proof -
  have "in_operation lock_owned 0"
    by (simp add: lock_owned_def lock_opened_def in_operation_def lives_def sample_agent_def)
  with lock_excludes[OF reads_owners_reading lock_owned_reachable this, of 1] show ?thesis by auto
qed

theorem dead_owner_recovered_witness: "\<exists>t. (lock_step reading_builtins)\<^sup>*\<^sup>* (killed lock_owned) t \<and> in_operation t 1"
  by (rule dead_owner_recovered[where g = "sample_agent 2 ''b''" and i = 0 and ?o1.0 = "agOwner (sample_agent 1 ''a'')"])
    (use sample_owner_reads in \<open>simp_all add: killed_def lock_owned_def lock_opened_def lives_def, simp_all add: sample_agent_def\<close>)

text \<open>Process 2 finds the owner dead and links the claim for its recovery.\<close>

definition lock_claimed :: lockState where
  "lock_claimed = after_act (killed lock_owned) 1 (sample_agent 2 ''b'')
     ((lsFiles lock_owned)\<lparr>lfClaims := (\<lambda>_. None)(claim_name reading_builtins (agOwner (sample_agent 1 ''a'')) := Some 0)\<rparr>)
     (Claimed (agOwner (sample_agent 1 ''a'')))"

lemma lock_claimed_reachable: "lock_reachable reading_builtins lock_claimed"
proof -
  let ?B = reading_builtins and ?s = "killed lock_owned" and ?g = "sample_agent 2 ''b''" and ?o = "agOwner (sample_agent 1 ''a'')"
  let ?at = "\<lambda>f pc. after_act ?s 1 ?g f pc" and ?f = "lsFiles lock_owned"
  have g: "lsAgents ?s 1 = Some ?g" "lives ?s ?g" "agPc ?g = Trying"
    by (simp_all add: killed_def lock_owned_def lock_opened_def lives_def sample_agent_def)
  have f: "lsFiles ?s = ?f" "lfPath ?f = Some 0" "lfClaims ?f = (\<lambda>_. None)" "lfText ?f 0 = owner_text ?o"
    by (simp_all add: killed_def lock_owned_def lock_opened_def)
  have dead: "lsProcs ?s ''h'' 1 = None" by (simp add: killed_def)
  have o1: "loThreadId ?o = loThreadId (agOwner ?g)" "loHostname ?o = agHost ?g" "loPid ?o = 1" "agHost ?g = ''h''"
    by (simp_all add: sample_agent_def)
  have act: "(lock_step ?B)\<^sup>*\<^sup>* (?at f' pc') t"
    if "local_step ?B (lsProcs ?s) 1 (?g\<lparr>agPc := pc'\<rparr>) f' f'' pc''" and "(lock_step ?B)\<^sup>*\<^sup>* (?at f'' pc'') t" for f' pc' f'' pc'' t
    by (rule step_act[of _ 1 "?g\<lparr>agPc := pc'\<rparr>" ?B f'' pc'']) (use that g(2) after_act_again[of ?s 1 ?g f' pc' f'' pc''] in simp_all)
  have judged: "judged_owner ?B (lfText ?f 0) (?g\<lparr>agPc := Examining\<rparr>) = Some ?o"
    using sample_owner_reads o1 f(4) by (simp add: judged_owner_def)
  have "(lock_step ?B)\<^sup>*\<^sup>* ?s lock_claimed"
  proof (rule step_act[OF g(1,2)])
    show "local_step ?B (lsProcs ?s) 1 ?g (lsFiles ?s) ?f Examining"
      using local_step.Exists[of ?g ?f 0] g(3) f by simp
    show "(lock_step ?B)\<^sup>*\<^sup>* (?at ?f Examining) lock_claimed"
    proof (rule act)
      show "local_step ?B (lsProcs ?s) 1 (?g\<lparr>agPc := Examining\<rparr>) ?f ?f (Judging ?o)"
        by (rule local_step.Examine[OF _ f(2) judged]) simp
      show "(lock_step ?B)\<^sup>*\<^sup>* (?at ?f (Judging ?o)) lock_claimed"
      proof (rule act)
        show "local_step ?B (lsProcs ?s) 1 (?g\<lparr>agPc := Judging ?o\<rparr>) ?f ?f (Pinging ?o)"
          by (rule local_step.StartUnknown) simp
        show "(lock_step ?B)\<^sup>*\<^sup>* (?at ?f (Pinging ?o)) lock_claimed"
        proof (rule act)
          show "local_step ?B (lsProcs ?s) 1 (?g\<lparr>agPc := Pinging ?o\<rparr>) ?f ?f (Linking ?o)"
            by (rule local_step.PingDead) (simp_all add: o1 dead)
          show "(lock_step ?B)\<^sup>*\<^sup>* (?at ?f (Linking ?o)) lock_claimed"
          proof (rule act[OF local_step.Link])
            show "(lock_step ?B)\<^sup>*\<^sup>* (?at (?f\<lparr>lfClaims := (lfClaims ?f)(claim_name ?B ?o := Some 0)\<rparr>) (Claimed ?o)) lock_claimed"
              by (simp add: lock_claimed_def f(3))
          qed (simp_all add: f)
        qed
      qed
    qed
  qed
  moreover have "lock_step ?B lock_owned ?s" unfolding killed_def by (rule Die)
  ultimately show ?thesis using lock_owned_reachable unfolding lock_reachable_def
    by (meson rtranclp.rtrancl_into_rtrancl rtranclp_trans)
qed

theorem orphaned_lock_is_lost_witness:
  "\<not> in_operation (process_died ((sample_agent 1 ''a'')\<lparr>agPc := Opened 0\<rparr>) lock_opened) 1 \<and>
   lfPath (lsFiles (process_died ((sample_agent 2 ''b'')\<lparr>agPc := Claimed (agOwner (sample_agent 1 ''a''))\<rparr>) lock_claimed)) = Some 0"
proof
  have "parseOwner reading_builtins (lfText (lsFiles lock_opened) 0) = None"
    using parseOwner_empty[OF reads_owners_reading] by (simp add: lock_opened_def)
  then show "\<not> in_operation (process_died ((sample_agent 1 ''a'')\<lparr>agPc := Opened 0\<rparr>) lock_opened) 1"
    by (intro conjunct2[OF orphaned_lock_is_lost[OF reads_owners_reading lock_opened_reachable _ _ _ _ rtranclp.rtrancl_refl,
        where a = 0 and i = 0]]) (simp_all add: lock_opened_def lives_def sample_agent_def)
  have "parseOwner reading_builtins (lfText (lsFiles lock_claimed) 0) = Some (agOwner (sample_agent 1 ''a''))"
    using sample_owner_reads by (simp add: lock_claimed_def lock_owned_def)
  then show "lfPath (lsFiles (process_died ((sample_agent 2 ''b'')\<lparr>agPc := Claimed (agOwner (sample_agent 1 ''a''))\<rparr>) lock_claimed)) = Some 0"
    by (intro conjunct1[OF orphaned_lock_is_lost[OF reads_owners_reading lock_claimed_reachable _ _ _ _ rtranclp.rtrancl_refl,
        where a = 1 and i = 0]]) (simp_all add: lock_claimed_def killed_def lock_owned_def lock_opened_def lives_def sample_agent_def)
qed

end
