(* ===== verification/Effects.thy ===== *)
theory Effects
  imports Readers
begin

text \<open>
  Programs with side effects. An asynchronous function of the source that reads and writes
  files, runs git or calls a service is a function from an environment and a world to an
  outcome and a world. The environment says, for every effect in the order in which the
  program awaits them, what becomes of it: it happens, it fails before or after it took place,
  or the process dies before or after it. A statement about all environments therefore covers
  every interleaving of failures and crashes; what survives a crash is the world.
\<close>

section \<open>Outcomes and worlds\<close>

datatype 'a outcome = Value 'a | Thrown error | Crashed

datatype fate = Happens | FailsBefore | FailsAfter | CrashesBefore | CrashesAfter

record env =
  enFate :: "nat \<Rightarrow> fate"

record world =
  tick :: nat

type_synonym ('e, 'w, 'a) prog = "'e env_scheme \<Rightarrow> 'w world_scheme \<Rightarrow> 'a outcome \<times> 'w world_scheme"

definition node_error :: error where "node_error = PlainError ''io''"

definition elapse :: "'w world_scheme \<Rightarrow> 'w world_scheme" where
  "elapse w = w\<lparr>tick := Suc (tick w)\<rparr>"

section \<open>Composition\<close>

definition ret :: "'a \<Rightarrow> ('e, 'w, 'a) prog" where
  "ret x E w = (Value x, w)"

definition throw :: "error \<Rightarrow> ('e, 'w, 'a) prog" where
  "throw e E w = (Thrown e, w)"

definition mbind :: "('e, 'w, 'a) prog \<Rightarrow> ('a \<Rightarrow> ('e, 'w, 'b) prog) \<Rightarrow> ('e, 'w, 'b) prog" where
  "mbind m f E w =
     (case m E w of
        (Value x, w') \<Rightarrow> f x E w'
      | (Thrown e, w') \<Rightarrow> (Thrown e, w')
      | (Crashed, w') \<Rightarrow> (Crashed, w'))"

definition mcatch :: "('e, 'w, 'a) prog \<Rightarrow> (error \<Rightarrow> ('e, 'w, 'a) prog) \<Rightarrow> ('e, 'w, 'a) prog" where
  "mcatch m h E w = (case m E w of (Thrown e, w') \<Rightarrow> h e E w' | r \<Rightarrow> r)"

text \<open>\<open>try ... finally\<close>: the clean-up runs unless the process died, and its failure wins.\<close>

definition mfinally :: "('e, 'w, 'a) prog \<Rightarrow> ('e, 'w, unit) prog \<Rightarrow> ('e, 'w, 'a) prog" where
  "mfinally m c E w =
     (case m E w of
        (Crashed, w') \<Rightarrow> (Crashed, w')
      | (r, w') \<Rightarrow> (case c E w' of
          (Value _, w'') \<Rightarrow> (r, w'')
        | (Thrown e, w'') \<Rightarrow> (Thrown e, w'')
        | (Crashed, w'') \<Rightarrow> (Crashed, w'')))"

definition lift :: "'a result \<Rightarrow> ('e, 'w, 'a) prog" where
  "lift r = (case r of Inl e \<Rightarrow> throw e | Inr x \<Rightarrow> ret x)"

definition require :: "bool \<Rightarrow> error \<Rightarrow> ('e, 'w, unit) prog" where
  "require b e = (if b then ret () else throw e)"

definition mwhen :: "bool \<Rightarrow> ('e, 'w, unit) prog \<Rightarrow> ('e, 'w, unit) prog" where
  "mwhen b m = (if b then m else ret ())"

fun mfold :: "('a \<Rightarrow> 'b \<Rightarrow> ('e, 'w, 'b) prog) \<Rightarrow> 'a list \<Rightarrow> 'b \<Rightarrow> ('e, 'w, 'b) prog" where
  "mfold f [] b = ret b"
| "mfold f (x # xs) b = mbind (f x b) (mfold f xs)"

definition each :: "('a \<Rightarrow> ('e, 'w, unit) prog) \<Rightarrow> 'a list \<Rightarrow> ('e, 'w, unit) prog" where
  "each f xs = mfold (\<lambda>x _. f x) xs ()"

section \<open>Effects\<close>

text \<open>An effect on the world, with the error that its failure throws.\<close>

definition perform :: "error \<Rightarrow> ('w world_scheme \<Rightarrow> 'w world_scheme) \<Rightarrow> ('e, 'w, unit) prog" where
  "perform e eff E w =
     (let w' = elapse w
      in case enFate E (tick w) of
           Happens \<Rightarrow> (Value (), eff w')
         | FailsBefore \<Rightarrow> (Thrown e, w')
         | FailsAfter \<Rightarrow> (Thrown e, eff w')
         | CrashesBefore \<Rightarrow> (Crashed, w')
         | CrashesAfter \<Rightarrow> (Crashed, eff w'))"

text \<open>A read of the world.\<close>

definition observe :: "('w world_scheme \<Rightarrow> 'a) \<Rightarrow> ('e, 'w, 'a) prog" where
  "observe g E w =
     (let w' = elapse w
      in case enFate E (tick w) of
           Happens \<Rightarrow> (Value (g w'), w')
         | FailsBefore \<Rightarrow> (Thrown node_error, w')
         | FailsAfter \<Rightarrow> (Thrown node_error, w')
         | CrashesBefore \<Rightarrow> (Crashed, w')
         | CrashesAfter \<Rightarrow> (Crashed, w'))"

text \<open>A question to code outside the model: the environment answers or throws.\<close>

definition ask :: "('e env_scheme \<Rightarrow> nat \<Rightarrow> 'a result) \<Rightarrow> ('e, 'w, 'a) prog" where
  "ask q E w =
     (let w' = elapse w
      in if enFate E (tick w) \<in> {CrashesBefore, CrashesAfter} then (Crashed, w')
         else case q E (tick w) of Inl e \<Rightarrow> (Thrown e, w') | Inr x \<Rightarrow> (Value x, w'))"

section \<open>Reasoning\<close>

text \<open>
  \<open>hoare P m Q\<close>: from a world with \<open>P\<close>, whatever the environment does, \<open>m\<close> ends with an
  outcome and a world related by \<open>Q\<close>. \<open>keeps P m\<close> is the case of an invariant.
\<close>

definition hoare :: "'e env_scheme \<Rightarrow> ('w world_scheme \<Rightarrow> bool) \<Rightarrow> ('e, 'w, 'a) prog \<Rightarrow> ('a outcome \<Rightarrow> 'w world_scheme \<Rightarrow> bool) \<Rightarrow> bool" where
  "hoare E P m Q \<longleftrightarrow> (\<forall>w. P w \<longrightarrow> Q (fst (m E w)) (snd (m E w)))"

definition keeps :: "'e env_scheme \<Rightarrow> ('w world_scheme \<Rightarrow> bool) \<Rightarrow> ('e, 'w, 'a) prog \<Rightarrow> bool" where
  "keeps E P m \<longleftrightarrow> hoare E P m (\<lambda>_. P)"

definition post :: "('a \<Rightarrow> 'w \<Rightarrow> bool) \<Rightarrow> (error \<Rightarrow> 'w \<Rightarrow> bool) \<Rightarrow> ('w \<Rightarrow> bool) \<Rightarrow> 'a outcome \<Rightarrow> 'w \<Rightarrow> bool" where
  "post V T C r = (case r of Value x \<Rightarrow> V x | Thrown e \<Rightarrow> T e | Crashed \<Rightarrow> C)"

lemma post_simps [simp]:
  "post V T C (Value x) = V x" "post V T C (Thrown e) = T e" "post V T C Crashed = C"
  by (simp_all add: post_def)

lemma post_same: "post (\<lambda>x. Q (Value x)) (\<lambda>e. Q (Thrown e)) (Q Crashed) = Q"
  by (auto simp: post_def fun_eq_iff split: outcome.split)

lemma hoareI: "(\<And>w. P w \<Longrightarrow> Q (fst (m E w)) (snd (m E w))) \<Longrightarrow> hoare E P m Q"
  by (simp add: hoare_def)

lemma hoareD: "hoare E P m Q \<Longrightarrow> P w \<Longrightarrow> Q (fst (m E w)) (snd (m E w))"
  by (simp add: hoare_def)

lemma hoare_weaken: "hoare E P' m Q' \<Longrightarrow> (\<And>w. P w \<Longrightarrow> P' w) \<Longrightarrow> (\<And>r w. Q' r w \<Longrightarrow> Q r w) \<Longrightarrow> hoare E P m Q"
  by (simp add: hoare_def)

lemma hoare_ret: "(\<And>w. P w \<Longrightarrow> Q (Value x) w) \<Longrightarrow> hoare E P (ret x) Q"
  by (simp add: hoare_def ret_def)

lemma hoare_throw: "(\<And>w. P w \<Longrightarrow> Q (Thrown e) w) \<Longrightarrow> hoare E P (throw e) Q"
  by (simp add: hoare_def throw_def)

lemma hoare_mbind:
  assumes "hoare E P m (post M (\<lambda>e. Q (Thrown e)) (Q Crashed))" and "\<And>x. hoare E (M x) (f x) Q"
  shows "hoare E P (mbind m f) Q"
proof (rule hoareI)
  fix w assume "P w"
  with assms(1) have 1: "post M (\<lambda>e. Q (Thrown e)) (Q Crashed) (fst (m E w)) (snd (m E w))" by (rule hoareD)
  obtain r w' where m: "m E w = (r, w')" by force
  show "Q (fst (mbind m f E w)) (snd (mbind m f E w))"
    using 1 assms(2) by (cases r) (simp_all add: mbind_def m hoare_def)
qed

lemma hoare_mcatch:
  assumes "hoare E P m (post (\<lambda>x. Q (Value x)) H (Q Crashed))" and "\<And>e. hoare E (H e) (h e) Q"
  shows "hoare E P (mcatch m h) Q"
proof (rule hoareI)
  fix w assume "P w"
  with assms(1) have 1: "post (\<lambda>x. Q (Value x)) H (Q Crashed) (fst (m E w)) (snd (m E w))" by (rule hoareD)
  obtain r w' where m: "m E w = (r, w')" by force
  show "Q (fst (mcatch m h E w)) (snd (mcatch m h E w))"
    using 1 assms(2) by (cases r) (simp_all add: mcatch_def m hoare_def)
qed

lemma hoare_mfinally:
  assumes "hoare E P m (post (\<lambda>x. A (Value x)) (\<lambda>e. A (Thrown e)) (Q Crashed))"
    and "\<And>r. hoare E (A r) c (post (\<lambda>_. Q r) (\<lambda>e. Q (Thrown e)) (Q Crashed))"
  shows "hoare E P (mfinally m c) Q"
proof (rule hoareI)
  fix w assume "P w"
  with assms(1) have 1: "post (\<lambda>x. A (Value x)) (\<lambda>e. A (Thrown e)) (Q Crashed) (fst (m E w)) (snd (m E w))" by (rule hoareD)
  obtain r w' where m: "m E w = (r, w')" by force
  have 2: "post (\<lambda>_. Q r) (\<lambda>e. Q (Thrown e)) (Q Crashed) (fst (c E w')) (snd (c E w'))" if "A r w'"
    using assms(2) that by (rule hoareD)
  obtain s v where c: "c E w' = (s, v)" by force
  show "Q (fst (mfinally m c E w)) (snd (mfinally m c E w))"
    using 1 2 by (cases r; cases s) (simp_all add: mfinally_def m c)
qed

lemma hoare_lift: "(\<And>w e. P w \<Longrightarrow> r = Inl e \<Longrightarrow> Q (Thrown e) w) \<Longrightarrow> (\<And>w x. P w \<Longrightarrow> r = Inr x \<Longrightarrow> Q (Value x) w) \<Longrightarrow> hoare E P (lift r) Q"
  by (cases r) (simp_all add: lift_def hoare_def throw_def ret_def)

lemma hoare_require: "(\<And>w. P w \<Longrightarrow> b \<Longrightarrow> Q (Value ()) w) \<Longrightarrow> (\<And>w. P w \<Longrightarrow> \<not> b \<Longrightarrow> Q (Thrown e) w) \<Longrightarrow> hoare E P (require b e) Q"
  by (cases b) (simp_all add: require_def hoare_def throw_def ret_def)

lemma hoare_mwhen: "(b \<Longrightarrow> hoare E P m Q) \<Longrightarrow> (\<And>w. \<not> b \<Longrightarrow> P w \<Longrightarrow> Q (Value ()) w) \<Longrightarrow> hoare E P (mwhen b m) Q"
  by (cases b) (simp_all add: mwhen_def hoare_def ret_def)

lemma hoare_if: "(b \<Longrightarrow> hoare E P m Q) \<Longrightarrow> (\<not> b \<Longrightarrow> hoare E P n Q) \<Longrightarrow> hoare E P (if b then m else n) Q"
  by simp

lemma hoare_perform:
  assumes "\<And>w. P w \<Longrightarrow> Q (Value ()) (eff (elapse w))"
    and "\<And>w. P w \<Longrightarrow> Q (Thrown e) (elapse w)" and "\<And>w. P w \<Longrightarrow> Q (Thrown e) (eff (elapse w))"
    and "\<And>w. P w \<Longrightarrow> Q Crashed (elapse w)" and "\<And>w. P w \<Longrightarrow> Q Crashed (eff (elapse w))"
  shows "hoare E P (perform e eff) Q"
  using assms by (auto simp: hoare_def perform_def Let_def split: fate.splits)

lemma hoare_observe:
  assumes "\<And>w. P w \<Longrightarrow> Q (Value (g (elapse w))) (elapse w)"
    and "\<And>w. P w \<Longrightarrow> Q (Thrown node_error) (elapse w)" and "\<And>w. P w \<Longrightarrow> Q Crashed (elapse w)"
  shows "hoare E P (observe g) Q"
  using assms by (auto simp: hoare_def observe_def Let_def split: fate.splits)

lemma hoare_ask:
  assumes "\<And>w x. P w \<Longrightarrow> q E (tick w) = Inr x \<Longrightarrow> Q (Value x) (elapse w)" and "\<And>w e. P w \<Longrightarrow> Q (Thrown e) (elapse w)"
    and "\<And>w. P w \<Longrightarrow> Q Crashed (elapse w)"
  shows "hoare E P (ask q) Q"
  using assms by (auto simp: hoare_def ask_def Let_def split: sum.splits)

lemma hoare_mfold:
  assumes "\<And>x ys b. set (x # ys) \<subseteq> set xs \<Longrightarrow> hoare E (I (x # ys) b) (f x b) (post (I ys) (\<lambda>e. Q (Thrown e)) (Q Crashed))"
    and "\<And>b w. I [] b w \<Longrightarrow> Q (Value b) w"
  shows "hoare E (I xs b) (mfold f xs b) Q"
  using assms(1)
proof (induction xs arbitrary: b)
  case Nil
  then show ?case using assms(2) by (auto intro: hoare_ret)
next
  case (Cons x xs)
  have "hoare E (I (x # xs) b) (f x b) (post (I xs) (\<lambda>e. Q (Thrown e)) (Q Crashed))" by (rule Cons.prems) simp
  moreover have "hoare E (I xs b') (mfold f xs b') Q" for b'
    by (rule Cons.IH) (use Cons.prems in \<open>auto simp: subset_iff\<close>)
  ultimately show ?case unfolding mfold.simps by (rule hoare_mbind)
qed

section \<open>Invariants\<close>

lemma keepsI: "hoare E P m (\<lambda>_. P) \<Longrightarrow> keeps E P m"
  by (simp add: keeps_def)

lemma keepsD: "keeps E P m \<Longrightarrow> P w \<Longrightarrow> P (snd (m E w))"
  by (simp add: keeps_def hoare_def)

lemma keeps_hoare: "keeps E P m \<Longrightarrow> hoare E P m (post (\<lambda>_. P) (\<lambda>_. P) P)"
  by (simp add: keeps_def hoare_def post_def split: outcome.splits)

lemma keeps_ret [intro!]: "keeps E P (ret x)" and keeps_throw [intro!]: "keeps E P (throw e)"
  and keeps_lift [intro!]: "keeps E P (lift r)" and keeps_require [intro!]: "keeps E P (require b e)"
  by (auto simp: keeps_def intro: hoare_ret hoare_throw hoare_lift hoare_require)

lemma keeps_mbind [intro!]: "keeps E P m \<Longrightarrow> (\<And>x. keeps E P (f x)) \<Longrightarrow> keeps E P (mbind m f)"
  unfolding keeps_def by (rule hoare_mbind[where M = "\<lambda>_. P"]) (auto simp: hoare_def post_def split: outcome.splits)

lemma keeps_mcatch [intro!]: "keeps E P m \<Longrightarrow> (\<And>e. keeps E P (h e)) \<Longrightarrow> keeps E P (mcatch m h)"
  unfolding keeps_def by (rule hoare_mcatch[where H = "\<lambda>_. P"]) (auto simp: hoare_def post_def split: outcome.splits)

lemma keeps_mfinally [intro!]: "keeps E P m \<Longrightarrow> keeps E P c \<Longrightarrow> keeps E P (mfinally m c)"
  unfolding keeps_def by (rule hoare_mfinally[where A = "\<lambda>_. P"]) (auto simp: hoare_def post_def split: outcome.splits)

lemma keeps_mwhen [intro!]: "(b \<Longrightarrow> keeps E P m) \<Longrightarrow> keeps E P (mwhen b m)"
  by (simp add: mwhen_def keeps_ret)

lemma keeps_mfold: "(\<And>x b. x \<in> set xs \<Longrightarrow> keeps E P (f x b)) \<Longrightarrow> keeps E P (mfold f xs b)"
  by (induction xs arbitrary: b) auto

lemma keeps_each: "(\<And>x. x \<in> set xs \<Longrightarrow> keeps E P (f x)) \<Longrightarrow> keeps E P (each f xs)"
  by (simp add: each_def keeps_mfold)

text \<open>An invariant that does not look at the clock is kept by reads, questions and its own effects.\<close>

definition untimed :: "('w world_scheme \<Rightarrow> bool) \<Rightarrow> bool" where
  "untimed P \<longleftrightarrow> (\<forall>w. P w \<longrightarrow> P (elapse w))"

lemma keeps_observe: "untimed P \<Longrightarrow> keeps E P (observe g)"
  by (auto simp: keeps_def untimed_def intro: hoare_observe)

lemma keeps_ask: "untimed P \<Longrightarrow> keeps E P (ask q)"
  by (auto simp: keeps_def untimed_def intro: hoare_ask)

lemma keeps_perform: "untimed P \<Longrightarrow> (\<And>w. P w \<Longrightarrow> P (eff w)) \<Longrightarrow> keeps E P (perform e eff)"
  by (auto simp: keeps_def untimed_def intro: hoare_perform)
section \<open>Weakest preconditions\<close>

text \<open>
  For straight code the precondition is computed from the postcondition: \<open>rule hoare_pre\<close>, then
  \<open>(rule wp_rules)+\<close>, leaves one goal without programs.
\<close>

named_theorems wp_rules \<open>triples whose precondition is the weakest one\<close>

lemma hoare_pre: "hoare E P' m Q \<Longrightarrow> (\<And>w. P w \<Longrightarrow> P' w) \<Longrightarrow> hoare E P m Q"
  by (simp add: hoare_def)

lemma wp_ret [wp_rules]: "hoare E (Q (Value x)) (ret x) Q"
  by (rule hoare_ret)

lemma wp_throw [wp_rules]: "hoare E (Q (Thrown e)) (throw e) Q"
  by (rule hoare_throw)

lemma wp_mbind [wp_rules]:
  "(\<And>x. hoare E (M x) (f x) Q) \<Longrightarrow> hoare E P m (post M (\<lambda>e. Q (Thrown e)) (Q Crashed)) \<Longrightarrow> hoare E P (mbind m f) Q"
  by (rule hoare_mbind)

lemma wp_mcatch [wp_rules]:
  "(\<And>e. hoare E (H e) (h e) Q) \<Longrightarrow> hoare E P m (post (\<lambda>x. Q (Value x)) H (Q Crashed)) \<Longrightarrow> hoare E P (mcatch m h) Q"
  by (rule hoare_mcatch)

lemma wp_lift [wp_rules]: "hoare E (\<lambda>w. case r of Inl e \<Rightarrow> Q (Thrown e) w | Inr x \<Rightarrow> Q (Value x) w) (lift r) Q"
  by (rule hoare_lift) auto

lemma wp_require [wp_rules]: "hoare E (\<lambda>w. if b then Q (Value ()) w else Q (Thrown e) w) (require b e) Q"
  by (rule hoare_require) auto

lemma wp_mwhen [wp_rules]: "hoare E P m Q \<Longrightarrow> hoare E (\<lambda>w. if b then P w else Q (Value ()) w) (mwhen b m) Q"
  by (cases b) (auto simp: mwhen_def intro: hoare_ret)

lemma wp_if [wp_rules]: "hoare E P m Q \<Longrightarrow> hoare E P' n Q \<Longrightarrow> hoare E (\<lambda>w. if b then P w else P' w) (if b then m else n) Q"
  by simp

lemma wp_option [wp_rules]:
  "hoare E P m Q \<Longrightarrow> (\<And>x. hoare E (P' x) (n x) Q)
   \<Longrightarrow> hoare E (\<lambda>w. case v of None \<Rightarrow> P w | Some x \<Rightarrow> P' x w) (case v of None \<Rightarrow> m | Some x \<Rightarrow> n x) Q"
  by (cases v) simp_all

lemma wp_prod [wp_rules]:
  "(\<And>x y. hoare E (P x y) (m x y) Q) \<Longrightarrow> hoare E (\<lambda>w. case v of (x, y) \<Rightarrow> P x y w) (case v of (x, y) \<Rightarrow> m x y) Q"
  by (cases v) simp

lemma wp_Let [wp_rules]: "hoare E P (m v) Q \<Longrightarrow> hoare E P (let x = v in m x) Q"
  by simp

lemma wp_perform [wp_rules]:
  "hoare E (\<lambda>w. Q (Value ()) (eff (elapse w)) \<and> Q (Thrown e) (elapse w) \<and> Q (Thrown e) (eff (elapse w)) \<and>
     Q Crashed (elapse w) \<and> Q Crashed (eff (elapse w))) (perform e eff) Q"
  by (rule hoare_perform) auto

lemma wp_observe [wp_rules]:
  "hoare E (\<lambda>w. Q (Value (g (elapse w))) (elapse w) \<and> Q (Thrown node_error) (elapse w) \<and> Q Crashed (elapse w)) (observe g) Q"
  by (rule hoare_observe) auto

lemma wp_ask [wp_rules]:
  "hoare E (\<lambda>w. (\<forall>x. q E (tick w) = Inr x \<longrightarrow> Q (Value x) (elapse w)) \<and>
     (\<forall>e. Q (Thrown e) (elapse w)) \<and> Q Crashed (elapse w)) (ask q) Q"
  by (rule hoare_ask) auto

end
