(* ===== verification/CandidateManager.thy ===== *)
theory CandidateManager
  imports Effects Candidates Bridge JsonText "HOL-Library.AList"
begin

text \<open>
  The worktrees of the two candidates of a backtrack: \<open>src/src/workspace/candidate-worktree-format.ts\<close>,
  \<open>candidate-worktree-cleanup.ts\<close>, \<open>candidate-worktree-manager.ts\<close> and the identifier checks of
  \<open>format.ts\<close>. The world holds the manifests by request, as the text of their files, the
  workspaces that exist, and what was done to workspaces, newest first. What git answers is
  asked of the environment. A lock is taken and released as two effects that may fail.
\<close>

section \<open>Manifests\<close>

datatype candidateLifecycle =
    CandidateActive | CandidateCompleted | CandidateLoser | CandidateAbandoned | CandidateCleanupFailed
  | CandidateWinner bool

datatype candidateRegistration = LinkedWorktree | UnbornRepository

record candidateWorktree =
  cwIndex :: candidateIndex
  cwWorkspacePath :: string
  cwRegistration :: candidateRegistration
  cwStatus :: candidateLifecycle
  cwPinned :: bool
  cwLeaseExpiresAtMs :: int
  cwRemovedAtMs :: "int option"

record candidatePair =
  cpRequestId :: string
  cpSnapshotId :: string
  cpSourceRepositoryRoot :: string
  cpBaselineHead :: "string option"
  cpSourceThreadId :: string
  cpCheckpointId :: string
  cpRetentionOwnerIds :: "string \<times> string"
  cpCreatedAtMs :: int
  cpCandidates :: "candidateWorktree \<times> candidateWorktree"

fun pick :: "candidateIndex \<Rightarrow> 'a \<times> 'a \<Rightarrow> 'a" where
  "pick Candidate0 p = fst p"
| "pick Candidate1 p = snd p"

fun put_at :: "candidateIndex \<Rightarrow> 'a \<Rightarrow> 'a \<times> 'a \<Rightarrow> 'a \<times> 'a" where
  "put_at Candidate0 x p = (x, snd p)"
| "put_at Candidate1 x p = (fst p, x)"

definition LEXICAL_ID :: "string \<Rightarrow> bool" where
  "LEXICAL_ID = lexical is_alnum_char (\<lambda>c. is_alnum_char c \<or> c \<in> {CHR ''.'', CHR ''_'', CHR ''-''}) 127"

definition MAX_MANIFEST_BYTES :: nat where "MAX_MANIFEST_BYTES = 16 * 1024"

definition invalidManifest :: "'a result" where "invalidManifest = Inl (WorktreeManagerError InvalidManifest)"

definition safeTime :: "int \<Rightarrow> bool" where "safeTime t \<longleftrightarrow> 0 \<le> t \<and> t \<le> max_safe_integer"

definition isAbsolute :: "string \<Rightarrow> bool" where "isAbsolute p \<longleftrightarrow> p \<noteq> [] \<and> hd p = CHR ''/''"

text \<open>\<open>join(root, name)\<close> of a normalised directory and a name without separators.\<close>

definition path_join :: "string \<Rightarrow> string \<Rightarrow> string" where
  "path_join root name = (if root \<noteq> [] \<and> last root = CHR ''/'' then root @ name else root @ CHR ''/'' # name)"

definition candidate_path :: "string \<Rightarrow> string \<Rightarrow> candidateIndex \<Rightarrow> string" where
  "candidate_path root request i = path_join root (request @ CHR ''-'' # int_text (index_number i))"

record candidatePairInput =
  piRequest :: string
  piSnapshot :: string
  piSourceRoot :: string
  piBaseline :: "string option"
  piSourceThread :: string
  piCheckpoint :: string
  piOwners :: "string \<times> string"
  piCreated :: int
  piExpires :: int
  piWorktreesRoot :: string

definition createCandidateManifest :: "candidatePairInput \<Rightarrow> candidatePair" where
  "createCandidateManifest i =
     (let registration = (case piBaseline i of None \<Rightarrow> UnbornRepository | Some _ \<Rightarrow> LinkedWorktree);
          candidate = (\<lambda>k. \<lparr>cwIndex = k, cwWorkspacePath = candidate_path (piWorktreesRoot i) (piRequest i) k,
            cwRegistration = registration, cwStatus = CandidateActive, cwPinned = True,
            cwLeaseExpiresAtMs = piExpires i, cwRemovedAtMs = None\<rparr>)
      in \<lparr>cpRequestId = piRequest i, cpSnapshotId = piSnapshot i, cpSourceRepositoryRoot = piSourceRoot i,
          cpBaselineHead = piBaseline i, cpSourceThreadId = piSourceThread i, cpCheckpointId = piCheckpoint i,
          cpRetentionOwnerIds = piOwners i, cpCreatedAtMs = piCreated i,
          cpCandidates = (candidate Candidate0, candidate Candidate1)\<rparr>)"

text \<open>The objects that \<open>serializeCandidateManifest\<close> prints.\<close>

definition lifecycle_object :: "candidateLifecycle \<Rightarrow> js" where
  "lifecycle_object s =
     (let kind = (\<lambda>k. [(''protocolVersion'', JNum (NInt 1)), (''kind'', JStr k)])
      in JObj (case s of
           CandidateActive \<Rightarrow> kind ''active'' | CandidateCompleted \<Rightarrow> kind ''completed''
         | CandidateLoser \<Rightarrow> kind ''loser'' | CandidateAbandoned \<Rightarrow> kind ''abandoned''
         | CandidateCleanupFailed \<Rightarrow> kind ''cleanup_failed''
         | CandidateWinner finalized \<Rightarrow> kind ''winner'' @ [(''finalized'', JBool finalized)]))"

definition time_or_null :: "int option \<Rightarrow> js" where
  "time_or_null t = (case t of None \<Rightarrow> JNull | Some i \<Rightarrow> JNum (NInt i))"

definition worktree_candidate_object :: "candidateWorktree \<Rightarrow> js" where
  "worktree_candidate_object c = JObj
     [(''protocolVersion'', JNum (NInt 1)), (''candidateIndex'', JNum (NInt (index_number (cwIndex c)))),
      (''workspacePath'', JStr (cwWorkspacePath c)),
      (''registration'', JStr (case cwRegistration c of LinkedWorktree \<Rightarrow> ''linked-worktree'' | UnbornRepository \<Rightarrow> ''unborn-repository'')),
      (''status'', lifecycle_object (cwStatus c)), (''pinned'', JBool (cwPinned c)),
      (''lease'', JObj [(''protocolVersion'', JNum (NInt 1)), (''expiresAtMs'', JNum (NInt (cwLeaseExpiresAtMs c)))]),
      (''removedAtMs'', time_or_null (cwRemovedAtMs c))]"

definition pair_object :: "candidatePair \<Rightarrow> js" where
  "pair_object p = JObj
     [(''protocolVersion'', JNum (NInt 1)), (''requestId'', JStr (cpRequestId p)), (''snapshotId'', JStr (cpSnapshotId p)),
      (''sourceRepositoryRoot'', JStr (cpSourceRepositoryRoot p)),
      (''baselineHead'', case cpBaselineHead p of None \<Rightarrow> JNull | Some h \<Rightarrow> JStr h),
      (''sourceThreadId'', JStr (cpSourceThreadId p)), (''checkpointId'', JStr (cpCheckpointId p)),
      (''retentionOwnerIds'', JArr [JStr (fst (cpRetentionOwnerIds p)), JStr (snd (cpRetentionOwnerIds p))]),
      (''createdAtMs'', JNum (NInt (cpCreatedAtMs p))),
      (''candidates'', JArr [worktree_candidate_object (fst (cpCandidates p)), worktree_candidate_object (snd (cpCandidates p))])]"

definition serializeCandidateManifest :: "candidatePair \<Rightarrow> string" where
  "serializeCandidateManifest p = plain_text (pair_object p) @ [CHR 0x0A]"

text \<open>Reading: every refusal is the same error, so the order of the checks does not matter.\<close>

definition text_member :: "(string \<Rightarrow> bool) \<Rightarrow> js \<Rightarrow> string result" where
  "text_member ok v = (case v of JStr s \<Rightarrow> if ok s then Inr s else invalidManifest | _ \<Rightarrow> invalidManifest)"

definition time_member :: "js \<Rightarrow> int result" where
  "time_member v = (case v of JNum (NInt i) \<Rightarrow> if safeTime i then Inr i else invalidManifest | _ \<Rightarrow> invalidManifest)"

definition bool_member :: "js \<Rightarrow> bool result" where
  "bool_member v = (case v of JBool b \<Rightarrow> Inr b | _ \<Rightarrow> invalidManifest)"

definition nullable :: "(js \<Rightarrow> 'a result) \<Rightarrow> js \<Rightarrow> 'a option result" where
  "nullable f v = (if v = JNull then Inr None else sbind (f v) (\<lambda>x. Inr (Some x)))"

definition versioned :: "js \<Rightarrow> unit result" where
  "versioned v = (if is_record v \<and> jget v ''protocolVersion'' = JNum (NInt 1) then Inr () else invalidManifest)"

definition parseLifecycle :: "js \<Rightarrow> candidateLifecycle result" where
  "parseLifecycle v = sbind (versioned v) (\<lambda>_.
     if jget v ''kind'' = JStr ''winner'' then sbind (bool_member (jget v ''finalized'')) (\<lambda>b. Inr (CandidateWinner b))
     else if jget v ''kind'' = JStr ''active'' then Inr CandidateActive
     else if jget v ''kind'' = JStr ''completed'' then Inr CandidateCompleted
     else if jget v ''kind'' = JStr ''loser'' then Inr CandidateLoser
     else if jget v ''kind'' = JStr ''abandoned'' then Inr CandidateAbandoned
     else if jget v ''kind'' = JStr ''cleanup_failed'' then Inr CandidateCleanupFailed
     else invalidManifest)"

definition parseRegistration :: "js \<Rightarrow> candidateRegistration result" where
  "parseRegistration v =
     (if v = JStr ''linked-worktree'' then Inr LinkedWorktree
      else if v = JStr ''unborn-repository'' then Inr UnbornRepository else invalidManifest)"

definition parseCandidate :: "js \<Rightarrow> candidateIndex \<Rightarrow> candidateWorktree result" where
  "parseCandidate v i =
     sbind (versioned v) (\<lambda>_.
     if jget v ''candidateIndex'' \<noteq> JNum (NInt (index_number i)) then invalidManifest else
     sbind (text_member isAbsolute (jget v ''workspacePath'')) (\<lambda>path.
     sbind (parseRegistration (jget v ''registration'')) (\<lambda>registration.
     sbind (bool_member (jget v ''pinned'')) (\<lambda>pinned.
     sbind (versioned (jget v ''lease'')) (\<lambda>_.
     sbind (time_member (jget (jget v ''lease'') ''expiresAtMs'')) (\<lambda>expires.
     sbind (nullable time_member (jget v ''removedAtMs'')) (\<lambda>removed.
     sbind (parseLifecycle (jget v ''status'')) (\<lambda>status.
     Inr \<lparr>cwIndex = i, cwWorkspacePath = path, cwRegistration = registration, cwStatus = status, cwPinned = pinned,
          cwLeaseExpiresAtMs = expires, cwRemovedAtMs = removed\<rparr>))))))))"

definition parseOwners :: "js \<Rightarrow> (string \<times> string) result" where
  "parseOwners v =
     (case v of
        JArr [a, b] \<Rightarrow>
          sbind (text_member LEXICAL_ID a) (\<lambda>x. sbind (text_member LEXICAL_ID b) (\<lambda>y.
          if x = y then invalidManifest else Inr (x, y)))
      | _ \<Rightarrow> invalidManifest)"

definition parse_candidates :: "js \<Rightarrow> (candidateWorktree \<times> candidateWorktree) result" where
  "parse_candidates v =
     (case v of
        JArr [a, b] \<Rightarrow> sbind (parseCandidate a Candidate0) (\<lambda>x. sbind (parseCandidate b Candidate1) (\<lambda>y. Inr (x, y)))
      | _ \<Rightarrow> invalidManifest)"

definition parse_pair :: "js \<Rightarrow> candidatePair result" where
  "parse_pair v =
     sbind (versioned v) (\<lambda>_.
     sbind (text_member LEXICAL_ID (jget v ''requestId'')) (\<lambda>request.
     sbind (text_member SHA256 (jget v ''snapshotId'')) (\<lambda>snapshot.
     sbind (text_member isAbsolute (jget v ''sourceRepositoryRoot'')) (\<lambda>root.
     sbind (nullable (text_member GIT_HEAD) (jget v ''baselineHead'')) (\<lambda>head.
     sbind (text_member LEXICAL_ID (jget v ''sourceThreadId'')) (\<lambda>thread.
     sbind (text_member LEXICAL_ID (jget v ''checkpointId'')) (\<lambda>checkpoint.
     sbind (parseOwners (jget v ''retentionOwnerIds'')) (\<lambda>owners.
     sbind (time_member (jget v ''createdAtMs'')) (\<lambda>created.
     sbind (parse_candidates (jget v ''candidates'')) (\<lambda>candidates.
     Inr \<lparr>cpRequestId = request, cpSnapshotId = snapshot, cpSourceRepositoryRoot = root, cpBaselineHead = head,
          cpSourceThreadId = thread, cpCheckpointId = checkpoint, cpRetentionOwnerIds = owners,
          cpCreatedAtMs = created, cpCandidates = candidates\<rparr>))))))))))"

definition parseCandidateManifest :: "builtins \<Rightarrow> string \<Rightarrow> candidatePair result" where
  "parseCandidateManifest B t =
     (if MAX_MANIFEST_BYTES < utf8_bytes t then invalidManifest
      else case json_parse B t of None \<Rightarrow> invalidManifest | Some v \<Rightarrow> parse_pair v)"

section \<open>The manager\<close>

datatype workspaceEvent =
    WorkspaceCreated string candidateIndex
  | WorkspaceDiscarded string candidateIndex
  | WorkspaceRemoved string candidateIndex

record managerEnv = env +
  meClock :: "nat \<Rightarrow> jnum"
  meAnswer :: "nat \<Rightarrow> bool result"
  meText :: "nat \<Rightarrow> string result"
  meCall :: "nat \<Rightarrow> unit result"
  meSource :: "nat \<Rightarrow> (string \<times> string option \<times> bool) result"

record managerWorld = world +
  mwManifests :: "(string \<times> string) list"
  mwPaths :: "string list"
  mwEvents :: "workspaceEvent list"

record candidateManager =
  cmWorktreesRoot :: string
  cmTtlMs :: int

definition DEFAULT_TTL_MS :: int where "DEFAULT_TTL_MS = 24 * 60 * 60 * 1000"

definition worktree_error :: "worktree_code \<Rightarrow> error" where "worktree_error c = WorktreeManagerError c"

definition open_manager :: "string \<Rightarrow> jnum option \<Rightarrow> candidateManager result" where
  "open_manager root ttl =
     (case ttl of
        None \<Rightarrow> Inr \<lparr>cmWorktreesRoot = path_join root ''worktrees'', cmTtlMs = DEFAULT_TTL_MS\<rparr>
      | Some (NInt i) \<Rightarrow> if 0 < i \<and> i \<le> max_safe_integer
          then Inr \<lparr>cmWorktreesRoot = path_join root ''worktrees'', cmTtlMs = i\<rparr> else Inl (worktree_error InvalidInput)
      | Some _ \<Rightarrow> Inl (worktree_error InvalidInput))"

definition now_ms :: "('e managerEnv_ext, 'w, int) prog" where
  "now_ms = ask (\<lambda>E n. case meClock E n of
     NInt i \<Rightarrow> if safeTime i then Inr i else Inl (worktree_error InvalidInput)
   | _ \<Rightarrow> Inl (worktree_error InvalidInput))"

definition locked :: "('e, 'w, 'a) prog \<Rightarrow> ('e, 'w, 'a) prog" where
  "locked m = mbind (perform node_error id) (\<lambda>_. mfinally m (perform node_error id))"

definition validateLexicalId :: "string \<Rightarrow> ('e, 'w, unit) prog" where
  "validateLexicalId s = require (LEXICAL_ID s) (worktree_error InvalidInput)"

definition path_exists :: "string \<Rightarrow> ('e, 'w managerWorld_ext, bool) prog" where
  "path_exists p = observe (\<lambda>w. p \<in> set (mwPaths w))"

definition isCandidateRegistered :: "('e managerEnv_ext, 'w, bool) prog" where
  "isCandidateRegistered = ask meAnswer"

definition read_manifest :: "builtins \<Rightarrow> string \<Rightarrow> ('e, 'w managerWorld_ext, candidatePair option) prog" where
  "read_manifest B request =
     mbind (observe (\<lambda>w. map_of (mwManifests w) request)) (\<lambda>file.
     case file of None \<Rightarrow> ret None | Some t \<Rightarrow> mbind (lift (parseCandidateManifest B t)) (\<lambda>p. ret (Some p)))"

definition write_manifest :: "candidatePair \<Rightarrow> ('e, 'w managerWorld_ext, unit) prog" where
  "write_manifest p = perform node_error
     (\<lambda>w. w\<lparr>mwManifests := AList.update (cpRequestId p) (serializeCandidateManifest p) (mwManifests w)\<rparr>)"

definition getPair :: "builtins \<Rightarrow> string \<Rightarrow> ('e, 'w managerWorld_ext, candidatePair option) prog" where
  "getPair B request = mbind (validateLexicalId request) (\<lambda>_. read_manifest B request)"

definition requiredPair :: "builtins \<Rightarrow> string \<Rightarrow> ('e, 'w managerWorld_ext, candidatePair) prog" where
  "requiredPair B request =
     mbind (getPair B request) (\<lambda>p. case p of None \<Rightarrow> throw (worktree_error InvalidManifest) | Some pair \<Rightarrow> ret pair)"

definition replaced :: "candidatePair \<Rightarrow> candidateIndex \<Rightarrow> candidateWorktree \<Rightarrow> ('e, 'w managerWorld_ext, candidatePair) prog" where
  "replaced p i c = (let updated = p\<lparr>cpCandidates := put_at i c (cpCandidates p)\<rparr>
     in mbind (write_manifest updated) (\<lambda>_. ret updated))"

definition update_candidate ::
    "builtins \<Rightarrow> string \<Rightarrow> candidateIndex \<Rightarrow> (candidateWorktree \<Rightarrow> ('e, 'w managerWorld_ext, candidateWorktree) prog)
     \<Rightarrow> ('e, 'w managerWorld_ext, unit) prog" where
  "update_candidate B request i f =
     locked (mbind (requiredPair B request) (\<lambda>p.
       mbind (f (pick i (cpCandidates p))) (\<lambda>c. mbind (replaced p i c) (\<lambda>_. ret ()))))"

definition setStatus :: "builtins \<Rightarrow> string \<Rightarrow> candidateIndex \<Rightarrow> candidateLifecycle \<Rightarrow> ('e, 'w managerWorld_ext, unit) prog" where
  "setStatus B request i status = update_candidate B request i (\<lambda>c. ret (c\<lparr>cwStatus := status\<rparr>))"

definition setPinned :: "builtins \<Rightarrow> string \<Rightarrow> candidateIndex \<Rightarrow> bool \<Rightarrow> ('e, 'w managerWorld_ext, unit) prog" where
  "setPinned B request i pinned = update_candidate B request i (\<lambda>c. ret (c\<lparr>cwPinned := pinned\<rparr>))"

definition renewLease ::
    "builtins \<Rightarrow> candidateManager \<Rightarrow> string \<Rightarrow> candidateIndex \<Rightarrow> ('e managerEnv_ext, 'w managerWorld_ext, unit) prog" where
  "renewLease B M request i = update_candidate B request i (\<lambda>c.
     mbind now_ms (\<lambda>t. ret (c\<lparr>cwLeaseExpiresAtMs := t + cmTtlMs M\<rparr>)))"

definition getPairForPromotion ::
    "builtins \<Rightarrow> candidateManager \<Rightarrow> string \<Rightarrow> candidateIndex \<Rightarrow> ('e managerEnv_ext, 'w managerWorld_ext, candidatePair) prog" where
  "getPairForPromotion B M request i =
     mbind (requiredPair B request) (\<lambda>p.
       let c = pick i (cpCandidates p); expected = candidate_path (cmWorktreesRoot M) request i
       in if cwWorkspacePath c \<noteq> expected \<or> cwRemovedAtMs c \<noteq> None then throw (worktree_error CandidateConflict)
          else mbind (ask meText) (\<lambda>real.
            if real \<noteq> expected then throw (worktree_error CandidateConflict)
            else mbind isCandidateRegistered (\<lambda>registered.
              if registered then ret p else throw (worktree_error CandidateConflict))))"
section \<open>Creating a pair\<close>

record createPairInput =
  ciRequestId :: string
  ciSourceThreadId :: string
  ciCheckpointId :: string
  ciRetentionOwnerIds :: "string \<times> string"
  ciSnapshotId :: string
  ciBaselineHead :: "string option"
  ciDirty :: bool

definition CANDIDATES :: "candidateIndex list" where "CANDIDATES = [Candidate0, Candidate1]"

definition add_path :: "string \<Rightarrow> workspaceEvent \<Rightarrow> 'w managerWorld_scheme \<Rightarrow> 'w managerWorld_scheme" where
  "add_path p e w = w\<lparr>mwPaths := p # mwPaths w, mwEvents := e # mwEvents w\<rparr>"

definition remove_path :: "string \<Rightarrow> workspaceEvent \<Rightarrow> 'w managerWorld_scheme \<Rightarrow> 'w managerWorld_scheme" where
  "remove_path p e w = w\<lparr>mwPaths := removeAll p (mwPaths w), mwEvents := e # mwEvents w\<rparr>"

text \<open>\<open>git worktree add\<close> or \<open>mkdir\<close>, then \<open>chmod\<close>, the snapshot and \<open>git init\<close>, which may throw.\<close>

definition createCandidate :: "candidatePair \<Rightarrow> candidateWorktree \<Rightarrow> ('e managerEnv_ext, 'w managerWorld_ext, unit) prog" where
  "createCandidate p c =
     (let created = add_path (cwWorkspacePath c) (WorkspaceCreated (cpRequestId p) (cwIndex c))
      in case cpBaselineHead p of
           None \<Rightarrow> mbind (perform node_error created) (\<lambda>_. mbind (ask meCall) (\<lambda>_. ask meCall))
         | Some _ \<Rightarrow> mbind (perform (worktree_error GitFailure) created) (\<lambda>_. mbind (perform node_error id) (\<lambda>_. ask meCall)))"

definition removal_error :: "candidateWorktree \<Rightarrow> error" where
  "removal_error c = (case cwRegistration c of LinkedWorktree \<Rightarrow> worktree_error GitFailure | UnbornRepository \<Rightarrow> node_error)"

definition rollback :: "candidatePair \<Rightarrow> ('e, 'w managerWorld_ext, unit) prog" where
  "rollback p = each (\<lambda>i. let c = pick i (cpCandidates p) in
     mbind (path_exists (cwWorkspacePath c)) (\<lambda>there. mwhen there
       (perform (removal_error c) (remove_path (cwWorkspacePath c) (WorkspaceDiscarded (cpRequestId p) i))))) (rev CANDIDATES)"

fun all_present :: "candidateManager \<Rightarrow> candidatePair \<Rightarrow> candidateIndex list \<Rightarrow> ('e managerEnv_ext, 'w managerWorld_ext, bool) prog" where
  "all_present M p [] = ret True"
| "all_present M p (i # is) =
     (let c = pick i (cpCandidates p)
      in if cwWorkspacePath c \<noteq> candidate_path (cmWorktreesRoot M) (cpRequestId p) i \<or> cwRemovedAtMs c \<noteq> None then ret False
         else mbind (path_exists (cwWorkspacePath c)) (\<lambda>there.
           if \<not> there then ret False
           else mbind isCandidateRegistered (\<lambda>registered. if registered then all_present M p is else ret False)))"

definition matches :: "candidateManager \<Rightarrow> candidatePair \<Rightarrow> createPairInput \<Rightarrow> string \<Rightarrow> ('e managerEnv_ext, 'w managerWorld_ext, bool) prog" where
  "matches M p i root =
     (if cpSnapshotId p = ciSnapshotId i \<and> cpBaselineHead p = ciBaselineHead i \<and> cpSourceRepositoryRoot p = root \<and>
         cpSourceThreadId p = ciSourceThreadId i \<and> cpCheckpointId p = ciCheckpointId i \<and>
         cpRetentionOwnerIds p = ciRetentionOwnerIds i
      then all_present M p CANDIDATES else ret False)"

definition new_pair :: "candidateManager \<Rightarrow> createPairInput \<Rightarrow> string \<Rightarrow> int \<Rightarrow> candidatePair" where
  "new_pair M i root t = createCandidateManifest
     \<lparr>piRequest = ciRequestId i, piSnapshot = ciSnapshotId i, piSourceRoot = root, piBaseline = ciBaselineHead i,
      piSourceThread = ciSourceThreadId i, piCheckpoint = ciCheckpointId i, piOwners = ciRetentionOwnerIds i,
      piCreated = t, piExpires = t + cmTtlMs M, piWorktreesRoot = cmWorktreesRoot M\<rparr>"

definition create_workspaces :: "candidatePair \<Rightarrow> ('e managerEnv_ext, 'w managerWorld_ext, candidatePair) prog" where
  "create_workspaces p =
     mcatch
       (mbind (each (\<lambda>i. createCandidate p (pick i (cpCandidates p))) CANDIDATES) (\<lambda>_.
        mbind (write_manifest p) (\<lambda>_. ret p)))
       (\<lambda>e. mbind (rollback p) (\<lambda>_. throw e))"

definition paths_free :: "candidatePair \<Rightarrow> ('e, 'w managerWorld_ext, unit) prog" where
  "paths_free p = each (\<lambda>k. mbind (path_exists (cwWorkspacePath (pick k (cpCandidates p)))) (\<lambda>there.
     if there then throw (worktree_error CandidateConflict) else ret ())) CANDIDATES"

definition create_new ::
    "candidateManager \<Rightarrow> createPairInput \<Rightarrow> string \<Rightarrow> ('e managerEnv_ext, 'w managerWorld_ext, candidatePair) prog" where
  "create_new M i root = mbind now_ms (\<lambda>t.
     mbind (paths_free (new_pair M i root t)) (\<lambda>_. create_workspaces (new_pair M i root t)))"

definition createPairLocked ::
    "builtins \<Rightarrow> candidateManager \<Rightarrow> createPairInput \<Rightarrow> ('e managerEnv_ext, 'w managerWorld_ext, candidatePair) prog" where
  "createPairLocked B M i =
     mbind (ask meText) (\<lambda>root.
     mbind (ask meSource) (\<lambda>current.
     if current \<noteq> (ciSnapshotId i, ciBaselineHead i, ciDirty i) then throw (worktree_error CandidateConflict)
     else mbind (read_manifest B (ciRequestId i)) (\<lambda>existing.
       case existing of
         Some p \<Rightarrow> mbind (matches M p i root) (\<lambda>same. if same then ret p else throw (worktree_error CandidateConflict))
       | None \<Rightarrow> create_new M i root)))"

definition createPair ::
    "builtins \<Rightarrow> candidateManager \<Rightarrow> createPairInput \<Rightarrow> ('e managerEnv_ext, 'w managerWorld_ext, candidatePair) prog" where
  "createPair B M i =
     mbind (each validateLexicalId [ciRequestId i, ciSourceThreadId i, ciCheckpointId i,
       fst (ciRetentionOwnerIds i), snd (ciRetentionOwnerIds i)]) (\<lambda>_.
     mbind (require (fst (ciRetentionOwnerIds i) \<noteq> snd (ciRetentionOwnerIds i)) (worktree_error InvalidInput)) (\<lambda>_.
     locked (createPairLocked B M i)))"

section \<open>Cleaning up\<close>

datatype cleanupKind =
    KeepActive | KeepDirty | KeepLeaseValid | KeepNotLoser | KeepPinned | KeepUnregistered | KeepWinner | CleanupFailed

datatype removalDecision = Remove | Keep cleanupKind

record cleanupResult =
  crRemoved :: "(string \<times> candidateIndex) list"
  crDiagnostics :: "(string \<times> candidateIndex \<times> cleanupKind) list"
  crReleaseOwnerIds :: "string list"

definition removalDecision ::
    "candidateManager \<Rightarrow> candidatePair \<Rightarrow> candidateWorktree \<Rightarrow> ('e managerEnv_ext, 'w, removalDecision) prog" where
  "removalDecision M p c =
     (case cwStatus c of
        CandidateActive \<Rightarrow> ret (Keep KeepActive)
      | CandidateWinner _ \<Rightarrow> ret (Keep KeepWinner)
      | CandidateLoser \<Rightarrow>
          if cwPinned c then ret (Keep KeepPinned)
          else mbind now_ms (\<lambda>t.
            if cwLeaseExpiresAtMs c > t then ret (Keep KeepLeaseValid)
            else if cwWorkspacePath c \<noteq> candidate_path (cmWorktreesRoot M) (cpRequestId p) (cwIndex c) then ret (Keep KeepUnregistered)
            else mbind isCandidateRegistered (\<lambda>registered.
              if \<not> registered then ret (Keep KeepUnregistered)
              else mbind (ask meAnswer) (\<lambda>dirty. ret (if dirty then Keep KeepDirty else Remove))))
      | _ \<Rightarrow> ret (Keep KeepNotLoser))"

definition removeCandidateWorkspace :: "candidatePair \<Rightarrow> candidateWorktree \<Rightarrow> ('e, 'w managerWorld_ext, unit) prog" where
  "removeCandidateWorkspace p c =
     perform (removal_error c) (remove_path (cwWorkspacePath c) (WorkspaceRemoved (cpRequestId p) (cwIndex c)))"

definition diagnose :: "candidatePair \<Rightarrow> candidateIndex \<Rightarrow> cleanupKind \<Rightarrow> cleanupResult \<Rightarrow> cleanupResult" where
  "diagnose p i k r = r\<lparr>crDiagnostics := crDiagnostics r @ [(cpRequestId p, i, k)]\<rparr>"

definition remove_candidate ::
    "candidateWorktree \<Rightarrow> candidatePair \<times> cleanupResult \<Rightarrow> ('e managerEnv_ext, 'w managerWorld_ext, candidatePair \<times> cleanupResult) prog" where
  "remove_candidate c pr =
     (case pr of (p, r) \<Rightarrow> mcatch
       (mbind (removeCandidateWorkspace p c) (\<lambda>_.
        mbind now_ms (\<lambda>t.
        mbind (replaced p (cwIndex c) (c\<lparr>cwRemovedAtMs := Some t\<rparr>)) (\<lambda>q.
        ret (q, r\<lparr>crRemoved := crRemoved r @ [(cpRequestId p, cwIndex c)],
                  crReleaseOwnerIds := crReleaseOwnerIds r @ [pick (cwIndex c) (cpRetentionOwnerIds p)]\<rparr>)))))
       (\<lambda>e. mbind (replaced p (cwIndex c) (c\<lparr>cwStatus := CandidateCleanupFailed\<rparr>)) (\<lambda>q.
          ret (q, diagnose q (cwIndex c) CleanupFailed r))))"

definition cleanup_candidate ::
    "candidateManager \<Rightarrow> candidateWorktree \<Rightarrow> candidatePair \<times> cleanupResult
     \<Rightarrow> ('e managerEnv_ext, 'w managerWorld_ext, candidatePair \<times> cleanupResult) prog" where
  "cleanup_candidate M c pr =
     (if cwRemovedAtMs c \<noteq> None then ret pr
      else mbind (removalDecision M (fst pr) c) (\<lambda>d.
        case d of Keep k \<Rightarrow> ret (fst pr, diagnose (fst pr) (cwIndex c) k (snd pr))
        | Remove \<Rightarrow> remove_candidate c pr))"

definition cleanup_pair ::
    "builtins \<Rightarrow> candidateManager \<Rightarrow> string \<Rightarrow> cleanupResult \<Rightarrow> ('e managerEnv_ext, 'w managerWorld_ext, cleanupResult) prog" where
  "cleanup_pair B M name r =
     mbind (requiredPair B name) (\<lambda>p.
     mbind (mfold (cleanup_candidate M) [fst (cpCandidates p), snd (cpCandidates p)] (p, r)) (\<lambda>(q, r'). ret r'))"

definition cleanupExpiredCandidates :: "builtins \<Rightarrow> candidateManager \<Rightarrow> ('e managerEnv_ext, 'w managerWorld_ext, cleanupResult) prog" where
  "cleanupExpiredCandidates B M =
     mbind (observe (\<lambda>w. sort_key (\<lambda>r. r @ ''.json'') (map fst (mwManifests w)))) (\<lambda>names.
     mfold (cleanup_pair B M) names \<lparr>crRemoved = [], crDiagnostics = [], crReleaseOwnerIds = []\<rparr>)"

definition cleanupExpired :: "builtins \<Rightarrow> candidateManager \<Rightarrow> ('e managerEnv_ext, 'w managerWorld_ext, cleanupResult) prog" where
  "cleanupExpired B M = locked (cleanupExpiredCandidates B M)"
section \<open>Manifests reload\<close>

definition worktree_candidate_ok :: "candidateIndex \<Rightarrow> candidateWorktree \<Rightarrow> bool" where
  "worktree_candidate_ok i c \<longleftrightarrow> cwIndex c = i \<and> isAbsolute (cwWorkspacePath c) \<and> safeTime (cwLeaseExpiresAtMs c) \<and>
     (case cwRemovedAtMs c of None \<Rightarrow> True | Some t \<Rightarrow> safeTime t)"

definition pair_ok :: "candidatePair \<Rightarrow> bool" where
  "pair_ok p \<longleftrightarrow> LEXICAL_ID (cpRequestId p) \<and> SHA256 (cpSnapshotId p) \<and> isAbsolute (cpSourceRepositoryRoot p) \<and>
     (case cpBaselineHead p of None \<Rightarrow> True | Some h \<Rightarrow> GIT_HEAD h) \<and> LEXICAL_ID (cpSourceThreadId p) \<and> LEXICAL_ID (cpCheckpointId p) \<and>
     LEXICAL_ID (fst (cpRetentionOwnerIds p)) \<and> LEXICAL_ID (snd (cpRetentionOwnerIds p)) \<and>
     fst (cpRetentionOwnerIds p) \<noteq> snd (cpRetentionOwnerIds p) \<and> safeTime (cpCreatedAtMs p) \<and>
     worktree_candidate_ok Candidate0 (fst (cpCandidates p)) \<and> worktree_candidate_ok Candidate1 (snd (cpCandidates p))"

lemma invalidManifest_Inr [simp]: "invalidManifest \<noteq> Inr x"
  by (simp add: invalidManifest_def)

lemma manifest_readers [result_simps]:
  "text_member ok v = Inr s \<longleftrightarrow> v = JStr s \<and> ok s"
  "time_member v = Inr t \<longleftrightarrow> v = JNum (NInt t) \<and> safeTime t"
  "bool_member v = Inr b \<longleftrightarrow> v = JBool b"
  "versioned v = Inr u \<longleftrightarrow> is_record v \<and> jget v ''protocolVersion'' = JNum (NInt 1)"
  by (auto simp: text_member_def time_member_def bool_member_def versioned_def split: js.splits jnum.splits)

lemma nullable_Inr [result_simps]:
  "nullable f v = Inr x \<longleftrightarrow> (v = JNull \<and> x = None \<or> v \<noteq> JNull \<and> (\<exists>y. f v = Inr y \<and> x = Some y))"
  by (auto simp: nullable_def result_simps)

lemma parseOwners_Inr [result_simps]:
  "parseOwners v = Inr (a, b) \<longleftrightarrow> v = JArr [JStr a, JStr b] \<and> LEXICAL_ID a \<and> LEXICAL_ID b \<and> a \<noteq> b"
  by (auto simp: parseOwners_def result_simps split: js.splits list.splits)

lemma parseLifecycle_object: "parseLifecycle (lifecycle_object s) = Inr s"
  by (cases s) (simp_all add: parseLifecycle_def lifecycle_object_def versioned_def jget_def is_record_def bool_member_def)

lemma parseRegistration_object:
  "parseRegistration (JStr (case r of LinkedWorktree \<Rightarrow> ''linked-worktree'' | UnbornRepository \<Rightarrow> ''unborn-repository'')) = Inr r"
  by (cases r) (simp_all add: parseRegistration_def)

lemma parseCandidate_object:
  "worktree_candidate_ok i c \<Longrightarrow> parseCandidate (worktree_candidate_object c) i = Inr c"
  by (cases "cwRemovedAtMs c")
    (simp_all add: parseCandidate_def worktree_candidate_object_def versioned_def jget_def is_record_def bool_member_def
      worktree_candidate_ok_def text_member_def time_member_def nullable_def time_or_null_def parseLifecycle_object
      parseRegistration_object)

lemma parse_pair_object: "pair_ok p \<Longrightarrow> parse_pair (pair_object p) = Inr p"
  by (cases "cpBaselineHead p")
    (simp_all add: parse_pair_def pair_object_def versioned_def jget_def is_record_def text_member_def time_member_def
      nullable_def parseOwners_def parse_candidates_def parseCandidate_object pair_ok_def)

lemma parseCandidate_ok: "parseCandidate v i = Inr c \<Longrightarrow> worktree_candidate_ok i c"
  by (simp add: parseCandidate_def sbind_eq_Inr manifest_readers nullable_Inr split: if_split_asm)
    (elim exE conjE disjE; clarsimp simp: worktree_candidate_ok_def)

lemma parse_candidates_ok:
  "parse_candidates v = Inr (a, b) \<Longrightarrow> worktree_candidate_ok Candidate0 a \<and> worktree_candidate_ok Candidate1 b"
  by (auto simp: parse_candidates_def sbind_eq_Inr dest: parseCandidate_ok split: js.split_asm list.split_asm)

lemma parse_pair_ok: "parse_pair v = Inr p \<Longrightarrow> pair_ok p"
  by (simp add: parse_pair_def sbind_eq_Inr manifest_readers nullable_Inr parseOwners_Inr split_paired_Ex)
    (elim exE conjE disjE; drule parse_candidates_ok; clarsimp simp: pair_ok_def)

text \<open>What is assumed of \<open>JSON.parse\<close>: it reads the manifests that \<open>JSON.stringify\<close> prints.\<close>

definition reads_pairs :: "builtins \<Rightarrow> bool" where
  "reads_pairs B \<longleftrightarrow> (\<forall>p. pair_ok p \<longrightarrow> json_parse B (serializeCandidateManifest p) = Some (pair_object p))"

lemma parse_serialized:
  assumes "reads_pairs B" and "pair_ok p" and "utf8_bytes (serializeCandidateManifest p) \<le> MAX_MANIFEST_BYTES"
  shows "parseCandidateManifest B (serializeCandidateManifest p) = Inr p"
  using assms by (simp add: parseCandidateManifest_def reads_pairs_def parse_pair_object)

lemma parse_serialized_Inr:
  "reads_pairs B \<Longrightarrow> pair_ok p \<Longrightarrow> parseCandidateManifest B (serializeCandidateManifest p) = Inr q \<Longrightarrow> q = p"
  by (auto simp: parseCandidateManifest_def reads_pairs_def parse_pair_object split: if_splits)
section \<open>The store of manifests\<close>

definition manifest_is :: "string \<Rightarrow> candidatePair \<Rightarrow> 'w managerWorld_scheme \<Rightarrow> bool" where
  "manifest_is r p w \<longleftrightarrow> pair_ok p \<and> cpRequestId p = r \<and> map_of (mwManifests w) r = Some (serializeCandidateManifest p)"

definition manifests_ok :: "'w managerWorld_scheme \<Rightarrow> bool" where
  "manifests_ok w \<longleftrightarrow> distinct (map fst (mwManifests w)) \<and>
     (\<forall>r t. map_of (mwManifests w) r = Some t \<longrightarrow> (\<exists>p. manifest_is r p w))"

lemma elapse_simps [simp]:
  "mwManifests (elapse w) = mwManifests w" "mwPaths (elapse w) = mwPaths w" "mwEvents (elapse w) = mwEvents w"
  by (simp_all add: elapse_def)

lemma manifests_ok_elapse [simp]: "manifests_ok (elapse w) = manifests_ok w"
  by (simp add: manifests_ok_def manifest_is_def)

lemma manifest_is_elapse [simp]: "manifest_is r p (elapse w) = manifest_is r p w"
  by (simp add: manifest_is_def)

definition store_manifest :: "candidatePair \<Rightarrow> 'w managerWorld_scheme \<Rightarrow> 'w managerWorld_scheme" where
  "store_manifest p w = w\<lparr>mwManifests := AList.update (cpRequestId p) (serializeCandidateManifest p) (mwManifests w)\<rparr>"

lemma write_manifest_eq: "write_manifest p = perform node_error (store_manifest p)"
  by (simp add: write_manifest_def store_manifest_def[abs_def])

lemma store_manifest_simps [simp]:
  "map_of (mwManifests (store_manifest p w)) = (map_of (mwManifests w))(cpRequestId p \<mapsto> serializeCandidateManifest p)"
  "mwPaths (store_manifest p w) = mwPaths w" "mwEvents (store_manifest p w) = mwEvents w"
  by (simp_all add: store_manifest_def update_conv')

lemma manifest_is_store:
  "manifest_is r q (store_manifest p w) \<longleftrightarrow>
     (if r = cpRequestId p then pair_ok q \<and> cpRequestId q = r \<and> serializeCandidateManifest q = serializeCandidateManifest p
      else manifest_is r q w)"
  by (auto simp: manifest_is_def)

lemma manifests_ok_store: "manifests_ok w \<Longrightarrow> pair_ok p \<Longrightarrow> manifests_ok (store_manifest p w)"
proof -
  assume ok: "manifests_ok w" and p: "pair_ok p"
  have "\<exists>q. manifest_is r q (store_manifest p w)" if "map_of (mwManifests (store_manifest p w)) r = Some t" for r t
  proof (cases "r = cpRequestId p")
    case True
    then show ?thesis using p by (auto simp: manifest_is_store)
  next
    case False
    with that ok show ?thesis by (auto simp: manifest_is_store manifests_ok_def)
  qed
  moreover have "distinct (map fst (mwManifests (store_manifest p w)))"
    using ok by (simp add: manifests_ok_def store_manifest_def distinct_update)
  ultimately show ?thesis unfolding manifests_ok_def by blast
qed

lemma path_facts [simp]:
  "mwManifests (add_path q e w) = mwManifests w" "mwManifests (remove_path q e w) = mwManifests w"
  "mwEvents (add_path q e w) = e # mwEvents w" "mwEvents (remove_path q e w) = e # mwEvents w"
  by (simp_all add: add_path_def remove_path_def)

lemma manifests_path [simp]:
  "manifests_ok (add_path q e w) = manifests_ok w" "manifests_ok (remove_path q e w) = manifests_ok w"
  "manifest_is r p (add_path q e w) = manifest_is r p w" "manifest_is r p (remove_path q e w) = manifest_is r p w"
  by (simp_all add: manifests_ok_def manifest_is_def)

lemma wp_requiredPair [wp_rules]:
  assumes "reads_pairs B"
  shows "hoare E (\<lambda>w. manifests_ok w \<and> (\<forall>p. manifest_is r p w \<longrightarrow> Q (Value p) (elapse w)) \<and>
      (\<forall>e. Q (Thrown e) w \<and> Q (Thrown e) (elapse w)) \<and> Q Crashed (elapse w)) (requiredPair B r) Q"
  unfolding requiredPair_def getPair_def read_manifest_def validateLexicalId_def
  apply (rule hoare_pre, (rule wp_rules)+)
  apply (clarsimp split: option.split sum.split)
  using parse_serialized_Inr[OF assms]
  apply (fastforce simp: manifests_ok_def manifest_is_def)
  done

lemma wp_getPair [wp_rules]:
  assumes "reads_pairs B"
  shows "hoare E (\<lambda>w. manifests_ok w \<and> (\<forall>p. manifest_is r p w \<longrightarrow> Q (Value (Some p)) (elapse w)) \<and>
      (map_of (mwManifests w) r = None \<longrightarrow> Q (Value None) (elapse w)) \<and>
      (\<forall>e. Q (Thrown e) w \<and> Q (Thrown e) (elapse w)) \<and> Q Crashed (elapse w)) (getPair B r) Q"
  unfolding getPair_def read_manifest_def validateLexicalId_def
  apply (rule hoare_pre, (rule wp_rules)+)
  apply (clarsimp split: option.split sum.split)
  using parse_serialized_Inr[OF assms]
  apply (fastforce simp: manifests_ok_def manifest_is_def)
  done
lemma wp_now_ms [wp_rules]:
  "hoare E (\<lambda>w. (\<forall>t. meClock E (tick w) = NInt t \<and> safeTime t \<longrightarrow> Q (Value t) (elapse w)) \<and>
     (\<forall>e. Q (Thrown e) (elapse w)) \<and> Q Crashed (elapse w)) now_ms Q"
  unfolding now_ms_def
  by (rule hoare_pre, rule wp_ask) (auto split: jnum.splits if_splits)

lemma wp_replaced [wp_rules]:
  "hoare E (\<lambda>w. let q = p\<lparr>cpCandidates := put_at i c (cpCandidates p)\<rparr>; v = elapse w in
      Q (Value q) (store_manifest q v) \<and> Q (Thrown node_error) v \<and> Q (Thrown node_error) (store_manifest q v) \<and>
      Q Crashed v \<and> Q Crashed (store_manifest q v)) (replaced p i c) Q"
  unfolding replaced_def write_manifest_eq Let_def
  by (rule hoare_pre, (rule wp_rules)+) auto

lemma wp_registered [wp_rules]:
  "hoare E (\<lambda>w. (\<forall>x. meAnswer E (tick w) = Inr x \<longrightarrow> Q (Value x) (elapse w)) \<and>
     (\<forall>e. Q (Thrown e) (elapse w)) \<and> Q Crashed (elapse w)) isCandidateRegistered Q"
  unfolding isCandidateRegistered_def by (rule wp_ask)

section \<open>Cleaning up removes expired losers only\<close>

definition removable :: "'e managerEnv_scheme \<Rightarrow> candidateManager \<Rightarrow> candidatePair \<Rightarrow> candidateWorktree \<Rightarrow> bool" where
  "removable E M p c \<longleftrightarrow> cwStatus c = CandidateLoser \<and> \<not> cwPinned c \<and>
     cwWorkspacePath c = candidate_path (cmWorktreesRoot M) (cpRequestId p) (cwIndex c) \<and>
     (\<exists>n t. meClock E n = NInt t \<and> cwLeaseExpiresAtMs c \<le> t) \<and> (\<exists>n. meAnswer E n = Inr True) \<and> (\<exists>n. meAnswer E n = Inr False)"

lemma wp_removalDecision:
  "hoare E (\<lambda>w. (\<forall>d v. (d = Remove \<longrightarrow> removable E M p c) \<longrightarrow> mwManifests v = mwManifests w \<and> mwEvents v = mwEvents w \<longrightarrow> Q (Value d) v) \<and>
     (\<forall>e v. mwManifests v = mwManifests w \<and> mwEvents v = mwEvents w \<longrightarrow> Q (Thrown e) v \<and> Q Crashed v))
     (removalDecision M p c) Q"
proof (cases "cwStatus c = CandidateLoser")
  case True
  show ?thesis
    unfolding removalDecision_def True candidateLifecycle.case
    by (rule hoare_pre, (rule wp_rules)+) (auto simp: removable_def True not_less, metis elapse_simps)
next
  case False
  then show ?thesis by (cases "cwStatus c") (auto simp: removalDecision_def intro!: hoare_ret)
qed

text \<open>The workspaces removed since a world, and the manifests that a pass has not reached yet.\<close>

definition events_ok :: "'e managerEnv_scheme \<Rightarrow> candidateManager \<Rightarrow> 'w managerWorld_scheme \<Rightarrow> 'w managerWorld_scheme \<Rightarrow> bool" where
  "events_ok E M v w \<longleftrightarrow> (\<exists>new. mwEvents w = new @ mwEvents v \<and> (\<forall>e \<in> set new. \<exists>r i p. e = WorkspaceRemoved r i \<and>
     manifest_is r p v \<and> cwRemovedAtMs (pick i (cpCandidates p)) = None \<and> removable E M p (pick i (cpCandidates p))))"

definition untouched :: "string list \<Rightarrow> 'w managerWorld_scheme \<Rightarrow> 'w managerWorld_scheme \<Rightarrow> bool" where
  "untouched rs v w \<longleftrightarrow> distinct rs \<and> (\<forall>r \<in> set rs. map_of (mwManifests w) r = map_of (mwManifests v) r)"

definition newly_removed :: "string \<Rightarrow> candidateIndex \<Rightarrow> string \<Rightarrow> candidatePair \<Rightarrow> candidatePair \<Rightarrow> bool" where
  "newly_removed r i owner p q \<longleftrightarrow> owner = pick i (cpRetentionOwnerIds p) \<and>
     cwRemovedAtMs (pick i (cpCandidates p)) = None \<and> cwRemovedAtMs (pick i (cpCandidates q)) \<noteq> None"

definition released_ok :: "string set \<Rightarrow> cleanupResult \<Rightarrow> 'w managerWorld_scheme \<Rightarrow> 'w managerWorld_scheme \<Rightarrow> bool" where
  "released_ok R res v w \<longleftrightarrow> (\<forall>owner \<in> set (crReleaseOwnerIds res). \<exists>r i p q. r \<notin> R \<and> manifest_is r p v \<and> manifest_is r q w \<and>
     newly_removed r i owner p q)"

definition sound :: "'e managerEnv_scheme \<Rightarrow> candidateManager \<Rightarrow> 'w managerWorld_scheme \<Rightarrow> 'w managerWorld_scheme \<Rightarrow> bool" where
  "sound E M v w \<longleftrightarrow> manifests_ok w \<and> events_ok E M v w"

text \<open>Inside a pair \<open>p\<close>: the candidates \<open>cs\<close> are still to do and the manifest is now \<open>q\<close>.\<close>

definition in_pair ::
    "'e managerEnv_scheme \<Rightarrow> candidateManager \<Rightarrow> 'w managerWorld_scheme \<Rightarrow> string list \<Rightarrow> candidatePair \<Rightarrow> candidateWorktree list
     \<Rightarrow> candidatePair \<times> cleanupResult \<Rightarrow> 'w managerWorld_scheme \<Rightarrow> bool" where
  "in_pair E M v rest p cs qr w \<longleftrightarrow> (case qr of (q, res) \<Rightarrow>
     sound E M v w \<and> untouched (cpRequestId p # rest) v v \<and> untouched rest v w \<and> manifest_is (cpRequestId p) p v \<and> manifest_is (cpRequestId p) q w \<and>
     cpRetentionOwnerIds q = cpRetentionOwnerIds p \<and> distinct (map cwIndex cs) \<and>
     (\<forall>c \<in> set cs. c = pick (cwIndex c) (cpCandidates p) \<and> c = pick (cwIndex c) (cpCandidates q)) \<and>
     (\<forall>owner \<in> set (crReleaseOwnerIds res).
        (\<exists>r i p' q'. r \<notin> set (cpRequestId p # rest) \<and> manifest_is r p' v \<and> manifest_is r q' w \<and> newly_removed r i owner p' q') \<or>
        (\<exists>i. newly_removed (cpRequestId p) i owner p q)))"

lemma pick_put [simp]: "pick i (put_at j x p) = (if i = j then x else pick i p)"
  by (cases i; cases j; cases p) simp_all

lemma pick_ok: "pair_ok p \<Longrightarrow> worktree_candidate_ok i (pick i (cpCandidates p))"
  by (cases i) (simp_all add: pair_ok_def)

lemma pair_ok_put:
  "pair_ok p \<Longrightarrow> worktree_candidate_ok i c \<Longrightarrow> pair_ok (p\<lparr>cpCandidates := put_at i c (cpCandidates p)\<rparr>)"
  by (cases i) (simp_all add: pair_ok_def)

lemma sound_elapse [simp]: "sound E M v (elapse w) = sound E M v w"
  and untouched_elapse [simp]: "untouched rs v (elapse w) = untouched rs v w"
  and events_ok_elapse [simp]: "events_ok E M v (elapse w) = events_ok E M v w"
  by (simp_all add: sound_def events_ok_def untouched_def)

lemma in_pair_elapse [simp]: "in_pair E M v rest p cs qr (elapse w) = in_pair E M v rest p cs qr w"
  by (simp add: in_pair_def split: prod.splits)

lemma in_pair_cong:
  assumes "mwManifests u = mwManifests w" and "mwEvents u = mwEvents w"
  shows "in_pair E M v rest p cs qr u = in_pair E M v rest p cs qr w"
  using assms by (simp add: in_pair_def sound_def events_ok_def untouched_def manifests_ok_def manifest_is_def split: prod.splits)

lemma untouched_store: "untouched rest v w \<Longrightarrow> cpRequestId q \<notin> set rest \<Longrightarrow> untouched rest v (store_manifest q w)"
  by (auto simp: untouched_def)

lemma sound_store: "sound E M v w \<Longrightarrow> pair_ok q \<Longrightarrow> sound E M v (store_manifest q w)"
  by (simp add: sound_def manifests_ok_store events_ok_def)

lemma sound_removed:
  assumes "sound E M v w" and "manifest_is r p v" and "cwRemovedAtMs (pick i (cpCandidates p)) = None"
    and "removable E M p (pick i (cpCandidates p))"
  shows "sound E M v (remove_path d (WorkspaceRemoved r i) w)"
proof -
  obtain new where new: "mwEvents w = new @ mwEvents v"
    "\<forall>e \<in> set new. \<exists>r i p. e = WorkspaceRemoved r i \<and> manifest_is r p v \<and>
       cwRemovedAtMs (pick i (cpCandidates p)) = None \<and> removable E M p (pick i (cpCandidates p))"
    using assms(1) by (auto simp: sound_def events_ok_def)
  have "mwEvents (remove_path d (WorkspaceRemoved r i) w) = (WorkspaceRemoved r i # new) @ mwEvents v"
    using new(1) by simp
  moreover have "\<forall>e \<in> set (WorkspaceRemoved r i # new). \<exists>r i p. e = WorkspaceRemoved r i \<and> manifest_is r p v \<and>
       cwRemovedAtMs (pick i (cpCandidates p)) = None \<and> removable E M p (pick i (cpCandidates p))"
    using assms(2-4) new(2) by auto
  ultimately have "events_ok E M v (remove_path d (WorkspaceRemoved r i) w)"
    unfolding events_ok_def by blast
  with assms(1) show ?thesis by (simp add: sound_def)
qed

text \<open>Writing the manifest of one candidate of the pair takes that candidate off the list.\<close>

lemma in_pair_store:
  assumes "in_pair E M v rest p (c # cs) (q, res) w" and "worktree_candidate_ok (cwIndex c) d"
    and "\<forall>owner \<in> set (crReleaseOwnerIds res'). owner \<in> set (crReleaseOwnerIds res) \<or>
      newly_removed (cpRequestId p) (cwIndex c) owner p (q\<lparr>cpCandidates := put_at (cwIndex c) d (cpCandidates q)\<rparr>)"
  shows "in_pair E M v rest p cs (q\<lparr>cpCandidates := put_at (cwIndex c) d (cpCandidates q)\<rparr>, res')
    (store_manifest (q\<lparr>cpCandidates := put_at (cwIndex c) d (cpCandidates q)\<rparr>) w)"
proof -
  let ?q = "q\<lparr>cpCandidates := put_at (cwIndex c) d (cpCandidates q)\<rparr>"
  have q: "manifest_is (cpRequestId p) q w" "cpRequestId q = cpRequestId p" "pair_ok q"
    using assms(1) by (auto simp: in_pair_def manifest_is_def)
  have ok: "pair_ok ?q" using q(3) assms(2) by (rule pair_ok_put)
  have removed: "newly_removed r i ow p ?q" if "newly_removed r i ow p q" for r i ow
  proof (cases "i = cwIndex c")
    case True
    with that assms(1) have "cwRemovedAtMs (pick i (cpCandidates q)) = cwRemovedAtMs (pick i (cpCandidates p))"
      by (auto simp: in_pair_def)
    with that show ?thesis by (auto simp: newly_removed_def)
  next
    case False
    with that show ?thesis by (simp add: newly_removed_def)
  qed
  have fresh: "cpRequestId p \<notin> set rest" using assms(1) by (auto simp: in_pair_def untouched_def)
  show ?thesis
    using assms(1,3) ok q(2) removed fresh
    apply (simp add: in_pair_def sound_store untouched_store manifest_is_store)
    apply (intro conjI ballI)
    subgoal by auto
    subgoal by metis
    done
qed

lemma store_manifest_twice:
  "cpRequestId a = cpRequestId b \<Longrightarrow> store_manifest b (elapse (store_manifest a w)) = store_manifest b (elapse w)"
  by (simp add: store_manifest_def elapse_def update_last)

lemma remove_candidate_ok:
  assumes "removable E M p c" and "cwRemovedAtMs c = None"
  shows "hoare E (in_pair E M v rest p (c # cs) (q, res)) (remove_candidate c (q, res))
    (post (in_pair E M v rest p cs) (\<lambda>_. sound E M v) (sound E M v))"
proof -
  let ?A = "in_pair E M v rest p (c # cs) (q, res)"
  let ?q = "\<lambda>d. q\<lparr>cpCandidates := put_at (cwIndex c) d (cpCandidates q)\<rparr>"
  let ?S = "\<lambda>d. store_manifest (?q d)"
  have q: "cpRequestId q = cpRequestId p" "pair_ok q" "c = pick (cwIndex c) (cpCandidates p)" "manifest_is (cpRequestId p) p v"
    "sound E M v w" "worktree_candidate_ok (cwIndex c) c" "cpRetentionOwnerIds q = cpRetentionOwnerIds p" if "?A w" for w
    using that pick_ok[of p "cwIndex c"] by (auto simp: in_pair_def manifest_is_def)
  have removed: "?A (remove_path d (WorkspaceRemoved (cpRequestId q) (cwIndex c)) w)" if "?A w" for d w
  proof -
    have "sound E M v (remove_path d (WorkspaceRemoved (cpRequestId p) (cwIndex c)) w)"
      by (rule sound_removed[where p = p]) (use q[OF that] assms in simp_all)
    with that q(1)[OF that] show ?thesis by (auto simp: in_pair_def untouched_def)
  qed
  have stored: "sound E M v (?S d w)" if "?A w" "worktree_candidate_ok (cwIndex c) d" for d w
    using q[OF that(1)] that(2) by (simp add: sound_store pair_ok_put)
  have marked: "worktree_candidate_ok (cwIndex c) (c\<lparr>cwRemovedAtMs := Some t\<rparr>)" if "?A w" "safeTime t" for t w
    using q[OF that(1)] that(2) by (simp add: worktree_candidate_ok_def)
  have failed: "worktree_candidate_ok (cwIndex c) (c\<lparr>cwStatus := CandidateCleanupFailed\<rparr>)" if "?A w" for w
    using q[OF that] by (simp add: worktree_candidate_ok_def)
  let ?H = "\<lambda>u. \<exists>w. ?A w \<and> (u = w \<or> (\<exists>t. safeTime t \<and> u = ?S (c\<lparr>cwRemovedAtMs := Some t\<rparr>) w))"
  have body: "hoare E ?A (mbind (removeCandidateWorkspace q c) (\<lambda>_. mbind now_ms (\<lambda>t.
        mbind (replaced q (cwIndex c) (c\<lparr>cwRemovedAtMs := Some t\<rparr>)) (\<lambda>q'.
        ret (q', res\<lparr>crRemoved := crRemoved res @ [(cpRequestId q, cwIndex c)],
                  crReleaseOwnerIds := crReleaseOwnerIds res @ [pick (cwIndex c) (cpRetentionOwnerIds q)]\<rparr>)))))
     (post (in_pair E M v rest p cs) (\<lambda>_. ?H) (sound E M v))" (is "hoare E ?A ?m ?Q")
  proof -
    have settled: "in_pair E M v rest p cs (?q d, res\<lparr>crRemoved := xs, crReleaseOwnerIds := crReleaseOwnerIds res @ [pick (cwIndex c) (cpRetentionOwnerIds q)]\<rparr>)
        (?S d w)" if "?A w" "d = c\<lparr>cwRemovedAtMs := Some t\<rparr>" "safeTime t" for w d t xs
      by (rule in_pair_store[OF that(1)])
        (use that marked q[OF that(1)] assms(2) in \<open>auto simp: newly_removed_def\<close>)
    have keep: "?H w" "sound E M v w" if "?A w" for w using that q(5) by auto
    have writing: "hoare E (\<lambda>w. ?A w \<and> safeTime t) (replaced q (cwIndex c) (c\<lparr>cwRemovedAtMs := Some t\<rparr>))
        (post (\<lambda>q' u. \<exists>w. ?A w \<and> safeTime t \<and> q' = ?q (c\<lparr>cwRemovedAtMs := Some t\<rparr>) \<and> u = ?S (c\<lparr>cwRemovedAtMs := Some t\<rparr>) w)
          (\<lambda>_. ?H) (sound E M v))" for t
    proof (rule hoare_pre, rule wp_replaced, unfold Let_def post_simps, elim conjE, intro conjI)
      fix w assume a: "?A w" and t: "safeTime t"
      then have a': "?A (elapse w)" by simp
      show "\<exists>w'. ?A w' \<and> safeTime t \<and> ?q (c\<lparr>cwRemovedAtMs := Some t\<rparr>) = ?q (c\<lparr>cwRemovedAtMs := Some t\<rparr>) \<and>
          ?S (c\<lparr>cwRemovedAtMs := Some t\<rparr>) (elapse w) = ?S (c\<lparr>cwRemovedAtMs := Some t\<rparr>) w'"
        using a' t by blast
      show "?H (elapse w)" "?H (?S (c\<lparr>cwRemovedAtMs := Some t\<rparr>) (elapse w))" using a' t by blast+
      show "sound E M v (elapse w)" by (rule q(5)[OF a'])
      show "sound E M v (?S (c\<lparr>cwRemovedAtMs := Some t\<rparr>) (elapse w))" by (rule stored[OF a' marked[OF a' t]])
    qed
    show ?thesis
      unfolding removeCandidateWorkspace_def
    proof (rule hoare_mbind[where M = "\<lambda>_. ?A"])
      show "hoare E ?A (perform (removal_error c) (remove_path (cwWorkspacePath c) (WorkspaceRemoved (cpRequestId q) (cwIndex c))))
          (post (\<lambda>_. ?A) (\<lambda>e. ?Q (Thrown e)) (?Q Crashed))"
        by (rule hoare_perform) (simp_all add: removed keep del: ex_simps)
      show "hoare E ?A (mbind now_ms (\<lambda>t. mbind (replaced q (cwIndex c) (c\<lparr>cwRemovedAtMs := Some t\<rparr>)) (\<lambda>q'.
        ret (q', res\<lparr>crRemoved := crRemoved res @ [(cpRequestId q, cwIndex c)],
                  crReleaseOwnerIds := crReleaseOwnerIds res @ [pick (cwIndex c) (cpRetentionOwnerIds q)]\<rparr>)))) ?Q"
      proof (rule hoare_mbind[where M = "\<lambda>t w. ?A w \<and> safeTime t"])
        show "hoare E ?A now_ms (post (\<lambda>t w. ?A w \<and> safeTime t) (\<lambda>e. ?Q (Thrown e)) (?Q Crashed))"
          by (rule hoare_pre, rule wp_now_ms) (simp add: keep)
        show "hoare E (\<lambda>w. ?A w \<and> safeTime t) (mbind (replaced q (cwIndex c) (c\<lparr>cwRemovedAtMs := Some t\<rparr>)) (\<lambda>q'.
          ret (q', res\<lparr>crRemoved := crRemoved res @ [(cpRequestId q, cwIndex c)],
                  crReleaseOwnerIds := crReleaseOwnerIds res @ [pick (cwIndex c) (cpRetentionOwnerIds q)]\<rparr>))) ?Q" for t
          by (rule hoare_mbind, rule hoare_weaken[OF writing])
            (auto simp: post_def settled intro!: hoare_ret split: outcome.splits)
      qed
    qed
  qed
  have handler: "hoare E ?H (mbind (replaced q (cwIndex c) (c\<lparr>cwStatus := CandidateCleanupFailed\<rparr>)) (\<lambda>q'. ret (q', diagnose q' (cwIndex c) CleanupFailed res)))
      (post (in_pair E M v rest p cs) (\<lambda>_. sound E M v) (sound E M v))" (is "hoare E ?H _ ?Q")
  proof (rule hoare_pre, (rule wp_rules)+, unfold Let_def post_simps, elim exE conjE, intro conjI)
    fix u w assume a: "?A w" and u: "u = w \<or> (\<exists>t. safeTime t \<and> u = ?S (c\<lparr>cwRemovedAtMs := Some t\<rparr>) w)"
    let ?d = "c\<lparr>cwStatus := CandidateCleanupFailed\<rparr>"
    from a have a': "?A (elapse w)" by simp
    have same: "?S ?d (elapse u) = ?S ?d (elapse w)" using u by (auto simp: store_manifest_twice)
    have now: "sound E M v (elapse u)" using u q(5)[OF a] stored[OF a marked[OF a]] by auto
    have after: "sound E M v (?S ?d (elapse u))" unfolding same by (rule stored[OF a' failed[OF a]])
    have "in_pair E M v rest p cs (?q ?d, diagnose (?q ?d) (cwIndex c) CleanupFailed res) (?S ?d (elapse w))"
      by (rule in_pair_store[OF a' failed[OF a]]) (simp add: diagnose_def)
    then show "in_pair E M v rest p cs (?q ?d, diagnose (?q ?d) (cwIndex c) CleanupFailed res) (?S ?d (elapse u))"
      unfolding same .
    show "sound E M v (elapse u)" "sound E M v (?S ?d (elapse u))" "sound E M v (elapse u)" "sound E M v (?S ?d (elapse u))"
      by (rule now after)+
  qed
  show ?thesis
    unfolding remove_candidate_def prod.case
    by (rule hoare_mcatch[where H = "\<lambda>_. ?H"]; rule hoare_weaken[OF body] hoare_weaken[OF handler]; simp add: post_def split: outcome.splits)
qed
lemma in_pair_tail: "in_pair E M v rest p (c # cs) (q, res) w \<Longrightarrow> in_pair E M v rest p cs (q, diagnose q' i k res) w"
  and in_pair_skip: "in_pair E M v rest p (c # cs) (q, res) w \<Longrightarrow> in_pair E M v rest p cs (q, res) w"
  by (auto simp: in_pair_def diagnose_def)

lemma in_pair_sound: "in_pair E M v rest p cs qr w \<Longrightarrow> sound E M v w"
  by (auto simp: in_pair_def)

lemma cleanup_candidate_ok:
  "hoare E (in_pair E M v rest p (c # cs) qr) (cleanup_candidate M c qr)
    (post (in_pair E M v rest p cs) (\<lambda>_. sound E M v) (sound E M v))"
proof (cases "cwRemovedAtMs c = None")
  case False
  then show ?thesis
    by (simp add: cleanup_candidate_def) (rule hoare_ret, cases qr, simp add: in_pair_skip)
next
  case True
  obtain q res where qr: "qr = (q, res)" by force
  have same: "removable E M q c = removable E M p c" if "in_pair E M v rest p (c # cs) (q, res) w" for w
    using that by (auto simp: in_pair_def manifest_is_def removable_def)
  have decide: "hoare E (in_pair E M v rest p (c # cs) (q, res)) (removalDecision M q c)
      (post (\<lambda>d w. in_pair E M v rest p (c # cs) (q, res) w \<and> (d = Remove \<longrightarrow> removable E M p c)) (\<lambda>_. sound E M v) (sound E M v))"
  proof (rule hoare_pre, rule wp_removalDecision, intro conjI allI impI)
    fix w assume a: "in_pair E M v rest p (c # cs) (q, res) w"
    have moved: "in_pair E M v rest p (c # cs) (q, res) u" if "mwManifests u = mwManifests w \<and> mwEvents u = mwEvents w" for u
      using a in_pair_cong[of u w] that by blast
    show "post (\<lambda>d w. in_pair E M v rest p (c # cs) (q, res) w \<and> (d = Remove \<longrightarrow> removable E M p c)) (\<lambda>_. sound E M v) (sound E M v) (Value d) u"
      if "d = Remove \<longrightarrow> removable E M q c" "mwManifests u = mwManifests w \<and> mwEvents u = mwEvents w" for d u
      using moved[OF that(2)] that(1) same[OF a] by simp
    show "post (\<lambda>d w. in_pair E M v rest p (c # cs) (q, res) w \<and> (d = Remove \<longrightarrow> removable E M p c)) (\<lambda>_. sound E M v) (sound E M v) (Thrown e) u"
      "post (\<lambda>d w. in_pair E M v rest p (c # cs) (q, res) w \<and> (d = Remove \<longrightarrow> removable E M p c)) (\<lambda>_. sound E M v) (sound E M v) Crashed u"
      if "mwManifests u = mwManifests w \<and> mwEvents u = mwEvents w" for e u
      using in_pair_sound[OF moved[OF that]] by simp_all
  qed
  have act: "hoare E (\<lambda>w. in_pair E M v rest p (c # cs) (q, res) w \<and> (d = Remove \<longrightarrow> removable E M p c))
      (case d of Keep k \<Rightarrow> ret (q, diagnose q (cwIndex c) k res) | Remove \<Rightarrow> remove_candidate c (q, res))
      (post (in_pair E M v rest p cs) (\<lambda>_. sound E M v) (sound E M v))" for d
  proof (cases d)
    case Remove
    show ?thesis
    proof (cases "removable E M p c")
      case True
      then show ?thesis using remove_candidate_ok[OF True \<open>cwRemovedAtMs c = None\<close>] by (simp add: Remove)
    next
      case False
      then show ?thesis by (simp add: Remove hoare_def)
    qed
  qed (auto intro!: hoare_ret in_pair_tail)
  show ?thesis
    unfolding cleanup_candidate_def qr using True
    by (auto intro!: hoare_mbind[OF hoare_weaken[OF decide]] act simp: post_def split: outcome.splits)
qed

lemma cleanup_pair_ok:
  assumes "reads_pairs B"
  shows "hoare E (\<lambda>w. sound E M v w \<and> manifests_ok v \<and> untouched (name # rest) v w \<and> released_ok (set (name # rest)) res v w)
    (cleanup_pair B M name res)
    (post (\<lambda>res' w. sound E M v w \<and> manifests_ok v \<and> untouched rest v w \<and> released_ok (set rest) res' v w) (\<lambda>_. sound E M v) (sound E M v))"
  (is "hoare E ?P _ ?Q")
proof -
  have start: "in_pair E M v rest p [fst (cpCandidates p), snd (cpCandidates p)] (p, res) w"
    if "?P w" "manifest_is name p w" for p w
  proof -
    have name: "cpRequestId p = name" using that(2) by (simp add: manifest_is_def)
    have ok: "worktree_candidate_ok Candidate0 (fst (cpCandidates p))" "worktree_candidate_ok Candidate1 (snd (cpCandidates p))"
      using that(2) by (simp_all add: manifest_is_def pair_ok_def)
    have "manifest_is name p v" using that by (auto simp: untouched_def manifest_is_def)
    with that name ok show ?thesis
      by (auto simp: in_pair_def untouched_def worktree_candidate_ok_def released_ok_def)
  qed
  have finish: "?Q (Value res') w" if "in_pair E M v rest p [] (q, res') w" "manifests_ok v" for p q res' w
  proof -
    have "\<exists>r i p q. r \<notin> set rest \<and> manifest_is r p v \<and> manifest_is r q w \<and> newly_removed r i owner p q"
      if "owner \<in> set (crReleaseOwnerIds res')" for owner
    proof -
      from \<open>in_pair E M v rest p [] (q, res') w\<close>
      have own: "manifest_is (cpRequestId p) p v" "manifest_is (cpRequestId p) q w" "cpRequestId p \<notin> set rest"
        by (auto simp: in_pair_def untouched_def)
      from that \<open>in_pair E M v rest p [] (q, res') w\<close>
      have "(\<exists>r i p' q'. r \<notin> set (cpRequestId p # rest) \<and> manifest_is r p' v \<and> manifest_is r q' w \<and> newly_removed r i owner p' q') \<or>
        (\<exists>i. newly_removed (cpRequestId p) i owner p q)"
        unfolding in_pair_def prod.case by blast
      then show ?thesis using own by fastforce
    qed
    with that show ?thesis by (simp add: in_pair_def released_ok_def)
  qed
  have requires: "hoare E ?P (requiredPair B name) (post (\<lambda>p. in_pair E M v rest p [fst (cpCandidates p), snd (cpCandidates p)] (p, res)) (\<lambda>_. sound E M v) (sound E M v))"
    by (rule hoare_pre, rule wp_requiredPair[OF assms]) (use start in \<open>simp add: sound_def\<close>)
  show ?thesis
  proof (cases "manifests_ok v")
    case False
    then show ?thesis by (simp add: hoare_def)
  next
    case True
    have folded: "hoare E (in_pair E M v rest p [fst (cpCandidates p), snd (cpCandidates p)] (p, res))
        (mfold (cleanup_candidate M) [fst (cpCandidates p), snd (cpCandidates p)] (p, res))
        (post (in_pair E M v rest p []) (\<lambda>_. sound E M v) (sound E M v))" for p
      by (rule hoare_mfold[where I = "in_pair E M v rest p"])
        (rule hoare_weaken[OF cleanup_candidate_ok], auto simp: post_def split: outcome.splits)
    show ?thesis
      unfolding cleanup_pair_def
      by (rule hoare_mbind, rule hoare_weaken[OF requires], simp, simp add: post_def split: outcome.splits,
          rule hoare_mbind, rule hoare_weaken[OF folded], simp, simp add: post_def split: outcome.splits)
        (auto intro!: hoare_ret finish True)
  qed
qed
lemma locked_ok:
  assumes "\<And>w. P w \<Longrightarrow> P (elapse w)" and "\<And>x w. Q x w \<Longrightarrow> Q x (elapse w)" and "\<And>w. A w \<Longrightarrow> A (elapse w)"
    and "\<And>w. P w \<Longrightarrow> A w" and "\<And>x w. Q x w \<Longrightarrow> A w" and "hoare E P m (post Q (\<lambda>_. A) A)"
  shows "hoare E P (locked m) (post Q (\<lambda>_. A) A)"
proof -
  have body: "hoare E P m (post (\<lambda>x. post Q (\<lambda>_. A) A (Value x)) (\<lambda>e. post Q (\<lambda>_. A) A (Thrown e)) (post Q (\<lambda>_. A) A Crashed))"
    by (rule hoare_weaken[OF assms(6)]) (simp_all add: post_def split: outcome.splits)
  have release: "hoare E (post Q (\<lambda>_. A) A r) (perform node_error id)
      (post (\<lambda>_. post Q (\<lambda>_. A) A r) (\<lambda>e. post Q (\<lambda>_. A) A (Thrown e)) (post Q (\<lambda>_. A) A Crashed))" for r
    by (rule hoare_perform; cases r; simp; metis assms(2,3,5))
  show ?thesis
    unfolding locked_def
    by (rule hoare_mbind[where M = "\<lambda>_. P"], rule hoare_perform; (simp add: assms(1,3,4))?)
      (rule hoare_mfinally[OF body release])
qed

lemma cleanupExpired_ok:
  assumes "reads_pairs B" and "manifests_ok v"
  shows "hoare E (\<lambda>w. w = v) (cleanupExpired B M)
    (post (\<lambda>res w. sound E M v w \<and> released_ok {} res v w) (\<lambda>_. sound E M v) (sound E M v))"
proof -
  let ?names = "sort_key (\<lambda>r. r @ ''.json'') (map fst (mwManifests v))"
  let ?Q = "post (\<lambda>res w. sound E M v w \<and> released_ok {} res v w) (\<lambda>_. sound E M v) (sound E M v)"
  let ?I = "\<lambda>rest res w. sound E M v w \<and> manifests_ok v \<and> untouched rest v w \<and> released_ok (set rest) res v w"
  let ?P = "\<lambda>w. sound E M v w \<and> mwManifests w = mwManifests v"
  have v: "?P v" using assms(2) by (simp add: sound_def events_ok_def)
  have folded: "hoare E (?I ?names \<lparr>crRemoved = [], crDiagnostics = [], crReleaseOwnerIds = []\<rparr>)
      (mfold (cleanup_pair B M) ?names \<lparr>crRemoved = [], crDiagnostics = [], crReleaseOwnerIds = []\<rparr>) ?Q"
    by (rule hoare_mfold[where I = ?I])
      (rule hoare_weaken[OF cleanup_pair_ok[OF assms(1)]], simp_all add: post_def split: outcome.splits)
  have start: "?I ?names \<lparr>crRemoved = [], crDiagnostics = [], crReleaseOwnerIds = []\<rparr> w" if "?P w" for w
    using that assms(2) by (auto simp: untouched_def released_ok_def manifests_ok_def)
  have body: "hoare E ?P (cleanupExpiredCandidates B M) ?Q"
    unfolding cleanupExpiredCandidates_def
  proof (rule hoare_mbind[where M = "\<lambda>names w. ?P w \<and> names = ?names"])
    show "hoare E ?P (observe (\<lambda>w. sort_key (\<lambda>r. r @ ''.json'') (map fst (mwManifests w))))
        (post (\<lambda>names w. ?P w \<and> names = ?names) (\<lambda>e. ?Q (Thrown e)) (?Q Crashed))"
      by (rule hoare_observe) simp_all
    show "hoare E (\<lambda>w. ?P w \<and> names = ?names) (mfold (cleanup_pair B M) names \<lparr>crRemoved = [], crDiagnostics = [], crReleaseOwnerIds = []\<rparr>) ?Q" for names
      by (rule hoareI, elim conjE, hypsubst, rule hoareD[OF folded], rule start, rule conjI)
  qed
  have "hoare E ?P (cleanupExpired B M) ?Q"
    unfolding cleanupExpired_def
    by (rule locked_ok[OF _ _ _ _ _ body]) (auto simp: released_ok_def)
  then show ?thesis by (rule hoare_pre) (use v in simp)
qed

text \<open>
  Claim C33 (cleanup_removes_expired_losers). A cleaning pass, even one that fails or dies at any point, leaves readable manifests and
  does nothing to workspaces but remove those of candidates that its manifests call losers: not
  pinned, with an expired lease, at the path the manager chose, registered with git and clean. The
  retention owners it returns belong to candidates that it has durably marked as removed and that
  were not marked before, so no owner is released twice.
\<close>

theorem cleanup_removes_expired_losers:
  assumes "reads_pairs B" and "manifests_ok w" and "cleanupExpired B M E w = (r, w')"
  shows "manifests_ok w' \<and> (\<exists>new. mwEvents w' = new @ mwEvents w \<and> (\<forall>e \<in> set new. \<exists>q i p. e = WorkspaceRemoved q i \<and>
      manifest_is q p w \<and> cwRemovedAtMs (pick i (cpCandidates p)) = None \<and> removable E M p (pick i (cpCandidates p)))) \<and>
    (\<forall>res. r = Value res \<longrightarrow> (\<forall>owner \<in> set (crReleaseOwnerIds res). \<exists>q i p p'. manifest_is q p w \<and> manifest_is q p' w' \<and>
      owner = pick i (cpRetentionOwnerIds p) \<and> cwRemovedAtMs (pick i (cpCandidates p)) = None \<and>
      cwRemovedAtMs (pick i (cpCandidates p')) \<noteq> None))"
proof -
  have "post (\<lambda>res u. sound E M w u \<and> released_ok {} res w u) (\<lambda>_. sound E M w) (sound E M w) r w'"
    using hoareD[OF cleanupExpired_ok[OF assms(1,2)], of w E M] assms(3) by simp
  then show ?thesis by (cases r) (auto simp: sound_def events_ok_def released_ok_def newly_removed_def)
qed
definition sample_pair :: candidatePair where
  "sample_pair = (let p = createCandidateManifest
     \<lparr>piRequest = ''r'', piSnapshot = replicate 64 (CHR ''a''), piSourceRoot = ''/s'', piBaseline = None, piSourceThread = ''t'',
      piCheckpoint = ''c'', piOwners = (''o0'', ''o1''), piCreated = 0, piExpires = 5, piWorktreesRoot = ''/w''\<rparr>
   in p\<lparr>cpCandidates := (fst (cpCandidates p), (snd (cpCandidates p))\<lparr>cwStatus := CandidateLoser, cwPinned := False\<rparr>)\<rparr>)"

definition sample_manager :: candidateManager where
  "sample_manager = \<lparr>cmWorktreesRoot = ''/w'', cmTtlMs = 5\<rparr>"

definition sample_manager_env :: managerEnv where
  "sample_manager_env = \<lparr>enFate = \<lambda>_. Happens, meClock = \<lambda>_. NInt 9, meAnswer = \<lambda>n. Inr (n < 5), meText = \<lambda>_. Inr ''/s'',
     meCall = \<lambda>_. Inr (), meSource = \<lambda>_. Inr ([], None, False)\<rparr>"

definition sample_manager_world :: managerWorld where
  "sample_manager_world = \<lparr>tick = 0, mwManifests = [(''r'', serializeCandidateManifest sample_pair)], mwPaths = [''/w/r-0'', ''/w/r-1''], mwEvents = []\<rparr>"

lemma pair_object_printable: "printable (pair_object p)"
proof -
  have "printable (lifecycle_object l)" for l
    by (cases l) (simp_all add: lifecycle_object_def number_ok_def finite_number_def)
  moreover have "printable (time_or_null t)" for t
    by (cases t) (simp_all add: time_or_null_def number_ok_def finite_number_def)
  ultimately have "printable (worktree_candidate_object c)" for c
    by (simp add: worktree_candidate_object_def number_ok_def finite_number_def)
  then show ?thesis by (cases "cpBaselineHead p") (simp_all add: pair_object_def number_ok_def finite_number_def)
qed

lemma reads_pairs_reading: "reads_pairs reading_builtins"
  by (simp add: reads_pairs_def serializeCandidateManifest_def json_read_line pair_object_printable)

lemma sample_manifests_ok: "manifests_ok sample_manager_world"
proof -
  have "pair_ok sample_pair" by code_simp
  moreover have "cpRequestId sample_pair = ''r''" by code_simp
  ultimately show ?thesis by (auto simp: manifests_ok_def manifest_is_def sample_manager_world_def)
qed

lemma sample_parses: "parseCandidateManifest reading_builtins (serializeCandidateManifest sample_pair) = Inr sample_pair"
proof (rule parse_serialized[OF reads_pairs_reading])
  show "pair_ok sample_pair" "utf8_bytes (serializeCandidateManifest sample_pair) \<le> MAX_MANIFEST_BYTES" by code_simp+
qed

lemma sample_facts:
  "fst (cpCandidates sample_pair) = \<lparr>cwIndex = Candidate0, cwWorkspacePath = ''/w/r-0'', cwRegistration = UnbornRepository,
     cwStatus = CandidateActive, cwPinned = True, cwLeaseExpiresAtMs = 5, cwRemovedAtMs = None\<rparr>"
  "snd (cpCandidates sample_pair) = \<lparr>cwIndex = Candidate1, cwWorkspacePath = ''/w/r-1'', cwRegistration = UnbornRepository,
     cwStatus = CandidateLoser, cwPinned = False, cwLeaseExpiresAtMs = 5, cwRemovedAtMs = None\<rparr>"
  "cpRequestId sample_pair = ''r''" "LEXICAL_ID ''r''" "candidate_path ''/w'' ''r'' Candidate1 = ''/w/r-1''" "safeTime 9"
  by code_simp+

lemma sample_cleanup:
  "mwEvents (snd (cleanupExpired reading_builtins sample_manager sample_manager_env sample_manager_world)) = [WorkspaceRemoved ''r'' Candidate1]"
  by (simp add: cleanupExpired_def locked_def cleanupExpiredCandidates_def cleanup_pair_def cleanup_candidate_def remove_candidate_def
      removalDecision_def requiredPair_def getPair_def read_manifest_def validateLexicalId_def removeCandidateWorkspace_def replaced_def
      write_manifest_eq mbind_def mcatch_def mfinally_def perform_def observe_def ask_def ret_def throw_def lift_def require_def elapse_def Let_def
      sample_manager_world_def sample_manager_env_def sample_manager_def now_ms_def isCandidateRegistered_def sample_parses sample_facts
      remove_path_def store_manifest_def)

theorem cleanup_removes_expired_losers_witness:
  "\<exists>p. manifest_is ''r'' p sample_manager_world \<and> removable sample_manager_env sample_manager p (pick Candidate1 (cpCandidates p))"
proof -
  obtain r w' where r: "cleanupExpired reading_builtins sample_manager sample_manager_env sample_manager_world = (r, w')" by force
  have "mwEvents w' = [WorkspaceRemoved ''r'' Candidate1]" using sample_cleanup by (simp add: r)
  with cleanup_removes_expired_losers[OF reads_pairs_reading sample_manifests_ok r] show ?thesis
    by (auto simp: sample_manager_world_def)
qed
section \<open>An interrupted creation\<close>

definition same_stores :: "'w managerWorld_scheme \<Rightarrow> 'w managerWorld_scheme \<Rightarrow> bool" where
  "same_stores v w \<longleftrightarrow> mwPaths w = mwPaths v \<and> mwManifests w = mwManifests v \<and> mwEvents w = mwEvents v"

lemma same_stores_elapse [simp]: "same_stores v (elapse w) = same_stores v w"
  by (simp add: same_stores_def)

lemma locked_keeps:
  assumes "\<And>w. P (elapse w) = P w" and "hoare E P m (post (\<lambda>x w. Q x \<and> P w) (\<lambda>_. P) P)"
  shows "hoare E P (locked m) (post (\<lambda>x w. Q x \<and> P w) (\<lambda>_. P) P)"
  by (rule locked_ok[OF _ _ _ _ _ assms(2)]) (simp_all add: assms(1))

lemma creation_blocked:
  assumes "candidate_path (cmWorktreesRoot M) (ciRequestId i) k \<in> set (mwPaths v)"
    and "map_of (mwManifests v) (ciRequestId i) = None"
  shows "hoare E (same_stores v) (createPair B M i) (post (\<lambda>p w. False \<and> same_stores v w) (\<lambda>_. same_stores v) (same_stores v))"
proof -
  have path: "cwWorkspacePath (pick j (cpCandidates (new_pair M i root t))) = candidate_path (cmWorktreesRoot M) (ciRequestId i) j" for j root t
    by (cases j) (simp_all add: new_pair_def createCandidateManifest_def Let_def)
  let ?Q = "post (\<lambda>p w. False \<and> same_stores v w) (\<lambda>_. same_stores v) (same_stores v)"
  have occupied: "hoare E (same_stores v) (paths_free (new_pair M i root t)) (post (\<lambda>_ _. False) (\<lambda>_. same_stores v) (same_stores v))" for root t
    unfolding paths_free_def each_def CANDIDATES_def mfold.simps path path_exists_def
    apply (rule hoare_pre, (rule wp_rules)+)
    using assms(1) by (cases k) (auto simp: same_stores_def)
  have creating: "hoare E (same_stores v) (create_new M i root) ?Q" for root
    unfolding create_new_def
    by (rule hoare_mbind[where M = "\<lambda>_. same_stores v"], rule hoare_pre, rule wp_now_ms, simp)
      (rule hoare_mbind[where M = "\<lambda>_ _. False"], rule hoare_weaken[OF occupied], simp_all add: post_def hoare_def split: outcome.splits)
  have never: "hoare E (\<lambda>_. False) m Q" for m :: "('b managerEnv_ext, 'a managerWorld_ext, 'c) prog" and Q
    by (simp add: hoare_def)
  have body: "hoare E (same_stores v) (createPairLocked B M i) ?Q"
    unfolding createPairLocked_def read_manifest_def
    apply (rule hoare_pre, (rule wp_rules creating never)+)
    using assms(2) by (auto simp: same_stores_def)
  show ?thesis
    unfolding createPair_def
  proof (rule hoare_mbind[where M = "\<lambda>_. same_stores v"])
    show "hoare E (same_stores v) (each validateLexicalId [ciRequestId i, ciSourceThreadId i, ciCheckpointId i,
        fst (ciRetentionOwnerIds i), snd (ciRetentionOwnerIds i)]) (post (\<lambda>_. same_stores v) (\<lambda>e. ?Q (Thrown e)) (?Q Crashed))"
      by (rule hoare_weaken[where P' = "same_stores v" and Q' = "\<lambda>_. same_stores v"])
        (auto simp: keeps_def[symmetric] validateLexicalId_def post_def intro!: keeps_each split: outcome.splits)
    show "hoare E (same_stores v) (mbind (require (fst (ciRetentionOwnerIds i) \<noteq> snd (ciRetentionOwnerIds i)) (worktree_error InvalidInput))
        (\<lambda>_. locked (createPairLocked B M i))) ?Q"
      by (rule hoare_mbind[where M = "\<lambda>_. same_stores v"], rule hoare_require, simp, simp, rule locked_keeps[OF _ body], simp)
  qed
qed

text \<open>
  Claim C34 (interrupted_creation_blocks). When the process dies after the worktree of a candidate was made and before the manifest of
  the pair is written, the request can never get its pair: every later attempt fails because the
  path exists, and leaves the worktree, which no manifest names, where it is.
\<close>

theorem interrupted_creation_blocks:
  assumes "candidate_path (cmWorktreesRoot M) (ciRequestId i) k \<in> set (mwPaths w)"
    and "map_of (mwManifests w) (ciRequestId i) = None" and "createPair B M i E w = (r, w')"
  shows "(\<forall>p. r \<noteq> Value p) \<and> mwPaths w' = mwPaths w \<and> mwManifests w' = mwManifests w"
  using hoareD[OF creation_blocked[OF assms(1,2), where E = E and B = B], of w] assms(3)
  by (cases r) (simp_all add: same_stores_def)

definition sample_creation :: createPairInput where
  "sample_creation = \<lparr>ciRequestId = ''r'', ciSourceThreadId = ''t'', ciCheckpointId = ''c'', ciRetentionOwnerIds = (''o0'', ''o1''),
     ciSnapshotId = replicate 64 (CHR ''a''), ciBaselineHead = Some (replicate 40 (CHR ''b'')), ciDirty = False\<rparr>"

text \<open>The process dies right after \<open>git worktree add\<close> for the first candidate.\<close>

definition dying_env :: managerEnv where
  "dying_env = \<lparr>enFate = \<lambda>n. if n = 7 then CrashesAfter else Happens, meClock = \<lambda>_. NInt 9, meAnswer = \<lambda>_. Inr True,
     meText = \<lambda>_. Inr ''/s'', meCall = \<lambda>_. Inr (),
     meSource = \<lambda>_. Inr (replicate 64 (CHR ''a''), Some (replicate 40 (CHR ''b'')), False)\<rparr>"

definition dead_world :: managerWorld where
  "dead_world = snd (createPair reading_builtins sample_manager sample_creation dying_env
     \<lparr>tick = 0, mwManifests = [], mwPaths = [], mwEvents = []\<rparr>)"

lemma dead_world_facts: "mwPaths dead_world = [''/w/r-0'']" "mwManifests dead_world = []"
  by code_simp+

theorem interrupted_creation_blocks_witness:
  "fst (createPair reading_builtins sample_manager sample_creation sample_manager_env dead_world) \<noteq> Value sample_pair \<and>
   mwPaths (snd (createPair reading_builtins sample_manager sample_creation sample_manager_env dead_world)) = [''/w/r-0'']"
proof -
  obtain r w' where r: "createPair reading_builtins sample_manager sample_creation sample_manager_env dead_world = (r, w')" by force
  have path: "candidate_path (cmWorktreesRoot sample_manager) (ciRequestId sample_creation) Candidate0 \<in> set (mwPaths dead_world)"
    and none: "map_of (mwManifests dead_world) (ciRequestId sample_creation) = None"
    unfolding dead_world_facts by code_simp+
  from interrupted_creation_blocks[OF path none r] show ?thesis by (simp add: r dead_world_facts)
qed
section \<open>What the manager leaves alone\<close>

definition manager_frame :: "('w managerWorld_scheme \<Rightarrow> bool) \<Rightarrow> bool" where
  "manager_frame P \<longleftrightarrow> untimed P \<and> (\<forall>p w. P w \<longrightarrow> P (store_manifest p w)) \<and> (\<forall>p e w. P w \<longrightarrow> P (add_path p e w)) \<and>
     (\<forall>p e w. P w \<longrightarrow> P (remove_path p e w))"

lemma keeps_basic:
  assumes "manager_frame P"
  shows "keeps E P (observe g)" and "keeps E P (ask q)" and "keeps E P (perform e id)" and "keeps E P (write_manifest p)"
    and "keeps E P (perform e (add_path d v))" and "keeps E P (perform e (remove_path d v))"
  using assms by (auto simp: manager_frame_def write_manifest_eq intro!: keeps_observe keeps_ask keeps_perform)

lemma keeps_case_option [intro!]:
  "(v = None \<Longrightarrow> keeps E P m) \<Longrightarrow> (\<And>x. v = Some x \<Longrightarrow> keeps E P (n x)) \<Longrightarrow> keeps E P (case v of None \<Rightarrow> m | Some x \<Rightarrow> n x)"
  by (cases v) simp_all

lemma keeps_case_prod [intro!]: "(\<And>x y. keeps E P (m x y)) \<Longrightarrow> keeps E P (case v of (x, y) \<Rightarrow> m x y)"
  by (cases v) simp

lemma keeps_if [intro!]: "(b \<Longrightarrow> keeps E P m) \<Longrightarrow> (\<not> b \<Longrightarrow> keeps E P n) \<Longrightarrow> keeps E P (if b then m else n)"
  by simp

lemma keeps_Let [intro!]: "keeps E P (m v) \<Longrightarrow> keeps E P (let x = v in m x)"
  by simp

lemma keeps_locked: "manager_frame P \<Longrightarrow> keeps E P m \<Longrightarrow> keeps E P (locked m)"
  unfolding locked_def by (intro keeps_mbind keeps_mfinally keeps_basic)

lemma keeps_reads:
  assumes "manager_frame P"
  shows "keeps E P now_ms" and "keeps E P (path_exists p)" and "keeps E P (isCandidateRegistered)" and "keeps E P (validateLexicalId s)"
    and "keeps E P (getPair B request)" and "keeps E P (requiredPair B request)" and "keeps E P (read_manifest B request)"
  using keeps_basic[OF assms]
  by (auto simp: now_ms_def path_exists_def isCandidateRegistered_def validateLexicalId_def getPair_def requiredPair_def read_manifest_def)

lemma keeps_updates:
  assumes "manager_frame P"
  shows "keeps E P (setStatus B request i s)" and "keeps E P (setPinned B request i b)" and "keeps E P (renewLease B M request i)"
    and "keeps E P (getPairForPromotion B M request i)"
  using keeps_basic[OF assms] keeps_reads[OF assms]
  by (auto simp: setStatus_def setPinned_def renewLease_def update_candidate_def replaced_def getPairForPromotion_def
      intro!: keeps_locked[OF assms])

lemma keeps_createPair: assumes "manager_frame P" shows "keeps E P (createPair B M i)"
proof -
  note basic = keeps_basic[OF assms] keeps_reads[OF assms]
  have "keeps E P (all_present M p is)" for p "is"
    by (induction "is") (use basic in \<open>auto simp: Let_def\<close>)
  moreover have "keeps E P (createCandidate p c)" and "keeps E P (rollback p)" for p c
    using basic by (auto simp: createCandidate_def rollback_def intro!: keeps_each)
  ultimately show ?thesis
    by (auto simp: createPair_def createPairLocked_def matches_def create_new_def paths_free_def create_workspaces_def
        intro!: basic keeps_locked[OF assms] keeps_each)
qed

lemma keeps_cleanupExpired: assumes "manager_frame P" shows "keeps E P (cleanupExpired B M)"
proof -
  note basic = keeps_basic[OF assms] keeps_reads[OF assms]
  have "keeps E P (removalDecision M p c)" for p c
    using basic by (cases "cwStatus c") (auto simp: removalDecision_def)
  moreover have "keeps E P (remove_candidate c pr)" for c pr
    using basic by (auto simp: remove_candidate_def removeCandidateWorkspace_def replaced_def)
  ultimately have "keeps E P (cleanup_candidate M c pr)" for c pr
    by (cases pr) (auto simp: cleanup_candidate_def split: removalDecision.split)
  then show ?thesis
    by (auto simp: cleanupExpired_def cleanupExpiredCandidates_def cleanup_pair_def
        intro!: basic keeps_locked[OF assms] keeps_mfold)
qed

end
