(* ===== verification/Promotion.thy ===== *)
theory Promotion
  imports CandidateManager
begin

text \<open>
  Publishing the winning candidate: \<open>src/src/repository/candidate-promotion-record.ts\<close> and
  \<open>candidate-promotion.ts\<close>. The record of a request goes from scored to promoting to promoted;
  the world holds the text of every record and, newest first, the publications that may have
  changed the source. The transaction on the source tree either publishes, rolls back, or fails
  to roll back; its own steps are the subject of \<open>SourceTree\<close>.
\<close>

section \<open>Records\<close>

record promotionScore =
  prRequestId :: string
  prExpectedSnapshotId :: string
  prWinner :: candidateIndex
  prReceipts :: "candidateScoreReceipt \<times> candidateScoreReceipt"
  prEffects :: candidateEffects
  prTieDecision :: "candidateIndex option"

datatype promotionState = PromotionScored | PromotionPromoting | PromotionPromoted string

type_synonym promotionRecord = "promotionScore \<times> promotionState"

definition record_error :: "'a result" where "record_error = Inl CandidatePromotionRecordError"

text \<open>The object that is printed for a record.\<close>

definition int_object :: "int \<Rightarrow> js" where "int_object i = JNum (NInt i)"

definition texts_object :: "string list \<Rightarrow> js" where "texts_object ts = JArr (map JStr ts)"

definition score_receipt_object :: "candidateScoreReceipt \<Rightarrow> js" where
  "score_receipt_object r = JObj
     [(''candidateIndex'', int_object (index_number (csrIndex r))), (''eligible'', JBool (csrEligible r)),
      (''ineligibilityReasons'', texts_object (csrIneligibilityReasons r)),
      (''failedHostChecks'', int_object (csrFailedHostChecks r)),
      (''unresolvedRiskCount'', int_object (int (csrUnresolvedRiskCount r))),
      (''changedPathCount'', int_object (int (csrChangedPathCount r))),
      (''changedByteCount'', int_object (csrChangedByteCount r)),
      (''changedPaths'', texts_object (csrChangedPaths r)), (''score'', JArr (map int_object (csrScore r)))]"

definition effects_object :: "candidateEffects \<Rightarrow> js" where
  "effects_object e = JObj [(''fullyKnown'', JBool (ceFullyKnown e)), (''fullyCompensable'', JBool (ceFullyCompensable e))]"

definition tie_object :: "candidateIndex \<Rightarrow> js" where
  "tie_object i = JObj [(''protocolVersion'', int_object 1), (''winnerCandidateIndex'', int_object (index_number i))]"

definition promotion_object :: "promotionRecord \<Rightarrow> js" where
  "promotion_object r = (let s = fst r in JObj
     ([(''protocolVersion'', int_object 1), (''requestId'', JStr (prRequestId s)),
       (''expectedSnapshotId'', JStr (prExpectedSnapshotId s)),
       (''winnerCandidateIndex'', int_object (index_number (prWinner s))),
       (''scoreReceipts'', JArr [score_receipt_object (fst (prReceipts s)), score_receipt_object (snd (prReceipts s))]),
       (''effects'', effects_object (prEffects s))] @
      (case prTieDecision s of None \<Rightarrow> [] | Some i \<Rightarrow> [(''tieDecision'', tie_object i)]) @
      (case snd r of
         PromotionScored \<Rightarrow> [(''state'', JStr ''scored'')]
       | PromotionPromoting \<Rightarrow> [(''state'', JStr ''promoting'')]
       | PromotionPromoted f \<Rightarrow> [(''state'', JStr ''promoted''), (''finalSnapshotId'', JStr f)])))"

definition promotion_text :: "promotionRecord \<Rightarrow> string" where
  "promotion_text r = plain_text (promotion_object r) @ [CHR 0x0A]"

text \<open>Reading a record.\<close>

definition safeNumber :: "js \<Rightarrow> int result" where
  "safeNumber v = (case v of JNum (NInt i) \<Rightarrow> if 0 \<le> i \<and> i \<le> max_safe_integer then Inr i else record_error | _ \<Rightarrow> record_error)"

definition record_text :: "(string \<Rightarrow> bool) \<Rightarrow> js \<Rightarrow> string result" where
  "record_text ok v = (case v of JStr s \<Rightarrow> if ok s then Inr s else record_error | _ \<Rightarrow> record_error)"

definition record_bool :: "js \<Rightarrow> bool result" where
  "record_bool v = (case v of JBool b \<Rightarrow> Inr b | _ \<Rightarrow> record_error)"

definition record_list :: "(js \<Rightarrow> 'a result) \<Rightarrow> js \<Rightarrow> 'a list result" where
  "record_list f v = (case v of JArr xs \<Rightarrow> traverse f xs | _ \<Rightarrow> record_error)"

definition record_index :: "js \<Rightarrow> candidateIndex result" where
  "record_index v = (if v = int_object 0 then Inr Candidate0 else if v = int_object 1 then Inr Candidate1 else record_error)"

definition repositoryPath :: "string \<Rightarrow> bool" where
  "repositoryPath p \<longleftrightarrow> p \<noteq> [] \<and> hd p \<noteq> CHR ''/'' \<and> CHR 0x5C \<notin> set p \<and> CHR 0x00 \<notin> set p \<and>
     (\<forall>s \<in> set (split_on (CHR ''/'') p). s \<noteq> [] \<and> s \<noteq> ''.'' \<and> s \<noteq> ''..'') \<and> p \<noteq> ''.git'' \<and> take 5 p \<noteq> ''.git/''"

definition parseReceipt :: "js \<Rightarrow> candidateIndex \<Rightarrow> candidateScoreReceipt result" where
  "parseReceipt v i =
     (if \<not> is_record v \<or> jget v ''candidateIndex'' \<noteq> int_object (index_number i) then record_error else
     sbind (record_bool (jget v ''eligible'')) (\<lambda>eligible.
     sbind (record_list (record_text (\<lambda>_. True)) (jget v ''ineligibilityReasons'')) (\<lambda>reasons.
     sbind (record_list (record_text (\<lambda>_. True)) (jget v ''changedPaths'')) (\<lambda>paths.
     sbind (safeNumber (jget v ''failedHostChecks'')) (\<lambda>failed.
     sbind (safeNumber (jget v ''unresolvedRiskCount'')) (\<lambda>risks.
     sbind (safeNumber (jget v ''changedPathCount'')) (\<lambda>count.
     sbind (safeNumber (jget v ''changedByteCount'')) (\<lambda>bytes.
     sbind (record_list safeNumber (jget v ''score'')) (\<lambda>score.
     if count \<noteq> int (length paths) \<or> paths \<noteq> sort paths \<or> \<not> list_all repositoryPath paths then record_error
     else Inr \<lparr>csrIndex = i, csrEligible = eligible, csrIneligibilityReasons = reasons, csrFailedHostChecks = failed,
       csrUnresolvedRiskCount = nat risks, csrChangedPathCount = nat count, csrChangedByteCount = bytes,
       csrChangedPaths = paths, csrScore = score\<rparr>)))))))))"

definition parse_receipts :: "js \<Rightarrow> (candidateScoreReceipt \<times> candidateScoreReceipt) result" where
  "parse_receipts v =
     (case v of
        JArr [a, b] \<Rightarrow> sbind (parseReceipt a Candidate0) (\<lambda>x. sbind (parseReceipt b Candidate1) (\<lambda>y. Inr (x, y)))
      | _ \<Rightarrow> record_error)"

definition parse_effects :: "js \<Rightarrow> candidateEffects result" where
  "parse_effects v =
     (if \<not> is_record v then record_error else
      sbind (record_bool (jget v ''fullyKnown'')) (\<lambda>k. sbind (record_bool (jget v ''fullyCompensable'')) (\<lambda>c.
      Inr \<lparr>ceFullyKnown = k, ceFullyCompensable = c\<rparr>)))"

definition parse_tie :: "js \<Rightarrow> candidateIndex option result" where
  "parse_tie v =
     (if v = JUndef then Inr None
      else if is_record v \<and> length (keys_of v) = 2 \<and> jget v ''protocolVersion'' = int_object 1
      then sbind (record_index (jget v ''winnerCandidateIndex'')) (\<lambda>i. Inr (Some i)) else record_error)"

definition parse_promotion_state :: "js \<Rightarrow> promotionState result" where
  "parse_promotion_state v =
     (if jget v ''state'' = JStr ''scored'' then Inr PromotionScored
      else if jget v ''state'' = JStr ''promoting'' then Inr PromotionPromoting
      else if jget v ''state'' = JStr ''promoted''
      then sbind (record_text SHA256 (jget v ''finalSnapshotId'')) (\<lambda>f. Inr (PromotionPromoted f))
      else record_error)"

definition parse_record :: "js \<Rightarrow> promotionRecord result" where
  "parse_record v =
     (if \<not> is_record v \<or> jget v ''protocolVersion'' \<noteq> int_object 1 then record_error else
     sbind (record_text LEXICAL_ID (jget v ''requestId'')) (\<lambda>request.
     sbind (record_text SHA256 (jget v ''expectedSnapshotId'')) (\<lambda>snapshot.
     sbind (record_index (jget v ''winnerCandidateIndex'')) (\<lambda>winner.
     sbind (parse_effects (jget v ''effects'')) (\<lambda>effects.
     sbind (parse_tie (jget v ''tieDecision'')) (\<lambda>tie.
     sbind (parse_receipts (jget v ''scoreReceipts'')) (\<lambda>receipts.
     sbind (parse_promotion_state v) (\<lambda>state.
     Inr (\<lparr>prRequestId = request, prExpectedSnapshotId = snapshot, prWinner = winner, prReceipts = receipts,
           prEffects = effects, prTieDecision = tie\<rparr>, state)))))))))"

definition parsePromotionRecord :: "builtins \<Rightarrow> string \<Rightarrow> promotionRecord result" where
  "parsePromotionRecord B t = (case json_parse B t of None \<Rightarrow> record_error | Some v \<Rightarrow> parse_record v)"

definition samePromotionScore :: "promotionRecord \<Rightarrow> promotionRecord \<Rightarrow> bool" where
  "samePromotionScore l r \<longleftrightarrow> plain_text (promotion_object l) = plain_text (promotion_object r)"

section \<open>Which scores may be promoted\<close>

fun padded_difference :: "int list \<Rightarrow> int list \<Rightarrow> int" where
  "padded_difference [] [] = 0"
| "padded_difference (l # ls) [] = (if l \<noteq> 0 then l else padded_difference ls [])"
| "padded_difference [] (r # rs) = (if r \<noteq> 0 then - r else padded_difference [] rs)"
| "padded_difference (l # ls) (r # rs) = (if l \<noteq> r then l - r else padded_difference ls rs)"

definition promotion_compare :: "candidateScoreReceipt \<Rightarrow> candidateScoreReceipt \<Rightarrow> int" where
  "promotion_compare l r =
     (let d = padded_difference (csrScore l) (csrScore r)
      in if d \<noteq> 0 then d else index_number (csrIndex l) - index_number (csrIndex r))"

definition assertSafeScore :: "promotionScore \<Rightarrow> unit result" where
  "assertSafeScore s =
     (if \<not> ceFullyKnown (prEffects s) \<or> \<not> ceFullyCompensable (prEffects s) then Inl (CandidatePromotionError promotion_code.UnsafeEffects)
      else let eligible = sort_by promotion_compare (filter csrEligible [fst (prReceipts s), snd (prReceipts s)])
      in case eligible of
           [] \<Rightarrow> Inl (CandidatePromotionError InvalidReceipt)
         | winner # _ \<Rightarrow>
             let tied = filter (\<lambda>r. csrScore r = csrScore winner) eligible
             in if length tied = 1 \<and> csrIndex winner = prWinner s then Inr ()
                else if length tied \<noteq> 2 \<or> prTieDecision s \<noteq> Some (prWinner s) then Inl (CandidatePromotionError InvalidReceipt)
                else Inr ())"

definition classifyPromotionError :: "error \<Rightarrow> error" where
  "classifyPromotionError e =
     (case e of
        CandidatePromotionError c \<Rightarrow> e
      | CandidatePromotionRecordError \<Rightarrow> CandidatePromotionError InvalidReceipt
      | CandidatePromotionFileError \<Rightarrow> CandidatePromotionError UnsafeCandidate
      | SourceTreeTransactionError TransactionSnapshot \<Rightarrow> CandidatePromotionError promotion_code.SourceChanged
      | RepositorySnapshotStoreError SnapshotSourceChanged \<Rightarrow> CandidatePromotionError promotion_code.SourceChanged
      | RepositorySnapshotStoreError UnsafeEntry \<Rightarrow> CandidatePromotionError UnsafeCandidate
      | _ \<Rightarrow> CandidatePromotionError PublishFailed)"
section \<open>The promotion\<close>

text \<open>
  What a transaction on the source tree does: it publishes, and the source then has the given
  snapshot; it fails and restores the source; or it fails and cannot restore it.
\<close>

datatype transactionOutcome = TransactionPublished string | TransactionRolledBack error | TransactionStuck error

datatype publication = Published string candidateIndex string

record promotionEnv = managerEnv +
  peCapture :: "nat \<Rightarrow> (string \<times> string option) result"
  peHead :: "nat \<Rightarrow> string option result"
  peDelta :: "nat \<Rightarrow> (string list \<times> int) result"
  peTransaction :: "nat \<Rightarrow> transactionOutcome"

record promotionWorld = managerWorld +
  pwRecords :: "(string \<times> string) list"
  pwPublications :: "publication list"

definition promotion_error :: "promotion_code \<Rightarrow> error" where "promotion_error c = CandidatePromotionError c"

definition store_record :: "promotionRecord \<Rightarrow> 'w promotionWorld_scheme \<Rightarrow> 'w promotionWorld_scheme" where
  "store_record r w = w\<lparr>pwRecords := AList.update (prRequestId (fst r)) (promotion_text r) (pwRecords w)\<rparr>"

definition writeRecord :: "promotionRecord \<Rightarrow> ('e, 'w promotionWorld_ext managerWorld_ext, unit) prog" where
  "writeRecord r = perform node_error (store_record r)"

definition getRecord :: "builtins \<Rightarrow> string \<Rightarrow> ('e, 'w promotionWorld_ext managerWorld_ext, promotionRecord option) prog" where
  "getRecord B request =
     (if \<not> LEXICAL_ID request then throw (promotion_error InvalidReceipt)
      else mbind (observe (\<lambda>w. map_of (pwRecords w) request)) (\<lambda>file.
        case file of
          None \<Rightarrow> ret None
        | Some t \<Rightarrow>
            (case parsePromotionRecord B t of
               Inr r \<Rightarrow> ret (Some r)
             | Inl CandidatePromotionRecordError \<Rightarrow> throw (promotion_error InvalidReceipt)
             | Inl e \<Rightarrow> throw e)))"

definition validatedRecord :: "builtins \<Rightarrow> promotionScore \<Rightarrow> promotionRecord result" where
  "validatedRecord B s =
     (case parsePromotionRecord B (plain_text (promotion_object (s, PromotionScored))) of
        Inr r \<Rightarrow> Inr r
      | Inl CandidatePromotionRecordError \<Rightarrow> Inl (promotion_error InvalidReceipt)
      | Inl e \<Rightarrow> Inl e)"

definition recordScored ::
    "builtins \<Rightarrow> candidateManager \<Rightarrow> promotionScore \<Rightarrow> ('e managerEnv_ext, 'w promotionWorld_ext managerWorld_ext, unit) prog" where
  "recordScored B M s =
     mbind (getPairForPromotion B M (prRequestId s) (prWinner s)) (\<lambda>p.
     if prExpectedSnapshotId s \<noteq> cpSnapshotId p then throw (promotion_error InvalidReceipt)
     else mbind (lift (validatedRecord B s)) (\<lambda>r.
       locked (mbind (getRecord B (prRequestId s)) (\<lambda>existing.
         case existing of
           None \<Rightarrow> writeRecord r
         | Some x \<Rightarrow>
             if snd x = PromotionScored \<and> samePromotionScore x r then ret ()
             else throw (promotion_error AlreadyPromoted)))))"

text \<open>\<open>SourceTreeTransaction.open\<close> and its checks; a failure puts the record back to scored.\<close>

definition openTransaction ::
    "builtins \<Rightarrow> candidateManager \<Rightarrow> promotionScore \<Rightarrow> ('e promotionEnv_ext managerEnv_ext, 'w promotionWorld_ext managerWorld_ext, unit) prog" where
  "openTransaction B M s =
     mcatch
       (mbind (lift (assertSafeScore s)) (\<lambda>_.
        mbind (getPairForPromotion B M (prRequestId s) (prWinner s)) (\<lambda>p.
        if cpSnapshotId p \<noteq> prExpectedSnapshotId s \<or> cwStatus (pick (prWinner s) (cpCandidates p)) \<noteq> CandidateWinner False
        then throw (promotion_error UnsafeCandidate)
        else mbind (ask peHead) (\<lambda>head.
          if head \<noteq> cpBaselineHead p then throw (promotion_error UnsafeCandidate)
          else mbind (ask meAnswer) (\<lambda>own_root.
            if \<not> own_root then throw (promotion_error UnsafeCandidate) else ask meCall)))))
       (\<lambda>e. mbind (writeRecord (s, PromotionScored)) (\<lambda>_. throw (classifyPromotionError e)))"

text \<open>\<open>transaction.publish\<close>: what it may have done to the source is logged with the publication.\<close>

definition publish_source ::
    "string \<Rightarrow> candidateIndex \<Rightarrow> string \<Rightarrow> ('e promotionEnv_ext managerEnv_ext, 'w promotionWorld_ext managerWorld_ext, string) prog" where
  "publish_source request winner snapshot E w =
     (let w' = elapse w; published = w'\<lparr>pwPublications := Published request winner snapshot # pwPublications w'\<rparr>
      in case enFate E (tick w) of
           CrashesBefore \<Rightarrow> (Crashed, w')
         | CrashesAfter \<Rightarrow> (Crashed, published)
         | _ \<Rightarrow>
            (case peTransaction E (tick w) of
               TransactionPublished final \<Rightarrow> (Value final, published)
             | TransactionRolledBack e \<Rightarrow> (Thrown e, w')
             | TransactionStuck e \<Rightarrow> (Thrown e, published)))"

definition publish ::
    "builtins \<Rightarrow> candidateManager \<Rightarrow> promotionScore \<Rightarrow> ('e promotionEnv_ext managerEnv_ext, 'w promotionWorld_ext managerWorld_ext, promotionRecord) prog" where
  "publish B M s =
     mbind (getPairForPromotion B M (prRequestId s) (prWinner s)) (\<lambda>p.
     mbind (ask peCapture) (\<lambda>current.
     if current \<noteq> (prExpectedSnapshotId s, cpBaselineHead p) then throw (promotion_error promotion_code.SourceChanged)
     else mbind (ask meCall) (\<lambda>_.
       mbind (ask peDelta) (\<lambda>delta.
       let receipt = pick (prWinner s) (prReceipts s)
       in if snd delta \<noteq> csrChangedByteCount receipt \<or> fst delta \<noteq> csrChangedPaths receipt
          then throw (promotion_error InvalidReceipt)
          else mbind (publish_source (prRequestId s) (prWinner s) (fst current)) (\<lambda>final. ret (s, PromotionPromoted final))))))"

definition promoteLocked ::
    "builtins \<Rightarrow> candidateManager \<Rightarrow> string \<Rightarrow> ('e promotionEnv_ext managerEnv_ext, 'w promotionWorld_ext managerWorld_ext, promotionRecord) prog" where
  "promoteLocked B M request =
     mbind (getRecord B request) (\<lambda>scored.
     case scored of
       None \<Rightarrow> throw (promotion_error InvalidReceipt)
     | Some (s, state) \<Rightarrow>
         if state \<noteq> PromotionScored then throw (promotion_error AlreadyPromoted)
         else mbind (writeRecord (s, PromotionPromoting)) (\<lambda>_.
           mbind (openTransaction B M s) (\<lambda>_.
           mfinally
             (mcatch
               (mbind (publish B M s) (\<lambda>terminal. mbind (writeRecord terminal) (\<lambda>_. ret terminal)))
               (\<lambda>e. mbind (writeRecord (s, PromotionScored)) (\<lambda>_. throw (classifyPromotionError e))))
             (perform node_error id))))"

definition promote ::
    "builtins \<Rightarrow> candidateManager \<Rightarrow> string \<Rightarrow> ('e promotionEnv_ext managerEnv_ext, 'w promotionWorld_ext managerWorld_ext, promotionRecord) prog" where
  "promote B M request =
     mbind (getPair B request) (\<lambda>p.
     case p of None \<Rightarrow> throw (promotion_error InvalidReceipt) | Some _ \<Rightarrow> locked (promoteLocked B M request))"
section \<open>Records reload\<close>

definition safe_count :: "int \<Rightarrow> bool" where "safe_count i \<longleftrightarrow> 0 \<le> i \<and> i \<le> max_safe_integer"

definition receipt_ok :: "candidateIndex \<Rightarrow> candidateScoreReceipt \<Rightarrow> bool" where
  "receipt_ok i r \<longleftrightarrow> csrIndex r = i \<and> safe_count (csrFailedHostChecks r) \<and> safe_count (int (csrUnresolvedRiskCount r)) \<and>
     safe_count (int (csrChangedPathCount r)) \<and> safe_count (csrChangedByteCount r) \<and> list_all safe_count (csrScore r) \<and>
     csrChangedPathCount r = length (csrChangedPaths r) \<and> sorted (csrChangedPaths r) \<and>
     list_all repositoryPath (csrChangedPaths r)"

definition score_ok :: "promotionScore \<Rightarrow> bool" where
  "score_ok s \<longleftrightarrow> LEXICAL_ID (prRequestId s) \<and> SHA256 (prExpectedSnapshotId s) \<and>
     receipt_ok Candidate0 (fst (prReceipts s)) \<and> receipt_ok Candidate1 (snd (prReceipts s))"

fun promotion_state_ok :: "promotionState \<Rightarrow> bool" where
  "promotion_state_ok (PromotionPromoted f) = SHA256 f"
| "promotion_state_ok _ = True"

definition record_ok :: "promotionRecord \<Rightarrow> bool" where
  "record_ok r \<longleftrightarrow> score_ok (fst r) \<and> promotion_state_ok (snd r)"

lemma record_error_Inr [simp]: "record_error \<noteq> Inr x"
  by (simp add: record_error_def)

lemma record_readers:
  "safeNumber (int_object i) = (if safe_count i then Inr i else record_error)"
  "record_text ok (JStr s) = (if ok s then Inr s else record_error)"
  "record_bool (JBool b) = Inr b"
  "record_index (int_object (index_number k)) = Inr k"
  "record_list f (JArr xs) = traverse f xs"
  by (cases k; simp add: safeNumber_def int_object_def safe_count_def record_text_def record_bool_def record_index_def
      record_list_def index_number_def)+

lemma traverse_map_Inr: "(\<And>x. x \<in> set xs \<Longrightarrow> f (g x) = Inr x) \<Longrightarrow> traverse f (map g xs) = Inr xs"
  by (induction xs) auto

lemma parse_texts: "record_list (record_text (\<lambda>_. True)) (texts_object ts) = Inr ts"
  by (simp add: texts_object_def record_readers traverse_map_Inr)

lemma parse_numbers: "list_all safe_count xs \<Longrightarrow> record_list safeNumber (JArr (map int_object xs)) = Inr xs"
  by (simp add: record_list_def list_all_iff traverse_map_Inr record_readers(1))

lemma parseReceipt_object:
  assumes "receipt_ok i r"
  shows "parseReceipt (score_receipt_object r) i = Inr r"
proof -
  have "csrIndex r = i" "safe_count (csrFailedHostChecks r)" "safe_count (int (csrUnresolvedRiskCount r))"
    "safe_count (int (csrChangedPathCount r))" "safe_count (csrChangedByteCount r)" "list_all safe_count (csrScore r)"
    "int (csrChangedPathCount r) = int (length (csrChangedPaths r))" "sort (csrChangedPaths r) = csrChangedPaths r"
    "list_all repositoryPath (csrChangedPaths r)"
    using assms unfolding receipt_ok_def by (metis sorted_sort_id)+
  then show ?thesis
    by (simp add: parseReceipt_def score_receipt_object_def jget_def is_record_def record_readers(1-4) parse_texts parse_numbers)
qed

lemma parse_state_object:
  "promotion_state_ok st \<Longrightarrow> parse_promotion_state (promotion_object (s, st)) = Inr st"
  by (cases st; cases "prTieDecision s")
    (simp_all add: parse_promotion_state_def promotion_object_def Let_def jget_def record_readers)

lemma parse_tie_object: "parse_tie (tie_object i) = Inr (Some i)"
  by (simp add: parse_tie_def tie_object_def is_record_def keys_of_def jget_def record_readers)

lemma promotion_object_members:
  "is_record (promotion_object r)"
  "jget (promotion_object r) ''protocolVersion'' = int_object 1"
  "jget (promotion_object r) ''requestId'' = JStr (prRequestId (fst r))"
  "jget (promotion_object r) ''expectedSnapshotId'' = JStr (prExpectedSnapshotId (fst r))"
  "jget (promotion_object r) ''winnerCandidateIndex'' = int_object (index_number (prWinner (fst r)))"
  "jget (promotion_object r) ''scoreReceipts'' = JArr [score_receipt_object (fst (prReceipts (fst r))), score_receipt_object (snd (prReceipts (fst r)))]"
  "jget (promotion_object r) ''effects'' = effects_object (prEffects (fst r))"
  "jget (promotion_object r) ''tieDecision'' = (case prTieDecision (fst r) of None \<Rightarrow> JUndef | Some i \<Rightarrow> tie_object i)"
  by (simp_all add: promotion_object_def Let_def is_record_def jget_def split: option.split promotionState.split)

lemma parse_effects_object: "parse_effects (effects_object e) = Inr e"
  by (simp add: parse_effects_def effects_object_def is_record_def jget_def record_readers)

lemma parse_receipts_objects:
  "receipt_ok Candidate0 a \<Longrightarrow> receipt_ok Candidate1 b \<Longrightarrow> parse_receipts (JArr [score_receipt_object a, score_receipt_object b]) = Inr (a, b)"
  by (simp add: parse_receipts_def parseReceipt_object)

lemma parse_tie_option: "parse_tie (case t of None \<Rightarrow> JUndef | Some i \<Rightarrow> tie_object i) = Inr t"
  by (cases t) (simp_all add: parse_tie_object, simp add: parse_tie_def)

lemma parse_promotion_object:
  assumes "record_ok r"
  shows "parse_record (promotion_object r) = Inr r"
proof -
  have "score_ok (fst r)" and state: "parse_promotion_state (promotion_object r) = Inr (snd r)"
    using assms parse_state_object[of "snd r" "fst r"] by (simp_all add: record_ok_def)
  then show ?thesis
    by (simp add: parse_record_def promotion_object_members record_readers(2,4) parse_effects_object parse_receipts_objects
        parse_tie_option score_ok_def prod_eq_iff)
qed

definition reads_records :: "builtins \<Rightarrow> bool" where
  "reads_records B \<longleftrightarrow> (\<forall>r. record_ok r \<longrightarrow> json_parse B (promotion_text r) = Some (promotion_object r))"

lemma parse_promotion_text: "reads_records B \<Longrightarrow> record_ok r \<Longrightarrow> parsePromotionRecord B (promotion_text r) = Inr r"
  by (cases r) (simp add: reads_records_def parsePromotionRecord_def parse_promotion_object)

lemma safeNumber_Inr: "safeNumber v = Inr i \<longleftrightarrow> v = int_object i \<and> safe_count i"
  by (auto simp: safeNumber_def int_object_def safe_count_def split: js.splits jnum.splits)

lemma traverse_safe: "traverse safeNumber xs = Inr ys \<Longrightarrow> list_all safe_count ys"
  by (auto simp: list_all_iff safeNumber_Inr dest!: traverse_set)

lemma parseReceipt_ok: "parseReceipt v i = Inr r \<Longrightarrow> receipt_ok i r"
  by (simp add: parseReceipt_def sbind_eq_Inr safeNumber_Inr split: if_split_asm)
    (elim exE conjE; clarsimp simp: receipt_ok_def safe_count_def record_list_def traverse_safe split: js.split_asm; metis sorted_sort)

lemma parse_receipts_ok: "parse_receipts v = Inr (a, b) \<Longrightarrow> receipt_ok Candidate0 a \<and> receipt_ok Candidate1 b"
  by (auto simp: parse_receipts_def sbind_eq_Inr dest: parseReceipt_ok split: js.split_asm list.split_asm)

lemma record_text_Inr: "record_text ok v = Inr s \<longleftrightarrow> v = JStr s \<and> ok s"
  by (auto simp: record_text_def split: js.splits)

lemma parse_promotion_state_ok: "parse_promotion_state v = Inr st \<Longrightarrow> promotion_state_ok st"
  by (auto simp: parse_promotion_state_def sbind_eq_Inr record_text_Inr split: if_split_asm)

lemma parse_record_ok: "parse_record v = Inr r \<Longrightarrow> record_ok r"
  by (simp add: parse_record_def sbind_eq_Inr record_text_Inr split_paired_Ex split: if_split_asm)
    (elim exE conjE; drule parse_receipts_ok, drule parse_promotion_state_ok; clarsimp simp: record_ok_def score_ok_def)
section \<open>What a promotion may publish\<close>

definition record_is :: "string \<Rightarrow> promotionRecord \<Rightarrow> 'w promotionWorld_scheme \<Rightarrow> bool" where
  "record_is q r w \<longleftrightarrow> record_ok r \<and> prRequestId (fst r) = q \<and> map_of (pwRecords w) q = Some (promotion_text r)"

definition records_ok :: "'w promotionWorld_scheme \<Rightarrow> bool" where
  "records_ok w \<longleftrightarrow> (\<forall>q t. map_of (pwRecords w) q = Some t \<longrightarrow> (\<exists>r. record_is q r w))"

lemma promotion_elapse [simp]:
  "pwRecords (elapse w) = pwRecords w" "pwPublications (elapse w) = pwPublications w"
  by (simp_all add: elapse_def)

lemma promotion_manager [simp]:
  "pwRecords (store_manifest p w) = pwRecords w" "pwPublications (store_manifest p w) = pwPublications w"
  "pwRecords (add_path d e w) = pwRecords w" "pwPublications (add_path d e w) = pwPublications w"
  "pwRecords (remove_path d e w) = pwRecords w" "pwPublications (remove_path d e w) = pwPublications w"
  by (simp_all add: store_manifest_def add_path_def remove_path_def)

lemma store_record_simps [simp]:
  "map_of (pwRecords (store_record r w)) = (map_of (pwRecords w))(prRequestId (fst r) \<mapsto> promotion_text r)"
  "pwPublications (store_record r w) = pwPublications w"
  by (simp_all add: store_record_def update_conv')

lemma records_simps [simp]:
  "records_ok (elapse w) = records_ok w" "record_is q r (elapse w) = record_is q r w"
  "records_ok (w\<lparr>pwPublications := ps\<rparr>) = records_ok w" "record_is q r (w\<lparr>pwPublications := ps\<rparr>) = record_is q r w"
  by (simp_all add: records_ok_def record_is_def)

lemma records_manager [simp]:
  "records_ok (store_manifest p w) = records_ok w" "records_ok (add_path d e w) = records_ok w"
  "records_ok (remove_path d e w) = records_ok w"
  by (simp_all add: records_ok_def record_is_def)

lemma record_is_stored: "record_ok r \<Longrightarrow> record_is (prRequestId (fst r)) r (store_record r w)"
  by (simp add: record_is_def)

lemma records_ok_store:
  assumes "records_ok w" and "record_ok r"
  shows "records_ok (store_record r w)"
proof -
  have "\<exists>x. record_is q x (store_record r w)" if "map_of (pwRecords (store_record r w)) q = Some t" for q t
  proof (cases "q = prRequestId (fst r)")
    case True
    then show ?thesis using record_is_stored[OF assms(2)] by blast
  next
    case False
    with that assms(1) show ?thesis by (auto simp: records_ok_def record_is_def)
  qed
  then show ?thesis unfolding records_ok_def by blast
qed

lemma wp_getRecord [wp_rules]:
  assumes "reads_records B"
  shows "hoare E (\<lambda>w. records_ok w \<and> (\<forall>r. record_is q r w \<longrightarrow> Q (Value (Some r)) (elapse w)) \<and>
      (map_of (pwRecords w) q = None \<longrightarrow> Q (Value None) (elapse w)) \<and>
      (\<forall>e. Q (Thrown e) w \<and> Q (Thrown e) (elapse w)) \<and> Q Crashed (elapse w)) (getRecord B q) Q"
proof -
  have split: "hoare E (\<lambda>w. case parsePromotionRecord B t of Inr r \<Rightarrow> Q (Value (Some r)) w | Inl e \<Rightarrow> \<forall>e. Q (Thrown e) w)
      (case parsePromotionRecord B t of Inr r \<Rightarrow> ret (Some r)
        | Inl CandidatePromotionRecordError \<Rightarrow> throw (promotion_error InvalidReceipt) | Inl e \<Rightarrow> throw e) Q" for t
    by (cases "parsePromotionRecord B t") (auto intro!: hoare_ret hoare_throw split: error.split)
  show ?thesis
    unfolding getRecord_def
    apply (rule hoare_pre, (rule split wp_rules)+)
    using parse_promotion_text[OF assms]
    by (fastforce simp: records_ok_def record_is_def split: option.split)
qed

lemma wp_writeRecord [wp_rules]:
  "hoare E (\<lambda>w. Q (Value ()) (store_record r (elapse w)) \<and> Q (Thrown node_error) (elapse w) \<and> Q (Thrown node_error) (store_record r (elapse w)) \<and>
     Q Crashed (elapse w) \<and> Q Crashed (store_record r (elapse w))) (writeRecord r) Q"
  unfolding writeRecord_def by (rule wp_perform)

text \<open>Before and after a publication of the score \<open>s\<close>, seen from the world \<open>v\<close>.\<close>

definition quiet :: "'w promotionWorld_scheme \<Rightarrow> 'w promotionWorld_scheme \<Rightarrow> bool" where
  "quiet v w \<longleftrightarrow> records_ok w \<and> pwPublications w = pwPublications v"

definition loud :: "promotionScore \<Rightarrow> 'w promotionWorld_scheme \<Rightarrow> 'w promotionWorld_scheme \<Rightarrow> bool" where
  "loud s v w \<longleftrightarrow> records_ok w \<and>
     pwPublications w = Published (prRequestId s) (prWinner s) (prExpectedSnapshotId s) # pwPublications v"

lemma quiet_frame: "manager_frame (quiet v)" and loud_frame: "manager_frame (loud s v)"
  by (simp_all add: manager_frame_def untimed_def quiet_def loud_def)

lemma quiet_elapse [simp]: "quiet v (elapse w) = quiet v w" and loud_elapse [simp]: "loud s v (elapse w) = loud s v w"
  by (simp_all add: quiet_def loud_def)

lemma quiet_store: "quiet v w \<Longrightarrow> record_ok r \<Longrightarrow> quiet v (store_record r w)"
  and loud_store: "loud s v w \<Longrightarrow> record_ok r \<Longrightarrow> loud s v (store_record r w)"
  by (simp_all add: quiet_def loud_def records_ok_store)

definition final_ok :: "'e promotionEnv_scheme \<Rightarrow> bool" where
  "final_ok E \<longleftrightarrow> (\<forall>n f. peTransaction E n = TransactionPublished f \<longrightarrow> SHA256 f)"

lemma publish_source_ok:
  "hoare E (quiet v) (publish_source (prRequestId s) (prWinner s) (prExpectedSnapshotId s))
    (post (\<lambda>f w. loud s v w \<and> (\<exists>n. peTransaction E n = TransactionPublished f)) (\<lambda>_ w. quiet v w \<or> loud s v w) (\<lambda>w. quiet v w \<or> loud s v w))"
  by (rule hoareI) (auto simp: publish_source_def Let_def quiet_def loud_def split: fate.split transactionOutcome.split)

lemma keeps_post: "keeps E P m \<Longrightarrow> (\<And>w. P w \<Longrightarrow> A w) \<Longrightarrow> hoare E P m (post (\<lambda>_. P) (\<lambda>_. A) A)"
  by (auto simp: keeps_def hoare_def post_def split: outcome.splits)

lemma publish_ok:
  "hoare E (quiet v) (publish B M s)
    (post (\<lambda>r w. loud s v w \<and> (\<exists>f n. r = (s, PromotionPromoted f) \<and> peTransaction E n = TransactionPublished f))
      (\<lambda>_ w. quiet v w \<or> loud s v w) (\<lambda>w. quiet v w \<or> loud s v w))" (is "hoare E _ _ ?Q")
proof -
  let ?D = "\<lambda>w. quiet v w \<or> loud s v w"
  have step: "hoare E (quiet v) m (post (\<lambda>_. quiet v) (\<lambda>e. ?Q (Thrown e)) (?Q Crashed))" if "keeps E (quiet v) m" for m
    using keeps_post[OF that, of ?D] by simp
  note basic = keeps_basic[OF quiet_frame, of E v] keeps_updates[OF quiet_frame, of E v]
  show ?thesis
    unfolding publish_def Let_def
    apply (rule hoare_mbind, rule step, rule keeps_updates(4)[OF quiet_frame])
    apply (rule hoare_mbind, rule step, rule keeps_basic(2)[OF quiet_frame])
    apply (rule hoare_if, rule hoare_throw, simp)
    apply (rule hoare_mbind, rule step, rule keeps_basic(2)[OF quiet_frame])
    apply (rule hoare_mbind, rule step, rule keeps_basic(2)[OF quiet_frame])
    apply (rule hoare_if, rule hoare_throw, simp)
    apply (clarsimp simp del: split_paired_Ex)
    apply (rule hoare_mbind[where M = "\<lambda>f w. loud s v w \<and> (\<exists>n. peTransaction E n = TransactionPublished f)"])
     apply (rule hoare_weaken[OF publish_source_ok]; simp add: post_def split: outcome.splits)
    apply (rule hoare_ret)
    apply auto
    done
qed
lemma restore_record_ok:
  assumes "score_ok s" and "\<And>w. A w \<Longrightarrow> A (elapse w)" and "\<And>w. A w \<Longrightarrow> A (store_record (s, PromotionScored) w)"
  shows "hoare E A (mbind (writeRecord (s, PromotionScored)) (\<lambda>_. throw e)) (post (\<lambda>_ _. False) (\<lambda>_. A) A)"
  by (rule hoare_pre, (rule wp_rules)+) (simp add: assms)

lemma openTransaction_ok:
  assumes "score_ok s"
  shows "hoare E (quiet v) (openTransaction B M s) (post (\<lambda>_ w. quiet v w \<and> assertSafeScore s = Inr ()) (\<lambda>_. quiet v) (quiet v))"
proof -
  have restore: "hoare E (quiet v) (mbind (writeRecord (s, PromotionScored)) (\<lambda>_. throw (classifyPromotionError e)))
      (post (\<lambda>_ w. quiet v w \<and> assertSafeScore s = Inr ()) (\<lambda>_. quiet v) (quiet v))" for e
    by (rule hoare_weaken[OF restore_record_ok[OF assms, of "quiet v"]])
      (auto simp: quiet_store record_ok_def assms post_def split: outcome.splits)
  have step: "hoare E (quiet v) m (post (\<lambda>_. quiet v) (\<lambda>_. quiet v) (quiet v))" if "keeps E (quiet v) m" for m
    by (rule keeps_post[OF that])
  show ?thesis
  proof (cases "assertSafeScore s")
    case (Inl e)
    then show ?thesis
      unfolding openTransaction_def
      by (intro hoare_mcatch[where H = "\<lambda>_. quiet v", OF _ restore] hoare_mbind[where M = "\<lambda>_ _. False"])
        (auto simp: lift_def hoare_def throw_def)
  next
    case (Inr u)
    have "hoare E (quiet v) (openTransaction B M s) (post (\<lambda>_. quiet v) (\<lambda>_. quiet v) (quiet v))"
      unfolding openTransaction_def
      by (rule step) (auto intro!: keeps_basic[OF quiet_frame] keeps_updates[OF quiet_frame]
          simp: writeRecord_def keeps_perform quiet_frame[unfolded manager_frame_def] quiet_store record_ok_def assms)
    then show ?thesis using Inr by simp
  qed
qed

definition promoted_from :: "string \<Rightarrow> promotionScore \<Rightarrow> 'w promotionWorld_scheme \<Rightarrow> 'w promotionWorld_scheme \<Rightarrow> bool" where
  "promoted_from q s v w \<longleftrightarrow> record_is q (s, PromotionScored) v \<and> assertSafeScore s = Inr () \<and> loud s v w"

definition promotion_post ::
    "string \<Rightarrow> 'w promotionWorld_scheme \<Rightarrow> promotionRecord outcome \<Rightarrow> 'w promotionWorld_scheme \<Rightarrow> bool" where
  "promotion_post q v = post (\<lambda>r w. \<exists>s f. r = (s, PromotionPromoted f) \<and> promoted_from q s v w \<and> record_is q r w)
     (\<lambda>_ w. quiet v w \<or> (\<exists>s. promoted_from q s v w)) (\<lambda>w. quiet v w \<or> (\<exists>s. promoted_from q s v w))"

lemma promoted_from_elapse [simp]: "promoted_from q s v (elapse w) = promoted_from q s v w"
  by (simp add: promoted_from_def)

lemma promotion_post_elapse: "promotion_post q v r w \<Longrightarrow> promotion_post q v r (elapse w)"
  by (cases r) (auto simp: promotion_post_def)

lemma publication_ok:
  assumes "final_ok E" and "record_is q (s, PromotionScored) v" and "assertSafeScore s = Inr ()"
  shows "hoare E (quiet v) (mfinally
      (mcatch (mbind (publish B M s) (\<lambda>terminal. mbind (writeRecord terminal) (\<lambda>_. ret terminal)))
        (\<lambda>e. mbind (writeRecord (s, PromotionScored)) (\<lambda>_. throw (classifyPromotionError e))))
      (perform node_error id)) (promotion_post q v)"
proof -
  have s: "score_ok s" "q = prRequestId s" using assms(2) by (auto simp: record_is_def record_ok_def)
  have from_loud: "promoted_from q s v w" if "loud s v w" for w
    using that assms(2,3) by (simp add: promoted_from_def)
  let ?A = "\<lambda>w. quiet v w \<or> promoted_from q s v w"
  have kept: "?A (elapse w)" "?A (store_record (s, PromotionScored) w)" if "?A w" for w
    using that s by (auto simp: promoted_from_def quiet_store loud_store record_ok_def)
  have done_ok: "hoare E (\<lambda>w. loud s v w \<and> (\<exists>f n. r = (s, PromotionPromoted f) \<and> peTransaction E n = TransactionPublished f))
      (mbind (writeRecord r) (\<lambda>_. ret r)) (post (\<lambda>r. promotion_post q v (Value r)) (\<lambda>_. ?A) ?A)" for r
    apply (rule hoare_pre, (rule wp_rules)+)
    using assms(1) s from_loud record_is_stored[of r]
    by (auto simp: promotion_post_def final_ok_def record_ok_def loud_store intro!: from_loud)
  have attempt: "hoare E (quiet v) (mbind (publish B M s) (\<lambda>terminal. mbind (writeRecord terminal) (\<lambda>_. ret terminal)))
      (post (\<lambda>r. promotion_post q v (Value r)) (\<lambda>_. ?A) (promotion_post q v Crashed))"
    (is "hoare E _ _ ?Q")
  proof (rule hoare_mbind)
    have "?A w" if "quiet v w \<or> loud s v w" for w using that from_loud by blast
    moreover have "promotion_post q v Crashed w" if "quiet v w \<or> loud s v w" for w
      using that from_loud by (auto simp: promotion_post_def)
    ultimately show "hoare E (quiet v) (publish B M s)
        (post (\<lambda>r w. loud s v w \<and> (\<exists>f n. r = (s, PromotionPromoted f) \<and> peTransaction E n = TransactionPublished f))
          (\<lambda>e. ?Q (Thrown e)) (?Q Crashed))"
      by (intro hoare_weaken[OF publish_ok]) (auto simp: post_def split: outcome.splits)
    show "hoare E (\<lambda>w. loud s v w \<and> (\<exists>f n. r = (s, PromotionPromoted f) \<and> peTransaction E n = TransactionPublished f))
        (mbind (writeRecord r) (\<lambda>_. ret r)) ?Q" for r
      by (rule hoare_weaken[OF done_ok]) (auto simp: post_def promotion_post_def split: outcome.splits)
  qed
  have handler: "hoare E ?A (mbind (writeRecord (s, PromotionScored)) (\<lambda>_. throw (classifyPromotionError e))) (promotion_post q v)" for e
    by (rule hoare_weaken[OF restore_record_ok[where A = ?A, OF s(1)]])
      (use kept in \<open>auto simp: post_def promotion_post_def split: outcome.splits\<close>)
  have body: "hoare E (quiet v) (mcatch (mbind (publish B M s) (\<lambda>terminal. mbind (writeRecord terminal) (\<lambda>_. ret terminal)))
      (\<lambda>e. mbind (writeRecord (s, PromotionScored)) (\<lambda>_. throw (classifyPromotionError e)))) (promotion_post q v)"
    by (rule hoare_mcatch[OF attempt handler])
  show ?thesis
  proof (rule hoare_mfinally[where A = "promotion_post q v"])
    show "hoare E (quiet v) (mcatch (mbind (publish B M s) (\<lambda>terminal. mbind (writeRecord terminal) (\<lambda>_. ret terminal)))
      (\<lambda>e. mbind (writeRecord (s, PromotionScored)) (\<lambda>_. throw (classifyPromotionError e))))
      (post (\<lambda>x. promotion_post q v (Value x)) (\<lambda>e. promotion_post q v (Thrown e)) (promotion_post q v Crashed))"
      unfolding post_same by (rule body)
    show "hoare E (promotion_post q v r) (perform node_error id)
        (post (\<lambda>_. promotion_post q v r) (\<lambda>e. promotion_post q v (Thrown e)) (promotion_post q v Crashed))" for r
      by (rule hoare_perform; cases r; simp add: promotion_post_def; auto)
  qed
qed

lemma score_record_ok: "record_is q (s, st) w \<Longrightarrow> score_ok s"
  by (simp add: record_is_def record_ok_def)

lemma promoteLocked_ok:
  assumes "reads_records B" and "final_ok E"
  shows "hoare E (\<lambda>w. quiet v w \<and> pwRecords w = pwRecords v) (promoteLocked B M q) (promotion_post q v)"
proof -
  let ?P = "\<lambda>w. quiet v w \<and> pwRecords w = pwRecords v"
  let ?F = "\<lambda>found. found = None \<or> (\<exists>r. found = Some r \<and> record_is q r v)"
  have quiet_post: "promotion_post q v (Thrown e) w" "promotion_post q v Crashed w" if "quiet v w" for e w
    using that by (simp_all add: promotion_post_def)
  have lookup: "hoare E ?P (getRecord B q) (post (\<lambda>r w. quiet v w \<and> ?F r) (\<lambda>e. promotion_post q v (Thrown e)) (promotion_post q v Crashed))"
    by (rule hoare_pre, rule wp_getRecord[OF assms(1)]) (auto simp: quiet_post, auto simp: quiet_def record_is_def)
  have marked: "hoare E (quiet v) (writeRecord (s, PromotionPromoting)) (post (\<lambda>_. quiet v) (\<lambda>e. promotion_post q v (Thrown e)) (promotion_post q v Crashed))"
    if "record_is q (s, PromotionScored) v" for s
    by (rule hoare_pre, rule wp_writeRecord) (use score_record_ok[OF that] in \<open>auto simp: quiet_store record_ok_def quiet_post\<close>)
  have go: "hoare E (quiet v) (mbind (writeRecord (s, PromotionPromoting)) (\<lambda>_.
      mbind (openTransaction B M s) (\<lambda>_. mfinally
        (mcatch (mbind (publish B M s) (\<lambda>terminal. mbind (writeRecord terminal) (\<lambda>_. ret terminal)))
          (\<lambda>e. mbind (writeRecord (s, PromotionScored)) (\<lambda>_. throw (classifyPromotionError e))))
        (perform node_error id)))) (promotion_post q v)"
    if "record_is q (s, PromotionScored) v" for s
  proof (rule hoare_mbind[OF marked[OF that]], rule hoare_mbind)
    show "hoare E (quiet v) (openTransaction B M s) (post (\<lambda>_ w. quiet v w \<and> assertSafeScore s = Inr ())
        (\<lambda>e. promotion_post q v (Thrown e)) (promotion_post q v Crashed))"
      by (rule hoare_weaken[OF openTransaction_ok[OF score_record_ok[OF that]]]) (auto simp: post_def quiet_post split: outcome.splits)
    show "hoare E (\<lambda>w. quiet v w \<and> assertSafeScore s = Inr ()) (mfinally
        (mcatch (mbind (publish B M s) (\<lambda>terminal. mbind (writeRecord terminal) (\<lambda>_. ret terminal)))
          (\<lambda>e. mbind (writeRecord (s, PromotionScored)) (\<lambda>_. throw (classifyPromotionError e))))
        (perform node_error id)) (promotion_post q v)"
      by (rule hoareI, elim conjE, rule hoareD[OF publication_ok[OF assms(2) that]])
  qed
  show ?thesis
    unfolding promoteLocked_def
  proof (rule hoare_mbind[OF lookup])
    fix found
    show "hoare E (\<lambda>w. quiet v w \<and> ?F found)
        (case found of None \<Rightarrow> throw (promotion_error InvalidReceipt)
         | Some (s, state) \<Rightarrow> if state \<noteq> PromotionScored then throw (promotion_error AlreadyPromoted)
             else mbind (writeRecord (s, PromotionPromoting)) (\<lambda>_.
               mbind (openTransaction B M s) (\<lambda>_. mfinally
                 (mcatch (mbind (publish B M s) (\<lambda>terminal. mbind (writeRecord terminal) (\<lambda>_. ret terminal)))
                   (\<lambda>e. mbind (writeRecord (s, PromotionScored)) (\<lambda>_. throw (classifyPromotionError e))))
                 (perform node_error id)))) (promotion_post q v)"
    proof (cases found)
      case None
      then show ?thesis by (auto intro!: hoare_throw simp: quiet_post)
    next
      case (Some r)
      obtain s state where r: "r = (s, state)" by force
      show ?thesis
      proof (cases "state = PromotionScored \<and> record_is q (s, PromotionScored) v")
        case True
        then show ?thesis using hoare_pre[OF go] by (simp add: Some r)
      next
        case False
        then show ?thesis by (auto intro!: hoare_throw simp: Some r quiet_post hoare_def throw_def)
      qed
    qed
  qed
qed

lemma promote_ok:
  assumes "reads_records B" and "final_ok E" and "records_ok v"
  shows "hoare E (\<lambda>w. w = v) (promote B M q) (promotion_post q v)"
proof -
  let ?P = "\<lambda>w. quiet v w \<and> pwRecords w = pwRecords v"
  have frame: "manager_frame ?P" by (simp add: manager_frame_def untimed_def quiet_def)
  have quiet_post: "promotion_post q v (Thrown e) w" "promotion_post q v Crashed w" if "quiet v w" for e w
    using that by (simp_all add: promotion_post_def)
  have step: "hoare E ?P m (post (\<lambda>_. ?P) (\<lambda>e. promotion_post q v (Thrown e)) (promotion_post q v Crashed))" if "keeps E ?P m" for m
    by (rule hoare_weaken[OF keeps_post[OF that, of ?P]]) (auto simp: post_def quiet_post split: outcome.splits)
  have body: "hoare E ?P (promoteLocked B M q) (promotion_post q v)" by (rule promoteLocked_ok[OF assms(1,2)])
  have locked: "hoare E ?P (locked (promoteLocked B M q)) (promotion_post q v)"
    unfolding locked_def
  proof (rule hoare_mbind[OF step], rule keeps_basic(3)[OF frame], rule hoare_mfinally[where A = "promotion_post q v"])
    show "hoare E ?P (promoteLocked B M q) (post (\<lambda>x. promotion_post q v (Value x)) (\<lambda>e. promotion_post q v (Thrown e)) (promotion_post q v Crashed))"
      unfolding post_same by (rule body)
    show "hoare E (promotion_post q v r) (perform node_error id)
        (post (\<lambda>_. promotion_post q v r) (\<lambda>e. promotion_post q v (Thrown e)) (promotion_post q v Crashed))" for r
      by (rule hoare_perform; cases r; simp add: promotion_post_def; auto)
  qed
  have "hoare E ?P (promote B M q) (promotion_post q v)"
    unfolding promote_def
  proof (rule hoare_mbind[OF step], rule keeps_reads(5)[OF frame])
    show "hoare E ?P (case p of None \<Rightarrow> throw (promotion_error InvalidReceipt) | Some _ \<Rightarrow> locked (promoteLocked B M q)) (promotion_post q v)" for p
      by (cases p) (auto intro!: hoare_throw locked simp: quiet_post)
  qed
  then show ?thesis by (rule hoare_pre) (use assms(3) in \<open>simp add: quiet_def\<close>)
qed
text \<open>
  Claim C28 (promotion_publishes_scored_winner). Promoting a request, whatever fails and wherever the process dies, touches the source at
  most once, and only when the record was scored: for its winner, after its score passed the safety
  check, and on a source that was just seen to have the expected snapshot. When it succeeds it did
  publish, and the record on disk is the promoted one. Records stay readable throughout.
\<close>

theorem promotion_publishes_scored_winner:
  assumes "reads_records B" and "final_ok E" and "records_ok w" and "promote B M q E w = (r, w')"
  shows "records_ok w' \<and>
    (pwPublications w' = pwPublications w \<and> (\<forall>x. r \<noteq> Value x) \<or>
     (\<exists>s. record_is q (s, PromotionScored) w \<and> assertSafeScore s = Inr () \<and>
        pwPublications w' = Published q (prWinner s) (prExpectedSnapshotId s) # pwPublications w \<and>
        (\<forall>x. r = Value x \<longrightarrow> (\<exists>f. x = (s, PromotionPromoted f)) \<and> record_is q x w')))"
proof -
  have "promotion_post q w r w'" using hoareD[OF promote_ok[OF assms(1-3), where q = q and M = M], of w] assms(4) by simp
  then show ?thesis
    by (cases r) (auto simp: promotion_post_def promoted_from_def quiet_def loud_def record_is_def)
qed

lemma promotion_object_printable: "printable (promotion_object r)"
proof -
  have number: "printable (int_object i)" for i by (simp add: int_object_def number_ok_def finite_number_def)
  have receipt: "printable (score_receipt_object x)" for x by (simp add: score_receipt_object_def number texts_object_def)
  obtain s st where r: "r = (s, st)" by force
  show ?thesis
    by (cases st; cases "prTieDecision s")
      (simp_all add: r promotion_object_def Let_def number receipt effects_object_def tie_object_def)
qed

lemma reads_records_reading: "reads_records reading_builtins"
  by (simp add: reads_records_def promotion_text_def json_read_line promotion_object_printable)

definition sample_receipt_of :: "candidateIndex \<Rightarrow> bool \<Rightarrow> candidateScoreReceipt" where
  "sample_receipt_of i e = \<lparr>csrIndex = i, csrEligible = e, csrIneligibilityReasons = [], csrFailedHostChecks = 0,
     csrUnresolvedRiskCount = 0, csrChangedPathCount = 1, csrChangedByteCount = 3, csrChangedPaths = [''a''], csrScore = [0]\<rparr>"

definition sample_score :: promotionScore where
  "sample_score = \<lparr>prRequestId = ''r'', prExpectedSnapshotId = replicate 64 (CHR ''a''), prWinner = Candidate1,
     prReceipts = (sample_receipt_of Candidate0 False, sample_receipt_of Candidate1 True),
     prEffects = \<lparr>ceFullyKnown = True, ceFullyCompensable = True\<rparr>, prTieDecision = None\<rparr>"

definition winning_pair :: candidatePair where
  "winning_pair = sample_pair\<lparr>cpCandidates := put_at Candidate1
     ((snd (cpCandidates sample_pair))\<lparr>cwStatus := CandidateWinner False\<rparr>) (cpCandidates sample_pair)\<rparr>"

definition sample_promotion_world :: promotionWorld where
  "sample_promotion_world = \<lparr>tick = 0, mwManifests = [(''r'', serializeCandidateManifest winning_pair)], mwPaths = [], mwEvents = [],
     pwRecords = [(''r'', promotion_text (sample_score, PromotionScored))], pwPublications = []\<rparr>"

definition sample_promotion_env :: "(nat \<Rightarrow> fate) \<Rightarrow> promotionEnv" where
  "sample_promotion_env f = \<lparr>enFate = f, meClock = \<lambda>_. NInt 9, meAnswer = \<lambda>_. Inr True, meText = \<lambda>_. Inr ''/w/r-1'',
     meCall = \<lambda>_. Inr (), meSource = \<lambda>_. Inr ([], None, False),
     peCapture = \<lambda>_. Inr (replicate 64 (CHR ''a''), None), peHead = \<lambda>_. Inr None, peDelta = \<lambda>_. Inr ([''a''], 3),
     peTransaction = \<lambda>_. TransactionPublished (replicate 64 (CHR ''e''))\<rparr>"

lemma sample_records_ok: "records_ok sample_promotion_world"
proof -
  have "record_ok (sample_score, PromotionScored)" by code_simp
  moreover have "prRequestId sample_score = ''r''" by (simp add: sample_score_def)
  ultimately show ?thesis by (auto simp: records_ok_def record_is_def sample_promotion_world_def)
qed

lemma sample_promotion_reads:
  "parsePromotionRecord reading_builtins (promotion_text (sample_score, PromotionScored)) = Inr (sample_score, PromotionScored)"
  "parseCandidateManifest reading_builtins (serializeCandidateManifest winning_pair) = Inr winning_pair"
proof -
  have "record_ok (sample_score, PromotionScored)" by code_simp
  then show "parsePromotionRecord reading_builtins (promotion_text (sample_score, PromotionScored)) = Inr (sample_score, PromotionScored)"
    by (rule parse_promotion_text[OF reads_records_reading])
  have "pair_ok winning_pair" "utf8_bytes (serializeCandidateManifest winning_pair) \<le> MAX_MANIFEST_BYTES" by code_simp+
  then show "parseCandidateManifest reading_builtins (serializeCandidateManifest winning_pair) = Inr winning_pair"
    by (rule parse_serialized[OF reads_pairs_reading])
qed

lemma winning_facts:
  "LEXICAL_ID ''r''" "assertSafeScore sample_score = Inr ()" "cpSnapshotId winning_pair = replicate 64 (CHR ''a'')"
  "cpBaselineHead winning_pair = None" "candidate_path ''/w'' ''r'' Candidate1 = ''/w/r-1''"
  "snd (cpCandidates winning_pair) = \<lparr>cwIndex = Candidate1, cwWorkspacePath = ''/w/r-1'', cwRegistration = UnbornRepository,
     cwStatus = CandidateWinner False, cwPinned = False, cwLeaseExpiresAtMs = 5, cwRemovedAtMs = None\<rparr>"
  "prRequestId sample_score = ''r''" "prWinner sample_score = Candidate1" "prExpectedSnapshotId sample_score = replicate 64 (CHR ''a'')"
  "csrChangedByteCount (snd (prReceipts sample_score)) = 3" "csrChangedPaths (snd (prReceipts sample_score)) = [''a'']"
  by code_simp+

lemmas promotion_steps = promote_def promoteLocked_def locked_def getPair_def read_manifest_def validateLexicalId_def getRecord_def
  writeRecord_def openTransaction_def publish_def publish_source_def getPairForPromotion_def requiredPair_def isCandidateRegistered_def
  mbind_def mcatch_def mfinally_def perform_def observe_def ask_def ret_def throw_def lift_def require_def elapse_def Let_def

lemma sample_promotion:
  "pwPublications (snd (promote reading_builtins sample_manager ''r'' (sample_promotion_env (\<lambda>_. Happens)) sample_promotion_world)) =
     [Published ''r'' Candidate1 (replicate 64 (CHR ''a''))]"
  by (simp add: promotion_steps sample_promotion_reads winning_facts sample_promotion_world_def sample_promotion_env_def
      sample_manager_def store_record_def)

theorem promotion_publishes_scored_winner_witness:
  "\<exists>s. record_is ''r'' (s, PromotionScored) sample_promotion_world \<and> assertSafeScore s = Inr () \<and>
     Published ''r'' (prWinner s) (prExpectedSnapshotId s) = Published ''r'' Candidate1 (replicate 64 (CHR ''a''))"
proof -
  let ?E = "sample_promotion_env (\<lambda>_. Happens)"
  obtain r w' where r: "promote reading_builtins sample_manager ''r'' ?E sample_promotion_world = (r, w')" by force
  have final: "final_ok ?E" by (simp add: final_ok_def sample_promotion_env_def SHA256_def hex_text_def list_all_iff is_hex_char_def code_def)
  have "pwPublications w' = [Published ''r'' Candidate1 (replicate 64 (CHR ''a''))]" using sample_promotion by (simp add: r)
  with promotion_publishes_scored_winner[OF reads_records_reading final sample_records_ok r] show ?thesis
    by (auto simp: sample_promotion_world_def)
qed

text \<open>
  Claim C29 (publication_can_be_forgotten). A promotion can publish and then report that it did not. When the record of the finished
  promotion cannot be written, the handler that also serves failed publications puts the record
  back to scored and throws \<open>publish_failed\<close>, although the source already holds the winner.
\<close>

theorem publication_can_be_forgotten:
  "\<exists>(E :: promotionEnv) (w :: promotionWorld) w'. promote reading_builtins sample_manager ''r'' E w = (Thrown (promotion_error PublishFailed), w') \<and>
     pwPublications w = [] \<and> pwPublications w' = [Published ''r'' Candidate1 (prExpectedSnapshotId sample_score)] \<and>
     pwRecords w' = [(''r'', promotion_text (sample_score, PromotionScored))]"
proof -
  let ?E = "sample_promotion_env (\<lambda>n. if n = 17 then FailsBefore else Happens)"
  let ?w' = "snd (promote reading_builtins sample_manager ''r'' ?E sample_promotion_world)"
  have "promote reading_builtins sample_manager ''r'' ?E sample_promotion_world = (Thrown (promotion_error PublishFailed), ?w') \<and>
     pwPublications ?w' = [Published ''r'' Candidate1 (prExpectedSnapshotId sample_score)] \<and>
     pwRecords ?w' = [(''r'', promotion_text (sample_score, PromotionScored))]"
    by (simp add: promotion_steps sample_promotion_reads winning_facts sample_promotion_world_def sample_promotion_env_def
        sample_manager_def store_record_def classifyPromotionError_def node_error_def promotion_error_def)
  moreover have "pwPublications sample_promotion_world = []" by (simp add: sample_promotion_world_def)
  ultimately show ?thesis by blast
qed

section \<open>Scored winners pass the check\<close>

lemma padded_same: "length ls = length rs \<Longrightarrow> padded_difference ls rs = compare_scores ls rs"
  by (induction ls rs rule: list_induct2) (auto simp: Let_def)

lemma compare_zero: "length ls = length rs \<Longrightarrow> compare_scores ls rs = 0 \<longleftrightarrow> ls = rs"
  by (induction ls rs rule: list_induct2) (auto simp: Let_def)

text \<open>What the coordinator hands to the promotion for a resolved score.\<close>

definition promotion_score_of ::
    "string \<Rightarrow> string \<Rightarrow> resolvedCandidateScore \<Rightarrow> candidateScoreReceipt \<times> candidateScoreReceipt \<Rightarrow> candidateEffects \<Rightarrow> promotionScore" where
  "promotion_score_of q snapshot s receipts effects =
     \<lparr>prRequestId = q, prExpectedSnapshotId = snapshot, prWinner = csrIndex (rcsWinner s), prReceipts = receipts,
      prEffects = effects, prTieDecision = rcsTieDecision s\<rparr>"

lemma resolved_cases:
  assumes "csiIndex a = Candidate0" and "csiIndex b = Candidate1" and "resolveCandidateScore [a, b] critic = Inr r"
  shows "\<exists>x \<in> {a, b}. rcsWinner r = toReceipt x \<and> eligible_input x \<and>
    (\<forall>effects. ceFullyKnown effects \<and> ceFullyCompensable effects \<longrightarrow>
       assertSafeScore (promotion_score_of q snapshot r (toReceipt a, toReceipt b) effects) = Inr ())"
proof -
  let ?A = "toReceipt a" and ?B = "toReceipt b"
  have len: "length (csrScore ?A) = length (csrScore ?B)" by (simp add: receipt_facts)
  have idx: "csrIndex ?A = Candidate0" "csrIndex ?B = Candidate1" using assms(1,2) by (simp_all add: receipt_facts)
  have rs: "score_receipts [a, b] = [?A, ?B]"
    by (simp add: score_receipts_def sort_by_def idx index_number_def)
  have pc: "promotion_compare ?A ?B \<le> 0 \<longleftrightarrow> compareReceipts ?A ?B \<le> 0"
    by (simp add: promotion_compare_def compareReceipts_def padded_same[OF len] Let_def idx index_number_def)
  have same: "sameDimensions ?A ?B \<longleftrightarrow> csrScore ?A = csrScore ?B" "sameDimensions ?B ?A \<longleftrightarrow> csrScore ?A = csrScore ?B"
    "sameDimensions ?A ?A" "sameDimensions ?B ?B"
    using len by (auto simp: sameDimensions_def same_scores_iff)
  have zero: "compareReceipts ?A ?B = 0 \<longleftrightarrow> csrScore ?A = csrScore ?B"
    by (simp add: compareReceipts_def compare_zero[OF len])
  note unfolds = assertSafeScore_def promotion_score_of_def sort_by_def pc same zero idx receipt_facts(1) Let_def
  obtain sc where sc: "scoreCandidates [a, b] = Inr sc"
    using assms(3) by (auto simp: resolveCandidateScore_def sbind_eq_Inr)
  show ?thesis
  proof (cases sc)
    case (Selected w ws)
    then have r: "rcsWinner r = w" "rcsTieDecision r = None" using assms(3) sc by (auto simp: resolveCandidateScore_def)
    from sc Selected show ?thesis
      by (cases "eligible_input a"; cases "eligible_input b"; cases "compareReceipts ?A ?B \<le> 0"; cases "csrScore ?A = csrScore ?B")
        (auto simp: scoreCandidates_def rs unfolds r split: if_split_asm)
  next
    case (TrueTie ws)
    then have el: "eligible_input a" "eligible_input b" "csrScore ?A = csrScore ?B" "ws = [?A, ?B]"
      using sc by (auto simp: scoreCandidates_def rs Let_def sort_by_def receipt_facts(1) same split: if_split_asm)
    with assms(3) sc TrueTie obtain i where i: "rcsTieDecision r = Some i" "List.find (\<lambda>r. csrIndex r = i) [?A, ?B] = Some (rcsWinner r)"
      by (auto simp: resolveCandidateScore_def sbind_eq_Inr split: option.split_asm)
    then have "rcsWinner r = (if i = Candidate0 then ?A else ?B)" by (cases i) (auto simp: idx)
    with i(1) el show ?thesis by (cases i) (auto simp: unfolds)
  qed
qed

text \<open>
  Scoring and promotion agree, although each compares scores with code of its own: whatever
  score is resolved for two candidates, the winner is one of them, its effects are known and can be
  compensated, and the promotion's check accepts the score with these effects.
\<close>

theorem resolved_winner_is_promotable:
  assumes "csiIndex a = Candidate0" and "csiIndex b = Candidate1" and "resolveCandidateScore [a, b] critic = Inr r"
  shows "\<exists>x \<in> {a, b}. rcsWinner r = toReceipt x \<and>
    assertSafeScore (promotion_score_of q snapshot r (toReceipt a, toReceipt b) (csiEffects x)) = Inr ()"
  using resolved_cases[OF assms, of q snapshot] by (auto simp: eligible_input_def)

theorem resolved_winner_is_promotable_witness:
  "\<exists>x \<in> {sample_candidate Candidate0 20, sample_candidate Candidate1 10}. \<exists>r.
     resolveCandidateScore [sample_candidate Candidate0 20, sample_candidate Candidate1 10] None = Inr r \<and> rcsWinner r = toReceipt x \<and>
     assertSafeScore (promotion_score_of ''r'' ''s'' r
       (toReceipt (sample_candidate Candidate0 20), toReceipt (sample_candidate Candidate1 10)) (csiEffects x)) = Inr ()"
proof -
  have "case resolveCandidateScore [sample_candidate Candidate0 20, sample_candidate Candidate1 10] None of Inl _ \<Rightarrow> False | Inr _ \<Rightarrow> True"
    by code_simp
  then obtain r where r: "resolveCandidateScore [sample_candidate Candidate0 20, sample_candidate Candidate1 10] None = Inr r"
    by (auto split: sum.splits)
  have "csiIndex (sample_candidate Candidate0 20) = Candidate0" "csiIndex (sample_candidate Candidate1 10) = Candidate1" by code_simp+
  from resolved_winner_is_promotable[OF this r, of "''r''" "''s''"] r show ?thesis by blast
qed

end
