(* ===== verification/CoordinatorStore.thy ===== *)
theory CoordinatorStore
  imports Promotion WorkflowTypes
begin

text \<open>
  The durable state of a backtrack and its file: \<open>src/src/workflow/backtrack-coordinator-types.ts\<close> and
  \<open>backtrack-coordinator-store.ts\<close>. Reading checks the shape of the parsed value and returns it;
  here the check and the reading of the members are one function. A status or reason must be a
  string: the source applies \<open>String\<close> first, and would let an array of one string pass. Numbers that
  the source only requires to be finite are integers here, as everything that writes them makes them.
\<close>

section \<open>States\<close>

record scoreDetails =
  sdReplayCompatible :: bool
  sdDeliveryCompleted :: bool
  sdHostVerification :: candidateHostVerification
  sdUnresolvedRisks :: "string list"
  sdChangedPaths :: "string list"
  sdChangedBytes :: int
  sdCheckFailures :: "checkCounts option"
  sdUnmetAcceptanceCriteria :: "int option"
  sdRegressions :: "int option"

record evidenceReceipt =
  evReceiptId :: string
  evArtifactRefs :: "artifactRef list"

record runnerReceipt =
  rrScore :: scoreDetails
  rrEffects :: candidateEffects
  rrEvidence :: evidenceReceipt

datatype slotStatus = SlotPending | SlotRunning | SlotCompleted | SlotFailed

record candidateSlot =
  sloStatus :: slotStatus
  sloReceipt :: "runnerReceipt option"
  sloFailure :: "string option"

record coordinatorScore =
  ksWinner :: candidateIndex
  ksReceipts :: "candidateScoreReceipt \<times> candidateScoreReceipt"
  ksTieDecision :: "candidateIndex option"

datatype attentionReason =
    ReasonCandidateFailed | ReasonCandidateInterrupted | ReasonNoEligibleCandidate | ReasonTieCriticFailed
  | ReasonPromotionFailed | ReasonPromotionIncomplete

datatype coordinatorTerminal = TerminalPromoted candidateIndex string | TerminalAttention attentionReason

record coordinatorState =
  coRequestId :: string
  coSourceDirectory :: string
  coSourceThreadId :: string
  coCheckpointId :: string
  coSnapshotId :: string
  coCandidateThreadIds :: "string \<times> string"
  coCandidatesCreated :: bool
  coCheckpointsCloned :: "bool \<times> bool"
  coCandidates :: "candidateSlot \<times> candidateSlot"
  coScore :: "coordinatorScore option"
  coTerminal :: "coordinatorTerminal option"
  coCleanupAttempted :: bool
  coCleanupCompleted :: bool

definition MAX_STATE_BYTES :: nat where "MAX_STATE_BYTES = 2 * 1024 * 1024"

definition BACKTRACK_CANDIDATE_VARIANTS :: "string list" where
  "BACKTRACK_CANDIDATE_VARIANTS = [''minimal-change'', ''alternate-approach'']"

section \<open>Printing\<close>

definition option_object :: "('a \<Rightarrow> js) \<Rightarrow> 'a option \<Rightarrow> js" where
  "option_object f x = (case x of None \<Rightarrow> JNull | Some y \<Rightarrow> f y)"

definition present_member :: "string \<Rightarrow> ('a \<Rightarrow> js) \<Rightarrow> 'a option \<Rightarrow> (string \<times> js) list" where
  "present_member k f x = (case x of None \<Rightarrow> [] | Some y \<Rightarrow> [(k, f y)])"

definition counts_object :: "checkCounts \<Rightarrow> js" where
  "counts_object k = JObj [(''test'', int_object (ccTest k)), (''typecheck'', int_object (ccTypecheck k)),
     (''lint'', int_object (ccLint k)), (''build'', int_object (ccBuild k))]"

definition details_object :: "scoreDetails \<Rightarrow> js" where
  "details_object d = JObj
     ([(''replayCompatible'', JBool (sdReplayCompatible d)), (''deliveryCompleted'', JBool (sdDeliveryCompleted d)),
       (''hostVerification'', JObj ((''passed'', JBool (chvPassed (sdHostVerification d))) #
          present_member ''failedChecks'' int_object (chvFailedChecks (sdHostVerification d)))),
       (''unresolvedRisks'', texts_object (sdUnresolvedRisks d)), (''changedPaths'', texts_object (sdChangedPaths d)),
       (''changedBytes'', int_object (sdChangedBytes d))] @
      present_member ''checkFailures'' counts_object (sdCheckFailures d) @
      present_member ''unmetAcceptanceCriteria'' int_object (sdUnmetAcceptanceCriteria d) @
      present_member ''regressions'' int_object (sdRegressions d))"

definition artifact_object :: "artifactRef \<Rightarrow> js" where
  "artifact_object a = JObj [(''digest'', JStr (arDigest a)), (''byteCount'', int_object (arByteCount a)),
     (''truncated'', JBool (arTruncated a))]"

definition runner_receipt_object :: "runnerReceipt \<Rightarrow> js" where
  "runner_receipt_object r = JObj
     [(''score'', details_object (rrScore r)), (''effects'', effects_object (rrEffects r)),
      (''evidence'', JObj [(''protocolVersion'', int_object 1), (''receiptId'', JStr (evReceiptId (rrEvidence r))),
         (''artifactRefs'', JArr (map artifact_object (evArtifactRefs (rrEvidence r))))])]"

fun slot_status_text :: "slotStatus \<Rightarrow> string" where
  "slot_status_text SlotPending = ''pending''"
| "slot_status_text SlotRunning = ''running''"
| "slot_status_text SlotCompleted = ''completed''"
| "slot_status_text SlotFailed = ''failed''"

definition slot_object :: "candidateSlot \<Rightarrow> js" where
  "slot_object s = JObj [(''status'', JStr (slot_status_text (sloStatus s))),
     (''receipt'', option_object runner_receipt_object (sloReceipt s)), (''failure'', option_object JStr (sloFailure s))]"

definition score_object :: "coordinatorScore \<Rightarrow> js" where
  "score_object s = JObj [(''winnerCandidateIndex'', int_object (index_number (ksWinner s))),
     (''receipts'', JArr [score_receipt_object (fst (ksReceipts s)), score_receipt_object (snd (ksReceipts s))]),
     (''tieDecision'', option_object tie_object (ksTieDecision s))]"

fun reason_text :: "attentionReason \<Rightarrow> string" where
  "reason_text ReasonCandidateFailed = ''candidate_failed''"
| "reason_text ReasonCandidateInterrupted = ''candidate_interrupted''"
| "reason_text ReasonNoEligibleCandidate = ''no_eligible_candidate''"
| "reason_text ReasonTieCriticFailed = ''tie_critic_failed''"
| "reason_text ReasonPromotionFailed = ''promotion_failed''"
| "reason_text ReasonPromotionIncomplete = ''promotion_incomplete''"

fun terminal_object :: "coordinatorTerminal \<Rightarrow> js" where
  "terminal_object (TerminalPromoted i f) = JObj [(''kind'', JStr ''promoted''),
     (''winnerCandidateIndex'', int_object (index_number i)), (''finalSnapshotId'', JStr f)]"
| "terminal_object (TerminalAttention r) = JObj [(''kind'', JStr ''needs_attention''), (''reason'', JStr (reason_text r))]"

definition coordinator_object :: "coordinatorState \<Rightarrow> js" where
  "coordinator_object s = JObj
     [(''protocolVersion'', int_object 1), (''requestId'', JStr (coRequestId s)), (''sourceDirectory'', JStr (coSourceDirectory s)),
      (''sourceThreadId'', JStr (coSourceThreadId s)), (''checkpointId'', JStr (coCheckpointId s)),
      (''snapshotId'', JStr (coSnapshotId s)),
      (''candidateThreadIds'', JArr [JStr (fst (coCandidateThreadIds s)), JStr (snd (coCandidateThreadIds s))]),
      (''variants'', texts_object BACKTRACK_CANDIDATE_VARIANTS), (''candidatesCreated'', JBool (coCandidatesCreated s)),
      (''checkpointsCloned'', JArr [JBool (fst (coCheckpointsCloned s)), JBool (snd (coCheckpointsCloned s))]),
      (''candidates'', JArr [slot_object (fst (coCandidates s)), slot_object (snd (coCandidates s))]),
      (''score'', option_object score_object (coScore s)), (''terminal'', option_object terminal_object (coTerminal s)),
      (''cleanupAttempted'', JBool (coCleanupAttempted s)), (''cleanupCompleted'', JBool (coCleanupCompleted s))]"

definition coordinator_text :: "coordinatorState \<Rightarrow> string" where
  "coordinator_text s = plain_text (coordinator_object s) @ [CHR 0x0A]"

section \<open>Reading\<close>

definition invalidState :: "'a result" where "invalidState = Inl BacktrackCoordinatorStoreError"

definition isString :: "js \<Rightarrow> string result" where
  "isString v = (case v of JStr s \<Rightarrow> Inr s | _ \<Rightarrow> invalidState)"

definition isNumber :: "js \<Rightarrow> int result" where
  "isNumber v = (case v of JNum (NInt i) \<Rightarrow> Inr i | _ \<Rightarrow> invalidState)"

definition is_boolean :: "js \<Rightarrow> bool result" where
  "is_boolean v = (case v of JBool b \<Rightarrow> Inr b | _ \<Rightarrow> invalidState)"

definition is_version :: "js \<Rightarrow> unit result" where
  "is_version v = (if v = int_object 1 then Inr () else invalidState)"

definition is_index :: "js \<Rightarrow> candidateIndex result" where
  "is_index v = (if v = int_object 0 then Inr Candidate0 else if v = int_object 1 then Inr Candidate1 else invalidState)"

definition array_of :: "(js \<Rightarrow> 'a result) \<Rightarrow> js \<Rightarrow> 'a list result" where
  "array_of f v = (case v of JArr xs \<Rightarrow> traverse f xs | _ \<Rightarrow> invalidState)"

definition pair_of :: "(js \<Rightarrow> 'a result) \<Rightarrow> js \<Rightarrow> ('a \<times> 'a) result" where
  "pair_of f v = (case v of JArr [a, b] \<Rightarrow> sbind (f a) (\<lambda>x. sbind (f b) (\<lambda>y. Inr (x, y))) | _ \<Rightarrow> invalidState)"

definition null_or :: "(js \<Rightarrow> 'a result) \<Rightarrow> js \<Rightarrow> 'a option result" where
  "null_or f v = (if v = JNull then Inr None else sbind (f v) (\<lambda>x. Inr (Some x)))"

definition object_of :: "js \<Rightarrow> js result" where
  "object_of v = (if is_record v then Inr v else invalidState)"

text \<open>Members that the check does not look at; the state uses them when they are numbers.\<close>

definition unchecked_int :: "js \<Rightarrow> int option" where
  "unchecked_int v = (case v of JNum (NInt i) \<Rightarrow> Some i | _ \<Rightarrow> None)"

definition unchecked_counts :: "js \<Rightarrow> checkCounts option" where
  "unchecked_counts v =
     (if is_record v
      then Some \<lparr>ccTest = or_zero (unchecked_int (jget v ''test'')), ccTypecheck = or_zero (unchecked_int (jget v ''typecheck'')),
        ccLint = or_zero (unchecked_int (jget v ''lint'')), ccBuild = or_zero (unchecked_int (jget v ''build''))\<rparr>
      else None)"

definition isArtifactRef :: "js \<Rightarrow> artifactRef result" where
  "isArtifactRef v = sbind (object_of v) (\<lambda>_.
     sbind (isString (jget v ''digest'')) (\<lambda>digest.
     sbind (isNumber (jget v ''byteCount'')) (\<lambda>count.
     if \<bar>count\<bar> > max_safe_integer then invalidState else
     sbind (is_boolean (jget v ''truncated'')) (\<lambda>truncated.
     Inr \<lparr>arDigest = digest, arByteCount = count, arTruncated = truncated\<rparr>))))"

definition parse_details :: "js \<Rightarrow> scoreDetails result" where
  "parse_details v = sbind (object_of v) (\<lambda>_.
     sbind (is_boolean (jget v ''replayCompatible'')) (\<lambda>replay.
     sbind (is_boolean (jget v ''deliveryCompleted'')) (\<lambda>completed.
     sbind (object_of (jget v ''hostVerification'')) (\<lambda>host.
     sbind (is_boolean (jget host ''passed'')) (\<lambda>passed.
     sbind (array_of isString (jget v ''unresolvedRisks'')) (\<lambda>risks.
     sbind (array_of isString (jget v ''changedPaths'')) (\<lambda>paths.
     sbind (isNumber (jget v ''changedBytes'')) (\<lambda>bytes.
     if bytes < 0 \<or> bytes > max_safe_integer then invalidState
     else Inr \<lparr>sdReplayCompatible = replay, sdDeliveryCompleted = completed,
       sdHostVerification = \<lparr>chvPassed = passed, chvFailedChecks = unchecked_int (jget host ''failedChecks'')\<rparr>,
       sdUnresolvedRisks = risks, sdChangedPaths = paths, sdChangedBytes = bytes,
       sdCheckFailures = unchecked_counts (jget v ''checkFailures''),
       sdUnmetAcceptanceCriteria = unchecked_int (jget v ''unmetAcceptanceCriteria''),
       sdRegressions = unchecked_int (jget v ''regressions'')\<rparr>))))))))"

definition isRunnerReceipt :: "js \<Rightarrow> runnerReceipt result" where
  "isRunnerReceipt v = sbind (object_of v) (\<lambda>_.
     sbind (parse_details (jget v ''score'')) (\<lambda>score.
     sbind (object_of (jget v ''effects'')) (\<lambda>effects.
     sbind (is_boolean (jget effects ''fullyKnown'')) (\<lambda>known.
     sbind (is_boolean (jget effects ''fullyCompensable'')) (\<lambda>compensable.
     sbind (object_of (jget v ''evidence'')) (\<lambda>evidence.
     sbind (is_version (jget evidence ''protocolVersion'')) (\<lambda>_.
     sbind (isString (jget evidence ''receiptId'')) (\<lambda>receipt.
     sbind (array_of isArtifactRef (jget evidence ''artifactRefs'')) (\<lambda>refs.
     Inr \<lparr>rrScore = score, rrEffects = \<lparr>ceFullyKnown = known, ceFullyCompensable = compensable\<rparr>,
          rrEvidence = \<lparr>evReceiptId = receipt, evArtifactRefs = refs\<rparr>\<rparr>)))))))))"

definition one_of :: "('a \<Rightarrow> string) \<Rightarrow> 'a list \<Rightarrow> js \<Rightarrow> 'a result" where
  "one_of f xs v = (case List.find (\<lambda>x. v = JStr (f x)) xs of Some x \<Rightarrow> Inr x | None \<Rightarrow> invalidState)"

definition isSlot :: "js \<Rightarrow> candidateSlot result" where
  "isSlot v = sbind (object_of v) (\<lambda>_.
     sbind (one_of slot_status_text [SlotPending, SlotRunning, SlotCompleted, SlotFailed] (jget v ''status'')) (\<lambda>status.
     sbind (null_or isRunnerReceipt (jget v ''receipt'')) (\<lambda>receipt.
     sbind (null_or isString (jget v ''failure'')) (\<lambda>failure.
     Inr \<lparr>sloStatus = status, sloReceipt = receipt, sloFailure = failure\<rparr>))))"

definition isScoreReceipt :: "js \<Rightarrow> candidateScoreReceipt result" where
  "isScoreReceipt v = sbind (object_of v) (\<lambda>_.
     sbind (is_index (jget v ''candidateIndex'')) (\<lambda>i.
     sbind (is_boolean (jget v ''eligible'')) (\<lambda>eligible.
     sbind (array_of isString (jget v ''ineligibilityReasons'')) (\<lambda>reasons.
     sbind (isNumber (jget v ''failedHostChecks'')) (\<lambda>failed.
     sbind (isNumber (jget v ''unresolvedRiskCount'')) (\<lambda>risks.
     sbind (isNumber (jget v ''changedPathCount'')) (\<lambda>count.
     sbind (isNumber (jget v ''changedByteCount'')) (\<lambda>bytes.
     sbind (array_of isString (jget v ''changedPaths'')) (\<lambda>paths.
     sbind (array_of isNumber (jget v ''score'')) (\<lambda>score.
     Inr \<lparr>csrIndex = i, csrEligible = eligible, csrIneligibilityReasons = reasons, csrFailedHostChecks = failed,
       csrUnresolvedRiskCount = nat risks, csrChangedPathCount = nat count, csrChangedByteCount = bytes,
       csrChangedPaths = paths, csrScore = score\<rparr>))))))))))"

definition isTieDecision :: "js \<Rightarrow> candidateIndex result" where
  "isTieDecision v = sbind (object_of v) (\<lambda>_.
     if length (keys_of v) \<noteq> 2 then invalidState
     else sbind (is_version (jget v ''protocolVersion'')) (\<lambda>_. is_index (jget v ''winnerCandidateIndex'')))"

definition isScore :: "js \<Rightarrow> coordinatorScore result" where
  "isScore v = sbind (object_of v) (\<lambda>_.
     sbind (is_index (jget v ''winnerCandidateIndex'')) (\<lambda>winner.
     sbind (pair_of isScoreReceipt (jget v ''receipts'')) (\<lambda>receipts.
     sbind (null_or isTieDecision (jget v ''tieDecision'')) (\<lambda>tie.
     Inr \<lparr>ksWinner = winner, ksReceipts = receipts, ksTieDecision = tie\<rparr>))))"

definition isTerminal :: "js \<Rightarrow> coordinatorTerminal result" where
  "isTerminal v = sbind (object_of v) (\<lambda>_.
     if jget v ''kind'' = JStr ''promoted''
     then sbind (is_index (jget v ''winnerCandidateIndex'')) (\<lambda>i. sbind (isString (jget v ''finalSnapshotId'')) (\<lambda>f.
       Inr (TerminalPromoted i f)))
     else if jget v ''kind'' = JStr ''needs_attention''
     then sbind (one_of reason_text [ReasonCandidateFailed, ReasonCandidateInterrupted, ReasonNoEligibleCandidate, ReasonTieCriticFailed,
         ReasonPromotionFailed, ReasonPromotionIncomplete] (jget v ''reason'')) (\<lambda>r. Inr (TerminalAttention r))
     else invalidState)"

definition nonempty :: "js \<Rightarrow> string result" where
  "nonempty v = (case v of JStr s \<Rightarrow> if s \<noteq> [] then Inr s else invalidState | _ \<Rightarrow> invalidState)"

definition isCoordinatorState :: "js \<Rightarrow> coordinatorState result" where
  "isCoordinatorState v = sbind (object_of v) (\<lambda>_.
     sbind (is_version (jget v ''protocolVersion'')) (\<lambda>_.
     sbind (nonempty (jget v ''requestId'')) (\<lambda>request.
     sbind (nonempty (jget v ''sourceDirectory'')) (\<lambda>directory.
     sbind (nonempty (jget v ''sourceThreadId'')) (\<lambda>thread.
     sbind (nonempty (jget v ''checkpointId'')) (\<lambda>checkpoint.
     sbind (nonempty (jget v ''snapshotId'')) (\<lambda>snapshot.
     sbind (pair_of isString (jget v ''candidateThreadIds'')) (\<lambda>threads.
     if jget v ''variants'' \<noteq> texts_object BACKTRACK_CANDIDATE_VARIANTS then invalidState else
     sbind (is_boolean (jget v ''candidatesCreated'')) (\<lambda>created.
     sbind (pair_of is_boolean (jget v ''checkpointsCloned'')) (\<lambda>cloned.
     sbind (pair_of isSlot (jget v ''candidates'')) (\<lambda>candidates.
     sbind (null_or isScore (jget v ''score'')) (\<lambda>score.
     sbind (null_or isTerminal (jget v ''terminal'')) (\<lambda>terminal.
     sbind (is_boolean (jget v ''cleanupAttempted'')) (\<lambda>attempted.
     sbind (is_boolean (jget v ''cleanupCompleted'')) (\<lambda>completed.
     Inr \<lparr>coRequestId = request, coSourceDirectory = directory, coSourceThreadId = thread, coCheckpointId = checkpoint,
       coSnapshotId = snapshot, coCandidateThreadIds = threads, coCandidatesCreated = created, coCheckpointsCloned = cloned,
       coCandidates = candidates, coScore = score, coTerminal = terminal, coCleanupAttempted = attempted,
       coCleanupCompleted = completed\<rparr>)))))))))))))))"

definition parseCoordinatorState :: "builtins \<Rightarrow> string \<Rightarrow> coordinatorState result" where
  "parseCoordinatorState B t =
     (if MAX_STATE_BYTES < utf8_bytes t then invalidState
      else case json_parse B t of None \<Rightarrow> invalidState | Some v \<Rightarrow> isCoordinatorState v)"
section \<open>States reload\<close>

definition runner_receipt_ok :: "runnerReceipt \<Rightarrow> bool" where
  "runner_receipt_ok r \<longleftrightarrow> 0 \<le> sdChangedBytes (rrScore r) \<and> sdChangedBytes (rrScore r) \<le> max_safe_integer \<and>
     (\<forall>a \<in> set (evArtifactRefs (rrEvidence r)). \<bar>arByteCount a\<bar> \<le> max_safe_integer)"

definition slot_ok :: "candidateSlot \<Rightarrow> bool" where
  "slot_ok s \<longleftrightarrow> (case sloReceipt s of None \<Rightarrow> True | Some r \<Rightarrow> runner_receipt_ok r)"

definition state_ok :: "coordinatorState \<Rightarrow> bool" where
  "state_ok s \<longleftrightarrow> coRequestId s \<noteq> [] \<and> coSourceDirectory s \<noteq> [] \<and> coSourceThreadId s \<noteq> [] \<and> coCheckpointId s \<noteq> [] \<and>
     coSnapshotId s \<noteq> [] \<and> slot_ok (fst (coCandidates s)) \<and> slot_ok (snd (coCandidates s))"

lemma invalidState_Inr [simp]: "invalidState \<noteq> Inr x"
  by (simp add: invalidState_def)

lemma coordinator_readers [simp]:
  "isString (JStr s) = Inr s" "isNumber (int_object i) = Inr i" "is_boolean (JBool b) = Inr b"
  "is_version (int_object 1) = Inr ()" "is_index (int_object (index_number k)) = Inr k"
  "pair_of f (JArr [v, w]) = sbind (f v) (\<lambda>x. sbind (f w) (\<lambda>y. Inr (x, y)))"
  "object_of (JObj ms) = Inr (JObj ms)"
  by (cases k; simp add: isString_def isNumber_def int_object_def is_boolean_def is_version_def is_index_def index_number_def
      pair_of_def object_of_def is_record_def)+

lemma array_of_texts [simp]: "array_of isString (texts_object ts) = Inr ts"
  by (simp add: array_of_def texts_object_def traverse_map_Inr)

lemma array_of_map: "(\<And>x. x \<in> set xs \<Longrightarrow> f (g x) = Inr x) \<Longrightarrow> array_of f (JArr (map g xs)) = Inr xs"
  by (simp add: array_of_def traverse_map_Inr)

lemma null_or_object: "(\<And>y. x = Some y \<Longrightarrow> f (g y) = Inr y \<and> g y \<noteq> JNull) \<Longrightarrow> null_or f (option_object g x) = Inr x"
  by (cases x) (simp_all add: null_or_def option_object_def)

lemma null_or_option [simp]:
  "null_or f (option_object g None) = Inr None"
  "g y \<noteq> JNull \<Longrightarrow> null_or f (option_object g (Some y)) = sbind (f (g y)) (\<lambda>x. Inr (Some x))"
  by (simp_all add: null_or_def option_object_def)

lemma unchecked_simps [simp]: "unchecked_int (int_object i) = Some i" "unchecked_int JUndef = None"
  by (simp_all add: unchecked_int_def int_object_def)

lemma jget_members:
  "jget (JObj ((k, v) # ms)) k' = (if k = k' then v else jget (JObj ms) k')"
  "jget (JObj []) k' = JUndef"
  "jget (JObj (present_member k f x @ ms)) k' = (if k = k' then (case x of None \<Rightarrow> jget (JObj ms) k' | Some y \<Rightarrow> f y) else jget (JObj ms) k')"
  "jget (JObj (present_member k f x)) k' = (if k = k' then (case x of None \<Rightarrow> JUndef | Some y \<Rightarrow> f y) else JUndef)"
  by (auto simp: jget_def present_member_def split: option.split)

lemma case_int_object [simp]: "unchecked_int (case x of None \<Rightarrow> JUndef | Some i \<Rightarrow> int_object i) = x"
  by (cases x) simp_all

lemma unchecked_counts_object [simp]: "unchecked_counts (case x of None \<Rightarrow> JUndef | Some k \<Rightarrow> counts_object k) = x"
  by (cases x) (simp_all add: unchecked_counts_def counts_object_def jget_members or_zero_def is_record_def)

lemma parse_details_object:
  "0 \<le> sdChangedBytes d \<Longrightarrow> sdChangedBytes d \<le> max_safe_integer \<Longrightarrow> parse_details (details_object d) = Inr d"
  by (simp add: parse_details_def details_object_def jget_members cong: option.case_cong)

lemma isArtifactRef_object: "\<bar>arByteCount a\<bar> \<le> max_safe_integer \<Longrightarrow> isArtifactRef (artifact_object a) = Inr a"
  by (simp add: isArtifactRef_def artifact_object_def jget_members)

lemma isRunnerReceipt_object: "runner_receipt_ok r \<Longrightarrow> isRunnerReceipt (runner_receipt_object r) = Inr r"
  by (simp add: isRunnerReceipt_def runner_receipt_object_def jget_members parse_details_object runner_receipt_ok_def
      effects_object_def array_of_map isArtifactRef_object)

lemma one_of_texts:
  "one_of slot_status_text [SlotPending, SlotRunning, SlotCompleted, SlotFailed] (JStr (slot_status_text st)) = Inr st"
  "one_of reason_text [ReasonCandidateFailed, ReasonCandidateInterrupted, ReasonNoEligibleCandidate, ReasonTieCriticFailed,
     ReasonPromotionFailed, ReasonPromotionIncomplete] (JStr (reason_text r)) = Inr r"
  by (cases st; simp add: one_of_def) (cases r; simp add: one_of_def)

lemma object_not_null [simp]:
  "runner_receipt_object r \<noteq> JNull" "score_object s \<noteq> JNull" "terminal_object t \<noteq> JNull" "tie_object i \<noteq> JNull"
  by (cases t; simp add: runner_receipt_object_def score_object_def tie_object_def)+

lemma isSlot_object: "slot_ok s \<Longrightarrow> isSlot (slot_object s) = Inr s"
  by (cases "sloReceipt s"; cases "sloFailure s")
    (simp_all add: isSlot_def slot_object_def jget_members one_of_texts null_or_object isRunnerReceipt_object slot_ok_def)

lemma isScoreReceipt_object: "isScoreReceipt (score_receipt_object r) = Inr r"
  by (simp add: isScoreReceipt_def score_receipt_object_def jget_members array_of_map)

lemma isTieDecision_object: "isTieDecision (tie_object i) = Inr i"
  by (simp add: isTieDecision_def tie_object_def jget_members keys_of_def)

lemma isScore_object: "isScore (score_object s) = Inr s"
  by (simp add: isScore_def score_object_def jget_members isScoreReceipt_object null_or_object isTieDecision_object)

lemma isTerminal_object: "isTerminal (terminal_object t) = Inr t"
  by (cases t) (simp_all add: isTerminal_def jget_members one_of_texts)

lemma isCoordinatorState_object: "state_ok s \<Longrightarrow> isCoordinatorState (coordinator_object s) = Inr s"
  by (simp add: isCoordinatorState_def coordinator_object_def jget_members nonempty_def state_ok_def isSlot_object null_or_object
      isScore_object isTerminal_object)

lemma isNumber_Inr: "isNumber v = Inr i \<longleftrightarrow> v = JNum (NInt i)"
  by (auto simp: isNumber_def split: js.splits jnum.splits)

lemma parse_details_ok: "parse_details v = Inr d \<Longrightarrow> 0 \<le> sdChangedBytes d \<and> sdChangedBytes d \<le> max_safe_integer"
  by (simp add: parse_details_def sbind_eq_Inr split: if_split_asm) (elim exE conjE; clarsimp)

lemma isArtifactRef_ok: "isArtifactRef v = Inr a \<Longrightarrow> \<bar>arByteCount a\<bar> \<le> max_safe_integer"
  by (simp add: isArtifactRef_def sbind_eq_Inr split: if_split_asm) (elim exE conjE; clarsimp)

lemma isRunnerReceipt_ok: "isRunnerReceipt v = Inr r \<Longrightarrow> runner_receipt_ok r"
  by (simp add: isRunnerReceipt_def sbind_eq_Inr)
    (elim exE conjE; drule parse_details_ok; clarsimp simp: runner_receipt_ok_def array_of_def split: js.split_asm;
      auto dest!: traverse_set isArtifactRef_ok)

lemma isSlot_ok: "isSlot v = Inr s \<Longrightarrow> slot_ok s"
  by (auto simp: isSlot_def sbind_eq_Inr slot_ok_def null_or_def dest: isRunnerReceipt_ok split: if_split_asm option.splits)

lemma pair_of_slots: "pair_of isSlot v = Inr (a, b) \<Longrightarrow> slot_ok a \<and> slot_ok b"
  by (auto simp: pair_of_def sbind_eq_Inr dest: isSlot_ok split: js.split_asm list.split_asm)

lemma nonempty_Inr: "nonempty v = Inr s \<longleftrightarrow> v = JStr s \<and> s \<noteq> []"
  by (auto simp: nonempty_def split: js.splits)

lemma isCoordinatorState_ok: "isCoordinatorState v = Inr s \<Longrightarrow> state_ok s"
  by (simp add: isCoordinatorState_def sbind_eq_Inr nonempty_Inr split_paired_Ex split: if_split_asm)
    (elim exE conjE; drule pair_of_slots; clarsimp simp: state_ok_def)

definition reads_states :: "builtins \<Rightarrow> bool" where
  "reads_states B \<longleftrightarrow> (\<forall>s. state_ok s \<longrightarrow> json_parse B (coordinator_text s) = Some (coordinator_object s))"

lemma parse_coordinator_text:
  "reads_states B \<Longrightarrow> state_ok s \<Longrightarrow> parseCoordinatorState B (coordinator_text s) = Inr t \<Longrightarrow> t = s"
  by (cases s) (auto simp: parseCoordinatorState_def reads_states_def isCoordinatorState_object split: if_splits)

lemma parse_short_text:
  assumes "reads_states B" and "state_ok s" and "utf8_bytes (coordinator_text s) \<le> MAX_STATE_BYTES"
  shows "parseCoordinatorState B (coordinator_text s) = Inr s"
proof -
  have "json_parse B (coordinator_text s) = Some (coordinator_object s)" using assms(1,2) unfolding reads_states_def by blast
  with assms(2,3) show ?thesis by (simp add: parseCoordinatorState_def isCoordinatorState_object)
qed

lemma printable_members:
  "printable (option_object f x) \<longleftrightarrow> (case x of None \<Rightarrow> True | Some y \<Rightarrow> printable (f y))"
  "(\<forall>m \<in> set (present_member k f x). printable (snd m)) \<longleftrightarrow> (case x of None \<Rightarrow> True | Some y \<Rightarrow> printable (f y))"
  "printable (int_object i)" "printable (texts_object ts)"
  by (auto simp: option_object_def present_member_def int_object_def texts_object_def number_ok_def finite_number_def split: option.splits)

lemma printable_parts:
  "printable (counts_object c)" "printable (effects_object e)" "printable (tie_object i)" "printable (artifact_object a)"
  "printable (score_receipt_object r)" "printable (terminal_object t)"
  by (cases t; simp add: counts_object_def effects_object_def tie_object_def artifact_object_def score_receipt_object_def printable_members)+

lemma printable_details: "printable (details_object d)"
  by (auto simp: details_object_def present_member_def printable_members printable_parts split: option.splits)

lemma coordinator_object_printable: "printable (coordinator_object s)"
proof -
  have "printable (runner_receipt_object r)" for r
    by (simp add: runner_receipt_object_def printable_members printable_parts printable_details)
  moreover have "printable (score_object k)" for k
    by (simp add: score_object_def printable_members printable_parts split: option.split)
  ultimately show ?thesis
    by (simp add: coordinator_object_def slot_object_def printable_members printable_parts split: option.split)
qed

lemma reads_states_reading: "reads_states reading_builtins"
  by (simp add: reads_states_def coordinator_text_def json_read_line coordinator_object_printable)

end
