(* ===== verification/Coordinator.thy ===== *)
theory Coordinator
  imports CoordinatorStore
begin

text \<open>
  The backtrack coordinator: \<open>src/src/workflow/backtrack-coordinator.ts\<close>,
  \<open>backtrack-coordinator-candidates.ts\<close> and \<open>backtrack-coordinator-helpers.ts\<close>. It drives a
  request from its accepted preflight to a terminal outcome, writing its state after every step,
  and can be run again after any failure or death of the process. It works on the worktree manager
  and the promotion of the same world. The world also holds the state files and, newest first,
  what was started, cloned and released. The runner, the snapshot store, the clone of a
  checkpoint and the hooks are asked of the environment. The runner and the hooks throw errors
  of class \<open>Error\<close> only.
\<close>

section \<open>The world\<close>

datatype coordinatorEvent =
    RunnerStarted string candidateIndex
  | CheckpointCloned string
  | ThreadDeleted string

record coordinatorEnv = promotionEnv +
  keSnapshot :: "nat \<Rightarrow> (string \<times> string option \<times> bool) result"
  keRun :: "nat \<Rightarrow> runnerReceipt result"
  keFirst :: "nat \<Rightarrow> candidateIndex"
  keCritic :: "tieCritic option"

record coordinatorWorld = promotionWorld +
  kwStates :: "(string \<times> string) list"
  kwEvents :: "coordinatorEvent list"

type_synonym ('e, 'w, 'a) cprog =
  "('e coordinatorEnv_ext promotionEnv_ext managerEnv_ext, 'w coordinatorWorld_ext promotionWorld_ext managerWorld_ext, 'a) prog"

record coordinateInput =
  inRequestId :: string
  inThreadId :: string
  inCheckpointId :: string
  inSourceSnapshotId :: string
  inSourceDirectory :: string

datatype coordinatorStage =
    StageCandidatesCreated | StageCheckpointsCloned | StageCandidatesCompleted | StageScored | StagePromoted
  | StageNeedsAttention | StageCleanupAttempted

datatype coordinatedOutcome =
    CoordinatedPromoted string candidateIndex string "runnerReceipt option \<times> runnerReceipt option" "candidateScoreReceipt \<times> candidateScoreReceipt"
  | CoordinatedAttention string attentionReason "runnerReceipt option \<times> runnerReceipt option"
      "(candidateScoreReceipt \<times> candidateScoreReceipt) option"

definition coordinator_error :: error where "coordinator_error = BacktrackCoordinatorError"

definition store_state :: "coordinatorState \<Rightarrow> 'w coordinatorWorld_scheme \<Rightarrow> 'w coordinatorWorld_scheme" where
  "store_state s w = w\<lparr>kwStates := AList.update (coRequestId s) (coordinator_text s) (kwStates w)\<rparr>"

definition write_state :: "coordinatorState \<Rightarrow> ('e, 'w, unit) cprog" where
  "write_state s = perform node_error (store_state s)"

definition read_state :: "builtins \<Rightarrow> string \<Rightarrow> ('e, 'w, coordinatorState option) cprog" where
  "read_state B q =
     mbind (observe (\<lambda>w. map_of (kwStates w) q)) (\<lambda>file.
     case file of None \<Rightarrow> ret None | Some t \<Rightarrow> mbind (lift (parseCoordinatorState B t)) (\<lambda>s. ret (Some s)))"

definition happened :: "coordinatorEvent \<Rightarrow> 'w coordinatorWorld_scheme \<Rightarrow> 'w coordinatorWorld_scheme" where
  "happened e w = w\<lparr>kwEvents := e # kwEvents w\<rparr>"

text \<open>The hook \<open>onDurableStage\<close>.\<close>

definition stage :: "coordinatorStage \<Rightarrow> ('e, 'w, unit) cprog" where
  "stage s = ask meCall"

definition persist :: "coordinatorState \<Rightarrow> coordinatorStage \<Rightarrow> ('e, 'w, unit) cprog" where
  "persist s st = mbind (write_state s) (\<lambda>_. stage st)"

section \<open>Helpers\<close>

fun otherCandidate :: "candidateIndex \<Rightarrow> candidateIndex" where
  "otherCandidate Candidate0 = Candidate1"
| "otherCandidate Candidate1 = Candidate0"

definition score_input :: "candidateIndex \<Rightarrow> runnerReceipt \<Rightarrow> candidateScoreInput" where
  "score_input i r = (let d = rrScore r in
     \<lparr>csiIndex = i, csiReplayCompatible = sdReplayCompatible d, csiEffects = rrEffects r,
      csiDeliveryCompleted = sdDeliveryCompleted d, csiHostVerification = sdHostVerification d,
      csiUnresolvedRisks = sdUnresolvedRisks d, csiChangedPaths = sdChangedPaths d, csiChangedBytes = sdChangedBytes d,
      csiCheckFailures = sdCheckFailures d, csiUnmetAcceptanceCriteria = sdUnmetAcceptanceCriteria d,
      csiRegressions = sdRegressions d\<rparr>)"

definition receipts_of :: "candidateScoreReceipt list \<Rightarrow> (candidateScoreReceipt \<times> candidateScoreReceipt) result" where
  "receipts_of rs =
     (case (List.find (\<lambda>r. csrIndex r = Candidate0) rs, List.find (\<lambda>r. csrIndex r = Candidate1) rs) of
        (Some a, Some b) \<Rightarrow> Inr (a, b) | _ \<Rightarrow> Inl coordinator_error)"

text \<open>\<open>None\<close> is the \<open>null\<close> of a pair without an eligible candidate.\<close>

definition scoreCompletedCandidates :: "coordinatorState \<Rightarrow> tieCritic option \<Rightarrow> coordinatorScore option result" where
  "scoreCompletedCandidates s critic =
     (case (sloReceipt (fst (coCandidates s)), sloReceipt (snd (coCandidates s))) of
        (Some a, Some b) \<Rightarrow>
          (case sbind (resolveCandidateScore [score_input Candidate0 a, score_input Candidate1 b] critic) (\<lambda>r.
                  sbind (receipts_of (rcsReceipts r)) (\<lambda>rs.
                  Inr \<lparr>ksWinner = csrIndex (rcsWinner r), ksReceipts = rs, ksTieDecision = rcsTieDecision r\<rparr>)) of
             Inr k \<Rightarrow> Inr (Some k)
           | Inl e \<Rightarrow> if e = PlainError ''no eligible candidate'' then Inr None else Inl e)
      | _ \<Rightarrow> Inl coordinator_error)"

definition coordinatorOutcome :: "coordinatorState \<Rightarrow> coordinatedOutcome result" where
  "coordinatorOutcome s =
     (let receipts = (sloReceipt (fst (coCandidates s)), sloReceipt (snd (coCandidates s)))
      in case coTerminal s of
           None \<Rightarrow> Inl coordinator_error
         | Some (TerminalAttention r) \<Rightarrow> Inr (CoordinatedAttention (coRequestId s) r receipts (map_option ksReceipts (coScore s)))
         | Some (TerminalPromoted i f) \<Rightarrow>
             (case coScore s of
                None \<Rightarrow> Inl coordinator_error
              | Some k \<Rightarrow> Inr (CoordinatedPromoted (coRequestId s) i f receipts (ksReceipts k))))"

definition assertSameRequest :: "coordinatorState \<Rightarrow> coordinateInput \<Rightarrow> unit result" where
  "assertSameRequest s i =
     (if coSourceDirectory s \<noteq> inSourceDirectory i \<or> coSourceThreadId s \<noteq> inThreadId i \<or>
         coCheckpointId s \<noteq> inCheckpointId i \<or> coSnapshotId s \<noteq> inSourceSnapshotId i
      then Inl coordinator_error else Inr ())"

section \<open>The candidates\<close>

definition candidateThreads :: "builtins \<Rightarrow> string \<Rightarrow> string \<times> string" where
  "candidateThreads B q = (let base = ''backtrack-'' @ take 32 (sha256_hex B q)
     in (base @ ''-candidate-0'', base @ ''-candidate-1''))"

definition pending_slot :: candidateSlot where
  "pending_slot = \<lparr>sloStatus = SlotPending, sloReceipt = None, sloFailure = None\<rparr>"

definition initial_coordinator :: "builtins \<Rightarrow> coordinateInput \<Rightarrow> coordinatorState" where
  "initial_coordinator B i =
     \<lparr>coRequestId = inRequestId i, coSourceDirectory = inSourceDirectory i, coSourceThreadId = inThreadId i,
      coCheckpointId = inCheckpointId i, coSnapshotId = inSourceSnapshotId i,
      coCandidateThreadIds = candidateThreads B (inRequestId i), coCandidatesCreated = False,
      coCheckpointsCloned = (False, False), coCandidates = (pending_slot, pending_slot), coScore = None,
      coTerminal = None, coCleanupAttempted = False, coCleanupCompleted = False\<rparr>"

definition initializeCoordinatorState :: "builtins \<Rightarrow> coordinateInput \<Rightarrow> ('e, 'w, coordinatorState) cprog" where
  "initializeCoordinatorState B i =
     mbind (ask keSnapshot) (\<lambda>snapshot.
     if fst snapshot \<noteq> inSourceSnapshotId i then throw coordinator_error
     else mbind (write_state (initial_coordinator B i)) (\<lambda>_. ret (initial_coordinator B i)))"

definition clone_one :: "candidateIndex \<Rightarrow> coordinatorState \<Rightarrow> ('e, 'w, coordinatorState) cprog" where
  "clone_one i s =
     (if pick i (coCheckpointsCloned s) then ret s
      else mbind (ask meCall) (\<lambda>_.
        mbind (perform node_error (happened (CheckpointCloned (pick i (coCandidateThreadIds s))))) (\<lambda>_.
        let t = s\<lparr>coCheckpointsCloned := put_at i True (coCheckpointsCloned s)\<rparr>
        in mbind (write_state t) (\<lambda>_. ret t))))"

definition cloneCandidateCheckpoints :: "coordinatorState \<Rightarrow> ('e, 'w, coordinatorState) cprog" where
  "cloneCandidateCheckpoints s =
     mbind (mfold clone_one CANDIDATES s) (\<lambda>t.
     mbind (mwhen (coCheckpointsCloned s \<noteq> (True, True)) (stage StageCheckpointsCloned)) (\<lambda>_. ret t))"

definition replaceCandidate ::
    "coordinatorState \<Rightarrow> candidateIndex \<Rightarrow> slotStatus \<Rightarrow> runnerReceipt option \<Rightarrow> string option \<Rightarrow> coordinatorState" where
  "replaceCandidate s i status receipt failure =
     s\<lparr>coCandidates := put_at i \<lparr>sloStatus = status, sloReceipt = receipt, sloFailure = failure\<rparr> (coCandidates s)\<rparr>"

definition runnable :: "coordinatorState \<Rightarrow> candidateIndex list" where
  "runnable s = filter (\<lambda>i. sloStatus (pick i (coCandidates s)) = SlotPending) CANDIDATES"

definition mark_running :: "coordinatorState \<Rightarrow> coordinatorState" where
  "mark_running s = fold (\<lambda>i t. replaceCandidate t i SlotRunning None None) (runnable s) s"

text \<open>The text of an error is the environment's: it does not influence anything.\<close>

definition error_text :: "error \<Rightarrow> string" where "error_text e = ''Error: failed''"

text \<open>A runner returns and its evidence is retained, or one of them throws; the result is recorded.\<close>

definition run_one :: "candidateIndex \<Rightarrow> coordinatorState \<Rightarrow> ('e, 'w, coordinatorState) cprog" where
  "run_one i s =
     mbind (mcatch (mbind (ask keRun) (\<lambda>receipt. mbind (ask meCall) (\<lambda>_. ret (Inr receipt)))) (\<lambda>e. ret (Inl e))) (\<lambda>r.
     let t = (case r of Inr receipt \<Rightarrow> replaceCandidate s i SlotCompleted (Some receipt) None
                      | Inl e \<Rightarrow> replaceCandidate s i SlotFailed None (Some (error_text e)))
     in mbind (write_state t) (\<lambda>_. ret t))"

definition finish_order :: "candidateIndex list \<Rightarrow> ('e, 'w, candidateIndex list) cprog" where
  "finish_order is = mbind (ask (\<lambda>E n. Inr (keFirst E n))) (\<lambda>first.
     ret (if first \<in> set is then first # filter (\<lambda>i. i \<noteq> first) is else is))"

definition runCandidatePair :: "builtins \<Rightarrow> coordinatorState \<Rightarrow> ('e, 'w, coordinatorState) cprog" where
  "runCandidatePair B s =
     mbind (getPair B (coRequestId s)) (\<lambda>pair.
     case pair of
       None \<Rightarrow> throw coordinator_error
     | Some p \<Rightarrow>
         if runnable s = [] then ret s
         else let running = mark_running s in
           mbind (write_state running) (\<lambda>_.
           mbind (each (\<lambda>i. perform node_error (happened (RunnerStarted (coRequestId s) i))) (runnable s)) (\<lambda>_.
           mbind (finish_order (runnable s)) (\<lambda>order.
           mbind (mfold run_one order running) (\<lambda>t.
           mbind (mwhen (list_all (\<lambda>i. sloStatus (pick i (coCandidates t)) = SlotCompleted) CANDIDATES) (stage StageCandidatesCompleted)) (\<lambda>_.
           ret t))))))"
section \<open>The end of a request\<close>

definition get_state_pair :: "builtins \<Rightarrow> coordinatorState \<Rightarrow> ('e, 'w, candidatePair option) cprog" where
  "get_state_pair B s = getPair B (coRequestId s)"

text \<open>The owners whose workspaces were removed lose their checkpoints and their evidence.\<close>

definition release_owners :: "string list \<Rightarrow> ('e, 'w, unit) cprog" where
  "release_owners owners =
     mbind (each (\<lambda>owner. perform node_error (happened (ThreadDeleted owner))) owners) (\<lambda>_. ask meCall)"

definition mark_candidates :: "builtins \<Rightarrow> coordinatorState \<Rightarrow> coordinatorTerminal \<Rightarrow> ('e, 'w, unit) cprog" where
  "mark_candidates B s terminal =
     (case terminal of
        TerminalPromoted winner f \<Rightarrow>
          mbind (setStatus B (coRequestId s) winner (CandidateWinner True)) (\<lambda>_.
          mbind (setStatus B (coRequestId s) (otherCandidate winner) CandidateLoser) (\<lambda>_.
          setPinned B (coRequestId s) (otherCandidate winner) False))
      | TerminalAttention r \<Rightarrow> each (\<lambda>i. setStatus B (coRequestId s) i CandidateCompleted) CANDIDATES)"

fun cleanup_is_completed :: "coordinatorTerminal \<Rightarrow> candidatePair option \<Rightarrow> bool" where
  "cleanup_is_completed (TerminalPromoted winner f) (Some p) =
     (cwRemovedAtMs (pick (otherCandidate winner) (cpCandidates p)) \<noteq> None)"
| "cleanup_is_completed _ _ = True"

definition clean_terminal :: "builtins \<Rightarrow> candidateManager \<Rightarrow> coordinatorState \<Rightarrow> coordinatorTerminal \<Rightarrow> ('e, 'w, coordinatedOutcome) cprog" where
  "clean_terminal B M s terminal =
     mbind (get_state_pair B s) (\<lambda>pair.
     mbind (case pair of
              None \<Rightarrow> ret []
            | Some p \<Rightarrow> mbind (mark_candidates B s terminal) (\<lambda>_.
                mbind (cleanupExpired B M) (\<lambda>r. ret (crReleaseOwnerIds r)))) (\<lambda>owners.
     mbind (release_owners owners) (\<lambda>_.
     mbind (get_state_pair B s) (\<lambda>retained.
     let completed = cleanup_is_completed terminal retained
     in mbind (mwhen (\<not> coCleanupAttempted s \<or> completed \<noteq> coCleanupCompleted s)
            (write_state (s\<lparr>coCleanupAttempted := True, coCleanupCompleted := completed\<rparr>))) (\<lambda>_.
        mbind (mwhen (\<not> coCleanupAttempted s) (stage StageCleanupAttempted)) (\<lambda>_.
        lift (coordinatorOutcome s)))))))"

definition finalizeTerminal :: "builtins \<Rightarrow> candidateManager \<Rightarrow> coordinatorState \<Rightarrow> ('e, 'w, coordinatedOutcome) cprog" where
  "finalizeTerminal B M s =
     (case coTerminal s of
        None \<Rightarrow> throw coordinator_error
      | Some terminal \<Rightarrow> if coCleanupCompleted s then lift (coordinatorOutcome s) else clean_terminal B M s terminal)"

definition terminalize ::
    "builtins \<Rightarrow> candidateManager \<Rightarrow> coordinatorState \<Rightarrow> coordinatorTerminal \<Rightarrow> ('e, 'w, coordinatedOutcome) cprog" where
  "terminalize B M s terminal =
     (let durable = s\<lparr>coTerminal := Some terminal\<rparr>
      in mbind (persist durable (case terminal of TerminalPromoted i f \<Rightarrow> StagePromoted | TerminalAttention r \<Rightarrow> StageNeedsAttention)) (\<lambda>_.
         finalizeTerminal B M durable))"

section \<open>Promoting\<close>

definition promotion_score :: "coordinatorState \<Rightarrow> coordinatorScore \<Rightarrow> runnerReceipt \<Rightarrow> promotionScore" where
  "promotion_score s k r =
     \<lparr>prRequestId = coRequestId s, prExpectedSnapshotId = coSnapshotId s, prWinner = ksWinner k, prReceipts = ksReceipts k,
      prEffects = rrEffects r, prTieDecision = ksTieDecision k\<rparr>"

text \<open>
  The body of the \<open>try\<close> and its handler, up to the terminal outcome: the promise of
  \<open>terminalize\<close> is returned without being awaited, so its failures are not caught.
\<close>

definition attempt_promotion ::
    "builtins \<Rightarrow> candidateManager \<Rightarrow> coordinatorState \<Rightarrow> promotionScore \<Rightarrow> bool \<Rightarrow> ('e, 'w, coordinatorTerminal) cprog" where
  "attempt_promotion B M s score recorded =
     mcatch
       (mbind (mwhen (\<not> recorded) (recordScored B M score)) (\<lambda>_.
        mbind (promote B M (coRequestId s)) (\<lambda>promoted.
        case snd promoted of
          PromotionPromoted f \<Rightarrow> ret (TerminalPromoted (prWinner score) f)
        | _ \<Rightarrow> throw coordinator_error)))
       (\<lambda>e. case e of
          CandidatePromotionError c \<Rightarrow>
            mbind (getRecord B (coRequestId s)) (\<lambda>recovered.
            ret (case recovered of
              Some (r, PromotionPromoted f) \<Rightarrow> TerminalPromoted (prWinner score) f
            | _ \<Rightarrow> TerminalAttention ReasonPromotionFailed))
        | _ \<Rightarrow> throw e)"

definition settle_promotion ::
    "builtins \<Rightarrow> candidateManager \<Rightarrow> coordinatorState \<Rightarrow> coordinatorScore \<Rightarrow> promotionRecord option \<Rightarrow> ('e, 'w, coordinatorTerminal) cprog" where
  "settle_promotion B M s k existing =
     (let attempt = (case sloReceipt (pick (ksWinner k) (coCandidates s)) of
         None \<Rightarrow> throw coordinator_error
       | Some r \<Rightarrow> attempt_promotion B M s (promotion_score s k r) (existing \<noteq> None))
      in case existing of
           Some (r, PromotionPromoted f) \<Rightarrow> ret (TerminalPromoted (ksWinner k) f)
         | Some (r, PromotionPromoting) \<Rightarrow> ret (TerminalAttention ReasonPromotionIncomplete)
         | _ \<Rightarrow> attempt)"

definition coordinator_promote :: "builtins \<Rightarrow> candidateManager \<Rightarrow> coordinatorState \<Rightarrow> ('e, 'w, coordinatedOutcome) cprog" where
  "coordinator_promote B M s =
     (case coScore s of
        None \<Rightarrow> throw coordinator_error
      | Some k \<Rightarrow>
          mbind (setStatus B (coRequestId s) (ksWinner k) (CandidateWinner False)) (\<lambda>_.
          mbind (setStatus B (coRequestId s) (otherCandidate (ksWinner k)) CandidateLoser) (\<lambda>_.
          mbind (getRecord B (coRequestId s)) (\<lambda>existing.
          mbind (settle_promotion B M s k existing) (\<lambda>terminal.
          terminalize B M s terminal)))))"

section \<open>A run\<close>

definition createCandidates :: "builtins \<Rightarrow> candidateManager \<Rightarrow> coordinatorState \<Rightarrow> ('e, 'w, coordinatorState) cprog" where
  "createCandidates B M s =
     (if coCandidatesCreated s then ret s
      else mbind (ask keSnapshot) (\<lambda>snapshot.
        if fst snapshot \<noteq> coSnapshotId s then throw coordinator_error
        else mbind (createPair B M
            \<lparr>ciRequestId = coRequestId s, ciSourceThreadId = coSourceThreadId s, ciCheckpointId = coCheckpointId s,
             ciRetentionOwnerIds = coCandidateThreadIds s, ciSnapshotId = fst snapshot,
             ciBaselineHead = fst (snd snapshot), ciDirty = snd (snd snapshot)\<rparr>) (\<lambda>_.
          let t = s\<lparr>coCandidatesCreated := True\<rparr>
          in mbind (persist t StageCandidatesCreated) (\<lambda>_. ret t))))"

text \<open>\<open>None\<close> as the score of a pair without one; \<open>TerminalAttention\<close> when the request ends here.\<close>

definition scoreCandidatesOnce ::
    "coordinatorState \<Rightarrow> ('e, 'w, attentionReason + coordinatorState) cprog" where
  "scoreCandidatesOnce s =
     (case coScore s of
        Some k \<Rightarrow> ret (Inr s)
      | None \<Rightarrow>
          mbind (mcatch
            (mbind (ask (\<lambda>E n. scoreCompletedCandidates s (keCritic E))) (\<lambda>k.
             ret (case k of None \<Rightarrow> Inl ReasonNoEligibleCandidate | Some x \<Rightarrow> Inr x)))
            (\<lambda>e. case e of CandidateTieCriticError c \<Rightarrow> ret (Inl ReasonTieCriticFailed) | _ \<Rightarrow> throw e)) (\<lambda>r.
          case r of
            Inl reason \<Rightarrow> ret (Inl reason)
          | Inr k \<Rightarrow> let t = s\<lparr>coScore := Some k\<rparr> in mbind (persist t StageScored) (\<lambda>_. ret (Inr t))))"

definition any_slot :: "(candidateSlot \<Rightarrow> bool) \<Rightarrow> coordinatorState \<Rightarrow> bool" where
  "any_slot P s \<longleftrightarrow> P (fst (coCandidates s)) \<or> P (snd (coCandidates s))"

definition advance_request :: "builtins \<Rightarrow> candidateManager \<Rightarrow> coordinatorState \<Rightarrow> ('e, 'w, coordinatedOutcome) cprog" where
  "advance_request B M s =
     mbind (createCandidates B M s) (\<lambda>created.
     mbind (cloneCandidateCheckpoints created) (\<lambda>cloned.
     if any_slot (\<lambda>c. sloStatus c = SlotRunning \<and> sloReceipt c = None) cloned
     then terminalize B M cloned (TerminalAttention ReasonCandidateInterrupted)
     else mbind (runCandidatePair B cloned) (\<lambda>finished.
       if any_slot (\<lambda>c. sloStatus c = SlotFailed) finished
       then terminalize B M finished (TerminalAttention ReasonCandidateFailed)
       else mbind (scoreCandidatesOnce finished) (\<lambda>scored.
         case scored of
           Inl reason \<Rightarrow> terminalize B M finished (TerminalAttention reason)
         | Inr t \<Rightarrow> coordinator_promote B M t))))"

definition runLocked :: "builtins \<Rightarrow> candidateManager \<Rightarrow> coordinateInput \<Rightarrow> ('e, 'w, coordinatedOutcome) cprog" where
  "runLocked B M i =
     mbind (read_state B (inRequestId i)) (\<lambda>read.
     mbind (case read of None \<Rightarrow> initializeCoordinatorState B i | Some s \<Rightarrow> ret s) (\<lambda>s.
     mbind (lift (assertSameRequest s i)) (\<lambda>_.
     if coTerminal s \<noteq> None then finalizeTerminal B M s else advance_request B M s)))"

definition run :: "builtins \<Rightarrow> candidateManager \<Rightarrow> coordinateInput \<Rightarrow> ('e, 'w, coordinatedOutcome) cprog" where
  "run B M i = mbind (validateLexicalId (inRequestId i)) (\<lambda>_. locked (runLocked B M i))"
section \<open>What is durable\<close>

definition stored :: "coordinatorState \<Rightarrow> 'w coordinatorWorld_scheme \<Rightarrow> bool" where
  "stored s w \<longleftrightarrow> state_ok s \<and> map_of (kwStates w) (coRequestId s) = Some (coordinator_text s)"

definition states_ok :: "'w coordinatorWorld_scheme \<Rightarrow> bool" where
  "states_ok w \<longleftrightarrow> (\<forall>q t. map_of (kwStates w) q = Some t \<longrightarrow> (\<exists>s. stored s w \<and> coRequestId s = q))"

definition times_started :: "string \<Rightarrow> candidateIndex \<Rightarrow> 'w coordinatorWorld_scheme \<Rightarrow> nat" where
  "times_started q i w = count_list (kwEvents w) (RunnerStarted q i)"

definition is_pending :: "candidateIndex \<Rightarrow> coordinatorState \<Rightarrow> bool" where
  "is_pending i s \<longleftrightarrow> sloStatus (pick i (coCandidates s)) = SlotPending"

text \<open>No runner was started twice, and the state of a request shows which were started.\<close>

definition runs_once :: "'w coordinatorWorld_scheme \<Rightarrow> bool" where
  "runs_once w \<longleftrightarrow> states_ok w \<and> (\<forall>q i. times_started q i w \<le> 1 \<and>
     (0 < times_started q i w \<longrightarrow> (\<exists>s. stored s w \<and> coRequestId s = q \<and> \<not> is_pending i s)))"

definition verdict :: "string \<Rightarrow> coordinatedOutcome \<Rightarrow> 'w coordinatorWorld_scheme \<Rightarrow> bool" where
  "verdict q out w \<longleftrightarrow> (\<exists>s. stored s w \<and> coRequestId s = q \<and> coTerminal s \<noteq> None \<and> coordinatorOutcome s = Inr out)"

text \<open>A state that may replace another one of the same request.\<close>

definition succeeds :: "coordinatorState \<Rightarrow> coordinatorState \<Rightarrow> bool" where
  "succeeds s t \<longleftrightarrow> state_ok t \<and> coRequestId t = coRequestId s \<and> (\<forall>i. is_pending i t \<longrightarrow> is_pending i s) \<and>
     (coTerminal s \<noteq> None \<longrightarrow> coTerminal t \<noteq> None \<and> coordinatorOutcome t = coordinatorOutcome s)"

lemma coordinator_text_inj: "state_ok s \<Longrightarrow> state_ok t \<Longrightarrow> coordinator_text s = coordinator_text t \<Longrightarrow> s = t"
  using reads_states_reading isCoordinatorState_object by (metis reads_states_def option.inject sum.inject(2))

lemma stored_unique: "stored s w \<Longrightarrow> stored t w \<Longrightarrow> coRequestId s = coRequestId t \<Longrightarrow> s = t"
  by (auto simp: stored_def intro: coordinator_text_inj)

lemma coordinator_world_simps [simp]:
  "kwStates (elapse w) = kwStates w" "kwEvents (elapse w) = kwEvents w"
  "kwStates (store_manifest p w) = kwStates w" "kwEvents (store_manifest p w) = kwEvents w"
  "kwStates (add_path d e w) = kwStates w" "kwEvents (add_path d e w) = kwEvents w"
  "kwStates (remove_path d e w) = kwStates w" "kwEvents (remove_path d e w) = kwEvents w"
  "kwStates (store_record r w) = kwStates w" "kwEvents (store_record r w) = kwEvents w"
  "kwStates (happened x w) = kwStates w" "kwEvents (happened x w) = x # kwEvents w"
  "kwEvents (store_state s w) = kwEvents w"
  "map_of (kwStates (store_state s w)) = (map_of (kwStates w))(coRequestId s \<mapsto> coordinator_text s)"
  by (simp_all add: elapse_def store_manifest_def add_path_def remove_path_def store_record_def happened_def store_state_def update_conv')

lemma stored_cong: "kwStates w' = kwStates w \<Longrightarrow> stored s w' = stored s w"
  by (simp add: stored_def)

lemma durable_cong:
  assumes "kwStates w' = kwStates w"
  shows "states_ok w' = states_ok w" and "verdict q out w' = verdict q out w"
  using assms by (simp_all add: states_ok_def verdict_def stored_def)

lemma runs_once_cong: "kwStates w' = kwStates w \<Longrightarrow> kwEvents w' = kwEvents w \<Longrightarrow> runs_once w' = runs_once w"
  by (simp add: runs_once_def durable_cong(1)[of w' w] stored_def times_started_def)

lemma runs_once_event:
  assumes "runs_once w" and "\<And>q i. e \<noteq> RunnerStarted q i"
  shows "runs_once (happened e w)"
  using assms by (simp add: runs_once_def states_ok_def stored_def times_started_def)

lemma runs_once_started:
  assumes "runs_once w" and "stored s w" and "\<not> is_pending i s" and "times_started (coRequestId s) i w = 0"
  shows "runs_once (happened (RunnerStarted (coRequestId s) i) w)"
  using assms by (auto simp: runs_once_def states_ok_def stored_def times_started_def)

lemma stored_store: "state_ok s \<Longrightarrow> stored s (store_state s w)"
  by (simp add: stored_def)

lemma stored_other: "coRequestId t \<noteq> coRequestId s \<Longrightarrow> stored t (store_state s w) = stored t w"
  by (simp add: stored_def)

lemma states_ok_store: "states_ok w \<Longrightarrow> state_ok s \<Longrightarrow> states_ok (store_state s w)"
  unfolding states_ok_def by (metis coordinator_world_simps(14) fun_upd_apply stored_other stored_store)

lemma runs_once_store:
  assumes "runs_once w" and "state_ok t"
    and "\<And>i. is_pending i t \<Longrightarrow> times_started (coRequestId t) i w = 0"
  shows "runs_once (store_state t w)"
proof -
  have "times_started q i w \<le> 1 \<and> (0 < times_started q i w \<longrightarrow> (\<exists>s. stored s (store_state t w) \<and> coRequestId s = q \<and> \<not> is_pending i s))" for q i
    using assms stored_store[OF assms(2), of w] stored_other[of _ t w] unfolding runs_once_def by (metis less_numeral_extra(3))
  moreover have "times_started q i (store_state t w) = times_started q i w" for q i by (simp add: times_started_def)
  ultimately show ?thesis using assms(1,2) by (simp add: runs_once_def states_ok_store)
qed

lemma not_started: "runs_once w \<Longrightarrow> stored s w \<Longrightarrow> is_pending i s \<Longrightarrow> times_started (coRequestId s) i w = 0"
  unfolding runs_once_def by (metis not_gr_zero stored_unique)

lemma never_started: "runs_once w \<Longrightarrow> map_of (kwStates w) q = None \<Longrightarrow> times_started q i w = 0"
  unfolding runs_once_def by (metis not_gr_zero option.distinct(1) stored_def)

lemma runs_once_succeeds: "runs_once w \<Longrightarrow> stored s w \<Longrightarrow> succeeds s t \<Longrightarrow> runs_once (store_state t w)"
  by (rule runs_once_store) (auto simp: succeeds_def not_started)

lemma succeeds_trans: "succeeds s t \<Longrightarrow> succeeds t u \<Longrightarrow> succeeds s u"
  by (simp add: succeeds_def)
section \<open>What a promotion leaves alone\<close>

definition promotion_frame :: "('w promotionWorld_scheme \<Rightarrow> bool) \<Rightarrow> bool" where
  "promotion_frame P \<longleftrightarrow> manager_frame P \<and> (\<forall>r w. P w \<longrightarrow> P (store_record r w)) \<and>
     (\<forall>ps w. P w \<longrightarrow> P (w\<lparr>pwPublications := ps\<rparr>))"

lemma promotion_frame_manager: "promotion_frame P \<Longrightarrow> manager_frame P"
  by (simp add: promotion_frame_def)

lemma keeps_getRecord: "promotion_frame P \<Longrightarrow> keeps E P (getRecord B q)"
proof -
  assume "promotion_frame P"
  then have frame: "manager_frame P" by (rule promotion_frame_manager)
  have "keeps E P (case parsePromotionRecord B t of Inr r \<Rightarrow> ret (Some r)
      | Inl CandidatePromotionRecordError \<Rightarrow> throw (promotion_error InvalidReceipt) | Inl e \<Rightarrow> throw e)" for t
    by (auto split: sum.split error.split)
  then show ?thesis unfolding getRecord_def by (auto intro!: keeps_basic[OF frame])
qed

lemma keeps_writeRecord: "promotion_frame P \<Longrightarrow> keeps E P (writeRecord r)"
  unfolding writeRecord_def by (rule keeps_perform) (simp_all add: promotion_frame_def manager_frame_def del: split_paired_All)

lemma keeps_publish_source: "promotion_frame P \<Longrightarrow> keeps E P (publish_source q i s)"
  unfolding promotion_frame_def manager_frame_def untimed_def
  by (rule keepsI, rule hoareI) (auto simp: publish_source_def Let_def split: fate.split transactionOutcome.split)

lemma keeps_promotion:
  assumes "promotion_frame P"
  shows "keeps E P (recordScored B M s)" and "keeps E P (promote B M q)"
proof -
  note frame = promotion_frame_manager[OF assms]
  note steps = keeps_basic[OF frame] keeps_reads[OF frame] keeps_updates[OF frame] keeps_locked[OF frame]
    keeps_getRecord[OF assms] keeps_writeRecord[OF assms] keeps_publish_source[OF assms]
  show "keeps E P (recordScored B M s)" unfolding recordScored_def by (auto intro!: steps)
  have publishing: "keeps E P (publish B M s)" for s unfolding publish_def by (auto intro!: steps)
  have opens: "keeps E P (openTransaction B M s)" for s unfolding openTransaction_def by (auto intro!: steps)
  have "keeps E P (promoteLocked B M q)"
    unfolding promoteLocked_def by (auto intro!: steps publishing opens)
  then show "keeps E P (promote B M q)" unfolding promote_def by (auto intro!: steps)
qed
section \<open>Runs that keep what is durable\<close>

text \<open>A program that keeps \<open>H\<close> whatever happens, and reaches \<open>A\<close> when it returns.\<close>

definition reaches :: "'e env_scheme \<Rightarrow> ('w world_scheme \<Rightarrow> bool) \<Rightarrow> ('w world_scheme \<Rightarrow> bool) \<Rightarrow> ('e, 'w, 'a) prog \<Rightarrow> ('a \<Rightarrow> 'w world_scheme \<Rightarrow> bool) \<Rightarrow> bool" where
  "reaches E H P m A \<longleftrightarrow> hoare E P m (post A (\<lambda>_. H) H)"

lemma reaches_mbind: "reaches E H P m M \<Longrightarrow> (\<And>x. reaches E H (M x) (f x) A) \<Longrightarrow> reaches E H P (mbind m f) A"
  unfolding reaches_def by (rule hoare_mbind) simp_all

lemma reaches_ret: "(\<And>w. P w \<Longrightarrow> A x w) \<Longrightarrow> reaches E H P (ret x) A"
  unfolding reaches_def by (rule hoare_ret) simp

lemma reaches_throw: "(\<And>w. P w \<Longrightarrow> H w) \<Longrightarrow> reaches E H P (throw e) A"
  unfolding reaches_def by (rule hoare_throw) simp

lemma reaches_lift: "(\<And>w. P w \<Longrightarrow> H w) \<Longrightarrow> (\<And>w x. P w \<Longrightarrow> r = Inr x \<Longrightarrow> A x w) \<Longrightarrow> reaches E H P (lift r) A"
  unfolding reaches_def by (rule hoare_lift) simp_all

lemma reaches_keeps: "keeps E P m \<Longrightarrow> (\<And>w. P w \<Longrightarrow> H w) \<Longrightarrow> reaches E H P m (\<lambda>_. P)"
  unfolding reaches_def by (rule keeps_post)

lemma reaches_weaken:
  "reaches E H P' m A' \<Longrightarrow> (\<And>w. P w \<Longrightarrow> P' w) \<Longrightarrow> (\<And>x w. A' x w \<Longrightarrow> A x w) \<Longrightarrow> reaches E H P m A"
  unfolding reaches_def by (erule hoare_weaken) (auto simp: post_def split: outcome.splits)

lemma reaches_never: "(\<And>w. \<not> P w) \<Longrightarrow> reaches E H P m A"
  by (simp add: reaches_def hoare_def)

lemma reaches_fact: "(\<And>w. P w \<Longrightarrow> F) \<Longrightarrow> (F \<Longrightarrow> reaches E H P m A) \<Longrightarrow> reaches E H P m A"
  using reaches_never[of P E H m A] by blast

lemma reaches_perform:
  assumes "\<And>w. P w \<Longrightarrow> H (elapse w) \<and> H (eff (elapse w))" and "\<And>w. P w \<Longrightarrow> A () (eff (elapse w))"
  shows "reaches E H P (perform e eff) A"
  unfolding reaches_def by (rule hoare_perform) (simp_all add: assms)

lemma reaches_mwhen:
  "(b \<Longrightarrow> reaches E H P m A) \<Longrightarrow> (\<And>w. \<not> b \<Longrightarrow> P w \<Longrightarrow> A () w) \<Longrightarrow> reaches E H P (mwhen b m) A"
  unfolding reaches_def by (rule hoare_mwhen) simp_all

lemma reaches_mcatch:
  "reaches E P P m A \<Longrightarrow> (\<And>e. reaches E H P (h e) A) \<Longrightarrow> (\<And>w. P w \<Longrightarrow> H w) \<Longrightarrow> reaches E H P (mcatch m h) A"
  unfolding reaches_def
  by (rule hoare_mcatch[where H = "\<lambda>_. P"]) (auto simp: hoare_def post_def split: outcome.splits)

lemma reaches_mfold:
  assumes "\<And>x ys b. set (x # ys) \<subseteq> set xs \<Longrightarrow> reaches E H (I (x # ys) b) (f x b) (I ys)"
  shows "reaches E H (I xs b) (mfold f xs b) (I [])"
  unfolding reaches_def by (rule hoare_mfold) (use assms in \<open>simp_all add: reaches_def\<close>)

lemma reaches_locked:
  assumes "reaches E H P m A" and "\<And>w. P w \<Longrightarrow> P (elapse w)" and "\<And>w. H w \<Longrightarrow> H (elapse w)"
    and "\<And>x w. A x w \<Longrightarrow> A x (elapse w)" and "\<And>w. P w \<Longrightarrow> H w" and "\<And>x w. A x w \<Longrightarrow> H w"
  shows "reaches E H P (locked m) A"
  using locked_ok[of P A H E m] assms unfolding reaches_def by blast

definition held :: "('w coordinatorWorld_scheme \<Rightarrow> bool) \<Rightarrow> 'w coordinatorWorld_scheme \<Rightarrow> bool" where
  "held V w \<longleftrightarrow> runs_once w \<and> V w"

definition holding :: "('w coordinatorWorld_scheme \<Rightarrow> bool) \<Rightarrow> string \<Rightarrow> coordinatorState \<Rightarrow> 'w coordinatorWorld_scheme \<Rightarrow> bool" where
  "holding V q s w \<longleftrightarrow> held V w \<and> stored s w \<and> coRequestId s = q"

text \<open>A request that has no verdict yet.\<close>

definition live :: "('w coordinatorWorld_scheme \<Rightarrow> bool) \<Rightarrow> string \<Rightarrow> coordinatorState \<Rightarrow> 'w coordinatorWorld_scheme \<Rightarrow> bool" where
  "live V q s w \<longleftrightarrow> holding V q s w \<and> coTerminal s = None"

definition runner_ok :: "'e coordinatorEnv_scheme \<Rightarrow> bool" where
  "runner_ok E \<longleftrightarrow> (\<forall>n r. keRun E n = Inr r \<longrightarrow> runner_receipt_ok r)"

definition input_ok :: "coordinateInput \<Rightarrow> bool" where
  "input_ok i \<longleftrightarrow> inThreadId i \<noteq> [] \<and> inCheckpointId i \<noteq> [] \<and> inSourceSnapshotId i \<noteq> [] \<and> inSourceDirectory i \<noteq> []"

lemma slots_ok: "state_ok s \<Longrightarrow> slot_ok x \<Longrightarrow> state_ok (s\<lparr>coCandidates := put_at i x (coCandidates s)\<rparr>)"
  by (cases i) (simp_all add: state_ok_def)

lemma candidate_index_exhaust: "i \<in> set CANDIDATES"
  by (cases i) (simp_all add: CANDIDATES_def)

lemma replaceCandidate_simps [simp]:
  "coRequestId (replaceCandidate s i st r f) = coRequestId s" "coTerminal (replaceCandidate s i st r f) = coTerminal s"
  "is_pending j (replaceCandidate s i st r f) \<longleftrightarrow> (if j = i then st = SlotPending else is_pending j s)"
  by (simp_all add: replaceCandidate_def is_pending_def)

lemma replaceCandidate_succeeds:
  assumes "state_ok s" and "coTerminal s = None" and "st \<noteq> SlotPending" and "\<And>x. r = Some x \<Longrightarrow> runner_receipt_ok x"
  shows "succeeds s (replaceCandidate s i st r f)"
  using assms by (auto simp: succeeds_def replaceCandidate_def is_pending_def slot_ok_def intro!: slots_ok split: option.split)

lemma mark_running_facts:
  assumes "state_ok s"
  shows "state_ok (mark_running s)" and "coRequestId (mark_running s) = coRequestId s" and "coTerminal (mark_running s) = coTerminal s"
    and "\<not> is_pending i (mark_running s)"
proof -
  have ok: "state_ok (replaceCandidate s i SlotRunning None None)" if "state_ok s" for s i
    using that by (auto simp: replaceCandidate_def slot_ok_def intro!: slots_ok)
  show "state_ok (mark_running s)"
    using assms by (auto simp: mark_running_def runnable_def CANDIDATES_def ok)
  show "coRequestId (mark_running s) = coRequestId s" "coTerminal (mark_running s) = coTerminal s" "\<not> is_pending i (mark_running s)"
    by (cases i; auto simp: mark_running_def runnable_def CANDIDATES_def; simp add: is_pending_def)+
qed

lemma runnable_pending: "i \<in> set (runnable s) \<longleftrightarrow> is_pending i s" "distinct (runnable s)"
  by (cases i; auto simp: runnable_def is_pending_def CANDIDATES_def) (simp add: runnable_def CANDIDATES_def)
lemma untimedI: "(\<And>w. P w \<Longrightarrow> P (elapse w)) \<Longrightarrow> untimed P"
  by (simp add: untimed_def)

lemma promotion_frame_conj: "promotion_frame P \<Longrightarrow> promotion_frame Q \<Longrightarrow> promotion_frame (\<lambda>w. P w \<and> Q w)"
  and promotion_frame_const: "promotion_frame (\<lambda>_. b)"
  by (simp_all add: promotion_frame_def manager_frame_def untimed_def del: split_paired_All)

lemma promotion_frame_cong: "promotion_frame Q \<Longrightarrow> (\<And>w. P w = Q w) \<Longrightarrow> promotion_frame P"
  by (rule back_subst[of promotion_frame Q P]) auto

lemma stored_frame: "promotion_frame (stored s)"
  by (simp add: promotion_frame_def manager_frame_def untimed_def stored_def)

lemma runs_once_frame: "promotion_frame runs_once"
  unfolding promotion_frame_def manager_frame_def untimed_def
  by (intro conjI allI impI; erule runs_once_cong[THEN iffD2, rotated 2]; simp)

text \<open>
  A statement about durable states that every step of the coordinator keeps. The lemmas of the
  locale are proved once for such a statement and hold for each instance.
\<close>

locale coordinator_invariant =
  fixes V :: "'w coordinatorWorld_scheme \<Rightarrow> bool"
  assumes frame: "promotion_frame V"
    and event: "V w \<Longrightarrow> V (happened e w)"
    and fresh: "V w \<Longrightarrow> map_of (kwStates w) (coRequestId s) = None \<Longrightarrow> V (store_state s w)"
    and succeeded: "V w \<Longrightarrow> stored s w \<Longrightarrow> succeeds s t \<Longrightarrow> V (store_state t w)"
begin

lemma frames: "promotion_frame (held V)" "promotion_frame (holding V q s)" "promotion_frame (live V q s)"
proof -
  show held: "promotion_frame (held V)"
    by (rule promotion_frame_cong[OF promotion_frame_conj[OF runs_once_frame frame]]) (simp add: held_def)
  show holding: "promotion_frame (holding V q s)"
    by (rule promotion_frame_cong[OF promotion_frame_conj[OF promotion_frame_conj[OF held stored_frame] promotion_frame_const[of "coRequestId s = q"]]])
      (simp add: holding_def)
  show "promotion_frame (live V q s)"
    by (rule promotion_frame_cong[OF promotion_frame_conj[OF holding promotion_frame_const[of "coTerminal s = None"]]]) (simp add: live_def)
qed

lemma held_elapse: "held V w \<Longrightarrow> held V (elapse w)"
  using frames(1) by (simp add: promotion_frame_def manager_frame_def untimed_def)

lemma holding_elapse: "holding V q s w \<Longrightarrow> holding V q s (elapse w)"
  using frames(2) by (simp add: promotion_frame_def manager_frame_def untimed_def)

lemma held_event: "held V w \<Longrightarrow> (\<And>q i. e \<noteq> RunnerStarted q i) \<Longrightarrow> held V (happened e w)"
  by (simp add: held_def event runs_once_event)

lemma holding_event: "holding V q s w \<Longrightarrow> (\<And>q i. e \<noteq> RunnerStarted q i) \<Longrightarrow> holding V q s (happened e w)"
  by (auto simp: holding_def stored_def intro: held_event)

lemma write_succeeds:
  assumes "holding V q s w" and "succeeds s t"
  shows "holding V q t (store_state t w)"
  using assms runs_once_succeeds[of w s t] succeeded[of w s t]
  by (simp add: holding_def held_def stored_store succeeds_def)

lemma reach_write:
  assumes "\<And>w. P w \<Longrightarrow> holding V q s w" and "state_ok s \<Longrightarrow> succeeds s t"
  shows "reaches E (held V) P (write_state t) (\<lambda>_. holding V q t)"
  unfolding write_state_def
proof (rule reaches_perform)
  fix w assume "P w"
  then have 1: "holding V q s w" by (rule assms(1))
  then have 2: "succeeds s t" using assms(2) by (simp add: holding_def stored_def)
  have 3: "holding V q t (store_state t (elapse w))" by (rule write_succeeds[OF holding_elapse[OF 1] 2])
  then show "holding V q t (store_state t (elapse w))" .
  with 1 show "held V (elapse w) \<and> held V (store_state t (elapse w))" by (simp add: holding_def held_elapse)
qed

lemma live_holding: "live V q s w \<Longrightarrow> holding V q s w" and live_held: "live V q s w \<Longrightarrow> held V w"
  by (simp_all add: live_def holding_def)

lemma reach_live_write:
  assumes "state_ok s \<Longrightarrow> coTerminal s = None \<Longrightarrow> succeeds s t \<and> coTerminal t = None"
  shows "reaches E (held V) (live V q s) (write_state t) (\<lambda>_. live V q t)"
proof (rule reaches_fact[where F = "state_ok s \<and> coTerminal s = None"])
  show "live V q s w \<Longrightarrow> state_ok s \<and> coTerminal s = None" for w by (simp add: live_def holding_def stored_def)
  assume F: "state_ok s \<and> coTerminal s = None"
  show "reaches E (held V) (live V q s) (write_state t) (\<lambda>_. live V q t)"
    by (rule reaches_weaken[OF reach_write[where P = "holding V q s" and s = s and t = t]])
      (use F assms in \<open>auto simp: live_def\<close>)
qed

lemma reach_frame:
  assumes "keeps E (live V q s) m"
  shows "reaches E (held V) (live V q s) m (\<lambda>_. live V q s)"
  by (rule reaches_keeps[OF assms live_held])

lemma live_basic:
  "keeps E (live V q s) (ask g)" "keeps E (live V q s) (observe h)" "keeps E (live V q s) (perform e id)" "keeps E (live V q s) (stage d)"
  using keeps_basic[OF promotion_frame_manager[OF frames(3)]] by (simp_all add: stage_def)

lemma reach_clone_one: "reaches E (held V) (live V q s) (clone_one i s) (\<lambda>t. live V q t)"
  unfolding clone_one_def Let_def
proof (cases "pick i (coCheckpointsCloned s)")
  case False
  have cloned: "keeps E (live V q s) (perform node_error (happened (CheckpointCloned c)))" for c
    by (rule keeps_perform) (use frames(3) in \<open>auto simp: promotion_frame_def manager_frame_def live_def holding_event\<close>)
  show "reaches E (held V) (live V q s)
    (if pick i (coCheckpointsCloned s) then ret s
     else mbind (ask meCall) (\<lambda>_. mbind (perform node_error (happened (CheckpointCloned (pick i (coCandidateThreadIds s))))) (\<lambda>_.
       mbind (write_state (s\<lparr>coCheckpointsCloned := put_at i True (coCheckpointsCloned s)\<rparr>)) (\<lambda>_.
       ret (s\<lparr>coCheckpointsCloned := put_at i True (coCheckpointsCloned s)\<rparr>))))) (\<lambda>t. live V q t)"
    using False
    by (simp, intro reaches_mbind[OF reach_frame] live_basic cloned reaches_mbind[OF reach_live_write] reaches_ret)
      (auto simp: succeeds_def state_ok_def is_pending_def)
qed (simp add: reaches_ret)

lemma reach_clones: "reaches E (held V) (live V q s) (cloneCandidateCheckpoints s) (\<lambda>t. live V q t)"
  unfolding cloneCandidateCheckpoints_def
proof (rule reaches_mbind)
  show "reaches E (held V) (live V q s) (mfold clone_one CANDIDATES s) (\<lambda>t. live V q t)"
    by (rule reaches_mfold[where I = "\<lambda>_ t. live V q t"], rule reach_clone_one)
  show "reaches E (held V) (live V q t) (mbind (mwhen (coCheckpointsCloned s \<noteq> (True, True)) (stage StageCheckpointsCloned)) (\<lambda>_. ret t))
      (\<lambda>t. live V q t)" for t
    by (intro reaches_mbind[OF reach_frame] reaches_ret keeps_mwhen live_basic)
qed

lemma reach_create: "reaches E (held V) (live V q s) (createCandidates B M s) (\<lambda>t. live V q t)"
proof -
  note manager = promotion_frame_manager[OF frames(3)]
  have stop: "reaches E (held V) (live V q s) (throw e) A" for e A by (rule reaches_throw[OF live_held])
  have written: "reaches E (held V) (live V q s) (write_state (s\<lparr>coCandidatesCreated := True\<rparr>)) (\<lambda>_. live V q (s\<lparr>coCandidatesCreated := True\<rparr>))"
    by (rule reach_live_write) (simp add: succeeds_def state_ok_def is_pending_def)
  show ?thesis
    unfolding createCandidates_def persist_def Let_def
    by (cases "coCandidatesCreated s")
      (auto intro!: reaches_ret stop reaches_mbind[OF reach_frame] reaches_mbind[OF written] reaches_mbind[OF reaches_mbind[OF written reach_frame]]
        live_basic keeps_createPair[OF manager])
qed

lemma reach_run_one:
  assumes "runner_ok E"
  shows "reaches E (held V) (live V q s) (run_one i s) (\<lambda>t. live V q t)"
  unfolding run_one_def Let_def
proof (rule reaches_mbind[where M = "\<lambda>r w. live V q s w \<and> (\<forall>x. r = Inr x \<longrightarrow> runner_receipt_ok x)"])
  let ?ok = "\<lambda>r w. live V q s w \<and> (\<forall>x. r = Inr x \<longrightarrow> runner_receipt_ok x)"
  have ask: "reaches E (live V q s) (live V q s) (ask keRun) (\<lambda>x w. live V q s w \<and> runner_receipt_ok x)"
    unfolding reaches_def
    by (rule hoare_ask) (use assms frames(3) in \<open>auto simp: runner_ok_def promotion_frame_def manager_frame_def untimed_def\<close>)
  have retain: "reaches E (live V q s) (\<lambda>w. live V q s w \<and> runner_receipt_ok x) (mbind (ask meCall) (\<lambda>_. ret (Inr x))) ?ok" for x
  proof (rule reaches_mbind)
    show "reaches E (live V q s) (\<lambda>w. live V q s w \<and> runner_receipt_ok x) (ask meCall) (\<lambda>_ w. live V q s w \<and> runner_receipt_ok x)"
      unfolding reaches_def
      by (rule hoare_ask) (use frames(3) in \<open>auto simp: promotion_frame_def manager_frame_def untimed_def\<close>)
  qed (rule reaches_ret, simp)
  show "reaches E (held V) (live V q s)
      (mcatch (mbind (ask keRun) (\<lambda>receipt. mbind (ask meCall) (\<lambda>_. ret (Inr receipt)))) (\<lambda>e. ret (Inl e))) ?ok"
    by (rule reaches_mcatch[OF reaches_mbind[OF ask retain] _ live_held]) (simp_all add: reaches_ret)
  fix r
  let ?t = "case r of Inl e \<Rightarrow> replaceCandidate s i SlotFailed None (Some (error_text e))
    | Inr receipt \<Rightarrow> replaceCandidate s i SlotCompleted (Some receipt) None"
  show "reaches E (held V) (?ok r) (mbind (write_state ?t) (\<lambda>_. ret ?t)) (\<lambda>t. live V q t)"
  proof (rule reaches_fact[where F = "\<forall>x. r = Inr x \<longrightarrow> runner_receipt_ok x"], simp)
    assume F: "\<forall>x. r = Inr x \<longrightarrow> runner_receipt_ok x"
    have "reaches E (held V) (live V q s) (write_state ?t) (\<lambda>_. live V q ?t)"
      by (rule reach_live_write) (use F in \<open>auto intro!: replaceCandidate_succeeds split: sum.split\<close>)
    then have "reaches E (held V) (?ok r) (write_state ?t) (\<lambda>_. live V q ?t)" by (rule reaches_weaken) simp_all
    then show "reaches E (held V) (?ok r) (mbind (write_state ?t) (\<lambda>_. ret ?t)) (\<lambda>t. live V q t)"
      by (rule reaches_mbind) (rule reaches_ret)
  qed
qed

lemma started_event:
  assumes "live V q s w" and "\<not> is_pending i s" and "times_started q i w = 0"
  shows "live V q s (happened (RunnerStarted q i) w)"
  using assms runs_once_started[of w s i] by (auto simp: live_def holding_def held_def event stored_def)

lemma reach_start:
  assumes "\<And>i. \<not> is_pending i s" and "distinct xs"
  shows "reaches E (held V) (\<lambda>w. live V q s w \<and> (\<forall>i \<in> set xs. times_started q i w = 0))
    (each (\<lambda>i. perform node_error (happened (RunnerStarted q i))) xs) (\<lambda>_. live V q s)"
proof -
  let ?I = "\<lambda>ys (_ :: unit) w. live V q s w \<and> distinct ys \<and> (\<forall>i \<in> set ys. times_started q i w = 0)"
  have start: "reaches E (held V) (?I (x # ys) b) (perform node_error (happened (RunnerStarted q x))) (?I ys)" for x ys and b :: unit
  proof (rule reaches_perform)
    fix w assume I: "?I (x # ys) b w"
    then have 1: "live V q s (elapse w)" "times_started q x (elapse w) = 0"
      using frames(3) by (auto simp: promotion_frame_def manager_frame_def untimed_def times_started_def)
    then have 2: "live V q s (happened (RunnerStarted q x) (elapse w))" by (intro started_event assms(1))
    with 1 show "held V (elapse w) \<and> held V (happened (RunnerStarted q x) (elapse w))" by (simp add: live_held)
    from 2 I show "?I ys () (happened (RunnerStarted q x) (elapse w))" by (auto simp: times_started_def)
  qed
  have "reaches E (held V) (?I xs ()) (mfold (\<lambda>i _. perform node_error (happened (RunnerStarted q i))) xs ()) (?I [])"
    by (rule reaches_mfold) (rule start)
  then show ?thesis unfolding each_def by (rule reaches_weaken) (use assms(2) in simp_all)
qed

lemma mark_running_succeeds: "state_ok s \<Longrightarrow> coTerminal s = None \<Longrightarrow> succeeds s (mark_running s)"
  by (simp add: succeeds_def mark_running_facts)

lemma reach_mark:
  "reaches E (held V) (live V q s) (write_state (mark_running s))
    (\<lambda>_ w. live V q (mark_running s) w \<and> (\<forall>i \<in> set (runnable s). times_started q i w = 0))"
  unfolding write_state_def
proof (rule reaches_perform)
  fix w assume "live V q s w"
  then have 1: "live V q s (elapse w)" using frames(3) by (simp add: promotion_frame_def manager_frame_def untimed_def)
  then have s: "state_ok s" "coTerminal s = None" "stored s (elapse w)" "runs_once (elapse w)" "coRequestId s = q"
    by (auto simp: live_def holding_def held_def stored_def)
  have "holding V q (mark_running s) (store_state (mark_running s) (elapse w))"
    by (rule write_succeeds[OF live_holding[OF 1] mark_running_succeeds[OF s(1,2)]])
  then have 2: "live V q (mark_running s) (store_state (mark_running s) (elapse w))"
    using s by (simp add: live_def mark_running_facts)
  moreover have "\<forall>i \<in> set (runnable s). times_started q i (store_state (mark_running s) (elapse w)) = 0"
    using not_started[OF s(4,3)] s(5) by (simp add: runnable_pending times_started_def)
  ultimately show "live V q (mark_running s) (store_state (mark_running s) (elapse w)) \<and>
      (\<forall>i \<in> set (runnable s). times_started q i (store_state (mark_running s) (elapse w)) = 0)" ..
  from 1 2 show "held V (elapse w) \<and> held V (store_state (mark_running s) (elapse w))" by (simp add: live_held)
qed

lemma reach_pair:
  assumes "runner_ok E"
  shows "reaches E (held V) (live V q s) (runCandidatePair B s) (\<lambda>t. live V q t)"
proof (rule reaches_fact[where F = "coRequestId s = q \<and> state_ok s"])
  show "live V q s w \<Longrightarrow> coRequestId s = q \<and> state_ok s" for w by (simp add: live_def holding_def stored_def)
  assume F: "coRequestId s = q \<and> state_ok s"
  let ?running = "mark_running s"
  have order: "reaches E (held V) (live V q ?running) (finish_order xs) (\<lambda>_. live V q ?running)" for xs
    unfolding finish_order_def by (intro reach_frame keeps_mbind live_basic keeps_ret)
  have folded: "reaches E (held V) (live V q ?running) (mfold run_one xs ?running) (\<lambda>t. live V q t)" for xs
    by (rule reaches_mfold[where I = "\<lambda>_ t. live V q t"], rule reach_run_one[OF assms])
  have last: "reaches E (held V) (live V q t) (mbind (mwhen b (stage d)) (\<lambda>_. ret t)) (\<lambda>t. live V q t)" for t b d
    by (intro reaches_mbind[OF reach_frame] keeps_mwhen live_basic reaches_ret)
  have "\<not> is_pending i ?running" for i using F by (simp add: mark_running_facts)
  note start = reach_start[OF this runnable_pending(2)]
  have body: "reaches E (held V) (live V q s)
     (if runnable s = [] then ret s
      else let running = mark_running s in
        mbind (write_state running) (\<lambda>_.
        mbind (each (\<lambda>i. perform node_error (happened (RunnerStarted (coRequestId s) i))) (runnable s)) (\<lambda>_.
        mbind (finish_order (runnable s)) (\<lambda>order.
        mbind (mfold run_one order running) (\<lambda>t.
        mbind (mwhen (list_all (\<lambda>i. sloStatus (pick i (coCandidates t)) = SlotCompleted) CANDIDATES) (stage StageCandidatesCompleted)) (\<lambda>_.
        ret t)))))) (\<lambda>t. live V q t)"
    unfolding Let_def conjunct1[OF F]
    by (cases "runnable s = []")
      (simp_all add: reaches_ret, intro reaches_mbind[OF reach_mark] reaches_mbind[OF start] reaches_mbind[OF order] reaches_mbind[OF folded] last)
  show ?thesis
    unfolding runCandidatePair_def
    by (rule reaches_mbind[OF reach_frame[OF keeps_reads(5)[OF promotion_frame_manager[OF frames(3)]]]], split option.split)
      (intro conjI allI impI body reaches_throw[OF live_held])
qed

lemma reach_score:
  "reaches E (held V) (live V q s) (scoreCandidatesOnce s) (\<lambda>r w. case r of Inl _ \<Rightarrow> live V q s w | Inr t \<Rightarrow> live V q t w)"
proof (cases "coScore s")
  case None
  have stop: "reaches E (held V) (live V q s) (case e of CandidateTieCriticError c \<Rightarrow> ret (Inl ReasonTieCriticFailed) | _ \<Rightarrow> throw e)
      (\<lambda>_. live V q s)" for e
    by (cases e) (auto intro!: reaches_ret reaches_throw live_held)
  have asked: "reaches E (live V q s) (live V q s)
      (mbind (ask (\<lambda>E n. scoreCompletedCandidates s (keCritic E))) (\<lambda>k. ret (case k of None \<Rightarrow> Inl ReasonNoEligibleCandidate | Some x \<Rightarrow> Inr x)))
      (\<lambda>_. live V q s)"
    by (intro reaches_mbind[OF reaches_keeps] live_basic reaches_ret)
  have written: "reaches E (held V) (live V q s) (write_state (s\<lparr>coScore := Some k\<rparr>)) (\<lambda>_. live V q (s\<lparr>coScore := Some k\<rparr>))" for k
    by (rule reach_live_write) (simp add: succeeds_def state_ok_def is_pending_def)
  show ?thesis
    using None unfolding scoreCandidatesOnce_def persist_def Let_def
    by (auto intro!: reaches_mbind[OF reaches_mcatch[OF asked stop live_held]] reaches_ret
        reaches_mbind[OF reaches_mbind[OF written reach_frame]] live_basic split: sum.split)
qed (simp add: scoreCandidatesOnce_def reaches_ret)

lemma settled_verdict:
  "holding V q t w \<Longrightarrow> coTerminal t \<noteq> None \<Longrightarrow> coordinatorOutcome t = Inr out \<Longrightarrow> held V w \<and> verdict q out w"
  by (auto simp: holding_def verdict_def)

lemma reach_outcome:
  assumes "coTerminal s \<noteq> None" and "\<And>w. P w \<Longrightarrow> \<exists>t. holding V q t w \<and> coTerminal t \<noteq> None \<and> coordinatorOutcome t = coordinatorOutcome s"
  shows "reaches E (held V) P (lift (coordinatorOutcome s)) (\<lambda>out w. held V w \<and> verdict q out w)"
proof (rule reaches_lift)
  show "P w \<Longrightarrow> held V w" for w using assms(2) by (auto simp: holding_def)
  show "P w \<Longrightarrow> coordinatorOutcome s = Inr out \<Longrightarrow> held V w \<and> verdict q out w" for w out
    using assms(2) settled_verdict by metis
qed

lemma holding_frame:
  assumes "keeps E (holding V q s) m"
  shows "reaches E (held V) (holding V q s) m (\<lambda>_. holding V q s)"
  by (rule reaches_keeps[OF assms]) (simp add: holding_def)

lemma keeps_mark_candidates: "keeps E (holding V q s) (mark_candidates B s t)"
  unfolding mark_candidates_def
  by (cases t) (auto intro!: keeps_each keeps_updates[OF promotion_frame_manager[OF frames(2)]])

lemma keeps_release: "keeps E (holding V q s) (release_owners os)"
proof -
  have "keeps E (holding V q s) (perform node_error (happened (ThreadDeleted d)))" for d
    by (rule keeps_perform) (use frames(2) in \<open>auto simp: promotion_frame_def manager_frame_def holding_event\<close>)
  then show ?thesis
    unfolding release_owners_def by (auto intro!: keeps_each keeps_basic[OF promotion_frame_manager[OF frames(2)]])
qed

lemma reach_clean:
  assumes "coTerminal s \<noteq> None"
  shows "reaches E (held V) (holding V q s) (clean_terminal B M s terminal) (\<lambda>out w. held V w \<and> verdict q out w)"
proof -
  note manager = promotion_frame_manager[OF frames(2)]
  note steps = keeps_basic[OF manager] keeps_reads[OF manager] keeps_cleanupExpired[OF manager] keeps_mark_candidates keeps_release
  let ?flags = "\<lambda>c. s\<lparr>coCleanupAttempted := True, coCleanupCompleted := c\<rparr>"
  let ?settled = "\<lambda>w. \<exists>t. holding V q t w \<and> coTerminal t \<noteq> None \<and> coordinatorOutcome t = coordinatorOutcome s"
  have same: "coordinatorOutcome (?flags c) = coordinatorOutcome s" for c by (cases s) (simp add: coordinatorOutcome_def Let_def cong: option.case_cong coordinatorTerminal.case_cong)
  have flags: "reaches E (held V) (holding V q s) (write_state (?flags c)) (\<lambda>_. holding V q (?flags c))" for c
    by (rule reach_write) (use assms same in \<open>auto simp: succeeds_def state_ok_def is_pending_def\<close>)
  have written: "reaches E (held V) (holding V q s) (mwhen b (write_state (?flags c))) (\<lambda>_. ?settled)" for b c
    by (rule reaches_mwhen, rule reaches_weaken[OF flags[of c]]) (use assms same[of c] in \<open>auto intro: exI[of _ s] exI[of _ "?flags c"]\<close>)
  have staged: "reaches E (held V) ?settled (mwhen b (stage d)) (\<lambda>_. ?settled)" for b d
  proof (rule reaches_keeps)
    have "untimed ?settled" by (rule untimedI) (blast dest: holding_elapse)
    then show "keeps E ?settled (mwhen b (stage d))" unfolding stage_def by (intro keeps_mwhen keeps_ask)
  qed (auto simp: holding_def)
  have out: "reaches E (held V) ?settled (lift (coordinatorOutcome s)) (\<lambda>out w. held V w \<and> verdict q out w)"
    by (rule reach_outcome[OF assms])
  show ?thesis
    unfolding clean_terminal_def get_state_pair_def Let_def
    by (intro reaches_mbind[OF holding_frame] reaches_mbind[OF written] reaches_mbind[OF staged] out steps keeps_case_option keeps_mbind keeps_ret)
qed

lemma reach_finalize:
  assumes "coTerminal s \<noteq> None"
  shows "reaches E (held V) (holding V q s) (finalizeTerminal B M s) (\<lambda>out w. held V w \<and> verdict q out w)"
  using assms unfolding finalizeTerminal_def
  by (auto intro!: reach_clean reach_outcome exI[of _ s])

lemma reach_terminalize:
  "reaches E (held V) (live V q s) (terminalize B M s terminal) (\<lambda>out w. held V w \<and> verdict q out w)"
proof (rule reaches_fact[where F = "coTerminal s = None"])
  show "live V q s w \<Longrightarrow> coTerminal s = None" for w by (simp add: live_def)
  let ?t = "s\<lparr>coTerminal := Some terminal\<rparr>"
  assume none: "coTerminal s = None"
  have written: "reaches E (held V) (live V q s) (write_state ?t) (\<lambda>_. holding V q ?t)"
    by (rule reach_write[OF live_holding]) (use none in \<open>auto simp: succeeds_def state_ok_def is_pending_def\<close>)
  have staged: "reaches E (held V) (holding V q ?t) (stage d) (\<lambda>_. holding V q ?t)" for d
    unfolding stage_def by (rule holding_frame[OF keeps_basic(2)[OF promotion_frame_manager[OF frames(2)]]])
  show "reaches E (held V) (live V q s) (terminalize B M s terminal) (\<lambda>out w. held V w \<and> verdict q out w)"
    unfolding terminalize_def persist_def Let_def
    by (intro reaches_mbind[OF reaches_mbind[OF written staged]] reach_finalize) simp
qed

lemma keeps_settle: "keeps E (live V q s) (settle_promotion B M s k existing)"
proof -
  note steps = keeps_promotion[OF frames(3)] keeps_getRecord[OF frames(3)]
  have "keeps E (live V q s) (attempt_promotion B M s score recorded)" for score recorded
    unfolding attempt_promotion_def by (auto intro!: steps split: promotionState.split error.split)
  then show ?thesis
    unfolding settle_promotion_def Let_def by (auto split: option.split prod.split promotionState.split)
qed

lemma reach_promote:
  "reaches E (held V) (live V q s) (coordinator_promote B M s) (\<lambda>out w. held V w \<and> verdict q out w)"
  unfolding coordinator_promote_def
  by (cases "coScore s")
    (simp_all add: reaches_throw live_held, intro reaches_mbind[OF reach_frame] reach_terminalize keeps_settle
      keeps_getRecord[OF frames(3)] keeps_updates[OF promotion_frame_manager[OF frames(3)]])

lemma reach_advance:
  assumes "runner_ok E"
  shows "reaches E (held V) (live V q s) (advance_request B M s) (\<lambda>out w. held V w \<and> verdict q out w)"
  unfolding advance_request_def
  by (intro reaches_mbind[OF reach_create] reaches_mbind[OF reach_clones] reaches_mbind[OF reach_pair[OF assms]]
      reaches_mbind[OF reach_score])
    (auto intro!: reach_terminalize reaches_mbind[OF reach_pair[OF assms]] reaches_mbind[OF reach_score] reach_promote split: sum.split)

lemma reach_read:
  assumes "reads_states B"
  shows "reaches E (held V) (held V) (read_state B q)
    (\<lambda>r w. case r of None \<Rightarrow> held V w \<and> map_of (kwStates w) q = None | Some s \<Rightarrow> holding V q s w)"
  unfolding read_state_def
proof (rule reaches_mbind[where M = "\<lambda>stored_text w. held V w \<and> map_of (kwStates w) q = stored_text"])
  show "reaches E (held V) (held V) (observe (\<lambda>w. map_of (kwStates w) q)) (\<lambda>stored_text w. held V w \<and> map_of (kwStates w) q = stored_text)"
    unfolding reaches_def by (rule hoare_observe) (simp_all add: held_elapse)
  fix stored_text
  have "holding V q s w" if facts: "held V w" "map_of (kwStates w) q = Some t" "parseCoordinatorState B t = Inr s" for w t s
  proof -
    obtain u where u: "stored u w" "coRequestId u = q" using facts(1,2) unfolding held_def runs_once_def states_ok_def by blast
    then have "t = coordinator_text u" "state_ok u" using facts(2) by (simp_all add: stored_def)
    then have "s = u" using parse_coordinator_text[OF assms] facts(3) by blast
    with u facts(1) show ?thesis by (simp add: holding_def)
  qed
  then show "reaches E (held V) (\<lambda>w. held V w \<and> map_of (kwStates w) q = stored_text)
      (case stored_text of None \<Rightarrow> ret None | Some t \<Rightarrow> mbind (lift (parseCoordinatorState B t)) (\<lambda>s. ret (Some s)))
      (\<lambda>r w. case r of None \<Rightarrow> held V w \<and> map_of (kwStates w) q = None | Some s \<Rightarrow> holding V q s w)"
    by (cases stored_text) (auto intro!: reaches_ret reaches_mbind[where M = "\<lambda>s. holding V q s"] reaches_lift)
qed

lemma reach_initialize:
  assumes "input_ok i" and "inRequestId i \<noteq> []"
  shows "reaches E (held V) (\<lambda>w. held V w \<and> map_of (kwStates w) (inRequestId i) = None) (initializeCoordinatorState B i) (\<lambda>s. holding V (inRequestId i) s)"
  unfolding initializeCoordinatorState_def
proof (rule reaches_mbind)
  let ?P = "\<lambda>w. held V w \<and> map_of (kwStates w) (inRequestId i) = None"
  let ?s = "initial_coordinator B i"
  have s: "state_ok ?s" "coRequestId ?s = inRequestId i"
    using assms by (simp_all add: initial_coordinator_def state_ok_def input_ok_def pending_slot_def slot_ok_def)
  show "reaches E (held V) ?P (ask keSnapshot) (\<lambda>_. ?P)"
    by (rule reaches_keeps, rule keeps_ask, rule untimedI) (simp_all add: held_elapse)
  have "holding V (inRequestId i) ?s (store_state ?s (elapse w)) \<and> held V (elapse w)" if "?P w" for w
  proof -
    have w: "held V (elapse w)" "map_of (kwStates (elapse w)) (coRequestId ?s) = None" using that s(2) by (simp_all add: held_elapse)
    then have "runs_once (store_state ?s (elapse w))" "V (store_state ?s (elapse w))"
      using fresh s runs_once_store[of "elapse w" ?s] never_started[of "elapse w"] by (auto simp: held_def)
    with w s show ?thesis by (simp add: holding_def held_def stored_store)
  qed
  then have written: "reaches E (held V) ?P (write_state ?s) (\<lambda>_. holding V (inRequestId i) ?s)"
    unfolding write_state_def by (intro reaches_perform) (auto simp: holding_def)
  show "reaches E (held V) ?P (if fst snapshot \<noteq> inSourceSnapshotId i then throw coordinator_error
      else mbind (write_state ?s) (\<lambda>_. ret ?s)) (\<lambda>s. holding V (inRequestId i) s)" for snapshot :: "string \<times> string option \<times> bool"
    by (auto intro!: reaches_throw reaches_mbind[OF written] reaches_ret)
qed

lemma reach_runLocked:
  assumes "reads_states B" and "runner_ok E" and "input_ok i" and "inRequestId i \<noteq> []"
  shows "reaches E (held V) (held V) (runLocked B M i) (\<lambda>out w. held V w \<and> verdict (inRequestId i) out w)"
proof -
  let ?q = "inRequestId i"
  have found: "reaches E (held V) (case r of None \<Rightarrow> \<lambda>w. held V w \<and> map_of (kwStates w) ?q = None | Some s \<Rightarrow> holding V ?q s)
      (case r of None \<Rightarrow> initializeCoordinatorState B i | Some s \<Rightarrow> ret s) (\<lambda>s. holding V ?q s)" for r
    by (cases r) (simp_all add: reach_initialize[OF assms(3,4)] reaches_ret)
  have same: "reaches E (held V) (holding V ?q s) (lift (assertSameRequest s i)) (\<lambda>_. holding V ?q s)" for s
    by (rule reaches_lift) (simp_all add: holding_def)
  have going: "reaches E (held V) (holding V ?q s) (advance_request B M s) (\<lambda>out w. held V w \<and> verdict ?q out w)" if "coTerminal s = None" for s
    by (rule reaches_weaken[OF reach_advance[OF assms(2)]]) (simp_all add: live_def that)
  have read: "reaches E (held V) (held V) (read_state B ?q)
      (\<lambda>r. case r of None \<Rightarrow> \<lambda>w. held V w \<and> map_of (kwStates w) ?q = None | Some s \<Rightarrow> holding V ?q s)"
    by (rule reaches_weaken[OF reach_read[OF assms(1)]]) (auto split: option.splits)
  show ?thesis
    unfolding runLocked_def
    by (intro reaches_mbind[OF read] reaches_mbind[OF found] reaches_mbind[OF same]) (auto intro: reach_finalize going)
qed

lemma reach_run:
  assumes "reads_states B" and "runner_ok E" and "input_ok i"
  shows "reaches E (held V) (held V) (run B M i) (\<lambda>out w. held V w \<and> verdict (inRequestId i) out w)"
proof -
  have valid: "reaches E (held V) (held V) (validateLexicalId (inRequestId i)) (\<lambda>_ w. held V w \<and> inRequestId i \<noteq> [])"
    unfolding validateLexicalId_def reaches_def
    by (rule hoare_require) (auto simp: LEXICAL_ID_def lexical_def)
  have body: "reaches E (held V) (\<lambda>w. held V w \<and> inRequestId i \<noteq> []) (runLocked B M i) (\<lambda>out w. held V w \<and> verdict (inRequestId i) out w)"
    by (rule reaches_fact[where F = "inRequestId i \<noteq> []"], simp)
      (rule reaches_weaken[OF reach_runLocked[OF assms]]; simp)
  show ?thesis
    unfolding run_def
    by (rule reaches_mbind[OF valid], rule reaches_locked[OF body])
      (auto simp: held_elapse durable_cong(2)[of "elapse w" w for w])
qed

lemma run_holds:
  assumes "reads_states B" and "runner_ok E" and "input_ok i" and "held V w"
  shows "held V (snd (run B M i E w))"
  using hoareD[OF reach_run[OF assms(1-3), where M = M, unfolded reaches_def], of w] assms(4)
  by (auto simp: post_def split: outcome.splits)

end
section \<open>Every candidate runs once\<close>

lemma verdict_frame: "promotion_frame (verdict q out)"
  by (simp add: promotion_frame_def manager_frame_def untimed_def verdict_def stored_def)

lemma verdict_other: "verdict q out w \<Longrightarrow> coRequestId t \<noteq> q \<Longrightarrow> verdict q out (store_state t w)"
  unfolding verdict_def using stored_other by metis

lemma verdict_succeeds:
  assumes "verdict q out w" and "stored s w" and "succeeds s t"
  shows "verdict q out (store_state t w)"
proof (cases "coRequestId t = q")
  case True
  with assms have "coTerminal s \<noteq> None \<and> coordinatorOutcome s = Inr out"
    unfolding verdict_def succeeds_def by (metis stored_unique)
  with True assms(3) show ?thesis by (auto simp: succeeds_def verdict_def stored_store intro!: exI[of _ t])
qed (rule verdict_other[OF assms(1)])

lemma verdict_unique: "verdict q out w \<Longrightarrow> verdict q out' w \<Longrightarrow> out = out'"
  unfolding verdict_def by (metis stored_unique sum.inject(2))

interpretation started: coordinator_invariant "\<lambda>_ :: 'w coordinatorWorld_scheme. True"
  by unfold_locales (simp_all add: promotion_frame_const)

interpretation final: coordinator_invariant "verdict q out :: 'w coordinatorWorld_scheme \<Rightarrow> bool" for q out
proof unfold_locales
  show "verdict q out (happened e w)" if "verdict q out w" for e and w :: "'w coordinatorWorld_scheme"
    using that by (simp add: verdict_def stored_def)
  show "verdict q out (store_state s w)" if "verdict q out w" "map_of (kwStates w) (coRequestId s) = None" for s and w :: "'w coordinatorWorld_scheme"
    using that by (intro verdict_other) (auto simp: verdict_def stored_def)
qed (auto intro: verdict_frame verdict_succeeds)

text \<open>A history: runs one after the other, each with its own fortune, over the same files.\<close>

fun after_runs :: "builtins \<Rightarrow> candidateManager \<Rightarrow> ('e coordinatorEnv_scheme \<times> coordinateInput) list \<Rightarrow> 'w coordinatorWorld_scheme \<Rightarrow> 'w coordinatorWorld_scheme" where
  "after_runs B M [] w = w"
| "after_runs B M ((E, i) # hs) w = after_runs B M hs (snd (run B M i E w))"

definition history_ok :: "('e coordinatorEnv_scheme \<times> coordinateInput) list \<Rightarrow> bool" where
  "history_ok hs \<longleftrightarrow> (\<forall>(E, i) \<in> set hs. runner_ok E \<and> input_ok i)"

lemma history_started: "reads_states B \<Longrightarrow> history_ok hs \<Longrightarrow> runs_once w \<Longrightarrow> runs_once (after_runs B M hs w)"
proof (induction hs arbitrary: w)
  case (Cons h hs)
  obtain E i where h: "h = (E, i)" by force
  with Cons.prems have "held (\<lambda>_. True) (snd (run B M i E w))"
    by (intro started.run_holds) (auto simp: history_ok_def held_def)
  with Cons h show ?case by (auto simp: held_def history_ok_def)
qed simp

lemma history_verdict:
  "reads_states B \<Longrightarrow> history_ok hs \<Longrightarrow> runs_once w \<Longrightarrow> verdict q out w \<Longrightarrow> verdict q out (after_runs B M hs w)"
proof (induction hs arbitrary: w)
  case (Cons h hs)
  obtain E i where h: "h = (E, i)" by force
  with Cons.prems have "held (verdict q out) (snd (run B M i E w))"
    by (intro final.run_holds) (auto simp: history_ok_def held_def)
  with Cons h show ?case by (auto simp: held_def history_ok_def)
qed simp

lemma run_verdict:
  assumes "reads_states B" and "runner_ok E" and "input_ok i" and "runs_once w" and "run B M i E w = (Value out, w')"
  shows "runs_once w' \<and> verdict (inRequestId i) out w'"
  using hoareD[OF started.reach_run[OF assms(1-3), where M = M, unfolded reaches_def], of w] assms(4,5) by (simp add: held_def)

lemma untouched_runs_once: "kwStates w = [] \<Longrightarrow> kwEvents w = [] \<Longrightarrow> runs_once w"
  by (simp add: runs_once_def states_ok_def times_started_def)

text \<open>
  Claim C26 (runner_started_once). Whatever fails and wherever the process dies, over any history of runs, of any requests, each of the
  two candidates of a request is started at most once.
\<close>

theorem runner_started_once:
  assumes "reads_states B" and "history_ok hs" and "kwStates w = []" and "kwEvents w = []"
  shows "times_started q i (after_runs B M hs w) \<le> 1"
  using history_started[OF assms(1,2) untouched_runs_once[OF assms(3,4)], of M] by (simp add: runs_once_def)

text \<open>
  Claim C27 (verdict_is_final). A verdict is final: when a run returned an outcome for a request, every later run of that request that
  returns, whatever happened in between, returns the same outcome.
\<close>

theorem verdict_is_final:
  assumes "reads_states B" and "runs_once w" and "history_ok ((E, i) # hs @ [(E', j)])" and "inRequestId j = inRequestId i"
    and "run B M i E w = (Value out, w')" and "run B M j E' (after_runs B M hs w') = (Value out', w'')"
  shows "out' = out"
proof -
  have ok: "runner_ok E" "input_ok i" "runner_ok E'" "input_ok j" "history_ok hs" using assms(3) by (auto simp: history_ok_def)
  have first: "runs_once w'" "verdict (inRequestId i) out w'" using run_verdict[OF assms(1) ok(1,2) assms(2,5)] by simp_all
  then have between: "held (verdict (inRequestId i) out) (after_runs B M hs w')"
    unfolding held_def by (intro conjI history_started[OF assms(1) ok(5)] history_verdict[OF assms(1) ok(5)])
  then have "held (verdict (inRequestId i) out) w''"
    using final.run_holds[OF assms(1) ok(3,4) between, of M] assms(6) by simp
  moreover have "verdict (inRequestId j) out' w''"
    using run_verdict[OF assms(1) ok(3,4) _ assms(6)] between by (simp add: held_def)
  ultimately show ?thesis using assms(4) by (auto simp: held_def intro: verdict_unique)
qed
section \<open>Examples\<close>

definition sample_request :: coordinateInput where
  "sample_request = \<lparr>inRequestId = ''r'', inThreadId = ''t'', inCheckpointId = ''c'', inSourceSnapshotId = replicate 64 (CHR ''a''),
     inSourceDirectory = ''/s''\<rparr>"

definition sample_coordinator_env :: "(nat \<Rightarrow> fate) \<Rightarrow> coordinatorEnv" where
  "sample_coordinator_env f = \<lparr>enFate = f, meClock = \<lambda>_. NInt 9, meAnswer = \<lambda>_. Inr True, meText = \<lambda>_. Inr ''/s'',
     meCall = \<lambda>_. Inr (), meSource = \<lambda>_. Inr (replicate 64 (CHR ''a''), None, False),
     peCapture = \<lambda>_. Inr (replicate 64 (CHR ''a''), None), peHead = \<lambda>_. Inr None, peDelta = \<lambda>_. Inr ([''a''], 3),
     peTransaction = \<lambda>_. TransactionPublished (replicate 64 (CHR ''e'')),
     keSnapshot = \<lambda>_. Inr (replicate 64 (CHR ''a''), None, False), keRun = \<lambda>_. Inl (PlainError ''no''),
     keFirst = \<lambda>_. Candidate1, keCritic = None\<rparr>"

definition empty_coordinator_world :: coordinatorWorld where
  "empty_coordinator_world = \<lparr>tick = 0, mwManifests = [], mwPaths = [], mwEvents = [], pwRecords = [], pwPublications = [],
     kwStates = [], kwEvents = []\<rparr>"

text \<open>The process dies while the candidates run; the request is then run again.\<close>

definition sample_history :: "(coordinatorEnv \<times> coordinateInput) list" where
  "sample_history = [(sample_coordinator_env (\<lambda>n. if n = 30 then CrashesAfter else Happens), sample_request),
     (sample_coordinator_env (\<lambda>_. Happens), sample_request)]"

lemma sample_history_ok: "history_ok sample_history" "input_ok sample_request" "runner_ok (sample_coordinator_env f)"
  by (simp_all add: history_ok_def sample_history_def runner_ok_def sample_coordinator_env_def input_ok_def sample_request_def)

theorem runner_started_once_witness:
  "times_started ''r'' Candidate1 (after_runs reading_builtins sample_manager sample_history empty_coordinator_world) \<le> 1"
  by (rule runner_started_once[OF reads_states_reading sample_history_ok(1)]) (simp_all add: empty_coordinator_world_def)

definition failed_state :: coordinatorState where
  "failed_state = (initial_coordinator reading_builtins sample_request)\<lparr>coTerminal := Some (TerminalAttention ReasonCandidateFailed),
     coCleanupAttempted := True, coCleanupCompleted := True\<rparr>"

definition failed_world :: coordinatorWorld where
  "failed_world = empty_coordinator_world\<lparr>kwStates := [(''r'', coordinator_text failed_state)]\<rparr>"

lemma failed_state_facts:
  "state_ok failed_state" "utf8_bytes (coordinator_text failed_state) \<le> MAX_STATE_BYTES" "coRequestId failed_state = ''r''"
  "assertSameRequest failed_state sample_request = Inr ()" "coCleanupCompleted failed_state" "LEXICAL_ID ''r''"
  "coTerminal failed_state = Some (TerminalAttention ReasonCandidateFailed)"
  "coordinatorOutcome failed_state = Inr (CoordinatedAttention ''r'' ReasonCandidateFailed (None, None) None)"
  by code_simp+

lemma failed_world_runs_once: "runs_once failed_world"
  using failed_state_facts(1,3)
  by (auto simp: runs_once_def states_ok_def stored_def failed_world_def times_started_def empty_coordinator_world_def)

lemma failed_run:
  "run reading_builtins sample_manager sample_request (sample_coordinator_env (\<lambda>_. Happens)) (failed_world\<lparr>tick := n\<rparr>) =
    (Value (CoordinatedAttention ''r'' ReasonCandidateFailed (None, None) None), failed_world\<lparr>tick := n + 3\<rparr>)"
proof -
  have "inRequestId sample_request = ''r''" by (simp add: sample_request_def)
  then show ?thesis
    by (simp add: run_def runLocked_def read_state_def finalizeTerminal_def locked_def validateLexicalId_def mbind_def mfinally_def
        perform_def observe_def ret_def lift_def require_def elapse_def Let_def failed_state_facts failed_world_def
        parse_short_text[OF reads_states_reading failed_state_facts(1,2)] sample_coordinator_env_def empty_coordinator_world_def)
qed

theorem verdict_is_final_witness:
  "\<exists>out. fst (run reading_builtins sample_manager sample_request (sample_coordinator_env (\<lambda>_. Happens)) failed_world) = Value out \<and>
     fst (run reading_builtins sample_manager sample_request (sample_coordinator_env (\<lambda>_. Happens)) (failed_world\<lparr>tick := 3\<rparr>)) = Value out"
proof -
  let ?E = "sample_coordinator_env (\<lambda>_. Happens)"
  have ok: "history_ok ((?E, sample_request) # [] @ [(?E, sample_request)])"
    using sample_history_ok by (simp add: history_ok_def)
  obtain out' w'' where second: "run reading_builtins sample_manager sample_request ?E (failed_world\<lparr>tick := 3\<rparr>) = (Value out', w'')"
    using failed_run[of 3] by blast
  have first: "run reading_builtins sample_manager sample_request ?E failed_world =
      (Value (CoordinatedAttention ''r'' ReasonCandidateFailed (None, None) None), failed_world\<lparr>tick := 3\<rparr>)"
    using failed_run[of 0] by (simp add: failed_world_def empty_coordinator_world_def)
  have "out' = CoordinatedAttention ''r'' ReasonCandidateFailed (None, None) None"
    by (rule verdict_is_final[OF reads_states_reading failed_world_runs_once ok refl first]) (simp add: second)
  with first second show ?thesis by simp
qed

end
