(* ===== verification/SourceTree.thy ===== *)
theory SourceTree
  imports CandidateManager
begin

text \<open>
  The transaction on a source tree: \<open>src/src/repository/source-tree-transaction.ts\<close>. A publication
  stages the changed paths in a copy of the baseline, checks that nobody changed the source,
  replaces the paths one by one, compares the result with the staged tree and otherwise puts
  back those paths that hold what it published itself.

  A directory tree is a list of paths with their nodes, where a path is the list of the names
  along it (the source joins them by slashes and splits them again). The source tree is shared:
  before every access of this process others may have changed it in any way. The baseline, the
  staged tree and the worker's isolated tree are private. Every own write to the source is
  logged with the tree before and after it. A walk through a tree and a recursive copy are
  single effects; an access through a symbolic link in the middle of a path is an error here,
  where the operating system would follow the link.

  Main results: a publication without interference is atomic on the changed paths unless its
  roll-back fails, whichever program does the replacing, provided that program only ever puts a
  path into its old or its staged state (the contract \<open>publisher\<close>).
\<close>

section \<open>Directory trees\<close>

type_synonym path = "string list"

datatype node =
    Folder int
  | RegularFile int string
  | SymbolicLink string
  | SpecialFile int string

type_synonym tree = "(path \<times> node) list"

datatype lookup = NoEntry | NotFolder | Found node

definition is_folder :: "node option \<Rightarrow> bool" where
  "is_folder n = (case n of Some (Folder _) \<Rightarrow> True | _ \<Rightarrow> False)"

definition proper_prefixes :: "path \<Rightarrow> path list" where
  "proper_prefixes p = map (\<lambda>i. take i p) [1..<length p]"

definition parents_ok :: "tree \<Rightarrow> path \<Rightarrow> bool" where
  "parents_ok t p = list_all (\<lambda>q. is_folder (map_of t q)) (proper_prefixes p)"

definition lstat :: "tree \<Rightarrow> path \<Rightarrow> lookup" where
  "lstat t p =
     (case List.find (\<lambda>q. \<not> is_folder (map_of t q)) (proper_prefixes p) of
        Some q \<Rightarrow> if map_of t q = None then NoEntry else NotFolder
      | None \<Rightarrow> (case map_of t p of None \<Rightarrow> NoEntry | Some n \<Rightarrow> Found n))"

definition put_node :: "path \<Rightarrow> node \<Rightarrow> tree \<Rightarrow> tree" where
  "put_node p n t = (p, n) # filter (\<lambda>e. fst e \<noteq> p) t"

definition drop_node :: "path \<Rightarrow> tree \<Rightarrow> tree" where
  "drop_node p t = filter (\<lambda>e. fst e \<noteq> p) t"

definition below :: "path \<Rightarrow> path \<Rightarrow> bool" where
  "below p q = (take (length p) q = p)"

text \<open>
  The calls of the file system on a tree; \<open>None\<close> is an error. Removing a path by force ignores a
  missing entry but not a file in the place of a parent, and refuses a folder; a folder is
  removed only when it is empty, and the caller treats a missing or full one alike.
\<close>

definition rm_force :: "path \<Rightarrow> tree \<Rightarrow> tree option" where
  "rm_force p t =
     (case lstat t p of
        NoEntry \<Rightarrow> Some t
      | NotFolder \<Rightarrow> None
      | Found (Folder _) \<Rightarrow> None
      | Found _ \<Rightarrow> Some (drop_node p t))"

definition rm_recursive :: "path \<Rightarrow> tree \<Rightarrow> tree option" where
  "rm_recursive p t =
     (case lstat t p of
        NoEntry \<Rightarrow> Some t
      | NotFolder \<Rightarrow> None
      | Found _ \<Rightarrow> Some (filter (\<lambda>e. \<not> below p (fst e)) t))"

definition rmdir :: "path \<Rightarrow> tree \<Rightarrow> tree option" where
  "rmdir p t =
     (case lstat t p of
        NoEntry \<Rightarrow> Some t
      | NotFolder \<Rightarrow> None
      | Found (Folder _) \<Rightarrow>
          if list_ex (\<lambda>e. below p (fst e) \<and> fst e \<noteq> p) t then Some t else Some (drop_node p t)
      | Found _ \<Rightarrow> None)"

definition mkdir :: "int \<Rightarrow> path \<Rightarrow> tree \<Rightarrow> tree option" where
  "mkdir mode p t =
     (if p \<noteq> [] \<and> parents_ok t p \<and> map_of t p = None then Some (put_node p (Folder mode) t) else None)"

definition create_node :: "path \<Rightarrow> node \<Rightarrow> tree \<Rightarrow> tree option" where
  "create_node p n t =
     (if p \<noteq> [] \<and> parents_ok t p \<and> map_of t p = None then Some (put_node p n t) else None)"

definition chmod :: "int \<Rightarrow> path \<Rightarrow> tree \<Rightarrow> tree option" where
  "chmod mode p t =
     (case lstat t p of
        Found (RegularFile _ s) \<Rightarrow> Some (put_node p (RegularFile mode s) t)
      | _ \<Rightarrow> None)"

definition rename_over :: "path \<Rightarrow> path \<Rightarrow> tree \<Rightarrow> tree option" where
  "rename_over a b t =
     (case lstat t a of
        Found (Folder _) \<Rightarrow> None
      | Found n \<Rightarrow>
          if b \<noteq> [] \<and> parents_ok t b \<and> \<not> is_folder (map_of t b) then Some (put_node b n (drop_node a t)) else None
      | _ \<Rightarrow> None)"

text \<open>
  A recursive copy of one path of another tree, to a path whose old entry is gone: missing parents
  are created, special files are refused.
\<close>

definition is_special :: "node \<Rightarrow> bool" where
  "is_special n = (case n of SpecialFile _ _ \<Rightarrow> True | _ \<Rightarrow> False)"

definition missing_parents :: "path \<Rightarrow> tree \<Rightarrow> path list" where
  "missing_parents p t = filter (\<lambda>q. map_of t q = None) (proper_prefixes p)"

definition graft :: "int \<Rightarrow> path \<Rightarrow> tree \<Rightarrow> tree \<Rightarrow> tree option" where
  "graft mode p from t =
     (let sub = filter (\<lambda>e. below p (fst e)) from
      in if list_ex (\<lambda>q. map_of t q \<noteq> None \<and> \<not> is_folder (map_of t q)) (proper_prefixes p) \<or>
            list_ex (\<lambda>e. below p (fst e)) t \<or> list_ex (\<lambda>e. is_special (snd e)) sub then None
         else Some (sub @ map (\<lambda>q. (q, Folder mode)) (missing_parents p t) @ t))"

section \<open>Snapshots of a tree\<close>

datatype entryKind = DirectoryKind | FileKind | SymlinkKind | SpecialKind

record sourceEntry =
  enKind :: entryKind
  enDigest :: string
  enMode :: int

text \<open>The mode bits of a symbolic link, \<open>0o120777\<close>.\<close>

definition link_mode :: int where "link_mode = 41471"

definition node_mode :: "node \<Rightarrow> int" where
  "node_mode n = (case n of Folder m \<Rightarrow> m | RegularFile m _ \<Rightarrow> m | SymbolicLink _ \<Rightarrow> link_mode | SpecialFile m _ \<Rightarrow> m)"

definition sourceEntryOf :: "builtins \<Rightarrow> node \<Rightarrow> sourceEntry" where
  "sourceEntryOf B n =
     (case n of
        Folder m \<Rightarrow> \<lparr>enKind = DirectoryKind, enDigest = sha256_hex B ''directory'', enMode = m\<rparr>
      | RegularFile m s \<Rightarrow> \<lparr>enKind = FileKind, enDigest = sha256_hex B s, enMode = m\<rparr>
      | SymbolicLink s \<Rightarrow> \<lparr>enKind = SymlinkKind, enDigest = sha256_hex B s, enMode = link_mode\<rparr>
      | SpecialFile m _ \<Rightarrow> \<lparr>enKind = SpecialKind, enDigest = sha256_hex B ''special'', enMode = m\<rparr>)"

type_synonym snapshot = "(path \<times> sourceEntry) list"

definition captureTree :: "builtins \<Rightarrow> tree \<Rightarrow> snapshot" where
  "captureTree B t = map (\<lambda>(p, n). (p, sourceEntryOf B n)) t"

definition sameEntry :: "sourceEntry option \<Rightarrow> sourceEntry option \<Rightarrow> bool" where
  "sameEntry l r \<longleftrightarrow> map_option enKind l = map_option enKind r \<and> map_option enMode l = map_option enMode r \<and>
     map_option enDigest l = map_option enDigest r"

definition path_text :: "path \<Rightarrow> string" where "path_text p = join ''/'' p"

definition changedPaths :: "snapshot \<Rightarrow> snapshot \<Rightarrow> path list" where
  "changedPaths prior after =
     sort_key path_text
       (filter (\<lambda>p. \<not> sameEntry (map_of prior p) (map_of after p)) (dedup (map fst prior @ map fst after)))"

fun outermost :: "path list \<Rightarrow> path list \<Rightarrow> path list" where
  "outermost seen [] = []"
| "outermost seen (p # ps) =
     (if list_ex (\<lambda>q. below q p \<and> q \<noteq> p) seen then outermost (seen @ [p]) ps else p # outermost (seen @ [p]) ps)"

definition minimalPaths :: "path list \<Rightarrow> path list" where
  "minimalPaths ps = outermost [] (sort_key length (dedup ps))"

definition createdParents :: "path list \<Rightarrow> snapshot \<Rightarrow> path list" where
  "createdParents ps baseline =
     sort_key (\<lambda>p. - int (length p)) (dedup (filter (\<lambda>q. map_of baseline q = None) (concat (map proper_prefixes ps))))"

section \<open>The world of a publication\<close>

datatype place = Source | Baseline | Staged | Isolated

record sourceEnv = env +
  seOthers :: "nat \<Rightarrow> tree \<Rightarrow> tree"
  seUuid :: "nat \<Rightarrow> string"
  seFolderMode :: int

record sourceWorld = world +
  swTree :: "place \<Rightarrow> tree"
  swLog :: "(tree \<times> tree) list"

definition meddle :: "'e sourceEnv_scheme \<Rightarrow> 'w sourceWorld_scheme \<Rightarrow> 'w sourceWorld_scheme" where
  "meddle E w = w\<lparr>swTree := (swTree w)(Source := seOthers E (tick w) (swTree w Source))\<rparr>"

definition look :: "('w sourceWorld_scheme \<Rightarrow> 'a) \<Rightarrow> ('e sourceEnv_ext, 'w sourceWorld_ext, 'a) prog" where
  "look g E w = observe g E (meddle E w)"

definition set_tree :: "place \<Rightarrow> tree \<Rightarrow> 'w sourceWorld_scheme \<Rightarrow> 'w sourceWorld_scheme" where
  "set_tree r t w =
     w\<lparr>swTree := (swTree w)(r := t), swLog := (if r = Source then [(swTree w Source, t)] else []) @ swLog w\<rparr>"

definition fs_change :: "place \<Rightarrow> (tree \<Rightarrow> tree option) \<Rightarrow> ('e sourceEnv_ext, 'w sourceWorld_ext, unit) prog" where
  "fs_change r f E w =
     (let v = meddle E w
      in case f (swTree v r) of
           Some t \<Rightarrow> perform node_error (set_tree r t) E v
         | None \<Rightarrow> mbind (perform node_error id) (\<lambda>_. throw node_error) E v)"

definition stat :: "place \<Rightarrow> path \<Rightarrow> ('e sourceEnv_ext, 'w sourceWorld_ext, lookup) prog" where
  "stat r p = look (\<lambda>w. lstat (swTree w r) p)"

definition fresh_uuid :: "('e sourceEnv_ext, 'w, string) prog" where
  "fresh_uuid E w = (Value (seUuid E (tick w)), w)"

definition capture :: "builtins \<Rightarrow> place \<Rightarrow> ('e sourceEnv_ext, 'w sourceWorld_ext, snapshot) prog" where
  "capture B r = look (\<lambda>w. captureTree B (swTree w r))"

text \<open>A recursive copy of a whole tree to a new private place.\<close>

definition copy_tree :: "place \<Rightarrow> place \<Rightarrow> ('e sourceEnv_ext, 'w sourceWorld_ext, unit) prog" where
  "copy_tree from dest =
     mbind (look (\<lambda>w. swTree w from)) (\<lambda>t.
     if list_ex (\<lambda>e. is_special (snd e)) t then throw node_error
     else fs_change dest (\<lambda>_. Some t))"

definition remove_tree :: "place \<Rightarrow> ('e sourceEnv_ext, 'w sourceWorld_ext, unit) prog" where
  "remove_tree r = fs_change r (\<lambda>_. Some [])"

section \<open>The transaction\<close>

definition snapshot_error :: error where "snapshot_error = SourceTreeTransactionError TransactionSnapshot"
definition rollback_error :: error where "rollback_error = SourceTreeTransactionError TransactionRollback"

definition open_transaction :: "builtins \<Rightarrow> ('e sourceEnv_ext, 'w sourceWorld_ext, snapshot) prog" where
  "open_transaction B =
     mbind (perform node_error id) (\<lambda>_.
     mbind (capture B Source) (\<lambda>prior.
     mbind (perform node_error id) (\<lambda>_.
     mcatch
       (mbind (copy_tree Source Baseline) (\<lambda>_.
        mbind (capture B Source) (\<lambda>after.
        mbind (capture B Baseline) (\<lambda>baseline.
        if changedPaths prior after \<noteq> [] \<or> changedPaths after baseline \<noteq> [] then throw snapshot_error
        else ret baseline))))
       (\<lambda>e. mbind (remove_tree Baseline) (\<lambda>_. throw e)))))"

definition assertSourceUnchanged :: "builtins \<Rightarrow> snapshot \<Rightarrow> error \<Rightarrow> ('e sourceEnv_ext, 'w sourceWorld_ext, unit) prog" where
  "assertSourceUnchanged B baseline e =
     mbind (capture B Source) (\<lambda>current. if changedPaths baseline current = [] then ret () else throw e)"

definition optionalSourceEntry :: "builtins \<Rightarrow> path \<Rightarrow> ('e sourceEnv_ext, 'w sourceWorld_ext, sourceEntry option) prog" where
  "optionalSourceEntry B p =
     mbind (stat Source p) (\<lambda>found.
     case found of NoEntry \<Rightarrow> ret None | NotFolder \<Rightarrow> throw node_error | Found n \<Rightarrow> ret (Some (sourceEntryOf B n)))"

definition assertPathUnchanged :: "builtins \<Rightarrow> snapshot \<Rightarrow> path \<Rightarrow> error \<Rightarrow> ('e sourceEnv_ext, 'w sourceWorld_ext, unit) prog" where
  "assertPathUnchanged B baseline p e =
     mbind (optionalSourceEntry B p) (\<lambda>current. if sameEntry (map_of baseline p) current then ret () else throw e)"

definition cleanupCreatedParents :: "snapshot \<Rightarrow> path list \<Rightarrow> ('e sourceEnv_ext, 'w sourceWorld_ext, unit) prog" where
  "cleanupCreatedParents baseline paths = each (\<lambda>p. fs_change Source (rmdir p)) (createdParents paths baseline)"

definition copy_back :: "path \<Rightarrow> ('e sourceEnv_ext, 'w sourceWorld_ext, unit) prog" where
  "copy_back p E w =
     mbind (look (\<lambda>w. swTree w Baseline)) (\<lambda>from. fs_change Source (graft (seFolderMode E) p from)) E w"

definition restorePaths :: "builtins \<Rightarrow> snapshot \<Rightarrow> path list \<Rightarrow> ('e sourceEnv_ext, 'w sourceWorld_ext, unit) prog" where
  "restorePaths B baseline paths =
     (let restore = minimalPaths paths
      in mbind
           (mcatch
             (mbind (each (\<lambda>p. fs_change Source (rm_recursive p)) restore) (\<lambda>_.
              mbind (each (\<lambda>p. mwhen (map_of baseline p \<noteq> None) (copy_back p)) restore) (\<lambda>_.
              cleanupCreatedParents baseline restore)))
             (\<lambda>_. throw rollback_error)) (\<lambda>_.
         mbind (capture B Source) (\<lambda>current.
         if filter (\<lambda>p. \<not> sameEntry (map_of baseline p) (map_of current p)) restore = [] then ret ()
         else throw rollback_error)))"

definition rollbackPublished :: "builtins \<Rightarrow> snapshot \<Rightarrow> path list \<Rightarrow> snapshot \<Rightarrow> ('e sourceEnv_ext, 'w sourceWorld_ext, unit) prog" where
  "rollbackPublished B baseline paths candidate =
     mbind (capture B Source) (\<lambda>current.
     let owned = filter (\<lambda>p. \<not> sameEntry (map_of baseline p) (map_of candidate p) \<and>
                             sameEntry (map_of current p) (map_of candidate p)) paths
     in mbind (restorePaths B baseline owned) (\<lambda>_. cleanupCreatedParents baseline paths))"

definition publish_locked ::
    "builtins \<Rightarrow> snapshot \<Rightarrow> path list \<Rightarrow> ('e sourceEnv_ext, 'w sourceWorld_ext, unit) prog \<Rightarrow> snapshot
     \<Rightarrow> ('e sourceEnv_ext, 'w sourceWorld_ext, unit) prog" where
  "publish_locked B baseline paths publishCandidate candidate =
     mbind (assertSourceUnchanged B baseline snapshot_error) (\<lambda>_.
     mcatch
       (mbind publishCandidate (\<lambda>_.
        mbind (capture B Source) (\<lambda>current.
        if changedPaths candidate current \<noteq> [] then throw snapshot_error else ret ())))
       (\<lambda>e. mbind (mcatch (rollbackPublished B baseline paths candidate) (\<lambda>_. throw rollback_error)) (\<lambda>_. throw e)))"

definition publish_tree ::
    "builtins \<Rightarrow> snapshot \<Rightarrow> path list \<Rightarrow> ('e sourceEnv_ext, 'w sourceWorld_ext, unit) prog
     \<Rightarrow> ('e sourceEnv_ext, 'w sourceWorld_ext, unit) prog \<Rightarrow> ('e sourceEnv_ext, 'w sourceWorld_ext, unit) prog" where
  "publish_tree B baseline paths stage publishCandidate =
     mfinally
       (mbind (copy_tree Baseline Staged) (\<lambda>_.
        mbind stage (\<lambda>_.
        mbind (capture B Staged) (\<lambda>candidate.
        locked (publish_locked B baseline paths publishCandidate candidate)))))
       (remove_tree Staged)"

definition close_transaction :: "('e sourceEnv_ext, 'w sourceWorld_ext, unit) prog" where
  "close_transaction = remove_tree Baseline"


section \<open>Replacing one entry\<close>

text \<open>
  How both publishers replace an entry: a temporary file beside it gets the content, then its mode,
  and is renamed over the entry; whatever happens it is removed afterwards.
\<close>

definition temporary :: "path \<Rightarrow> string \<Rightarrow> string \<Rightarrow> path" where
  "temporary p suffix uuid = butlast p @ [last p @ suffix @ uuid]"

definition replace_entry ::
    "place \<Rightarrow> path \<Rightarrow> string \<Rightarrow> node \<Rightarrow> int option \<Rightarrow> ('e sourceEnv_ext, 'w sourceWorld_ext, unit) prog
     \<Rightarrow> ('e sourceEnv_ext, 'w sourceWorld_ext, unit) prog" where
  "replace_entry r p suffix n mode prior =
     mbind fresh_uuid (\<lambda>uuid.
     mfinally
       (mbind (fs_change r (create_node (temporary p suffix uuid) n)) (\<lambda>_.
        mbind (case mode of None \<Rightarrow> ret () | Some m \<Rightarrow> fs_change r (chmod m (temporary p suffix uuid))) (\<lambda>_.
        mbind prior (\<lambda>_.
        fs_change r (rename_over (temporary p suffix uuid) p)))))
       (fs_change r (rm_force (temporary p suffix uuid))))"

section \<open>Trees stay trees\<close>

text \<open>The parents of every entry are folders.\<close>

definition tree_ok :: "tree \<Rightarrow> bool" where
  "tree_ok t \<longleftrightarrow> (\<forall>p n. map_of t p = Some n \<longrightarrow> p \<noteq> [] \<and> parents_ok t p)"

lemma set_proper_prefixes: "q \<in> set (proper_prefixes p) \<longleftrightarrow> q \<noteq> [] \<and> q \<noteq> p \<and> below q p"
proof
  assume "q \<in> set (proper_prefixes p)"
  then obtain i where i: "1 \<le> i" "i < length p" "q = take i p" by (auto simp: proper_prefixes_def)
  have "length q \<noteq> length p" using i by simp
  then have "q \<noteq> p" by blast
  moreover have "q \<noteq> []" using i by auto
  ultimately show "q \<noteq> [] \<and> q \<noteq> p \<and> below q p" using i by (simp add: below_def)
next
  assume a: "q \<noteq> [] \<and> q \<noteq> p \<and> below q p"
  then have q: "take (length q) p = q" by (simp add: below_def)
  have "length q < length p"
  proof (rule ccontr)
    assume "\<not> length q < length p"
    with q a show False by simp
  qed
  moreover have "1 \<le> length q" using a by (cases q) auto
  ultimately show "q \<in> set (proper_prefixes p)"
    unfolding proper_prefixes_def using q by (auto intro!: rev_image_eqI[of "length q"])
qed

lemma below_refl [simp]: "below p p"
  by (simp add: below_def)

lemma below_trans: "below p q \<Longrightarrow> below q s \<Longrightarrow> below p s"
  unfolding below_def by (metis min_absorb1 nat_le_linear take_all take_take)

lemma below_antisym: "below p q \<Longrightarrow> below q p \<Longrightarrow> p = q"
  unfolding below_def by (metis nat_le_linear take_all)

lemma below_linear: "below p s \<Longrightarrow> below q s \<Longrightarrow> below p q \<or> below q p"
  unfolding below_def by (metis min.commute min_def take_take)

lemma parents_okD: "parents_ok t p \<Longrightarrow> q \<in> set (proper_prefixes p) \<Longrightarrow> is_folder (map_of t q)"
  by (simp add: parents_ok_def list_all_iff)

lemma parents_okI: "(\<And>q. q \<in> set (proper_prefixes p) \<Longrightarrow> is_folder (map_of t q)) \<Longrightarrow> parents_ok t p"
  by (simp add: parents_ok_def list_all_iff)

lemma tree_okD: "tree_ok t \<Longrightarrow> map_of t p = Some n \<Longrightarrow> p \<noteq> [] \<and> parents_ok t p"
  by (simp add: tree_ok_def)

lemma is_folder_simps [simp]:
  "\<not> is_folder None" "is_folder (Some (Folder m))" "\<not> is_folder (Some (RegularFile m s))"
  "\<not> is_folder (Some (SymbolicLink s))" "\<not> is_folder (Some (SpecialFile m s))"
  by (simp_all add: is_folder_def)

lemma map_of_put [simp]: "map_of (put_node p n t) = (map_of t)(p \<mapsto> n)"
proof
  fix q show "map_of (put_node p n t) q = ((map_of t)(p \<mapsto> n)) q"
    unfolding put_node_def by (induction t) auto
qed

lemma map_of_drop [simp]: "map_of (drop_node p t) = (map_of t)(p := None)"
proof
  fix q show "map_of (drop_node p t) q = ((map_of t)(p := None)) q"
    unfolding drop_node_def by (induction t) auto
qed

lemma map_of_filtered: "map_of (filter (\<lambda>e. P (fst e)) t) q = (if P q then map_of t q else None)"
  by (induction t) auto

lemma map_of_filter_out: "map_of (filter (\<lambda>e. \<not> P (fst e)) t) q = (if P q then None else map_of t q)"
  by (induction t) auto

lemma lstat_Found: "lstat t p = Found n \<Longrightarrow> map_of t p = Some n \<and> parents_ok t p"
  by (auto simp: lstat_def parents_ok_def list_all_iff find_None_iff split: option.splits if_splits)

lemma lstat_iff: "parents_ok t p \<Longrightarrow> lstat t p = (case map_of t p of None \<Rightarrow> NoEntry | Some n \<Rightarrow> Found n)"
proof -
  assume "parents_ok t p"
  then have "List.find (\<lambda>q. \<not> is_folder (map_of t q)) (proper_prefixes p) = None"
    by (simp add: find_None_iff parents_ok_def list_all_iff)
  then show ?thesis by (simp add: lstat_def)
qed

lemma lstat_missing:
  assumes "tree_ok t" and "lstat t p = NoEntry \<or> lstat t p = NotFolder"
  shows "map_of t p = None"
proof (rule ccontr)
  assume "map_of t p \<noteq> None"
  then obtain n where n: "map_of t p = Some n" by blast
  with assms(1) have "parents_ok t p" by (blast dest: tree_okD)
  from lstat_iff[OF this] n assms(2) show False by simp
qed

lemma lstat_entry: "tree_ok t \<Longrightarrow> map_of t p = Some n \<Longrightarrow> lstat t p = Found n"
  using lstat_iff[of t p] by (auto dest: tree_okD)

text \<open>What keeps a tree a tree: its parents stay, and what is added has its parents.\<close>

lemma tree_ok_change:
  assumes "tree_ok t" and "\<And>q. is_folder (map_of t q) \<Longrightarrow> (\<exists>p. p \<noteq> q \<and> below q p \<and> map_of t' p \<noteq> None) \<Longrightarrow> is_folder (map_of t' q)"
    and "\<And>p. map_of t p = None \<Longrightarrow> map_of t' p \<noteq> None \<Longrightarrow> p \<noteq> [] \<and> parents_ok t' p"
  shows "tree_ok t'"
  unfolding tree_ok_def
proof (intro allI impI)
  fix p n assume p: "map_of t' p = Some n"
  show "p \<noteq> [] \<and> parents_ok t' p"
  proof (cases "map_of t p")
    case None
    with assms(3) p show ?thesis by simp
  next
    case (Some m)
    then have old: "p \<noteq> []" "parents_ok t p" using assms(1) by (auto dest: tree_okD)
    have "is_folder (map_of t' q)" if "q \<in> set (proper_prefixes p)" for q
    proof (rule assms(2))
      show "is_folder (map_of t q)" by (rule parents_okD[OF old(2) that])
      show "\<exists>p. p \<noteq> q \<and> below q p \<and> map_of t' p \<noteq> None"
        using that p by (intro exI[of _ p]) (auto simp: set_proper_prefixes)
    qed
    with old show ?thesis by (auto intro: parents_okI)
  qed
qed

lemma parents_ok_mono: "parents_ok t p \<Longrightarrow> (\<And>q. q \<in> set (proper_prefixes p) \<Longrightarrow> is_folder (map_of t q) \<Longrightarrow> is_folder (map_of t' q)) \<Longrightarrow> parents_ok t' p"
  by (simp add: parents_ok_def list_all_iff)

text \<open>The calls: what they do to the entries, and that the result is a tree.\<close>

lemma tree_ok_put:
  assumes "tree_ok t" and "p \<noteq> []" and "parents_ok t p" and "is_folder (map_of t p) \<Longrightarrow> is_folder (Some n)"
  shows "tree_ok (put_node p n t)"
proof (rule tree_ok_change[OF assms(1)])
  show "is_folder (map_of (put_node p n t) q)" if "is_folder (map_of t q)" for q
    using that assms(4) by auto
  show "q \<noteq> [] \<and> parents_ok (put_node p n t) q" if "map_of t q = None" "map_of (put_node p n t) q \<noteq> None" for q
    using that assms(2,3,4) by (auto split: if_splits intro!: parents_ok_mono[OF assms(3)])
qed

lemma tree_ok_drop:
  assumes "tree_ok t" and "\<And>q. q \<noteq> p \<Longrightarrow> below p q \<Longrightarrow> map_of t q = None"
  shows "tree_ok (drop_node p t)"
  by (rule tree_ok_change[OF assms(1)]) (use assms(2) in \<open>auto split: if_splits\<close>)

lemma nothing_below_file: "tree_ok t \<Longrightarrow> \<not> is_folder (map_of t p) \<Longrightarrow> p \<noteq> [] \<Longrightarrow> q \<noteq> p \<Longrightarrow> below p q \<Longrightarrow> map_of t q = None"
proof (rule ccontr)
  assume a: "tree_ok t" "\<not> is_folder (map_of t p)" "p \<noteq> []" "q \<noteq> p" "below p q" "map_of t q \<noteq> None"
  then have "parents_ok t q" by (auto dest: tree_okD)
  moreover have "p \<in> set (proper_prefixes q)" using a by (auto simp: set_proper_prefixes)
  ultimately show False using a(2) by (blast dest: parents_okD)
qed

lemma rm_force_ok:
  assumes "tree_ok t" and "rm_force p t = Some t'"
  shows "tree_ok t' \<and> map_of t' = (map_of t)(p := None) \<and> \<not> is_folder (map_of t p)"
proof (cases "lstat t p")
  case NoEntry
  with assms lstat_missing[OF assms(1)] show ?thesis by (auto simp: rm_force_def fun_upd_idem)
next
  case NotFolder
  with assms show ?thesis by (simp add: rm_force_def)
next
  case (Found n)
  then have n: "map_of t p = Some n" "\<not> is_folder (Some n)" "t' = drop_node p t"
    using assms(2) by (auto simp: rm_force_def dest: lstat_Found split: node.splits)
  then have "p \<noteq> []" using assms(1) by (auto dest: tree_okD)
  then have "tree_ok t'" using n tree_ok_drop[OF assms(1)] nothing_below_file[OF assms(1), of p] by simp
  with n show ?thesis by simp
qed

lemma rm_recursive_ok:
  assumes "tree_ok t" and "p \<noteq> []" and "rm_recursive p t = Some t'"
  shows "tree_ok t' \<and> map_of t' = (\<lambda>q. if below p q then None else map_of t q)"
proof (cases "lstat t p")
  case NoEntry
  then have "map_of t p = None" using lstat_missing[OF assms(1)] by simp
  then have "map_of t q = None" if "below p q" for q
    using nothing_below_file[OF assms(1), of p q] that assms(2) by (cases "q = p") auto
  with NoEntry assms show ?thesis by (auto simp: rm_recursive_def)
next
  case NotFolder
  with assms show ?thesis by (simp add: rm_recursive_def)
next
  case (Found n)
  then have m: "map_of t' = (\<lambda>q. if below p q then None else map_of t q)"
    using assms(3) by (auto simp: rm_recursive_def map_of_filter_out fun_eq_iff)
  have "tree_ok t'"
    by (rule tree_ok_change[OF assms(1)]) (auto simp: m dest: below_trans split: if_splits)
  with m show ?thesis by simp
qed

lemma rmdir_ok:
  assumes "tree_ok t" and "rmdir p t = Some t'"
  shows "tree_ok t' \<and> (map_of t' = map_of t \<or> map_of t' = (map_of t)(p := None))"
proof (cases "lstat t p")
  case (Found n)
  show ?thesis
  proof (cases "list_ex (\<lambda>e. below p (fst e) \<and> fst e \<noteq> p) t")
    case True
    with Found assms show ?thesis by (auto simp: rmdir_def split: node.splits)
  next
    case False
    then have "map_of t q = None" if "q \<noteq> p" "below p q" for q
      using that by (fastforce simp: list_ex_iff map_of_eq_None_iff)
    with False Found assms show ?thesis by (auto simp: rmdir_def tree_ok_drop split: node.splits)
  qed
qed (use assms in \<open>auto simp: rmdir_def\<close>)

lemma create_node_ok:
  assumes "tree_ok t" and "create_node p n t = Some t'"
  shows "tree_ok t' \<and> map_of t' = (map_of t)(p \<mapsto> n) \<and> map_of t p = None"
  using assms tree_ok_put[OF assms(1), of p n] by (auto simp: create_node_def split: if_splits)

lemma mkdir_create: "mkdir m p t = create_node p (Folder m) t"
  by (simp add: mkdir_def create_node_def)

lemma chmod_ok:
  assumes "tree_ok t" and "chmod m p t = Some t'"
  shows "tree_ok t' \<and> (\<exists>k s. map_of t p = Some (RegularFile k s) \<and> map_of t' = (map_of t)(p \<mapsto> RegularFile m s))"
proof -
  obtain k s where p: "lstat t p = Found (RegularFile k s)" "t' = put_node p (RegularFile m s) t"
    using assms(2) by (auto simp: chmod_def split: lookup.splits node.splits)
  then have "map_of t p = Some (RegularFile k s)" "parents_ok t p" by (auto dest: lstat_Found)
  moreover from this have "p \<noteq> []" using assms(1) by (auto dest: tree_okD)
  ultimately show ?thesis using p tree_ok_put[OF assms(1), of p "RegularFile m s"] by simp
qed

lemma rename_over_ok:
  assumes "tree_ok t" and "rename_over a b t = Some t'"
  shows "tree_ok t' \<and> (\<exists>n. map_of t a = Some n \<and> \<not> is_folder (Some n) \<and> map_of t' = (map_of t)(a := None, b \<mapsto> n))"
proof -
  obtain n where n: "lstat t a = Found n" "\<not> is_folder (Some n)" "t' = put_node b n (drop_node a t)"
      and b: "b \<noteq> []" "parents_ok t b" "\<not> is_folder (map_of t b)"
    using assms(2) by (cases "lstat t a") (auto simp: rename_over_def split: node.splits if_splits)
  then have a: "map_of t a = Some n" "a \<noteq> []" using assms(1) by (auto dest!: lstat_Found dest: tree_okD)
  have dropped: "tree_ok (drop_node a t)"
    by (rule tree_ok_drop[OF assms(1)]) (use a n(2) nothing_below_file[OF assms(1), of a] in auto)
  have "a \<notin> set (proper_prefixes b)" using parents_okD[OF b(2)] a(1) n(2) by force
  then have "parents_ok (drop_node a t) b" using b(2) by (auto intro!: parents_ok_mono[OF b(2)])
  moreover have "\<not> is_folder (map_of (drop_node a t) b)" using b(3) by simp
  ultimately have "tree_ok t'" using tree_ok_put[OF dropped b(1), of n] n(3) by simp
  with n a show ?thesis by simp
qed

lemma graft_ok:
  assumes "tree_ok t" and "tree_ok from" and "p \<noteq> []" and "graft m p from t = Some t'"
  shows "tree_ok t' \<and> map_of t' = (\<lambda>q. if below p q then map_of from q
      else if q \<in> set (missing_parents p t) then Some (Folder m) else map_of t q)"
proof -
  let ?sub = "filter (\<lambda>e. below p (fst e)) from" and ?new = "map (\<lambda>q. (q, Folder m)) (missing_parents p t)"
  have t': "t' = ?sub @ ?new @ t" and free: "\<not> list_ex (\<lambda>e. below p (fst e)) t"
    and folders: "\<And>q. q \<in> set (proper_prefixes p) \<Longrightarrow> map_of t q \<noteq> None \<Longrightarrow> is_folder (map_of t q)"
    using assms(4) by (auto simp: graft_def Let_def list_ex_iff split: if_splits)
  have old: "map_of t q = None" if "below p q" for q
    using free that by (fastforce simp: list_ex_iff map_of_eq_None_iff)
  have new: "map_of ?new q = (if q \<in> set (missing_parents p t) then Some (Folder m) else None)" for q
    by (simp add: map_of_map_restrict restrict_map_def)
  have missing: "\<not> below p q" if "q \<in> set (missing_parents p t)" for q
    using that below_antisym by (auto simp: missing_parents_def set_proper_prefixes)
  have m: "map_of t' = (\<lambda>q. if below p q then map_of from q
      else if q \<in> set (missing_parents p t) then Some (Folder m) else map_of t q)"
    using old missing by (auto simp: t' map_add_def map_of_filtered new fun_eq_iff split: option.splits)
  have above: "is_folder (map_of t' q)" if "q \<in> set (proper_prefixes p)" for q
  proof -
    have "\<not> below p q" using that below_antisym by (auto simp: set_proper_prefixes)
    with that folders[OF that] show ?thesis by (auto simp: m missing_parents_def)
  qed
  have "tree_ok t'"
    unfolding tree_ok_def
  proof (intro allI impI)
    fix q n assume q: "map_of t' q = Some n"
    consider "below p q" "map_of from q = Some n" | "\<not> below p q" "q \<in> set (missing_parents p t)" | "\<not> below p q" "map_of t q = Some n"
      using q by (auto simp: m split: if_splits)
    then show "q \<noteq> [] \<and> parents_ok t' q"
    proof cases
      case 1
      then have "q \<noteq> []" "parents_ok from q" using assms(2) by (auto dest: tree_okD)
      moreover have "is_folder (map_of t' s)" if s: "s \<in> set (proper_prefixes q)" for s
      proof (cases "below p s")
        case True
        with parents_okD[OF \<open>parents_ok from q\<close> s] show ?thesis by (simp add: m)
      next
        case False
        then have "s \<in> set (proper_prefixes p)"
          using s 1(1) below_linear[of p q s] by (auto simp: set_proper_prefixes)
        then show ?thesis by (rule above)
      qed
      ultimately show ?thesis by (auto intro: parents_okI)
    next
      case 2
      then have "q \<noteq> []" "q \<noteq> p" "below q p" by (auto simp: missing_parents_def set_proper_prefixes)
      moreover have "is_folder (map_of t' s)" if "s \<in> set (proper_prefixes q)" for s
      proof (rule above)
        from that have "s \<noteq> []" "s \<noteq> q" "below s q" by (simp_all add: set_proper_prefixes)
        moreover from this have "s \<noteq> p" using \<open>below q p\<close> below_antisym[of s q] by blast
        ultimately show "s \<in> set (proper_prefixes p)"
          using below_trans[of s q p] \<open>below q p\<close> by (simp add: set_proper_prefixes)
      qed
      ultimately show ?thesis by (auto intro: parents_okI)
    next
      case 3
      then have "q \<noteq> []" "parents_ok t q" using assms(1) by (auto dest: tree_okD)
      moreover have "is_folder (map_of t' s)" if "s \<in> set (proper_prefixes q)" for s
      proof -
        have "is_folder (map_of t s)" using \<open>parents_ok t q\<close> that by (rule parents_okD)
        moreover from this have "\<not> below p s" using old[of s] by (cases "below p s") auto
        ultimately show ?thesis by (auto simp: m missing_parents_def)
      qed
      ultimately show ?thesis by (auto intro: parents_okI)
    qed
  qed
  with m show ?thesis by simp
qed


section \<open>Snapshots\<close>

lemma map_of_capture [simp]: "map_of (captureTree B t) p = map_option (sourceEntryOf B) (map_of t p)"
  unfolding captureTree_def by (induction t) auto

lemma sameEntry_iff [simp]: "sameEntry l r \<longleftrightarrow> l = r"
  by (cases l; cases r) (auto simp: sameEntry_def)

lemma set_changedPaths: "p \<in> set (changedPaths prior after) \<longleftrightarrow> map_of prior p \<noteq> map_of after p"
proof -
  have "p \<in> set (map fst prior) \<or> p \<in> set (map fst after)" if "map_of prior p \<noteq> map_of after p"
    using that map_of_eq_None_iff[of prior p] map_of_eq_None_iff[of after p]
    by (cases "map_of prior p"; cases "map_of after p") simp_all
  then show ?thesis by (auto simp: changedPaths_def simp del: set_map)
qed

lemma changedPaths_Nil: "changedPaths prior after = [] \<longleftrightarrow> map_of prior = map_of after"
proof -
  have "changedPaths prior after = [] \<longleftrightarrow> (\<forall>p. p \<notin> set (changedPaths prior after))" by (cases "changedPaths prior after") auto
  then show ?thesis by (simp add: set_changedPaths fun_eq_iff)
qed

section \<open>Programs on trees\<close>

text \<open>Nobody interferes.\<close>

definition undisturbed :: "'e sourceEnv_scheme \<Rightarrow> bool" where
  "undisturbed E \<longleftrightarrow> (\<forall>n t. seOthers E n t = t)"

text \<open>
  Triples on the trees alone: from the trees \<open>\<tau>\<close> the program ends in trees related to its outcome.
\<close>

definition trees :: "'e sourceEnv_scheme \<Rightarrow> (place \<Rightarrow> tree) \<Rightarrow> ('e sourceEnv_ext, 'w sourceWorld_ext, 'a) prog
    \<Rightarrow> ('a outcome \<Rightarrow> (place \<Rightarrow> tree) \<Rightarrow> bool) \<Rightarrow> bool" where
  "trees E \<tau> m Q \<longleftrightarrow> hoare E (\<lambda>w. swTree w = \<tau>) m (\<lambda>r w. Q r (swTree w))"

lemma treesI: "(\<And>w. swTree w = \<tau> \<Longrightarrow> Q (fst (m E w)) (swTree (snd (m E w)))) \<Longrightarrow> trees E \<tau> m Q"
  by (simp add: trees_def hoare_def)

lemma treesD: "trees E \<tau> m Q \<Longrightarrow> swTree w = \<tau> \<Longrightarrow> Q (fst (m E w)) (swTree (snd (m E w)))"
  by (simp add: trees_def hoare_def)

lemma trees_weaken: "trees E \<tau> m Q' \<Longrightarrow> (\<And>r \<sigma>. Q' r \<sigma> \<Longrightarrow> Q r \<sigma>) \<Longrightarrow> trees E \<tau> m Q"
  by (simp add: trees_def hoare_def)

lemma trees_eq: "(\<And>w. m E w = m' E w) \<Longrightarrow> trees E \<tau> m' Q \<Longrightarrow> trees E \<tau> m Q"
  by (simp add: trees_def hoare_def)

lemma trees_ret: "Q (Value x) \<tau> \<Longrightarrow> trees E \<tau> (ret x) Q"
  and trees_throw: "Q (Thrown e) \<tau> \<Longrightarrow> trees E \<tau> (throw e) Q"
  by (auto intro!: treesI simp: ret_def throw_def)

lemma trees_mbind:
  assumes "trees E \<tau> m M"
    and "\<And>x \<sigma>. M (Value x) \<sigma> \<Longrightarrow> trees E \<sigma> (f x) Q"
    and "\<And>e \<sigma>. M (Thrown e) \<sigma> \<Longrightarrow> Q (Thrown e) \<sigma>" and "\<And>\<sigma>. M Crashed \<sigma> \<Longrightarrow> Q Crashed \<sigma>"
  shows "trees E \<tau> (mbind m f) Q"
proof (rule treesI, goal_cases)
  case w: (1 w)
  have 1: "M (fst (m E w)) (swTree (snd (m E w)))" by (rule treesD[OF assms(1) w])
  obtain r w' where m: "m E w = (r, w')" by force
  show ?case
    using 1 assms(2-4) by (cases r) (auto simp: mbind_def m dest: treesD)
qed

lemma trees_mcatch:
  assumes "trees E \<tau> m M"
    and "\<And>e \<sigma>. M (Thrown e) \<sigma> \<Longrightarrow> trees E \<sigma> (h e) Q"
    and "\<And>x \<sigma>. M (Value x) \<sigma> \<Longrightarrow> Q (Value x) \<sigma>" and "\<And>\<sigma>. M Crashed \<sigma> \<Longrightarrow> Q Crashed \<sigma>"
  shows "trees E \<tau> (mcatch m h) Q"
proof (rule treesI, goal_cases)
  case w: (1 w)
  have 1: "M (fst (m E w)) (swTree (snd (m E w)))" by (rule treesD[OF assms(1) w])
  obtain r w' where m: "m E w = (r, w')" by force
  show ?case
    using 1 assms(2-4) by (cases r) (auto simp: mcatch_def m dest: treesD)
qed

lemma trees_mfinally:
  assumes "trees E \<tau> m M"
    and "\<And>r \<sigma>. r \<noteq> Crashed \<Longrightarrow> M r \<sigma> \<Longrightarrow> trees E \<sigma> c (\<lambda>s \<rho>. Q (case s of Value _ \<Rightarrow> r | Thrown e \<Rightarrow> Thrown e | Crashed \<Rightarrow> Crashed) \<rho>)"
    and "\<And>\<sigma>. M Crashed \<sigma> \<Longrightarrow> Q Crashed \<sigma>"
  shows "trees E \<tau> (mfinally m c) Q"
proof (rule treesI, goal_cases)
  case w: (1 w)
  have 1: "M (fst (m E w)) (swTree (snd (m E w)))" by (rule treesD[OF assms(1) w])
  obtain r w' where m: "m E w = (r, w')" by force
  obtain s v where c: "c E w' = (s, v)" by force
  have 2: "Q (case s of Value _ \<Rightarrow> r | Thrown e \<Rightarrow> Thrown e | Crashed \<Rightarrow> Crashed) (swTree v)" if "r \<noteq> Crashed"
    using treesD[OF assms(2)[OF that, of "swTree w'"], of w'] 1 by (simp add: m c)
  show ?case
    using 1 2 assms(3) by (cases r; cases s) (simp_all add: mfinally_def m c)
qed

lemma trees_if: "(b \<Longrightarrow> trees E \<tau> m Q) \<Longrightarrow> (\<not> b \<Longrightarrow> trees E \<tau> n Q) \<Longrightarrow> trees E \<tau> (if b then m else n) Q"
  by simp

lemma trees_mwhen: "(b \<Longrightarrow> trees E \<tau> m Q) \<Longrightarrow> (\<not> b \<Longrightarrow> Q (Value ()) \<tau>) \<Longrightarrow> trees E \<tau> (mwhen b m) Q"
  by (auto simp: mwhen_def intro: trees_ret)

text \<open>A loop whose body keeps an invariant of the trees.\<close>

lemma trees_each:
  assumes "\<And>x ys \<sigma>. set (x # ys) \<subseteq> set xs \<Longrightarrow> I (x # ys) \<sigma>
      \<Longrightarrow> trees E \<sigma> (f x) (\<lambda>r \<rho>. case r of Value _ \<Rightarrow> I ys \<rho> | _ \<Rightarrow> Q r \<rho>)"
    and "\<And>\<sigma>. I [] \<sigma> \<Longrightarrow> Q (Value ()) \<sigma>" and "I xs \<tau>"
  shows "trees E \<tau> (each f xs) Q"
  using assms(1,3)
proof (induction xs arbitrary: \<tau>)
  case Nil
  then show ?case using assms(2) by (auto simp: each_def intro: trees_ret)
next
  case (Cons x xs)
  have each: "each f (x # xs) = mbind (f x) (\<lambda>_. each f xs)" by (simp add: each_def)
  show ?case
    unfolding each
    by (rule trees_mbind[OF Cons.prems(1)[OF _ Cons.prems(2)]])
      (use Cons in \<open>auto simp: subset_iff\<close>)
qed

lemma meddle_undisturbed: "undisturbed E \<Longrightarrow> meddle E w = w"
  by (simp add: meddle_def undisturbed_def)

lemma trees_look:
  assumes "undisturbed E" and "\<And>w. swTree w = \<tau> \<Longrightarrow> g w = x"
    and "Q (Value x) \<tau>" and "Q (Thrown node_error) \<tau>" and "Q Crashed \<tau>"
  shows "trees E \<tau> (look g) Q"
proof (rule treesI, goal_cases)
  case w: (1 w)
  have "swTree (elapse w) = \<tau>" by (simp add: elapse_def w)
  with assms show ?case
    by (auto simp: look_def meddle_undisturbed observe_def Let_def split: fate.split)
qed

lemma trees_stat:
  assumes "undisturbed E" and "Q (Value (lstat (\<tau> r) p)) \<tau>" and "Q (Thrown node_error) \<tau>" and "Q Crashed \<tau>"
  shows "trees E \<tau> (stat r p) Q"
  unfolding stat_def by (rule trees_look[OF assms(1), where x = "lstat (\<tau> r) p"]) (simp_all add: assms(2-4))

lemma trees_capture:
  assumes "undisturbed E" and "Q (Value (captureTree B (\<tau> r))) \<tau>" and "Q (Thrown node_error) \<tau>" and "Q Crashed \<tau>"
  shows "trees E \<tau> (capture B r) Q"
  unfolding capture_def by (rule trees_look[OF assms(1), where x = "captureTree B (\<tau> r)"]) (simp_all add: assms(2-4))

lemma trees_capture_bind:
  assumes "undisturbed E" and "trees E \<tau> (f (captureTree B (\<tau> r))) Q" and "Q (Thrown node_error) \<tau>" and "Q Crashed \<tau>"
  shows "trees E \<tau> (mbind (capture B r) f) Q"
  by (rule trees_mbind[OF trees_capture[OF assms(1), where Q = "\<lambda>res \<rho>. \<rho> = \<tau> \<and>
      (res = Value (captureTree B (\<tau> r)) \<or> res = Thrown node_error \<or> res = Crashed)"]]) (use assms in auto)

lemma trees_stat_bind:
  assumes "undisturbed E" and "trees E \<tau> (f (lstat (\<tau> r) p)) Q" and "Q (Thrown node_error) \<tau>" and "Q Crashed \<tau>"
  shows "trees E \<tau> (mbind (stat r p) f) Q"
  by (rule trees_mbind[OF trees_stat[OF assms(1), where Q = "\<lambda>res \<rho>. \<rho> = \<tau> \<and>
      (res = Value (lstat (\<tau> r) p) \<or> res = Thrown node_error \<or> res = Crashed)"]]) (use assms in auto)

lemma trees_perform: "Q (Value ()) \<tau> \<Longrightarrow> Q (Thrown node_error) \<tau> \<Longrightarrow> Q Crashed \<tau> \<Longrightarrow> trees E \<tau> (perform node_error id) Q"
  by (rule treesI) (auto simp: perform_def Let_def elapse_def split: fate.split)

lemma trees_uuid: "(\<And>n. Q (Value (seUuid E n)) \<tau>) \<Longrightarrow> trees E \<tau> fresh_uuid Q"
  by (rule treesI) (simp add: fresh_uuid_def)

lemma trees_fs:
  assumes "undisturbed E"
    and "\<And>t. f (\<tau> r) = Some t \<Longrightarrow> Q (Value ()) (\<tau>(r := t)) \<and> Q (Thrown node_error) (\<tau>(r := t)) \<and> Q Crashed (\<tau>(r := t))"
    and "Q (Thrown node_error) \<tau>" and "Q Crashed \<tau>"
  shows "trees E \<tau> (fs_change r f) Q"
proof (rule treesI, goal_cases)
  case w: (1 w)
  have "swTree (elapse w) = \<tau>" "\<And>t. swTree (set_tree r t (elapse w)) = \<tau>(r := t)"
    by (simp_all add: elapse_def set_tree_def w)
  then show ?case
    using assms(2-4) w
    by (auto simp: fs_change_def meddle_undisturbed[OF assms(1)] perform_def mbind_def throw_def Let_def split: option.split fate.split)
qed

text \<open>An invariant of the trees, kept whatever the outcome.\<close>

definition steady :: "'e sourceEnv_scheme \<Rightarrow> ((place \<Rightarrow> tree) \<Rightarrow> bool) \<Rightarrow> ('e sourceEnv_ext, 'w sourceWorld_ext, 'a) prog \<Rightarrow> bool" where
  "steady E P m \<longleftrightarrow> (\<forall>\<tau>. P \<tau> \<longrightarrow> trees E \<tau> m (\<lambda>_. P))"

lemma steadyI: "(\<And>\<tau>. P \<tau> \<Longrightarrow> trees E \<tau> m (\<lambda>_. P)) \<Longrightarrow> steady E P m"
  by (simp add: steady_def)

lemma steadyD: "steady E P m \<Longrightarrow> P \<tau> \<Longrightarrow> trees E \<tau> m (\<lambda>_. P)"
  by (simp add: steady_def)

lemma steady_each: "(\<And>x. x \<in> set xs \<Longrightarrow> steady E P (f x)) \<Longrightarrow> steady E P (each f xs)"
  by (rule steadyI, rule trees_each[where I = "\<lambda>_. P"])
    (auto intro!: trees_weaken[OF steadyD] split: outcome.split)

lemma steady_fs:
  "undisturbed E \<Longrightarrow> (\<And>\<tau> t. P \<tau> \<Longrightarrow> f (\<tau> r) = Some t \<Longrightarrow> P (\<tau>(r := t))) \<Longrightarrow> steady E P (fs_change r f)"
  by (rule steadyI, rule trees_fs) auto


section \<open>Publications without interference\<close>

definition TEMPORARY_SUFFIXES :: "string list" where
  "TEMPORARY_SUFFIXES = [''.pi-langgraph-'', ''.pi-promote-'']"

text \<open>
  Nobody interferes, none of the paths leads through another one, and the random names of the
  temporary files are not names of the paths themselves.
\<close>

definition settled :: "'e sourceEnv_scheme \<Rightarrow> path list \<Rightarrow> bool" where
  "settled E paths \<longleftrightarrow> undisturbed E \<and> [] \<notin> set paths \<and> (\<forall>p \<in> set paths. \<forall>q \<in> set paths. below p q \<longrightarrow> p = q) \<and>
     (\<forall>p \<in> set paths. \<forall>suffix \<in> set TEMPORARY_SUFFIXES. \<forall>n. temporary p suffix (seUuid E n) \<notin> set paths)"

lemma settledD:
  assumes "settled E paths"
  shows "undisturbed E" and "p \<in> set paths \<Longrightarrow> p \<noteq> []"
    and "p \<in> set paths \<Longrightarrow> q \<in> set paths \<Longrightarrow> below p q \<Longrightarrow> p = q"
    and "p \<in> set paths \<Longrightarrow> suffix \<in> set TEMPORARY_SUFFIXES \<Longrightarrow> temporary p suffix (seUuid E n) \<notin> set paths"
  using assms by (auto simp: settled_def)

lemma settled_prefix: "settled E paths \<Longrightarrow> p \<in> set paths \<Longrightarrow> q \<in> set (proper_prefixes p) \<Longrightarrow> q \<notin> set paths"
  using settledD(3)[of E paths q p] by (auto simp: set_proper_prefixes)

text \<open>The trees differ at one place only, and there not on the paths.\<close>

definition beside :: "place \<Rightarrow> path list \<Rightarrow> (place \<Rightarrow> tree) \<Rightarrow> (place \<Rightarrow> tree) \<Rightarrow> bool" where
  "beside r paths \<tau> \<rho> \<longleftrightarrow> tree_ok (\<rho> r) \<and> (\<forall>x. x \<noteq> r \<longrightarrow> \<rho> x = \<tau> x) \<and> (\<forall>q \<in> set paths. map_of (\<rho> r) q = map_of (\<tau> r) q)"

text \<open>One of the paths may have got its new entry, and has it if the program succeeded.\<close>

definition advanced :: "place \<Rightarrow> path list \<Rightarrow> path \<Rightarrow> node option \<Rightarrow> (place \<Rightarrow> tree) \<Rightarrow> unit outcome \<Rightarrow> (place \<Rightarrow> tree) \<Rightarrow> bool" where
  "advanced r paths p n \<tau> res \<rho> \<longleftrightarrow> tree_ok (\<rho> r) \<and> (\<forall>x. x \<noteq> r \<longrightarrow> \<rho> x = \<tau> x) \<and>
     (\<forall>q \<in> set paths. q \<noteq> p \<longrightarrow> map_of (\<rho> r) q = map_of (\<tau> r) q) \<and>
     (map_of (\<rho> r) p = map_of (\<tau> r) p \<or> map_of (\<rho> r) p = n) \<and> (res = Value () \<longrightarrow> map_of (\<rho> r) p = n)"

lemma beside_advanced: "beside r paths \<tau> \<rho> \<Longrightarrow> p \<in> set paths \<Longrightarrow> res \<noteq> Value () \<Longrightarrow> advanced r paths p n \<tau> res \<rho>"
  by (simp add: beside_def advanced_def)

lemma beside_refl: "tree_ok (\<tau> r) \<Longrightarrow> beside r paths \<tau> \<tau>"
  by (simp add: beside_def)

lemma beside_step:
  "beside r paths \<tau> \<sigma> \<Longrightarrow> tree_ok t \<Longrightarrow> (\<And>q. q \<in> set paths \<Longrightarrow> map_of t q = map_of (\<sigma> r) q) \<Longrightarrow> beside r paths \<tau> (\<sigma>(r := t))"
  by (simp add: beside_def)

definition reads_only :: "'e sourceEnv_scheme \<Rightarrow> ('e sourceEnv_ext, 'w sourceWorld_ext, unit) prog \<Rightarrow> bool" where
  "reads_only E m \<longleftrightarrow> (\<forall>\<sigma>. trees E \<sigma> m (\<lambda>_ \<rho>. \<rho> = \<sigma>))"

lemma reads_onlyD: "reads_only E m \<Longrightarrow> trees E \<sigma> m (\<lambda>_ \<rho>. \<rho> = \<sigma>)"
  by (simp add: reads_only_def)

lemma reads_onlyI: "(\<And>\<sigma>. trees E \<sigma> m (\<lambda>_ \<rho>. \<rho> = \<sigma>)) \<Longrightarrow> reads_only E m"
  by (simp add: reads_only_def)

lemma trees_reads_only: "reads_only E m \<Longrightarrow> (\<And>r. Q r \<tau>) \<Longrightarrow> trees E \<tau> m Q"
  unfolding reads_only_def by (rule trees_weaken[where Q' = "\<lambda>_ \<rho>. \<rho> = \<tau>"]) auto

definition final_node :: "node \<Rightarrow> int option \<Rightarrow> node" where
  "final_node n mode = (case mode of None \<Rightarrow> n | Some m \<Rightarrow> (case n of RegularFile _ s \<Rightarrow> RegularFile m s | _ \<Rightarrow> n))"

lemma trees_replace:
  assumes settled: "settled E paths" and p: "p \<in> set paths" and suffix: "suffix \<in> set TEMPORARY_SUFFIXES"
    and prior: "reads_only E prior" and beside: "beside r paths \<tau> \<sigma>"
  shows "trees E \<sigma> (replace_entry r p suffix n mode prior) (advanced r paths p (Some (final_node n mode)) \<tau>)"
proof -
  note calm = settledD(1)[OF settled]
  let ?adv = "advanced r paths p (Some (final_node n mode)) \<tau>"
  have stops: "?adv (Thrown e) \<rho> \<and> ?adv Crashed \<rho>" if "beside r paths \<tau> \<rho>" for e \<rho>
    using beside_advanced[OF that p] by simp
  have inner: "trees E \<sigma>
      (mbind (fs_change r (create_node t n)) (\<lambda>_.
       mbind (case mode of None \<Rightarrow> ret () | Some m \<Rightarrow> fs_change r (chmod m t)) (\<lambda>_.
       mbind prior (\<lambda>_. fs_change r (rename_over t p))))) ?adv"
    if t: "t \<notin> set paths" for t
  proof (rule trees_mbind[where M = "\<lambda>res \<rho>. beside r paths \<tau> \<rho> \<and> (res = Value () \<longrightarrow> map_of (\<rho> r) t = Some n)"])
    show "trees E \<sigma> (fs_change r (create_node t n)) (\<lambda>res \<rho>. beside r paths \<tau> \<rho> \<and> (res = Value () \<longrightarrow> map_of (\<rho> r) t = Some n))"
    proof (rule trees_fs[OF calm])
      fix s assume "create_node t n (\<sigma> r) = Some s"
      then have "tree_ok s \<and> map_of s = (map_of (\<sigma> r))(t \<mapsto> n)" using beside by (auto simp: beside_def dest: create_node_ok)
      then have "beside r paths \<tau> (\<sigma>(r := s)) \<and> map_of s t = Some n" using t by (auto intro: beside_step[OF beside])
      then show "(beside r paths \<tau> (\<sigma>(r := s)) \<and> (Value () = Value () \<longrightarrow> map_of ((\<sigma>(r := s)) r) t = Some n)) \<and>
          (beside r paths \<tau> (\<sigma>(r := s)) \<and> (Thrown node_error = Value () \<longrightarrow> map_of ((\<sigma>(r := s)) r) t = Some n)) \<and>
          (beside r paths \<tau> (\<sigma>(r := s)) \<and> (Crashed = Value () \<longrightarrow> map_of ((\<sigma>(r := s)) r) t = Some n))" by simp
    qed (use beside in auto)
    fix \<sigma>\<^sub>1 and u :: unit assume 1: "beside r paths \<tau> \<sigma>\<^sub>1 \<and> (Value u = Value () \<longrightarrow> map_of (\<sigma>\<^sub>1 r) t = Some n)"
    show "trees E \<sigma>\<^sub>1 (mbind (case mode of None \<Rightarrow> ret () | Some m \<Rightarrow> fs_change r (chmod m t)) (\<lambda>_.
       mbind prior (\<lambda>_. fs_change r (rename_over t p)))) ?adv"
    proof (rule trees_mbind[where M = "\<lambda>res \<rho>. beside r paths \<tau> \<rho> \<and> (res = Value () \<longrightarrow> map_of (\<rho> r) t = Some (final_node n mode))"])
      show "trees E \<sigma>\<^sub>1 (case mode of None \<Rightarrow> ret () | Some m \<Rightarrow> fs_change r (chmod m t))
         (\<lambda>res \<rho>. beside r paths \<tau> \<rho> \<and> (res = Value () \<longrightarrow> map_of (\<rho> r) t = Some (final_node n mode)))"
      proof (cases mode)
        case None
        with 1 show ?thesis by (auto intro!: trees_ret simp: final_node_def)
      next
        case (Some m)
        have "beside r paths \<tau> (\<sigma>\<^sub>1(r := s)) \<and> map_of s t = Some (final_node n mode)" if "chmod m t (\<sigma>\<^sub>1 r) = Some s" for s
          using 1 chmod_ok[OF _ that] t Some by (auto simp: final_node_def beside_def)
        with 1 show ?thesis by (auto simp: Some intro!: trees_fs[OF calm])
      qed
      fix \<sigma>\<^sub>2 and u :: unit assume 2: "beside r paths \<tau> \<sigma>\<^sub>2 \<and> (Value u = Value () \<longrightarrow> map_of (\<sigma>\<^sub>2 r) t = Some (final_node n mode))"
      have renamed: "?adv res (\<sigma>\<^sub>2(r := s))" if "rename_over t p (\<sigma>\<^sub>2 r) = Some s" for s res
        using 2 rename_over_ok[OF _ that] t p by (auto simp: beside_def advanced_def)
      have "trees E \<sigma>\<^sub>2 (fs_change r (rename_over t p)) ?adv"
        using 2 stops renamed by (auto intro!: trees_fs[OF calm])
      then show "trees E \<sigma>\<^sub>2 (mbind prior (\<lambda>_. fs_change r (rename_over t p))) ?adv"
        using 2 stops prior by (auto intro!: trees_mbind[where M = "\<lambda>_ \<rho>. \<rho> = \<sigma>\<^sub>2"] simp: reads_only_def)
    qed (use stops in auto)
  qed (use stops in auto)
  have cleaned: "trees E \<rho> (fs_change r (rm_force t)) (\<lambda>s \<kappa>. ?adv (case s of Value _ \<Rightarrow> res | Thrown e \<Rightarrow> Thrown e | Crashed \<Rightarrow> Crashed) \<kappa>)"
    if "?adv res \<rho>" and t: "t \<notin> set paths" for t res \<rho>
  proof (rule trees_fs[OF calm])
    fix s assume "rm_force t (\<rho> r) = Some s"
    then have s: "tree_ok s \<and> map_of s = (map_of (\<rho> r))(t := None)" using that(1) by (auto simp: advanced_def dest: rm_force_ok)
    then have "?adv res (\<rho>(r := s))" using that t p by (auto simp: advanced_def)
    moreover from this have "?adv (Thrown e) (\<rho>(r := s))" "?adv Crashed (\<rho>(r := s))" for e by (auto simp: advanced_def)
    ultimately show "?adv (case Value () of Value _ \<Rightarrow> res | Thrown e \<Rightarrow> Thrown e | Crashed \<Rightarrow> Crashed) (\<rho>(r := s)) \<and>
        ?adv (case Thrown node_error of Value _ \<Rightarrow> res | Thrown e \<Rightarrow> Thrown e | Crashed \<Rightarrow> Crashed) (\<rho>(r := s)) \<and>
        ?adv (case Crashed of Value _ \<Rightarrow> res | Thrown e \<Rightarrow> Thrown e | Crashed \<Rightarrow> Crashed) (\<rho>(r := s))" by simp
  qed (use that(1) in \<open>auto simp: advanced_def\<close>)
  show ?thesis
    unfolding replace_entry_def
  proof (rule trees_mbind[OF trees_uuid[where Q = "\<lambda>res \<rho>. \<rho> = \<sigma> \<and> (\<exists>n. res = Value (seUuid E n))"]])
    fix u \<rho> assume "\<rho> = \<sigma> \<and> (\<exists>n. Value u = Value (seUuid E n))"
    then have "\<rho> = \<sigma>" and t: "temporary p suffix u \<notin> set paths" using settledD(4)[OF settled p suffix] by auto
    then show "trees E \<rho> (mfinally
       (mbind (fs_change r (create_node (temporary p suffix u) n)) (\<lambda>_.
        mbind (case mode of None \<Rightarrow> ret () | Some m \<Rightarrow> fs_change r (chmod m (temporary p suffix u))) (\<lambda>_.
        mbind prior (\<lambda>_. fs_change r (rename_over (temporary p suffix u) p)))))
       (fs_change r (rm_force (temporary p suffix u)))) ?adv"
      by (auto intro!: trees_mfinally[OF inner[OF t]] cleaned[OF _ t])
  qed auto
qed


section \<open>Rolling back\<close>

lemma outermost_antichain:
  assumes "\<And>p q. p \<in> set (seen @ ps) \<Longrightarrow> q \<in> set (seen @ ps) \<Longrightarrow> below p q \<Longrightarrow> p = q"
  shows "set (outermost seen ps) = set ps"
  using assms
proof (induction ps arbitrary: seen)
  case (Cons p ps)
  have "\<not> list_ex (\<lambda>q. below q p \<and> q \<noteq> p) seen" using Cons.prems[of _ p] by (auto simp: list_ex_iff)
  moreover have "set (outermost (seen @ [p]) ps) = set ps" by (rule Cons.IH) (use Cons.prems in auto)
  ultimately show ?case by simp
qed simp

lemma set_minimalPaths:
  "settled E paths \<Longrightarrow> set ps \<subseteq> set paths \<Longrightarrow> set (minimalPaths ps) = set ps"
  unfolding minimalPaths_def using settledD(3)[of E paths]
  by (subst outermost_antichain) (auto simp: subset_iff)

lemma createdParents_prefixes: "q \<in> set (createdParents ps baseline) \<Longrightarrow> \<exists>p \<in> set ps. q \<in> set (proper_prefixes p)"
  by (auto simp: createdParents_def)

text \<open>What the roll-back leaves alone: the other paths, and the baseline.\<close>

definition others_kept :: "path list \<Rightarrow> path list \<Rightarrow> (place \<Rightarrow> tree) \<Rightarrow> (place \<Rightarrow> tree) \<Rightarrow> bool" where
  "others_kept paths restored \<tau> \<rho> \<longleftrightarrow> tree_ok (\<rho> Source) \<and> \<rho> Baseline = \<tau> Baseline \<and>
     (\<forall>q \<in> set paths - set restored. map_of (\<rho> Source) q = map_of (\<tau> Source) q)"

lemma others_kept_step:
  "others_kept paths restored \<tau> \<sigma> \<Longrightarrow> tree_ok t \<Longrightarrow>
   (\<And>q. q \<in> set paths \<Longrightarrow> q \<notin> set restored \<Longrightarrow> map_of t q = map_of (\<sigma> Source) q) \<Longrightarrow> others_kept paths restored \<tau> (\<sigma>(Source := t))"
  by (simp add: others_kept_def)

lemma cleanup_keeps:
  assumes settled: "settled E paths" and "set ps \<subseteq> set paths"
  shows "steady E (others_kept paths restored \<tau>) (cleanupCreatedParents baseline ps)"
  unfolding cleanupCreatedParents_def
proof (rule steady_each, rule steady_fs[OF settledD(1)[OF settled]])
  fix q \<sigma> t assume q: "q \<in> set (createdParents ps baseline)" and "others_kept paths restored \<tau> \<sigma>" and "rmdir q (\<sigma> Source) = Some t"
  moreover have "q \<notin> set paths" using createdParents_prefixes[OF q] settled_prefix[OF settled] assms(2) by blast
  ultimately show "others_kept paths restored \<tau> (\<sigma>(Source := t))"
    using rmdir_ok[of "\<sigma> Source" q t] by (intro others_kept_step) (auto simp: others_kept_def)
qed

lemma remove_keeps:
  assumes settled: "settled E paths" and p: "p \<in> set paths" "p \<in> set restored"
  shows "steady E (others_kept paths restored \<tau>) (fs_change Source (rm_recursive p))"
proof (rule steady_fs[OF settledD(1)[OF settled]])
  fix \<sigma> t assume kept: "others_kept paths restored \<tau> \<sigma>" and "rm_recursive p (\<sigma> Source) = Some t"
  then have "tree_ok t \<and> map_of t = (\<lambda>q. if below p q then None else map_of (\<sigma> Source) q)"
    using settledD(2)[OF settled p(1)] by (auto simp: others_kept_def dest: rm_recursive_ok)
  with kept p settledD(3)[OF settled p(1)] show "others_kept paths restored \<tau> (\<sigma>(Source := t))"
    by (intro others_kept_step) auto
qed

lemma copy_back_keeps:
  assumes settled: "settled E paths" and p: "p \<in> set paths" "p \<in> set restored" and base: "tree_ok (\<tau> Baseline)"
  shows "steady E (others_kept paths restored \<tau>) (copy_back p)"
proof (rule steadyI)
  fix \<sigma> assume kept: "others_kept paths restored \<tau> \<sigma>"
  note calm = settledD(1)[OF settled]
  have "trees E \<sigma> (mbind (look (\<lambda>w. swTree w Baseline)) (\<lambda>from. fs_change Source (graft (seFolderMode E) p from))) (\<lambda>_. others_kept paths restored \<tau>)"
  proof (rule trees_mbind[OF trees_look[OF calm, where x = "\<sigma> Baseline" and Q = "\<lambda>r \<rho>. \<rho> = \<sigma> \<and> (\<forall>x. r = Value x \<longrightarrow> x = \<sigma> Baseline)"]])
    fix b \<rho> assume "\<rho> = \<sigma> \<and> (\<forall>x. Value b = Value x \<longrightarrow> x = \<sigma> Baseline)"
    then have eq: "\<rho> = \<sigma>" "b = \<sigma> Baseline" by auto
    have grafted: "others_kept paths restored \<tau> (\<sigma>(Source := t))" if "graft (seFolderMode E) p (\<sigma> Baseline) (\<sigma> Source) = Some t" for t
    proof (rule others_kept_step[OF kept])
      have g: "tree_ok t \<and> map_of t = (\<lambda>q. if below p q then map_of (\<sigma> Baseline) q
          else if q \<in> set (missing_parents p (\<sigma> Source)) then Some (Folder (seFolderMode E)) else map_of (\<sigma> Source) q)"
        using graft_ok[OF _ _ settledD(2)[OF settled p(1)] that] kept base by (simp add: others_kept_def)
      then show "tree_ok t" by simp
      fix q assume q: "q \<in> set paths" "q \<notin> set restored"
      then have "\<not> below p q" using settledD(3)[OF settled p(1)] p(2) by blast
      moreover have "q \<notin> set (missing_parents p (\<sigma> Source))"
        using settled_prefix[OF settled p(1)] q(1) by (auto simp: missing_parents_def)
      ultimately show "map_of t q = map_of (\<sigma> Source) q" using g by simp
    qed
    show "trees E \<rho> (fs_change Source (graft (seFolderMode E) p b)) (\<lambda>_. others_kept paths restored \<tau>)"
      unfolding eq by (rule trees_fs[OF calm]) (use grafted kept in auto)
  qed (use kept in auto)
  then show "trees E \<sigma> (copy_back p) (\<lambda>_. others_kept paths restored \<tau>)"
    by (rule trees_eq[rotated]) (simp add: copy_back_def)
qed


text \<open>
  A roll-back that ends well leaves every path in the state of the baseline, provided each was
  left in its old or its staged state.
\<close>

definition entry_of :: "builtins \<Rightarrow> tree \<Rightarrow> path \<Rightarrow> sourceEntry option" where
  "entry_of B t p = map_option (sourceEntryOf B) (map_of t p)"

lemma restorePaths_ok:
  assumes settled: "settled E paths" and ps: "set ps \<subseteq> set paths" and base: "tree_ok (\<tau> Baseline)"
    and kept: "others_kept paths ps \<tau> \<tau>"
  shows "trees E \<tau> (restorePaths B baseline ps) (\<lambda>r \<rho>. others_kept paths ps \<tau> \<rho> \<and>
     (r = Value () \<longrightarrow> (\<forall>p \<in> set ps. entry_of B (\<rho> Source) p = map_of baseline p)))"
proof -
  let ?restore = "minimalPaths ps" and ?K = "others_kept paths ps \<tau>"
  note calm = settledD(1)[OF settled]
  have restore: "set ?restore = set ps" by (rule set_minimalPaths[OF settled ps])
  have "trees E \<tau>
      (mbind (each (\<lambda>p. fs_change Source (rm_recursive p)) ?restore) (\<lambda>_.
       mbind (each (\<lambda>p. mwhen (map_of baseline p \<noteq> None) (copy_back p)) ?restore) (\<lambda>_.
       cleanupCreatedParents baseline ?restore))) (\<lambda>_. ?K)"
  proof (rule trees_mbind[where M = "\<lambda>_. ?K"])
    have "steady E ?K (fs_change Source (rm_recursive p))" if "p \<in> set ?restore" for p
      using that ps restore by (auto intro: remove_keeps[OF settled])
    then show "trees E \<tau> (each (\<lambda>p. fs_change Source (rm_recursive p)) ?restore) (\<lambda>_. ?K)"
      by (intro steadyD[OF steady_each] kept)
    fix \<sigma> assume "?K \<sigma>"
    show "trees E \<sigma> (mbind (each (\<lambda>p. mwhen (map_of baseline p \<noteq> None) (copy_back p)) ?restore) (\<lambda>_.
        cleanupCreatedParents baseline ?restore)) (\<lambda>_. ?K)"
    proof (rule trees_mbind[where M = "\<lambda>_. ?K"])
      have "steady E ?K (mwhen (map_of baseline p \<noteq> None) (copy_back p))" if "p \<in> set ?restore" for p
      proof (rule steadyI, rule trees_mwhen)
        fix \<kappa> assume "?K \<kappa>"
        have "steady E ?K (copy_back p)" by (rule copy_back_keeps[OF settled]) (use that ps restore base in auto)
        then show "trees E \<kappa> (copy_back p) (\<lambda>_. ?K)" using \<open>?K \<kappa>\<close> by (rule steadyD)
      qed auto
      then show "trees E \<sigma> (each (\<lambda>p. mwhen (map_of baseline p \<noteq> None) (copy_back p)) ?restore) (\<lambda>_. ?K)"
        by (intro steadyD[OF steady_each] \<open>?K \<sigma>\<close>)
      show "trees E \<rho> (cleanupCreatedParents baseline ?restore) (\<lambda>_. ?K)" if "?K \<rho>" for \<rho>
        using ps restore by (intro steadyD[OF cleanup_keeps[OF settled] that]) simp
    qed auto
  qed auto
  then have restored: "trees E \<tau>
      (mcatch (mbind (each (\<lambda>p. fs_change Source (rm_recursive p)) ?restore) (\<lambda>_.
       mbind (each (\<lambda>p. mwhen (map_of baseline p \<noteq> None) (copy_back p)) ?restore) (\<lambda>_.
       cleanupCreatedParents baseline ?restore))) (\<lambda>_. throw rollback_error)) (\<lambda>_. ?K)"
    by (rule trees_mcatch) (auto intro: trees_throw)
  show ?thesis
    unfolding restorePaths_def Let_def
  proof (rule trees_mbind[OF restored])
    fix \<sigma> assume K: "?K \<sigma>"
    show "trees E \<sigma> (mbind (capture B Source) (\<lambda>current.
         if filter (\<lambda>p. \<not> sameEntry (map_of baseline p) (map_of current p)) ?restore = [] then ret () else throw rollback_error))
       (\<lambda>r \<rho>. ?K \<rho> \<and> (r = Value () \<longrightarrow> (\<forall>p \<in> set ps. entry_of B (\<rho> Source) p = map_of baseline p)))"
    proof (rule trees_capture_bind[OF calm], rule trees_if)
      assume "filter (\<lambda>p. \<not> sameEntry (map_of baseline p) (map_of (captureTree B (\<sigma> Source)) p)) ?restore = []"
      then have "\<forall>p \<in> set ps. entry_of B (\<sigma> Source) p = map_of baseline p"
        using restore by (simp add: filter_empty_conv entry_of_def)
      with K show "trees E \<sigma> (ret ()) (\<lambda>r \<rho>. ?K \<rho> \<and> (r = Value () \<longrightarrow> (\<forall>p \<in> set ps. entry_of B (\<rho> Source) p = map_of baseline p)))"
        by (intro trees_ret) simp
    qed (use K in \<open>auto intro!: trees_throw\<close>)
  qed auto
qed

lemma rollback_ok:
  assumes settled: "settled E paths" and base: "tree_ok (\<tau> Baseline)" and source: "tree_ok (\<tau> Source)"
    and mixed: "\<And>p. p \<in> set paths \<Longrightarrow> entry_of B (\<tau> Source) p = map_of baseline p \<or> entry_of B (\<tau> Source) p = map_of candidate p"
  shows "trees E \<tau> (rollbackPublished B baseline paths candidate)
     (\<lambda>r \<rho>. r = Value () \<longrightarrow> (\<forall>p \<in> set paths. entry_of B (\<rho> Source) p = map_of baseline p))"
proof -
  note calm = settledD(1)[OF settled]
  let ?Q = "\<lambda>r \<rho>. r = Value () \<longrightarrow> (\<forall>p \<in> set paths. entry_of B (\<rho> Source) p = map_of baseline p)"
  let ?owned = "filter (\<lambda>p. \<not> sameEntry (map_of baseline p) (map_of candidate p) \<and>
     sameEntry (map_of (captureTree B (\<tau> Source)) p) (map_of candidate p)) paths"
  have owned: "set ?owned \<subseteq> set paths" by auto
  have rest: "entry_of B (\<tau> Source) p = map_of baseline p" if "p \<in> set paths" "p \<notin> set ?owned" for p
    using mixed[OF that(1)] that by (auto simp: entry_of_def)
  have "trees E \<tau> (mbind (restorePaths B baseline ?owned) (\<lambda>_. cleanupCreatedParents baseline paths)) ?Q"
  proof (rule trees_mbind)
    show "trees E \<tau> (restorePaths B baseline ?owned) (\<lambda>r \<rho>. others_kept paths ?owned \<tau> \<rho> \<and>
       (r = Value () \<longrightarrow> (\<forall>p \<in> set ?owned. entry_of B (\<rho> Source) p = map_of baseline p)))"
      by (rule restorePaths_ok[OF settled owned]) (use base source in \<open>auto simp: others_kept_def\<close>)
    fix u :: unit and \<sigma>
    assume 1: "others_kept paths ?owned \<tau> \<sigma> \<and>
       (Value u = Value () \<longrightarrow> (\<forall>p \<in> set ?owned. entry_of B (\<sigma> Source) p = map_of baseline p))"
    then have "entry_of B (\<sigma> Source) p = map_of baseline p" if "p \<in> set paths" for p
      using rest[OF that] that by (cases "p \<in> set ?owned") (auto simp: others_kept_def entry_of_def)
    moreover have "others_kept paths [] \<sigma> \<sigma>" using 1 by (simp add: others_kept_def)
    ultimately show "trees E \<sigma> (cleanupCreatedParents baseline paths) ?Q"
      by (intro trees_weaken[OF steadyD[OF cleanup_keeps[OF settled order_refl, where restored = "[]"]]]) (auto simp: others_kept_def entry_of_def)
  qed auto
  then show ?thesis
    unfolding rollbackPublished_def Let_def
    by (intro trees_capture_bind[OF calm]) auto
qed


section \<open>The contract of a publisher\<close>

definition mixed :: "path list \<Rightarrow> tree \<Rightarrow> tree \<Rightarrow> tree \<Rightarrow> bool" where
  "mixed paths old new t \<longleftrightarrow> tree_ok t \<and> (\<forall>p \<in> set paths. map_of t p = map_of old p \<or> map_of t p = map_of new p)"

definition reached :: "(node \<Rightarrow> node) \<Rightarrow> path list \<Rightarrow> tree \<Rightarrow> tree \<Rightarrow> bool" where
  "reached goal paths isolated t \<longleftrightarrow> (\<forall>p \<in> set paths. map_of t p = map_option goal (map_of isolated p))"

text \<open>The two ends of a publication.\<close>

definition unpublished :: "builtins \<Rightarrow> path list \<Rightarrow> (place \<Rightarrow> tree) \<Rightarrow> (place \<Rightarrow> tree) \<Rightarrow> bool" where
  "unpublished B paths \<tau> \<rho> \<longleftrightarrow> (\<forall>p \<in> set paths. entry_of B (\<rho> Source) p = entry_of B (\<tau> Source) p)"

definition published :: "builtins \<Rightarrow> (node \<Rightarrow> node) \<Rightarrow> path list \<Rightarrow> (place \<Rightarrow> tree) \<Rightarrow> (place \<Rightarrow> tree) \<Rightarrow> bool" where
  "published B goal paths \<tau> \<rho> \<longleftrightarrow>
     (\<forall>p \<in> set paths. entry_of B (\<rho> Source) p = map_option (sourceEntryOf B) (map_option goal (map_of (\<tau> Isolated) p)))"

definition atomic :: "builtins \<Rightarrow> (node \<Rightarrow> node) \<Rightarrow> path list \<Rightarrow> (place \<Rightarrow> tree) \<Rightarrow> unit outcome \<Rightarrow> (place \<Rightarrow> tree) \<Rightarrow> bool" where
  "atomic B goal paths \<tau> r \<rho> \<longleftrightarrow>
     (case r of
        Value _ \<Rightarrow> published B goal paths \<tau> \<rho>
      | Thrown e \<Rightarrow> e = rollback_error \<or> unpublished B paths \<tau> \<rho> \<or> published B goal paths \<tau> \<rho>
      | Crashed \<Rightarrow> True)"

text \<open>
  Staging brings each path of the staged tree into the state that the isolated tree asks for and
  leaves the source alone; putting leaves each path of the source in its old or its staged state.
\<close>

locale publisher =
  fixes stage put :: "path list \<Rightarrow> ('e sourceEnv_ext, 'w sourceWorld_ext, unit) prog" and goal :: "node \<Rightarrow> node"
  assumes stage_law:
    "settled E paths \<Longrightarrow> tree_ok (\<sigma> Staged) \<Longrightarrow> tree_ok (\<sigma> Isolated) \<Longrightarrow>
     trees E \<sigma> (stage paths) (\<lambda>r \<rho>. (\<forall>x. x \<noteq> Staged \<longrightarrow> \<rho> x = \<sigma> x) \<and> tree_ok (\<rho> Staged) \<and>
       (r = Value () \<longrightarrow> reached goal paths (\<sigma> Isolated) (\<rho> Staged)))"
  and put_law:
    "settled E paths \<Longrightarrow> tree_ok (\<sigma> Source) \<Longrightarrow> tree_ok (\<sigma> Staged) \<Longrightarrow> reached goal paths (\<sigma> Isolated) (\<sigma> Staged) \<Longrightarrow>
     trees E \<sigma> (put paths) (\<lambda>r \<rho>. (\<forall>x. x \<noteq> Source \<longrightarrow> \<rho> x = \<sigma> x) \<and> mixed paths (\<sigma> Source) (\<sigma> Staged) (\<rho> Source))"
begin

lemma publish_locked_atomic:
  assumes settled: "settled E paths" and trees_ok: "tree_ok (\<sigma> Source)" "tree_ok (\<sigma> Staged)" "tree_ok (\<sigma> Baseline)"
    and reached: "reached goal paths (\<sigma> Isolated) (\<sigma> Staged)"
  shows "trees E \<sigma> (publish_locked B (captureTree B (\<sigma> Baseline)) paths (put paths) (captureTree B (\<sigma> Staged)))
     (\<lambda>r \<rho>. atomic B goal paths \<sigma> r \<rho>)"
proof -
  note calm = settledD(1)[OF settled]
  let ?base = "captureTree B (\<sigma> Baseline)" and ?cand = "captureTree B (\<sigma> Staged)"
  let ?M = "\<lambda>r \<rho>. (\<forall>x. x \<noteq> Source \<longrightarrow> \<rho> x = \<sigma> x) \<and> mixed paths (\<sigma> Source) (\<sigma> Staged) (\<rho> Source)"
  have body: "trees E \<sigma> (mbind (put paths) (\<lambda>_. mbind (capture B Source) (\<lambda>current.
      if changedPaths ?cand current \<noteq> [] then throw snapshot_error else ret ())))
      (\<lambda>r \<rho>. ?M r \<rho> \<and> (r = Value () \<longrightarrow> published B goal paths \<sigma> \<rho>))"
  proof (rule trees_mbind[OF put_law[OF settled trees_ok(1,2) reached]])
    fix \<rho> assume M: "?M (Value ()) \<rho>"
    have "published B goal paths \<sigma> \<rho>" if "changedPaths ?cand (captureTree B (\<rho> Source)) = []"
    proof -
      have "map_option (sourceEntryOf B) (map_of (\<rho> Source) p) = map_option (sourceEntryOf B) (map_of (\<sigma> Staged) p)" for p
        using that by (simp add: changedPaths_Nil fun_eq_iff)
      with reached show ?thesis by (simp add: published_def entry_of_def reached_def)
    qed
    with M show "trees E \<rho> (mbind (capture B Source) (\<lambda>current.
        if changedPaths ?cand current \<noteq> [] then throw snapshot_error else ret ()))
        (\<lambda>r \<rho>. ?M r \<rho> \<and> (r = Value () \<longrightarrow> published B goal paths \<sigma> \<rho>))"
      by (intro trees_capture_bind[OF calm])
        (auto intro!: trees_ret trees_throw)
  qed auto
  have undone: "trees E \<rho> (mbind (mcatch (rollbackPublished B ?base paths ?cand) (\<lambda>_. throw rollback_error)) (\<lambda>_. throw e))
      (atomic B goal paths \<sigma>)"
    if M: "?M (Thrown e) \<rho>" and same: "\<And>p. entry_of B (\<sigma> Source) p = entry_of B (\<sigma> Baseline) p" for e \<rho>
  proof (rule trees_mbind)
    show "trees E \<rho> (mcatch (rollbackPublished B ?base paths ?cand) (\<lambda>_. throw rollback_error))
        (\<lambda>r \<kappa>. case r of Value _ \<Rightarrow> unpublished B paths \<sigma> \<kappa> | Thrown e \<Rightarrow> e = rollback_error | Crashed \<Rightarrow> True)"
    proof (rule trees_mcatch[OF rollback_ok[OF settled]])
      show "tree_ok (\<rho> Baseline)" "tree_ok (\<rho> Source)" using M trees_ok by (auto simp: mixed_def)
      show "entry_of B (\<rho> Source) p = map_of ?base p \<or> entry_of B (\<rho> Source) p = map_of ?cand p" if "p \<in> set paths" for p
        using M same[of p] that by (auto simp: mixed_def entry_of_def)
    qed (use same in \<open>auto simp: unpublished_def entry_of_def intro!: trees_throw\<close>)
  qed (auto intro!: trees_throw simp: atomic_def)
  show ?thesis
    unfolding publish_locked_def assertSourceUnchanged_def
  proof (rule trees_mbind[where M = "\<lambda>r \<rho>. \<rho> = \<sigma> \<and> (r = Value () \<longrightarrow> changedPaths ?base (captureTree B (\<sigma> Source)) = [])"])
    show "trees E \<sigma> (mbind (capture B Source) (\<lambda>current. if changedPaths ?base current = [] then ret () else throw snapshot_error))
        (\<lambda>r \<rho>. \<rho> = \<sigma> \<and> (r = Value () \<longrightarrow> changedPaths ?base (captureTree B (\<sigma> Source)) = []))"
      by (intro trees_capture_bind[OF calm])
        (auto intro!: trees_ret trees_throw)
    fix u :: unit and \<rho>
    assume "\<rho> = \<sigma> \<and> (Value u = Value () \<longrightarrow> changedPaths ?base (captureTree B (\<sigma> Source)) = [])"
    then have \<rho>: "\<rho> = \<sigma>" and same: "\<And>p. entry_of B (\<sigma> Source) p = entry_of B (\<sigma> Baseline) p"
      by (auto simp: changedPaths_Nil fun_eq_iff entry_of_def)
    show "trees E \<rho> (mcatch (mbind (put paths) (\<lambda>_. mbind (capture B Source) (\<lambda>current.
        if changedPaths ?cand current \<noteq> [] then throw snapshot_error else ret ())))
        (\<lambda>e. mbind (mcatch (rollbackPublished B ?base paths ?cand) (\<lambda>_. throw rollback_error)) (\<lambda>_. throw e)))
        (atomic B goal paths \<sigma>)"
      unfolding \<rho> by (rule trees_mcatch[OF body]) (use same undone in \<open>auto simp: atomic_def\<close>)
  qed (auto simp: atomic_def unpublished_def)
qed

lemma locked_Value:
  assumes "trees E \<sigma> m Q"
  shows "trees E \<sigma> (locked m) (\<lambda>r \<rho>. r = Value x \<longrightarrow> Q (Value x) \<rho>)"
  unfolding locked_def
proof (rule trees_mbind[OF trees_perform[where Q = "\<lambda>r \<rho>. \<rho> = \<sigma>"]])
  show "trees E \<rho> (mfinally m (perform node_error id)) (\<lambda>r \<kappa>. r = Value x \<longrightarrow> Q (Value x) \<kappa>)" if "\<rho> = \<sigma>" for \<rho>
  proof (rule trees_mfinally)
    show "trees E \<rho> m Q" using assms that by simp
    show "trees E \<kappa> (perform node_error id) (\<lambda>s v. (case s of Value _ \<Rightarrow> r | Thrown e \<Rightarrow> Thrown e | Crashed \<Rightarrow> Crashed) = Value x \<longrightarrow> Q (Value x) v)"
      if "Q r \<kappa>" for r \<kappa> using that by (intro trees_perform) auto
  qed simp
qed auto

lemma publish_tree_publishes:
  assumes settled: "settled E paths" and trees_ok: "tree_ok (\<sigma> Source)" "tree_ok (\<sigma> Baseline)" "tree_ok (\<sigma> Isolated)"
  shows "trees E \<sigma> (publish_tree B (captureTree B (\<sigma> Baseline)) paths (stage paths) (put paths))
     (\<lambda>r \<rho>. r = Value () \<longrightarrow> published B goal paths \<sigma> \<rho>)"
  unfolding publish_tree_def
proof (rule trees_mfinally)
  note calm = settledD(1)[OF settled]
  let ?base = "captureTree B (\<sigma> Baseline)" and ?Q = "\<lambda>r \<rho>. r = Value () \<longrightarrow> published B goal paths \<sigma> \<rho>"
  show "trees E \<sigma> (mbind (copy_tree Baseline Staged) (\<lambda>_. mbind (stage paths) (\<lambda>_. mbind (capture B Staged)
      (\<lambda>candidate. locked (publish_locked B ?base paths (put paths) candidate))))) ?Q"
  proof (rule trees_mbind[where M = "\<lambda>r \<rho>. r = Value () \<longrightarrow> \<rho> = \<sigma>(Staged := \<sigma> Baseline)"])
    show "trees E \<sigma> (copy_tree Baseline Staged) (\<lambda>r \<rho>. r = Value () \<longrightarrow> \<rho> = \<sigma>(Staged := \<sigma> Baseline))"
      unfolding copy_tree_def
    proof (rule trees_mbind[OF trees_look[OF calm, where x = "\<sigma> Baseline" and Q = "\<lambda>r \<rho>. \<rho> = \<sigma> \<and> (\<forall>x. r = Value x \<longrightarrow> x = \<sigma> Baseline)"]])
      fix t \<rho> assume "\<rho> = \<sigma> \<and> (\<forall>x. Value t = Value x \<longrightarrow> x = \<sigma> Baseline)"
      then show "trees E \<rho> (if list_ex (\<lambda>e. is_special (snd e)) t then throw node_error else fs_change Staged (\<lambda>_. Some t))
          (\<lambda>r \<rho>. r = Value () \<longrightarrow> \<rho> = \<sigma>(Staged := \<sigma> Baseline))"
        by (auto intro!: trees_throw trees_fs[OF calm])
    qed auto
    fix u \<rho> assume "Value u = Value () \<longrightarrow> \<rho> = \<sigma>(Staged := \<sigma> Baseline)"
    then have \<rho>: "\<rho> = \<sigma>(Staged := \<sigma> Baseline)" by simp
    show "trees E \<rho> (mbind (stage paths) (\<lambda>_. mbind (capture B Staged)
        (\<lambda>candidate. locked (publish_locked B ?base paths (put paths) candidate)))) ?Q"
    proof (rule trees_mbind[OF stage_law[OF settled]])
      show "tree_ok (\<rho> Staged)" "tree_ok (\<rho> Isolated)" using trees_ok by (simp_all add: \<rho>)
      fix v \<kappa> assume \<kappa>: "(\<forall>x. x \<noteq> Staged \<longrightarrow> \<kappa> x = \<rho> x) \<and> tree_ok (\<kappa> Staged) \<and>
         (Value v = Value () \<longrightarrow> reached goal paths (\<rho> Isolated) (\<kappa> Staged))"
      then have same: "\<kappa> Source = \<sigma> Source" "\<kappa> Baseline = \<sigma> Baseline" "\<kappa> Isolated = \<sigma> Isolated" by (auto simp: \<rho>)
      show "trees E \<kappa> (mbind (capture B Staged) (\<lambda>candidate. locked (publish_locked B ?base paths (put paths) candidate))) ?Q"
      proof (rule trees_capture_bind[OF calm])
        have "trees E \<kappa> (publish_locked B (captureTree B (\<kappa> Baseline)) paths (put paths) (captureTree B (\<kappa> Staged))) (atomic B goal paths \<kappa>)"
          by (rule publish_locked_atomic[OF settled]) (use \<kappa> same trees_ok in \<open>auto simp: \<rho>\<close>)
        from locked_Value[OF this, of "()"]
        show "trees E \<kappa> (locked (publish_locked B ?base paths (put paths) (captureTree B (\<kappa> Staged)))) ?Q"
          unfolding same(2) by (rule trees_weaken) (simp add: same atomic_def published_def)
      qed auto
    qed auto
  qed auto
  show "trees E \<rho> (remove_tree Staged) (\<lambda>s \<kappa>. ?Q (case s of Value _ \<Rightarrow> r | Thrown e \<Rightarrow> Thrown e | Crashed \<Rightarrow> Crashed) \<kappa>)"
    if "?Q r \<rho>" for r \<rho>
    unfolding remove_tree_def by (rule trees_fs[OF calm]) (use that in \<open>auto simp: published_def\<close>)
qed simp

end

end
