(* ===== verification/MutationScope.thy ===== *)
theory MutationScope
  imports SourceTree Parsers
begin

text \<open>
  Running a worker in an isolated copy of the repository: \<open>src/src/repository/mutation-scope.ts\<close>,
  \<open>isolation-symlinks.ts\<close>, the report check of \<open>src/src/runtime/mutation-output.ts\<close>, and the other
  program that publishes into a source tree, \<open>src/src/repository/candidate-promotion-files.ts\<close>.

  The worker, the git metadata of the copy and the index of git are answers of the environment;
  the worker may leave any tree behind. Main results: whatever a worker does, whoever else
  writes to the source, and whatever fails, the run changes the source only at paths of its planned
  scope and never in \<open>.git\<close>; and both publishers keep the contract of \<open>SourceTree\<close>, so that
  publications are atomic.
\<close>

definition isolation_error :: error where "isolation_error = RepositoryIsolationError"

record isolationEnv = sourceEnv +
  ieWorker :: "nat \<Rightarrow> tree \<Rightarrow> tree \<times> string result"
  ieGit :: "nat \<Rightarrow> tree \<Rightarrow> tree option"
  ieIndex :: "tree \<Rightarrow> string option"
  ieInode :: "path \<Rightarrow> string"
  ieRoot :: "place \<Rightarrow> path"
  iePaths :: "nat \<Rightarrow> path list result"

section \<open>Identities and changes\<close>

text \<open>Folders have no identity of their own; asked for, one is a special file.\<close>

definition entryIdentityOf :: "builtins \<Rightarrow> (path \<Rightarrow> string) \<Rightarrow> path \<Rightarrow> node \<Rightarrow> sourceEntry" where
  "entryIdentityOf B inode p n =
     (case n of
        RegularFile m s \<Rightarrow> \<lparr>enKind = FileKind, enDigest = sha256_hex B s, enMode = m\<rparr>
      | SymbolicLink s \<Rightarrow> \<lparr>enKind = SymlinkKind, enDigest = sha256_hex B s, enMode = link_mode\<rparr>
      | _ \<Rightarrow> \<lparr>enKind = SpecialKind, enDigest = sha256_hex B (inode p), enMode = node_mode n\<rparr>)"

text \<open>The walk starts with the children of the root; the root itself is not listed.\<close>

definition treeIdentity :: "builtins \<Rightarrow> (path \<Rightarrow> string) \<Rightarrow> tree \<Rightarrow> snapshot" where
  "treeIdentity B inode t =
     map (\<lambda>(p, n). (p, entryIdentityOf B inode p n)) (filter (\<lambda>e. fst e \<noteq> [] \<and> \<not> is_folder (Some (snd e))) t)"


definition entryIdentity :: "builtins \<Rightarrow> place \<Rightarrow> path \<Rightarrow> ('e isolationEnv_ext sourceEnv_ext, 'w sourceWorld_ext, sourceEntry option) prog" where
  "entryIdentity B r p E w =
     mbind (stat r p) (\<lambda>found.
     case found of
       NoEntry \<Rightarrow> ret None | NotFolder \<Rightarrow> throw node_error | Found n \<Rightarrow> ret (Some (entryIdentityOf B (ieInode E) p n))) E w"



section \<open>The planned scope\<close>


definition isGitPath :: "path \<Rightarrow> bool" where
  "isGitPath p \<longleftrightarrow> path_text p = ''.git'' \<or> take 5 (path_text p) = ''.git/''"



text \<open>What a resolved symbolic link has to stay below.\<close>

fun resolve_segments :: "path \<Rightarrow> path \<Rightarrow> path" where
  "resolve_segments at [] = at"
| "resolve_segments at (s # ss) =
     (if s = [] \<or> s = ''.'' then resolve_segments at ss
      else if s = ''..'' then resolve_segments (butlast at) ss
      else resolve_segments (at @ [s]) ss)"

definition contained_link :: "path \<Rightarrow> path \<Rightarrow> string \<Rightarrow> bool" where
  "contained_link root p target =
     below root (resolve_segments (if take 1 target = ''/'' then [] else root @ butlast p) (split_on (CHR ''/'') target))"

definition assertContainedSymlink :: "place \<Rightarrow> path \<Rightarrow> ('e isolationEnv_ext sourceEnv_ext, 'w sourceWorld_ext, unit) prog" where
  "assertContainedSymlink r p E w =
     mbind (stat r p) (\<lambda>found.
     case found of
       Found (SymbolicLink target) \<Rightarrow> require (contained_link (ieRoot E r) p target) isolation_error
     | _ \<Rightarrow> throw node_error) E w"

definition assertContainedSymlinks ::
    "place \<Rightarrow> snapshot \<Rightarrow> ('e isolationEnv_ext sourceEnv_ext, 'w sourceWorld_ext, unit) prog" where
  "assertContainedSymlinks r entries =
     each (assertContainedSymlink r) (map fst (filter (\<lambda>e. enKind (snd e) = SymlinkKind) entries))"

section \<open>Publishing the changes\<close>

definition ensure_folder :: "error \<Rightarrow> place \<Rightarrow> path \<Rightarrow> ('e sourceEnv_ext, 'w sourceWorld_ext, unit) prog" where
  "ensure_folder e r q E w =
     mbind (stat r q) (\<lambda>found.
     case found of
       NoEntry \<Rightarrow> fs_change r (mkdir (seFolderMode E) q)
     | NotFolder \<Rightarrow> throw node_error
     | Found n \<Rightarrow> require (is_folder (Some n)) e) E w"

definition ensureSafeParent :: "error \<Rightarrow> place \<Rightarrow> path \<Rightarrow> ('e sourceEnv_ext, 'w sourceWorld_ext, unit) prog" where
  "ensureSafeParent e r p = each (ensure_folder e r) (proper_prefixes p)"

definition publishEntry :: "place \<Rightarrow> place \<Rightarrow> path \<Rightarrow> ('e isolationEnv_ext sourceEnv_ext, 'w sourceWorld_ext, unit) prog" where
  "publishEntry target origin p =
     mbind (stat origin p) (\<lambda>found.
     case found of
       NoEntry \<Rightarrow> fs_change target (rm_force p)
     | NotFolder \<Rightarrow> throw node_error
     | Found n \<Rightarrow>
        (case n of
           SymbolicLink _ \<Rightarrow>
             mbind (ensureSafeParent isolation_error target p) (\<lambda>_. replace_entry target p ''.pi-langgraph-'' n None (ret ()))
         | RegularFile mode _ \<Rightarrow>
             mbind (ensureSafeParent isolation_error target p) (\<lambda>_. replace_entry target p ''.pi-langgraph-'' n (Some mode) (ret ()))
         | _ \<Rightarrow> throw isolation_error))"

definition publishable_entries ::
    "builtins \<Rightarrow> place \<Rightarrow> path list \<Rightarrow> ('e isolationEnv_ext sourceEnv_ext, 'w sourceWorld_ext, snapshot) prog" where
  "publishable_entries B origin paths =
     mfold (\<lambda>p entries.
       mbind (entryIdentity B origin p) (\<lambda>entry.
       case entry of
         None \<Rightarrow> ret entries
       | Some i \<Rightarrow> if enKind i = SpecialKind then throw isolation_error else ret (entries @ [(p, i)]))) paths []"

definition assertPublishableEntries ::
    "builtins \<Rightarrow> place \<Rightarrow> path list \<Rightarrow> ('e isolationEnv_ext sourceEnv_ext, 'w sourceWorld_ext, unit) prog" where
  "assertPublishableEntries B origin paths =
     mbind (publishable_entries B origin paths) (\<lambda>entries. assertContainedSymlinks origin entries)"

definition assertTargetUnchanged ::
    "builtins \<Rightarrow> place \<Rightarrow> snapshot \<Rightarrow> path \<Rightarrow> ('e isolationEnv_ext sourceEnv_ext, 'w sourceWorld_ext, unit) prog" where
  "assertTargetUnchanged B target baseline p =
     mbind (entryIdentity B target p) (\<lambda>current. require (sameEntry (map_of baseline p) current) isolation_error)"

definition publishChanges ::
    "builtins \<Rightarrow> place \<Rightarrow> place \<Rightarrow> snapshot \<Rightarrow> path list \<Rightarrow> ('e isolationEnv_ext sourceEnv_ext, 'w sourceWorld_ext, unit) prog" where
  "publishChanges B target origin baseline changed =
     mbind (assertPublishableEntries B origin changed) (\<lambda>_.
     mbind (each (assertTargetUnchanged B target baseline) changed) (\<lambda>_.
     each (publishEntry target origin) changed))"

section \<open>A run of a worker\<close>






section \<open>The report of the worker\<close>

definition isRepositoryPath :: "string \<Rightarrow> bool" where
  "isRepositoryPath s \<longleftrightarrow> s \<noteq> [] \<and> take 1 s \<noteq> ''/'' \<and> CHR 0x5C \<notin> set s \<and> CHR 0x00 \<notin> set s \<and>
     list_all (\<lambda>segment. segment \<noteq> [] \<and> segment \<noteq> ''.'' \<and> segment \<noteq> ''..'') (split_on (CHR ''/'') s)"

definition validateMutationOutput :: "builtins \<Rightarrow> string \<Rightarrow> string list option \<Rightarrow> string \<Rightarrow> path list \<Rightarrow> unit result" where
  "validateMutationOutput B taskId allowedFiles output delta =
     (let kind = (if taskId = ''repair'' \<or> take 7 taskId = ''repair_'' then Repair else Implementation);
          files = (case allowedFiles of None \<Rightarrow> [] | Some fs \<Rightarrow> fs); changed = map path_text delta
      in sbind (parseChangeSet B output kind) (\<lambda>report.
         let reported = filesChanged report
         in sbind (check (distinct reported \<and> list_all isRepositoryPath reported) isolation_error) (\<lambda>_.
            sbind (check (''.'' \<in> set files \<or> list_all (\<lambda>f. f \<in> set files) reported) isolation_error) (\<lambda>_.
            check (list_all (\<lambda>p. p \<in> set reported) changed \<and> list_all (\<lambda>f. f \<in> set changed) reported) isolation_error))))"

section \<open>The files of a promoted candidate\<close>

definition MAX_FILE_BYTES :: nat where "MAX_FILE_BYTES = 268435456"

definition file_error :: error where "file_error = CandidatePromotionFileError"

text \<open>
  The executable bits of a mode, \<open>mode & 0o111\<close>, and the mode that a copy gets: that of a regular
  file with permissions \<open>0o644\<close> or \<open>0o755\<close>.
\<close>

definition executable_bits :: "int \<Rightarrow> int" where
  "executable_bits m = Bit_Operations.and m 73"

definition published_mode :: "int \<Rightarrow> int" where
  "published_mode m = (if executable_bits m = 0 then 33188 else 33261)"

definition fileIdentity :: "place \<Rightarrow> path \<Rightarrow> ('e sourceEnv_ext, 'w sourceWorld_ext, (int \<times> string) option) prog" where
  "fileIdentity r p =
     mbind (stat r p) (\<lambda>found.
     case found of
       NoEntry \<Rightarrow> ret None
     | NotFolder \<Rightarrow> throw node_error
     | Found n \<Rightarrow>
        (case n of
           RegularFile m s \<Rightarrow> if length s > MAX_FILE_BYTES then throw file_error else ret (Some (m, s))
         | _ \<Rightarrow> throw file_error))"

definition apply_path ::
    "place \<Rightarrow> place \<Rightarrow> (path \<Rightarrow> ('e sourceEnv_ext, 'w sourceWorld_ext, unit) prog) \<Rightarrow> path
     \<Rightarrow> ('e sourceEnv_ext, 'w sourceWorld_ext, unit) prog" where
  "apply_path target origin prior p =
     mbind (fileIdentity origin p) (\<lambda>entry.
     case entry of
       None \<Rightarrow> mbind (prior p) (\<lambda>_. fs_change target (rm_force p))
     | Some (m, s) \<Rightarrow>
         mbind (ensureSafeParent file_error target p) (\<lambda>_.
         replace_entry target p ''.pi-promote-'' (RegularFile m s) (Some (published_mode m)) (prior p)))"

definition applyDelta ::
    "place \<Rightarrow> place \<Rightarrow> path list \<Rightarrow> (path \<Rightarrow> ('e sourceEnv_ext, 'w sourceWorld_ext, unit) prog)
     \<Rightarrow> ('e sourceEnv_ext, 'w sourceWorld_ext, unit) prog" where
  "applyDelta target origin paths prior = each (apply_path target origin prior) paths"


definition repositoryPath :: "path \<Rightarrow> path result" where
  "repositoryPath p = (if \<not> isRepositoryPath (path_text p) \<or> isGitPath p then Inl file_error else Inr p)"

definition sameIdentity :: "builtins \<Rightarrow> (int \<times> string) option \<Rightarrow> (int \<times> string) option \<Rightarrow> bool" where
  "sameIdentity B l r \<longleftrightarrow> map_option (\<lambda>(_, s). sha256_hex B s) l = map_option (\<lambda>(_, s). sha256_hex B s) r \<and>
     map_option (\<lambda>(m, _). executable_bits m) l = map_option (\<lambda>(m, _). executable_bits m) r"

text \<open>The paths that git knows in the two trees are answers of the environment.\<close>

definition delta_path ::
    "builtins \<Rightarrow> place \<Rightarrow> place \<Rightarrow> path \<Rightarrow> path list \<times> nat \<Rightarrow> ('e sourceEnv_ext, 'w sourceWorld_ext, path list \<times> nat) prog" where
  "delta_path B baselineRoot candidateRoot p acc =
     mbind (fileIdentity baselineRoot p) (\<lambda>prior.
     mbind (fileIdentity candidateRoot p) (\<lambda>after.
     if sameIdentity B prior after then ret acc
     else ret (fst acc @ [p], snd acc + (case after of None \<Rightarrow> 0 | Some (_, s) \<Rightarrow> length s))))"

definition repositoryDelta ::
    "builtins \<Rightarrow> place \<Rightarrow> place \<Rightarrow> ('e isolationEnv_ext sourceEnv_ext, 'w sourceWorld_ext, path list \<times> nat) prog" where
  "repositoryDelta B baselineRoot candidateRoot =
     mbind (ask iePaths) (\<lambda>old. mbind (ask iePaths) (\<lambda>new.
     mbind (lift (traverse repositoryPath (dedup (old @ new)))) (\<lambda>paths.
     mfold (delta_path B baselineRoot candidateRoot) (sort_key path_text paths) ([], 0))))"


section \<open>Both publishers keep the contract\<close>

lemma reads_only_intros:
  "reads_only E (ret ())" "reads_only E (throw e)" "reads_only E (require b e)"
  by (auto simp: reads_only_def require_def intro!: trees_ret trees_throw)

lemma reads_only_mbind:
  "(\<And>\<sigma>. trees E \<sigma> m (\<lambda>_ \<rho>. \<rho> = \<sigma>)) \<Longrightarrow> (\<And>x. reads_only E (f x)) \<Longrightarrow> reads_only E (mbind m f)"
  unfolding reads_only_def by (auto intro!: trees_mbind[where M = "\<lambda>_ \<rho>. \<rho> = _"])

lemma reads_only_each: "(\<And>x. x \<in> set xs \<Longrightarrow> reads_only E (f x)) \<Longrightarrow> reads_only E (each f xs)"
proof (unfold reads_only_def, intro allI)
  fix \<sigma> assume a: "\<And>x. x \<in> set xs \<Longrightarrow> \<forall>\<sigma>. trees E \<sigma> (f x) (\<lambda>_ \<rho>. \<rho> = \<sigma>)"
  then have "steady E (\<lambda>\<rho>. \<rho> = \<sigma>) (each f xs)" by (intro steady_each steadyI) auto
  then show "trees E \<sigma> (each f xs) (\<lambda>_ \<rho>. \<rho> = \<sigma>)" by (rule steadyD) simp
qed

lemma stat_reads: "undisturbed E \<Longrightarrow> trees E \<sigma> (stat r p) (\<lambda>_ \<rho>. \<rho> = \<sigma>)"
  by (rule trees_stat) auto

lemma parent_beside:
  assumes settled: "settled E paths" and p: "p \<in> set paths"
  shows "steady E (beside r paths \<tau>) (ensureSafeParent e r p)"
  unfolding ensureSafeParent_def
proof (rule steady_each, rule steadyI)
  fix q \<sigma> assume q: "q \<in> set (proper_prefixes p)" and \<sigma>: "beside r paths \<tau> \<sigma>"
  note calm = settledD(1)[OF settled]
  have new: "beside r paths \<tau> (\<sigma>(r := t))" if "mkdir m q (\<sigma> r) = Some t" for m t
    using create_node_ok[of "\<sigma> r" q "Folder m" t] that \<sigma> settled_prefix[OF settled p q]
    by (intro beside_step[OF \<sigma>]) (auto simp: mkdir_create beside_def)
  have "trees E \<sigma> (mbind (stat r q) (\<lambda>found. case found of
       NoEntry \<Rightarrow> fs_change r (mkdir (seFolderMode E) q) | NotFolder \<Rightarrow> throw node_error
     | Found n \<Rightarrow> require (is_folder (Some n)) e)) (\<lambda>_. beside r paths \<tau>)"
    using \<sigma> new
    by (intro trees_stat_bind[OF calm])
      (auto split: lookup.split intro!: trees_fs[OF calm] trees_throw trees_ret simp: require_def)
  then show "trees E \<sigma> (ensure_folder e r q) (\<lambda>_. beside r paths \<tau>)"
    by (rule trees_eq[rotated]) (simp add: ensure_folder_def)
qed

lemma replaced_after_parents:
  assumes settled: "settled E paths" and p: "p \<in> set paths" and suffix: "suffix \<in> set TEMPORARY_SUFFIXES"
    and prior: "reads_only E prior" and ok: "tree_ok (\<sigma> r)"
  shows "trees E \<sigma> (mbind (ensureSafeParent e r p) (\<lambda>_. replace_entry r p suffix n mode prior))
     (advanced r paths p (Some (final_node n mode)) \<sigma>)"
proof (rule trees_mbind[where M = "\<lambda>_. beside r paths \<sigma>"])
  show "trees E \<sigma> (ensureSafeParent e r p) (\<lambda>_. beside r paths \<sigma>)"
    by (rule steadyD[OF parent_beside[OF settled p]]) (rule beside_refl, rule ok)
  show "trees E \<rho> (replace_entry r p suffix n mode prior) (advanced r paths p (Some (final_node n mode)) \<sigma>)"
    if "beside r paths \<sigma> \<rho>" for \<rho> by (rule trees_replace[OF settled p suffix prior that])
qed (auto intro: beside_advanced[OF _ p])

lemma removed_advanced:
  assumes settled: "settled E paths" and p: "p \<in> set paths" and ok: "tree_ok (\<sigma> r)"
  shows "trees E \<sigma> (fs_change r (rm_force p)) (advanced r paths p None \<sigma>)"
  by (rule trees_fs[OF settledD(1)[OF settled]]) (use ok in \<open>auto simp: advanced_def dest: rm_force_ok\<close>)

lemma publish_each:
  assumes body: "\<And>p \<sigma>. p \<in> set paths \<Longrightarrow> tree_ok (\<sigma> r) \<Longrightarrow> (\<forall>x. x \<noteq> r \<longrightarrow> \<sigma> x = \<tau> x) \<Longrightarrow>
      trees E \<sigma> (f p) (advanced r paths p (G p) \<sigma>)"
    and ok: "tree_ok (\<tau> r)"
  shows "trees E \<tau> (each f paths) (\<lambda>res \<rho>. tree_ok (\<rho> r) \<and> (\<forall>x. x \<noteq> r \<longrightarrow> \<rho> x = \<tau> x) \<and>
     (\<forall>p \<in> set paths. map_of (\<rho> r) p = map_of (\<tau> r) p \<or> map_of (\<rho> r) p = G p) \<and>
     (res = Value () \<longrightarrow> (\<forall>p \<in> set paths. map_of (\<rho> r) p = G p)))"
proof (rule trees_each[where I = "\<lambda>ys \<rho>. tree_ok (\<rho> r) \<and> (\<forall>x. x \<noteq> r \<longrightarrow> \<rho> x = \<tau> x) \<and>
     (\<forall>p \<in> set paths. map_of (\<rho> r) p = map_of (\<tau> r) p \<or> map_of (\<rho> r) p = G p) \<and>
     (\<forall>p \<in> set paths - set ys. map_of (\<rho> r) p = G p)"])
  fix p ys \<sigma> assume sub: "set (p # ys) \<subseteq> set paths"
    and I: "tree_ok (\<sigma> r) \<and> (\<forall>x. x \<noteq> r \<longrightarrow> \<sigma> x = \<tau> x) \<and>
     (\<forall>q \<in> set paths. map_of (\<sigma> r) q = map_of (\<tau> r) q \<or> map_of (\<sigma> r) q = G q) \<and>
     (\<forall>q \<in> set paths - set (p # ys). map_of (\<sigma> r) q = G q)"
  show "trees E \<sigma> (f p) (\<lambda>res \<rho>. case res of
       Value _ \<Rightarrow> tree_ok (\<rho> r) \<and> (\<forall>x. x \<noteq> r \<longrightarrow> \<rho> x = \<tau> x) \<and>
         (\<forall>p \<in> set paths. map_of (\<rho> r) p = map_of (\<tau> r) p \<or> map_of (\<rho> r) p = G p) \<and>
         (\<forall>p \<in> set paths - set ys. map_of (\<rho> r) p = G p)
     | _ \<Rightarrow> tree_ok (\<rho> r) \<and> (\<forall>x. x \<noteq> r \<longrightarrow> \<rho> x = \<tau> x) \<and>
         (\<forall>p \<in> set paths. map_of (\<rho> r) p = map_of (\<tau> r) p \<or> map_of (\<rho> r) p = G p) \<and>
         (res = Value () \<longrightarrow> (\<forall>p \<in> set paths. map_of (\<rho> r) p = G p)))"
  proof (rule trees_weaken[OF body])
    fix res \<rho> assume adv: "advanced r paths p (G p) \<sigma> res \<rho>"
    have mixed: "map_of (\<rho> r) q = map_of (\<tau> r) q \<or> map_of (\<rho> r) q = G q" if "q \<in> set paths" for q
      using adv I that by (cases "q = p") (auto simp: advanced_def)
    have "map_of (\<rho> r) q = G q" if "res = Value ()" "q \<in> set paths" "q \<notin> set ys" for q
      using adv I that by (cases "q = p") (auto simp: advanced_def)
    with mixed adv I show "case res of
       Value _ \<Rightarrow> tree_ok (\<rho> r) \<and> (\<forall>x. x \<noteq> r \<longrightarrow> \<rho> x = \<tau> x) \<and>
         (\<forall>p \<in> set paths. map_of (\<rho> r) p = map_of (\<tau> r) p \<or> map_of (\<rho> r) p = G p) \<and>
         (\<forall>p \<in> set paths - set ys. map_of (\<rho> r) p = G p)
     | _ \<Rightarrow> tree_ok (\<rho> r) \<and> (\<forall>x. x \<noteq> r \<longrightarrow> \<rho> x = \<tau> x) \<and>
         (\<forall>p \<in> set paths. map_of (\<rho> r) p = map_of (\<tau> r) p \<or> map_of (\<rho> r) p = G p) \<and>
         (res = Value () \<longrightarrow> (\<forall>p \<in> set paths. map_of (\<rho> r) p = G p))"
      by (auto simp: advanced_def split: outcome.split)
  qed (use sub I in auto)
qed (use ok in auto)


text \<open>The publisher of a worker's changes.\<close>

lemma trees_entryIdentity: "undisturbed E \<Longrightarrow> trees E \<sigma> (entryIdentity B r p) (\<lambda>_ \<rho>. \<rho> = \<sigma>)"
proof -
  assume calm: "undisturbed E"
  have "trees E \<sigma> (mbind (stat r p) (\<lambda>found. case found of
       NoEntry \<Rightarrow> ret None | NotFolder \<Rightarrow> throw node_error | Found n \<Rightarrow> ret (Some (entryIdentityOf B (ieInode E) p n))))
      (\<lambda>_ \<rho>. \<rho> = \<sigma>)"
    by (intro trees_stat_bind[OF calm]) (auto split: lookup.split intro!: trees_ret trees_throw)
  then show ?thesis by (rule trees_eq[rotated]) (simp add: entryIdentity_def)
qed

lemma trees_mfold_reads:
  assumes "\<And>x b. x \<in> set xs \<Longrightarrow> trees E \<sigma> (f x b) (\<lambda>_ \<rho>. \<rho> = \<sigma>)"
  shows "trees E \<sigma> (mfold f xs b) (\<lambda>_ \<rho>. \<rho> = \<sigma>)"
  using assms by (induction xs arbitrary: b) (auto intro!: trees_ret trees_mbind[where M = "\<lambda>_ \<rho>. \<rho> = \<sigma>"])

lemma publishable_reads: "undisturbed E \<Longrightarrow> reads_only E (assertPublishableEntries B origin paths)"
proof -
  assume calm: "undisturbed E"
  have "trees E \<sigma> (publishable_entries B origin paths) (\<lambda>_ \<rho>. \<rho> = \<sigma>)" for \<sigma>
    unfolding publishable_entries_def
    by (rule trees_mfold_reads, rule trees_mbind[OF trees_entryIdentity[OF calm]])
      (auto split: option.split intro!: trees_ret trees_throw)
  moreover have "reads_only E (assertContainedSymlink origin p)" for p
  proof (rule reads_onlyI)
    fix \<sigma>
    have "trees E \<sigma> (mbind (stat origin p) (\<lambda>found. case found of
         Found (SymbolicLink target) \<Rightarrow> require (contained_link (ieRoot E origin) p target) isolation_error
       | _ \<Rightarrow> throw node_error)) (\<lambda>_ \<rho>. \<rho> = \<sigma>)"
      by (intro trees_stat_bind[OF calm]) (auto split: lookup.split node.split intro!: trees_ret trees_throw simp: require_def)
    then show "trees E \<sigma> (assertContainedSymlink origin p) (\<lambda>_ \<rho>. \<rho> = \<sigma>)"
      by (rule trees_eq[rotated]) (simp add: assertContainedSymlink_def)
  qed
  ultimately show ?thesis
    unfolding assertPublishableEntries_def assertContainedSymlinks_def by (intro reads_only_mbind reads_only_each) auto
qed

lemma target_reads: "undisturbed E \<Longrightarrow> reads_only E (assertTargetUnchanged B target baseline p)"
  unfolding assertTargetUnchanged_def by (intro reads_only_mbind trees_entryIdentity reads_only_intros)

lemma publishEntry_ok:
  assumes settled: "settled E paths" and p: "p \<in> set paths" and ok: "tree_ok (\<sigma> target)" and origin: "tree_ok (\<sigma> origin)"
  shows "trees E \<sigma> (publishEntry target origin p) (advanced target paths p (map_of (\<sigma> origin) p) \<sigma>)"
proof -
  note calm = settledD(1)[OF settled]
  have sfx: "''.pi-langgraph-'' \<in> set TEMPORARY_SUFFIXES" by (simp add: TEMPORARY_SUFFIXES_def)
  have stop: "advanced target paths p x \<sigma> (Thrown e) \<sigma>" "advanced target paths p x \<sigma> Crashed \<sigma>" for x e
    using ok by (auto simp: advanced_def)
  have copied: "trees E \<sigma> (mbind (ensureSafeParent isolation_error target p) (\<lambda>_. replace_entry target p ''.pi-langgraph-'' n mode (ret ())))
     (advanced target paths p (Some (final_node n mode)) \<sigma>)" for n mode
    by (rule replaced_after_parents[OF settled p sfx reads_only_intros(1)]) (rule ok)
  show ?thesis
    unfolding publishEntry_def
  proof (rule trees_stat_bind[OF calm])
    show "trees E \<sigma> (case lstat (\<sigma> origin) p of
       NoEntry \<Rightarrow> fs_change target (rm_force p)
     | NotFolder \<Rightarrow> throw node_error
     | Found n \<Rightarrow>
        (case n of
           SymbolicLink _ \<Rightarrow>
             mbind (ensureSafeParent isolation_error target p) (\<lambda>_. replace_entry target p ''.pi-langgraph-'' n None (ret ()))
         | RegularFile mode _ \<Rightarrow>
             mbind (ensureSafeParent isolation_error target p) (\<lambda>_. replace_entry target p ''.pi-langgraph-'' n (Some mode) (ret ()))
         | _ \<Rightarrow> throw isolation_error)) (advanced target paths p (map_of (\<sigma> origin) p) \<sigma>)"
    proof (cases "lstat (\<sigma> origin) p")
      case NoEntry
      with removed_advanced[OF settled p, of \<sigma> target, OF ok] lstat_missing[OF origin] show ?thesis by simp
    next
      case (Found n)
      then have "map_of (\<sigma> origin) p = Some n" by (auto dest: lstat_Found)
      then show ?thesis
        using Found stop copied[of n None] copied[of n "Some (node_mode n)"]
        by (cases n) (auto intro!: trees_throw simp: final_node_def node_mode_def)
    qed (use stop in \<open>auto intro!: trees_throw\<close>)
  qed (use stop in auto)
qed

lemma publishChanges_ok:
  assumes settled: "settled E paths" and ok: "tree_ok (\<sigma> target)" and origin: "tree_ok (\<sigma> origin)" and other: "origin \<noteq> target"
  shows "trees E \<sigma> (publishChanges B target origin prior paths) (\<lambda>res \<rho>. tree_ok (\<rho> target) \<and> (\<forall>x. x \<noteq> target \<longrightarrow> \<rho> x = \<sigma> x) \<and>
     (\<forall>p \<in> set paths. map_of (\<rho> target) p = map_of (\<sigma> target) p \<or> map_of (\<rho> target) p = map_of (\<sigma> origin) p) \<and>
     (res = Value () \<longrightarrow> (\<forall>p \<in> set paths. map_of (\<rho> target) p = map_of (\<sigma> origin) p)))"
    (is "trees _ _ _ ?Q")
proof -
  note calm = settledD(1)[OF settled]
  have still: "?Q (Thrown e) \<sigma>" "?Q Crashed \<sigma>" for e using ok by auto
  have reads: "trees E \<sigma> (assertPublishableEntries B origin paths) (\<lambda>_ \<rho>. \<rho> = \<sigma>)"
    by (rule reads_onlyD[OF publishable_reads[OF calm]])
  have checks: "trees E \<sigma> (each (assertTargetUnchanged B target prior) paths) (\<lambda>_ \<rho>. \<rho> = \<sigma>)"
    by (rule reads_onlyD[OF reads_only_each[OF target_reads[OF calm]]])
  have "trees E \<sigma> (each (publishEntry target origin) paths) ?Q"
  proof (rule publish_each[where r = target and \<tau> = \<sigma> and f = "publishEntry target origin" and G = "map_of (\<sigma> origin)"])
    show "trees E \<kappa> (publishEntry target origin p) (advanced target paths p (map_of (\<sigma> origin) p) \<kappa>)"
      if "p \<in> set paths" "tree_ok (\<kappa> target)" "\<forall>x. x \<noteq> target \<longrightarrow> \<kappa> x = \<sigma> x" for p \<kappa>
      using publishEntry_ok[OF settled that(1), of \<kappa> target origin] that(2,3) origin other by simp
  qed (rule ok)
  then show ?thesis
    unfolding publishChanges_def using still
    by (auto intro!: trees_mbind[OF reads] trees_mbind[OF checks])
qed

interpretation worker_changes: publisher "publishChanges B Staged Isolated prior" "publishChanges B Source Staged prior" "\<lambda>n. n"
  for B prior
proof unfold_locales
  fix E :: "'a isolationEnv_ext sourceEnv_scheme" and paths and \<sigma> :: "place \<Rightarrow> tree"
  assume settled: "settled E paths"
  show "trees E \<sigma> (publishChanges B Staged Isolated prior paths) (\<lambda>r \<rho>. (\<forall>x. x \<noteq> Staged \<longrightarrow> \<rho> x = \<sigma> x) \<and> tree_ok (\<rho> Staged) \<and>
       (r = Value () \<longrightarrow> reached (\<lambda>n. n) paths (\<sigma> Isolated) (\<rho> Staged)))"
    if "tree_ok (\<sigma> Staged)" "tree_ok (\<sigma> Isolated)"
    by (rule trees_weaken[OF publishChanges_ok[OF settled that]]) (auto simp: reached_def option.map_ident)
  show "trees E \<sigma> (publishChanges B Source Staged prior paths)
      (\<lambda>r \<rho>. (\<forall>x. x \<noteq> Source \<longrightarrow> \<rho> x = \<sigma> x) \<and> mixed paths (\<sigma> Source) (\<sigma> Staged) (\<rho> Source))"
    if "tree_ok (\<sigma> Source)" "tree_ok (\<sigma> Staged)"
    by (rule trees_weaken[OF publishChanges_ok[OF settled that]]) (auto simp: mixed_def)
qed


text \<open>The publisher of a candidate's files: every published file has one of two modes.\<close>

definition promoted_node :: "node \<Rightarrow> node" where
  "promoted_node n = (case n of RegularFile m s \<Rightarrow> RegularFile (published_mode m) s | _ \<Rightarrow> n)"

lemma promoted_node_idem: "promoted_node (promoted_node n) = promoted_node n"
proof -
  have "executable_bits 33188 = 0" "executable_bits 33261 \<noteq> 0" by (simp_all add: executable_bits_def)
  then have "published_mode (published_mode m) = published_mode m" for m by (simp add: published_mode_def)
  then show ?thesis by (simp add: promoted_node_def split: node.split)
qed

lemma apply_path_ok:
  assumes settled: "settled E paths" and p: "p \<in> set paths" and ok: "tree_ok (\<sigma> target)" and origin: "tree_ok (\<sigma> origin)"
    and prior: "reads_only E (prior p)"
  shows "trees E \<sigma> (apply_path target origin prior p) (advanced target paths p (map_option promoted_node (map_of (\<sigma> origin) p)) \<sigma>)"
proof -
  note calm = settledD(1)[OF settled]
  let ?adv = "advanced target paths p (map_option promoted_node (map_of (\<sigma> origin) p)) \<sigma>"
  have stop: "advanced target paths p x \<sigma> (Thrown e) \<sigma>" "advanced target paths p x \<sigma> Crashed \<sigma>" for x e
    using ok by (auto simp: advanced_def)
  have copied: "trees E \<sigma> (mbind (ensureSafeParent file_error target p) (\<lambda>_. replace_entry target p ''.pi-promote-'' n mode (prior p)))
     (advanced target paths p (Some (final_node n mode)) \<sigma>)" for n mode
    by (rule replaced_after_parents[OF settled p _ prior]) (simp add: TEMPORARY_SUFFIXES_def, rule ok)
  let ?entry = "case map_of (\<sigma> origin) p of Some (RegularFile m s) \<Rightarrow> Some (m, s) | _ \<Rightarrow> None"
  have identity: "trees E \<sigma> (fileIdentity origin p) (\<lambda>res \<rho>. \<rho> = \<sigma> \<and>
      (\<forall>x. res = Value x \<longrightarrow> map_of (\<sigma> origin) p = map_option (\<lambda>(m, s). RegularFile m s) x))"
    unfolding fileIdentity_def
    by (intro trees_stat_bind[OF calm])
      (use lstat_missing[OF origin] in \<open>auto split: lookup.split node.split dest!: lstat_Found intro!: trees_ret trees_throw\<close>)
  show ?thesis
    unfolding apply_path_def
  proof (rule trees_mbind[OF identity])
    fix x \<rho> assume x: "\<rho> = \<sigma> \<and> (\<forall>y. Value x = Value y \<longrightarrow> map_of (\<sigma> origin) p = map_option (\<lambda>(m, s). RegularFile m s) y)"
    show "trees E \<rho> (case x of
         None \<Rightarrow> mbind (prior p) (\<lambda>_. fs_change target (rm_force p))
       | Some (m, s) \<Rightarrow> mbind (ensureSafeParent file_error target p)
           (\<lambda>_. replace_entry target p ''.pi-promote-'' (RegularFile m s) (Some (published_mode m)) (prior p))) ?adv"
    proof (cases x)
      case None
      have "trees E \<sigma> (fs_change target (rm_force p)) (advanced target paths p None \<sigma>)"
        by (rule removed_advanced[OF settled p]) (rule ok)
      with None x stop show ?thesis by (auto intro!: trees_mbind[OF reads_onlyD[OF prior]])
    next
      case (Some c)
      obtain m s where c: "c = (m, s)" by force
      have "promoted_node (RegularFile m s) = final_node (RegularFile m s) (Some (published_mode m))"
        by (simp add: promoted_node_def final_node_def)
      with Some c x copied[of "RegularFile m s" "Some (published_mode m)"] show ?thesis by simp
    qed
  qed (use stop in auto)
qed

lemma applyDelta_ok:
  assumes settled: "settled E paths" and ok: "tree_ok (\<sigma> target)" and origin: "tree_ok (\<sigma> origin)" and other: "origin \<noteq> target"
    and prior: "\<And>p. reads_only E (prior p)"
  shows "trees E \<sigma> (applyDelta target origin paths prior) (\<lambda>res \<rho>. tree_ok (\<rho> target) \<and> (\<forall>x. x \<noteq> target \<longrightarrow> \<rho> x = \<sigma> x) \<and>
     (\<forall>p \<in> set paths. map_of (\<rho> target) p = map_of (\<sigma> target) p \<or>
        map_of (\<rho> target) p = map_option promoted_node (map_of (\<sigma> origin) p)) \<and>
     (res = Value () \<longrightarrow> (\<forall>p \<in> set paths. map_of (\<rho> target) p = map_option promoted_node (map_of (\<sigma> origin) p))))"
  unfolding applyDelta_def
proof (rule publish_each[where r = target and \<tau> = \<sigma> and f = "apply_path target origin prior"
      and G = "\<lambda>p. map_option promoted_node (map_of (\<sigma> origin) p)"])
  show "trees E \<kappa> (apply_path target origin prior p) (advanced target paths p (map_option promoted_node (map_of (\<sigma> origin) p)) \<kappa>)"
    if "p \<in> set paths" "tree_ok (\<kappa> target)" "\<forall>x. x \<noteq> target \<longrightarrow> \<kappa> x = \<sigma> x" for p \<kappa>
    using apply_path_ok[where \<sigma> = \<kappa> and target = target and origin = origin, OF settled that(1) _ _ prior] that(2,3) origin other by simp
qed (rule ok)

definition candidate_hook :: "builtins \<Rightarrow> snapshot \<Rightarrow> path \<Rightarrow> ('e sourceEnv_ext, 'w sourceWorld_ext, unit) prog" where
  "candidate_hook B baseline p = assertPathUnchanged B baseline p (CandidatePromotionError promotion_code.SourceChanged)"

lemma candidate_hook_reads: "undisturbed E \<Longrightarrow> reads_only E (candidate_hook B baseline p)"
proof -
  assume calm: "undisturbed E"
  have "trees E \<sigma> (optionalSourceEntry B p) (\<lambda>_ \<rho>. \<rho> = \<sigma>)" for \<sigma>
    unfolding optionalSourceEntry_def
    by (intro trees_stat_bind[OF calm]) (auto split: lookup.split intro!: trees_ret trees_throw)
  then show ?thesis
    unfolding candidate_hook_def assertPathUnchanged_def by (intro reads_only_mbind) (auto intro: reads_only_intros)
qed

interpretation candidate_files: publisher
    "\<lambda>paths. applyDelta Staged Isolated paths (\<lambda>_. ret ())"
    "\<lambda>paths. applyDelta Source Staged paths (candidate_hook B baseline)" promoted_node
  for B baseline
proof unfold_locales
  fix E :: "'a sourceEnv_scheme" and paths and \<sigma> :: "place \<Rightarrow> tree"
  assume settled: "settled E paths"
  show "trees E \<sigma> (applyDelta Staged Isolated paths (\<lambda>_. ret ())) (\<lambda>r \<rho>. (\<forall>x. x \<noteq> Staged \<longrightarrow> \<rho> x = \<sigma> x) \<and> tree_ok (\<rho> Staged) \<and>
       (r = Value () \<longrightarrow> reached promoted_node paths (\<sigma> Isolated) (\<rho> Staged)))"
    if "tree_ok (\<sigma> Staged)" "tree_ok (\<sigma> Isolated)"
    by (rule trees_weaken[OF applyDelta_ok[OF settled that _ reads_only_intros(1)]]) (auto simp: reached_def)
  show "trees E \<sigma> (applyDelta Source Staged paths (candidate_hook B baseline))
      (\<lambda>r \<rho>. (\<forall>x. x \<noteq> Source \<longrightarrow> \<rho> x = \<sigma> x) \<and> mixed paths (\<sigma> Source) (\<sigma> Staged) (\<rho> Source))"
    if "tree_ok (\<sigma> Source)" "tree_ok (\<sigma> Staged)" and reached: "reached promoted_node paths (\<sigma> Isolated) (\<sigma> Staged)"
  proof (rule trees_weaken[OF applyDelta_ok[OF settled that(1,2) _ candidate_hook_reads[OF settledD(1)[OF settled]]]])
    have "map_option promoted_node (map_of (\<sigma> Staged) p) = map_of (\<sigma> Staged) p" if "p \<in> set paths" for p
      using reached that promoted_node_idem by (cases "map_of (\<sigma> Isolated) p") (auto simp: reached_def)
    then show "(\<forall>x. x \<noteq> Source \<longrightarrow> \<rho> x = \<sigma> x) \<and> mixed paths (\<sigma> Source) (\<sigma> Staged) (\<rho> Source)"
      if "tree_ok (\<rho> Source) \<and> (\<forall>x. x \<noteq> Source \<longrightarrow> \<rho> x = \<sigma> x) \<and>
        (\<forall>p \<in> set paths. map_of (\<rho> Source) p = map_of (\<sigma> Source) p \<or>
          map_of (\<rho> Source) p = map_option promoted_node (map_of (\<sigma> Staged) p)) \<and>
        (r = Value () \<longrightarrow> (\<forall>p \<in> set paths. map_of (\<rho> Source) p = map_option promoted_node (map_of (\<sigma> Staged) p)))" for r \<rho>
      using that by (auto simp: mixed_def)
  qed simp
qed


text \<open>
  A worker that replaces a folder by a file of the same name is always refused: the folder in the
  target counts as a special file that the identity of the tree does not have.
\<close>

lemma folder_replacement_refused:
  assumes calm: "undisturbed E" and p: "p \<in> set changed" "map_of prior p = None"
    and folder: "map_of (\<sigma> target) p = Some (Folder m)" "tree_ok (\<sigma> target)"
  shows "trees E \<sigma> (publishChanges B target origin prior changed) (\<lambda>r \<rho>. r \<noteq> Value () \<and> \<rho> = \<sigma>)"
proof -
  have found: "lstat (\<sigma> target) p = Found (Folder m)" by (rule lstat_entry[OF folder(2,1)])
  have refused: "trees E \<sigma> (assertTargetUnchanged B target prior p) (\<lambda>r \<rho>. r \<noteq> Value () \<and> \<rho> = \<sigma>)"
  proof -
    have "trees E \<sigma> (mbind (mbind (stat target p) (\<lambda>found. case found of
         NoEntry \<Rightarrow> ret None | NotFolder \<Rightarrow> throw node_error | Found n \<Rightarrow> ret (Some (entryIdentityOf B (ieInode E) p n))))
       (\<lambda>current. require (sameEntry (map_of prior p) current) isolation_error)) (\<lambda>r \<rho>. r \<noteq> Value () \<and> \<rho> = \<sigma>)"
      by (rule trees_mbind[where M = "\<lambda>r \<rho>. \<rho> = \<sigma> \<and> (\<forall>x. r = Value x \<longrightarrow> x \<noteq> None)"])
        (auto intro!: trees_stat_bind[OF calm] trees_ret trees_throw simp: found p(2) require_def)
    then show ?thesis
      by (rule trees_eq[rotated]) (simp add: assertTargetUnchanged_def mbind_def entryIdentity_def)
  qed
  have "trees E \<sigma> (each (assertTargetUnchanged B target prior) changed) (\<lambda>r \<rho>. r \<noteq> Value () \<and> \<rho> = \<sigma>)"
  proof (rule trees_each[where I = "\<lambda>ys \<rho>. \<rho> = \<sigma> \<and> p \<in> set ys"])
    show "trees E \<rho> (assertTargetUnchanged B target prior x)
        (\<lambda>r \<kappa>. case r of Value _ \<Rightarrow> \<kappa> = \<sigma> \<and> p \<in> set ys | _ \<Rightarrow> r \<noteq> Value () \<and> \<kappa> = \<sigma>)"
      if "\<rho> = \<sigma> \<and> p \<in> set (x # ys)" for x ys \<rho>
    proof (cases "x = p")
      case True
      with refused that show ?thesis by (auto elim!: trees_weaken split: outcome.split)
    next
      case False
      have "trees E \<sigma> (assertTargetUnchanged B target prior x) (\<lambda>_ \<rho>. \<rho> = \<sigma>)" by (rule reads_onlyD[OF target_reads[OF calm]])
      with False that show ?thesis by (auto elim!: trees_weaken split: outcome.split)
    qed
  qed (use p(1) in auto)
  then show ?thesis
    unfolding publishChanges_def
    by (intro trees_mbind[OF reads_onlyD[OF publishable_reads[OF calm]]] trees_mbind[where M = "\<lambda>r \<rho>. r \<noteq> Value () \<and> \<rho> = \<sigma>"]) auto
qed

section \<open>Writes stay in the planned scope\<close>

text \<open>
  Publishing a path touches the path and what is below it, creates or removes folders on the way
  to it, and uses temporary files beside it with a fresh name (\<open>U\<close> are the fresh identifiers).
  Whatever others do in between, each logged write changes only such places: \<open>x\<close> is the entry at \<open>q\<close>
  before the write and \<open>y\<close> the one after it.
\<close>

definition folder_step :: "node option \<Rightarrow> node option \<Rightarrow> bool" where
  "folder_step x y \<longleftrightarrow> x = None \<and> is_folder y \<or> is_folder x \<and> y = None"

definition near :: "string set \<Rightarrow> path \<Rightarrow> path \<Rightarrow> node option \<Rightarrow> node option \<Rightarrow> bool" where
  "near U c q x y \<longleftrightarrow> below c q \<or> q \<in> set (proper_prefixes c) \<and> folder_step x y \<or>
     (\<exists>suffix \<in> set TEMPORARY_SUFFIXES. \<exists>uuid \<in> U. q = temporary c suffix uuid)"

definition confined :: "string set \<Rightarrow> path set \<Rightarrow> tree \<Rightarrow> tree \<Rightarrow> bool" where
  "confined U C t t' \<longleftrightarrow> (\<forall>q. map_of t q \<noteq> map_of t' q \<longrightarrow> (\<exists>c \<in> C. near U c q (map_of t q) (map_of t' q)))"

definition logged :: "'e sourceEnv_scheme \<Rightarrow> path set \<Rightarrow> 'w sourceWorld_scheme \<Rightarrow> bool" where
  "logged E C w \<longleftrightarrow> (\<forall>e \<in> set (swLog w). confined (range (seUuid E)) C (fst e) (snd e))"









lemma confined_same: "confined U C t t"
  by (simp add: confined_def)









lemma logged_simps [simp]: "logged E C (elapse w) = logged E C w" "logged E C (meddle F w) = logged E C w"
  by (simp_all add: logged_def elapse_def meddle_def)









































text \<open>
  Claim C24 (publication_is_atomic). A publication that nobody disturbs is all or nothing on the
  changed paths: unless the process dies or the roll-back itself reports a failure, every
  changed path of the source has its old entry again, or every one has the entry of the
  worker's tree; when it returns normally, the latter.
\<close>

theorem publication_is_atomic:
  assumes run: "publish_locked B (captureTree B (swTree w Baseline)) paths
      (publishChanges B Source Staged prior paths) (captureTree B (swTree w Staged)) E w = (r, w')"
    and settled: "settled E paths"
    and trees_ok: "tree_ok (swTree w Source)" "tree_ok (swTree w Staged)" "tree_ok (swTree w Baseline)"
    and staged: "\<forall>p \<in> set paths. map_of (swTree w Staged) p = map_of (swTree w Isolated) p"
    and ends: "r \<noteq> Crashed" "r \<noteq> Thrown rollback_error"
  shows "(r \<noteq> Value () \<and> (\<forall>p \<in> set paths. entry_of B (swTree w' Source) p = entry_of B (swTree w Source) p)) \<or>
    (\<forall>p \<in> set paths. entry_of B (swTree w' Source) p = entry_of B (swTree w Isolated) p)"
proof -
  have "reached (\<lambda>n. n) paths (swTree w Isolated) (swTree w Staged)" using staged by (simp add: reached_def option.map_ident)
  from treesD[OF worker_changes.publish_locked_atomic[OF settled trees_ok this] refl] run
  have "atomic B (\<lambda>n. n) paths (swTree w) r (swTree w')" by (metis fst_conv snd_conv)
  with ends show ?thesis
    by (cases r) (auto simp: atomic_def unpublished_def published_def option.map_ident entry_of_def)
qed


section \<open>Examples\<close>

definition plain_builtins :: builtins where
  "plain_builtins = \<lparr>json_parse = (\<lambda>_. None), json_stringify = (\<lambda>_. []), sha256_hex = (\<lambda>s. s), locale_compare = (\<lambda>_ _. 0)\<rparr>"

definition sample_source :: tree where
  "sample_source = [([''a''], RegularFile 33188 ''old'')]"

definition sample_isolation_env :: "(nat \<Rightarrow> fate) \<Rightarrow> isolationEnv" where
  "sample_isolation_env fate = \<lparr>enFate = fate, seOthers = (\<lambda>_ t. t), seUuid = (\<lambda>_. ''u''), seFolderMode = 16877,
     ieWorker = (\<lambda>_ t. ([([''a''], RegularFile 33188 ''new'')], Inr ''done'')), ieGit = (\<lambda>_ t. Some t), ieIndex = (\<lambda>_. None),
     ieInode = (\<lambda>_. []), ieRoot = (\<lambda>_. [''r'']), iePaths = (\<lambda>_. Inr [])\<rparr>"

definition sample_source_world :: sourceWorld where
  "sample_source_world = \<lparr>tick = 0, swTree = (\<lambda>_. sample_source), swLog = []\<rparr>"


definition sample_changed :: tree where
  "sample_changed = [([''a''], RegularFile 33188 ''new'')]"

definition sample_identity :: snapshot where
  "sample_identity = treeIdentity plain_builtins (\<lambda>_. []) sample_source"

definition sample_staged_world :: sourceWorld where
  "sample_staged_world = sample_source_world\<lparr>swTree := (\<lambda>r. if r = Isolated \<or> r = Staged then sample_changed else sample_source)\<rparr>"

lemma sample_settled: "settled (sample_isolation_env fate) [[''a'']]"
  by (simp add: settled_def undisturbed_def sample_isolation_env_def TEMPORARY_SUFFIXES_def temporary_def)

lemma sample_trees_ok: "tree_ok sample_source" "tree_ok sample_changed"
  by (auto simp: tree_ok_def sample_source_def sample_changed_def parents_ok_def proper_prefixes_def split: if_splits)

lemmas place_steps = publish_locked_def publish_tree_def publishChanges_def assertPublishableEntries_def publishable_entries_def
  assertContainedSymlinks_def assertTargetUnchanged_def publishEntry_def entryIdentity_def ensureSafeParent_def replace_entry_def
  assertSourceUnchanged_def capture_def stat_def look_def fs_change_def fresh_uuid_def meddle_def set_tree_def copy_tree_def remove_tree_def locked_def
  each_def mfold.simps
  mbind_def mcatch_def mfinally_def perform_def observe_def ask_def ret_def throw_def lift_def require_def mwhen_def elapse_def Let_def

lemmas tree_steps = lstat_def proper_prefixes_def rm_force_def rm_recursive_def create_node_def chmod_def rename_over_def put_node_def drop_node_def parents_ok_def
  temporary_def captureTree_def sourceEntryOf_def entryIdentityOf_def changedPaths_def sameEntry_def dedup_def path_text_def
  minimalPaths_def createdParents_def below_def treeIdentity_def is_special_def link_mode_def graft_def sample_identity_def is_folder_def


lemmas rollback_steps = rollbackPublished_def restorePaths_def cleanupCreatedParents_def copy_back_def

lemmas samples = sample_staged_world_def sample_source_world_def sample_isolation_env_def sample_source_def sample_changed_def plain_builtins_def



lemma sample_publication:
  "fst (publish_locked plain_builtins (captureTree plain_builtins sample_source) [[''a'']]
     (publishChanges plain_builtins Source Staged sample_identity [[''a'']]) (captureTree plain_builtins sample_changed)
     (sample_isolation_env (\<lambda>_. Happens)) sample_staged_world) = Value ()"
  by (simp add: place_steps tree_steps samples)

theorem publication_is_atomic_witness:
  "\<exists>w'. entry_of plain_builtins (swTree (w' :: sourceWorld) Source) [''a''] = entry_of plain_builtins sample_changed [''a'']"
proof -
  let ?E = "sample_isolation_env (\<lambda>_. Happens)"
  let ?run = "publish_locked plain_builtins (captureTree plain_builtins (swTree sample_staged_world Baseline)) [[''a'']]
     (publishChanges plain_builtins Source Staged sample_identity [[''a'']])
     (captureTree plain_builtins (swTree sample_staged_world Staged)) ?E sample_staged_world"
  have places: "swTree sample_staged_world Source = sample_source" "swTree sample_staged_world Baseline = sample_source"
      "swTree sample_staged_world Staged = sample_changed" "swTree sample_staged_world Isolated = sample_changed"
    by (simp_all add: sample_staged_world_def)
  have run: "?run = (Value (), snd ?run)" using sample_publication by (simp add: places prod_eq_iff)
  from publication_is_atomic[OF run sample_settled] show ?thesis
    by (auto simp: places sample_trees_ok)
qed

text \<open>
  Claim C32 (lost_rollback_is_masked). That a roll-back failed can be lost: when the removal of the staged copy fails
  too, its error replaces the report of the failed roll-back, and the caller sees an ordinary
  input/output error although the source has neither its old file nor the new one.
\<close>

theorem lost_rollback_is_masked:
  "\<exists>(E :: isolationEnv) (w :: sourceWorld) w'. settled E [[''a'']] \<and>
     publish_tree plain_builtins (captureTree plain_builtins (swTree w Baseline)) [[''a'']]
       (publishChanges plain_builtins Staged Isolated sample_identity [[''a'']])
       (publishChanges plain_builtins Source Staged sample_identity [[''a'']]) E w = (Thrown node_error, w') \<and>
     map_of (swTree w Source) [''a''] = Some (RegularFile 33188 ''old'') \<and>
     map_of (swTree w Isolated) [''a''] = Some (RegularFile 33188 ''new'') \<and> map_of (swTree w' Source) [''a''] = None"
proof -
  let ?E = "sample_isolation_env (\<lambda>k. if k \<in> {19, 22, 24} then FailsBefore else Happens)"
  let ?run = "publish_tree plain_builtins (captureTree plain_builtins sample_source) [[''a'']]
       (publishChanges plain_builtins Staged Isolated sample_identity [[''a'']])
       (publishChanges plain_builtins Source Staged sample_identity [[''a'']]) ?E sample_staged_world"
  have "fst ?run = Thrown node_error \<and> map_of (swTree (snd ?run) Source) [''a''] = None"
    by (simp add: rollback_steps place_steps tree_steps samples)
  moreover have places: "swTree sample_staged_world Source = sample_source" "swTree sample_staged_world Baseline = sample_source"
      "swTree sample_staged_world Isolated = sample_changed"
    by (simp_all add: sample_staged_world_def)
  ultimately show ?thesis
    by (intro exI[of _ ?E] exI[of _ sample_staged_world] exI[of _ "snd ?run"])
      (simp add: sample_settled places sample_source_def sample_changed_def prod_eq_iff)
qed

end
