(* ===== verification/ThreadFile.thy ===== *)
theory ThreadFile
  imports Replay MutationJournal JsonText "HOL-Library.AList"
begin

text \<open>
  The file of a thread: \<open>src/src/persistence/file-checkpoint-format.ts\<close> (layout, bounds, base64),
  \<open>file-checkpoint-validation.ts\<close>, \<open>checkpoint-memory-snapshot.ts\<close> and
  \<open>checkpoint-thread-codec.ts\<close>, which writes the part of the saver's memory that belongs to a
  thread and reads it back through the validators. The memory is that of the LangGraph package's
  saver, with its two tables; its deserializer \<open>loadsTyped\<close> is an argument.

  Main result: what a process writes is accepted by the reader exactly when it keeps the reader's
  bounds, and what is accepted and hydrated is the memory of the thread as it was.
\<close>

section \<open>Base64\<close>

definition b64_alphabet :: string where
  "b64_alphabet = ''ABCDEFGHIJKLMNOPQRSTUVWXYZabcdefghijklmnopqrstuvwxyz0123456789+/''"

definition b64_digit :: "nat \<Rightarrow> char" where "b64_digit n = b64_alphabet ! n"

definition b64_value :: "char \<Rightarrow> nat" where "b64_value c = length (takeWhile (\<lambda>d. d \<noteq> c) b64_alphabet)"

definition is_b64 :: "char \<Rightarrow> bool" where "is_b64 c \<longleftrightarrow> c \<in> set b64_alphabet"

definition byte :: "nat \<Rightarrow> char" where "byte n = char_of n"

fun base64 :: "string \<Rightarrow> string" where
  "base64 [] = []"
| "base64 [a] = [b64_digit (code a div 4), b64_digit (code a mod 4 * 16), CHR ''='', CHR ''='']"
| "base64 [a, b] = [b64_digit (code a div 4), b64_digit (code a mod 4 * 16 + code b div 16), b64_digit (code b mod 16 * 4), CHR ''='']"
| "base64 (a # b # c # r) =
     b64_digit (code a div 4) # b64_digit (code a mod 4 * 16 + code b div 16) #
     b64_digit (code b mod 16 * 4 + code c div 64) # b64_digit (code c mod 64) # base64 r"

fun base64_shape :: "string \<Rightarrow> bool" where
  "base64_shape [] = True"
| "base64_shape [x, y, z, w] =
     (is_b64 x \<and> is_b64 y \<and> (is_b64 z \<and> (is_b64 w \<or> w = CHR ''='') \<or> z = CHR ''='' \<and> w = CHR ''=''))"
| "base64_shape (x # y # z # w # r) = (is_b64 x \<and> is_b64 y \<and> is_b64 z \<and> is_b64 w \<and> base64_shape r)"
| "base64_shape _ = False"

definition b64_group :: "char \<Rightarrow> char \<Rightarrow> char \<Rightarrow> char \<Rightarrow> string" where
  "b64_group x y z w =
     byte (b64_value x * 4 + b64_value y div 16) #
     (if z = CHR ''='' then []
      else byte (b64_value y mod 16 * 16 + b64_value z div 4) #
        (if w = CHR ''='' then [] else [byte (b64_value z mod 4 * 64 + b64_value w)]))"

fun base64_bytes :: "string \<Rightarrow> string" where
  "base64_bytes (x # y # z # w # r) = b64_group x y z w @ base64_bytes r"
| "base64_bytes _ = []"

definition MAX_CHECKPOINT_FILE_BYTES :: nat where "MAX_CHECKPOINT_FILE_BYTES = 8388608"
definition MAX_NAMESPACES :: nat where "MAX_NAMESPACES = 64"
definition MAX_CHECKPOINTS_PER_NAMESPACE :: nat where "MAX_CHECKPOINTS_PER_NAMESPACE = 256"
definition MAX_TOTAL_CHECKPOINTS :: nat where "MAX_TOTAL_CHECKPOINTS = 2048"
definition MAX_WRITE_BUCKETS :: nat where "MAX_WRITE_BUCKETS = 2048"
definition MAX_WRITES_PER_BUCKET :: nat where "MAX_WRITES_PER_BUCKET = 256"
definition MAX_STORAGE_KEY_LENGTH :: nat where "MAX_STORAGE_KEY_LENGTH = 2048"

definition thread_error :: error where "thread_error = PlainError ''checkpoint file''"

definition encode_bytes :: "string \<Rightarrow> string" where "encode_bytes s = base64 s"

definition decode_bytes :: "string \<Rightarrow> string result" where
  "decode_bytes s =
     (if length s > MAX_CHECKPOINT_FILE_BYTES \<or> \<not> base64_shape s then Inl thread_error
      else if base64 (base64_bytes s) \<noteq> s then Inl thread_error
      else Inr (base64_bytes s))"

section \<open>The serialized thread\<close>

type_synonym storedCheckpoint = "string \<times> string \<times> string option"

record writeEntry =
  weKey :: string
  weTaskId :: string
  weChannel :: string
  weValue :: string

record serializedThread =
  ftThreadId :: string
  ftStorage :: "(string \<times> (string \<times> storedCheckpoint) list) list"
  ftWrites :: "(string \<times> writeEntry list) list"
  ftMutations :: entries

definition boundedEntries :: "js \<Rightarrow> nat \<Rightarrow> (string \<times> js) list result" where
  "boundedEntries v n = (case v of JObj kvs \<Rightarrow> if n < length kvs then Inl thread_error else Inr kvs | _ \<Rightarrow> Inl thread_error)"

definition hasOnlyFields :: "js \<Rightarrow> string list \<Rightarrow> bool" where
  "hasOnlyFields v fs = list_all (\<lambda>k. k \<in> set fs) (keys_of v)"

definition validateStorageKey :: "string \<Rightarrow> unit result" where
  "validateStorageKey k = check (length k \<le> MAX_STORAGE_KEY_LENGTH) thread_error"

definition bounded_string :: "js \<Rightarrow> nat \<Rightarrow> string result" where
  "bounded_string v n = (case v of JStr s \<Rightarrow> if n < length s then Inl thread_error else Inr s | _ \<Rightarrow> Inl thread_error)"

definition THREAD_ID :: "string \<Rightarrow> bool" where
  "THREAD_ID = lexical is_alnum_char (\<lambda>c. is_alnum_char c \<or> c = CHR ''.'' \<or> c = CHR ''_'' \<or> c = CHR ''-'') 127"

definition validateThreadId :: "string \<Rightarrow> unit result" where
  "validateThreadId t = check (THREAD_ID t) thread_error"

definition decimal_text :: "string \<Rightarrow> bool" where
  "decimal_text s \<longleftrightarrow> s = ''0'' \<or> s \<noteq> [] \<and> list_all is_digit_char s \<and> hd s \<noteq> CHR ''0''"

definition decimal_value :: "string \<Rightarrow> int" where
  "decimal_value s = int (foldl (\<lambda>a c. 10 * a + (code c - 48)) 0 s)"

definition isMutationKey :: "string \<Rightarrow> bool" where
  "isMutationKey s \<longleftrightarrow> length s \<le> 96 \<and>
     (case split_on (CHR '':'') s of
        [kind, attempt] \<Rightarrow>
          (kind = ''implement'' \<or> kind = ''repair'') \<and> decimal_text attempt \<and> decimal_value attempt \<le> max_safe_integer
      | [v, digest, kind, attempt] \<Rightarrow>
          v = ''v3'' \<and> hex_text 64 digest \<and> (kind = ''implement'' \<or> kind = ''repair'') \<and> decimal_text attempt \<and>
          decimal_value attempt \<le> max_safe_integer
      | _ \<Rightarrow> False)"

definition parse_mutation :: "string \<times> js \<Rightarrow> (string \<times> mutationEntry) result" where
  "parse_mutation m =
     (if \<not> isMutationKey (fst m) \<or> \<not> is_record (snd m) then Inl thread_error
      else if jget (snd m) ''status'' = JStr ''started'' \<and> hasOnlyFields (snd m) [''status''] then Inr (fst m, EntryStarted)
      else if jget (snd m) ''status'' = JStr ''completed'' \<and> hasOnlyFields (snd m) [''status'', ''output'']
      then sbind (bounded_string (jget (snd m) ''output'') MAX_CHECKPOINT_FILE_BYTES) (\<lambda>out. Inr (fst m, EntryCompleted out))
      else Inl thread_error)"

definition parseMutations :: "js \<Rightarrow> entries result" where
  "parseMutations v = sbind (boundedEntries v 64) (traverse parse_mutation)"

definition parse_checkpoint_entry :: "js \<Rightarrow> storedCheckpoint result" where
  "parse_checkpoint_entry v =
     (if \<not> is_record v \<or> \<not> hasOnlyFields v [''checkpoint'', ''metadata'', ''parentCheckpointId''] then Inl thread_error
      else
      sbind (bounded_string (jget v ''checkpoint'') MAX_CHECKPOINT_FILE_BYTES) (\<lambda>c.
      sbind (bounded_string (jget v ''metadata'') MAX_CHECKPOINT_FILE_BYTES) (\<lambda>m.
      case jget v ''parentCheckpointId'' of
        JUndef \<Rightarrow> Inr (c, m, None)
      | JStr p \<Rightarrow> sbind (validateStorageKey p) (\<lambda>_. Inr (c, m, Some p))
      | _ \<Rightarrow> Inl thread_error)))"

fun parse_checkpoints :: "nat \<Rightarrow> (string \<times> js) list \<Rightarrow> (nat \<times> (string \<times> storedCheckpoint) list) result" where
  "parse_checkpoints seen [] = Inr (seen, [])"
| "parse_checkpoints seen ((k, v) # kvs) =
     (if MAX_TOTAL_CHECKPOINTS < Suc seen then Inl thread_error
      else
      sbind (validateStorageKey k) (\<lambda>_.
      sbind (parse_checkpoint_entry v) (\<lambda>c.
      sbind (parse_checkpoints (Suc seen) kvs) (\<lambda>(n, cs). Inr (n, (k, c) # cs)))))"

fun parse_namespaces :: "nat \<Rightarrow> (string \<times> js) list \<Rightarrow> (string \<times> (string \<times> storedCheckpoint) list) list result" where
  "parse_namespaces seen [] = Inr []"
| "parse_namespaces seen ((k, v) # kvs) =
     sbind (validateStorageKey k) (\<lambda>_.
     sbind (boundedEntries v MAX_CHECKPOINTS_PER_NAMESPACE) (\<lambda>es.
     sbind (parse_checkpoints seen es) (\<lambda>(n, cs).
     sbind (parse_namespaces n kvs) (\<lambda>ns. Inr ((k, cs) # ns)))))"

definition parseStorage :: "js \<Rightarrow> (string \<times> (string \<times> storedCheckpoint) list) list result" where
  "parseStorage v = sbind (boundedEntries v MAX_NAMESPACES) (parse_namespaces 0)"

definition parse_write :: "js \<Rightarrow> writeEntry result" where
  "parse_write v =
     (if \<not> is_record v \<or> \<not> hasOnlyFields v [''key'', ''taskId'', ''channel'', ''value''] then Inl thread_error
      else
      sbind (bounded_string (jget v ''key'') MAX_STORAGE_KEY_LENGTH) (\<lambda>k.
      sbind (bounded_string (jget v ''taskId'') MAX_STORAGE_KEY_LENGTH) (\<lambda>t.
      sbind (bounded_string (jget v ''channel'') MAX_STORAGE_KEY_LENGTH) (\<lambda>c.
      sbind (bounded_string (jget v ''value'') MAX_CHECKPOINT_FILE_BYTES) (\<lambda>x.
      Inr \<lparr>weKey = k, weTaskId = t, weChannel = c, weValue = x\<rparr>)))))"

definition parse_bucket :: "string \<times> js \<Rightarrow> (string \<times> writeEntry list) result" where
  "parse_bucket b =
     (if MAX_STORAGE_KEY_LENGTH < length (fst b) then Inl thread_error
      else case snd b of
        JArr xs \<Rightarrow>
          if MAX_WRITES_PER_BUCKET < length xs then Inl thread_error
          else sbind (traverse parse_write xs) (\<lambda>ws. Inr (fst b, ws))
      | _ \<Rightarrow> Inl thread_error)"

definition parseWrites :: "js \<Rightarrow> (string \<times> writeEntry list) list result" where
  "parseWrites v = sbind (boundedEntries v MAX_WRITE_BUCKETS) (traverse parse_bucket)"

definition parseSerializedThread :: "builtins \<Rightarrow> string \<Rightarrow> (int \<times> serializedThread) result" where
  "parseSerializedThread B raw =
     (case json_parse B raw of
        None \<Rightarrow> Inl thread_error
      | Some v \<Rightarrow>
          (case (jget v ''version'', jget v ''threadId'') of
             (JNum (NInt n), JStr t) \<Rightarrow>
               if \<not> is_record v \<or> n \<notin> {1, 2, 3} then Inl thread_error
               else if \<not> hasOnlyFields v ([''version'', ''threadId'', ''storage'', ''writes''] @ (if n = 1 then [] else [''mutations'']))
               then Inl thread_error
               else
               sbind (validateThreadId t) (\<lambda>_.
               sbind (parseStorage (jget v ''storage'')) (\<lambda>storage.
               sbind (parseWrites (jget v ''writes'')) (\<lambda>writes.
               sbind (if n = 1 then Inr [] else parseMutations (jget v ''mutations'')) (\<lambda>mutations.
               Inr (n, \<lparr>ftThreadId = t, ftStorage = storage, ftWrites = writes, ftMutations = mutations\<rparr>)))))
           | _ \<Rightarrow> Inl thread_error))"

definition parseWriteBucketKey :: "builtins \<Rightarrow> string \<Rightarrow> (string \<times> string \<times> string) result" where
  "parseWriteBucketKey B key =
     (case json_parse B key of
        Some (JArr [JStr t, JStr n, JStr c]) \<Rightarrow>
          if length t > MAX_STORAGE_KEY_LENGTH \<or> length n > MAX_STORAGE_KEY_LENGTH \<or> length c > MAX_STORAGE_KEY_LENGTH
          then Inl thread_error else Inr (t, n, c)
      | _ \<Rightarrow> Inl thread_error)"

section \<open>Validation of a checkpoint\<close>

definition validateChannelVersion :: "js \<Rightarrow> unit result" where
  "validateChannelVersion v = (case v of JStr _ \<Rightarrow> Inr () | JNum _ \<Rightarrow> Inr () | _ \<Rightarrow> Inl thread_error)"

definition validateVersions :: "js \<Rightarrow> unit result" where
  "validateVersions v = sbind (boundedEntries v 512) (\<lambda>es. ignore (traverse (\<lambda>e. validateChannelVersion (snd e)) es))"

definition validateCheckpoint :: "js \<Rightarrow> string \<Rightarrow> string \<Rightarrow> bool \<Rightarrow> js result" where
  "validateCheckpoint v namespace checkpointId complete =
     (case (jget v ''v'', jget v ''id'', jget v ''ts'') of
        (JNum (NInt i), JStr identifier, JStr ts) \<Rightarrow>
          if \<not> is_record v \<or> i < 1 \<or> 4 < i \<or> identifier \<noteq> checkpointId \<or> identifier = [] \<or> length identifier > 2048 \<or>
             length ts > 128 \<or> \<not> is_record (jget v ''channel_values'') \<or> \<not> is_record (jget v ''channel_versions'') \<or>
             \<not> is_record (jget v ''versions_seen'') then Inl thread_error
          else
          sbind (boundedEntries (jget v ''channel_values'') 512) (\<lambda>_.
          sbind (validateVersions (jget v ''channel_versions'')) (\<lambda>_.
          sbind (boundedEntries (jget v ''versions_seen'') 512) (\<lambda>seen.
          sbind (traverse (\<lambda>e. validateVersions (snd e)) seen) (\<lambda>_.
          sbind (if namespace \<noteq> [] then Inr ()
                 else if complete then validatePersistedWorkflowChannels (jget v ''channel_values'')
                 else validatePersistedWorkflowStructure (jget v ''channel_values'')) (\<lambda>_.
          Inr (jget v ''channel_values''))))))
      | _ \<Rightarrow> Inl thread_error)"

definition validateCheckpointMetadata :: "js \<Rightarrow> unit result" where
  "validateCheckpointMetadata v =
     (case jget v ''step'' of
        JNum (NInt _) \<Rightarrow>
          if \<not> is_record v \<or> jget v ''source'' \<notin> {JStr ''input'', JStr ''loop'', JStr ''update'', JStr ''fork''} \<or>
             \<not> is_record (jget v ''parents'') then Inl thread_error
          else sbind (boundedEntries (jget v ''parents'') MAX_NAMESPACES) (\<lambda>ps.
            ignore (traverse (\<lambda>(n, c). sbind (validateStorageKey n) (\<lambda>_.
              case c of JStr s \<Rightarrow> validateStorageKey s | _ \<Rightarrow> Inl thread_error)) ps))
      | _ \<Rightarrow> Inl thread_error)"

section \<open>The memory of the saver\<close>

type_synonym threadStorage = "(string \<times> (string \<times> storedCheckpoint) list) list"
type_synonym writeBucket = "(string \<times> string \<times> string \<times> string) list"

record memorySaver =
  msStorage :: "(string \<times> threadStorage) list"
  msWrites :: "(string \<times> writeBucket) list"

definition bucket_thread :: "builtins \<Rightarrow> string \<times> writeBucket \<Rightarrow> string result" where
  "bucket_thread B b = sbind (parseWriteBucketKey B (fst b)) (\<lambda>(t, _, _). Inr t)"

definition thread_buckets :: "builtins \<Rightarrow> memorySaver \<Rightarrow> string \<Rightarrow> (string \<times> writeBucket) list result" where
  "thread_buckets B m threadId =
     sbind (traverse (bucket_thread B) (msWrites m)) (\<lambda>ts.
     Inr (map snd (filter (\<lambda>(t, _). t = threadId) (zip ts (msWrites m)))))"

definition snapshotThread :: "builtins \<Rightarrow> memorySaver \<Rightarrow> string \<Rightarrow> (threadStorage option \<times> (string \<times> writeBucket) list) result" where
  "snapshotThread B m threadId =
     sbind (thread_buckets B m threadId) (\<lambda>bs. Inr (map_of (msStorage m) threadId, bs))"

text \<open>
  \<open>restoreThread\<close> sets the storage first and then visits the keys: a key that cannot be read throws
  with what came before it already deleted.
\<close>

fun clear_buckets :: "builtins \<Rightarrow> string \<Rightarrow> (string \<times> writeBucket) list \<Rightarrow> (string \<times> writeBucket) list \<times> unit result" where
  "clear_buckets B threadId [] = ([], Inr ())"
| "clear_buckets B threadId (b # bs) =
     (case parseWriteBucketKey B (fst b) of
        Inl e \<Rightarrow> (b # bs, Inl e)
      | Inr (t, _, _) \<Rightarrow>
          (case clear_buckets B threadId bs of (kept, r) \<Rightarrow> (if t = threadId then kept else b # kept, r)))"

definition put_buckets :: "(string \<times> writeBucket) list \<Rightarrow> (string \<times> writeBucket) list \<Rightarrow> (string \<times> writeBucket) list" where
  "put_buckets bs ws = AList.updates (map fst bs) (map snd bs) ws"

definition restoreThread ::
    "builtins \<Rightarrow> memorySaver \<Rightarrow> string \<Rightarrow> threadStorage option \<times> (string \<times> writeBucket) list \<Rightarrow> memorySaver \<times> unit result" where
  "restoreThread B m threadId snapshot =
     (let storage = (case fst snapshot of None \<Rightarrow> AList.delete threadId (msStorage m)
                       | Some s \<Rightarrow> AList.update threadId s (msStorage m))
      in case clear_buckets B threadId (msWrites m) of
           (ws, Inl e) \<Rightarrow> (\<lparr>msStorage = storage, msWrites = ws\<rparr>, Inl e)
         | (ws, Inr u) \<Rightarrow> (\<lparr>msStorage = storage, msWrites = put_buckets (snd snapshot) ws\<rparr>, Inr ()))"

section \<open>Writing and reading a thread\<close>

definition encode_checkpoint :: "storedCheckpoint \<Rightarrow> storedCheckpoint" where
  "encode_checkpoint c = (case c of (checkpoint, metadata, parent) \<Rightarrow> (encode_bytes checkpoint, encode_bytes metadata, parent))"

definition encode_write :: "string \<times> string \<times> string \<times> string \<Rightarrow> writeEntry" where
  "encode_write w = (case w of (k, t, c, x) \<Rightarrow> \<lparr>weKey = k, weTaskId = t, weChannel = c, weValue = encode_bytes x\<rparr>)"

definition serialized_thread :: "string \<Rightarrow> threadStorage \<Rightarrow> (string \<times> writeBucket) list \<Rightarrow> entries \<Rightarrow> serializedThread" where
  "serialized_thread t storage buckets mutations =
     \<lparr>ftThreadId = t, ftStorage = map (\<lambda>(n, cs). (n, map (\<lambda>(k, c). (k, encode_checkpoint c)) cs)) storage,
      ftWrites = map (\<lambda>(k, ws). (k, map encode_write ws)) buckets, ftMutations = mutations\<rparr>"

definition checkpoint_entry_object :: "storedCheckpoint \<Rightarrow> js" where
  "checkpoint_entry_object c =
     (case c of (checkpoint, metadata, parent) \<Rightarrow>
        JObj ([(''checkpoint'', JStr checkpoint), (''metadata'', JStr metadata)] @
          (case parent of None \<Rightarrow> [] | Some p \<Rightarrow> [(''parentCheckpointId'', JStr p)])))"

definition write_object :: "writeEntry \<Rightarrow> js" where
  "write_object w = JObj [(''key'', JStr (weKey w)), (''taskId'', JStr (weTaskId w)), (''channel'', JStr (weChannel w)),
     (''value'', JStr (weValue w))]"

definition mutation_object :: "mutationEntry \<Rightarrow> js" where
  "mutation_object e =
     (case e of EntryStarted \<Rightarrow> JObj [(''status'', JStr ''started'')]
      | EntryCompleted out \<Rightarrow> JObj [(''status'', JStr ''completed''), (''output'', JStr out)])"

definition thread_object :: "serializedThread \<Rightarrow> js" where
  "thread_object d = JObj [(''version'', JNum (NInt 3)), (''threadId'', JStr (ftThreadId d)),
     (''storage'', JObj (map (\<lambda>(n, cs). (n, JObj (map (\<lambda>(k, c). (k, checkpoint_entry_object c)) cs))) (ftStorage d))),
     (''writes'', JObj (map (\<lambda>(k, ws). (k, JArr (map write_object ws))) (ftWrites d))),
     (''mutations'', JObj (map (\<lambda>(k, e). (k, mutation_object e)) (ftMutations d)))]"

definition thread_text :: "serializedThread \<Rightarrow> string" where
  "thread_text d = plain_text (thread_object d) @ [CHR 0x0A]"

definition encodeCheckpointThread :: "builtins \<Rightarrow> memorySaver \<Rightarrow> string \<Rightarrow> entries \<Rightarrow> string result" where
  "encodeCheckpointThread B m threadId mutations =
     sbind (validateThreadId threadId) (\<lambda>_.
     sbind (thread_buckets B m threadId) (\<lambda>bs.
     let storage = (case map_of (msStorage m) threadId of None \<Rightarrow> [] | Some s \<Rightarrow> s)
     in Inr (thread_text (serialized_thread threadId storage bs mutations))))"

definition hydrate_checkpoint ::
    "builtins \<Rightarrow> (string \<Rightarrow> js result) \<Rightarrow> string list \<Rightarrow> string \<Rightarrow> string \<times> storedCheckpoint
     \<Rightarrow> (js \<times> string \<times> storedCheckpoint) result" where
  "hydrate_checkpoint B loadsTyped pendingRoots namespace entry =
     (case entry of (checkpointId, c, m, parent) \<Rightarrow>
        sbind (decode_bytes c) (\<lambda>checkpoint.
        sbind (decode_bytes m) (\<lambda>metadata.
        sbind (loadsTyped checkpoint) (\<lambda>decodedCheckpoint.
        sbind (loadsTyped metadata) (\<lambda>decodedMetadata.
        sbind (validateCheckpoint decodedCheckpoint namespace checkpointId (namespace \<noteq> [] \<or> checkpointId \<notin> set pendingRoots)) (\<lambda>channels.
        sbind (validateCheckpointMetadata decodedMetadata) (\<lambda>_.
        sbind (repositoryCheckpointIdentity decodedMetadata) (\<lambda>_.
        sbind (parse_replayMetadata B decodedMetadata) (\<lambda>_.
        Inr (channels, checkpointId, checkpoint, metadata, parent))))))))))"

definition hydrate_namespace ::
    "builtins \<Rightarrow> (string \<Rightarrow> js result) \<Rightarrow> string list \<Rightarrow> string \<times> (string \<times> storedCheckpoint) list
     \<Rightarrow> (string \<times> (js \<times> string \<times> storedCheckpoint) list) result" where
  "hydrate_namespace B loadsTyped pendingRoots ns =
     sbind (traverse (hydrate_checkpoint B loadsTyped pendingRoots (fst ns)) (snd ns)) (\<lambda>cs. Inr (fst ns, cs))"

definition root_states :: "(string \<times> (js \<times> string \<times> storedCheckpoint) list) list \<Rightarrow> (string \<times> js) list" where
  "root_states hydrated = concat (map (\<lambda>(n, cs). if n = [] then map (\<lambda>(ch, k, _). (k, ch)) cs else []) hydrated)"

definition hydrate_write ::
    "(string \<Rightarrow> js result) \<Rightarrow> writeEntry \<Rightarrow> ((string \<times> js) \<times> string \<times> string \<times> string \<times> string) result" where
  "hydrate_write loadsTyped w =
     sbind (decode_bytes (weValue w)) (\<lambda>serialized.
     sbind (loadsTyped serialized) (\<lambda>decoded.
     Inr ((weChannel w, decoded), weKey w, weTaskId w, weChannel w, serialized)))"

definition hydrate_bucket ::
    "builtins \<Rightarrow> (string \<Rightarrow> js result) \<Rightarrow> string \<Rightarrow> (string \<times> js) list \<Rightarrow> string \<times> writeEntry list
     \<Rightarrow> (string \<times> writeBucket) result" where
  "hydrate_bucket B loadsTyped threadId roots b =
     sbind (parseWriteBucketKey B (fst b)) (\<lambda>(t, namespace, checkpointId).
     if t \<noteq> threadId then Inl thread_error
     else
     sbind (traverse (hydrate_write loadsTyped) (snd b)) (\<lambda>ws.
     sbind (if namespace \<noteq> [] then Inr ()
            else case map_last roots checkpointId of
              None \<Rightarrow> Inl thread_error
            | Some base \<Rightarrow> validateEffectiveWorkflowState base (map fst ws)) (\<lambda>_.
     Inr (fst b, AList.updates (map (fst \<circ> snd) ws) (map (snd \<circ> snd) ws) []))))"

definition pending_roots :: "builtins \<Rightarrow> (string \<times> writeEntry list) list \<Rightarrow> string list result" where
  "pending_roots B writes =
     sbind (traverse (\<lambda>b. parseWriteBucketKey B (fst b)) writes) (\<lambda>keys.
     Inr (map (\<lambda>(_, _, c). c) (filter (\<lambda>(_, n, _). n = []) keys)))"

definition hydrated_thread ::
    "builtins \<Rightarrow> (string \<Rightarrow> js result) \<Rightarrow> serializedThread
     \<Rightarrow> (threadStorage \<times> (string \<times> js) list \<times> (string \<times> writeBucket) list) result" where
  "hydrated_thread B loadsTyped d =
     sbind (pending_roots B (ftWrites d)) (\<lambda>pendingRoots.
     sbind (traverse (hydrate_namespace B loadsTyped pendingRoots) (ftStorage d)) (\<lambda>hydrated.
     sbind (traverse (hydrate_bucket B loadsTyped (ftThreadId d) (root_states hydrated)) (ftWrites d)) (\<lambda>buckets.
     Inr (map (\<lambda>(n, cs). (n, map snd cs)) hydrated, root_states hydrated, buckets))))"

definition hydrateCheckpointThread ::
    "builtins \<Rightarrow> (string \<Rightarrow> js result) \<Rightarrow> memorySaver \<Rightarrow> int \<times> serializedThread \<Rightarrow> memorySaver \<times> entries result" where
  "hydrateCheckpointThread B loadsTyped m v =
     (case hydrated_thread B loadsTyped (snd v) of
        Inl e \<Rightarrow> (m, Inl e)
      | Inr (namespaces, rootStates, buckets) \<Rightarrow>
          (case restoreThread B m (ftThreadId (snd v)) (None, []) of
             (m', Inl e) \<Rightarrow> (m', Inl e)
           | (m', Inr u) \<Rightarrow>
               (\<lparr>msStorage = AList.update (ftThreadId (snd v)) namespaces (msStorage m'),
                 msWrites = put_buckets buckets (msWrites m')\<rparr>,
                if fst v = 1 then migrateLegacyMutationJournal B rootStates else Inr (ftMutations (snd v)))))"

section \<open>Base64 is read back\<close>

lemma b64_alphabet_distinct: "distinct b64_alphabet" "CHR ''='' \<notin> set b64_alphabet" "length b64_alphabet = 64"
  by (simp_all add: b64_alphabet_def)

lemma b64_digits [simp]:
  assumes "n < 64"
  shows "b64_value (b64_digit n) = n" "is_b64 (b64_digit n)" "b64_digit n \<noteq> CHR ''=''"
proof -
  have n: "n < length b64_alphabet" using assms by (simp add: b64_alphabet_distinct)
  have "takeWhile (\<lambda>d. d \<noteq> b64_alphabet ! n) b64_alphabet = take n b64_alphabet"
    using n b64_alphabet_distinct(1) by (intro takeWhile_eq_take_P_nth) (auto simp: nth_eq_iff_index_eq)
  with n show "b64_value (b64_digit n) = n" by (simp add: b64_value_def b64_digit_def)
  show "is_b64 (b64_digit n)" "b64_digit n \<noteq> CHR ''=''" using nth_mem[OF n] b64_alphabet_distinct(2) by (auto simp: is_b64_def b64_digit_def)
qed

lemma sextet_parts:
  fixes a :: nat
  assumes "a < 256"
  shows "a div 4 < 64" "a div 16 < 16" "a div 64 < 4" "a mod 4 < 4" "a mod 16 < 16" "a mod 64 < 64"
  using assms by (simp_all add: less_mult_imp_div_less)

lemma code_bound [simp]: "code c < 256"
  by (simp add: code_def nat_of_char_less_256)

lemma sextets [simp]:
  "code a div 4 < 64" "code a mod 4 * 16 < 64" "code a mod 4 * 16 + code b div 16 < 64" "code a mod 16 * 4 < 64"
  "code a mod 16 * 4 + code b div 64 < 64" "code a mod 64 < 64"
  using sextet_parts[OF code_bound[of a]] sextet_parts[OF code_bound[of b]] by linarith+

lemma packed:
  fixes x y n :: nat
  assumes "x < n"
  shows "(y * n + x) div n = y" "(y * n + x) mod n = x"
  using assms by simp_all

lemma octets:
  fixes a b c :: nat
  assumes "a < 256" "b < 256" "c < 256"
  shows "a div 4 * 4 + (a mod 4 * 16 + b div 16) div 16 = a" "a div 4 * 4 + a mod 4 * 16 div 16 = a"
    "(a mod 4 * 16 + b div 16) mod 16 * 16 + (b mod 16 * 4 + c div 64) div 4 = b"
    "(a mod 4 * 16 + b div 16) mod 16 * 16 + b mod 16 * 4 div 4 = b"
    "(b mod 16 * 4 + c div 64) mod 4 * 64 + c mod 64 = c"
proof -
  have "b div 16 < 16" "c div 64 < 4" using assms by (simp_all add: less_mult_imp_div_less)
  then show "a div 4 * 4 + (a mod 4 * 16 + b div 16) div 16 = a" "a div 4 * 4 + a mod 4 * 16 div 16 = a"
    "(a mod 4 * 16 + b div 16) mod 16 * 16 + (b mod 16 * 4 + c div 64) div 4 = b"
    "(a mod 4 * 16 + b div 16) mod 16 * 16 + b mod 16 * 4 div 4 = b"
    "(b mod 16 * 4 + c div 64) mod 4 * 64 + c mod 64 = c"
    by (simp_all only: packed) simp_all
qed

lemma byte_code [simp]: "byte (code c) = c"
  by (simp add: byte_def code_def)

lemma base64_inverse: "base64_bytes (base64 s) = s"
proof (induction s rule: base64.induct)
  case (2 a)
  show ?case using octets(2)[of "code a" 0 0] by (simp add: b64_group_def)
next
  case (3 a b)
  show ?case using octets[of "code a" "code b" 0] by (simp add: b64_group_def del: mult_mod_right)
next
  case (4 a b c r)
  show ?case using octets[of "code a" "code b" "code c"] 4 by (simp add: b64_group_def del: mult_mod_right)
qed simp

lemma base64_nonempty: "base64 (a # s) \<noteq> []"
  by (cases "a # s" rule: base64.cases) auto

lemma base64_shape_Cons: "t \<noteq> [] \<Longrightarrow> base64_shape (x # y # z # w # t) \<longleftrightarrow> is_b64 x \<and> is_b64 y \<and> is_b64 z \<and> is_b64 w \<and> base64_shape t"
  by (cases t) simp_all

lemma base64_shape_base64: "base64_shape (base64 s)"
proof (induction s rule: base64.induct)
  case (4 a b c r)
  show ?case
  proof (cases r)
    case (Cons d r')
    with base64_nonempty[of d r'] 4 show ?thesis by (simp add: base64_shape_Cons del: base64_shape.simps)
  qed (simp del: mult_mod_right)
qed (simp_all del: mult_mod_right)

lemma decode_encode: "length (encode_bytes s) \<le> MAX_CHECKPOINT_FILE_BYTES \<Longrightarrow> decode_bytes (encode_bytes s) = Inr s"
  by (simp add: decode_bytes_def encode_bytes_def base64_inverse base64_shape_base64)

section \<open>What the reader accepts of what the writer writes\<close>

definition checkpoint_bounded :: "string \<times> storedCheckpoint \<Rightarrow> bool" where
  "checkpoint_bounded x =
     (case x of (k, c, m, parent) \<Rightarrow>
        length k \<le> MAX_STORAGE_KEY_LENGTH \<and> length c \<le> MAX_CHECKPOINT_FILE_BYTES \<and> length m \<le> MAX_CHECKPOINT_FILE_BYTES \<and>
        (case parent of None \<Rightarrow> True | Some p \<Rightarrow> length p \<le> MAX_STORAGE_KEY_LENGTH))"

definition namespace_bounded :: "string \<times> (string \<times> storedCheckpoint) list \<Rightarrow> bool" where
  "namespace_bounded x = (length (fst x) \<le> MAX_STORAGE_KEY_LENGTH \<and> length (snd x) \<le> MAX_CHECKPOINTS_PER_NAMESPACE \<and>
     list_all checkpoint_bounded (snd x))"

definition write_bounded :: "writeEntry \<Rightarrow> bool" where
  "write_bounded w = (length (weKey w) \<le> MAX_STORAGE_KEY_LENGTH \<and> length (weTaskId w) \<le> MAX_STORAGE_KEY_LENGTH \<and>
     length (weChannel w) \<le> MAX_STORAGE_KEY_LENGTH \<and> length (weValue w) \<le> MAX_CHECKPOINT_FILE_BYTES)"

definition bucket_bounded :: "string \<times> writeEntry list \<Rightarrow> bool" where
  "bucket_bounded b = (length (fst b) \<le> MAX_STORAGE_KEY_LENGTH \<and> length (snd b) \<le> MAX_WRITES_PER_BUCKET \<and>
     list_all write_bounded (snd b))"

definition mutation_bounded :: "string \<times> mutationEntry \<Rightarrow> bool" where
  "mutation_bounded m = (isMutationKey (fst m) \<and>
     (case snd m of EntryStarted \<Rightarrow> True | EntryCompleted out \<Rightarrow> length out \<le> MAX_CHECKPOINT_FILE_BYTES))"

definition thread_bounded :: "serializedThread \<Rightarrow> bool" where
  "thread_bounded d =
     (THREAD_ID (ftThreadId d) \<and> length (ftStorage d) \<le> MAX_NAMESPACES \<and> list_all namespace_bounded (ftStorage d) \<and>
      sum_list (map (\<lambda>x. length (snd x)) (ftStorage d)) \<le> MAX_TOTAL_CHECKPOINTS \<and>
      length (ftWrites d) \<le> MAX_WRITE_BUCKETS \<and> list_all bucket_bounded (ftWrites d) \<and>
      length (ftMutations d) \<le> 64 \<and> list_all mutation_bounded (ftMutations d))"

lemma traverse_gate:
  "(\<And>x. f (g x) = (if P x then Inr x else Inl e)) \<Longrightarrow> traverse f (map g xs) = (if list_all P xs then Inr xs else Inl e)"
  by (induction xs) simp_all

lemma bounded_text [simp]: "bounded_string (JStr s) n = (if length s \<le> n then Inr s else Inl thread_error)"
  by (simp add: bounded_string_def)

lemma bounded_object [simp]: "boundedEntries (JObj kvs) n = (if length kvs \<le> n then Inr kvs else Inl thread_error)"
  by (simp add: boundedEntries_def)

lemma checked_key: "validateStorageKey k = (if length k \<le> MAX_STORAGE_KEY_LENGTH then Inr () else Inl thread_error)"
  by (simp add: validateStorageKey_def check_def)

lemma parse_stored_object:
  "sbind (validateStorageKey k) (\<lambda>_. parse_checkpoint_entry (checkpoint_entry_object c)) =
     (if checkpoint_bounded (k, c) then Inr c else Inl thread_error)"
  by (cases c)
    (auto simp: checked_key parse_checkpoint_entry_def checkpoint_entry_object_def checkpoint_bounded_def hasOnlyFields_def split: option.splits)

lemma parse_checkpoints_objects:
  "parse_checkpoints seen (map (\<lambda>(k, c). (k, checkpoint_entry_object c)) cs) =
     (if list_all checkpoint_bounded cs \<and> (cs = [] \<or> seen + length cs \<le> MAX_TOTAL_CHECKPOINTS) then Inr (seen + length cs, cs) else Inl thread_error)"
proof (induction cs arbitrary: seen)
  case (Cons x cs)
  obtain k c where x: "x = (k, c)" by (cases x)
  show ?case
    using parse_stored_object[of k c] Cons.IH[of "Suc seen"]
    by (cases "length k \<le> MAX_STORAGE_KEY_LENGTH"; cases "cs = []") (simp_all add: x checked_key checkpoint_bounded_def)
qed simp

lemma parse_namespaces_objects:
  "seen \<le> MAX_TOTAL_CHECKPOINTS \<Longrightarrow>
   parse_namespaces seen (map (\<lambda>(n, cs). (n, JObj (map (\<lambda>(k, c). (k, checkpoint_entry_object c)) cs))) ns) =
     (if list_all namespace_bounded ns \<and> seen + sum_list (map (\<lambda>x. length (snd x)) ns) \<le> MAX_TOTAL_CHECKPOINTS then Inr ns else Inl thread_error)"
proof (induction ns arbitrary: seen)
  case (Cons x ns)
  obtain n cs where x: "x = (n, cs)" by (cases x)
  show ?case
  proof (cases "seen + length cs \<le> MAX_TOTAL_CHECKPOINTS")
    case True
    then show ?thesis using Cons.IH[OF True]
      by (auto simp: x checked_key parse_checkpoints_objects namespace_bounded_def add.assoc)
  next
    case False
    with Cons.prems have "cs \<noteq> []" by auto
    with False show ?thesis by (simp add: x checked_key parse_checkpoints_objects)
  qed
qed simp

lemma parse_write_object: "parse_write (write_object w) = (if write_bounded w then Inr w else Inl thread_error)"
  by (auto simp: parse_write_def write_object_def write_bounded_def hasOnlyFields_def)

lemma write_gate: "traverse parse_write (map write_object xs) = (if list_all write_bounded xs then Inr xs else Inl thread_error)"
  by (rule traverse_gate) (rule parse_write_object)

lemma parse_bucket_object:
  "parse_bucket (case b of (k, ws) \<Rightarrow> (k, JArr (map write_object ws))) = (if bucket_bounded b then Inr b else Inl thread_error)"
  by (cases b) (auto simp: parse_bucket_def bucket_bounded_def write_gate)

lemma bucket_gate: "traverse parse_bucket (map (\<lambda>(k, ws). (k, JArr (map write_object ws))) xs) = (if list_all bucket_bounded xs then Inr xs else Inl thread_error)"
  by (rule traverse_gate) (rule parse_bucket_object)

lemma parse_mutation_object:
  "parse_mutation (case m of (k, e) \<Rightarrow> (k, mutation_object e)) = (if mutation_bounded m then Inr m else Inl thread_error)"
  by (cases m; cases "snd m") (auto simp: parse_mutation_def mutation_object_def mutation_bounded_def hasOnlyFields_def)

lemma mutation_gate: "traverse parse_mutation (map (\<lambda>(k, e). (k, mutation_object e)) xs) = (if list_all mutation_bounded xs then Inr xs else Inl thread_error)"
  by (rule traverse_gate) (rule parse_mutation_object)

definition reads_threads :: "builtins \<Rightarrow> bool" where
  "reads_threads B \<longleftrightarrow> (\<forall>d. json_parse B (thread_text d) = Some (thread_object d))"

lemma parse_thread_text:
  "reads_threads B \<Longrightarrow> parseSerializedThread B (thread_text d) = (if thread_bounded d then Inr (3, d) else Inl thread_error)"
  by (cases d)
    (auto simp: reads_threads_def parseSerializedThread_def thread_object_def thread_bounded_def validateThreadId_def check_def
      hasOnlyFields_def parseStorage_def parseWrites_def parseMutations_def parse_namespaces_objects
      bucket_gate mutation_gate)

lemma thread_object_printable: "printable (thread_object d)"
  by (auto simp: thread_object_def checkpoint_entry_object_def write_object_def mutation_object_def number_ok_def finite_number_def
      split: option.splits mutationEntry.splits)

lemma reads_threads_reading: "reads_threads reading_builtins"
  by (simp add: reads_threads_def thread_text_def json_read_line thread_object_printable)

section \<open>The memory is read back\<close>

lemma update_fresh: "k \<notin> fst ` set al \<Longrightarrow> AList.update k v al = al @ [(k, v)]"
  by (induction al) auto

lemma updates_fresh:
  "distinct (map fst bs) \<Longrightarrow> fst ` set bs \<inter> fst ` set ws = {} \<Longrightarrow> AList.updates (map fst bs) (map snd bs) ws = ws @ bs"
proof (induction bs arbitrary: ws)
  case Nil
  then show ?case by (simp add: AList.updates_def)
next
  case (Cons b bs)
  have "AList.updates (map fst (b # bs)) (map snd (b # bs)) ws = AList.updates (map fst bs) (map snd bs) (ws @ [b])"
    using Cons.prems by (cases b) (simp add: AList.updates_def update_fresh)
  then show ?case using Cons.prems Cons.IH[of "ws @ [b]"] by auto
qed

definition owner :: "builtins \<Rightarrow> string \<Rightarrow> string \<times> writeBucket \<Rightarrow> bool" where
  "owner B t b \<longleftrightarrow> bucket_thread B b = Inr t"

definition owned :: "builtins \<Rightarrow> string \<times> writeBucket \<Rightarrow> bool" where
  "owned B b \<longleftrightarrow> (\<exists>t. owner B t b)"

lemma owner_unique: "owner B t b \<Longrightarrow> owner B u b \<longleftrightarrow> u = t"
  by (auto simp: owner_def)

lemma owner_key: "fst b = fst c \<Longrightarrow> owner B t b \<longleftrightarrow> owner B t c"
  by (simp add: owner_def bucket_thread_def)

lemma traverse_owners:
  "traverse (bucket_thread B) ws = Inr ts \<Longrightarrow>
   list_all (owned B) ws \<and> map snd (filter (\<lambda>(t, _). t = u) (zip ts ws)) = filter (owner B u) ws"
proof (induction ws arbitrary: ts)
  case (Cons b ws)
  obtain t ts' where "bucket_thread B b = Inr t" "traverse (bucket_thread B) ws = Inr ts'" "ts = t # ts'"
    using Cons.prems by (auto simp: sbind_eq_Inr)
  with Cons.IH show ?case by (auto simp: owned_def owner_def)
qed simp

lemma traverse_owned: "list_all (owned B) ws \<Longrightarrow> \<exists>ts. traverse (bucket_thread B) ws = Inr ts"
  by (induction ws) (auto simp: owned_def owner_def)

lemma thread_buckets_eq:
  "thread_buckets B m t = Inr bs \<longleftrightarrow> list_all (owned B) (msWrites m) \<and> bs = filter (owner B t) (msWrites m)"
  using traverse_owned[of B "msWrites m"] traverse_owners[of B "msWrites m" _ t]
  by (cases "traverse (bucket_thread B) (msWrites m)") (auto simp: thread_buckets_def)

lemma clear_buckets_eq:
  "clear_buckets B t ws = (kept, Inr u) \<longleftrightarrow> list_all (owned B) ws \<and> kept = filter (\<lambda>b. \<not> owner B t b) ws"
proof (induction ws arbitrary: kept)
  case (Cons b ws)
  show ?case
  proof (cases "parseWriteBucketKey B (fst b)")
    case (Inl e)
    then show ?thesis by (simp add: owned_def owner_def bucket_thread_def)
  next
    case (Inr k)
    obtain t' n c where k: "k = (t', n, c)" by (cases k)
    obtain kept' r where r: "clear_buckets B t ws = (kept', r)" by (cases "clear_buckets B t ws")
    have b: "owned B b" "owner B t b \<longleftrightarrow> t' = t" using Inr k by (auto simp: owned_def owner_def bucket_thread_def)
    have "clear_buckets B t (b # ws) = (if t' = t then kept' else b # kept', r)" by (simp add: Inr k r)
    moreover have "r = Inr () \<longleftrightarrow> list_all (owned B) ws" "r = Inr () \<longrightarrow> kept' = filter (\<lambda>b. \<not> owner B t b) ws"
      using Cons.IH[of kept', unfolded r] Cons.IH[of "filter (\<lambda>b. \<not> owner B t b) ws", unfolded r] by auto
    ultimately show ?thesis using b by (cases "t' = t") (auto simp del: clear_buckets.simps)
  qed
qed auto

lemma snapshot_eq:
  "snapshotThread B m t = Inr (storage, bs) \<longleftrightarrow>
     storage = map_of (msStorage m) t \<and> list_all (owned B) (msWrites m) \<and> bs = filter (owner B t) (msWrites m)"
  unfolding snapshotThread_def sbind_eq_Inr thread_buckets_eq by auto

lemma put_buckets_fresh:
  assumes "distinct (map fst bs)" "list_all (owner B t) bs"
  shows "put_buckets bs (filter (\<lambda>b. \<not> owner B t b) ws) = filter (\<lambda>b. \<not> owner B t b) ws @ bs"
proof -
  have "fst ` set bs \<inter> fst ` set (filter (\<lambda>b. \<not> owner B t b) ws) = {}"
  proof (rule ccontr)
    assume "fst ` set bs \<inter> fst ` set (filter (\<lambda>b. \<not> owner B t b) ws) \<noteq> {}"
    then obtain b c where "b \<in> set bs" "\<not> owner B t c" "fst b = fst c" by auto
    with assms(2) show False by (auto simp: list_all_iff owner_key[of b c])
  qed
  then show ?thesis using assms(1) by (simp add: put_buckets_def updates_fresh)
qed

text \<open>\<open>restoreThread\<close> puts a snapshot back: the thread is as it was, the others as they are.\<close>

lemma restore_thread_ok:
  assumes "restoreThread B m t (storage, bs) = (m', Inr u)" "distinct (map fst bs)" "list_all (owner B t) bs"
  shows "map_of (msStorage m') t = storage" "v \<noteq> t \<Longrightarrow> map_of (msStorage m') v = map_of (msStorage m) v"
    "list_all (owned B) (msWrites m)" "msWrites m' = filter (\<lambda>b. \<not> owner B t b) (msWrites m) @ bs"
proof -
  obtain kept where kept: "clear_buckets B t (msWrites m) = (kept, Inr ())"
    and m': "m' = \<lparr>msStorage = (case storage of None \<Rightarrow> AList.delete t (msStorage m) | Some s \<Rightarrow> AList.update t s (msStorage m)),
      msWrites = put_buckets bs kept\<rparr>"
    using assms(1) by (auto simp: restoreThread_def Let_def split: prod.splits sum.splits)
  note k = kept[unfolded clear_buckets_eq]
  show "msWrites m' = filter (\<lambda>b. \<not> owner B t b) (msWrites m) @ bs"
    using k by (simp add: m' put_buckets_fresh[OF assms(2,3)])
  show "list_all (owned B) (msWrites m)" using k by simp
  show "map_of (msStorage m') t = storage"
    by (simp add: m' AList.delete_conv' AList.update_conv' split: option.split)
  show "v \<noteq> t \<Longrightarrow> map_of (msStorage m') v = map_of (msStorage m) v"
    by (simp add: m' AList.delete_conv' AList.update_conv' split: option.split)
qed

lemma owned_owners: "list_all (owner B t) bs \<Longrightarrow> list_all (owned B) bs"
  by (auto simp: list_all_iff owned_def)

lemma restored_snapshot:
  assumes "map_of (msStorage m') t = storage" "v \<noteq> t \<longrightarrow> map_of (msStorage m') v = map_of (msStorage m) v"
    and "list_all (owned B) (msWrites m)" "msWrites m' = filter (\<lambda>b. \<not> owner B t b) (msWrites m) @ bs" "list_all (owner B t) bs"
  shows "snapshotThread B m' t = Inr (storage, bs)" "v \<noteq> t \<Longrightarrow> snapshotThread B m' v = snapshotThread B m v"
proof -
  have all: "list_all (owned B) (msWrites m')"
    using assms(3-5) owned_owners[OF assms(5)] by (auto simp: list_all_iff)
  have "filter (owner B t) bs = bs" using assms(5) by (auto simp: list_all_iff filter_id_conv)
  with all assms(1,4) show "snapshotThread B m' t = Inr (storage, bs)" by (simp add: snapshot_eq filter_filter filter_empty_conv)
  assume v: "v \<noteq> t"
  have none: "filter (owner B v) bs = []"
    using assms(5) v by (auto simp: filter_empty_conv list_all_iff dest: owner_unique)
  have same: "filter (\<lambda>b. owner B v b \<and> \<not> owner B t b) (msWrites m) = filter (owner B v) (msWrites m)"
    by (rule filter_cong) (use v in \<open>auto dest: owner_unique\<close>)
  have "snapshotThread B m v = Inr (map_of (msStorage m) v, filter (owner B v) (msWrites m))"
    using assms(3) by (simp add: snapshot_eq)
  moreover have "snapshotThread B m' v = Inr (map_of (msStorage m) v, filter (owner B v) (msWrites m))"
    using all assms(2,4) v none same by (simp add: snapshot_eq filter_filter conj_commute)
  ultimately show "snapshotThread B m' v = snapshotThread B m v" by simp
qed

lemma encoded_thread:
  assumes "encodeCheckpointThread B m t mutations = Inr text" "snapshotThread B m t = Inr (storage, bs)"
  shows "text = thread_text (serialized_thread t (case storage of None \<Rightarrow> [] | Some s \<Rightarrow> s) bs mutations)"
  using assms by (auto simp: encodeCheckpointThread_def snapshotThread_def sbind_eq_Inr Let_def)

lemma traverse_map: "traverse f (map g xs) = traverse (f \<circ> g) xs"
  by (induction xs) simp_all

lemma traverse_member: "traverse f xs = Inr ys \<Longrightarrow> x \<in> set xs \<Longrightarrow> \<exists>y. f x = Inr y"
  by (induction xs arbitrary: ys) (auto simp: sbind_eq_Inr)

lemma traverse_projects:
  "traverse f xs = Inr ys \<Longrightarrow> (\<And>x y. x \<in> set xs \<Longrightarrow> f x = Inr y \<Longrightarrow> h y = g x) \<Longrightarrow> map h ys = map g xs"
  by (induction xs arbitrary: ys) (auto simp: sbind_eq_Inr)

lemma hydrate_encoded:
  assumes "hydrate_checkpoint B L P n (case x of (k, c) \<Rightarrow> (k, encode_checkpoint c)) = Inr y"
    and "checkpoint_bounded (case x of (k, c) \<Rightarrow> (k, encode_checkpoint c))"
  shows "snd y = x"
proof -
  obtain k c m p where x: "x = (k, c, m, p)" by (cases x)
  with assms show ?thesis
    by (auto simp: hydrate_checkpoint_def encode_checkpoint_def checkpoint_bounded_def decode_encode sbind_eq_Inr)
qed

lemma hydrate_encoded_namespace:
  assumes "hydrate_namespace B L P (case x of (n, cs) \<Rightarrow> (n, map (\<lambda>(k, c). (k, encode_checkpoint c)) cs)) = Inr y"
    and "namespace_bounded (case x of (n, cs) \<Rightarrow> (n, map (\<lambda>(k, c). (k, encode_checkpoint c)) cs))"
  shows "(case y of (n, cs) \<Rightarrow> (n, map snd cs)) = x"
proof -
  obtain n cs where x: "x = (n, cs)" by (cases x)
  obtain ys where ys: "traverse (hydrate_checkpoint B L P n) (map (\<lambda>(k, c). (k, encode_checkpoint c)) cs) = Inr ys" "y = (n, ys)"
    using assms(1) by (auto simp: x hydrate_namespace_def sbind_eq_Inr)
  have "map snd ys = cs"
  proof -
    have "map snd ys = map id cs"
    proof (rule traverse_projects)
      show "traverse (hydrate_checkpoint B L P n \<circ> (\<lambda>(k, c). (k, encode_checkpoint c))) cs = Inr ys"
        using ys(1) by (simp add: traverse_map)
      fix z y assume "z \<in> set cs" "(hydrate_checkpoint B L P n \<circ> (\<lambda>(k, c). (k, encode_checkpoint c))) z = Inr y"
      then show "snd y = id z" using assms(2) hydrate_encoded[of B L P n z y]
        by (auto simp: x namespace_bounded_def list_all_iff)
    qed
    then show ?thesis by simp
  qed
  with ys(2) x show ?thesis by simp
qed

lemma hydrate_encoded_write:
  "hydrate_write L (encode_write w) = Inr y \<Longrightarrow> write_bounded (encode_write w) \<Longrightarrow> snd y = w"
  by (cases w) (auto simp: hydrate_write_def encode_write_def write_bounded_def decode_encode sbind_eq_Inr)

lemma hydrate_encoded_bucket:
  assumes "hydrate_bucket B L t roots (case b of (k, ws) \<Rightarrow> (k, map encode_write ws)) = Inr y"
    and "bucket_bounded (case b of (k, ws) \<Rightarrow> (k, map encode_write ws))" "distinct (map fst (snd b))"
  shows "y = b \<and> owner B t b"
proof -
  obtain k ws where b: "b = (k, ws)" by (cases b)
  obtain n c ys where k: "parseWriteBucketKey B k = Inr (t, n, c)"
    and ys: "traverse (hydrate_write L) (map encode_write ws) = Inr ys"
    and y: "y = (k, AList.updates (map (fst \<circ> snd) ys) (map (snd \<circ> snd) ys) [])"
    using assms(1) by (auto simp: b hydrate_bucket_def sbind_eq_Inr split: if_splits)
  have "map snd ys = map id ws"
  proof (rule traverse_projects)
    show "traverse (hydrate_write L \<circ> encode_write) ws = Inr ys" using ys by (simp add: traverse_map)
    fix z y assume "z \<in> set ws" "(hydrate_write L \<circ> encode_write) z = Inr y"
    then show "snd y = id z" using assms(2) hydrate_encoded_write[of L z y] by (auto simp: b bucket_bounded_def list_all_iff)
  qed
  then have "map (fst \<circ> snd) ys = map fst ws" "map (snd \<circ> snd) ys = map snd ws"
    by (metis list.map_id map_map)+
  with y assms(3) k b show ?thesis
    using updates_fresh[of ws "[]"] by (simp add: owner_def bucket_thread_def)
qed

lemma hydrated_encoded:
  assumes "hydrated_thread B L (serialized_thread t storage bs mutations) = Inr (namespaces, roots, buckets)"
    and "thread_bounded (serialized_thread t storage bs mutations)" "\<forall>b \<in> set bs. distinct (map fst (snd b))"
  shows "namespaces = storage \<and> buckets = bs \<and> list_all (owner B t) bs"
proof -
  let ?S = "\<lambda>(n, cs). (n, map (\<lambda>(k, c). (k, encode_checkpoint c)) cs)" and ?W = "\<lambda>(k, ws). (k, map encode_write ws)"
  obtain P ys where ys: "traverse (hydrate_namespace B L P) (map ?S storage) = Inr ys" "namespaces = map (\<lambda>(n, cs). (n, map snd cs)) ys"
    and bs: "traverse (hydrate_bucket B L t roots) (map ?W bs) = Inr buckets"
    using assms(1) by (auto simp: hydrated_thread_def serialized_thread_def sbind_eq_Inr)
  have st: "map (\<lambda>(n, cs). (n, map snd cs)) ys = map id storage"
  proof (rule traverse_projects)
    show "traverse (hydrate_namespace B L P \<circ> ?S) storage = Inr ys" using ys(1) by (simp add: traverse_map)
    fix z y assume "z \<in> set storage" "(hydrate_namespace B L P \<circ> ?S) z = Inr y"
    then show "(case y of (n, cs) \<Rightarrow> (n, map snd cs)) = id z"
      using assms(2) hydrate_encoded_namespace[of B L P z y] by (auto simp: thread_bounded_def serialized_thread_def list_all_iff)
  qed
  have each: "y = b \<and> owner B t b" if "b \<in> set bs" "hydrate_bucket B L t roots (?W b) = Inr y" for b y
    using that assms(2,3) hydrate_encoded_bucket[of B L t roots b y]
    by (auto simp: thread_bounded_def serialized_thread_def list_all_iff)
  have "map id buckets = map id bs"
  proof (rule traverse_projects)
    show "traverse (hydrate_bucket B L t roots \<circ> ?W) bs = Inr buckets" using bs by (simp add: traverse_map)
    show "id y = id b" if "b \<in> set bs" "(hydrate_bucket B L t roots \<circ> ?W) b = Inr y" for b y using each[of b y] that by simp
  qed
  moreover have "\<exists>y. (hydrate_bucket B L t roots \<circ> ?W) b = Inr y" if "b \<in> set bs" for b
    using traverse_member[where f = "hydrate_bucket B L t roots \<circ> ?W" and xs = bs] bs that by (simp add: traverse_map)
  then have "owner B t b" if "b \<in> set bs" for b using each that by (metis comp_apply)
  ultimately show ?thesis using ys(2) st by (simp add: list_all_iff)
qed

lemma thread_file_accepted:
  assumes "reads_threads B" "encodeCheckpointThread B m t mutations = Inr text" "snapshotThread B m t = Inr (storage, bs)"
  shows "parseSerializedThread B text =
    (let d = serialized_thread t (case storage of None \<Rightarrow> [] | Some s \<Rightarrow> s) bs mutations
     in if thread_bounded d then Inr (3, d) else Inl thread_error)"
  using encoded_thread[OF assms(2,3)] parse_thread_text[OF assms(1)] by (simp add: Let_def)

definition objects_ok :: "memorySaver \<Rightarrow> bool" where
  "objects_ok m \<longleftrightarrow> distinct (map fst (msWrites m)) \<and> list_all (\<lambda>b. distinct (map fst (snd b))) (msWrites m)"

section \<open>Instances\<close>

definition sample_bucket_key :: string where
  "sample_bucket_key = plain_text (JArr [JStr ''t'', JStr '''', JStr ''c''])"

definition sample_storage :: threadStorage where
  "sample_storage = [('''', [(''c'', (''state'', ''about'', None))]), (''sub'', [(''d'', (''inner'', ''about'', Some ''c''))])]"

definition sample_buckets :: "(string \<times> writeBucket) list" where
  "sample_buckets = [(sample_bucket_key, [(''w,0'', ''w'', ''branch'', ''value'')])]"

definition sample_memory :: memorySaver where
  "sample_memory = \<lparr>msStorage = [(''t'', sample_storage)], msWrites = sample_buckets\<rparr>"

definition sample_journal :: entries where
  "sample_journal = [(''implement:0'', EntryStarted), (''repair:1'', EntryCompleted ''out'')]"

definition sample_checkpoint :: "string \<Rightarrow> js" where
  "sample_checkpoint i = JObj [(''v'', JNum (NInt 4)), (''id'', JStr i), (''ts'', JStr ''''),
     (''channel_values'', JObj []), (''channel_versions'', JObj []), (''versions_seen'', JObj [])]"

definition sample_loads :: "string \<Rightarrow> js result" where
  "sample_loads s =
     (if s = ''state'' then Inr (sample_checkpoint ''c'') else if s = ''inner'' then Inr (sample_checkpoint ''d'')
      else if s = ''about'' then Inr (JObj [(''source'', JStr ''loop''), (''step'', JNum (NInt 1)), (''parents'', JObj [])])
      else Inr JNull)"

definition long_memory :: memorySaver where
  "long_memory = \<lparr>msStorage = [(''t'', [('''', map (\<lambda>i. (nat_text i, (''state'', ''about'', None))) [0..<257])])], msWrites = []\<rparr>"

lemmas sample_defs = sample_storage_def sample_buckets_def sample_memory_def sample_journal_def sample_checkpoint_def
  sample_loads_def

lemma sample_key: "parseWriteBucketKey reading_builtins sample_bucket_key = Inr (''t'', '''', ''c'')"
  by (simp add: parseWriteBucketKey_def sample_bucket_key_def json_read_printed MAX_STORAGE_KEY_LENGTH_def)

lemma sample_owner: "bucket_thread reading_builtins (sample_bucket_key, ws) = Inr ''t''"
  by (simp add: bucket_thread_def sample_key)

lemma sample_bounded: "thread_bounded (serialized_thread ''t'' sample_storage sample_buckets sample_journal)"
proof -
  have "length sample_bucket_key < 100" by (simp add: sample_bucket_key_def) code_simp
  moreover have "THREAD_ID ''t''" "isMutationKey ''implement:0''" "isMutationKey ''repair:1''" by code_simp+
  ultimately show ?thesis
    by (simp add: thread_bounded_def serialized_thread_def sample_defs encode_checkpoint_def encode_write_def namespace_bounded_def
        checkpoint_bounded_def bucket_bounded_def write_bounded_def mutation_bounded_def MAX_STORAGE_KEY_LENGTH_def
        MAX_CHECKPOINT_FILE_BYTES_def MAX_NAMESPACES_def MAX_CHECKPOINTS_PER_NAMESPACE_def MAX_TOTAL_CHECKPOINTS_def
        MAX_WRITE_BUCKETS_def MAX_WRITES_PER_BUCKET_def encode_bytes_def)
qed

lemma sample_snapshot:
  "snapshotThread reading_builtins sample_memory ''t'' = Inr (Some sample_storage, sample_buckets)"
  "objects_ok sample_memory"
  by (simp_all add: snapshotThread_def thread_buckets_def sample_memory_def sample_buckets_def sample_owner objects_ok_def)

lemma sample_encoded:
  "encodeCheckpointThread reading_builtins sample_memory ''t'' sample_journal =
     Inr (thread_text (serialized_thread ''t'' sample_storage sample_buckets sample_journal))"
proof -
  have "THREAD_ID ''t''" by code_simp
  moreover have "thread_buckets reading_builtins sample_memory ''t'' = Inr sample_buckets"
    by (simp add: thread_buckets_def sample_memory_def sample_buckets_def sample_owner)
  ultimately show ?thesis
    by (simp add: encodeCheckpointThread_def validateThreadId_def check_def) (simp add: sample_memory_def)
qed

lemma sample_hydrated_thread:
  "\<exists>roots. hydrated_thread reading_builtins sample_loads (serialized_thread ''t'' sample_storage sample_buckets sample_journal) =
     Inr (sample_storage, roots, sample_buckets)"
proof -
  have decoded: "decode_bytes (encode_bytes ''state'') = Inr ''state''" "decode_bytes (encode_bytes ''inner'') = Inr ''inner''"
    "decode_bytes (encode_bytes ''about'') = Inr ''about''" "decode_bytes (encode_bytes ''value'') = Inr ''value''"
    by (rule decode_encode, simp add: encode_bytes_def MAX_CHECKPOINT_FILE_BYTES_def)+
  have metadata: "validateCheckpointMetadata v = Inr ()" "repositoryCheckpointIdentity v = Inr None"
    "parse_replayMetadata reading_builtins v = Inr None" "sample_loads ''about'' = Inr v"
    if "v = JObj [(''source'', JStr ''loop''), (''step'', JNum (NInt 1)), (''parents'', JObj [])]" for v
    by (simp_all add: that validateCheckpointMetadata_def repositoryCheckpointIdentity_def parse_replayMetadata_def sample_loads_def)
  have empty_state: "validatePersistedWorkflowStructure (JObj []) = Inr ()" by code_simp
  have states: "validateCheckpoint (sample_checkpoint i) n i (n \<noteq> []) = Inr (JObj [])" if "i = ''c'' \<or> i = ''d''" for i n
    using that empty_state
    by (cases "n = []") (auto simp: validateCheckpoint_def sample_checkpoint_def validateVersions_def)
  have loads: "sample_loads ''state'' = Inr (sample_checkpoint ''c'')" "sample_loads ''inner'' = Inr (sample_checkpoint ''d'')"
    "sample_loads ''value'' = Inr JNull"
    by (simp_all add: sample_loads_def)
  have entries: "hydrate_checkpoint reading_builtins sample_loads [''c''] [] (''c'', encode_bytes ''state'', encode_bytes ''about'', None) =
      Inr (JObj [], ''c'', ''state'', ''about'', None)"
    "hydrate_checkpoint reading_builtins sample_loads [''c''] ''sub'' (''d'', encode_bytes ''inner'', encode_bytes ''about'', Some ''c'') =
      Inr (JObj [], ''d'', ''inner'', ''about'', Some ''c'')"
    using states[of "''c''" "[]"] states[of "''d''" "''sub''"] by (simp_all add: hydrate_checkpoint_def decoded loads metadata)
  have base: "validateEffectiveWorkflowState (JObj []) [(''branch'', JNull)] = Inr ()" by code_simp
  have bucket: "hydrate_bucket reading_builtins sample_loads ''t'' [(''c'', JObj [])]
      (sample_bucket_key, [encode_write (''w,0'', ''w'', ''branch'', ''value'')]) = Inr (hd sample_buckets)"
    by (simp add: hydrate_bucket_def sample_key hydrate_write_def encode_write_def decoded loads base map_last_def sample_buckets_def
        AList.updates_def)
  show ?thesis
    by (simp add: hydrated_thread_def serialized_thread_def sample_storage_def pending_roots_def sample_key hydrate_namespace_def
        encode_checkpoint_def entries root_states_def sample_buckets_def bucket[unfolded sample_buckets_def])
qed

lemma sample_hydrated:
  "\<exists>m'. hydrateCheckpointThread reading_builtins sample_loads \<lparr>msStorage = [], msWrites = []\<rparr>
     (3, serialized_thread ''t'' sample_storage sample_buckets sample_journal) = (m', Inr sample_journal)"
  using sample_hydrated_thread
  by (auto simp: hydrateCheckpointThread_def restoreThread_def Let_def) (simp_all add: serialized_thread_def)

section \<open>The keys of the journal are the reader's keys\<close>

lemma nat_text_length: "n < 10 ^ Suc k \<Longrightarrow> length (nat_text n) \<le> Suc k"
proof (induction k arbitrary: n)
  case 0
  then show ?case by (subst nat_text.simps) simp
next
  case (Suc k)
  then have "n div 10 < 10 ^ Suc k" by (simp add: less_mult_imp_div_less)
  from Suc.IH[OF this] show ?case by (subst nat_text.simps) simp
qed

lemma nat_text_hd: "0 < n \<Longrightarrow> hd (nat_text n) \<noteq> CHR ''0''"
proof (induction n rule: nat_text.induct)
  case (1 n)
  show ?case
  proof (cases "n < 10")
    case True
    have "code (char_of (48 + n)) \<noteq> code (CHR ''0'')" using 1(2) code_digit[OF True] by (simp add: code_def)
    then show ?thesis using True by (subst nat_text.simps) auto
  next
    case False
    with 1(1) have "hd (nat_text (n div 10)) \<noteq> CHR ''0''" by auto
    then show ?thesis using False by (subst nat_text.simps) (simp add: nat_text_nonempty)
  qed
qed

lemma decimal_nat_text: "decimal_text (nat_text n)" "decimal_value (nat_text n) = int n"
proof -
  show "decimal_text (nat_text n)"
  proof (cases "n = 0")
    case True
    have "nat_text 0 = ''0''" by code_simp
    then show ?thesis using True by (simp add: decimal_text_def)
  next
    case False
    then show ?thesis using nat_text_hd nat_text_nonempty nat_text_digits by (auto simp: decimal_text_def list_all_iff)
  qed
  show "decimal_value (nat_text n) = int n" by (simp add: decimal_value_def nat_text_value)
qed

lemma split_on_word: "d \<notin> set w \<Longrightarrow> split_on d w = [w]"
  by (induction w) auto

lemma split_on_separator: "d \<notin> set w \<Longrightarrow> split_on d (w @ d # r) = w # split_on d r"
  by (induction w) auto

lemma count_text:
  assumes "is_count i"
  shows "decimal_text (int_text i)" "decimal_value (int_text i) \<le> max_safe_integer" "length (int_text i) \<le> 16"
    "CHR '':'' \<notin> set (int_text i)"
proof -
  have i: "0 \<le> i" "i \<le> max_safe_integer" using assms by (auto simp: is_count_def is_safe_integer_def)
  then have t: "int_text i = nat_text (nat i)" by (simp add: int_text_def)
  have "nat i < 10 ^ Suc 15" using i by (simp add: max_safe_integer_def)
  then show "length (int_text i) \<le> 16" using nat_text_length[of "nat i" 15] t by simp
  show "decimal_text (int_text i)" "decimal_value (int_text i) \<le> max_safe_integer" using i by (simp_all add: t decimal_nat_text)
  show "CHR '':'' \<notin> set (int_text i)" using int_text_no_colon i by blast
qed

lemma journal_key_accepted:
  assumes "mutationKey B op = Inr key" and digest: "\<And>s. hex_text 64 (sha256_hex B s)"
  shows "isMutationKey key"
proof -
  have kind: "CHR '':'' \<notin> set (kind_text k)" "length (kind_text k) \<le> 9" "kind_text k = ''implement'' \<or> kind_text k = ''repair''" for k
    by (cases k; simp add: kind_text_def)+
  have colon: "CHR '':'' \<notin> set (sha256_hex B s)" "length (sha256_hex B s) = 64" for s
    using digest[of s] by (auto simp: hex_text_def list_all_iff is_hex_char_def is_digit_char_def code_def)
  have plain: "isMutationKey (kind_text k @ CHR '':'' # int_text i)" if "is_count i" for k i
    using count_text[OF that] kind[of k] by (auto simp: isMutationKey_def split_on_word split_on_separator)
  have scoped: "isMutationKey (''v3'' @ CHR '':'' # sha256_hex B s @ CHR '':'' # kind_text k @ CHR '':'' # int_text i)"
    if "is_count i" for k i s
  proof -
    have "split_on (CHR '':'') (''v3'' @ CHR '':'' # sha256_hex B s @ CHR '':'' # kind_text k @ CHR '':'' # int_text i) =
        [''v3'', sha256_hex B s, kind_text k, int_text i]"
      by (subst split_on_separator, simp) (simp add: split_on_separator split_on_word kind colon count_text[OF that])
    then show ?thesis using count_text[OF that] kind[of k] colon digest by (auto simp: isMutationKey_def)
  qed
  show ?thesis
    using assms(1) plain scoped
    by (cases "moWorkspaceId op"; cases "moPlanId op"; cases "moChangeId op"; cases "moAttempt op")
      (auto simp: mutationKey_def split: if_splits)
qed

section \<open>Properties\<close>

text \<open>
  Claim C11 (thread_reload_needs_bounds). What a process writes of a thread is read back, by itself
  or another process, exactly when the thread keeps the reader's bounds: at most 64 namespaces of
  at most 256 checkpoints, 2048 checkpoints in all, 2048 buckets of 256 writes, 64 journal entries
  with keys of the journal's form, and the lengths of the texts. The writer checks none of them: a
  thread that grew beyond one is written, and the file is set aside as corrupt when it is loaded.
\<close>
theorem thread_reload_needs_bounds:
  assumes "reads_threads B" "encodeCheckpointThread B m t mutations = Inr text" "snapshotThread B m t = Inr (storage, bs)"
  shows "parseSerializedThread B text =
    (let d = serialized_thread t (case storage of None \<Rightarrow> [] | Some s \<Rightarrow> s) bs mutations
     in if thread_bounded d then Inr (3, d) else Inl thread_error)"
  by (rule thread_file_accepted[OF assms])

text \<open>
  Claim C10 (thread_file_roundtrip). A thread that is written, read and hydrated into the memory of
  any process is there what it was: the checkpoints of every namespace with their parents, the
  pending writes and the journal, byte for byte; the other threads of that memory are unchanged.
\<close>
theorem thread_file_roundtrip:
  assumes "reads_threads B" "objects_ok m" "snapshotThread B m t = Inr (storage, bs)"
    and written: "encodeCheckpointThread B m t mutations = Inr text"
    and read: "parseSerializedThread B text = Inr v" "hydrateCheckpointThread B L m0 v = (m', Inr mutations')"
  shows "mutations' = mutations \<and> snapshotThread B m' t = Inr (Some (case storage of None \<Rightarrow> [] | Some s \<Rightarrow> s), bs) \<and>
    (u \<noteq> t \<longrightarrow> snapshotThread B m' u = snapshotThread B m0 u)"
proof -
  let ?s = "case storage of None \<Rightarrow> [] | Some s \<Rightarrow> s"
  let ?d = "serialized_thread t ?s bs mutations"
  have v: "v = (3, ?d)" "thread_bounded ?d"
    using thread_file_accepted[OF assms(1) written assms(3)] read(1) by (auto simp: Let_def split: if_splits)
  have bs: "bs = filter (owner B t) (msWrites m)" using assms(3) by (simp add: snapshot_eq)
  then have distinct: "distinct (map fst bs)" "\<forall>b \<in> set bs. distinct (map fst (snd b))"
    using assms(2) by (auto simp: objects_ok_def list_all_iff distinct_map_filter)
  obtain ns roots buckets m1 where hydrated: "hydrated_thread B L ?d = Inr (ns, roots, buckets)"
    and m1: "restoreThread B m0 t (None, []) = (m1, Inr ())"
    and m': "m' = \<lparr>msStorage = AList.update t ns (msStorage m1), msWrites = put_buckets buckets (msWrites m1)\<rparr>"
    and mutations: "mutations' = mutations"
    using read(2) by (auto simp: v hydrateCheckpointThread_def serialized_thread_def split: sum.splits prod.splits)
  note h = hydrated_encoded[OF hydrated v(2) distinct(2)]
  have "map_of (msStorage m') t = Some ?s" "u \<noteq> t \<longrightarrow> map_of (msStorage m') u = map_of (msStorage m0) u"
    using h restore_thread_ok(2)[OF m1, of u] by (auto simp: m' AList.update_conv')
  moreover have "msWrites m' = filter (\<lambda>b. \<not> owner B t b) (msWrites m0) @ bs"
    using h restore_thread_ok(4)[OF m1] put_buckets_fresh[OF distinct(1)] by (simp add: m')
  ultimately show ?thesis
    using restored_snapshot[of m' t "Some ?s" u m0 B bs] restore_thread_ok(3)[OF m1] h mutations by simp
qed

text \<open>The files of two checkpoints with a pending write, and of a namespace of 257 checkpoints.\<close>

lemma thread_file_roundtrip_witness:
  "\<exists>m'. hydrateCheckpointThread reading_builtins sample_loads \<lparr>msStorage = [], msWrites = []\<rparr>
      (3, serialized_thread ''t'' sample_storage sample_buckets sample_journal) = (m', Inr sample_journal) \<and>
    snapshotThread reading_builtins m' ''t'' = Inr (Some sample_storage, sample_buckets)"
proof -
  obtain m' where m': "hydrateCheckpointThread reading_builtins sample_loads \<lparr>msStorage = [], msWrites = []\<rparr>
     (3, serialized_thread ''t'' sample_storage sample_buckets sample_journal) = (m', Inr sample_journal)"
    using sample_hydrated by blast
  have "parseSerializedThread reading_builtins (thread_text (serialized_thread ''t'' sample_storage sample_buckets sample_journal)) =
      Inr (3, serialized_thread ''t'' sample_storage sample_buckets sample_journal)"
    by (simp add: parse_thread_text[OF reads_threads_reading] sample_bounded)
  from thread_file_roundtrip[OF reads_threads_reading sample_snapshot(2,1) sample_encoded this m'] m'
  show ?thesis by auto
qed

lemma long_thread_facts:
  "snapshotThread reading_builtins long_memory ''t'' =
     Inr (Some [('''', map (\<lambda>i. (nat_text i, (''state'', ''about'', None))) [0..<257])], [])"
  "\<exists>text. encodeCheckpointThread reading_builtins long_memory ''t'' [] = Inr text"
proof -
  have "THREAD_ID ''t''" by code_simp
  then show "\<exists>text. encodeCheckpointThread reading_builtins long_memory ''t'' [] = Inr text"
    by (simp add: encodeCheckpointThread_def validateThreadId_def check_def thread_buckets_def long_memory_def del: upt_rec_numeral)
  show "snapshotThread reading_builtins long_memory ''t'' =
     Inr (Some [('''', map (\<lambda>i. (nat_text i, (''state'', ''about'', None))) [0..<257])], [])"
    by (simp add: snapshotThread_def thread_buckets_def long_memory_def del: upt_rec_numeral)
qed

lemma thread_reload_needs_bounds_witness:
  "\<exists>text. encodeCheckpointThread reading_builtins long_memory ''t'' [] = Inr text \<and>
     parseSerializedThread reading_builtins text = Inl thread_error"
proof -
  obtain t where t: "encodeCheckpointThread reading_builtins long_memory ''t'' [] = Inr t"
    using long_thread_facts(2) by blast
  show ?thesis
    using t thread_reload_needs_bounds[OF reads_threads_reading t long_thread_facts(1)]
    by (simp add: Let_def thread_bounded_def serialized_thread_def namespace_bounded_def MAX_CHECKPOINTS_PER_NAMESPACE_def del: upt_rec_numeral)
qed

end
