(* ===== verification/Spec2Isabelle.thy ===== *)
theory Spec2Isabelle
  imports ExecutionPlan Parsers Compiler RiskPolicy MutationJournal Routing ChangeSubgraph WorkerNodes
    Graph PersistedState ReviewReload Projection Candidates Canonical Bridge IntentStore SessionBridge
    EffectLedger Replay JsonText FileLock Effects CandidateManager Promotion CoordinatorStore Coordinator SourceTree
    MutationScope ThreadFile
begin

text \<open>
  The LangGraph coding workflow of pi-langgraph: what the extension does between a coding request
  and its delivery, modelled from the TypeScript sources under \<open>src/src\<close>.

  \<^bold>\<open>The program.\<close> A request (\<open>workflow/compiler.ts\<close>) is compiled into a review or a delivery and
  run as a graph of nodes (\<open>workflow/graph.ts\<close>): workers discover work items, specialists examine them
  in parallel, a collector may ask for up to two further rounds, and a delivery then executes the
  changes of a plan (\<open>workflow/execution-plan.ts\<close>) one by one, with an approval where the risk
  policy asks for one (\<open>workflow/risk-policy.ts\<close>), verifies on the host, diagnoses and repairs
  within a bound, and synthesizes a report. Every mutation is claimed in a journal
  (\<open>persistence/mutation-journal.ts\<close>) before its worker starts, runs in an isolated copy of the
  repository and is published by a transaction on the source tree (\<open>repository/mutation-scope.ts\<close>,
  \<open>source-tree-transaction.ts\<close>). The state of a thread is written to a checkpoint file after every
  superstep and validated when it is read again (\<open>persistence/workflow-state-validation.ts\<close>). A
  failed delivery may be backtracked: a preflight (\<open>workflow/backtrack.ts\<close>) compares fingerprints and
  the ledger of effects, a coordinator runs two candidate repairs in worktrees of their own, scores
  them and promotes the winner (\<open>workflow/backtrack-coordinator.ts\<close>, \<open>workspace/\<close>,
  \<open>repository/candidate-promotion.ts\<close>). A bridge links entries of the host's session to checkpoints, so
  that navigating the session can resume a workflow (\<open>bridge/\<close>). Processes exclude each other by lock
  files (\<open>persistence/file-lock.ts\<close>).

  \<^bold>\<open>Conventions.\<close> Text is a list of characters that stand for UTF-16 code units; a value of type
  \<open>unknown\<close> is a \<open>js\<close>; a thrown error is the left of a sum, \<open>error + 'a\<close>, with the classes and codes
  that handlers inspect; interfaces are records and tagged unions datatypes. Counters and
  times are integers, where the source has doubles that it checks to be safe integers. \<open>JSON.parse\<close>,
  \<open>JSON.stringify\<close>, SHA-256 and \<open>localeCompare\<close> are the fields of a record \<open>builtins\<close> that the
  definitions take; where a theorem needs it, it assumes that a printed value is read back
  (\<open>JsonText\<close> has a reader for which this is proved) or that a digest pins its text. Workers, models,
  git, clocks and other processes are answers of an environment over which the theorems quantify.

  \<^bold>\<open>Shared theories.\<close>
    \<^item> \<open>Prelude\<close>: dynamic values, results, text, decimal numbers, stable sorting, the built-ins.
    \<^item> \<open>Readers\<close>: the contracts of field readers as locales (\<open>text_reader\<close>, \<open>array_reader\<close>,
      \<open>text_list_reader\<close>), interpreted for the readers of each parser.
    \<^item> \<open>WorkflowTypes\<close>: the types of \<open>workflow/types.ts\<close>, \<open>evidence/types.ts\<close> and the journal.
    \<^item> \<open>JsonText\<close>: a JSON reader for the printed values, the instance of the built-ins in examples.
    \<^item> \<open>Effects\<close>: programs whose awaited effects each happen, fail before or after taking effect, or
      die with the process before or after; Hoare triples and weakest preconditions over all these
      fates. What survives a death is the world.

  \<^bold>\<open>The workflow.\<close>
    \<^item> \<open>ExecutionPlan\<close> (\<open>execution-plan.ts\<close>): the parser of plans accepts exactly the
      documents that describe a well-formed plan; the counting sort over dependencies decides acyclicity; transitions only append.
    \<^item> \<open>Parsers\<close> (\<open>parsers.ts\<close>): extraction of an object from worker text by the brace scanner, and
      the bounded results of every worker parser.
    \<^item> \<open>Compiler\<close> (\<open>compiler.ts\<close>, \<open>discovery-worker.ts\<close>), \<open>RiskPolicy\<close> (\<open>risk-policy.ts\<close>).
    \<^item> \<open>MutationJournal\<close> (\<open>mutation-journal.ts\<close>, \<open>file-checkpoint-saver.ts\<close>,
      \<open>legacy-mutation-migration.ts\<close>): the locale \<open>mutation_journal\<close>, interpreted for the memory and the
      file journal: every mutation is handed out at most once, over all crashes.
    \<^item> \<open>Routing\<close> (\<open>workflow-state.ts\<close>, \<open>routing-nodes.ts\<close>), \<open>ChangeSubgraph\<close> (\<open>change-subgraph.ts\<close>,
      \<open>mutation-reconciliation.ts\<close>, \<open>host-verification.ts\<close>), \<open>WorkerNodes\<close> (\<open>worker-nodes.ts\<close>): the channels with
      their reducers and the nodes.
    \<^item> \<open>Graph\<close> (\<open>graph.ts\<close>): the step function of the graph with arbitrary workers, interrupts,
      crashes and resumptions; an invariant per node gives the safety properties; a run as the list of
      its inputs ties a completed delivery to the superstep in which the host verified it. A measure bounds every
      run by \<open>47 + 35 * m\<close> supersteps for \<open>m\<close> repair iterations; conversely a delivery of \<open>n\<close> changes
      needs \<open>9 + 2 * n\<close> supersteps, more than the recursion limit of the compiler for \<open>n > 5\<close>.
    \<^item> \<open>PersistedState\<close> (\<open>workflow-*-validation.ts\<close>) and \<open>ReviewReload\<close>: the validators of the loader,
      which take back every state of a review and refuse the end of an escalated plan.
    \<^item> \<open>Projection\<close> (\<open>result-projection.ts\<close>): what the caller of a finished run sees:
      the changes that its mutations reported, their risks, and the findings in order.
    \<^item> \<open>Candidates\<close> (\<open>candidate-scoring.ts\<close>, \<open>backtrack-policy.ts\<close>, \<open>automatic-backtrack-policy.ts\<close>).

  \<^bold>\<open>Sessions.\<close> \<open>Canonical\<close> (\<open>canonical.ts\<close>): canonical text is equal exactly for values equal up to
  the order of members. \<open>Bridge\<close> (\<open>codec.ts\<close>, \<open>contract-validation.ts\<close>): links and their round trip.
  \<open>IntentStore\<close> (\<open>store-format.ts\<close>, \<open>store.ts\<close>): every operation on the text of the file refines an
  operation on a table of intents, and an intent is consumed once. \<open>SessionBridge\<close>
  (\<open>session-checkpoint-bridge.ts\<close>): resolution ends on cyclic sessions too; a walk needs at most one step
  for each entry, which is the fuel that the proofs supply.

  \<^bold>\<open>Backtracking.\<close> \<open>EffectLedger\<close> (\<open>effect-ledger.ts\<close>), \<open>Replay\<close> (\<open>replay-compatibility.ts\<close>,
  \<open>checkpoint-replay-metadata.ts\<close>, \<open>backtrack.ts\<close>): what a fingerprint pins and what passes the
  preflight. \<open>CandidateManager\<close> (\<open>candidate-worktree-*.ts\<close>), \<open>Promotion\<close> (\<open>candidate-promotion.ts\<close>,
  \<open>candidate-promotion-record.ts\<close>), \<open>CoordinatorStore\<close> and \<open>Coordinator\<close> (\<open>backtrack-coordinator*.ts\<close>):
  programs with effects. The locale \<open>coordinator_invariant\<close> states what an invariant of the
  coordinator's history owes to each step; its interpretations give that every candidate is started once
  and that a verdict is final.

  \<^bold>\<open>Files shared by processes.\<close> \<open>FileLock\<close> (\<open>file-lock.ts\<close>): any number of callers as a step relation over
  the directory of a lock, with its invariant by rule induction, and the deaths after which it is
  lost. \<open>ThreadFile\<close>
  (\<open>file-checkpoint-format.ts\<close>, \<open>checkpoint-thread-codec.ts\<close> and their neighbours): the text of a thread, read
  back exactly within the reader's bounds, and the memory that hydrating it restores. \<open>SourceTree\<close>
  (\<open>source-tree-transaction.ts\<close>): directory trees, the transaction, and the locale \<open>publisher\<close> for what the
  program that replaces the paths must promise; \<open>MutationScope\<close> (\<open>mutation-scope.ts\<close>,
  \<open>mutation-output.ts\<close>, \<open>candidate-promotion-files.ts\<close>) interprets it for the changes of a worker and for
  the files of a candidate, and confines every single write of a run to the paths it may publish.

  \<^bold>\<open>Bounds.\<close> The constants of the sources keep their names (\<open>MAX_WORK_ITEMS\<close>, \<open>MAX_PLAN_CHANGES\<close> and
  so on) and are part of the definitions; the loops of the source that end structurally are
  recursions on their lists, the others carry termination proofs or fuel together with a lemma that
  enough fuel gives a result (the walk of a session, the supersteps of a run).

  \<^bold>\<open>Not modelled.\<close> Code that only moves data to and from packages and the operating system:
  the streaming runtime of the graph and its events (\<open>runtime.ts\<close>, \<open>runtime-control.ts\<close>,
  \<open>stream-events.ts\<close>), whose behaviour is that of the LangGraph package; forks of threads
  (\<open>forks.ts\<close>); artifact files and their retention; snapshots
  of repositories and calls of git; the spawning of scripts (\<open>evidence/runner.ts\<close>); the repository
  memory, the read-only cache, the worktrees of sessions; the registration with the host
  application (\<open>index.ts\<close>, \<open>executors.ts\<close>, \<open>bridge/extension-lifecycle*.ts\<close>) and the dispatchers under
  \<open>runtime/\<close> that construct the services and render results. Wordings of prompts and messages are
  dropped where no code inspects them. Times of locks and retries are nondeterministic choices;
  a walk through a directory tree and a recursive copy are single effects.
\<close>

end
